(* ===== verification/Prelude.thy ===== *)
theory Prelude
  imports Main "HOL-Library.Monad_Syntax"
begin

unbundle bit_operations_syntax

text \<open>
  Shared ground of the development: the machine integers of the C sources, arrays with
  checked access, and the loop schemes the component theories are written with.

  \<^item> A \<open>jint\<close> (and a C \<open>int\<close>) is an \<^typ>\<open>int\<close> in \<open>-2^31 .. 2^31 - 1\<close>, a \<open>jlong\<close> one in
    \<open>-2^63 .. 2^63 - 1\<close>. The functions \<open>i32\<close> and \<open>i64\<close> wrap a mathematical result to the width;
    every expression of the sources that can leave the width is written under one of them.
    A single wrap around a sum of products is the same as a wrap after each operation.
  \<^item> The C shift \<open>x >> n\<close> of a signed value is \<open>drop_bit n x\<close>, \<open>x << n\<close> is
    \<open>push_bit n x\<close> (under a wrap), and \<open>& | ^ ~\<close> are \<open>AND OR XOR NOT\<close>.
  \<^item> An array is a list. \<open>aget\<close> and \<open>aset\<close> answer \<open>None\<close> outside it; the null pointer is the
    empty array, so that every access through it is \<open>None\<close>. A function of type
    \<open>\<dots> option\<close> answers \<open>None\<close> exactly where the C function has undefined behaviour (an access
    outside an array, a call through a null pointer, a division by zero) or never returns.
\<close>

named_theorems wrap_simps \<open>removal of width wraps under range conditions\<close>
named_theorems array_simps \<open>checked array access\<close>
named_theorems model_defs \<open>definitions of the model that proofs unfold freely\<close>

type_synonym jint = int
type_synonym jlong = int
type_synonym jbyte = int

section \<open>Two's complement widths\<close>

definition i32 :: "int \<Rightarrow> jint" where
  "i32 x = signed_take_bit 31 x"

definition i64 :: "int \<Rightarrow> jlong" where
  "i64 x = signed_take_bit 63 x"

definition is_i32 :: "int \<Rightarrow> bool" where
  "is_i32 x \<longleftrightarrow> - (2 ^ 31) \<le> x \<and> x < 2 ^ 31"

definition is_i64 :: "int \<Rightarrow> bool" where
  "is_i64 x \<longleftrightarrow> - (2 ^ 63) \<le> x \<and> x < 2 ^ 63"

lemma i32_id [wrap_simps]: "is_i32 x \<Longrightarrow> i32 x = x"
  by (simp add: i32_def is_i32_def signed_take_bit_int_eq_self)

lemma i64_id [wrap_simps]: "is_i64 x \<Longrightarrow> i64 x = x"
  by (simp add: i64_def is_i64_def signed_take_bit_int_eq_self)

lemma is_i32_i32 [simp]: "is_i32 (i32 x)"
  using signed_take_bit_int_greater_eq_minus_exp [of 31 x] signed_take_bit_int_less_exp [of 31 x]
  by (simp add: is_i32_def i32_def)

lemma i32_i32 [simp]: "i32 (i32 x) = i32 x"
  by (simp add: i32_id)

lemma i32_mod: "i32 x = (x + 2 ^ 31) mod 2 ^ 32 - 2 ^ 31"
  by (simp add: i32_def signed_take_bit_eq_take_bit_shift take_bit_eq_mod)

lemma i64_mod: "i64 x = (x + 2 ^ 63) mod 2 ^ 64 - 2 ^ 63"
  by (simp add: i64_def signed_take_bit_eq_take_bit_shift take_bit_eq_mod)

lemma i32_small [wrap_simps]: "0 \<le> x \<Longrightarrow> x < 2147483648 \<Longrightarrow> i32 x = x"
  by (rule i32_id) (simp add: is_i32_def)

lemma i64_small [wrap_simps]: "0 \<le> x \<Longrightarrow> x < 9223372036854775808 \<Longrightarrow> i64 x = x"
  by (rule i64_id) (simp add: is_i64_def)

text \<open>Wrapping inside a sum or a product changes nothing: one wrap per expression is enough.\<close>

lemma i32_cong: "i32 x = i32 y \<longleftrightarrow> x mod 2 ^ 32 = y mod 2 ^ 32"
proof -
  have "i32 x = i32 y \<longleftrightarrow> (x + 2 ^ 31) mod 2 ^ 32 = (y + 2 ^ 31) mod 2 ^ 32"
    by (simp add: i32_mod)
  also have "\<dots> \<longleftrightarrow> x mod 2 ^ 32 = y mod 2 ^ 32"
    by (simp add: mod_eq_dvd_iff)
  finally show ?thesis .
qed

lemma i32_mod_eq: "i32 x mod 2 ^ 32 = x mod 2 ^ 32"
  using i32_i32 [of x] by (simp only: i32_cong)

lemma i32_add_wrap: "i32 (i32 x + y) = i32 (x + y)"
  using i32_mod_eq [of x] by (simp only: i32_cong) (metis mod_add_left_eq)

lemma i32_add_eq: "i32 x = i32 y \<Longrightarrow> i32 (x + z) = i32 (y + z)"
  by (metis i32_add_wrap)

lemma i32_mult_wrap: "i32 (i32 x * y) = i32 (x * y)"
  using i32_mod_eq [of x] by (simp only: i32_cong) (metis mod_mult_left_eq)

text \<open>Division of C, which rounds to zero.\<close>

definition cdiv :: "int \<Rightarrow> int \<Rightarrow> int" where
  "cdiv a b = sgn a * sgn b * (\<bar>a\<bar> div \<bar>b\<bar>)"

lemma cdiv_pos [simp]: "0 \<le> a \<Longrightarrow> 0 < b \<Longrightarrow> cdiv a b = a div b"
  by (cases "a = 0") (simp_all add: cdiv_def)

text \<open>A floor division between its two linear bounds.\<close>

lemma div_between: "(0::int) < k \<Longrightarrow> a - k < k * (a div k) \<and> k * (a div k) \<le> a"
  using pos_mod_bound [of k a] pos_mod_sign [of k a] mult_div_mod_eq [of k a] by linarith

lemma zdiv_less_iff:
  fixes a b c :: int
  assumes "0 < b"
  shows "a div b < c \<longleftrightarrow> a < b * c"
proof
  assume "a div b < c"
  then have "b * (a div b + 1) \<le> b * c" using assms by (intro mult_left_mono) auto
  moreover have "a < b * (a div b + 1)" using pos_mod_bound [OF assms, of a] by (simp add: algebra_simps flip: minus_mult_div_eq_mod)
  ultimately show "a < b * c" by linarith
next
  assume "a < b * c"
  moreover have "b * (a div b) \<le> a" using pos_mod_sign [OF assms, of a] by (simp flip: minus_mult_div_eq_mod)
  ultimately have "b * (a div b) < b * c" by linarith
  with assms show "a div b < c" by simp
qed

section \<open>Arrays\<close>

definition aget :: "'a list \<Rightarrow> int \<Rightarrow> 'a option" where
  "aget xs i = (if 0 \<le> i \<and> i < int (length xs) then Some (xs ! nat i) else None)"

definition aset :: "'a list \<Rightarrow> int \<Rightarrow> 'a \<Rightarrow> 'a list option" where
  "aset xs i v = (if 0 \<le> i \<and> i < int (length xs) then Some (xs[nat i := v]) else None)"

lemma aget_in [array_simps]: "0 \<le> i \<Longrightarrow> i < int (length xs) \<Longrightarrow> aget xs i = Some (xs ! nat i)"
  by (simp add: aget_def)

lemma aset_in [array_simps]: "0 \<le> i \<Longrightarrow> i < int (length xs) \<Longrightarrow> aset xs i v = Some (xs[nat i := v])"
  by (simp add: aset_def)

lemma aget_None_iff: "aget xs i = None \<longleftrightarrow> i < 0 \<or> int (length xs) \<le> i"
  by (auto simp: aget_def)

lemma aset_Some_iff: "aset xs i v = Some ys \<longleftrightarrow> 0 \<le> i \<and> i < int (length xs) \<and> ys = xs[nat i := v]"
  by (auto simp: aset_def)

lemma aget_Nil [simp]: "aget [] i = None" and aset_Nil [simp]: "aset [] i v = None"
  by (simp_all add: aget_def aset_def)

text \<open>
  Block transfers: \<open>aread\<close> and \<open>awrite\<close> move \<open>n\<close> cells at once, as \<open>memcpy\<close> and \<open>memset\<close> do.
  An empty transfer touches nothing and is defined everywhere.
\<close>

definition aread :: "'a list \<Rightarrow> int \<Rightarrow> nat \<Rightarrow> 'a list option" where
  "aread xs i n =
     (if n = 0 then Some []
      else if 0 \<le> i \<and> i + int n \<le> int (length xs) then Some (take n (drop (nat i) xs)) else None)"

definition awrite :: "'a list \<Rightarrow> int \<Rightarrow> 'a list \<Rightarrow> 'a list option" where
  "awrite xs i ys =
     (if ys = [] then Some xs
      else if 0 \<le> i \<and> i + int (length ys) \<le> int (length xs)
      then Some (take (nat i) xs @ ys @ drop (nat i + length ys) xs) else None)"

lemma aread_length: "aread xs i n = Some ys \<Longrightarrow> length ys = n"
  by (auto simp: aread_def split: if_splits)

lemma aread_nth: "aread xs i n = Some ys \<Longrightarrow> k < n \<Longrightarrow> ys ! k = xs ! (nat i + k)"
  by (auto simp: aread_def split: if_splits)

lemma awrite_length: "awrite xs i ys = Some zs \<Longrightarrow> length zs = length xs"
  by (auto simp: awrite_def split: if_splits)

lemma awrite_nth:
  assumes "awrite xs i ys = Some zs" "k < length xs"
  shows "zs ! k = (if i \<le> int k \<and> int k < i + int (length ys) then ys ! nat (int k - i) else xs ! k)"
proof (cases "ys = []")
  case False
  with assms have i: "0 \<le> i" "nat i + length ys \<le> length xs"
    and zs: "zs = take (nat i) xs @ ys @ drop (nat i + length ys) xs"
    by (auto simp: awrite_def split: if_splits)
  have "k < nat i \<or> (nat i \<le> k \<and> k < nat i + length ys) \<or> nat i + length ys \<le> k" by linarith
  with i assms(2) show ?thesis
    by (auto simp: zs nth_append nat_diff_distrib min_def le_nat_iff nat_le_iff)
qed (use assms in \<open>auto simp: awrite_def\<close>)

lemma awrite_in:
  "0 \<le> i \<Longrightarrow> i + int (length ys) \<le> int (length xs) \<Longrightarrow> \<exists>zs. awrite xs i ys = Some zs"
  by (simp add: awrite_def)

text \<open>\<open>filled d W f\<close>: the array \<open>d\<close> with the cells at the positions \<open>W\<close> set to what \<open>f\<close> says.\<close>

definition filled :: "'a list \<Rightarrow> nat set \<Rightarrow> (nat \<Rightarrow> 'a) \<Rightarrow> 'a list" where
  "filled d W f = map (\<lambda>x. if x \<in> W then f x else d ! x) [0..<length d]"

lemma filled_empty [simp]: "filled d {} f = d"
  by (simp add: filled_def map_nth)

lemma filled_length [simp]: "length (filled d W f) = length d"
  by (simp add: filled_def)

lemma filled_nth: "x < length d \<Longrightarrow> filled d W f ! x = (if x \<in> W then f x else d ! x)"
  by (simp add: filled_def)

lemma aset_filled:
  assumes "q < length d" "p = int q" "v = f q"
  shows "aset (filled d W f) p v = Some (filled d (insert q W) f)"
proof -
  have "(filled d W f)[q := f q] = filled d (insert q W) f"
    by (rule nth_equalityI) (use assms in \<open>auto simp: filled_nth nth_list_update\<close>)
  with assms show ?thesis by (simp add: aset_def)
qed

lemma awrite_run_filled:
  assumes "i = int q" "xs = map f [q..<q + n]" "q + n \<le> length d"
  shows "awrite (filled d W f) i xs = Some (filled d ({q..<q + n} \<union> W) f)"
proof (cases "n = 0")
  case False
  obtain ys where ys: "awrite (filled d W f) i xs = Some ys"
    using awrite_in [of i xs "filled d W f"] assms by auto
  have "ys = filled d ({q..<q + n} \<union> W) f"
  proof (rule nth_equalityI)
    show l: "length ys = length (filled d ({q..<q + n} \<union> W) f)" using awrite_length [OF ys] by simp
    fix k assume "k < length ys"
    with l have k: "k < length d" by simp
    have "int q \<le> int k \<and> int k < int q + int (length xs) \<longleftrightarrow> k \<in> {q..<q + n}" using assms(2) by auto
    moreover have "nat (int k - int q) = k - q" by simp
    ultimately show "ys ! k = filled d ({q..<q + n} \<union> W) f ! k"
      using awrite_nth [OF ys, of k] k assms(1,2) by (auto simp: filled_nth nth_map_upt)
  qed
  with ys show ?thesis by simp
qed (use assms in \<open>simp add: awrite_def\<close>)

section \<open>Loops\<close>

text \<open>
  \<open>iter_opt n body s\<close> is a counted loop of \<open>n\<close> passes. \<open>span\<close> is the pointer loop
  \<open>while (a < am) { body; a += step; }\<close>: it answers the final pointer and state, and \<open>None\<close>
  when the step is not positive, where the C loop does not end.
\<close>

fun iter_opt :: "nat \<Rightarrow> ('s \<Rightarrow> 's option) \<Rightarrow> 's \<Rightarrow> 's option" where
  "iter_opt 0 body s = Some s"
| "iter_opt (Suc n) body s = do { s' \<leftarrow> body s; iter_opt n body s' }"

function span :: "(int \<Rightarrow> 's \<Rightarrow> 's option) \<Rightarrow> int \<Rightarrow> int \<Rightarrow> int \<Rightarrow> 's \<Rightarrow> (int \<times> 's) option" where
  "span body step a am s =
     (if a < am then
        if step \<le> 0 then None
        else (case body a s of None \<Rightarrow> None | Some s' \<Rightarrow> span body step (a + step) am s')
      else Some (a, s))"
  by pat_completeness auto
termination
  by (relation "measure (\<lambda>(body, step, a, am, s). nat (am - a))") auto

declare span.simps [simp del]

lemma span_end [simp]: "am \<le> a \<Longrightarrow> span body step a am s = Some (a, s)"
  by (simp add: span.simps)

lemma span_step:
  "a < am \<Longrightarrow> 0 < step \<Longrightarrow> span body step a am s = do { s' \<leftarrow> body a s; span body step (a + step) am s' }"
  by (simp add: span.simps [of body step a] split: option.split)

lemma iter_opt_add: "iter_opt (m + n) body s = do { s' \<leftarrow> iter_opt m body s; iter_opt n body s' }"
  by (induction m arbitrary: s) (auto split: bind_splits)

text \<open>An invariant of the body that also guarantees progress: the loop returns, and keeps it.\<close>

lemma iter_opt_inv:
  assumes "\<And>s. I s \<Longrightarrow> \<exists>s'. body s = Some s' \<and> I s'" and "I s"
  shows "\<exists>s'. iter_opt n body s = Some s' \<and> I s'"
  using assms(2)
proof (induction n arbitrary: s)
  case (Suc n)
  from assms(1) [OF Suc.prems] obtain s1 where "body s = Some s1" "I s1" by blast
  with Suc.IH [of s1] show ?case by auto
qed simp

lemma iter_opt_counter_inv:
  assumes step: "\<And>k s. k < n \<Longrightarrow> I k s \<Longrightarrow> \<exists>s'. body s = Some s' \<and> I (Suc k) s'" and "I 0 s"
  shows "\<exists>s'. iter_opt n body s = Some s' \<and> I n s'"
proof -
  have "\<exists>s'. iter_opt m body t = Some s' \<and> I n s'" if "m + k = n" "I k t" for m k t
    using that
  proof (induction m arbitrary: k t)
    case (Suc m)
    then have "k < n" by simp
    from step [OF this \<open>I k t\<close>] obtain t1 where "body t = Some t1" "I (Suc k) t1" by blast
    with Suc.IH [of "Suc k" t1] Suc.prems show ?case by auto
  qed simp
  from this [of n 0 s] \<open>I 0 s\<close> show ?thesis by simp
qed

end
