(* ===== verification/PiscesPixel.thy ===== *)
theory PiscesPixel
  imports Prelude
begin

unbundle bit_operations_syntax

text \<open>
  Pixel arithmetic of the software renderer, \<open>native-prism-sw/PiscesBlit.c\<close>: the packed
  premultiplied ARGB pixel, the division by 255 and the six blend functions. A blend function
  of the source reads and writes one pixel through \<open>intData\<close>; here it takes the old value of
  the pixel and answers the new one.

  The lemmas show that, for channel values, no blend carries from one channel into the next,
  that the result is the exact Porter-Duff value rounded down, and that the surface invariant
  "no colour channel exceeds alpha" is kept.
\<close>

section \<open>Model\<close>

definition MAX_ALPHA :: jint where
  "MAX_ALPHA = 255"

definition div255 :: "jint \<Rightarrow> jint" where
  "div255 x = drop_bit 16 (i32 (x * 257 + 257))"

definition px_A :: "jint \<Rightarrow> jint" where
  "px_A x = drop_bit 24 x AND 0xFF"

definition px_R :: "jint \<Rightarrow> jint" where
  "px_R x = drop_bit 16 x AND 0xFF"

definition px_G :: "jint \<Rightarrow> jint" where
  "px_G x = drop_bit 8 x AND 0xFF"

definition px_B :: "jint \<Rightarrow> jint" where
  "px_B x = x AND 0xFF"

definition pack :: "jint \<Rightarrow> jint \<Rightarrow> jint \<Rightarrow> jint \<Rightarrow> jint" where
  "pack a r g b = i32 (push_bit 24 a OR push_bit 16 r OR push_bit 8 g OR b)"

definition blendSrcOver8888_pre :: "jint \<Rightarrow> jint \<Rightarrow> jint \<Rightarrow> jint \<Rightarrow> jint \<Rightarrow> jint" where
  "blendSrcOver8888_pre ival aval sred sgreen sblue =
     (let dalpha = px_A ival; dred = px_R ival; dgreen = px_G ival; dblue = px_B ival;
          oneminusaval = i32 (255 - aval);
          oalpha = div255 (i32 (255 * aval + oneminusaval * dalpha));
          ored = div255 (i32 (sred * aval + oneminusaval * dred));
          ogreen = div255 (i32 (sgreen * aval + oneminusaval * dgreen));
          oblue = div255 (i32 (sblue * aval + oneminusaval * dblue))
      in pack oalpha ored ogreen oblue)"

definition blendSrcOver8888_pre_pre ::
    "jint \<Rightarrow> jint \<Rightarrow> jint \<Rightarrow> jint \<Rightarrow> jint \<Rightarrow> jint \<Rightarrow> jint" where
  "blendSrcOver8888_pre_pre ival frac aval sred sgreen sblue =
     (let dalpha = px_A ival; dred = px_R ival; dgreen = px_G ival; dblue = px_B ival;
          aval2 = drop_bit 8 (i32 (aval * frac));
          oneminusaval = i32 (255 - aval2);
          oalpha = i32 (aval2 + div255 (i32 (oneminusaval * dalpha)));
          ored = i32 (drop_bit 8 (i32 (sred * frac)) + div255 (i32 (oneminusaval * dred)));
          ogreen = i32 (drop_bit 8 (i32 (sgreen * frac)) + div255 (i32 (oneminusaval * dgreen)));
          oblue = i32 (drop_bit 8 (i32 (sblue * frac)) + div255 (i32 (oneminusaval * dblue)))
      in pack oalpha ored ogreen oblue)"

definition blendSrcOver8888_pre_pre_fullFrac ::
    "jint \<Rightarrow> jint \<Rightarrow> jint \<Rightarrow> jint \<Rightarrow> jint \<Rightarrow> jint" where
  "blendSrcOver8888_pre_pre_fullFrac ival aval sred sgreen sblue =
     (let dalpha = px_A ival; dred = px_R ival; dgreen = px_G ival; dblue = px_B ival;
          oneminusaval = i32 (255 - aval);
          oalpha = i32 (aval + div255 (i32 (oneminusaval * dalpha)));
          ored = i32 (sred + div255 (i32 (oneminusaval * dred)));
          ogreen = i32 (sgreen + div255 (i32 (oneminusaval * dgreen)));
          oblue = i32 (sblue + div255 (i32 (oneminusaval * dblue)))
      in pack oalpha ored ogreen oblue)"

text \<open>
  The gamma tables are static arrays of the source, filled by \<open>initGammaArrays\<close>; they are
  arguments here, and an index outside them is \<open>None\<close>.
\<close>

definition blendLCDSrcOver8888_pre ::
    "jint list \<Rightarrow> jint list \<Rightarrow> jint \<Rightarrow> jint \<Rightarrow> jint \<Rightarrow> jint \<Rightarrow> jint \<Rightarrow> jint \<Rightarrow> jint \<Rightarrow> jint option" where
  "blendLCDSrcOver8888_pre gammaArray invGammaArray ival ared agreen ablue sred sgreen sblue =
     do {
       dred \<leftarrow> aget invGammaArray (px_R ival);
       dgreen \<leftarrow> aget invGammaArray (px_G ival);
       dblue \<leftarrow> aget invGammaArray (px_B ival);
       let ored = div255 (i32 (ared * sred + (255 - ared) * dred));
       let ogreen = div255 (i32 (agreen * sgreen + (255 - agreen) * dgreen));
       let oblue = div255 (i32 (ablue * sblue + (255 - ablue) * dblue));
       ored \<leftarrow> aget gammaArray ored;
       ogreen \<leftarrow> aget gammaArray ogreen;
       oblue \<leftarrow> aget gammaArray oblue;
       Some (pack 0xFF ored ogreen oblue) }"

definition blendSrc8888_pre :: "jint \<Rightarrow> jint \<Rightarrow> jint \<Rightarrow> jint \<Rightarrow> jint \<Rightarrow> jint \<Rightarrow> jint" where
  "blendSrc8888_pre ival aval raaval sred sgreen sblue =
     (let dalpha = px_A ival; dred = px_R ival; dgreen = px_G ival; dblue = px_B ival;
          denom = i32 (255 * aval + dalpha * raaval)
      in if denom = 0 then 0
         else let oalpha = div255 denom;
                  ored = div255 (i32 (aval * sred + raaval * dred));
                  ogreen = div255 (i32 (aval * sgreen + raaval * dgreen));
                  oblue = div255 (i32 (aval * sblue + raaval * dblue))
              in pack oalpha ored ogreen oblue)"

definition blendSrc8888_pre_pre :: "jint \<Rightarrow> jint \<Rightarrow> jint \<Rightarrow> jint \<Rightarrow> jint \<Rightarrow> jint \<Rightarrow> jint" where
  "blendSrc8888_pre_pre ival aval raaval sred sgreen sblue =
     (let dalpha = px_A ival; dred = px_R ival; dgreen = px_G ival; dblue = px_B ival;
          denom = i32 (255 * aval + dalpha * raaval)
      in if denom = 0 then 0
         else let oalpha = div255 denom;
                  ored = i32 (sred + div255 (i32 (raaval * dred)));
                  ogreen = i32 (sgreen + div255 (i32 (raaval * dgreen)));
                  oblue = i32 (sblue + div255 (i32 (raaval * dblue)))
              in pack oalpha ored ogreen oblue)"

section \<open>Channels\<close>

text \<open>The range of a channel, and the invariant of a premultiplied surface.\<close>

definition is_chan :: "jint \<Rightarrow> bool" where
  "is_chan x \<longleftrightarrow> 0 \<le> x \<and> x \<le> 255"

definition premult :: "jint \<Rightarrow> bool" where
  "premult p \<longleftrightarrow> px_R p \<le> px_A p \<and> px_G p \<le> px_A p \<and> px_B p \<le> px_A p"

lemma is_chanD: "is_chan x \<Longrightarrow> 0 \<le> x" "is_chan x \<Longrightarrow> x \<le> 255"
  by (auto simp: is_chan_def)

lemma and_255: "x AND 255 = x mod 256" for x :: int
proof -
  have "x AND mask 8 = take_bit 8 x" by (simp add: take_bit_eq_mask)
  then show ?thesis by (simp add: mask_eq_exp_minus_1 take_bit_eq_mod)
qed

lemma px_take_bit:
  "px_A x = take_bit 8 (drop_bit 24 x)" "px_R x = take_bit 8 (drop_bit 16 x)"
  "px_G x = take_bit 8 (drop_bit 8 x)" "px_B x = take_bit 8 x"
  by (simp_all add: px_A_def px_R_def px_G_def px_B_def and_255 take_bit_eq_mod)

lemma is_chan_px [simp]: "is_chan (px_A p)" "is_chan (px_R p)" "is_chan (px_G p)" "is_chan (px_B p)"
  by (simp_all add: is_chan_def px_A_def px_R_def px_G_def px_B_def and_255)

lemma is_chan_bit: "is_chan x \<Longrightarrow> bit x n \<Longrightarrow> n < 8"
proof -
  assume "is_chan x" "bit x n"
  then have "take_bit 8 x = x"
    by (simp add: is_chan_def take_bit_int_eq_self)
  with \<open>bit x n\<close> show "n < 8" by (metis bit_take_bit_iff)
qed

text \<open>Packing four channels and reading them back.\<close>

lemma px_i32:
  "px_A (i32 x) = px_A x" "px_R (i32 x) = px_R x" "px_G (i32 x) = px_G x" "px_B (i32 x) = px_B x"
proof -
  have *: "take_bit 8 (drop_bit k (i32 x)) = take_bit 8 (drop_bit k x)" if "k + 8 \<le> 32" for k
  proof (rule bit_eqI)
    fix n
    have "n < 8 \<Longrightarrow> min (k + n) 31 = k + n" using that by simp
    then show "bit (take_bit 8 (drop_bit k (i32 x))) n = bit (take_bit 8 (drop_bit k x)) n"
      by (auto simp: i32_def bit_simps)
  qed
  show "px_A (i32 x) = px_A x" "px_R (i32 x) = px_R x" "px_G (i32 x) = px_G x" "px_B (i32 x) = px_B x"
    using * [of 24] * [of 16] * [of 8] * [of 0] by (simp_all add: px_take_bit)
qed

lemma px_pack [simp]:
  assumes "is_chan a" "is_chan r" "is_chan g" "is_chan b"
  shows "px_A (pack a r g b) = a" "px_R (pack a r g b) = r"
    "px_G (pack a r g b) = g" "px_B (pack a r g b) = b"
proof -
  note bits = assms [THEN is_chan_bit]
  show "px_A (pack a r g b) = a"
    unfolding pack_def px_i32 by (rule bit_eqI) (auto simp: px_take_bit bit_simps dest: bits)
  show "px_R (pack a r g b) = r"
    unfolding pack_def px_i32 by (rule bit_eqI) (auto simp: px_take_bit bit_simps dest: bits)
  show "px_G (pack a r g b) = g"
    unfolding pack_def px_i32 by (rule bit_eqI) (auto simp: px_take_bit bit_simps dest: bits)
  show "px_B (pack a r g b) = b"
    unfolding pack_def px_i32 by (rule bit_eqI) (auto simp: px_take_bit bit_simps dest: bits)
qed

lemma pack_px [simp]:
  assumes "is_i32 p"
  shows "pack (px_A p) (px_R p) (px_G p) (px_B p) = p"
proof -
  have bits: "bit (push_bit 24 (px_A p) OR push_bit 16 (px_R p) OR push_bit 8 (px_G p) OR px_B p) n
      = bit p n" if n: "n < 32" for n
  proof -
    consider "n < 8" | "8 \<le> n" "n < 16" | "16 \<le> n" "n < 24" | "24 \<le> n" "n < 32"
      using n by linarith
    then show ?thesis
      by cases (auto simp: px_take_bit bit_simps)
  qed
  have "pack (px_A p) (px_R p) (px_G p) (px_B p) = i32 p"
    unfolding pack_def i32_def
    by (rule bit_eqI) (simp add: bit_signed_take_bit_iff bits)
  with assms show ?thesis by (simp add: i32_id)
qed

lemma premult_packI:
  "is_chan a \<Longrightarrow> is_chan r \<Longrightarrow> is_chan g \<Longrightarrow> is_chan b \<Longrightarrow> r \<le> a \<Longrightarrow> g \<le> a \<Longrightarrow> b \<le> a \<Longrightarrow>
   premult (pack a r g b)"
  by (simp add: premult_def)

lemma is_i32_pack [simp]: "is_i32 (pack a r g b)"
  by (simp add: pack_def)

text \<open>The multiply-and-shift is the division by 255 on the whole range a blend can produce.\<close>

lemma div255_eq: "0 \<le> x \<Longrightarrow> x \<le> 65535 \<Longrightarrow> div255 x = x div 255"
proof -
  assume x: "0 \<le> x" "x \<le> 65535"
  then have "i32 (x * 257 + 257) = x * 257 + 257" by (intro i32_small) auto
  then have "div255 x = (x * 257 + 257) div 65536"
    by (simp add: div255_def drop_bit_eq_div)
  also have "\<dots> = x div 255"
  proof -
    define q where "q = x div 255"
    have "255 * q \<le> x" "x < 255 * q + 255" "0 \<le> q" "q \<le> 257"
      using x by (auto simp: q_def)
    then have "0 \<le> (x * 257 + 257) - q * 65536" "(x * 257 + 257) - q * 65536 < 65536" by auto
    then have "((x * 257 + 257 - q * 65536) + q * 65536) div 65536 = q"
      by (subst div_mult_self1) auto
    then have "(x * 257 + 257) div 65536 = q" by simp
    then show ?thesis by (simp add: q_def)
  qed
  finally show ?thesis .
qed

section \<open>Reference arithmetic\<close>

text \<open>
  The values the compositing rules call for: \<open>mix v s w d\<close> weighs two channels by \<open>v/255\<close> and
  \<open>w/255\<close>, \<open>scale s frac\<close> scales a channel by a coverage in 256ths, and \<open>under a d\<close> is what
  a destination channel keeps below a source of alpha \<open>a\<close>; each is rounded down.
\<close>

definition mix :: "int \<Rightarrow> int \<Rightarrow> int \<Rightarrow> int \<Rightarrow> int" where
  "mix v s w d = (v * s + w * d) div 255"

definition scale :: "int \<Rightarrow> int \<Rightarrow> int" where
  "scale s frac = s * frac div 256"

definition under :: "int \<Rightarrow> int \<Rightarrow> int" where
  "under a d = (255 - a) * d div 255"

lemma weight_mult: "is_chan d \<Longrightarrow> 0 \<le> w \<Longrightarrow> 0 \<le> w * d \<and> w * d \<le> w * 255"
  by (simp add: is_chan_def mult_left_mono)

lemma mix_bounds:
  assumes "is_chan s" "is_chan d" "0 \<le> v" "0 \<le> w" "v + w \<le> 255"
  shows "0 \<le> v * s + w * d" "v * s + w * d \<le> 65025"
  using weight_mult [OF assms(1,3)] weight_mult [OF assms(2,4)] assms(5) by auto

text \<open>Two weights that add up to at most 255 mix two channels without leaving 16 bits.\<close>

lemma mix_wrap:
  assumes "is_chan s" "is_chan d" "0 \<le> v" "0 \<le> w" "v + w \<le> 255"
  shows "i32 (v * s + w * d) = v * s + w * d"
    and "div255 (v * s + w * d) = mix v s w d"
    and "is_chan (mix v s w d)"
  using mix_bounds [OF assms] by (auto simp: i32_small div255_eq is_chan_def mix_def)

lemma mix_mono:
  assumes "s \<le> (s'::int)" "d \<le> d'" "0 \<le> v" "0 \<le> w"
  shows "mix v s w d \<le> mix v s' w d'"
  unfolding mix_def using assms by (intro zdiv_mono1 add_mono mult_left_mono) auto

lemma mix_full [simp]: "mix 255 s 0 d = s" "mix 0 s 255 d = d"
  by (simp_all add: mix_def)

lemma scale_bounds:
  assumes "0 \<le> s" "s \<le> a" "a \<le> 255" "0 \<le> frac" "frac \<le> 256"
  shows "drop_bit 8 (i32 (s * frac)) = scale s frac"
    "0 \<le> scale s frac" "scale s frac \<le> scale a frac" "scale a frac \<le> a"
proof -
  have "s * frac \<le> 255 * 256" using assms by (intro mult_mono) auto
  then have "i32 (s * frac) = s * frac" using assms by (intro i32_small) auto
  then show "drop_bit 8 (i32 (s * frac)) = scale s frac" by (simp add: scale_def drop_bit_eq_div)
  show "0 \<le> scale s frac"
    unfolding scale_def using assms by (intro pos_imp_zdiv_nonneg_iff [THEN iffD2]) auto
  show "scale s frac \<le> scale a frac"
    unfolding scale_def using assms by (intro zdiv_mono1 mult_right_mono) auto
  have "a * frac \<le> a * 256" using assms by (intro mult_left_mono) auto
  then show "scale a frac \<le> a"
    unfolding scale_def
    by (metis zdiv_mono1 nonzero_mult_div_cancel_right zero_less_numeral zero_neq_numeral)
qed

lemma scale_256 [simp]: "scale s 256 = s"
  by (simp add: scale_def)

lemma under_bounds:
  assumes "is_chan d" "0 \<le> a" "a \<le> 255"
  shows "i32 (255 - a) = 255 - a" "div255 (i32 ((255 - a) * d)) = under a d"
    "0 \<le> under a d" "under a d \<le> 255 - a"
proof -
  have m: "0 \<le> (255 - a) * d" "(255 - a) * d \<le> (255 - a) * 255"
    using weight_mult [OF assms(1), of "255 - a"] assms(3) by auto
  then show "0 \<le> under a d" "under a d \<le> 255 - a"
    using zdiv_mono1 [OF m(2), of 255] by (auto simp: under_def)
  show "i32 (255 - a) = 255 - a" using assms by (simp add: i32_small)
  have "i32 ((255 - a) * d) = (255 - a) * d" using m assms by (intro i32_small) auto
  then show "div255 (i32 ((255 - a) * d)) = under a d"
    using m assms by (simp add: under_def div255_eq)
qed

lemma under_mono: "d \<le> d' \<Longrightarrow> a \<le> 255 \<Longrightarrow> under a d \<le> under a d'"
  unfolding under_def by (intro zdiv_mono1 mult_left_mono) auto

lemma under_0 [simp]: "under 0 d = d" and under_255 [simp]: "under 255 d = 0"
  by (simp_all add: under_def)

lemma over_bounds:
  assumes "is_chan d" "0 \<le> a" "a \<le> 255" "0 \<le> s" "s \<le> a"
  shows "i32 (s + under a d) = s + under a d" "is_chan (s + under a d)"
  using under_bounds(3,4) [OF assms(1-3)] assms by (auto simp: i32_small is_chan_def)

section \<open>Source-over of a flat colour\<close>

lemma blendSrcOver8888_pre_eq:
  assumes "is_chan aval" "is_chan sred" "is_chan sgreen" "is_chan sblue"
  shows "blendSrcOver8888_pre ival aval sred sgreen sblue =
    pack (mix aval 255 (255 - aval) (px_A ival)) (mix aval sred (255 - aval) (px_R ival))
      (mix aval sgreen (255 - aval) (px_G ival)) (mix aval sblue (255 - aval) (px_B ival))"
proof -
  have a: "0 \<le> aval" "0 \<le> 255 - aval" "aval + (255 - aval) \<le> 255" and c: "is_chan 255"
    using assms(1) by (auto simp: is_chan_def)
  have w: "i32 (255 - aval) = 255 - aval" using a by (simp add: i32_small)
  note mix = mix_wrap [OF _ _ a]
  show ?thesis
    by (simp add: blendSrcOver8888_pre_def Let_def w mult.commute [of _ aval] mix assms c)
qed

lemma mix_over_chan:
  "is_chan a \<Longrightarrow> is_chan s \<Longrightarrow> is_chan d \<Longrightarrow> is_chan (mix a s (255 - a) d)"
  by (rule mix_wrap(3)) (auto simp: is_chan_def)

lemma is_chan_255 [simp]: "is_chan 255" "is_chan 0"
  by (simp_all add: is_chan_def)

text \<open>
  \<open>blendSrcOver8888_pre\<close> computes, in every channel, the Porter-Duff source-over value
  \<open>(a * s + (255 - a) * d) / 255\<close> rounded down, with no carry between channels, for every
  destination pixel and every 8-bit source colour and coverage.
\<close>

theorem blendSrcOver8888_pre_channels:
  assumes "is_chan aval" "is_chan sred" "is_chan sgreen" "is_chan sblue"
  shows "px_A (blendSrcOver8888_pre ival aval sred sgreen sblue) =
           (aval * 255 + (255 - aval) * px_A ival) div 255
       \<and> px_R (blendSrcOver8888_pre ival aval sred sgreen sblue) =
           (aval * sred + (255 - aval) * px_R ival) div 255
       \<and> px_G (blendSrcOver8888_pre ival aval sred sgreen sblue) =
           (aval * sgreen + (255 - aval) * px_G ival) div 255
       \<and> px_B (blendSrcOver8888_pre ival aval sred sgreen sblue) =
           (aval * sblue + (255 - aval) * px_B ival) div 255"
  using assms unfolding mix_def [symmetric]
  by (simp add: blendSrcOver8888_pre_eq mix_over_chan)

theorem blendSrcOver8888_pre_channels_witness:
  "px_R (blendSrcOver8888_pre (pack 200 100 50 25) 128 255 0 7) = 177"
  using blendSrcOver8888_pre_channels [of 128 255 0 7 "pack 200 100 50 25"]
  by (simp add: is_chan_def)

lemma blendSrcOver8888_pre_premult:
  assumes "is_chan aval" "is_chan sred" "is_chan sgreen" "is_chan sblue" "premult ival"
  shows "premult (blendSrcOver8888_pre ival aval sred sgreen sblue)"
proof -
  have a: "0 \<le> aval" "0 \<le> 255 - aval" using assms(1) by (auto dest: is_chanD)
  show ?thesis
    unfolding blendSrcOver8888_pre_eq [OF assms(1-4)]
    by (rule premult_packI)
       (use assms a in \<open>auto simp: premult_def mix_over_chan dest: is_chanD intro!: mix_mono\<close>)
qed

lemma blendSrcOver8888_pre_opaque:
  assumes "is_chan sred" "is_chan sgreen" "is_chan sblue"
  shows "blendSrcOver8888_pre ival 255 sred sgreen sblue = pack 255 sred sgreen sblue"
  using assms by (simp add: blendSrcOver8888_pre_eq)

lemma blendSrcOver8888_pre_transparent:
  assumes "is_chan sred" "is_chan sgreen" "is_chan sblue" "is_i32 ival"
  shows "blendSrcOver8888_pre ival 0 sred sgreen sblue = ival"
  using assms by (simp add: blendSrcOver8888_pre_eq)

section \<open>Source-over of a premultiplied paint\<close>

text \<open>A source colour whose channels are at most its alpha.\<close>

definition premult_chans :: "jint \<Rightarrow> jint \<Rightarrow> jint \<Rightarrow> jint \<Rightarrow> bool" where
  "premult_chans a r g b \<longleftrightarrow>
     a \<le> 255 \<and> 0 \<le> r \<and> r \<le> a \<and> 0 \<le> g \<and> g \<le> a \<and> 0 \<le> b \<and> b \<le> a"

lemma premult_chans_px: "premult_chans (px_A p) (px_R p) (px_G p) (px_B p) \<longleftrightarrow> premult p"
  using is_chan_px [of p] by (auto simp: premult_chans_def premult_def is_chan_def)

lemma blendSrcOver8888_pre_pre_eq:
  assumes "premult_chans aval sred sgreen sblue" "0 \<le> frac" "frac \<le> 256"
  shows "blendSrcOver8888_pre_pre ival frac aval sred sgreen sblue =
    (let aval2 = scale aval frac in
     pack (aval2 + under aval2 (px_A ival)) (scale sred frac + under aval2 (px_R ival))
      (scale sgreen frac + under aval2 (px_G ival)) (scale sblue frac + under aval2 (px_B ival)))"
proof -
  have a: "0 \<le> aval" "aval \<le> 255" using assms(1) by (auto simp: premult_chans_def)
  note sc = scale_bounds [OF _ _ a(2) assms(2,3)]
  have a2: "0 \<le> scale aval frac" "scale aval frac \<le> 255"
    using sc(2) [OF a(1) order_refl] sc(4) [OF a(1) order_refl] a by auto
  note ov = over_bounds [OF _ a2] under_bounds [OF _ a2]
  show ?thesis
    using assms(1) a a2
    by (auto simp: blendSrcOver8888_pre_pre_def Let_def premult_chans_def sc ov
        under_bounds(1) [OF is_chan_255(1) a2])
qed

lemma blendSrcOver8888_pre_pre_keeps:
  assumes "premult_chans aval sred sgreen sblue" "0 \<le> frac" "frac \<le> 256" "premult ival"
  shows "premult (blendSrcOver8888_pre_pre ival frac aval sred sgreen sblue)"
    "px_A (blendSrcOver8888_pre_pre ival frac aval sred sgreen sblue)
        = scale aval frac + under (scale aval frac) (px_A ival)"
proof -
  have a: "0 \<le> aval" "aval \<le> 255"
    and s: "0 \<le> sred" "sred \<le> aval" "0 \<le> sgreen" "sgreen \<le> aval" "0 \<le> sblue" "sblue \<le> aval"
    using assms(1) by (auto simp: premult_chans_def)
  note sc = scale_bounds(2-4) [OF _ _ a(2) assms(2,3)]
  have a2: "0 \<le> scale aval frac" "scale aval frac \<le> 255"
    using sc(1) [OF a(1) order_refl] sc(3) [OF a(1) order_refl] a by auto
  note ov = over_bounds(2) [OF is_chan_px(1) a2 a2(1) order_refl]
    over_bounds(2) [OF is_chan_px(2) a2 sc(1,2) [OF s(1,2)]]
    over_bounds(2) [OF is_chan_px(3) a2 sc(1,2) [OF s(3,4)]]
    over_bounds(2) [OF is_chan_px(4) a2 sc(1,2) [OF s(5,6)]]
  note mono = add_mono [OF sc(2) under_mono [OF _ a2(2)]]
  show "premult (blendSrcOver8888_pre_pre ival frac aval sred sgreen sblue)"
    "px_A (blendSrcOver8888_pre_pre ival frac aval sred sgreen sblue)
        = scale aval frac + under (scale aval frac) (px_A ival)"
    unfolding blendSrcOver8888_pre_pre_eq [OF assms(1-3)] Let_def
    using assms(4) s by (auto intro!: premult_packI mono simp: ov premult_def)
qed

text \<open>
  C33: \<open>blendSrcOver8888_pre_pre\<close> keeps the surface invariant: on a premultiplied destination,
  with a premultiplied paint colour and a coverage between 0 and 256, no colour channel of the
  result exceeds the resulting alpha, which is exactly \<open>a' + (255 - a') * d / 255\<close> for the covered
  alpha \<open>a' = a * frac / 256\<close>.
\<close>

theorem blendSrcOver8888_pre_pre_premult:
  assumes "premult_chans aval sred sgreen sblue" "0 \<le> frac" "frac \<le> 256" "premult ival"
  shows "premult (blendSrcOver8888_pre_pre ival frac aval sred sgreen sblue)
    \<and> px_A (blendSrcOver8888_pre_pre ival frac aval sred sgreen sblue)
        = aval * frac div 256 + (255 - aval * frac div 256) * px_A ival div 255"
  using blendSrcOver8888_pre_pre_keeps [OF assms] by (simp add: scale_def under_def)

theorem blendSrcOver8888_pre_pre_premult_witness:
  "premult (blendSrcOver8888_pre_pre (pack 255 255 0 10) 129 200 100 200 0)"
  using blendSrcOver8888_pre_pre_premult [of 200 100 200 0 129 "pack 255 255 0 10"]
  by (simp add: premult_chans_def premult_def is_chan_def)

lemma blendSrcOver8888_pre_pre_fullFrac_eq:
  assumes "premult_chans aval sred sgreen sblue"
  shows "blendSrcOver8888_pre_pre_fullFrac ival aval sred sgreen sblue =
    pack (aval + under aval (px_A ival)) (sred + under aval (px_R ival))
      (sgreen + under aval (px_G ival)) (sblue + under aval (px_B ival))"
proof -
  have a: "0 \<le> aval" "aval \<le> 255" using assms(1) by (auto simp: premult_chans_def)
  note ov = over_bounds [OF _ a] under_bounds [OF _ a]
  show ?thesis
    using assms a
    by (auto simp: blendSrcOver8888_pre_pre_fullFrac_def Let_def premult_chans_def ov
        under_bounds(1) [OF is_chan_255(1) a])
qed

text \<open>
  the full-coverage routine \<open>blendSrcOver8888_pre_pre_fullFrac\<close> is the general
  \<open>blendSrcOver8888_pre_pre\<close> at coverage 256, for every premultiplied paint colour.
\<close>

theorem fullFrac_equiv:
  assumes "premult_chans aval sred sgreen sblue"
  shows "blendSrcOver8888_pre_pre_fullFrac ival aval sred sgreen sblue =
         blendSrcOver8888_pre_pre ival 256 aval sred sgreen sblue"
  using assms by (simp add: blendSrcOver8888_pre_pre_fullFrac_eq blendSrcOver8888_pre_pre_eq Let_def)

theorem fullFrac_equiv_witness:
  "blendSrcOver8888_pre_pre_fullFrac (pack 9 8 7 6) 100 50 100 0 =
   blendSrcOver8888_pre_pre (pack 9 8 7 6) 256 100 50 100 0"
  using fullFrac_equiv [of 100 50 100 0 "pack 9 8 7 6"] by (simp add: premult_chans_def)

lemma fullFrac_opaque:
  assumes "premult_chans 255 sred sgreen sblue"
  shows "blendSrcOver8888_pre_pre_fullFrac ival 255 sred sgreen sblue = pack 255 sred sgreen sblue"
  using assms by (simp add: blendSrcOver8888_pre_pre_fullFrac_eq)

lemma fullFrac_transparent:
  assumes "is_i32 ival"
  shows "blendSrcOver8888_pre_pre_fullFrac ival 0 0 0 0 = ival"
  using assms by (simp add: blendSrcOver8888_pre_pre_fullFrac_eq premult_chans_def)

section \<open>Source\<close>

text \<open>
  The blend for the \<open>SRC\<close> rule weighs source and destination by coverage. The weights the mask
  and alpha-row blits pass, \<open>aval = (cov + 1) * a >> 8\<close> and \<open>raaval = 255 - cov\<close>, add up to
  at most 255.
\<close>

lemma src_weights:
  assumes "0 \<le> cov" "cov \<le> 255" "is_chan a"
  shows "drop_bit 8 (i32 ((cov + 1) * a)) = scale a (cov + 1)"
    "0 \<le> scale a (cov + 1)" "scale a (cov + 1) + (255 - cov) \<le> 255" "is_chan (scale a (cov + 1))"
proof -
  have a: "0 \<le> a" "a \<le> 255" using assms(3) by (auto dest: is_chanD)
  have "scale 255 (cov + 1) \<le> (255 + cov * 256) div 256"
    unfolding scale_def using assms(1,2) by (intro zdiv_mono1) auto
  then have "scale 255 (cov + 1) \<le> cov" by simp
  with scale_bounds [OF a order_refl, of "cov + 1"] scale_bounds [OF a(1) order_refl a(2), of "cov + 1"]
  show "drop_bit 8 (i32 ((cov + 1) * a)) = scale a (cov + 1)"
    "0 \<le> scale a (cov + 1)" "scale a (cov + 1) + (255 - cov) \<le> 255" "is_chan (scale a (cov + 1))"
    using assms(1,2) a by (auto simp: is_chan_def mult.commute)
qed

lemma pack_0 [simp]: "pack 0 0 0 0 = 0"
  by (simp add: pack_def i32_def)

lemma blendSrc8888_pre_eq:
  assumes "0 \<le> aval" "0 \<le> raaval" "aval + raaval \<le> 255"
    and "is_chan sred" "is_chan sgreen" "is_chan sblue" "premult ival"
  shows "blendSrc8888_pre ival aval raaval sred sgreen sblue =
    pack (mix aval 255 raaval (px_A ival)) (mix aval sred raaval (px_R ival))
      (mix aval sgreen raaval (px_G ival)) (mix aval sblue raaval (px_B ival))"
proof -
  note mx = mix_wrap [OF _ _ assms(1-3)]
  have d: "i32 (255 * aval + px_A ival * raaval) = aval * 255 + raaval * px_A ival"
    using mx(1) [of 255 "px_A ival"] by (simp add: mult.commute)
  show ?thesis
  proof (cases "aval * 255 + raaval * px_A ival = 0")
    case True
    have "0 \<le> aval * 255" "0 \<le> raaval * px_A ival"
      using assms(1,2) by (auto simp: is_chanD)
    with True have z: "aval = 0" "raaval * px_A ival = 0" by linarith+
    have r: "raaval * px_R ival = 0" "raaval * px_G ival = 0" "raaval * px_B ival = 0"
      using z(2) assms(7) is_chan_px [of ival] by (auto simp: premult_def is_chan_def)
    have "blendSrc8888_pre ival aval raaval sred sgreen sblue = 0"
      unfolding blendSrc8888_pre_def Let_def d True by simp
    then show ?thesis unfolding mix_def z r by simp
  next
    case False
    have "aval * 255 + raaval * px_A ival \<noteq> 0 \<Longrightarrow> div255 (aval * 255 + raaval * px_A ival)
        = mix aval 255 raaval (px_A ival)"
      by (simp add: mx)
    with False show ?thesis by (simp add: blendSrc8888_pre_def Let_def d mx assms)
  qed
qed

lemma blendSrc8888_pre_keeps:
  assumes "is_chan cov" "is_chan a" "is_chan sred" "is_chan sgreen" "is_chan sblue" "premult ival"
  shows "premult (blendSrc8888_pre ival (drop_bit 8 (i32 ((cov + 1) * a))) (255 - cov) sred sgreen sblue)"
proof -
  have c: "0 \<le> cov" "cov \<le> 255" "0 \<le> 255 - cov" using assms(1) by (auto dest: is_chanD)
  note w = src_weights [OF c(1,2) assms(2)]
  note ch = mix_wrap(3) [OF _ _ w(2) c(3) w(3)]
  note mono = mix_mono [OF _ _ w(2) c(3)]
  show ?thesis
    unfolding w(1) blendSrc8888_pre_eq [OF w(2) c(3) w(3) assms(3-6)]
    using assms(3-6) by (auto simp: ch premult_def dest: is_chanD intro!: premult_packI mono)
qed

text \<open>
  the source blend of a mask or alpha-row pixel never carries between channels: with the
  weights \<open>(cov + 1) * a >> 8\<close> and \<open>255 - cov\<close> that the blits compute from a coverage byte and
  the colour's alpha, every channel of \<open>blendSrc8888_pre\<close> is the exact weighted value rounded
  down, and the surface invariant is kept.
\<close>

theorem blendSrc8888_pre_covered:
  assumes "is_chan cov" "is_chan a" "is_chan sred" "is_chan sgreen" "is_chan sblue" "premult ival"
  shows "let p = blendSrc8888_pre ival (drop_bit 8 (i32 ((cov + 1) * a))) (255 - cov) sred sgreen sblue;
             v = (cov + 1) * a div 256
         in premult p
          \<and> px_A p = (v * 255 + (255 - cov) * px_A ival) div 255
          \<and> px_R p = (v * sred + (255 - cov) * px_R ival) div 255
          \<and> px_G p = (v * sgreen + (255 - cov) * px_G ival) div 255
          \<and> px_B p = (v * sblue + (255 - cov) * px_B ival) div 255"
proof -
  have c: "0 \<le> cov" "cov \<le> 255" "0 \<le> 255 - cov" using assms(1) by (auto dest: is_chanD)
  note w = src_weights [OF c(1,2) assms(2)]
  have v: "(cov + 1) * a div 256 = scale a (cov + 1)" by (simp add: scale_def mult.commute)
  note ch = mix_wrap(3) [OF _ _ w(2) c(3) w(3)]
  note eq = blendSrc8888_pre_eq [OF w(2) c(3) w(3) assms(3-6)]
  have "premult (blendSrc8888_pre ival (scale a (cov + 1)) (255 - cov) sred sgreen sblue)"
    using blendSrc8888_pre_keeps [OF assms] by (simp only: w(1))
  then show ?thesis
    unfolding Let_def w(1) v mix_def [symmetric] eq using assms(3-5) by (simp add: ch)
qed

theorem blendSrc8888_pre_covered_witness:
  "premult (blendSrc8888_pre (pack 255 255 255 255) (drop_bit 8 (i32 ((128 + 1) * 200))) (255 - 128) 255 0 9)"
  using blendSrc8888_pre_covered [of 128 200 255 0 9 "pack 255 255 255 255"]
  by (simp add: is_chan_def premult_def Let_def)

text \<open>
  The paint variant adds the unscaled source channel, so its result is only in range when the
  caller's source channels leave room for what the destination keeps.
\<close>

lemma blendSrc8888_pre_pre_eq:
  assumes "0 \<le> aval" "0 \<le> raaval" "aval + raaval \<le> 255"
    and "0 \<le> sred" "sred + raaval \<le> 255" "0 \<le> sgreen" "sgreen + raaval \<le> 255"
    and "0 \<le> sblue" "sblue + raaval \<le> 255"
    and "255 * aval + px_A ival * raaval \<noteq> 0"
  shows "blendSrc8888_pre_pre ival aval raaval sred sgreen sblue =
    pack (mix aval 255 raaval (px_A ival)) (sred + under (255 - raaval) (px_R ival))
      (sgreen + under (255 - raaval) (px_G ival)) (sblue + under (255 - raaval) (px_B ival))"
proof -
  note mx = mix_wrap [OF _ _ assms(1-3)]
  have d: "i32 (255 * aval + px_A ival * raaval) = aval * 255 + raaval * px_A ival"
    using mx(1) [of 255 "px_A ival"] by (simp add: mult.commute)
  have r: "0 \<le> 255 - raaval" "255 - raaval \<le> 255" using assms(1-3) by auto
  have u: "div255 (i32 (raaval * d)) = under (255 - raaval) d" if "is_chan d" for d
    using under_bounds(2) [OF that r] by simp
  have s: "i32 (s + under (255 - raaval) d) = s + under (255 - raaval) d"
    if "is_chan d" "0 \<le> s" "s + raaval \<le> 255" for s d
    using over_bounds(1) [OF that(1) r that(2)] that(3) by auto
  have nz: "aval * 255 + raaval * px_A ival \<noteq> 0" using assms(10) by (simp add: mult.commute)
  show ?thesis
    by (simp add: blendSrc8888_pre_pre_def Let_def d nz mx u s assms)
qed

section \<open>LCD text\<close>

lemma blendLCDSrcOver8888_pre_opaque:
  assumes "length gammaArray = 256" "length invGammaArray = 256"
    and "\<forall>x \<in> set gammaArray. is_chan x" "\<forall>x \<in> set invGammaArray. is_chan x"
    and "is_chan ared" "is_chan agreen" "is_chan ablue" "is_chan sred" "is_chan sgreen" "is_chan sblue"
  shows "\<exists>p. blendLCDSrcOver8888_pre gammaArray invGammaArray ival ared agreen ablue sred sgreen sblue = Some p
    \<and> px_A p = 255 \<and> premult p"
proof -
  have inv: "\<exists>y. aget invGammaArray x = Some y \<and> is_chan y"
    and gam: "\<exists>y. aget gammaArray x = Some y \<and> is_chan y" if "is_chan x" for x
    using that assms(1-4) by (auto simp: aget_def is_chan_def)
  have step: "is_chan (div255 (i32 (a * s + (255 - a) * d)))" if "is_chan a" "is_chan s" "is_chan d" for a s d
    using that mix_wrap [of s d a "255 - a"] by (auto simp: is_chan_def)
  obtain dr where dr: "aget invGammaArray (px_R ival) = Some dr" "is_chan dr" using inv by force
  obtain dg where dg: "aget invGammaArray (px_G ival) = Some dg" "is_chan dg" using inv by force
  obtain db where db: "aget invGammaArray (px_B ival) = Some db" "is_chan db" using inv by force
  obtain r where r: "aget gammaArray (div255 (i32 (ared * sred + (255 - ared) * dr))) = Some r" "is_chan r"
    using gam [OF step [OF assms(5,8) dr(2)]] by blast
  obtain g where g: "aget gammaArray (div255 (i32 (agreen * sgreen + (255 - agreen) * dg))) = Some g" "is_chan g"
    using gam [OF step [OF assms(6,9) dg(2)]] by blast
  obtain b where b: "aget gammaArray (div255 (i32 (ablue * sblue + (255 - ablue) * db))) = Some b" "is_chan b"
    using gam [OF step [OF assms(7,10) db(2)]] by blast
  show ?thesis
    using dr dg db r g b
    by (simp add: blendLCDSrcOver8888_pre_def Let_def premult_def is_chanD)
qed

end
