(* ===== verification/PiscesBlit.thy ===== *)
theory PiscesBlit
  imports PiscesPixel
begin

unbundle bit_operations_syntax

text \<open>
  The blitting loops of \<open>native-prism-sw/PiscesBlit.c\<close>: the nine \<open>blit*8888_pre\<close> routines, the
  four \<open>emitLine*8888_pre\<close> routines and \<open>clearRect8888_any\<close>, over the part of
  \<open>struct _Renderer\<close> (\<open>PiscesRenderer.h\<close>) they read and write. The field \<open>_x\<close> of the struct is
  the field \<open>r_x\<close> of the record; \<open>_rowAAInt\<close>, a pointer into a Java array, is the array and the
  offset \<open>r_rowAAOff\<close> into it.

  A loop body of the source does one of three things to the pixel under the cursor: nothing (and
  then it does not read it), store a value, or blend; this is a \<open>pixop\<close>.
\<close>

section \<open>Model\<close>

record raster =
  r_cred :: jint
  r_cgreen :: jint
  r_cblue :: jint
  r_calpha :: jint
  r_data :: "jint list"
  r_width :: jint
  r_height :: jint
  r_imageOffset :: jint
  r_imageScanlineStride :: jint
  r_imagePixelStride :: jint
  r_alphaWidth :: jint
  r_minTouched :: jint
  r_maxTouched :: jint
  r_currX :: jint
  r_currY :: jint
  r_currImageOffset :: jint
  r_alphaMap :: "jbyte list"
  r_rowAAInt :: "jint list"
  r_rowAAOff :: int
  r_mask_byteData :: "jbyte list"
  r_maskOffset :: jint
  r_paint :: "jint list"
  r_el_lfrac :: jint
  r_el_rfrac :: jint

datatype pixop = Keep | Store jint | Blend "jint \<Rightarrow> jint option"

fun apply_pixop :: "pixop \<Rightarrow> jint list \<Rightarrow> int \<Rightarrow> jint list option" where
  "apply_pixop Keep d i = Some d"
| "apply_pixop (Store v) d i = aset d i v"
| "apply_pixop (Blend f) d i = do { v \<leftarrow> aget d i; v' \<leftarrow> f v; aset d i v' }"

text \<open>
  \<open>blit_span\<close> is the inner \<open>while (a < am)\<close> loop of a blit: \<open>n\<close> pixels from \<open>iidx\<close> on, with the
  loop's own variables in \<open>s\<close>.
\<close>

fun blit_span ::
    "('s \<Rightarrow> (pixop \<times> 's) option) \<Rightarrow> jint \<Rightarrow> nat \<Rightarrow> jint \<Rightarrow> 's \<Rightarrow> jint list \<Rightarrow> ('s \<times> jint list) option" where
  "blit_span step stride 0 iidx s d = Some (s, d)"
| "blit_span step stride (Suc n) iidx s d =
     do { (op, s') \<leftarrow> step s;
          d' \<leftarrow> apply_pixop op d iidx;
          blit_span step stride n (i32 (iidx + stride)) s' d' }"

definition touchedWidth :: "'a raster_scheme \<Rightarrow> jint" where
  "touchedWidth rdr = (if r_maxTouched rdr \<ge> r_minTouched rdr
     then i32 (r_maxTouched rdr - r_minTouched rdr + 1) else 0)"

subsection \<open>Blits driven by a row of alpha deltas\<close>

text \<open>
  One pass of the loop: \<open>aval_relative += *a; *a++ = 0;\<close>, then the pixel operation \<open>f\<close> for the
  pixel number \<open>k\<close> and the accumulated delta.
\<close>

definition aa_step ::
    "(int \<Rightarrow> jint \<Rightarrow> pixop option) \<Rightarrow> int \<Rightarrow> int \<times> jint \<times> jint list \<Rightarrow> (pixop \<times> int \<times> jint \<times> jint list) option" where
  "aa_step f alpha = (\<lambda>(k, aval_relative, row).
     do { delta \<leftarrow> aget row (alpha + k);
          let aval_relative = i32 (aval_relative + delta);
          row \<leftarrow> aset row (alpha + k) 0;
          op \<leftarrow> f k aval_relative;
          Some (op, k + 1, aval_relative, row) })"

definition blit_aa ::
    "(int \<Rightarrow> jint \<Rightarrow> pixop option) \<Rightarrow> 'a raster_scheme \<Rightarrow> jint \<Rightarrow> 'a raster_scheme option" where
  "blit_aa f rdr height =
     do { (imageOffset, row, data) \<leftarrow>
            iter_opt (nat height) (\<lambda>(imageOffset, row, data).
              do { ((k, aval_relative, row), data) \<leftarrow>
                     blit_span (aa_step f (r_rowAAOff rdr)) (r_imagePixelStride rdr)
                       (nat (touchedWidth rdr))
                       (i32 (imageOffset + r_minTouched rdr * r_imagePixelStride rdr)) (0, 0, row) data;
                   Some (i32 (imageOffset + r_imageScanlineStride rdr), row, data) })
              (r_currImageOffset rdr, r_rowAAInt rdr, r_data rdr);
          Some (rdr\<lparr>r_rowAAInt := row, r_data := data\<rparr>) }"

definition src_op :: "jint \<Rightarrow> jint \<Rightarrow> jint \<Rightarrow> jint \<Rightarrow> jint \<Rightarrow> pixop" where
  "src_op calpha cred cgreen cblue acoverage =
     (if acoverage = MAX_ALPHA then Store (pack calpha cred cgreen cblue)
      else if acoverage > 0 then
        let aval = drop_bit 8 (i32 ((acoverage + 1) * calpha))
        in Blend (\<lambda>p. Some (blendSrc8888_pre p aval (255 - acoverage) cred cgreen cblue))
      else Keep)"

definition srcOver_op :: "jint \<Rightarrow> jint \<Rightarrow> jint \<Rightarrow> jint \<Rightarrow> jint \<Rightarrow> pixop" where
  "srcOver_op calpha cred cgreen cblue aval =
     (let aval = drop_bit 8 (i32 ((aval + 1) * calpha))
      in if aval = MAX_ALPHA then Store (pack 0xff cred cgreen cblue)
         else if aval > 0 then Blend (\<lambda>p. Some (blendSrcOver8888_pre p aval cred cgreen cblue))
         else Keep)"

definition ptSrc_op :: "jint \<Rightarrow> jint \<Rightarrow> pixop" where
  "ptSrc_op cval acoverage =
     (if acoverage = MAX_ALPHA then Store cval
      else if acoverage > 0 then
        let aval = drop_bit 8 (i32 ((acoverage + 1) * px_A cval))
        in Blend (\<lambda>p. Some (blendSrc8888_pre_pre p aval (255 - acoverage)
                              (px_R cval) (px_G cval) (px_B cval)))
      else Keep)"

definition ptSrcOver_op :: "jint \<Rightarrow> jint \<Rightarrow> pixop" where
  "ptSrcOver_op cval malpha =
     (let palpha = px_A cval; aval = drop_bit 8 (i32 ((malpha + 1) * palpha))
      in if aval = MAX_ALPHA then Store cval
         else if aval > 0 then
           Blend (\<lambda>p. Some (blendSrcOver8888_pre_pre p (i32 (malpha + 1)) palpha
                              (px_R cval) (px_G cval) (px_B cval)))
         else Keep)"

definition blitSrc8888_pre :: "'a raster_scheme \<Rightarrow> jint \<Rightarrow> 'a raster_scheme option" where
  "blitSrc8888_pre rdr height =
     blit_aa (\<lambda>k aval_relative.
       do { m \<leftarrow> aget (r_alphaMap rdr) aval_relative;
            Some (src_op (r_calpha rdr) (r_cred rdr) (r_cgreen rdr) (r_cblue rdr) (m AND 0xff)) })
       rdr height"

definition blitPTSrc8888_pre :: "'a raster_scheme \<Rightarrow> jint \<Rightarrow> 'a raster_scheme option" where
  "blitPTSrc8888_pre rdr height =
     blit_aa (\<lambda>k aval_relative.
       do { cval \<leftarrow> aget (r_paint rdr) k;
            m \<leftarrow> aget (r_alphaMap rdr) aval_relative;
            Some (ptSrc_op cval (m AND 0xff)) })
       rdr height"

definition blitSrcOver8888_pre :: "'a raster_scheme \<Rightarrow> jint \<Rightarrow> 'a raster_scheme option" where
  "blitSrcOver8888_pre rdr height =
     blit_aa (\<lambda>k aval_relative.
       if aval_relative \<noteq> 0 then
         do { m \<leftarrow> aget (r_alphaMap rdr) aval_relative;
              Some (srcOver_op (r_calpha rdr) (r_cred rdr) (r_cgreen rdr) (r_cblue rdr) (m AND 0xff)) }
       else Some Keep)
       rdr height"

definition blitPTSrcOver8888_pre :: "'a raster_scheme \<Rightarrow> jint \<Rightarrow> 'a raster_scheme option" where
  "blitPTSrcOver8888_pre rdr height =
     blit_aa (\<lambda>k aval_relative.
       do { cval \<leftarrow> aget (r_paint rdr) k;
            if aval_relative \<noteq> 0 then
              do { m \<leftarrow> aget (r_alphaMap rdr) aval_relative;
                   Some (ptSrcOver_op cval (m AND 0xff)) }
            else Some Keep })
       rdr height"

subsection \<open>Blits driven by a byte mask\<close>

text \<open>
  One pass of the loop over the mask: \<open>f\<close> gets the position of the cursor in the mask and the
  pixel number. \<open>alphaStep\<close> is what a row adds to \<open>alphaOffset\<close>: the two paint routines add
  nothing.
\<close>

definition mask_step :: "(int \<Rightarrow> int \<Rightarrow> pixop option) \<Rightarrow> int \<Rightarrow> int \<Rightarrow> (pixop \<times> int) option" where
  "mask_step f a0 = (\<lambda>k. do { op \<leftarrow> f a0 k; Some (op, k + 1) })"

definition blit_mask ::
    "(int \<Rightarrow> int \<Rightarrow> pixop option) \<Rightarrow> jint \<Rightarrow> 'a raster_scheme \<Rightarrow> jint \<Rightarrow> 'a raster_scheme option" where
  "blit_mask f alphaStep rdr height =
     do { (imageOffset, alphaOffset, data) \<leftarrow>
            iter_opt (nat height) (\<lambda>(imageOffset, alphaOffset, data).
              do { (k, data) \<leftarrow>
                     blit_span (mask_step f alphaOffset) (r_imagePixelStride rdr)
                       (nat (touchedWidth rdr))
                       (i32 (imageOffset + r_minTouched rdr * r_imagePixelStride rdr)) 0 data;
                   Some (i32 (imageOffset + r_imageScanlineStride rdr), i32 (alphaOffset + alphaStep), data) })
              (r_currImageOffset rdr, r_maskOffset rdr, r_data rdr);
          Some (rdr\<lparr>r_data := data\<rparr>) }"

definition blitSrcMask8888_pre :: "'a raster_scheme \<Rightarrow> jint \<Rightarrow> 'a raster_scheme option" where
  "blitSrcMask8888_pre rdr height =
     blit_mask (\<lambda>a0 k.
       do { m \<leftarrow> aget (r_mask_byteData rdr) (a0 + k);
            Some (src_op (r_calpha rdr) (r_cred rdr) (r_cgreen rdr) (r_cblue rdr) (m AND 0xff)) })
       (r_alphaWidth rdr) rdr height"

definition blitPTSrcMask8888_pre :: "'a raster_scheme \<Rightarrow> jint \<Rightarrow> 'a raster_scheme option" where
  "blitPTSrcMask8888_pre rdr height =
     blit_mask (\<lambda>a0 k.
       do { cval \<leftarrow> aget (r_paint rdr) k;
            m \<leftarrow> aget (r_mask_byteData rdr) (a0 + k);
            Some (ptSrc_op cval (m AND 0xff)) })
       0 rdr height"

definition blitSrcOverMask8888_pre :: "'a raster_scheme \<Rightarrow> jint \<Rightarrow> 'a raster_scheme option" where
  "blitSrcOverMask8888_pre rdr height =
     blit_mask (\<lambda>a0 k.
       do { m \<leftarrow> aget (r_mask_byteData rdr) (a0 + k);
            if m \<noteq> 0 then
              Some (srcOver_op (r_calpha rdr) (r_cred rdr) (r_cgreen rdr) (r_cblue rdr) (m AND 0xff))
            else Some Keep })
       (r_alphaWidth rdr) rdr height"

definition blitPTSrcOverMask8888_pre :: "'a raster_scheme \<Rightarrow> jint \<Rightarrow> 'a raster_scheme option" where
  "blitPTSrcOverMask8888_pre rdr height =
     blit_mask (\<lambda>a0 k.
       do { m \<leftarrow> aget (r_mask_byteData rdr) (a0 + k);
            if m \<noteq> 0 then
              do { cval \<leftarrow> aget (r_paint rdr) k;
                   Some (ptSrcOver_op cval (m AND 0xff)) }
            else Some Keep })
       0 rdr height"

definition lcd_op ::
    "jint list \<Rightarrow> jint list \<Rightarrow> jint \<Rightarrow> jint \<Rightarrow> jint \<Rightarrow> jint \<Rightarrow> jint \<Rightarrow> jint \<Rightarrow> jint \<Rightarrow> pixop" where
  "lcd_op gammaArray invGammaArray calpha cred cgreen cblue ared agreen ablue =
     (let ared = (if calpha < MAX_ALPHA then drop_bit 8 (i32 ((ared + 1) * calpha)) else ared);
          agreen = (if calpha < MAX_ALPHA then drop_bit 8 (i32 ((agreen + 1) * calpha)) else agreen);
          ablue = (if calpha < MAX_ALPHA then drop_bit 8 (i32 ((ablue + 1) * calpha)) else ablue);
          aval_ismax = ared AND agreen AND ablue
      in if aval_ismax = MAX_ALPHA then Store (pack 0xff cred cgreen cblue)
         else Blend (\<lambda>p. blendLCDSrcOver8888_pre gammaArray invGammaArray p
                           ared agreen ablue cred cgreen cblue))"

definition blitSrcOverLCDMask8888_pre ::
    "jint list \<Rightarrow> jint list \<Rightarrow> 'a raster_scheme \<Rightarrow> jint \<Rightarrow> 'a raster_scheme option" where
  "blitSrcOverLCDMask8888_pre gammaArray invGammaArray rdr height =
     do { calpha \<leftarrow> aget invGammaArray (r_calpha rdr);
          cred \<leftarrow> aget invGammaArray (r_cred rdr);
          cgreen \<leftarrow> aget invGammaArray (r_cgreen rdr);
          cblue \<leftarrow> aget invGammaArray (r_cblue rdr);
          blit_mask (\<lambda>a0 k.
            do { ared \<leftarrow> aget (r_mask_byteData rdr) (a0 + 3 * k);
                 agreen \<leftarrow> aget (r_mask_byteData rdr) (a0 + 3 * k + 1);
                 ablue \<leftarrow> aget (r_mask_byteData rdr) (a0 + 3 * k + 2);
                 Some (lcd_op gammaArray invGammaArray calpha cred cgreen cblue
                         (ared AND 0xff) (agreen AND 0xff) (ablue AND 0xff)) })
            (r_alphaWidth rdr) rdr height }"

subsection \<open>Lines of a rectangle\<close>

text \<open>
  One row of an \<open>emitLine\<close> routine: a left edge pixel when \<open>lfrac\<close> is not 0, \<open>w\<close> inner pixels,
  a right edge pixel when \<open>rfrac\<close> is not 0. \<open>a\<close> is the pixel cursor, \<open>aidx\<close> the cursor in the
  paint, which the flat-colour routines do not use.
\<close>

definition emit_row ::
    "(int \<Rightarrow> pixop option) \<Rightarrow> (int \<Rightarrow> pixop option) \<Rightarrow> (int \<Rightarrow> pixop option) \<Rightarrow>
     jint \<Rightarrow> jint \<Rightarrow> jint \<Rightarrow> jint \<Rightarrow> int \<Rightarrow> int \<Rightarrow> jint list \<Rightarrow> jint list option" where
  "emit_row lop mop rop lfrac rfrac w stride a aidx d =
     do { (a, aidx, d) \<leftarrow>
            (if lfrac \<noteq> 0 then
               do { op \<leftarrow> lop aidx; d \<leftarrow> apply_pixop op d a; Some (a + stride, aidx + 1, d) }
             else Some (a, aidx, d));
          (a, aidx, d) \<leftarrow>
            span (\<lambda>a (aidx, d). do { op \<leftarrow> mop aidx; d \<leftarrow> apply_pixop op d a; Some (aidx + 1, d) })
              stride a (a + w) (aidx, d);
          if rfrac \<noteq> 0 then do { op \<leftarrow> rop aidx; apply_pixop op d a } else Some d }"

definition emit_rows ::
    "(int \<Rightarrow> pixop option) \<Rightarrow> (int \<Rightarrow> pixop option) \<Rightarrow> (int \<Rightarrow> pixop option) \<Rightarrow>
     jint \<Rightarrow> jint \<Rightarrow> jint \<Rightarrow> jint \<Rightarrow> 'a raster_scheme \<Rightarrow> jint \<Rightarrow> 'a raster_scheme option" where
  "emit_rows lop mop rop lfrac rfrac w paint_stride rdr height =
     do { (imageOffset, paint_offset, data) \<leftarrow>
            iter_opt (nat height) (\<lambda>(imageOffset, paint_offset, data).
              do { data \<leftarrow> emit_row lop mop rop lfrac rfrac w (r_imagePixelStride rdr)
                     (i32 (imageOffset + r_minTouched rdr * r_imagePixelStride rdr)) paint_offset data;
                   Some (i32 (imageOffset + r_imageScanlineStride rdr), i32 (paint_offset + paint_stride), data) })
              (r_currImageOffset rdr, 0, r_data rdr);
          Some (rdr\<lparr>r_data := data\<rparr>) }"

definition edgeWidth :: "jint \<Rightarrow> jint \<Rightarrow> jint \<Rightarrow> jint" where
  "edgeWidth alphaWidth lfrac rfrac =
     i32 (alphaWidth - (if lfrac \<noteq> 0 then 1 else 0) - (if rfrac \<noteq> 0 then 1 else 0))"

definition fracMul :: "jint \<Rightarrow> jint \<Rightarrow> jint" where
  "fracMul f frac = i32 (drop_bit 16 (i64 (f * frac)))"

definition emitLineSource8888_pre ::
    "'a raster_scheme \<Rightarrow> jint \<Rightarrow> jint \<Rightarrow> 'a raster_scheme option" where
  "emitLineSource8888_pre rdr height frac =
     (let calpha = r_calpha rdr; cred = r_cred rdr; cgreen = r_cgreen rdr; cblue = r_cblue rdr;
          lfrac = r_el_lfrac rdr; rfrac = r_el_rfrac rdr;
          w = edgeWidth (r_alphaWidth rdr) lfrac rfrac;
          edge = (\<lambda>f. Some (Blend (\<lambda>p. Some (blendSrc8888_pre p calpha (i32 (255 - drop_bit 8 f)) cred cgreen cblue))))
      in if frac = 0x10000 then
           let pre_red = drop_bit 8 (i32 ((calpha + 1) * cred));
               pre_green = drop_bit 8 (i32 ((calpha + 1) * cgreen));
               pre_blue = drop_bit 8 (i32 ((calpha + 1) * cblue));
               pixel = pack calpha pre_red pre_green pre_blue
           in emit_rows (\<lambda>_. edge lfrac) (\<lambda>_. Some (Store pixel)) (\<lambda>_. edge rfrac) lfrac rfrac w 0 rdr height
         else
           let comp_frac = i32 (255 - drop_bit 8 frac);
               lfrac = fracMul lfrac frac; rfrac = fracMul rfrac frac
           in emit_rows (\<lambda>_. edge lfrac)
                (\<lambda>_. Some (Blend (\<lambda>p. Some (blendSrc8888_pre p calpha comp_frac cred cgreen cblue))))
                (\<lambda>_. edge rfrac) lfrac rfrac w 0 rdr height)"

definition emitLinePTSource8888_pre ::
    "'a raster_scheme \<Rightarrow> jint \<Rightarrow> jint \<Rightarrow> 'a raster_scheme option" where
  "emitLinePTSource8888_pre rdr height frac =
     (let comp_frac = i32 (255 - drop_bit 8 frac);
          lfrac = fracMul (r_el_lfrac rdr) frac; rfrac = fracMul (r_el_rfrac rdr) frac;
          w = edgeWidth (r_alphaWidth rdr) lfrac rfrac;
          blend = (\<lambda>raaval aidx. do { cval \<leftarrow> aget (r_paint rdr) aidx;
            Some (Blend (\<lambda>p. Some (blendSrc8888_pre_pre p (px_A cval) raaval (px_R cval) (px_G cval) (px_B cval)))) })
      in emit_rows (blend (i32 (255 - drop_bit 8 lfrac)))
           (if frac = 0x10000 then (\<lambda>aidx. do { cval \<leftarrow> aget (r_paint rdr) aidx; Some (Store cval) })
            else blend comp_frac)
           (blend (i32 (255 - drop_bit 8 rfrac))) lfrac rfrac w (r_alphaWidth rdr) rdr height)"

definition emitLineSourceOver8888_pre ::
    "'a raster_scheme \<Rightarrow> jint \<Rightarrow> jint \<Rightarrow> 'a raster_scheme option" where
  "emitLineSourceOver8888_pre rdr height frac =
     (let calpha = r_calpha rdr; cred = r_cred rdr; cgreen = r_cgreen rdr; cblue = r_cblue rdr;
          alpha = drop_bit 16 (i32 (calpha * frac));
          lfrac = r_el_lfrac rdr; rfrac = r_el_rfrac rdr;
          w = edgeWidth (r_alphaWidth rdr) lfrac rfrac;
          blend = (\<lambda>aval _. Some (Blend (\<lambda>p. Some (blendSrcOver8888_pre p aval cred cgreen cblue))))
      in if alpha = MAX_ALPHA then
           emit_rows (blend (drop_bit 8 lfrac)) (\<lambda>_. Some (Store (pack 0xFF cred cgreen cblue)))
             (blend (drop_bit 8 rfrac)) lfrac rfrac w 0 rdr height
         else
           let lalpha = drop_bit 16 (i32 (lfrac * alpha)); ralpha = drop_bit 16 (i32 (rfrac * alpha))
           in emit_rows (blend lalpha) (blend alpha) (blend ralpha) lfrac rfrac w 0 rdr height)"

definition emitLinePTSourceOver8888_pre ::
    "'a raster_scheme \<Rightarrow> jint \<Rightarrow> jint \<Rightarrow> 'a raster_scheme option" where
  "emitLinePTSourceOver8888_pre rdr height frac =
     (let lfrac = fracMul (r_el_lfrac rdr) frac; rfrac = fracMul (r_el_rfrac rdr) frac;
          w = edgeWidth (r_alphaWidth rdr) lfrac rfrac;
          blend = (\<lambda>f aidx. do { cval \<leftarrow> aget (r_paint rdr) aidx;
            Some (Blend (\<lambda>p. Some (blendSrcOver8888_pre_pre p f (px_A cval) (px_R cval) (px_G cval) (px_B cval)))) });
          full = (\<lambda>aidx. do { cval \<leftarrow> aget (r_paint rdr) aidx;
            let palpha = px_A cval;
            Some (if palpha = 0 then Keep
                  else if palpha = MAX_ALPHA then Store cval
                  else Blend (\<lambda>p. Some (blendSrcOver8888_pre_pre_fullFrac p palpha
                                          (px_R cval) (px_G cval) (px_B cval)))) })
      in emit_rows (blend (drop_bit 8 lfrac))
           (if frac = 0x10000 then full else blend (drop_bit 8 frac))
           (blend (drop_bit 8 rfrac)) lfrac rfrac w (r_alphaWidth rdr) rdr height)"

subsection \<open>Clearing a rectangle\<close>

text \<open>
  \<open>memset\<close> and \<open>memcpy\<close> take their size in bytes, an \<open>int\<close> product that is converted to
  \<open>size_t\<close>; a negative size is an enormous one and faults.
\<close>

definition memset0 :: "jint list \<Rightarrow> int \<Rightarrow> int \<Rightarrow> jint list option" where
  "memset0 d i bytes = (if bytes < 0 then None else awrite d i (replicate (nat bytes div 4) 0))"

definition memcpy_self :: "jint list \<Rightarrow> int \<Rightarrow> int \<Rightarrow> int \<Rightarrow> jint list option" where
  "memcpy_self d dst src bytes =
     (if bytes < 0 then None else do { xs \<leftarrow> aread d src (nat bytes div 4); awrite d dst xs })"

definition clearRect8888_any ::
    "'a raster_scheme \<Rightarrow> jint \<Rightarrow> jint \<Rightarrow> jint \<Rightarrow> jint \<Rightarrow> 'a raster_scheme option" where
  "clearRect8888_any rdr x y w h =
     (let cval = pack (r_calpha rdr) (r_cred rdr) (r_cgreen rdr) (r_cblue rdr);
          intData = r_imageOffset rdr + i32 (y * r_imageScanlineStride rdr) + i32 (x * r_imagePixelStride rdr);
          size = i32 (4 * w)
      in if cval = 0 then
           if x = 0 \<and> w = r_width rdr then
             do { d \<leftarrow> memset0 (r_data rdr) intData (i32 (size * h)); Some (rdr\<lparr>r_data := d\<rparr>) }
           else
             do { (p, d) \<leftarrow> iter_opt (nat h) (\<lambda>(p, d).
                    do { d \<leftarrow> memset0 d p size; Some (p + r_imageScanlineStride rdr, d) })
                    (intData, r_data rdr);
                  Some (rdr\<lparr>r_data := d\<rparr>) }
         else
           do { (_, d) \<leftarrow> span (\<lambda>p d. aset d p cval) 1 intData (intData + w) (r_data rdr);
                (p, d) \<leftarrow> iter_opt (nat (h - 1)) (\<lambda>(p, d).
                  do { d \<leftarrow> memcpy_self d p intData size; Some (p + r_imageScanlineStride rdr, d) })
                  (intData + r_imageScanlineStride rdr, d);
                Some (rdr\<lparr>r_data := d\<rparr>) })"

section \<open>What a span does\<close>

text \<open>The value an operation gives a pixel, and the operations a span performs.\<close>

fun pixop_val :: "pixop \<Rightarrow> jint \<Rightarrow> jint option" where
  "pixop_val Keep p = Some p"
| "pixop_val (Store v) p = Some v"
| "pixop_val (Blend f) p = f p"

fun run_steps :: "('s \<Rightarrow> (pixop \<times> 's) option) \<Rightarrow> nat \<Rightarrow> 's \<Rightarrow> (pixop list \<times> 's) option" where
  "run_steps step 0 s = Some ([], s)"
| "run_steps step (Suc n) s =
     do { (op, s') \<leftarrow> step s; (ops, s'') \<leftarrow> run_steps step n s'; Some (op # ops, s'') }"

definition span_of :: "jint list \<Rightarrow> int \<Rightarrow> (nat \<Rightarrow> pixop) \<Rightarrow> nat \<Rightarrow> jint list \<Rightarrow> bool" where
  "span_of d i ops n d' \<longleftrightarrow> length d' = length d \<and>
     (\<forall>k < length d. if i \<le> int k \<and> int k < i + int n
        then pixop_val (ops (nat (int k - i))) (d ! k) = Some (d' ! k) else d' ! k = d ! k)"

lemma apply_pixop_in:
  assumes "0 \<le> i" "i < int (length d)" "pixop_val op (d ! nat i) = Some v"
  shows "apply_pixop op d i = Some (d[nat i := v])"
  using assms by (cases op) (auto simp: array_simps list_update_same_conv)

lemma span_of_0 [simp]: "span_of d i ops 0 d"
  by (auto simp: span_of_def)

lemma span_of_Suc:
  assumes "span_of (d[nat i := v]) (i + 1) (\<lambda>k. ops (Suc k)) n d'"
    and "pixop_val (ops 0) (d ! nat i) = Some v" and "0 \<le> i"
  shows "span_of d i ops (Suc n) d'"
  unfolding span_of_def
proof (intro conjI allI impI)
  show "length d' = length d" using assms(1) by (simp add: span_of_def)
next
  fix k assume k: "k < length d"
  with assms(1) have s: "if i + 1 \<le> int k \<and> int k < i + 1 + int n
      then pixop_val (ops (Suc (nat (int k - (i + 1))))) (d[nat i := v] ! k) = Some (d' ! k)
      else d' ! k = d[nat i := v] ! k"
    by (simp add: span_of_def)
  consider "int k = i" | "i + 1 \<le> int k" "int k < i + 1 + int n" | "int k < i \<or> i + 1 + int n \<le> int k"
    by linarith
  then show "if i \<le> int k \<and> int k < i + int (Suc n)
      then pixop_val (ops (nat (int k - i))) (d ! k) = Some (d' ! k) else d' ! k = d ! k"
  proof cases
    case 1
    with s k assms(2,3) show ?thesis by auto
  next
    case 2
    then have "Suc (nat (int k - (i + 1))) = nat (int k - i)" "k \<noteq> nat i"
      using assms(3) by linarith+
    with 2 s show ?thesis by simp
  next
    case 3
    with assms(3) have "k \<noteq> nat i" by linarith
    with 3 s show ?thesis by auto
  qed
qed

lemma blit_span_spec:
  assumes "run_steps step n s = Some (ops, s')" "0 \<le> i" "i + int n \<le> int (length d)"
    and "int (length d) < 2 ^ 31"
    and "\<forall>k < n. \<exists>v. pixop_val (ops ! k) (d ! (nat i + k)) = Some v"
  shows "\<exists>d'. blit_span step 1 n i s d = Some (s', d') \<and> span_of d i ((!) ops) n d'"
  using assms
proof (induction n arbitrary: i s d ops)
  case (Suc n)
  from Suc.prems(1) obtain op s1 ops1 where st: "step s = Some (op, s1)"
    and run: "run_steps step n s1 = Some (ops1, s')" and ops: "ops = op # ops1"
    by (auto simp: bind_eq_Some_conv)
  from Suc.prems(5) ops obtain v where v: "pixop_val op (d ! nat i) = Some v" by force
  have ap: "apply_pixop op d i = Some (d[nat i := v])"
    using Suc.prems v by (intro apply_pixop_in) auto
  have i1: "i32 (i + 1) = i + 1" using Suc.prems by (intro i32_small) auto
  have tl: "\<forall>k < n. \<exists>v'. pixop_val (ops1 ! k) (d[nat i := v] ! (nat (i + 1) + k)) = Some v'"
  proof (intro allI impI)
    fix k assume "k < n"
    moreover have "nat (i + 1) + k = nat i + Suc k" using Suc.prems(2) by simp
    ultimately show "\<exists>v'. pixop_val (ops1 ! k) (d[nat i := v] ! (nat (i + 1) + k)) = Some v'"
      using Suc.prems(5) ops by (auto dest: spec [of _ "Suc k"])
  qed
  have "0 \<le> i + 1" "i + 1 + int n \<le> int (length (d[nat i := v]))" "int (length (d[nat i := v])) < 2 ^ 31"
    using Suc.prems by auto
  from Suc.IH [OF run this tl] obtain d' where
    d': "blit_span step 1 n (i + 1) s1 (d[nat i := v]) = Some (s', d')"
      "span_of (d[nat i := v]) (i + 1) ((!) ops1) n d'" by blast
  have "span_of d i ((!) ops) (Suc n) d'"
    using d'(2) v Suc.prems(2) ops by (intro span_of_Suc) auto
  with d'(1) st ap i1 show ?case by auto
qed auto

subsection \<open>A row of alpha deltas\<close>

definition delta_sum :: "jint list \<Rightarrow> int \<Rightarrow> nat \<Rightarrow> jint" where
  "delta_sum row alpha k = sum_list (take k (drop (nat alpha) row))"

definition zero_span :: "jint list \<Rightarrow> int \<Rightarrow> nat \<Rightarrow> jint list" where
  "zero_span row alpha k = take (nat alpha) row @ replicate k 0 @ drop (nat alpha + k) row"

lemma delta_sum_Suc:
  assumes "0 \<le> alpha" "alpha + int k < int (length row)"
  shows "delta_sum row alpha (Suc k) = delta_sum row alpha k + row ! (nat alpha + k)"
proof -
  have "k < length (drop (nat alpha) row)" using assms by auto
  then show ?thesis by (simp add: delta_sum_def take_Suc_conv_app_nth)
qed

lemma zero_span_0 [simp]: "zero_span row alpha 0 = row"
  by (simp add: zero_span_def)

lemma zero_span_length:
  "0 \<le> alpha \<Longrightarrow> alpha + int k \<le> int (length row) \<Longrightarrow> length (zero_span row alpha k) = length row"
  by (auto simp: zero_span_def min_def)

lemma zero_span_nth:
  assumes "0 \<le> alpha" "alpha + int k \<le> int (length row)" "j < length row"
  shows "zero_span row alpha k ! j = (if nat alpha \<le> j \<and> j < nat alpha + k then 0 else row ! j)"
  using assms by (auto simp: zero_span_def nth_append min_def nth_Cons')

lemma zero_span_Suc:
  assumes "0 \<le> alpha" "alpha + int k < int (length row)"
  shows "(zero_span row alpha k)[nat alpha + k := 0] = zero_span row alpha (Suc k)"
proof (rule nth_equalityI)
  show "length ((zero_span row alpha k)[nat alpha + k := 0]) = length (zero_span row alpha (Suc k))"
    using assms by (simp add: zero_span_length)
  fix j assume "j < length ((zero_span row alpha k)[nat alpha + k := 0])"
  then have "j < length row" using assms by (simp add: zero_span_length)
  then show "(zero_span row alpha k)[nat alpha + k := 0] ! j = zero_span row alpha (Suc k) ! j"
    using assms by (auto simp: nth_list_update zero_span_length zero_span_nth)
qed

lemma aa_run:
  assumes "0 \<le> alpha" "alpha + int (k + n) \<le> int (length row)"
    and "\<forall>j < k + n. is_i32 (delta_sum row alpha (Suc j)) \<and>
           f (int j) (delta_sum row alpha (Suc j)) = Some (op j)"
  shows "run_steps (aa_step f alpha) n (int k, delta_sum row alpha k, zero_span row alpha k) =
    Some (map op [k..<k + n], int (k + n), delta_sum row alpha (k + n), zero_span row alpha (k + n))"
  using assms(2,3)
proof (induction n arbitrary: k)
  case (Suc n)
  have lt: "alpha + int k < int (length row)" using Suc.prems(1) by simp
  have g: "aget (zero_span row alpha k) (alpha + int k) = Some (row ! (nat alpha + k))"
    using assms(1) lt by (simp add: aget_def zero_span_length zero_span_nth nat_add_distrib)
  have s: "aset (zero_span row alpha k) (alpha + int k) 0 = Some (zero_span row alpha (Suc k))"
    using assms(1) lt by (simp add: aset_def zero_span_length nat_add_distrib zero_span_Suc)
  have d: "i32 (delta_sum row alpha k + row ! (nat alpha + k)) = delta_sum row alpha (Suc k)"
    using Suc.prems(2) assms(1) lt by (simp add: i32_id flip: delta_sum_Suc)
  have op: "f (int k) (delta_sum row alpha (Suc k)) = Some (op k)" using Suc.prems(2) by simp
  have IH: "run_steps (aa_step f alpha) n (int (Suc k), delta_sum row alpha (Suc k), zero_span row alpha (Suc k)) =
    Some (map op [Suc k..<Suc k + n], int (Suc k + n), delta_sum row alpha (Suc k + n), zero_span row alpha (Suc k + n))"
    using Suc.prems by (intro Suc.IH) auto
  show ?case
    using IH by (simp add: aa_step_def g s d op upt_rec [of k] add.commute [of 1])
qed simp

text \<open>The geometry of a row: one pixel per cell, inside the image.\<close>

definition row_ok :: "'a raster_scheme \<Rightarrow> bool" where
  "row_ok rdr \<longleftrightarrow> r_imagePixelStride rdr = 1 \<and> r_minTouched rdr \<le> r_maxTouched rdr
     \<and> 0 \<le> r_currImageOffset rdr \<and> 0 \<le> r_minTouched rdr
     \<and> r_currImageOffset rdr + r_maxTouched rdr < int (length (r_data rdr))
     \<and> int (length (r_data rdr)) < 2 ^ 31"

definition row_width :: "'a raster_scheme \<Rightarrow> nat" where
  "row_width rdr = nat (r_maxTouched rdr - r_minTouched rdr + 1)"

definition row_start :: "'a raster_scheme \<Rightarrow> int" where
  "row_start rdr = r_currImageOffset rdr + r_minTouched rdr"

lemma row_okD:
  assumes "row_ok rdr"
  shows "nat (touchedWidth rdr) = row_width rdr"
    "i32 (r_currImageOffset rdr + r_minTouched rdr * r_imagePixelStride rdr) = row_start rdr"
    "0 \<le> row_start rdr" "row_start rdr + int (row_width rdr) \<le> int (length (r_data rdr))"
    "r_imagePixelStride rdr = 1" "int (length (r_data rdr)) < 2 ^ 31"
  using assms by (auto simp: row_ok_def touchedWidth_def row_width_def row_start_def i32_small)

lemma blit_aa_row:
  assumes "row_ok rdr" "0 \<le> r_rowAAOff rdr"
    and "r_rowAAOff rdr + int (row_width rdr) \<le> int (length (r_rowAAInt rdr))"
    and "\<forall>k < row_width rdr. is_i32 (delta_sum (r_rowAAInt rdr) (r_rowAAOff rdr) (Suc k)) \<and>
           f (int k) (delta_sum (r_rowAAInt rdr) (r_rowAAOff rdr) (Suc k)) = Some (op k)"
    and "\<forall>k < row_width rdr. \<exists>v. pixop_val (op k) (r_data rdr ! (nat (row_start rdr) + k)) = Some v"
  shows "\<exists>d'. blit_aa f rdr 1 =
      Some (rdr\<lparr>r_rowAAInt := zero_span (r_rowAAInt rdr) (r_rowAAOff rdr) (row_width rdr), r_data := d'\<rparr>)
    \<and> span_of (r_data rdr) (row_start rdr) op (row_width rdr) d'"
proof -
  let ?n = "row_width rdr" and ?ops = "map op [0..<row_width rdr]"
  have run: "run_steps (aa_step f (r_rowAAOff rdr)) ?n (0, 0, r_rowAAInt rdr) =
      Some (?ops, int ?n, delta_sum (r_rowAAInt rdr) (r_rowAAOff rdr) ?n,
            zero_span (r_rowAAInt rdr) (r_rowAAOff rdr) ?n)"
    using aa_run [OF assms(2), of 0 ?n] assms(3,4) by (simp add: delta_sum_def)
  have "\<forall>k < ?n. \<exists>v. pixop_val (?ops ! k) (r_data rdr ! (nat (row_start rdr) + k)) = Some v"
    using assms(5) by simp
  from blit_span_spec [OF run row_okD(3,4,6) [OF assms(1)] this] obtain d' where
    d': "blit_span (aa_step f (r_rowAAOff rdr)) 1 ?n (row_start rdr) (0, 0, r_rowAAInt rdr) (r_data rdr)
      = Some ((int ?n, delta_sum (r_rowAAInt rdr) (r_rowAAOff rdr) ?n,
               zero_span (r_rowAAInt rdr) (r_rowAAOff rdr) ?n), d')"
    and sp: "span_of (r_data rdr) (row_start rdr) ((!) ?ops) ?n d'" by blast
  from sp have "span_of (r_data rdr) (row_start rdr) op ?n d'" by (auto simp: span_of_def)
  with d' show ?thesis
    using row_okD [OF assms(1)] by (intro exI [of _ d']) (simp add: blit_aa_def)
qed

lemma mask_run:
  assumes "\<forall>j < k + n. f a0 (int j) = Some (op j)"
  shows "run_steps (mask_step f a0) n (int k) = Some (map op [k..<k + n], int (k + n))"
  using assms
proof (induction n arbitrary: k)
  case (Suc n)
  from Suc.IH [of "Suc k"] Suc.prems
  show ?case by (simp add: mask_step_def upt_rec [of k] add.commute [of 1])
qed simp

lemma blit_mask_row:
  assumes "row_ok rdr"
    and "\<forall>k < row_width rdr. f (r_maskOffset rdr) (int k) = Some (op k)"
    and "\<forall>k < row_width rdr. \<exists>v. pixop_val (op k) (r_data rdr ! (nat (row_start rdr) + k)) = Some v"
  shows "\<exists>d'. blit_mask f astep rdr 1 = Some (rdr\<lparr>r_data := d'\<rparr>)
    \<and> span_of (r_data rdr) (row_start rdr) op (row_width rdr) d'"
proof -
  let ?n = "row_width rdr" and ?ops = "map op [0..<row_width rdr]"
  have run: "run_steps (mask_step f (r_maskOffset rdr)) ?n 0 = Some (?ops, int ?n)"
    using mask_run [of 0 ?n f "r_maskOffset rdr" op] assms(2) by simp
  have "\<forall>k < ?n. \<exists>v. pixop_val (?ops ! k) (r_data rdr ! (nat (row_start rdr) + k)) = Some v"
    using assms(3) by simp
  from blit_span_spec [OF run row_okD(3,4,6) [OF assms(1)] this] obtain d' where
    d': "blit_span (mask_step f (r_maskOffset rdr)) 1 ?n (row_start rdr) 0 (r_data rdr) = Some (int ?n, d')"
    and sp: "span_of (r_data rdr) (row_start rdr) ((!) ?ops) ?n d'" by blast
  from sp have "span_of (r_data rdr) (row_start rdr) op ?n d'" by (auto simp: span_of_def)
  with d' show ?thesis
    using row_okD [OF assms(1)] by (intro exI [of _ d']) (simp add: blit_mask_def)
qed

section \<open>The contract of a compositing rule\<close>

text \<open>
  The blits rely on four pixel rules. What they need of a rule: for a valid source, every coverage
  byte and every pixel of a premultiplied surface, the operation is defined and leaves a premultiplied
  pixel; coverage 0 leaves the pixel as it is.
\<close>

definition px_ok :: "jint \<Rightarrow> bool" where
  "px_ok p \<longleftrightarrow> is_i32 p \<and> premult p"

definition surface_ok :: "jint list \<Rightarrow> bool" where
  "surface_ok d \<longleftrightarrow> (\<forall>p \<in> set d. px_ok p)"

locale coverage_rule =
  fixes op :: "'c \<Rightarrow> jint \<Rightarrow> pixop" and valid :: "'c \<Rightarrow> bool"
  assumes op_keeps: "valid c \<Longrightarrow> is_chan m \<Longrightarrow> px_ok p \<Longrightarrow> \<exists>p'. pixop_val (op c m) p = Some p' \<and> px_ok p'"
    and op_none: "valid c \<Longrightarrow> pixop_val (op c 0) p = Some p"
begin

definition rule_op :: "(nat \<Rightarrow> 'c) \<Rightarrow> nat \<Rightarrow> pixop \<Rightarrow> bool" where
  "rule_op col k o' \<longleftrightarrow> valid (col k) \<and> (o' = Keep \<or> (\<exists>m. is_chan m \<and> o' = op (col k) m))"

lemma rule_opI: "valid (col k) \<Longrightarrow> col k = c \<Longrightarrow> is_chan m \<Longrightarrow> rule_op col k (op c m)"
  by (auto simp: rule_op_def)

lemma rule_op_Keep: "valid (col k) \<Longrightarrow> rule_op col k Keep"
  by (simp add: rule_op_def)

lemma rule_op_keeps: "rule_op col k o' \<Longrightarrow> px_ok p \<Longrightarrow> \<exists>p'. pixop_val o' p = Some p' \<and> px_ok p'"
  using op_keeps by (auto simp: rule_op_def)

lemma span_keeps_surface:
  assumes "span_of d i ops n d'" "surface_ok d" "\<forall>k < n. rule_op col k (ops k)"
  shows "surface_ok d'"
  unfolding surface_ok_def
proof
  fix p assume "p \<in> set d'"
  then obtain k where k: "k < length d" "p = d' ! k"
    using assms(1) by (auto simp: in_set_conv_nth span_of_def)
  have q: "px_ok (d ! k)" using assms(2) k(1) by (simp add: surface_ok_def)
  show "px_ok p"
  proof (cases "i \<le> int k \<and> int k < i + int n")
    case True
    then have "nat (int k - i) < n" by auto
    with assms(3) obtain p' where "pixop_val (ops (nat (int k - i))) (d ! k) = Some p'" "px_ok p'"
      using rule_op_keeps [OF _ q] by blast
    with True assms(1) k show ?thesis by (auto simp: span_of_def)
  next
    case False
    with assms(1) k q show ?thesis by (auto simp: span_of_def)
  qed
qed

lemma rule_defined:
  assumes "row_ok rdr" "surface_ok (r_data rdr)" "\<forall>k < row_width rdr. rule_op col k (ops k)"
  shows "\<forall>k < row_width rdr. \<exists>v. pixop_val (ops k) (r_data rdr ! (nat (row_start rdr) + k)) = Some v"
proof (intro allI impI)
  fix k assume k: "k < row_width rdr"
  then have "nat (row_start rdr) + k < length (r_data rdr)"
    using row_okD(3,4) [OF assms(1)] by linarith
  then have "px_ok (r_data rdr ! (nat (row_start rdr) + k))"
    using assms(2) by (simp add: surface_ok_def)
  with k assms(3) show "\<exists>v. pixop_val (ops k) (r_data rdr ! (nat (row_start rdr) + k)) = Some v"
    using rule_op_keeps by blast
qed

lemma aa_row_safe:
  assumes "row_ok rdr" "surface_ok (r_data rdr)" "0 \<le> r_rowAAOff rdr"
    and "r_rowAAOff rdr + int (row_width rdr) \<le> int (length (r_rowAAInt rdr))"
    and "\<forall>k < row_width rdr. is_i32 (delta_sum (r_rowAAInt rdr) (r_rowAAOff rdr) (Suc k)) \<and>
           f (int k) (delta_sum (r_rowAAInt rdr) (r_rowAAOff rdr) (Suc k)) = Some (ops k)"
    and "\<forall>k < row_width rdr. rule_op col k (ops k)"
  shows "\<exists>d'. blit_aa f rdr 1 =
      Some (rdr\<lparr>r_rowAAInt := zero_span (r_rowAAInt rdr) (r_rowAAOff rdr) (row_width rdr), r_data := d'\<rparr>)
    \<and> span_of (r_data rdr) (row_start rdr) ops (row_width rdr) d' \<and> surface_ok d'"
  using blit_aa_row [where f = f and op = ops, OF assms(1,3,4,5) rule_defined [OF assms(1,2,6)]]
    span_keeps_surface [OF _ assms(2,6)] by blast

lemma mask_row_safe:
  assumes "row_ok rdr" "surface_ok (r_data rdr)"
    and "\<forall>k < row_width rdr. f (r_maskOffset rdr) (int k) = Some (ops k)"
    and "\<forall>k < row_width rdr. rule_op col k (ops k)"
  shows "\<exists>d'. blit_mask f astep rdr 1 = Some (rdr\<lparr>r_data := d'\<rparr>)
    \<and> span_of (r_data rdr) (row_start rdr) ops (row_width rdr) d' \<and> surface_ok d'"
  using blit_mask_row [where f = f and op = ops, OF assms(1,3) rule_defined [OF assms(1,2,4)]]
    span_keeps_surface [OF _ assms(2,4)] by blast

end

text \<open>
  The rules of the model: source-over of a colour or of a premultiplied paint for every colour,
  source of a colour only for a colour whose channels do not exceed its alpha, because at full
  coverage the source blit stores the colour as it is.
\<close>

type_synonym colour = "jint \<times> jint \<times> jint \<times> jint"

definition colour_ok :: "colour \<Rightarrow> bool" where
  "colour_ok = (\<lambda>(a, r, g, b). is_chan a \<and> is_chan r \<and> is_chan g \<and> is_chan b)"

definition colour_premult :: "colour \<Rightarrow> bool" where
  "colour_premult = (\<lambda>(a, r, g, b). premult_chans a r g b)"

definition srcOver_rule :: "colour \<Rightarrow> jint \<Rightarrow> pixop" where
  "srcOver_rule = (\<lambda>(a, r, g, b). srcOver_op a r g b)"

definition src_rule :: "colour \<Rightarrow> jint \<Rightarrow> pixop" where
  "src_rule = (\<lambda>(a, r, g, b). src_op a r g b)"

lemma px_ok_pack: "premult_chans a r g b \<Longrightarrow> px_ok (pack a r g b)"
  by (auto simp: px_ok_def premult_chans_def is_chan_def intro!: premult_packI)

lemma scale_0_1: "is_chan a \<Longrightarrow> drop_bit 8 (i32 ((0 + 1) * a)) = 0"
  by (auto simp: is_chan_def i32_small drop_bit_eq_div)

lemma is_i32_blendSrcOver8888_pre [simp]: "is_i32 (blendSrcOver8888_pre p a r g b)"
  by (simp add: blendSrcOver8888_pre_def Let_def)

lemma is_i32_blendSrcOver8888_pre_pre [simp]: "is_i32 (blendSrcOver8888_pre_pre p f a r g b)"
  by (simp add: blendSrcOver8888_pre_pre_def Let_def)

lemma is_i32_blendSrc8888_pre [simp]: "is_i32 (blendSrc8888_pre p v w r g b)"
  by (simp add: blendSrc8888_pre_def Let_def is_i32_def [of 0])

interpretation over: coverage_rule srcOver_rule colour_ok
proof (unfold_locales, goal_cases)
  case (1 c m p)
  obtain a r g b where c: "c = (a, r, g, b)" by (cases c) auto
  have ch: "is_chan a" "is_chan r" "is_chan g" "is_chan b" using 1(1) by (auto simp: c colour_ok_def)
  have m: "0 \<le> m" "m \<le> 255" using 1(2) by (auto dest: is_chanD)
  let ?v = "drop_bit 8 (i32 ((m + 1) * a))"
  have v: "is_chan ?v" using src_weights [OF m ch(1)] by simp
  have "px_ok (pack 255 r g b)" using ch by (intro px_ok_pack) (auto simp: premult_chans_def is_chan_def)
  moreover have "px_ok (blendSrcOver8888_pre p ?v r g b)"
    using blendSrcOver8888_pre_premult [OF v ch(2-4)] 1(3) by (simp add: px_ok_def)
  ultimately show ?case
    using 1(3) by (auto simp: c srcOver_rule_def srcOver_op_def Let_def)
next
  case (2 c p)
  then show ?case
    by (cases c) (auto simp: srcOver_rule_def srcOver_op_def Let_def colour_ok_def scale_0_1 [simplified] MAX_ALPHA_def)
qed

interpretation ptOver: coverage_rule ptSrcOver_op px_ok
proof (unfold_locales, goal_cases)
  case (1 c m p)
  have m: "0 \<le> m" "m \<le> 255" using 1(2) by (auto dest: is_chanD)
  have "premult_chans (px_A c) (px_R c) (px_G c) (px_B c)"
    using 1(1) by (simp add: premult_chans_px px_ok_def)
  moreover have "i32 (m + 1) = m + 1" using m by (simp add: i32_small)
  ultimately have "px_ok (blendSrcOver8888_pre_pre p (i32 (m + 1)) (px_A c) (px_R c) (px_G c) (px_B c))"
    using blendSrcOver8888_pre_pre_keeps [of "px_A c" "px_R c" "px_G c" "px_B c" "m + 1" p] 1(3) m
    by (simp add: px_ok_def)
  then show ?case using 1 by (auto simp: ptSrcOver_op_def Let_def)
next
  case (2 c p)
  then show ?case
    by (auto simp: ptSrcOver_op_def Let_def scale_0_1 [simplified] MAX_ALPHA_def)
qed

interpretation src: coverage_rule src_rule colour_premult
proof (unfold_locales, goal_cases)
  case (1 c m p)
  obtain a r g b where c: "c = (a, r, g, b)" by (cases c) auto
  have pm: "premult_chans a r g b" using 1(1) by (simp add: c colour_premult_def)
  then have ch: "is_chan a" "is_chan r" "is_chan g" "is_chan b"
    by (auto simp: premult_chans_def is_chan_def)
  have "px_ok (blendSrc8888_pre p (drop_bit 8 (i32 ((m + 1) * a))) (255 - m) r g b)"
    using blendSrc8888_pre_keeps [OF 1(2) ch] 1(3) by (simp add: px_ok_def)
  with px_ok_pack [OF pm] 1(3) show ?case
    by (auto simp: c src_rule_def src_op_def Let_def)
next
  case (2 c p)
  then show ?case by (cases c) (auto simp: src_rule_def src_op_def MAX_ALPHA_def)
qed

section \<open>The blits\<close>

text \<open>
  The inputs a caller prepares for a row: accumulated deltas that index the alpha map, a mask that
  covers the row, paint for every pixel of the row.
\<close>

definition acc_delta :: "'a raster_scheme \<Rightarrow> nat \<Rightarrow> jint" where
  "acc_delta rdr k = delta_sum (r_rowAAInt rdr) (r_rowAAOff rdr) (Suc k)"

definition aa_ok :: "'a raster_scheme \<Rightarrow> bool" where
  "aa_ok rdr \<longleftrightarrow> 0 \<le> r_rowAAOff rdr
     \<and> r_rowAAOff rdr + int (row_width rdr) \<le> int (length (r_rowAAInt rdr))
     \<and> (\<forall>k < row_width rdr. 0 \<le> acc_delta rdr k \<and> acc_delta rdr k < int (length (r_alphaMap rdr)))
     \<and> int (length (r_alphaMap rdr)) < 2 ^ 31"

definition mask_ok :: "'a raster_scheme \<Rightarrow> int \<Rightarrow> bool" where
  "mask_ok rdr bpp \<longleftrightarrow> 0 \<le> r_maskOffset rdr
     \<and> r_maskOffset rdr + bpp * int (row_width rdr) \<le> int (length (r_mask_byteData rdr))"

definition paint_ok :: "'a raster_scheme \<Rightarrow> bool" where
  "paint_ok rdr \<longleftrightarrow> row_width rdr \<le> length (r_paint rdr)
     \<and> (\<forall>k < row_width rdr. px_ok (r_paint rdr ! k))"

definition aa_coverage :: "'a raster_scheme \<Rightarrow> nat \<Rightarrow> jint" where
  "aa_coverage rdr k = r_alphaMap rdr ! nat (acc_delta rdr k) AND 0xff"

definition mask_coverage :: "'a raster_scheme \<Rightarrow> nat \<Rightarrow> jint" where
  "mask_coverage rdr k = r_mask_byteData rdr ! nat (r_maskOffset rdr + int k) AND 0xff"

definition cur_colour :: "'a raster_scheme \<Rightarrow> colour" where
  "cur_colour rdr = (r_calpha rdr, r_cred rdr, r_cgreen rdr, r_cblue rdr)"

definition clear_row :: "'a raster_scheme \<Rightarrow> jint list" where
  "clear_row rdr = zero_span (r_rowAAInt rdr) (r_rowAAOff rdr) (row_width rdr)"

lemma is_chan_and_255 [simp]: "is_chan (x AND 255)"
  by (simp add: is_chan_def and_255)

lemma aa_okD:
  assumes "aa_ok rdr" "k < row_width rdr"
  shows "is_i32 (acc_delta rdr k)"
    "aget (r_alphaMap rdr) (acc_delta rdr k) = Some (r_alphaMap rdr ! nat (acc_delta rdr k))"
  using assms by (auto simp: aa_ok_def is_i32_def aget_def)

lemma mask_okD:
  assumes "mask_ok rdr 1" "k < row_width rdr"
  shows "aget (r_mask_byteData rdr) (r_maskOffset rdr + int k)
    = Some (r_mask_byteData rdr ! nat (r_maskOffset rdr + int k))"
  using assms by (auto simp: mask_ok_def aget_def)

lemma paint_okD:
  assumes "paint_ok rdr" "k < row_width rdr"
  shows "aget (r_paint rdr) (int k) = Some (r_paint rdr ! k)" "px_ok (r_paint rdr ! k)"
  using assms by (auto simp: paint_ok_def aget_def)

text \<open>Stating the accumulated delta the way the loop lemmas do.\<close>

lemmas aa_safe_simps = acc_delta_def [symmetric] clear_row_def

lemma blitSrcOver8888_pre_row_safe:
  assumes "row_ok rdr" "surface_ok (r_data rdr)" "aa_ok rdr" "colour_ok (cur_colour rdr)"
  shows "\<exists>d'. blitSrcOver8888_pre rdr 1 = Some (rdr\<lparr>r_rowAAInt := clear_row rdr, r_data := d'\<rparr>)
    \<and> span_of (r_data rdr) (row_start rdr)
        (\<lambda>k. if acc_delta rdr k = 0 then Keep else srcOver_rule (cur_colour rdr) (aa_coverage rdr k))
        (row_width rdr) d'
    \<and> surface_ok d'"
  unfolding blitSrcOver8888_pre_def clear_row_def
proof (rule over.aa_row_safe [where col = "\<lambda>_. cur_colour rdr"], goal_cases)
  case 5
  show ?case
    using aa_okD [OF assms(3)]
    by (simp add: aa_safe_simps srcOver_rule_def cur_colour_def aa_coverage_def)
next
  case 6
  show ?case using assms(4) by (auto simp: aa_coverage_def intro!: over.rule_opI over.rule_op_Keep)
qed (use assms in \<open>auto simp: aa_ok_def\<close>)

text \<open>
  C5: \<open>blitSrcOver8888_pre\<close> on one row returns without touching memory outside the row, for
  every row inside the image, every 8-bit colour and every delta row whose running sum indexes
  the alpha map. Pixel \<open>k\<close> of the row is composited with the coverage the alpha map gives for the
  sum of the first \<open>k + 1\<close> deltas (and left alone where the sum is 0), every other pixel is
  unchanged, the deltas of the row are cleared, and the surface stays premultiplied.
\<close>

theorem blitSrcOver8888_pre_row:
  assumes "row_ok rdr" "surface_ok (r_data rdr)" "aa_ok rdr" "colour_ok (cur_colour rdr)"
  shows "\<exists>d'. blitSrcOver8888_pre rdr 1 = Some (rdr\<lparr>r_rowAAInt := clear_row rdr, r_data := d'\<rparr>)
    \<and> span_of (r_data rdr) (row_start rdr)
        (\<lambda>k. if acc_delta rdr k = 0 then Keep else srcOver_rule (cur_colour rdr) (aa_coverage rdr k))
        (row_width rdr) d'
    \<and> surface_ok d'"
  by (rule blitSrcOver8888_pre_row_safe [OF assms])

text \<open>A two-row image with a touched span, for the concrete instances.\<close>

definition sample_raster :: raster where
  "sample_raster = \<lparr>r_cred = 10, r_cgreen = 20, r_cblue = 30, r_calpha = 200,
     r_data = replicate 8 (pack 255 100 100 100), r_width = 4, r_height = 2, r_imageOffset = 0,
     r_imageScanlineStride = 4, r_imagePixelStride = 1, r_alphaWidth = 2,
     r_minTouched = 1, r_maxTouched = 2, r_currX = 1, r_currY = 1, r_currImageOffset = 4,
     r_alphaMap = [0, 127, -1], r_rowAAInt = [1, 1, -2], r_rowAAOff = 0,
     r_mask_byteData = [127, -1, 127, -1, 0, 0], r_maskOffset = 0, r_paint = [pack 255 9 9 9, pack 128 0 1 2],
     r_el_lfrac = 0x8000, r_el_rfrac = 0x4000\<rparr>"

lemma sample_facts [simp]:
  "row_ok sample_raster" "surface_ok (r_data sample_raster)" "aa_ok sample_raster"
  "mask_ok sample_raster 1" "mask_ok sample_raster 3" "paint_ok sample_raster"
  "colour_ok (cur_colour sample_raster)" "colour_premult (cur_colour sample_raster)"
proof -
  have w: "row_width sample_raster = 2" by (simp add: row_width_def sample_raster_def)
  have k: "k < 2 \<Longrightarrow> k = 0 \<or> k = 1" for k :: nat by linarith
  show "row_ok sample_raster" "mask_ok sample_raster 1" "mask_ok sample_raster 3"
    by (simp_all add: row_ok_def mask_ok_def w) (simp_all add: sample_raster_def)
  show "surface_ok (r_data sample_raster)"
    by (auto simp: sample_raster_def surface_ok_def px_ok_def premult_def is_chan_def)
  show "aa_ok sample_raster"
    by (auto simp: aa_ok_def w acc_delta_def delta_sum_def dest!: k) (simp_all add: sample_raster_def)
  show "paint_ok sample_raster"
    by (auto simp: paint_ok_def w dest!: k)
       (simp_all add: sample_raster_def px_ok_def premult_def is_chan_def)
  show "colour_ok (cur_colour sample_raster)" "colour_premult (cur_colour sample_raster)"
    by (simp_all add: cur_colour_def sample_raster_def colour_ok_def colour_premult_def is_chan_def premult_chans_def)
qed

theorem blitSrcOver8888_pre_row_witness:
  "\<exists>d'. blitSrcOver8888_pre sample_raster 1 =
     Some (sample_raster\<lparr>r_rowAAInt := clear_row sample_raster, r_data := d'\<rparr>) \<and> surface_ok d'"
  using blitSrcOver8888_pre_row [of sample_raster] by auto

lemma blitSrcOverMask8888_pre_row_safe:
  assumes "row_ok rdr" "surface_ok (r_data rdr)" "mask_ok rdr 1" "colour_ok (cur_colour rdr)"
  shows "\<exists>d'. blitSrcOverMask8888_pre rdr 1 = Some (rdr\<lparr>r_data := d'\<rparr>)
    \<and> span_of (r_data rdr) (row_start rdr)
        (\<lambda>k. if r_mask_byteData rdr ! nat (r_maskOffset rdr + int k) = 0 then Keep
             else srcOver_rule (cur_colour rdr) (mask_coverage rdr k)) (row_width rdr) d'
    \<and> surface_ok d'"
  unfolding blitSrcOverMask8888_pre_def
proof (rule over.mask_row_safe [where col = "\<lambda>_. cur_colour rdr"], goal_cases)
  case 3
  show ?case
    using mask_okD [OF assms(3)] by (simp add: srcOver_rule_def cur_colour_def mask_coverage_def)
next
  case 4
  show ?case using assms(4) by (auto simp: mask_coverage_def intro!: over.rule_opI over.rule_op_Keep)
qed (use assms in auto)

lemma span_of_unique:
  assumes "span_of d i ops n d1" "span_of d i ops' n d2"
    and "\<And>k p. k < n \<Longrightarrow> pixop_val (ops k) p = pixop_val (ops' k) p"
  shows "d1 = d2"
proof (rule nth_equalityI)
  show "length d1 = length d2" using assms(1,2) by (simp add: span_of_def)
  fix k assume "k < length d1"
  then have k: "k < length d" using assms(1) by (simp add: span_of_def)
  show "d1 ! k = d2 ! k"
  proof (cases "i \<le> int k \<and> int k < i + int n")
    case True
    then have "nat (int k - i) < n" by auto
    with True k assms(1,2) assms(3) [of "nat (int k - i)" "d ! k"] show ?thesis
      by (auto simp: span_of_def)
  next
    case False
    with k assms(1,2) show ?thesis by (auto simp: span_of_def)
  qed
qed

text \<open>
  text drawn through a byte mask and shapes drawn through alpha deltas composite alike: when
  the mask of a row holds the bytes that the alpha map gives for the running delta sums (and 0
  where the sum is 0), \<open>blitSrcOverMask8888_pre\<close> and \<open>blitSrcOver8888_pre\<close> leave the same image.
\<close>

theorem mask_and_delta_blits_agree:
  assumes "row_ok rdr" "surface_ok (r_data rdr)" "aa_ok rdr" "mask_ok rdr 1" "colour_ok (cur_colour rdr)"
    and "\<And>k. k < row_width rdr \<Longrightarrow> r_mask_byteData rdr ! nat (r_maskOffset rdr + int k) =
           (if acc_delta rdr k = 0 then 0 else r_alphaMap rdr ! nat (acc_delta rdr k))"
  shows "\<exists>d'. map_option r_data (blitSrcOverMask8888_pre rdr 1) = Some d' \<and>
    map_option r_data (blitSrcOver8888_pre rdr 1) = Some d'"
proof -
  obtain d1 where d1: "blitSrcOver8888_pre rdr 1 = Some (rdr\<lparr>r_rowAAInt := clear_row rdr, r_data := d1\<rparr>)"
    "span_of (r_data rdr) (row_start rdr)
        (\<lambda>k. if acc_delta rdr k = 0 then Keep else srcOver_rule (cur_colour rdr) (aa_coverage rdr k))
        (row_width rdr) d1"
    using blitSrcOver8888_pre_row_safe [OF assms(1,2,3,5)] by blast
  obtain d2 where d2: "blitSrcOverMask8888_pre rdr 1 = Some (rdr\<lparr>r_data := d2\<rparr>)"
    "span_of (r_data rdr) (row_start rdr)
        (\<lambda>k. if r_mask_byteData rdr ! nat (r_maskOffset rdr + int k) = 0 then Keep
             else srcOver_rule (cur_colour rdr) (mask_coverage rdr k)) (row_width rdr) d2"
    using blitSrcOverMask8888_pre_row_safe [OF assms(1,2,4,5)] by blast
  have "d2 = d1"
    using over.op_none [OF assms(5)] assms(6)
    by (intro span_of_unique [OF d2(2) d1(2)]) (auto simp: mask_coverage_def aa_coverage_def)
  with d1 d2 show ?thesis by simp
qed

theorem mask_and_delta_blits_agree_witness:
  "\<exists>d'. map_option r_data (blitSrcOverMask8888_pre sample_raster 1) = Some d' \<and>
    map_option r_data (blitSrcOver8888_pre sample_raster 1) = Some d'"
proof (rule mask_and_delta_blits_agree)
  fix k assume "k < row_width sample_raster"
  then have "k = 0 \<or> k = 1" by (auto simp: row_width_def sample_raster_def)
  then show "r_mask_byteData sample_raster ! nat (r_maskOffset sample_raster + int k) =
      (if acc_delta sample_raster k = 0 then 0
       else r_alphaMap sample_raster ! nat (acc_delta sample_raster k))"
    by (auto simp: acc_delta_def delta_sum_def sample_raster_def)
qed simp_all

lemma blitPTSrcOver8888_pre_row_safe:
  assumes "row_ok rdr" "surface_ok (r_data rdr)" "aa_ok rdr" "paint_ok rdr"
  shows "\<exists>d'. blitPTSrcOver8888_pre rdr 1 = Some (rdr\<lparr>r_rowAAInt := clear_row rdr, r_data := d'\<rparr>)
    \<and> span_of (r_data rdr) (row_start rdr)
        (\<lambda>k. if acc_delta rdr k = 0 then Keep else ptSrcOver_op (r_paint rdr ! k) (aa_coverage rdr k))
        (row_width rdr) d'
    \<and> surface_ok d'"
  unfolding blitPTSrcOver8888_pre_def clear_row_def
proof (rule ptOver.aa_row_safe [where col = "\<lambda>k. r_paint rdr ! k"], goal_cases)
  case 5
  show ?case
    using aa_okD [OF assms(3)] paint_okD [OF assms(4)] by (simp add: aa_safe_simps aa_coverage_def)
next
  case 6
  show ?case
    using paint_okD(2) [OF assms(4)]
    by (auto simp: aa_coverage_def intro!: ptOver.rule_opI ptOver.rule_op_Keep)
qed (use assms in \<open>auto simp: aa_ok_def\<close>)

lemma blitPTSrcOverMask8888_pre_row_safe:
  assumes "row_ok rdr" "surface_ok (r_data rdr)" "mask_ok rdr 1" "paint_ok rdr"
  shows "\<exists>d'. blitPTSrcOverMask8888_pre rdr 1 = Some (rdr\<lparr>r_data := d'\<rparr>)
    \<and> span_of (r_data rdr) (row_start rdr)
        (\<lambda>k. if r_mask_byteData rdr ! nat (r_maskOffset rdr + int k) = 0 then Keep
             else ptSrcOver_op (r_paint rdr ! k) (mask_coverage rdr k)) (row_width rdr) d'
    \<and> surface_ok d'"
  unfolding blitPTSrcOverMask8888_pre_def
proof (rule ptOver.mask_row_safe [where col = "\<lambda>k. r_paint rdr ! k"], goal_cases)
  case 3
  show ?case
    using mask_okD [OF assms(3)] paint_okD [OF assms(4)] by (simp add: mask_coverage_def)
next
  case 4
  show ?case
    using paint_okD(2) [OF assms(4)]
    by (auto simp: mask_coverage_def intro!: ptOver.rule_opI ptOver.rule_op_Keep)
qed (use assms in auto)

text \<open>
  a paint (gradient or image) drawn source-over through a mask or through alpha deltas is
  composited pixel by pixel from the paint buffer of the row, inside the row only, and leaves a
  premultiplied surface, for every premultiplied paint.
\<close>

theorem paint_over_row:
  assumes "row_ok rdr" "surface_ok (r_data rdr)" "paint_ok rdr"
  shows "(mask_ok rdr 1 \<longrightarrow> (\<exists>d'. blitPTSrcOverMask8888_pre rdr 1 = Some (rdr\<lparr>r_data := d'\<rparr>)
      \<and> surface_ok d' \<and> span_of (r_data rdr) (row_start rdr)
        (\<lambda>k. if r_mask_byteData rdr ! nat (r_maskOffset rdr + int k) = 0 then Keep
             else ptSrcOver_op (r_paint rdr ! k) (mask_coverage rdr k)) (row_width rdr) d'))
    \<and> (aa_ok rdr \<longrightarrow> (\<exists>d'. blitPTSrcOver8888_pre rdr 1 =
          Some (rdr\<lparr>r_rowAAInt := clear_row rdr, r_data := d'\<rparr>)
      \<and> surface_ok d' \<and> span_of (r_data rdr) (row_start rdr)
        (\<lambda>k. if acc_delta rdr k = 0 then Keep else ptSrcOver_op (r_paint rdr ! k) (aa_coverage rdr k))
        (row_width rdr) d'))"
  using blitPTSrcOverMask8888_pre_row_safe [OF assms(1,2) _ assms(3)]
    blitPTSrcOver8888_pre_row_safe [OF assms(1,2) _ assms(3)] by blast

theorem paint_over_row_witness:
  "\<exists>d'. blitPTSrcOverMask8888_pre sample_raster 1 = Some (sample_raster\<lparr>r_data := d'\<rparr>) \<and> surface_ok d'"
  using paint_over_row [of sample_raster] by auto

text \<open>
  the source rule through a mask or through alpha deltas is safe and keeps the surface
  premultiplied when no channel of the current colour exceeds its alpha.
\<close>

theorem src_row:
  assumes "row_ok rdr" "surface_ok (r_data rdr)" "colour_premult (cur_colour rdr)"
  shows "(mask_ok rdr 1 \<longrightarrow> (\<exists>d'. blitSrcMask8888_pre rdr 1 = Some (rdr\<lparr>r_data := d'\<rparr>)
      \<and> surface_ok d' \<and> span_of (r_data rdr) (row_start rdr)
        (\<lambda>k. src_rule (cur_colour rdr) (mask_coverage rdr k)) (row_width rdr) d'))
    \<and> (aa_ok rdr \<longrightarrow> (\<exists>d'. blitSrc8888_pre rdr 1 = Some (rdr\<lparr>r_rowAAInt := clear_row rdr, r_data := d'\<rparr>)
      \<and> surface_ok d' \<and> span_of (r_data rdr) (row_start rdr)
        (\<lambda>k. src_rule (cur_colour rdr) (aa_coverage rdr k)) (row_width rdr) d'))"
proof (intro conjI impI)
  assume m: "mask_ok rdr 1"
  have "\<exists>d'. blitSrcMask8888_pre rdr 1 = Some (rdr\<lparr>r_data := d'\<rparr>)
      \<and> span_of (r_data rdr) (row_start rdr)
        (\<lambda>k. src_rule (cur_colour rdr) (mask_coverage rdr k)) (row_width rdr) d' \<and> surface_ok d'"
    unfolding blitSrcMask8888_pre_def
  proof (rule src.mask_row_safe [where col = "\<lambda>_. cur_colour rdr"], goal_cases)
    case 3
    show ?case
      using mask_okD [OF m] by (simp add: src_rule_def cur_colour_def mask_coverage_def)
  next
    case 4
    show ?case using assms(3) by (auto simp: mask_coverage_def intro!: src.rule_opI)
  qed (use assms in auto)
  then show "\<exists>d'. blitSrcMask8888_pre rdr 1 = Some (rdr\<lparr>r_data := d'\<rparr>)
      \<and> surface_ok d' \<and> span_of (r_data rdr) (row_start rdr)
        (\<lambda>k. src_rule (cur_colour rdr) (mask_coverage rdr k)) (row_width rdr) d'" by blast
next
  assume a: "aa_ok rdr"
  have "\<exists>d'. blitSrc8888_pre rdr 1 = Some (rdr\<lparr>r_rowAAInt := clear_row rdr, r_data := d'\<rparr>)
      \<and> span_of (r_data rdr) (row_start rdr)
        (\<lambda>k. src_rule (cur_colour rdr) (aa_coverage rdr k)) (row_width rdr) d' \<and> surface_ok d'"
    unfolding blitSrc8888_pre_def clear_row_def
  proof (rule src.aa_row_safe [where col = "\<lambda>_. cur_colour rdr"], goal_cases)
    case 5
    show ?case
      using aa_okD [OF a] by (simp add: aa_safe_simps src_rule_def cur_colour_def aa_coverage_def)
  next
    case 6
    show ?case using assms(3) by (auto simp: aa_coverage_def intro!: src.rule_opI)
  qed (use assms a in \<open>auto simp: aa_ok_def\<close>)
  then show "\<exists>d'. blitSrc8888_pre rdr 1 = Some (rdr\<lparr>r_rowAAInt := clear_row rdr, r_data := d'\<rparr>)
      \<and> surface_ok d' \<and> span_of (r_data rdr) (row_start rdr)
        (\<lambda>k. src_rule (cur_colour rdr) (aa_coverage rdr k)) (row_width rdr) d'" by blast
qed

theorem src_row_witness:
  "\<exists>d'. blitSrcMask8888_pre sample_raster 1 = Some (sample_raster\<lparr>r_data := d'\<rparr>) \<and> surface_ok d'"
  using src_row [of sample_raster] by auto

text \<open>
  Without that condition the source blit leaves a pixel that is not premultiplied: at full
  coverage \<open>blitSrcMask8888_pre\<close> stores the colour as it is, while \<open>emitLineSource8888_pre\<close>
  stores it multiplied by its alpha.
\<close>

theorem src_full_coverage_unpremultiplied:
  "let rdr = sample_raster\<lparr>r_calpha := 100, r_cred := 200, r_minTouched := 1, r_maxTouched := 1,
               r_mask_byteData := [-1]\<rparr>
   in map_option (\<lambda>r. r_data r ! 5) (blitSrcMask8888_pre rdr 1) = Some (pack 100 200 20 30)
    \<and> \<not> premult (pack 100 200 20 30)
    \<and> map_option (\<lambda>r. r_data r ! 5) (emitLineSource8888_pre (rdr\<lparr>r_el_lfrac := 0, r_el_rfrac := 0,
          r_alphaWidth := 1\<rparr>) 1 0x10000) = Some (pack 100 78 7 11)
    \<and> premult (pack 100 78 7 11)"
proof -
  have s: "span body 1 5 6 s = do { s' \<leftarrow> body 5 s; Some (6, s') }" for body and s :: "int \<times> jint list"
    by (subst span_step) (auto split: bind_split)
  show ?thesis
    by (simp add: Let_def sample_raster_def blitSrcMask8888_pre_def blit_mask_def touchedWidth_def
        mask_step_def src_op_def MAX_ALPHA_def array_simps i32_small premult_def is_chan_def
        emitLineSource8888_pre_def emit_rows_def emit_row_def edgeWidth_def s drop_bit_eq_div
        numeral_eq_Suc and_255)
qed

end
