(* ===== verification/PiscesLine.thy ===== *)
theory PiscesLine
  imports PiscesBlit
begin

unbundle bit_operations_syntax

text \<open>
  Correctness of the rectangle routines of \<open>PiscesBlit.c\<close>: the \<open>emitLine\<close> loops over rows with
  fractional edges, and \<open>clearRect8888_any\<close> with its block-copy fast paths. The definitions are in
  \<open>PiscesBlit\<close>.
\<close>

section \<open>Composition of spans\<close>

lemma span_of_append:
  assumes "span_of d i ops m d1" "span_of d1 (i + int m) ops' n d2"
  shows "span_of d i (\<lambda>k. if k < m then ops k else ops' (k - m)) (m + n) d2"
  unfolding span_of_def
proof (intro conjI allI impI)
  show "length d2 = length d" using assms by (simp add: span_of_def)
next
  fix k assume k: "k < length d"
  then have k1: "k < length d1" using assms(1) by (simp add: span_of_def)
  consider "i \<le> int k" "int k < i + int m" | "i + int m \<le> int k" "int k < i + int m + int n"
    | "int k < i \<or> i + int m + int n \<le> int k" by linarith
  then show "if i \<le> int k \<and> int k < i + int (m + n)
      then pixop_val (if nat (int k - i) < m then ops (nat (int k - i)) else ops' (nat (int k - i) - m)) (d ! k)
        = Some (d2 ! k) else d2 ! k = d ! k"
  proof cases
    case 1
    then have "d2 ! k = d1 ! k" "pixop_val (ops (nat (int k - i))) (d ! k) = Some (d1 ! k)"
      using assms k k1 by (auto simp: span_of_def)
    with 1 show ?thesis by auto
  next
    case 2
    then have "nat (int k - i) - m = nat (int k - (i + int m))" by linarith
    moreover have "d1 ! k = d ! k" "pixop_val (ops' (nat (int k - (i + int m)))) (d1 ! k) = Some (d2 ! k)"
      using assms k k1 2 by (auto simp: span_of_def)
    ultimately show ?thesis using 2 by auto
  next
    case 3
    with assms k k1 show ?thesis by (auto simp: span_of_def)
  qed
qed

lemma span_of_cong:
  assumes "span_of d i ops n d'" "\<And>k. k < n \<Longrightarrow> ops k = ops' k"
  shows "span_of d i ops' n d'"
  using assms unfolding span_of_def by (auto simp: nat_less_iff)

lemma span_of_single:
  assumes "0 \<le> i" "i < int (length d)" "pixop_val (ops 0) (d ! nat i) = Some v"
  shows "span_of d i ops (Suc 0) (d[nat i := v])"
  by (rule span_of_Suc [where v = v]) (use assms in auto)

lemma span_of_length: "span_of d i ops n d' \<Longrightarrow> length d' = length d"
  by (simp add: span_of_def)

lemma span_of_outside:
  "span_of d i ops n d' \<Longrightarrow> k < length d \<Longrightarrow> int k < i \<or> i + int n \<le> int k \<Longrightarrow> d' ! k = d ! k"
  by (auto simp: span_of_def)

section \<open>One row of a rectangle\<close>

definition def_on :: "jint list \<Rightarrow> int \<Rightarrow> (nat \<Rightarrow> pixop) \<Rightarrow> nat \<Rightarrow> bool" where
  "def_on d i ops n \<longleftrightarrow> 0 \<le> i \<and> i + int n \<le> int (length d)
     \<and> (\<forall>k < n. \<exists>v. pixop_val (ops k) (d ! (nat i + k)) = Some v)"

text \<open>A pixel range of a later span is not touched by an earlier one.\<close>

lemma def_on_after:
  assumes "span_of d i ops m d1" "def_on d i ops' (m + n)" "\<And>k. k < n \<Longrightarrow> ops'' k = ops' (m + k)"
  shows "def_on d1 (i + int m) ops'' n"
  unfolding def_on_def
proof (intro conjI allI impI)
  show "0 \<le> i + int m" "i + int m + int n \<le> int (length d1)"
    using assms(1,2) by (auto simp: def_on_def span_of_length)
  fix k assume k: "k < n"
  then have "nat i + (m + k) < length d" "int (nat i + (m + k)) = i + int m + int k"
    using assms(2) by (auto simp: def_on_def)
  then have "d1 ! (nat i + (m + k)) = d ! (nat i + (m + k))"
    using span_of_outside [OF assms(1)] by simp
  moreover have "nat (i + int m) + k = nat i + (m + k)" using assms(2) by (auto simp: def_on_def)
  ultimately show "\<exists>v. pixop_val (ops'' k) (d1 ! (nat (i + int m) + k)) = Some v"
    using assms(2,3) k by (simp add: def_on_def add.assoc)
qed

lemma def_on_le: "def_on d i ops n \<Longrightarrow> m \<le> n \<Longrightarrow> def_on d i ops m"
  by (auto simp: def_on_def)

lemma apply_span_of:
  assumes "def_on d i (\<lambda>_. op) (Suc 0)"
  shows "\<exists>d'. apply_pixop op d i = Some d' \<and> span_of d i (\<lambda>_. op) (Suc 0) d'"
proof -
  from assms obtain v where v: "pixop_val op (d ! nat i) = Some v" and i: "0 \<le> i" "i < int (length d)"
    by (auto simp: def_on_def)
  show ?thesis
    using apply_pixop_in [OF i v] span_of_single [OF i, of "\<lambda>_. op" v] v by auto
qed

lemma span_pixels:
  assumes "\<forall>k < n. mop (aidx + int k) = Some (op k)" "def_on d a op n"
  shows "\<exists>d'. span (\<lambda>a (aidx, d). do { op \<leftarrow> mop aidx; d \<leftarrow> apply_pixop op d a; Some (aidx + 1, d) })
        1 a (a + int n) (aidx, d) = Some (a + int n, aidx + int n, d')
      \<and> span_of d a op n d'"
  using assms
proof (induction n arbitrary: a aidx d op)
  case (Suc n)
  have op: "mop aidx = Some (op 0)" using Suc.prems(1) by (auto dest: spec [of _ 0])
  from Suc.prems(2) have d0: "def_on d a (\<lambda>_. op 0) (Suc 0)" by (auto simp: def_on_def)
  from apply_span_of [OF d0] obtain d1 where
    d1: "apply_pixop (op 0) d a = Some d1" "span_of d a (\<lambda>_. op 0) (Suc 0) d1" by blast
  have m: "\<forall>k < n. mop (aidx + 1 + int k) = Some (op (Suc k))"
  proof (intro allI impI)
    fix k assume "k < n"
    then show "mop (aidx + 1 + int k) = Some (op (Suc k))"
      using Suc.prems(1) [THEN spec, of "Suc k"] by (simp add: add.assoc)
  qed
  have "def_on d1 (a + int (Suc 0)) (\<lambda>k. op (Suc k)) n"
    using Suc.prems(2) by (intro def_on_after [OF d1(2), of op]) auto
  then have "def_on d1 (a + 1) (\<lambda>k. op (Suc k)) n" by simp
  from Suc.IH [OF m this] obtain d2 where
    d2: "span (\<lambda>a (aidx, d). do { op \<leftarrow> mop aidx; d \<leftarrow> apply_pixop op d a; Some (aidx + 1, d) })
        1 (a + 1) (a + 1 + int n) (aidx + 1, d1) = Some (a + 1 + int n, aidx + 1 + int n, d2)"
      "span_of d1 (a + 1) (\<lambda>k. op (Suc k)) n d2" by blast
  have "span_of d a (\<lambda>k. if k < Suc 0 then op 0 else op (Suc (k - Suc 0))) (Suc 0 + n) d2"
    using span_of_append [OF d1(2)] d2(2) by simp
  then have "span_of d a op (Suc n) d2"
    by (auto intro: span_of_cong elim!: span_of_cong)
  with d2(1) d1(1) op show ?case
    by (intro exI [of _ d2]) (simp add: span_step add.assoc)
qed simp

lemma span_of_append_same:
  assumes "span_of d i ops m d1" "span_of d1 (i + int m) (\<lambda>k. ops (m + k)) n d2"
  shows "span_of d i ops (m + n) d2"
  using span_of_append [OF assms] by (rule span_of_cong) auto

lemma edge_span_of:
  assumes "f \<noteq> 0 \<Longrightarrow> eop aidx = Some (ops 0)" "def_on d a ops (if f \<noteq> 0 then 1 else 0)"
  shows "\<exists>d'. (if f \<noteq> (0::jint) then do { op \<leftarrow> eop aidx; apply_pixop op d a } else Some d) = Some d'
    \<and> span_of d a ops (if f \<noteq> 0 then 1 else 0) d'"
proof (cases "f = 0")
  case False
  then have "def_on d a (\<lambda>_. ops 0) (Suc 0)" using assms(2) by (auto simp: def_on_def)
  from apply_span_of [OF this] obtain d' where
    d': "apply_pixop (ops 0) d a = Some d'" "span_of d a (\<lambda>_. ops 0) (Suc 0) d'" by blast
  have "span_of d a ops (Suc 0) d'" using d'(2) by (rule span_of_cong) simp
  with False assms(1) d'(1) show ?thesis by auto
qed simp

lemma emit_row_spec:
  fixes lfrac rfrac :: jint
  defines "l \<equiv> (if lfrac \<noteq> 0 then 1 else 0 :: nat)" and "r \<equiv> (if rfrac \<noteq> 0 then 1 else 0 :: nat)"
  assumes n: "n = l + w + r" and wi: "wi = int w"
    and lop: "lfrac \<noteq> 0 \<Longrightarrow> lop aidx = Some (ops 0)"
    and mop: "\<And>k. k < w \<Longrightarrow> mop (aidx + int (l + k)) = Some (ops (l + k))"
    and rop: "rfrac \<noteq> 0 \<Longrightarrow> rop (aidx + int (l + w)) = Some (ops (l + w))"
    and d: "def_on d a ops n"
  shows "\<exists>d'. emit_row lop mop rop lfrac rfrac wi 1 a aidx d = Some d' \<and> span_of d a ops n d'"
proof -
  from d n have "def_on d a ops (if lfrac \<noteq> 0 then 1 else 0)"
    by (intro def_on_le [OF d]) (simp add: l_def)
  from edge_span_of [where eop = lop, OF lop this] obtain d1 where
    d1: "(if lfrac \<noteq> 0 then do { op \<leftarrow> lop aidx; apply_pixop op d a } else Some d) = Some d1"
      "span_of d a ops l d1" by (auto simp: l_def)
  have left: "(if lfrac \<noteq> 0 then do { op \<leftarrow> lop aidx; d \<leftarrow> apply_pixop op d a; Some (a + 1, aidx + 1, d) }
      else Some (a, aidx, d)) = Some (a + int l, aidx + int l, d1)"
    using d1(1) by (auto simp: l_def bind_eq_Some_conv split: if_splits)
  have "def_on d1 (a + int l) (\<lambda>k. ops (l + k)) (w + r)"
    using d n by (intro def_on_after [OF d1(2), of ops]) (auto simp: add.assoc)
  then have dm: "def_on d1 (a + int l) (\<lambda>k. ops (l + k)) w" by (rule def_on_le) simp
  have "\<forall>k < w. mop (aidx + int l + int k) = Some (ops (l + k))" using mop by (simp add: add.assoc)
  from span_pixels [where mop = mop, OF this dm] obtain d2 where
    mid: "span (\<lambda>a (aidx, d). do { op \<leftarrow> mop aidx; d \<leftarrow> apply_pixop op d a; Some (aidx + 1, d) })
        1 (a + int l) (a + int l + int w) (aidx + int l, d1)
        = Some (a + int l + int w, aidx + int l + int w, d2)"
    and s2: "span_of d1 (a + int l) (\<lambda>k. ops (l + k)) w d2" by blast
  have s12: "span_of d a ops (l + w) d2" by (rule span_of_append_same [OF d1(2) s2])
  have dr: "def_on d2 (a + int (l + w)) (\<lambda>k. ops (l + w + k)) r"
    using d n by (intro def_on_after [OF s12, of ops]) auto
  have "rfrac \<noteq> 0 \<Longrightarrow> rop (aidx + int (l + w)) = Some (ops (l + w + 0))" using rop by simp
  from edge_span_of [where eop = rop and ops = "\<lambda>k. ops (l + w + k)", OF this dr [unfolded r_def]]
  obtain d3 where
    d3: "(if rfrac \<noteq> 0 then do { op \<leftarrow> rop (aidx + int (l + w)); apply_pixop op d2 (a + int (l + w)) }
        else Some d2) = Some d3"
      "span_of d2 (a + int (l + w)) (\<lambda>k. ops (l + w + k)) r d3" by (auto simp: r_def)
  have "span_of d a ops n d3"
    using span_of_append_same [OF s12 d3(2)] n by (simp add: add.assoc)
  moreover have "emit_row lop mop rop lfrac rfrac wi 1 a aidx d = Some d3"
  proof -
    have "emit_row lop mop rop lfrac rfrac wi 1 a aidx d =
        (if rfrac \<noteq> 0 then do { op \<leftarrow> rop (aidx + int l + int w); apply_pixop op d2 (a + int l + int w) }
         else Some d2)"
      by (simp add: emit_row_def left mid wi)
    also have "\<dots> = Some d3" using d3(1) unfolding of_nat_add add.assoc .
    finally show ?thesis .
  qed
  ultimately show ?thesis by blast
qed

section \<open>The rows of a rectangle\<close>

definition rows_of ::
    "jint list \<Rightarrow> int \<Rightarrow> int \<Rightarrow> nat \<Rightarrow> nat \<Rightarrow> (nat \<Rightarrow> nat \<Rightarrow> pixop) \<Rightarrow> jint list \<Rightarrow> bool" where
  "rows_of d i stride n h ops d' \<longleftrightarrow> length d' = length d \<and> (\<forall>x < length d.
     (\<forall>j < h. \<forall>k < n. int x = i + int j * stride + int k \<longrightarrow> pixop_val (ops j k) (d ! x) = Some (d' ! x)) \<and>
     ((\<forall>j < h. \<forall>k < n. int x \<noteq> i + int j * stride + int k) \<longrightarrow> d' ! x = d ! x))"

lemma row_unique:
  assumes "int j * stride + int k = int j' * stride + int k'" "k < n" "k' < n" "int n \<le> stride"
  shows "j = j' \<and> k = k'"
proof -
  have "0 < stride" using assms(2,4) by linarith
  have "int j = (int k + int j * stride) div stride" "int j' = (int k' + int j' * stride) div stride"
    using assms(2-4) \<open>0 < stride\<close> by simp_all
  then have "j = j'" using assms(1) by (simp add: add.commute)
  with assms(1) show ?thesis by simp
qed

lemma rows_ofD:
  "rows_of d i stride n h ops d' \<Longrightarrow> x < length d \<Longrightarrow> j < h \<Longrightarrow> k < n \<Longrightarrow>
   int x = i + int j * stride + int k \<Longrightarrow> pixop_val (ops j k) (d ! x) = Some (d' ! x)"
  by (simp add: rows_of_def)

lemma rows_of_0 [simp]: "rows_of d i stride n 0 ops d"
  by (simp add: rows_of_def)

lemma rows_of_Suc:
  assumes "rows_of d i stride n h ops d1" "span_of d1 (i + int h * stride) (ops h) n d2" "int n \<le> stride"
  shows "rows_of d i stride n (Suc h) ops d2"
  unfolding rows_of_def
proof (intro conjI allI impI)
  show "length d2 = length d" using assms(1,2) by (simp add: rows_of_def span_of_def)
next
  fix x j k
  assume x: "x < length d" and j: "j < Suc h" and k: "k < n" and eq: "int x = i + int j * stride + int k"
  have x1: "x < length d1" using assms(1) x by (simp add: rows_of_def)
  show "pixop_val (ops j k) (d ! x) = Some (d2 ! x)"
  proof (cases "j = h")
    case True
    have "\<forall>j' < h. \<forall>k' < n. int x \<noteq> i + int j' * stride + int k'"
    proof (intro allI impI notI)
      fix j' k' assume "j' < h" "k' < n" "int x = i + int j' * stride + int k'"
      with row_unique [of h stride k j' k' n] eq k assms(3) True show False by simp
    qed
    then have "d1 ! x = d ! x" using assms(1) x by (simp add: rows_of_def)
    moreover have "pixop_val (ops h k) (d1 ! x) = Some (d2 ! x)"
      using assms(2) x1 eq k True by (auto simp: span_of_def)
    ultimately show ?thesis using True by simp
  next
    case False
    have "d2 ! x = d1 ! x"
    proof (rule span_of_outside [OF assms(2) x1], rule ccontr)
      assume "\<not> (int x < i + int h * stride \<or> i + int h * stride + int n \<le> int x)"
      then have "nat (int x - (i + int h * stride)) < n"
        "int x = i + int h * stride + int (nat (int x - (i + int h * stride)))" by auto
      with eq row_unique [of j stride k h "nat (int x - (i + int h * stride))" n] k assms(3) False
      show False by simp
    qed
    moreover have "pixop_val (ops j k) (d ! x) = Some (d1 ! x)"
      using assms(1) x j k eq False by (simp add: rows_of_def)
    ultimately show ?thesis by simp
  qed
next
  fix x
  assume x: "x < length d" and out: "\<forall>j < Suc h. \<forall>k < n. int x \<noteq> i + int j * stride + int k"
  have "int x < i + int h * stride \<or> i + int h * stride + int n \<le> int x"
  proof (rule ccontr)
    assume "\<not> ?thesis"
    then have "nat (int x - (i + int h * stride)) < n"
      "int x = i + int h * stride + int (nat (int x - (i + int h * stride)))" by auto
    with out show False by blast
  qed
  then have "d2 ! x = d1 ! x"
    using span_of_outside [OF assms(2)] assms(1) x by (simp add: rows_of_def)
  also have "\<dots> = d ! x" using assms(1) x out by (simp add: rows_of_def)
  finally show "d2 ! x = d ! x" .
qed

lemma rows_of_untouched:
  assumes "rows_of d i stride n h ops d'" "int n \<le> stride" "k < n" "nat (i + int h * stride) + k < length d"
    and "0 \<le> i"
  shows "d' ! (nat (i + int h * stride) + k) = d ! (nat (i + int h * stride) + k)"
proof -
  let ?x = "nat (i + int h * stride) + k"
  have "0 \<le> stride" using assms(2) by linarith
  then have x: "int ?x = i + int h * stride + int k" using assms(5) by simp
  have "\<forall>j < h. \<forall>k' < n. int ?x \<noteq> i + int j * stride + int k'"
  proof (intro allI impI notI)
    fix j k' assume "j < h" "k' < n" "int ?x = i + int j * stride + int k'"
    with row_unique [of h stride k j k' n] x assms(2,3) show False by simp
  qed
  with assms(1,4) show ?thesis by (simp add: rows_of_def)
qed

text \<open>The rectangle an \<open>emitLine\<close> call covers lies inside the image, with rows that do not overlap.\<close>

definition lines_ok :: "'a raster_scheme \<Rightarrow> nat \<Rightarrow> bool" where
  "lines_ok rdr h \<longleftrightarrow> r_imagePixelStride rdr = 1 \<and> 0 \<le> r_currImageOffset rdr \<and> 0 \<le> r_minTouched rdr
     \<and> 0 \<le> r_alphaWidth rdr \<and> r_alphaWidth rdr \<le> r_imageScanlineStride rdr
     \<and> (0 < h \<longrightarrow> r_currImageOffset rdr + r_minTouched rdr + (int h - 1) * r_imageScanlineStride rdr
          + r_alphaWidth rdr \<le> int (length (r_data rdr)))
     \<and> int (length (r_data rdr)) < 2 ^ 31
     \<and> (if r_el_lfrac rdr \<noteq> 0 then 1 else 0) + (if r_el_rfrac rdr \<noteq> 0 then 1 else 0) \<le> r_alphaWidth rdr"

lemma lines_ok_row:
  assumes "lines_ok rdr h" "j < h"
  shows "0 \<le> row_start rdr + int j * r_imageScanlineStride rdr"
    "row_start rdr + int j * r_imageScanlineStride rdr + r_alphaWidth rdr \<le> int (length (r_data rdr))"
proof -
  have s: "0 \<le> r_imageScanlineStride rdr" using assms(1) by (auto simp: lines_ok_def)
  then have "int j * r_imageScanlineStride rdr \<le> (int h - 1) * r_imageScanlineStride rdr"
    using assms(2) by (intro mult_right_mono) auto
  with assms s show "0 \<le> row_start rdr + int j * r_imageScanlineStride rdr"
    "row_start rdr + int j * r_imageScanlineStride rdr + r_alphaWidth rdr \<le> int (length (r_data rdr))"
    by (auto simp: lines_ok_def row_start_def)
qed

lemma emit_rows_spec:
  fixes lfrac rfrac :: jint
  defines "l \<equiv> (if lfrac \<noteq> 0 then 1 else 0 :: nat)" and "r \<equiv> (if rfrac \<noteq> 0 then 1 else 0 :: nat)"
  assumes ok: "lines_ok rdr h" and h: "h = nat height"
    and n: "n = nat (r_alphaWidth rdr)" "n = l + w + r" and wi: "wi = int w"
    and lop: "\<And>j. j < h \<Longrightarrow> lfrac \<noteq> 0 \<Longrightarrow> lop (i32 (int j * ps)) = Some (ops j 0)"
    and mop: "\<And>j k. j < h \<Longrightarrow> k < w \<Longrightarrow> mop (i32 (int j * ps) + int (l + k)) = Some (ops j (l + k))"
    and rop: "\<And>j. j < h \<Longrightarrow> rfrac \<noteq> 0 \<Longrightarrow> rop (i32 (int j * ps) + int (l + w)) = Some (ops j (l + w))"
    and val: "\<And>j k x. j < h \<Longrightarrow> k < n \<Longrightarrow> x < length (r_data rdr) \<Longrightarrow>
          \<exists>v. pixop_val (ops j k) (r_data rdr ! x) = Some v"
  shows "\<exists>d'. emit_rows lop mop rop lfrac rfrac wi ps rdr height = Some (rdr\<lparr>r_data := d'\<rparr>)
    \<and> rows_of (r_data rdr) (row_start rdr) (r_imageScanlineStride rdr) n h ops d'"
proof -
  let ?S = "r_imageScanlineStride rdr" and ?d = "r_data rdr" and ?i = "row_start rdr"
  define body where "body = (\<lambda>(imageOffset, paint_offset, data).
      do { data \<leftarrow> emit_row lop mop rop lfrac rfrac wi (r_imagePixelStride rdr)
             (i32 (imageOffset + r_minTouched rdr * r_imagePixelStride rdr)) paint_offset data;
           Some (i32 (imageOffset + ?S), i32 (paint_offset + ps), data) })"
  define I where "I = (\<lambda>j (io, po, d). i32 io = i32 (r_currImageOffset rdr + int j * ?S) \<and> po = i32 (int j * ps)
      \<and> rows_of ?d ?i ?S n j ops d)"
  have nS: "int n \<le> ?S" and i0: "0 \<le> ?i" and st: "r_imagePixelStride rdr = 1" and len: "int (length ?d) < 2 ^ 31"
    using ok by (auto simp: lines_ok_def n(1) row_start_def)
  have nw: "int n = r_alphaWidth rdr" using ok by (simp add: lines_ok_def n(1))
  have step: "\<exists>s'. body s = Some s' \<and> I (Suc j) s'" if j: "j < h" and s: "I j s" for j s
  proof -
    obtain io po d where s_eq: "s = (io, po, d)" by (cases s) auto
    from s have io: "i32 io = i32 (r_currImageOffset rdr + int j * ?S)" and po: "po = i32 (int j * ps)"
      and rows: "rows_of ?d ?i ?S n j ops d" by (auto simp: I_def s_eq)
    note row = lines_ok_row [OF ok j]
    have a: "i32 (io + r_minTouched rdr * r_imagePixelStride rdr) = ?i + int j * ?S"
    proof -
      have "i32 (io + r_minTouched rdr * r_imagePixelStride rdr) = i32 (?i + int j * ?S)"
        using i32_add_eq [OF io, of "r_minTouched rdr"] by (simp add: st row_start_def algebra_simps)
      also have "\<dots> = ?i + int j * ?S"
      proof (cases "n = 0")
        case False
        with row nw len show ?thesis by (intro i32_small) auto
      next
        case True
        with row nw len ok show ?thesis by (intro i32_small) (auto simp: lines_ok_def)
      qed
      finally show ?thesis .
    qed
    have "def_on d (?i + int j * ?S) (ops j) n"
      unfolding def_on_def
    proof (intro conjI allI impI)
      show "0 \<le> ?i + int j * ?S" "?i + int j * ?S + int n \<le> int (length d)"
        using row nw rows by (simp_all add: rows_of_def)
      fix k assume k: "k < n"
      then have x: "nat (?i + int j * ?S) + k < length ?d" using row nw by linarith
      show "\<exists>v. pixop_val (ops j k) (d ! (nat (?i + int j * ?S) + k)) = Some v"
        using val [OF j k x] rows_of_untouched [OF rows nS k x i0] by simp
    qed
    from emit_row_spec [where lop = lop and mop = mop and rop = rop and ops = "ops j" and aidx = po,
        OF n(2) [unfolded l_def r_def] wi _ _ _ this] lop [OF j] mop [OF j] rop [OF j]
    obtain d2 where d2: "emit_row lop mop rop lfrac rfrac wi 1 (?i + int j * ?S) po d = Some d2"
      "span_of d (?i + int j * ?S) (ops j) n d2" by (auto simp: po l_def)
    have "I (Suc j) (i32 (io + ?S), i32 (po + ps), d2)"
      using rows_of_Suc [OF rows d2(2) nS] i32_add_eq [OF io, of ?S] i32_add_wrap [of "int j * ps" ps]
      by (simp add: I_def po algebra_simps)
    moreover have "body s = Some (i32 (io + ?S), i32 (po + ps), d2)"
      using d2(1) by (simp add: body_def s_eq a) (simp add: st)
    ultimately show ?thesis by blast
  qed
  have "I 0 (r_currImageOffset rdr, 0, ?d)" by (simp add: I_def i32_def)
  from iter_opt_counter_inv [where I = I and body = body and n = h, OF step this]
  obtain io po d' where "iter_opt h body (r_currImageOffset rdr, 0, ?d) = Some (io, po, d')"
    "rows_of ?d ?i ?S n h ops d'" by (auto simp: I_def)
  then show ?thesis by (intro exI [of _ d']) (simp add: emit_rows_def body_def h)
qed


lemma rows_of_cong:
  assumes "rows_of d i stride n h ops d'"
    and "\<And>j k p. j < h \<Longrightarrow> k < n \<Longrightarrow> p \<in> set d \<Longrightarrow> pixop_val (ops j k) p = pixop_val (ops' j k) p"
  shows "rows_of d i stride n h ops' d'"
  using assms by (simp add: rows_of_def)

lemma rows_keep_surface:
  assumes "rows_of d i stride n h ops d'" "surface_ok d"
    and "\<And>j k p. j < h \<Longrightarrow> k < n \<Longrightarrow> px_ok p \<Longrightarrow> \<exists>p'. pixop_val (ops j k) p = Some p' \<and> px_ok p'"
  shows "surface_ok d'"
  unfolding surface_ok_def
proof
  fix q assume "q \<in> set d'"
  then obtain x where x: "x < length d" "q = d' ! x"
    using assms(1) by (auto simp: in_set_conv_nth rows_of_def)
  have p: "px_ok (d ! x)" using assms(2) x(1) by (simp add: surface_ok_def)
  show "px_ok q"
  proof (cases "\<exists>j < h. \<exists>k < n. int x = i + int j * stride + int k")
    case True
    then obtain j k where jk: "j < h" "k < n" "int x = i + int j * stride + int k" by blast
    with assms(1) x have "pixop_val (ops j k) (d ! x) = Some q" by (simp add: rows_of_def)
    with assms(3) [OF jk(1,2) p] show ?thesis by auto
  next
    case False
    with assms(1) x have "q = d ! x" by (auto simp: rows_of_def)
    with p show ?thesis by simp
  qed
qed

section \<open>Source-over rectangles\<close>

text \<open>The coverage of column \<open>k\<close> of a rectangle of \<open>n\<close> columns: the edges have their own fraction.\<close>

definition line_value :: "jint \<Rightarrow> jint \<Rightarrow> nat \<Rightarrow> (jint \<Rightarrow> 'b) \<Rightarrow> 'b \<Rightarrow> nat \<Rightarrow> 'b" where
  "line_value lfrac rfrac n edge inner k =
     (if k = 0 \<and> lfrac \<noteq> 0 then edge lfrac
      else if Suc k = n \<and> rfrac \<noteq> 0 then edge rfrac else inner)"

definition over_alpha :: "'a raster_scheme \<Rightarrow> jint \<Rightarrow> nat \<Rightarrow> jint" where
  "over_alpha rdr frac =
     (let alpha = r_calpha rdr * frac div 65536
      in line_value (r_el_lfrac rdr) (r_el_rfrac rdr) (nat (r_alphaWidth rdr))
           (\<lambda>f. if alpha = 255 then f div 256 else f * alpha div 65536) alpha)"

definition frac_ok :: "jint \<Rightarrow> bool" where
  "frac_ok f \<longleftrightarrow> 0 \<le> f \<and> f < 65536"

lemma frac_mult:
  assumes "0 \<le> f" "f \<le> 65536" "is_chan a"
  shows "drop_bit 16 (i32 (a * f)) = a * f div 65536" "drop_bit 16 (i32 (f * a)) = f * a div 65536"
    "is_chan (a * f div 65536)" "is_chan (f * a div 65536)"
proof -
  have b: "0 \<le> a" "a \<le> 255" using assms(3) by (auto dest: is_chanD)
  then have "0 \<le> a * f" "a * f \<le> 255 * 65536" using assms(1,2) mult_mono [of a 255 f 65536] by auto
  moreover from this have "i32 (a * f) = a * f" by (intro i32_small) auto
  ultimately show "drop_bit 16 (i32 (a * f)) = a * f div 65536" "drop_bit 16 (i32 (f * a)) = f * a div 65536"
    "is_chan (a * f div 65536)" "is_chan (f * a div 65536)"
    by (auto simp: drop_bit_eq_div mult.commute is_chan_def)
qed

lemma frac_byte: "frac_ok f \<Longrightarrow> drop_bit 8 f = f div 256" "frac_ok f \<Longrightarrow> is_chan (f div 256)"
  by (auto simp: frac_ok_def is_chan_def drop_bit_eq_div)

lemma lines_width:
  assumes "lines_ok rdr h" "lfrac \<noteq> 0 \<longrightarrow> r_el_lfrac rdr \<noteq> 0" "rfrac \<noteq> 0 \<longrightarrow> r_el_rfrac rdr \<noteq> 0"
    and "is_i32 (r_alphaWidth rdr)"
  shows "edgeWidth (r_alphaWidth rdr) lfrac rfrac =
      int (nat (r_alphaWidth rdr) - (if lfrac \<noteq> 0 then 1 else 0) - (if rfrac \<noteq> 0 then 1 else 0))"
    and "nat (r_alphaWidth rdr) = (if lfrac \<noteq> 0 then 1 else 0) +
      (nat (r_alphaWidth rdr) - (if lfrac \<noteq> 0 then 1 else 0) - (if rfrac \<noteq> 0 then 1 else 0))
      + (if rfrac \<noteq> 0 then 1 else 0)"
proof -
  have "(if lfrac \<noteq> 0 then 1 else 0) + (if rfrac \<noteq> 0 then 1 else 0) \<le> r_alphaWidth rdr" "r_alphaWidth rdr < 2 ^ 31"
    using assms by (auto simp: lines_ok_def is_i32_def split: if_splits)
  then show "edgeWidth (r_alphaWidth rdr) lfrac rfrac =
      int (nat (r_alphaWidth rdr) - (if lfrac \<noteq> 0 then 1 else 0) - (if rfrac \<noteq> 0 then 1 else 0))"
    "nat (r_alphaWidth rdr) = (if lfrac \<noteq> 0 then 1 else 0) +
      (nat (r_alphaWidth rdr) - (if lfrac \<noteq> 0 then 1 else 0) - (if rfrac \<noteq> 0 then 1 else 0))
      + (if rfrac \<noteq> 0 then 1 else 0)"
    using assms(1) by (auto simp: edgeWidth_def lines_ok_def i32_small)
qed

lemma line_value_at:
  assumes "n = (if lfrac \<noteq> 0 then 1 else 0) + w + (if rfrac \<noteq> 0 then 1 else 0 :: nat)"
  shows "lfrac \<noteq> 0 \<Longrightarrow> line_value lfrac rfrac n edge inner 0 = edge lfrac"
    "k < w \<Longrightarrow> line_value lfrac rfrac n edge inner ((if lfrac \<noteq> 0 then 1 else 0) + k) = inner"
    "rfrac \<noteq> 0 \<Longrightarrow> line_value lfrac rfrac n edge inner ((if lfrac \<noteq> 0 then 1 else 0) + w) = edge rfrac"
  using assms by (auto simp: line_value_def)


text \<open>
  \<open>line_rows rdr height ops d'\<close>: the image \<open>d'\<close> is the image of \<open>rdr\<close> with the operations \<open>ops\<close>
  done once on every pixel of the rectangle of the current line, and nothing else.
\<close>

abbreviation line_rows :: "'a raster_scheme \<Rightarrow> jint \<Rightarrow> (nat \<Rightarrow> nat \<Rightarrow> pixop) \<Rightarrow> jint list \<Rightarrow> bool" where
  "line_rows rdr height ops d' \<equiv> rows_of (r_data rdr) (row_start rdr) (r_imageScanlineStride rdr)
     (nat (r_alphaWidth rdr)) (nat height) ops d'"

text \<open>The rows of an \<open>emitLine\<close> routine whose edge test uses the fractions of the renderer.\<close>

lemma emit_rows_line:
  fixes rdr :: "'a raster_scheme"
  defines "ops \<equiv> line_value (r_el_lfrac rdr) (r_el_rfrac rdr) (nat (r_alphaWidth rdr))"
  assumes ok: "lines_ok rdr (nat height)" "is_i32 (r_alphaWidth rdr)"
    and val: "\<And>f p. \<exists>v. pixop_val (edge f) p = Some v" "\<And>p. \<exists>v. pixop_val inner p = Some v"
  shows "\<exists>d'. emit_rows (\<lambda>_. Some (edge (r_el_lfrac rdr))) (\<lambda>_. Some inner) (\<lambda>_. Some (edge (r_el_rfrac rdr)))
       (r_el_lfrac rdr) (r_el_rfrac rdr) (edgeWidth (r_alphaWidth rdr) (r_el_lfrac rdr) (r_el_rfrac rdr))
       ps rdr height = Some (rdr\<lparr>r_data := d'\<rparr>) \<and> line_rows rdr height (\<lambda>_. ops edge inner) d'"
proof -
  note w = lines_width [where lfrac = "r_el_lfrac rdr" and rfrac = "r_el_rfrac rdr", OF ok(1) imp_refl imp_refl ok(2)]
  note at = line_value_at [OF w(2), where edge = edge and inner = inner, folded ops_def]
  have "\<exists>v. pixop_val (ops edge inner k) p = Some v" for k p
    using val by (simp add: ops_def line_value_def)
  then show ?thesis
    using at by (intro emit_rows_spec [OF ok(1) refl refl w(2,1)]) metis+
qed

lemma over_alpha_value:
  assumes "frac_ok (r_el_lfrac rdr)" "frac_ok (r_el_rfrac rdr)" "is_chan (r_calpha rdr)" "0 \<le> frac" "frac \<le> 65536"
  shows "is_chan (over_alpha rdr frac k)"
  using assms frac_mult(3) [OF assms(4,5,3)]
  by (auto simp: over_alpha_def line_value_def Let_def frac_byte frac_ok_def intro!: frac_mult(4))

lemma emitLineSourceOver8888_pre_rows:
  assumes "lines_ok rdr (nat height)" "is_i32 (r_alphaWidth rdr)"
    and "frac_ok (r_el_lfrac rdr)" "frac_ok (r_el_rfrac rdr)" "0 \<le> frac" "frac \<le> 65536"
    and "colour_ok (cur_colour rdr)"
  shows "\<exists>d'. emitLineSourceOver8888_pre rdr height frac = Some (rdr\<lparr>r_data := d'\<rparr>)
    \<and> line_rows rdr height (\<lambda>_ k. Blend (\<lambda>p. Some (blendSrcOver8888_pre p (over_alpha rdr frac k)
                                   (r_cred rdr) (r_cgreen rdr) (r_cblue rdr)))) d'"
proof -
  let ?a = "r_calpha rdr * frac div 65536"
  let ?blend = "\<lambda>aval. Blend (\<lambda>p. Some (blendSrcOver8888_pre p aval (r_cred rdr) (r_cgreen rdr) (r_cblue rdr)))"
  have c: "is_chan (r_calpha rdr)" "is_chan (r_cred rdr)" "is_chan (r_cgreen rdr)" "is_chan (r_cblue rdr)"
    using assms(7) by (auto simp: colour_ok_def cur_colour_def)
  have a: "drop_bit 16 (i32 (r_calpha rdr * frac)) = ?a" "is_chan ?a"
    using frac_mult [OF assms(5,6) c(1)] by auto
  have l: "0 \<le> r_el_lfrac rdr" "r_el_lfrac rdr \<le> 65536" "0 \<le> r_el_rfrac rdr" "r_el_rfrac rdr \<le> 65536"
    using assms(3,4) by (auto simp: frac_ok_def)
  define edge where "edge = (\<lambda>f. ?blend (if ?a = 255 then drop_bit 8 f else drop_bit 16 (i32 (f * ?a))))"
  define inner where "inner = (if ?a = 255 then Store (pack 255 (r_cred rdr) (r_cgreen rdr) (r_cblue rdr)) else ?blend ?a)"
  have val: "\<exists>v. pixop_val (edge f) p = Some v" "\<exists>v. pixop_val inner p = Some v" for f p
    by (simp_all add: edge_def inner_def)
  obtain d' where
    "emit_rows (\<lambda>_. Some (edge (r_el_lfrac rdr))) (\<lambda>_. Some inner) (\<lambda>_. Some (edge (r_el_rfrac rdr)))
       (r_el_lfrac rdr) (r_el_rfrac rdr) (edgeWidth (r_alphaWidth rdr) (r_el_lfrac rdr) (r_el_rfrac rdr))
       0 rdr height = Some (rdr\<lparr>r_data := d'\<rparr>)"
    and rows: "line_rows rdr height
      (\<lambda>_. line_value (r_el_lfrac rdr) (r_el_rfrac rdr) (nat (r_alphaWidth rdr)) edge inner) d'"
    using emit_rows_line [OF assms(1,2), where edge = edge and inner = inner and ps = 0, OF val] by blast
  then have "emitLineSourceOver8888_pre rdr height frac = Some (rdr\<lparr>r_data := d'\<rparr>)"
    by (cases "?a = 255") (simp_all add: emitLineSourceOver8888_pre_def Let_def a MAX_ALPHA_def edge_def inner_def)
  moreover have "line_rows rdr height (\<lambda>_ k. ?blend (over_alpha rdr frac k)) d'"
    by (rule rows_of_cong [OF rows])
       (auto simp: line_value_def over_alpha_def Let_def edge_def inner_def frac_byte assms(3,4)
          blendSrcOver8888_pre_opaque c frac_mult(2) [OF l(1,2) a(2)] frac_mult(2) [OF l(3,4) a(2)])
  ultimately show ?thesis by blast
qed


lemma emitLineSourceOver8888_pre_safe:
  assumes "lines_ok rdr (nat height)" "is_i32 (r_alphaWidth rdr)" "surface_ok (r_data rdr)"
    and "frac_ok (r_el_lfrac rdr)" "frac_ok (r_el_rfrac rdr)" "0 \<le> frac" "frac \<le> 65536"
    and "colour_ok (cur_colour rdr)"
  shows "\<exists>d'. emitLineSourceOver8888_pre rdr height frac = Some (rdr\<lparr>r_data := d'\<rparr>)
    \<and> line_rows rdr height (\<lambda>_ k. Blend (\<lambda>p. Some (blendSrcOver8888_pre p (over_alpha rdr frac k)
                                   (r_cred rdr) (r_cgreen rdr) (r_cblue rdr)))) d'
    \<and> surface_ok d'"
proof -
  obtain d' where d': "emitLineSourceOver8888_pre rdr height frac = Some (rdr\<lparr>r_data := d'\<rparr>)"
    and rows: "line_rows rdr height (\<lambda>_ k. Blend (\<lambda>p. Some (blendSrcOver8888_pre p (over_alpha rdr frac k)
                                   (r_cred rdr) (r_cgreen rdr) (r_cblue rdr)))) d'"
    using emitLineSourceOver8888_pre_rows [OF assms(1,2,4-8)] by blast
  have c: "is_chan (r_calpha rdr)" "is_chan (r_cred rdr)" "is_chan (r_cgreen rdr)" "is_chan (r_cblue rdr)"
    using assms(8) by (auto simp: colour_ok_def cur_colour_def)
  have "is_i32 (blendSrcOver8888_pre p a r g b)" for p a r g b
    by (simp add: blendSrcOver8888_pre_def Let_def)
  then have "surface_ok d'"
    using over_alpha_value [OF assms(4,5) c(1) assms(6,7)] c
    by (intro rows_keep_surface [OF rows assms(3)]) (auto simp: px_ok_def intro!: blendSrcOver8888_pre_premult)
  with d' rows show ?thesis by blast
qed

text \<open>
  C16: \<open>emitLineSourceOver8888_pre\<close> fills a rectangle with fractional edges: it returns for every
  rectangle inside the image, composites the current colour over each pixel of it exactly once, with
  the alpha of its column (the colour's alpha scaled by the row fraction, and by the edge fraction in
  the first and the last column), leaves every other pixel alone and the surface premultiplied. The
  opaque fast path that stores the colour is the blend with alpha 255.
\<close>

theorem emitLineSourceOver8888_pre_rect:
  assumes "lines_ok rdr (nat height)" "is_i32 (r_alphaWidth rdr)" "surface_ok (r_data rdr)"
    and "frac_ok (r_el_lfrac rdr)" "frac_ok (r_el_rfrac rdr)" "0 \<le> frac" "frac \<le> 65536"
    and "colour_ok (cur_colour rdr)"
  shows "\<exists>d'. emitLineSourceOver8888_pre rdr height frac = Some (rdr\<lparr>r_data := d'\<rparr>)
    \<and> line_rows rdr height (\<lambda>_ k. Blend (\<lambda>p. Some (blendSrcOver8888_pre p (over_alpha rdr frac k)
                                   (r_cred rdr) (r_cgreen rdr) (r_cblue rdr)))) d'
    \<and> surface_ok d'"
  using assms by (rule emitLineSourceOver8888_pre_safe)

theorem emitLineSourceOver8888_pre_rect_witness:
  "\<exists>d'. emitLineSourceOver8888_pre sample_raster 1 0x8000 = Some (sample_raster\<lparr>r_data := d'\<rparr>) \<and> surface_ok d'"
proof -
  have "lines_ok sample_raster (nat 1)" "is_i32 (r_alphaWidth sample_raster)"
    "frac_ok (r_el_lfrac sample_raster)" "frac_ok (r_el_rfrac sample_raster)"
    by (simp_all add: lines_ok_def is_i32_def frac_ok_def sample_raster_def)
  then show ?thesis
    using emitLineSourceOver8888_pre_rect [of sample_raster 1 "0x8000"] by auto
qed

subsection \<open>Paint rectangles\<close>

text \<open>The paint of the rectangle is a buffer of \<open>h\<close> rows of \<open>r_alphaWidth\<close> premultiplied pixels.\<close>

definition paint_rows_ok :: "'a raster_scheme \<Rightarrow> nat \<Rightarrow> bool" where
  "paint_rows_ok rdr h \<longleftrightarrow> h * nat (r_alphaWidth rdr) \<le> length (r_paint rdr)
     \<and> int (length (r_paint rdr)) < 2 ^ 31 \<and> (\<forall>c \<in> set (r_paint rdr). px_ok c)"

definition paint_px :: "'a raster_scheme \<Rightarrow> nat \<Rightarrow> nat \<Rightarrow> jint" where
  "paint_px rdr j k = r_paint rdr ! (j * nat (r_alphaWidth rdr) + k)"

lemma paint_rows_get:
  assumes "paint_rows_ok rdr h" "j < h" "k < nat (r_alphaWidth rdr)"
  shows "aget (r_paint rdr) (i32 (int j * r_alphaWidth rdr) + int k) = Some (paint_px rdr j k)"
    "px_ok (paint_px rdr j k)"
proof -
  let ?n = "nat (r_alphaWidth rdr)"
  have "Suc j * ?n \<le> h * ?n" using assms(2) by (intro mult_le_mono1) simp
  then have lt: "j * ?n + k < length (r_paint rdr)" using assms(1,3) by (simp add: paint_rows_ok_def)
  have eq: "int j * r_alphaWidth rdr = int (j * ?n)" using assms(3) by auto
  have "int (j * ?n) < 2 ^ 31" using lt assms(1) unfolding paint_rows_ok_def by linarith
  then have "i32 (int (j * ?n)) = int (j * ?n)" by (intro i32_small) simp_all
  with lt show "aget (r_paint rdr) (i32 (int j * r_alphaWidth rdr) + int k) = Some (paint_px rdr j k)"
    unfolding eq by (simp add: aget_def paint_px_def flip: of_nat_add of_nat_mult)
  show "px_ok (paint_px rdr j k)" using lt assms(1) by (auto simp: paint_rows_ok_def paint_px_def)
qed


definition pt_frac :: "'a raster_scheme \<Rightarrow> jint \<Rightarrow> nat \<Rightarrow> jint" where
  "pt_frac rdr frac =
     line_value (r_el_lfrac rdr * frac div 65536) (r_el_rfrac rdr * frac div 65536) (nat (r_alphaWidth rdr))
       (\<lambda>f. f div 256) (frac div 256)"

lemma fracMul_eq:
  assumes "frac_ok f" "0 \<le> frac" "frac \<le> 65536"
  shows "fracMul f frac = f * frac div 65536" "frac_ok (f * frac div 65536)"
    "f * frac div 65536 \<noteq> 0 \<longrightarrow> f \<noteq> 0"
proof -
  have m: "0 \<le> f * frac" "f * frac \<le> f * 65536" "f * 65536 \<le> 65535 * 65536"
    using assms by (auto simp: frac_ok_def intro: mult_left_mono)
  then have i: "i64 (f * frac) = f * frac" by (intro i64_small) auto
  have d: "0 \<le> f * frac div 65536" "f * frac div 65536 \<le> 65535" using m by auto
  then show "fracMul f frac = f * frac div 65536"
    by (simp add: fracMul_def i drop_bit_eq_div i32_small)
  show "frac_ok (f * frac div 65536)" using d by (simp add: frac_ok_def)
qed auto

text \<open>The unscaled blend at full fraction, with its two shortcuts, is the blend with fraction 256.\<close>

lemma full_frac_op:
  assumes "px_ok c" "px_ok p"
  shows "pixop_val (if px_A c = 0 then Keep else if px_A c = MAX_ALPHA then Store c
      else Blend (\<lambda>p. Some (blendSrcOver8888_pre_pre_fullFrac p (px_A c) (px_R c) (px_G c) (px_B c)))) p
    = Some (blendSrcOver8888_pre_pre p 256 (px_A c) (px_R c) (px_G c) (px_B c))"
proof -
  have c: "premult_chans (px_A c) (px_R c) (px_G c) (px_B c)" "is_i32 c" "is_i32 p"
    using assms by (auto simp: premult_chans_px px_ok_def)
  have eq: "blendSrcOver8888_pre_pre p 256 (px_A c) (px_R c) (px_G c) (px_B c) =
      blendSrcOver8888_pre_pre_fullFrac p (px_A c) (px_R c) (px_G c) (px_B c)"
    using c(1) by (simp add: blendSrcOver8888_pre_pre_fullFrac_eq blendSrcOver8888_pre_pre_eq Let_def)
  show ?thesis
  proof (cases "px_A c = 0")
    case True
    then have "px_R c = 0" "px_G c = 0" "px_B c = 0" using c(1) by (auto simp: premult_chans_def)
    with True eq fullFrac_transparent [OF c(3)] show ?thesis by simp
  next
    case False
    show ?thesis
    proof (cases "px_A c = 255")
      case True
      with c(1) eq fullFrac_opaque pack_px [OF c(2)] show ?thesis by (simp add: MAX_ALPHA_def)
    qed (use False eq in \<open>simp add: MAX_ALPHA_def\<close>)
  qed
qed


lemma emitLinePTSourceOver8888_pre_safe:
  assumes ok: "lines_ok rdr (nat height)" "is_i32 (r_alphaWidth rdr)" and surf: "surface_ok (r_data rdr)"
    and fr: "frac_ok (r_el_lfrac rdr)" "frac_ok (r_el_rfrac rdr)" and frac: "0 \<le> frac" "frac \<le> 65536"
    and paint: "paint_rows_ok rdr (nat height)"
  shows "\<exists>d'. emitLinePTSourceOver8888_pre rdr height frac = Some (rdr\<lparr>r_data := d'\<rparr>)
    \<and> line_rows rdr height (\<lambda>j k. let c = paint_px rdr j k in
        Blend (\<lambda>p. Some (blendSrcOver8888_pre_pre p (pt_frac rdr frac k) (px_A c) (px_R c) (px_G c) (px_B c)))) d'
    \<and> surface_ok d'"
proof -
  let ?l = "r_el_lfrac rdr * frac div 65536" and ?r = "r_el_rfrac rdr * frac div 65536"
    and ?n = "nat (r_alphaWidth rdr)"
  note fl = fracMul_eq [OF fr(1) frac] and fr' = fracMul_eq [OF fr(2) frac]
  define blend where "blend = (\<lambda>f c. Blend (\<lambda>p. Some (blendSrcOver8888_pre_pre p f (px_A c) (px_R c) (px_G c) (px_B c))))"
  define full where "full = (\<lambda>c. if px_A c = 0 then Keep else if px_A c = MAX_ALPHA then Store c
      else Blend (\<lambda>p. Some (blendSrcOver8888_pre_pre_fullFrac p (px_A c) (px_R c) (px_G c) (px_B c))))"
  define inner where "inner = (if frac = 65536 then full else blend (drop_bit 8 frac))"
  define ops where "ops = (\<lambda>j k. line_value ?l ?r ?n (\<lambda>f. blend (drop_bit 8 f)) inner k (paint_px rdr j k))"
  define get where "get = (\<lambda>(op :: jint \<Rightarrow> pixop) aidx. do { c \<leftarrow> aget (r_paint rdr) aidx; Some (op c) })"
  note w = lines_width [where lfrac = ?l and rfrac = ?r, OF ok(1) fl(3) fr'(3) ok(2)]
  note at = line_value_at [OF w(2), where edge = "\<lambda>f. blend (drop_bit 8 f)" and inner = inner]
  have got: "get op (i32 (int j * r_alphaWidth rdr) + int k) = Some (op (paint_px rdr j k))"
    if "j < nat height" "k < ?n" for op :: "jint \<Rightarrow> pixop" and j k
    using paint_rows_get(1) [OF paint that] by (simp add: get_def)
  have model: "emitLinePTSourceOver8888_pre rdr height frac =
      emit_rows (get (blend (drop_bit 8 ?l))) (get inner) (get (blend (drop_bit 8 ?r))) ?l ?r
        (edgeWidth (r_alphaWidth rdr) ?l ?r) (r_alphaWidth rdr) rdr height"
    by (simp add: emitLinePTSourceOver8888_pre_def Let_def fl(1) fr'(1) get_def inner_def full_def blend_def if_distrib)
  have "\<exists>d'. emit_rows (get (blend (drop_bit 8 ?l))) (get inner) (get (blend (drop_bit 8 ?r))) ?l ?r
        (edgeWidth (r_alphaWidth rdr) ?l ?r) (r_alphaWidth rdr) rdr height = Some (rdr\<lparr>r_data := d'\<rparr>)
      \<and> line_rows rdr height ops d'"
  proof (rule emit_rows_spec [OF ok(1) refl refl w(2,1)], goal_cases)
    case (1 j)
    then show ?case using got [of j 0] at(1) w(2) by (simp add: ops_def)
  next
    case (2 j k)
    from 2(2) w(2) have "(if ?l \<noteq> 0 then 1 else 0) + k < ?n" by linarith
    from got [OF 2(1) this] at(2) [OF 2(2)] show ?case by (simp only: ops_def)
  next
    case (3 j)
    from 3(2) w(2) have "(if ?l \<noteq> 0 then 1 else 0)
        + (?n - (if ?l \<noteq> 0 then 1 else 0) - (if ?r \<noteq> 0 then 1 else 0)) < ?n" by auto
    from got [OF 3(1) this] at(3) [OF 3(2)] show ?case by (simp only: ops_def)
  next
    case (4 j k x)
    then show ?case by (auto simp: ops_def line_value_def inner_def blend_def full_def)
  qed
  then obtain d' where d': "emitLinePTSourceOver8888_pre rdr height frac = Some (rdr\<lparr>r_data := d'\<rparr>)"
    and rows: "line_rows rdr height ops d'" unfolding model by blast
  have rows': "line_rows rdr height (\<lambda>j k. blend (pt_frac rdr frac k) (paint_px rdr j k)) d'"
  proof (rule rows_of_cong [OF rows])
    fix j k p assume jk: "j < nat height" "k < ?n" and "p \<in> set (r_data rdr)"
    then have "px_ok p" using surf by (simp add: surface_ok_def)
    from full_frac_op [OF paint_rows_get(2) [OF paint jk] this]
    show "pixop_val (ops j k) p = pixop_val (blend (pt_frac rdr frac k) (paint_px rdr j k)) p"
      by (auto simp: ops_def line_value_def pt_frac_def inner_def full_def blend_def drop_bit_eq_div)
  qed
  have fk: "0 \<le> pt_frac rdr frac k" "pt_frac rdr frac k \<le> 256" for k
    using fl(2) fr'(2) frac by (auto simp: pt_frac_def line_value_def frac_ok_def)
  have i: "is_i32 (blendSrcOver8888_pre_pre p f a r g b)" for p f a r g b
    by (simp add: blendSrcOver8888_pre_pre_def Let_def)
  have "surface_ok d'"
  proof (rule rows_keep_surface [OF rows' surf])
    fix j k p assume jk: "j < nat height" "k < ?n" and p: "px_ok p"
    have "premult_chans (px_A (paint_px rdr j k)) (px_R (paint_px rdr j k)) (px_G (paint_px rdr j k)) (px_B (paint_px rdr j k))"
      using paint_rows_get(2) [OF paint jk] by (simp add: premult_chans_px px_ok_def)
    from blendSrcOver8888_pre_pre_keeps(1) [OF this fk] p i
    show "\<exists>p'. pixop_val (blend (pt_frac rdr frac k) (paint_px rdr j k)) p = Some p' \<and> px_ok p'"
      by (simp add: blend_def px_ok_def)
  qed
  with d' rows' show ?thesis by (auto simp: blend_def Let_def)
qed

text \<open>
  \<open>emitLinePTSourceOver8888_pre\<close> does the same for a paint: it returns for every rectangle
  inside the image and every paint buffer that holds a pixel for each pixel of the rectangle;
  pixel \<open>(j, k)\<close> of the paint is composited once over pixel \<open>(j, k)\<close> of the rectangle with the
  fraction of its column, nothing else changes, and the surface stays premultiplied.
\<close>

theorem emitLinePTSourceOver8888_pre_rect:
  assumes ok: "lines_ok rdr (nat height)" "is_i32 (r_alphaWidth rdr)" and surf: "surface_ok (r_data rdr)"
    and fr: "frac_ok (r_el_lfrac rdr)" "frac_ok (r_el_rfrac rdr)" and frac: "0 \<le> frac" "frac \<le> 65536"
    and paint: "paint_rows_ok rdr (nat height)"
  shows "\<exists>d'. emitLinePTSourceOver8888_pre rdr height frac = Some (rdr\<lparr>r_data := d'\<rparr>)
    \<and> line_rows rdr height (\<lambda>j k. let c = paint_px rdr j k in
        Blend (\<lambda>p. Some (blendSrcOver8888_pre_pre p (pt_frac rdr frac k) (px_A c) (px_R c) (px_G c) (px_B c)))) d'
    \<and> surface_ok d'"
  using assms by (rule emitLinePTSourceOver8888_pre_safe)

theorem emitLinePTSourceOver8888_pre_rect_witness:
  "\<exists>d'. emitLinePTSourceOver8888_pre sample_raster 1 0x10000 = Some (sample_raster\<lparr>r_data := d'\<rparr>) \<and> surface_ok d'"
proof -
  have "lines_ok sample_raster (nat 1)" "is_i32 (r_alphaWidth sample_raster)"
    "frac_ok (r_el_lfrac sample_raster)" "frac_ok (r_el_rfrac sample_raster)"
    by (simp_all add: lines_ok_def is_i32_def frac_ok_def sample_raster_def)
  moreover have "paint_rows_ok sample_raster (nat 1)"
    by (simp add: paint_rows_ok_def sample_raster_def px_ok_def premult_def is_chan_def)
  ultimately show ?thesis
    using emitLinePTSourceOver8888_pre_rect [of sample_raster 1 "0x10000"] by auto
qed


section \<open>Clearing a rectangle\<close>

lemma awrite_span_of:
  assumes "0 \<le> i" "i + int n \<le> int (length d)"
  shows "\<exists>d'. awrite d i (replicate n v) = Some d' \<and> span_of d i (\<lambda>_. Store v) n d'"
proof -
  from awrite_in [of i "replicate n v" d] assms obtain d' where d': "awrite d i (replicate n v) = Some d'"
    by auto
  then show ?thesis
    by (auto simp: span_of_def awrite_length awrite_nth)
qed

lemma fill_span:
  assumes "0 \<le> i" "i + int n \<le> int (length d)"
  shows "\<exists>d'. span (\<lambda>p d. aset d p v) 1 i (i + int n) d = Some (i + int n, d') \<and> span_of d i (\<lambda>_. Store v) n d'"
  using assms
proof (induction n arbitrary: i d)
  case (Suc n)
  have "0 \<le> i + 1" "i + 1 + int n \<le> int (length (d[nat i := v]))" using Suc.prems by auto
  from Suc.IH [OF this] obtain d' where
    d': "span (\<lambda>p d. aset d p v) 1 (i + 1) (i + 1 + int n) (d[nat i := v]) = Some (i + 1 + int n, d')"
      "span_of (d[nat i := v]) (i + 1) (\<lambda>_. Store v) n d'" by blast
  have "span_of d i (\<lambda>_. Store v) (Suc n) d'"
    using d'(2) Suc.prems(1) by (intro span_of_Suc [where v = v]) auto
  with d'(1) Suc.prems show ?case
    by (intro exI [of _ d']) (simp add: span_step aset_in add.assoc)
qed simp

lemma rows_of_block:
  assumes "span_of d i (\<lambda>_. op) (n * h) d'" "0 < n"
  shows "rows_of d i (int n) n h (\<lambda>_ _. op) d'"
  unfolding rows_of_def
proof (intro conjI allI impI)
  show "length d' = length d" using assms(1) by (simp add: span_of_length)
next
  fix x j k assume x: "x < length d" and jk: "j < h" "k < n" "int x = i + int j * int n + int k"
  have "Suc j * n \<le> h * n" using jk(1) by (intro mult_le_mono1) simp
  then have "j * n + k < n * h" using jk(2) by (simp add: mult.commute)
  then have "int j * int n + int k < int (n * h)" by (simp flip: of_nat_add of_nat_mult)
  with assms(1) x jk show "pixop_val op (d ! x) = Some (d' ! x)" by (auto simp: span_of_def)
next
  fix x assume x: "x < length d" and out: "\<forall>j < h. \<forall>k < n. int x \<noteq> i + int j * int n + int k"
  have "int x < i \<or> i + int (n * h) \<le> int x"
  proof (rule ccontr)
    assume "\<not> ?thesis"
    then obtain m where m: "int x = i + int m" "m < n * h" by (metis add_diff_cancel_left' le_iff_add linorder_not_less zle_iff_zadd of_nat_less_iff add_less_cancel_left)
    then have "m div n < h" "m mod n < n" "int m = int (m div n) * int n + int (m mod n)"
      using assms(2) by (auto simp: less_mult_imp_div_less mult.commute simp flip: of_nat_mult of_nat_add)
    with out m(1) show False by force
  qed
  with span_of_outside [OF assms(1) x] show "d' ! x = d ! x" by blast
qed


text \<open>The rectangle to clear lies inside the image; a full-width clear to zero needs rows without padding.\<close>

definition clear_ok :: "'a raster_scheme \<Rightarrow> jint \<Rightarrow> jint \<Rightarrow> jint \<Rightarrow> jint \<Rightarrow> bool" where
  "clear_ok rdr x y w h \<longleftrightarrow> r_imagePixelStride rdr = 1 \<and> 0 \<le> r_imageOffset rdr \<and> 0 \<le> x \<and> 0 \<le> y \<and> 0 < w \<and> 0 < h
     \<and> x + w \<le> r_width rdr \<and> r_width rdr = r_imageScanlineStride rdr
     \<and> r_imageOffset rdr + (y + h) * r_imageScanlineStride rdr \<le> int (length (r_data rdr))
     \<and> int (length (r_data rdr)) < 2 ^ 29"

abbreviation clear_start :: "'a raster_scheme \<Rightarrow> jint \<Rightarrow> jint \<Rightarrow> int" where
  "clear_start rdr x y \<equiv> r_imageOffset rdr + y * r_imageScanlineStride rdr + x"

lemma clear_okD:
  assumes "clear_ok rdr x y w h"
  shows "r_imageOffset rdr + i32 (y * r_imageScanlineStride rdr) + i32 (x * r_imagePixelStride rdr) = clear_start rdr x y"
    "i32 (4 * w) = 4 * w" "i32 (i32 (4 * w) * h) = 4 * (w * h)" "0 \<le> clear_start rdr x y"
    "j < nat h \<Longrightarrow> clear_start rdr x y + int j * r_imageScanlineStride rdr + w \<le> int (length (r_data rdr))"
    "x = 0 \<Longrightarrow> w = r_width rdr \<Longrightarrow> clear_start rdr x y + w * h \<le> int (length (r_data rdr))"
    "0 < w" "0 < h" "int (nat w) \<le> r_imageScanlineStride rdr"
proof -
  let ?S = "r_imageScanlineStride rdr"
  note ok = assms [unfolded clear_ok_def]
  have S: "0 < ?S" "w \<le> ?S" "x \<le> ?S" using ok by auto
  have yS: "0 \<le> y * ?S" using ok S by simp
  have hS: "w * h \<le> h * ?S" "?S \<le> h * ?S"
    using ok S mult_right_mono [of w ?S h] mult_right_mono [of 1 h ?S] by (auto simp: mult.commute)
  have b: "y * ?S + h * ?S \<le> int (length (r_data rdr))" "int (length (r_data rdr)) < 2 ^ 29"
    using ok by (simp_all add: algebra_simps)
  have "0 < w * h" using ok by simp
  then have "y * ?S < 2 ^ 29" "x < 2 ^ 29" "w < 2 ^ 29" "w * h < 2 ^ 29"
    using S yS hS b by linarith+
  moreover from this \<open>0 < w * h\<close> have "i32 (4 * (w * h)) = 4 * (w * h)"
    by (intro i32_small) (simp_all del: zero_less_mult_iff add: mult.commute)
  ultimately show "r_imageOffset rdr + i32 (y * ?S) + i32 (x * r_imagePixelStride rdr) = clear_start rdr x y"
    "i32 (4 * w) = 4 * w" "i32 (i32 (4 * w) * h) = 4 * (w * h)"
    using yS ok by (simp_all add: i32_small i32_mult_wrap mult.assoc)
  show "0 \<le> clear_start rdr x y" using ok yS by simp
  show "x = 0 \<Longrightarrow> w = r_width rdr \<Longrightarrow> clear_start rdr x y + w * h \<le> int (length (r_data rdr))"
    using ok hS by (simp add: algebra_simps)
  show "0 < w" "0 < h" "int (nat w) \<le> ?S" using ok S by auto
  assume "j < nat h"
  then have "(int j + 1) * ?S \<le> h * ?S" using S(1) by (intro mult_right_mono) auto
  then show "clear_start rdr x y + int j * ?S + w \<le> int (length (r_data rdr))"
    using ok by (simp add: algebra_simps)
qed

lemma memset0_span_of:
  assumes "0 \<le> i" "i + int n \<le> int (length d)" "bytes = 4 * int n"
  shows "\<exists>d'. memset0 d i bytes = Some d' \<and> span_of d i (\<lambda>_. Store 0) n d'"
proof -
  have "nat bytes div 4 = n" using assms(3) by (simp add: nat_mult_distrib)
  with awrite_span_of [OF assms(1,2), of 0] assms(3) show ?thesis by (simp add: memset0_def)
qed

text \<open>Rows written one after the other, each from a state in which the rows above are done.\<close>

lemma clear_rows:
  assumes step: "\<And>j d. first \<le> j \<Longrightarrow> j < h \<Longrightarrow> rows_of d0 i stride n j (\<lambda>_ _. Store c) d \<Longrightarrow> (\<exists>d'. body (i + int j * stride, d) =
      Some (i + int j * stride + stride, d') \<and> span_of d (i + int j * stride) (\<lambda>_. Store c) n d')"
    and "int n \<le> stride" "rows_of d0 i stride n first (\<lambda>_ _. Store c) d1" "first \<le> h"
  shows "\<exists>p d'. iter_opt (h - first) body (i + int first * stride, d1) = Some (p, d')
    \<and> rows_of d0 i stride n h (\<lambda>_ _. Store c) d'"
proof -
  define I where "I = (\<lambda>k (p, d). p = i + int (first + k) * stride \<and> rows_of d0 i stride n (first + k) (\<lambda>_ _. Store c) d)"
  have "\<exists>s'. body s = Some s' \<and> I (Suc k) s'" if "k < h - first" "I k s" for k s
  proof -
    obtain p d where s: "s = (p, d)" by (cases s)
    with that have p: "p = i + int (first + k) * stride" and rows: "rows_of d0 i stride n (first + k) (\<lambda>_ _. Store c) d"
      by (auto simp: I_def)
    have "first \<le> first + k" "first + k < h" using that(1) by auto
    from step [OF this rows] obtain d' where
      "body (p, d) = Some (p + stride, d')" "span_of d p (\<lambda>_. Store c) n d'" unfolding p by blast
    with rows_of_Suc [OF rows _ assms(2), of d'] p s show ?thesis
      by (auto simp: I_def algebra_simps)
  qed
  from iter_opt_counter_inv [where I = I and n = "h - first" and body = body, OF this, of "(i + int first * stride, d1)"] assms(3,4)
  show ?thesis by (auto simp: I_def)
qed


lemma memcpy_row:
  assumes rows: "rows_of d0 i stride n j (\<lambda>_ _. Store c) d" "0 < j" "int n \<le> stride"
    and i: "0 \<le> i" "i + int j * stride + int n \<le> int (length d0)"
  shows "\<exists>d'. memcpy_self d (i + int j * stride) i (4 * int n) = Some d'
    \<and> span_of d (i + int j * stride) (\<lambda>_. Store c) n d'"
proof -
  have len: "length d = length d0" using rows(1) by (simp add: rows_of_def)
  have s: "0 \<le> int j * stride" using rows(3) by simp
  then have r: "aread d i n = Some (take n (drop (nat i) d))" using i len by (simp add: aread_def)
  have "take n (drop (nat i) d) = replicate n c"
  proof (rule nth_equalityI)
    show "length (take n (drop (nat i) d)) = length (replicate n c)" using s i len by auto
    fix k assume "k < length (take n (drop (nat i) d))"
    then have k: "k < n" "nat i + k < length d0" using len by auto
    have "\<forall>j' < j. \<forall>k' < n. int (nat i + k) = i + int j' * stride + int k' \<longrightarrow> c = d ! (nat i + k)"
      using rows(1) k(2) by (simp add: rows_of_def)
    from this [rule_format, of 0 k] have "d ! (nat i + k) = c" using rows(2) k i by simp
    then show "take n (drop (nat i) d) ! k = replicate n c ! k" using k len by simp
  qed
  moreover have "nat (4 * int n) div 4 = n" by (simp add: nat_mult_distrib)
  ultimately show ?thesis
    using awrite_span_of [of "i + int j * stride" n d c] r i s len by (simp add: memcpy_self_def)
qed



end
