(* ===== verification/PiscesPaint.thy ===== *)
theory PiscesPaint
  imports PiscesBlit
begin

unbundle bit_operations_syntax

text \<open>
  Paint generation of the software renderer, \<open>native-prism-sw/PiscesPaint.c\<close>, first part: the
  fixed-point interpolation of colours, the cycle rule of the gradients, the gradient loops and the
  multiplication of a paint with a texture. The arithmetic of
  \<open>jfloat\<close> and \<open>double\<close> that the gradients compute with is an argument.
\<close>

section \<open>Model\<close>

definition interp :: "jint \<Rightarrow> jint \<Rightarrow> jint \<Rightarrow> jint" where
  "interp x0 x1 frac = drop_bit 16 (i32 (push_bit 16 x0 + (x1 - x0) * frac + 0x8000))"

definition CYCLE_NONE :: jint where "CYCLE_NONE = 0"
definition CYCLE_REPEAT :: jint where "CYCLE_REPEAT = 1"
definition CYCLE_REFLECT :: jint where "CYCLE_REFLECT = 2"

definition LG_GRADIENT_MAP_SIZE :: nat where "LG_GRADIENT_MAP_SIZE = 8"

definition pad :: "jint \<Rightarrow> jint \<Rightarrow> jint" where
  "pad ifrac cycleMethod =
     (if cycleMethod = CYCLE_NONE then if ifrac < 0 then 0 else if ifrac > 0xffff then 0xffff else ifrac
      else if cycleMethod = CYCLE_REPEAT then ifrac AND 0xffff
      else if cycleMethod = CYCLE_REFLECT then
        let ifrac = (if ifrac < 0 then i32 (- ifrac) else ifrac) AND 0x1ffff
        in if ifrac > 0xffff then 0x1ffff - ifrac else ifrac
      else ifrac)"

text \<open>
  The fields of \<open>struct _Renderer\<close> that describe the paint; \<open>t_mIJ\<close> is the matrix from the surface
  to the texture.
\<close>

record painter = raster +
  g_cycleMethod :: jint
  g_colors :: "jint list"
  t_prevPaintMode :: jint
  t_intData :: "jint list"
  t_hasAlpha :: bool
  t_imageWidth :: jint
  t_imageHeight :: jint
  t_stride :: jint
  t_txMin :: jint
  t_tyMin :: jint
  t_txMax :: jint
  t_tyMax :: jint
  t_repeat :: bool
  t_m00 :: jlong
  t_m01 :: jlong
  t_m02 :: jlong
  t_m10 :: jlong
  t_m11 :: jlong
  t_m12 :: jlong
  t_interpolate :: bool
  t_transformType :: jint

text \<open>
  The loops that fill a paint buffer. \<open>fill_span\<close> writes \<open>n\<close> cells from \<open>pidx\<close> on, with the loop's
  own variables in \<open>s\<close>; \<open>fill_rows\<close> runs \<open>row j\<close> for the rows \<open>j\<close> of a block and gives it the offset
  of the row.
\<close>

fun fill_span :: "('s \<Rightarrow> (jint \<times> 's) option) \<Rightarrow> nat \<Rightarrow> jint \<Rightarrow> 's \<Rightarrow> jint list \<Rightarrow> jint list option" where
  "fill_span step 0 pidx s paint = Some paint"
| "fill_span step (Suc n) pidx s paint =
     do { (v, s') \<leftarrow> step s;
          paint' \<leftarrow> aset paint pidx v;
          fill_span step n (i32 (pidx + 1)) s' paint' }"

fun fill_rows :: "(nat \<Rightarrow> jint \<Rightarrow> jint list \<Rightarrow> jint list option) \<Rightarrow> jint \<Rightarrow> nat \<Rightarrow> nat \<Rightarrow> jint \<Rightarrow> jint list \<Rightarrow> jint list option" where
  "fill_rows row stride 0 j paintOffset paint = Some paint"
| "fill_rows row stride (Suc n) j paintOffset paint =
     do { paint' \<leftarrow> row j paintOffset paint;
          fill_rows row stride n (Suc j) (i32 (paintOffset + stride)) paint' }"

text \<open>The colour of a gradient at the position \<open>ifrac\<close>.\<close>

definition gradient_color :: "'a painter_scheme \<Rightarrow> jint \<Rightarrow> jint option" where
  "gradient_color rdr ifrac = aget (g_colors rdr) (drop_bit (16 - LG_GRADIENT_MAP_SIZE) (pad ifrac (g_cycleMethod rdr)))"

text \<open>
  The gradients compute in \<open>jfloat\<close>, and \<open>sqrt\<close> and the sum it is in are \<open>double\<close>. The arithmetic is an
  argument, so that what is shown holds for every rounding. Whole literals are conversions of \<open>jint\<close>
  values; \<open>f_lit n d\<close> is the literal for the decimal fraction \<open>n / d\<close>.
\<close>

record ('f, 'd) arith =
  f_of_jint :: "jint \<Rightarrow> 'f"
  f_to_jint :: "'f \<Rightarrow> jint"
  f_add :: "'f \<Rightarrow> 'f \<Rightarrow> 'f"
  f_sub :: "'f \<Rightarrow> 'f \<Rightarrow> 'f"
  f_mul :: "'f \<Rightarrow> 'f \<Rightarrow> 'f"
  f_div :: "'f \<Rightarrow> 'f \<Rightarrow> 'f"
  f_neg :: "'f \<Rightarrow> 'f"
  f_less :: "'f \<Rightarrow> 'f \<Rightarrow> bool"
  f_lit :: "int \<Rightarrow> int \<Rightarrow> 'f"
  f_of_double :: "'d \<Rightarrow> 'f"
  d_of_float :: "'f \<Rightarrow> 'd"
  d_add :: "'d \<Rightarrow> 'd \<Rightarrow> 'd"
  d_sqrt :: "'d \<Rightarrow> 'd"
  d_to_jint :: "'d \<Rightarrow> jint"

text \<open>The gradient geometry, fields of \<open>struct _Renderer\<close> of type \<open>jfloat\<close>.\<close>

record 'f gradient_geometry =
  lg_mx :: 'f
  lg_my :: 'f
  lg_b :: 'f
  rg_a00 :: 'f
  rg_a01 :: 'f
  rg_a02 :: 'f
  rg_a10 :: 'f
  rg_a11 :: 'f
  rg_a12 :: 'f
  rg_cx :: 'f
  rg_cy :: 'f
  rg_fx :: 'f
  rg_fy :: 'f
  rg_rsq :: 'f
  rg_a00a00 :: 'f
  rg_a10a10 :: 'f
  rg_a00a10 :: 'f

text \<open>A loop over the gradient: \<open>pos\<close> reads the position in the loop's variables, \<open>upd\<close> advances them.\<close>

definition gradient_step :: "'a painter_scheme \<Rightarrow> ('s \<Rightarrow> jint) \<Rightarrow> ('s \<Rightarrow> 's) \<Rightarrow> 's \<Rightarrow> (jint \<times> 's) option" where
  "gradient_step rdr pos upd s = do { v \<leftarrow> gradient_color rdr (pos s); Some (v, upd s) }"

definition gradient_rows ::
    "'a painter_scheme \<Rightarrow> (jint \<Rightarrow> jint \<Rightarrow> 's) \<Rightarrow> ('s \<Rightarrow> jint) \<Rightarrow> ('s \<Rightarrow> 's) \<Rightarrow> jint \<Rightarrow> jint list option" where
  "gradient_rows rdr start pos upd height =
     fill_rows (\<lambda>j paintOffset. fill_span (gradient_step rdr pos upd) (nat (r_alphaWidth rdr)) paintOffset
         (start (r_currX rdr) (i32 (r_currY rdr + int j))))
       (r_alphaWidth rdr) (nat height) 0 0 (r_paint rdr)"

definition linear_start :: "('f, 'd) arith \<Rightarrow> 'f gradient_geometry \<Rightarrow> jint \<Rightarrow> jint \<Rightarrow> 'f" where
  "linear_start fl geo x y =
     f_add fl (f_add fl (f_mul fl (f_of_jint fl x) (lg_mx geo)) (f_mul fl (f_of_jint fl y) (lg_my geo))) (lg_b geo)"

definition linear_upd :: "('f, 'd) arith \<Rightarrow> 'f gradient_geometry \<Rightarrow> 'f \<Rightarrow> 'f" where
  "linear_upd fl geo frac = f_add fl frac (lg_mx geo)"

definition genLinearGradientPaint :: "('f, 'd) arith \<Rightarrow> 'f gradient_geometry \<Rightarrow> 'a painter_scheme \<Rightarrow> jint \<Rightarrow> jint list option" where
  "genLinearGradientPaint fl geo rdr height =
     gradient_rows rdr (linear_start fl geo) (f_to_jint fl) (linear_upd fl geo) height"

text \<open>The variables of the inner loop of the radial gradient.\<close>

record 'f radial =
  rU :: 'f
  rdU :: 'f
  rV :: 'f
  rdV :: 'f
  rddV :: 'f

definition radial_start :: "('f, 'd) arith \<Rightarrow> 'f gradient_geometry \<Rightarrow> jint \<Rightarrow> jint \<Rightarrow> 'f radial" where
  "radial_start fl geo x y =
     (let add = f_add fl; sub = f_sub fl; mul = f_mul fl; num = f_of_jint fl;
          a00 = rg_a00 geo; a10 = rg_a10 geo; rsq = rg_rsq geo;
          a00a00 = rg_a00a00 geo; a10a10 = rg_a10a10 geo; a00a10 = rg_a00a10 geo;
          txx = add (add (mul (num x) a00) (mul (num y) (rg_a01 geo))) (rg_a02 geo);
          tyy = add (add (mul (num x) a10) (mul (num y) (rg_a11 geo))) (rg_a12 geo);
          fxx = sub (rg_fx geo) txx;
          fyy = sub (rg_fy geo) tyy;
          A = add (mul fxx fxx) (mul fyy fyy);
          cfx = sub (rg_cx geo) (rg_fx geo);
          cfy = sub (rg_cy geo) (rg_fy geo);
          cfxcfx = mul cfx cfx;
          cfycfy = mul cfy cfy;
          cfxcfy = mul cfx cfy;
          B = add (mul cfx fxx) (mul cfy fyy);
          B2 = mul (f_neg fl B) (num 2);
          C = sub (add cfxcfx cfycfy) rsq;
          C2 = mul (num 2) C;
          rC = f_div fl (num 1) C;
          Csq = mul rC rC;
          U = mul (f_neg fl B) rC;
          dU = mul (add (mul a00 cfx) (mul a10 cfy)) rC;
          V = mul (sub (mul B B) (mul A C)) Csq;
          sube = mul (mul (num 2) a00a10) cfxcfy;
          dV = mul (add (add sube
                   (add (mul a00a00 (sub cfxcfx C)) (mul a00 (add (mul B2 cfx) (mul C2 fxx)))))
                   (add (mul a10a10 (sub cfycfy C)) (mul a10 (add (mul B2 cfy) (mul C2 fyy))))) Csq;
          tmp = add (sub (mul a00a00 cfycfy) sube) (mul a10a10 cfxcfx);
          ddV = mul (mul (num 2) (sub (mul (add a00a00 a10a10) rsq) tmp)) Csq
      in \<lparr>rU = mul (num 65536) U, rdU = mul (num 65536) dU, rV = mul (mul (num 65536) (num 65536)) V,
          rdV = mul (mul (num 65536) (num 65536)) dV, rddV = mul (mul (num 65536) (num 65536)) ddV\<rparr>)"

definition radial_V :: "('f, 'd) arith \<Rightarrow> 'f radial \<Rightarrow> 'f" where
  "radial_V fl s = (if f_less fl (rV s) (f_of_jint fl 0) then f_of_jint fl 0 else rV s)"

definition radial_pos :: "('f, 'd) arith \<Rightarrow> 'f radial \<Rightarrow> jint" where
  "radial_pos fl s = d_to_jint fl (d_add fl (d_of_float fl (rU s)) (d_sqrt fl (d_of_float fl (radial_V fl s))))"

definition radial_upd :: "('f, 'd) arith \<Rightarrow> 'f radial \<Rightarrow> 'f radial" where
  "radial_upd fl s = s\<lparr>rU := f_add fl (rU s) (rdU s), rV := f_add fl (radial_V fl s) (rdV s), rdV := f_add fl (rdV s) (rddV s)\<rparr>"

definition genRadialGradientPaint :: "('f, 'd) arith \<Rightarrow> 'f gradient_geometry \<Rightarrow> 'a painter_scheme \<Rightarrow> jint \<Rightarrow> jint list option" where
  "genRadialGradientPaint fl geo rdr height =
     gradient_rows rdr (radial_start fl geo) (radial_pos fl) (radial_upd fl) height"

definition interpolate2points :: "jint \<Rightarrow> jint \<Rightarrow> jint \<Rightarrow> jint" where
  "interpolate2points p0 p1 frac =
     pack (interp (px_A p0) (px_A p1) frac) (interp (px_R p0) (px_R p1) frac)
       (interp (px_G p0) (px_G p1) frac) (interp (px_B p0) (px_B p1) frac)"

definition interpolate4points :: "jint \<Rightarrow> jint \<Rightarrow> jint \<Rightarrow> jint \<Rightarrow> jint \<Rightarrow> jint \<Rightarrow> jint" where
  "interpolate4points p00 p01 p10 p11 hfrac vfrac =
     (let a0 = interp (px_A p00) (px_A p01) hfrac; r0 = interp (px_R p00) (px_R p01) hfrac;
          g0 = interp (px_G p00) (px_G p01) hfrac; b0 = interp (px_B p00) (px_B p01) hfrac;
          a1 = interp (px_A p10) (px_A p11) hfrac; r1 = interp (px_R p10) (px_R p11) hfrac;
          g1 = interp (px_G p10) (px_G p11) hfrac; b1 = interp (px_B p10) (px_B p11) hfrac
      in pack (interp a0 a1 vfrac) (interp r0 r1 vfrac) (interp g0 g1 vfrac) (interp b0 b1 vfrac))"

definition interpolate2pointsNoAlpha :: "jint \<Rightarrow> jint \<Rightarrow> jint \<Rightarrow> jint" where
  "interpolate2pointsNoAlpha p0 p1 frac =
     pack 0xff (interp (px_R p0) (px_R p1) frac) (interp (px_G p0) (px_G p1) frac) (interp (px_B p0) (px_B p1) frac)"

definition interpolate4pointsNoAlpha :: "jint \<Rightarrow> jint \<Rightarrow> jint \<Rightarrow> jint \<Rightarrow> jint \<Rightarrow> jint \<Rightarrow> jint" where
  "interpolate4pointsNoAlpha p00 p01 p10 p11 hfrac vfrac =
     (let r0 = interp (px_R p00) (px_R p01) hfrac; g0 = interp (px_G p00) (px_G p01) hfrac;
          b0 = interp (px_B p00) (px_B p01) hfrac;
          r1 = interp (px_R p10) (px_R p11) hfrac; g1 = interp (px_G p10) (px_G p11) hfrac;
          b1 = interp (px_B p10) (px_B p11) hfrac
      in pack 0xff (interp r0 r1 vfrac) (interp g0 g1 vfrac) (interp b0 b1 vfrac))"

section \<open>Interpolation\<close>

text \<open>The exact value, rounded to the nearest: halves go up.\<close>

definition lerp :: "int \<Rightarrow> int \<Rightarrow> int \<Rightarrow> int" where
  "lerp x0 x1 frac = (x0 * (65536 - frac) + x1 * frac + 32768) div 65536"

definition is_frac :: "int \<Rightarrow> bool" where
  "is_frac f \<longleftrightarrow> 0 \<le> f \<and> f < 65536"

lemma interp_eq:
  assumes "is_chan x0" "is_chan x1" "is_frac frac"
  shows "interp x0 x1 frac = lerp x0 x1 frac"
proof -
  let ?v = "x0 * (65536 - frac) + x1 * frac + 32768"
  have c: "0 \<le> x0" "x0 \<le> 255" "0 \<le> x1" "x1 \<le> 255" "0 \<le> frac" "frac < 65536"
    using assms by (auto simp: is_chan_def is_frac_def)
  have "x0 * (65536 - frac) \<le> 255 * (65536 - frac)" "x1 * frac \<le> 255 * frac"
    using c mult_right_mono [of x0 255 "65536 - frac"] mult_right_mono [of x1 255 frac] by simp_all
  moreover have "0 \<le> x0 * (65536 - frac)" "0 \<le> x1 * frac" using c by auto
  ultimately have v: "0 \<le> ?v" "?v < 2147483648" by auto
  have "push_bit 16 x0 + (x1 - x0) * frac + 32768 = ?v" by (simp add: push_bit_eq_mult algebra_simps)
  with v show ?thesis by (simp add: interp_def lerp_def i32_small drop_bit_eq_div)
qed

lemma lerp_mono:
  "x0 \<le> y0 \<Longrightarrow> x1 \<le> y1 \<Longrightarrow> is_frac frac \<Longrightarrow> lerp x0 x1 frac \<le> lerp y0 y1 frac"
  unfolding lerp_def is_frac_def by (intro zdiv_mono1 add_mono mult_right_mono) auto

lemma lerp_same [simp]: "lerp x x frac = x"
proof -
  have "x * (65536 - frac) + x * frac + 32768 = x * 65536 + 32768" by (simp add: algebra_simps)
  then show ?thesis by (simp add: lerp_def)
qed

lemma lerp_0 [simp]: "lerp x0 x1 0 = x0"
  by (simp add: lerp_def)

lemma lerp_between:
  assumes "is_frac frac"
  shows "min x0 x1 \<le> lerp x0 x1 frac" "lerp x0 x1 frac \<le> max x0 x1"
  using lerp_mono [OF _ _ assms, of "min x0 x1" x0 "min x0 x1" x1]
    lerp_mono [OF _ _ assms, of x0 "max x0 x1" x1 "max x0 x1"] by simp_all

lemma is_chan_lerp: "is_chan x0 \<Longrightarrow> is_chan x1 \<Longrightarrow> is_frac frac \<Longrightarrow> is_chan (lerp x0 x1 frac)"
  using lerp_between [of frac x0 x1] by (auto simp: is_chan_def)

text \<open>Bilinear interpolation of a channel.\<close>

definition bilerp :: "int \<Rightarrow> int \<Rightarrow> int \<Rightarrow> int \<Rightarrow> int \<Rightarrow> int \<Rightarrow> int" where
  "bilerp x00 x01 x10 x11 h v = lerp (lerp x00 x01 h) (lerp x10 x11 h) v"

lemma bilerp_mono:
  "x00 \<le> y00 \<Longrightarrow> x01 \<le> y01 \<Longrightarrow> x10 \<le> y10 \<Longrightarrow> x11 \<le> y11 \<Longrightarrow> is_frac h \<Longrightarrow> is_frac v \<Longrightarrow>
   bilerp x00 x01 x10 x11 h v \<le> bilerp y00 y01 y10 y11 h v"
  unfolding bilerp_def by (intro lerp_mono)

lemma is_chan_bilerp:
  "is_chan x00 \<Longrightarrow> is_chan x01 \<Longrightarrow> is_chan x10 \<Longrightarrow> is_chan x11 \<Longrightarrow> is_frac h \<Longrightarrow> is_frac v \<Longrightarrow>
   is_chan (bilerp x00 x01 x10 x11 h v)"
  unfolding bilerp_def by (intro is_chan_lerp)

lemma bilerp_between:
  assumes "is_frac h" "is_frac v"
  shows "min (min x00 x01) (min x10 x11) \<le> bilerp x00 x01 x10 x11 h v"
    "bilerp x00 x01 x10 x11 h v \<le> max (max x00 x01) (max x10 x11)"
  using lerp_between [OF assms(1), of x00 x01] lerp_between [OF assms(1), of x10 x11]
    lerp_between [OF assms(2), of "lerp x00 x01 h" "lerp x10 x11 h"]
  unfolding bilerp_def by linarith+

lemma interpolate4points_eq:
  assumes "is_frac h" "is_frac v"
  shows "interpolate4points p00 p01 p10 p11 h v =
    pack (bilerp (px_A p00) (px_A p01) (px_A p10) (px_A p11) h v) (bilerp (px_R p00) (px_R p01) (px_R p10) (px_R p11) h v)
      (bilerp (px_G p00) (px_G p01) (px_G p10) (px_G p11) h v) (bilerp (px_B p00) (px_B p01) (px_B p10) (px_B p11) h v)"
  using assms by (simp add: interpolate4points_def Let_def interp_eq is_chan_lerp bilerp_def)

lemma interpolate2points_eq:
  assumes "is_frac f"
  shows "interpolate2points p0 p1 f =
    pack (lerp (px_A p0) (px_A p1) f) (lerp (px_R p0) (px_R p1) f) (lerp (px_G p0) (px_G p1) f) (lerp (px_B p0) (px_B p1) f)"
  using assms by (simp add: interpolate2points_def interp_eq)

text \<open>
  bilinear interpolation is exact and safe in every channel: each channel of the result is the
  twice rounded weighted mean of the four channels, lies between their extremes, does not disturb its
  neighbours, and four premultiplied pixels give a premultiplied pixel.
\<close>

theorem interpolate4points_channels:
  assumes "is_frac h" "is_frac v" "premult p00" "premult p01" "premult p10" "premult p11"
  shows "let p = interpolate4points p00 p01 p10 p11 h v
    in px_A p = bilerp (px_A p00) (px_A p01) (px_A p10) (px_A p11) h v
     \<and> px_R p = bilerp (px_R p00) (px_R p01) (px_R p10) (px_R p11) h v
     \<and> px_G p = bilerp (px_G p00) (px_G p01) (px_G p10) (px_G p11) h v
     \<and> px_B p = bilerp (px_B p00) (px_B p01) (px_B p10) (px_B p11) h v
     \<and> min (min (px_A p00) (px_A p01)) (min (px_A p10) (px_A p11)) \<le> px_A p
     \<and> px_A p \<le> max (max (px_A p00) (px_A p01)) (max (px_A p10) (px_A p11)) \<and> premult p"
  using assms bilerp_between [OF assms(1,2), of "px_A p00" "px_A p01" "px_A p10" "px_A p11"]
  by (auto simp: Let_def interpolate4points_eq is_chan_bilerp premult_def intro!: bilerp_mono)

theorem interpolate4points_channels_witness:
  "premult (interpolate4points 0 (pack 200 100 0 50) (pack 255 255 0 0) (pack 100 0 0 100) 0x8000 0x4000)"
proof -
  have "premult 0" by (simp add: premult_def px_A_def px_R_def px_G_def px_B_def)
  moreover have "premult (pack 200 100 0 50)" "premult (pack 255 255 0 0)" "premult (pack 100 0 0 100)"
    by (simp_all add: premult_packI is_chan_def)
  moreover have "is_frac 0x8000" "is_frac 0x4000" by (simp_all add: is_frac_def)
  ultimately show ?thesis
    using interpolate4points_channels [of "0x8000" "0x4000" 0 "pack 200 100 0 50" "pack 255 255 0 0" "pack 100 0 0 100"]
    by (simp add: Let_def)
qed

section \<open>Gradients\<close>

lemma and_mask: "x AND 0xffff = x mod 65536" "x AND 0x1ffff = x mod 131072" for x :: int
proof -
  have "x AND mask 16 = take_bit 16 x" "x AND mask 17 = take_bit 17 x" by (simp_all add: take_bit_eq_mask)
  then show "x AND 0xffff = x mod 65536" "x AND 0x1ffff = x mod 131072"
    by (simp_all add: mask_eq_exp_minus_1 take_bit_eq_mod)
qed

lemma pad_bounds:
  assumes "m \<in> {CYCLE_NONE, CYCLE_REPEAT, CYCLE_REFLECT}"
  shows "0 \<le> pad x m" "pad x m \<le> 65535"
  using assms by (auto simp: pad_def CYCLE_NONE_def CYCLE_REPEAT_def CYCLE_REFLECT_def and_mask Let_def)

text \<open>What a block of rows holds after its cells were filled one by one.\<close>

definition filled_span :: "jint list \<Rightarrow> nat \<Rightarrow> nat \<Rightarrow> (nat \<Rightarrow> jint) \<Rightarrow> jint list \<Rightarrow> bool" where
  "filled_span paint off n val paint' \<longleftrightarrow> length paint' = length paint \<and>
     (\<forall>k < length paint. paint' ! k = (if off \<le> k \<and> k < off + n then val (k - off) else paint ! k))"

definition filled_rows :: "jint list \<Rightarrow> nat \<Rightarrow> nat \<Rightarrow> (nat \<Rightarrow> nat \<Rightarrow> jint) \<Rightarrow> jint list \<Rightarrow> bool" where
  "filled_rows paint h w val paint' \<longleftrightarrow> length paint' = length paint \<and>
     (\<forall>k < length paint. paint' ! k = (if k < h * w then val (k div w) (k mod w) else paint ! k))"

lemma filled_span_0: "filled_span paint off 0 val paint"
  by (simp add: filled_span_def)

lemma filled_span_Cons:
  assumes "filled_span (paint[off := v]) (Suc off) n (\<lambda>i. val (Suc i)) paint'" "v = val 0" "off < length paint"
  shows "filled_span paint off (Suc n) val paint'"
  unfolding filled_span_def
proof (intro conjI allI impI)
  show "length paint' = length paint" using assms(1) by (simp add: filled_span_def)
  fix k assume k: "k < length paint"
  with assms(1) have p: "paint' ! k = (if Suc off \<le> k \<and> k < Suc off + n then val (Suc (k - Suc off)) else paint[off := v] ! k)"
    by (simp add: filled_span_def)
  have "Suc off \<le> k \<Longrightarrow> Suc (k - Suc off) = k - off" by simp
  with p assms(2,3) show "paint' ! k = (if off \<le> k \<and> k < off + Suc n then val (k - off) else paint ! k)"
    by (cases "k = off") (auto simp: nth_list_update)
qed

text \<open>A span whose steps are known: \<open>st i\<close> are the states of the loop and \<open>val i\<close> the values it writes.\<close>

lemma fill_span_run:
  assumes "\<And>i. i < n \<Longrightarrow> step (st i) = Some (val i, st (Suc i))" "off + n \<le> length paint" "length paint < 2 ^ 31"
  shows "\<exists>paint'. fill_span step n (int off) (st 0) paint = Some paint' \<and> filled_span paint off n val paint'"
  using assms
proof (induction n arbitrary: st val off paint)
  case (Suc n)
  have p: "aset paint (int off) (val 0) = Some (paint[off := val 0])" using Suc.prems(2) by (simp add: aset_in)
  have i: "i32 (int off + 1) = int (Suc off)" using Suc.prems(2,3) by (simp add: i32_small add.commute)
  have "\<exists>paint'. fill_span step n (int (Suc off)) (st (Suc 0)) (paint[off := val 0]) = Some paint'
      \<and> filled_span (paint[off := val 0]) (Suc off) n (\<lambda>i. val (Suc i)) paint'"
    using Suc.prems by (intro Suc.IH [where st = "\<lambda>i. st (Suc i)"]) auto
  with p i Suc.prems(1) [of 0] Suc.prems(2) filled_span_Cons [of paint off "val 0" n val] show ?case by auto
qed (auto simp: filled_span_0)

text \<open>The states of a loop whose steps keep an invariant.\<close>

definition loop_state :: "('s \<Rightarrow> (jint \<times> 's) option) \<Rightarrow> 's \<Rightarrow> nat \<Rightarrow> 's" where
  "loop_state step s i = ((\<lambda>s. snd (the (step s))) ^^ i) s"

lemma fill_span_inv:
  assumes step: "\<And>s. I s \<Longrightarrow> \<exists>v s'. step s = Some (v, s') \<and> P v \<and> I s'" and "I s"
    and "off + n \<le> length paint" "length paint < 2 ^ 31"
  shows "\<exists>paint' val. fill_span step n (int off) s paint = Some paint' \<and> filled_span paint off n val paint' \<and> (\<forall>i. P (val i))"
proof -
  let ?st = "loop_state step s" and ?val = "\<lambda>i. fst (the (step (loop_state step s i)))"
  have inv: "I (?st i)" for i
  proof (induction i)
    case (Suc i)
    then show ?case using step [of "?st i"] by (auto simp: loop_state_def)
  qed (simp add: loop_state_def \<open>I s\<close>)
  have "step (?st i) = Some (?val i, ?st (Suc i)) \<and> P (?val i)" for i
    using step [OF inv [of i]] by (auto simp: loop_state_def)
  with fill_span_run [of n step ?st ?val off paint] assms(3,4) show ?thesis by (auto simp: loop_state_def)
qed

lemma filled_rows_0: "filled_rows paint 0 w val paint"
  by (simp add: filled_rows_def)

lemma filled_rows_Suc:
  assumes "filled_rows paint h w val p1" "filled_span p1 (h * w) w (val h) p2"
  shows "filled_rows paint (Suc h) w val p2"
  unfolding filled_rows_def
proof (intro conjI allI impI)
  show "length p2 = length paint" using assms by (simp add: filled_rows_def filled_span_def)
  fix k assume k: "k < length paint"
  consider "k < h * w" | "h * w \<le> k" "k < h * w + w" | "h * w + w \<le> k" by linarith
  then show "p2 ! k = (if k < Suc h * w then val (k div w) (k mod w) else paint ! k)"
  proof cases
    case 2
    define r where "r = k - h * w"
    from 2 have r: "r < w" "k = h * w + r" by (auto simp: r_def)
    then have "k div w = h" "k mod w = r" by simp_all
    then have "k div w = h" "k mod w = k - h * w" by (simp_all add: r_def)
    with 2 k assms show ?thesis by (simp add: filled_rows_def filled_span_def)
  qed (use k assms in \<open>auto simp: filled_rows_def filled_span_def\<close>)
qed

lemma fill_rows_snoc:
  assumes "\<And>j. j < k + n \<Longrightarrow> i32 (int (j * w) + int w) = int (Suc j * w)"
  shows "fill_rows row (int w) (Suc n) k (int (k * w)) paint =
    do { p \<leftarrow> fill_rows row (int w) n k (int (k * w)) paint; row (k + n) (int ((k + n) * w)) p }"
  using assms
proof (induction n arbitrary: k paint)
  case (Suc n)
  have "fill_rows row (int w) (Suc n) (Suc k) (int (Suc k * w)) p =
    do { q \<leftarrow> fill_rows row (int w) n (Suc k) (int (Suc k * w)) p; row (Suc k + n) (int ((Suc k + n) * w)) q }" for p
    by (rule Suc.IH) (use Suc.prems in auto)
  with Suc.prems [of k] show ?case by (auto split: bind_splits)
qed (auto split: bind_splits)

lemma fill_rows_inv:
  assumes row: "\<And>j p. j < h \<Longrightarrow> I j p \<Longrightarrow> \<exists>p'. row j (int (j * w)) p = Some p' \<and> I (Suc j) p'" and "I 0 paint"
    and "h * w \<le> length paint" "length paint < 2 ^ 31"
  shows "\<exists>paint'. fill_rows row (int w) h 0 0 paint = Some paint' \<and> I h paint'"
proof -
  have wrap: "i32 (int (j * w) + int w) = int (Suc j * w)" if "j < h" for j
  proof -
    have "Suc j * w \<le> h * w" using that by (intro mult_le_mono1) simp
    then have "Suc j * w < 2 ^ 31" using assms(3,4) by (rule le_less_trans [OF le_trans])
    then have "int (Suc j * w) < int (2 ^ 31)" by (simp only: of_nat_less_iff)
    then have "int (Suc j * w) < 2147483648" by simp
    moreover have "int (j * w) + int w = int (Suc j * w)" by simp
    ultimately show ?thesis by (simp only: i32_small)
  qed
  have "\<exists>paint'. fill_rows row (int w) n 0 (int (0 * w)) paint = Some paint' \<and> I n paint'" if "n \<le> h" for n
    using that
  proof (induction n)
    case (Suc n)
    then obtain p where p: "fill_rows row (int w) n 0 (int (0 * w)) paint = Some p" "I n p" by auto
    with row [of n p] Suc.prems obtain q where q: "row n (int (n * w)) p = Some q" "I (Suc n) q" by auto
    have "fill_rows row (int w) (Suc n) 0 (int (0 * w)) paint =
        do { p \<leftarrow> fill_rows row (int w) n 0 (int (0 * w)) paint; row (0 + n) (int ((0 + n) * w)) p }"
      by (rule fill_rows_snoc) (use wrap Suc.prems in auto)
    with p q show ?case by simp
  qed (simp add: \<open>I 0 paint\<close>)
  from this [of h] show ?thesis by simp
qed

lemma fill_rows_run:
  assumes row: "\<And>j p. j < h \<Longrightarrow> length p = length paint \<Longrightarrow> \<exists>p'. row j (int (j * w)) p = Some p' \<and> filled_span p (j * w) w (val j) p'"
    and "h * w \<le> length paint" "length paint < 2 ^ 31"
  shows "\<exists>paint'. fill_rows row (int w) h 0 0 paint = Some paint' \<and> filled_rows paint h w val paint'"
proof (rule fill_rows_inv [where I = "\<lambda>j p. filled_rows paint j w val p", OF _ filled_rows_0 assms(2,3)])
  fix j p assume "j < h" and p: "filled_rows paint j w val p"
  then have "length p = length paint" by (simp add: filled_rows_def)
  from row [OF \<open>j < h\<close> this] filled_rows_Suc [OF p]
  show "\<exists>p'. row j (int (j * w)) p = Some p' \<and> filled_rows paint (Suc j) w val p'" by blast
qed

text \<open>The same for rows of which only a property of the cells is known.\<close>

definition rows_with :: "(jint \<Rightarrow> bool) \<Rightarrow> jint list \<Rightarrow> nat \<Rightarrow> nat \<Rightarrow> jint list \<Rightarrow> bool" where
  "rows_with P paint h w p \<longleftrightarrow> length p = length paint \<and> (\<forall>k < length paint. if k < h * w then P (p ! k) else p ! k = paint ! k)"

lemma fill_rows_with:
  assumes row: "\<And>j p. j < h \<Longrightarrow> length p = length paint \<Longrightarrow>
      \<exists>p' val. row j (int (j * w)) p = Some p' \<and> filled_span p (j * w) w val p' \<and> (\<forall>i. P (val i))"
    and "h * w \<le> length paint" "length paint < 2 ^ 31"
  shows "\<exists>p. fill_rows row (int w) h 0 0 paint = Some p \<and> rows_with P paint h w p"
proof (rule fill_rows_inv [where I = "\<lambda>j p. rows_with P paint j w p", OF _ _ assms(2,3)])
  fix j p assume "j < h" and p: "rows_with P paint j w p"
  then have "length p = length paint" by (simp add: rows_with_def)
  from row [OF \<open>j < h\<close> this] obtain p' val where
    r: "row j (int (j * w)) p = Some p'" "filled_span p (j * w) w val p'" "\<forall>i. P (val i)" by blast
  then have "rows_with P paint (Suc j) w p'" using p by (auto simp: rows_with_def filled_span_def)
  with r(1) show "\<exists>p'. row j (int (j * w)) p = Some p' \<and> rows_with P paint (Suc j) w p'" by blast
qed (simp add: rows_with_def)

text \<open>A painter whose buffer has room for \<open>height\<close> rows.\<close>

definition paint_room :: "'a painter_scheme \<Rightarrow> jint \<Rightarrow> bool" where
  "paint_room rdr height \<longleftrightarrow> 0 \<le> r_alphaWidth rdr \<and> nat height * nat (r_alphaWidth rdr) \<le> length (r_paint rdr) \<and> length (r_paint rdr) < 2 ^ 31"

lemma gradient_color_in:
  assumes "g_cycleMethod rdr \<in> {CYCLE_NONE, CYCLE_REPEAT, CYCLE_REFLECT}" "length (g_colors rdr) = 256"
  shows "gradient_color rdr f = Some (g_colors rdr ! nat (pad f (g_cycleMethod rdr) div 256))"
  using pad_bounds [OF assms(1), of f] assms(2)
  by (simp add: gradient_color_def LG_GRADIENT_MAP_SIZE_def drop_bit_eq_div aget_in)

lemma gradient_rows_run:
  assumes "g_cycleMethod rdr \<in> {CYCLE_NONE, CYCLE_REPEAT, CYCLE_REFLECT}" "length (g_colors rdr) = 256" "paint_room rdr height"
  shows "\<exists>paint'. gradient_rows rdr start pos upd height = Some paint'
    \<and> filled_rows (r_paint rdr) (nat height) (nat (r_alphaWidth rdr))
        (\<lambda>j i. g_colors rdr ! nat (pad (pos ((upd ^^ i) (start (r_currX rdr) (i32 (r_currY rdr + int j))))) (g_cycleMethod rdr) div 256)) paint'"
proof -
  let ?w = "nat (r_alphaWidth rdr)" and ?st = "\<lambda>j i. (upd ^^ i) (start (r_currX rdr) (i32 (r_currY rdr + int j)))"
  let ?val = "\<lambda>j i. g_colors rdr ! nat (pad (pos (?st j i)) (g_cycleMethod rdr) div 256)"
  have w: "int ?w = r_alphaWidth rdr" using assms(3) by (simp add: paint_room_def)
  have "\<exists>p'. fill_span (gradient_step rdr pos upd) ?w (int (j * ?w)) (?st j 0) p = Some p' \<and> filled_span p (j * ?w) ?w (?val j) p'"
    if "j < nat height" "length p = length (r_paint rdr)" for j p
  proof -
    have "j * ?w + ?w \<le> nat height * ?w" using that(1) mult_le_mono1 [of "Suc j" "nat height" ?w] by simp
    then show ?thesis using assms that(2)
      by (intro fill_span_run [where st = "?st j"]) (auto simp: gradient_step_def gradient_color_in paint_room_def)
  qed
  with fill_rows_run [where row = "\<lambda>j off. fill_span (gradient_step rdr pos upd) ?w off (?st j 0)" and h = "nat height" and w = ?w
      and val = ?val and paint = "r_paint rdr"] assms(3)
  show ?thesis unfolding gradient_rows_def
    by (auto simp: paint_room_def w)
qed

text \<open>A painter with a texture of three by two pixels.\<close>

definition sample_painter :: painter where
  "sample_painter = raster.extend sample_raster
     (painter.fields CYCLE_REFLECT (replicate 256 (pack 200 100 0 50)) 0
        [pack 10 1 2 3, pack 20 1 2 3, pack 30 1 2 3, pack 40 1 2 3, pack 50 1 2 3, pack 60 1 2 3]
        True 3 2 3 0 0 2 1 False 65536 0 32768 0 65536 0 True 2)"

end
