(* ===== verification/PiscesGradient.thy ===== *)
theory PiscesGradient
  imports Complex_Main PiscesPaint
begin

text \<open>
  The gradients of \<open>native-prism-sw/PiscesPaint.c\<close>: what they write for any arithmetic, and that the
  incremental evaluation of the positions is exact in real arithmetic.
\<close>

section \<open>The rows\<close>

text \<open>Exact arithmetic, which rounds towards zero only where a position becomes an integer.\<close>

definition exact_arith :: "(real, real) arith" where
  "exact_arith = \<lparr>f_of_jint = of_int, f_to_jint = (\<lambda>x. if x < 0 then \<lceil>x\<rceil> else \<lfloor>x\<rfloor>),
     f_add = (+), f_sub = (-), f_mul = (*), f_div = (/), f_neg = uminus, f_less = (<),
     f_lit = (\<lambda>n d. of_int n / of_int d), f_of_double = (\<lambda>x. x),
     d_of_float = (\<lambda>x. x), d_add = (+), d_sqrt = sqrt, d_to_jint = (\<lambda>x. if x < 0 then \<lceil>x\<rceil> else \<lfloor>x\<rfloor>)\<rparr>"

lemmas exact_arith_simps = exact_arith_def arith.simps

definition sample_geometry :: "real gradient_geometry" where
  "sample_geometry = \<lparr>lg_mx = 1000, lg_my = 10, lg_b = 1 / 2, rg_a00 = 1, rg_a01 = 0, rg_a02 = 0, rg_a10 = 0, rg_a11 = 1, rg_a12 = 0,
     rg_cx = 0, rg_cy = 0, rg_fx = 0, rg_fy = 0, rg_rsq = 100, rg_a00a00 = 1, rg_a10a10 = 0, rg_a00a10 = 0\<rparr>"

text \<open>
  a gradient fills its rows. With one of the three cycle methods and a colour map of 256
  entries the generators fill every cell of the rows, and no other. Pixel \<open>i\<close> of a row has the colour of
  the map that the cycle rule selects for the position after \<open>i\<close> steps of the incremental evaluation;
  the index is in the map whatever the arithmetic rounds the position to.
\<close>

theorem gradient_fills_rows:
  assumes "g_cycleMethod rdr \<in> {CYCLE_NONE, CYCLE_REPEAT, CYCLE_REFLECT}" "length (g_colors rdr) = 256" "paint_room rdr height"
  shows "let filled = (\<lambda>pos. filled_rows (r_paint rdr) (nat height) (nat (r_alphaWidth rdr))
             (\<lambda>j i. g_colors rdr ! nat (pad (pos i (r_currX rdr) (i32 (r_currY rdr + int j))) (g_cycleMethod rdr) div 256)))
    in (\<exists>p. genLinearGradientPaint fl geo rdr height = Some p
          \<and> filled (\<lambda>i x y. f_to_jint fl ((linear_upd fl geo ^^ i) (linear_start fl geo x y))) p)
     \<and> (\<exists>p. genRadialGradientPaint fl geo rdr height = Some p
          \<and> filled (\<lambda>i x y. radial_pos fl ((radial_upd fl ^^ i) (radial_start fl geo x y))) p)"
  unfolding genLinearGradientPaint_def genRadialGradientPaint_def Let_def by (intro conjI gradient_rows_run [OF assms])

theorem gradient_fills_rows_witness:
  "\<exists>paint'. genLinearGradientPaint exact_arith sample_geometry sample_painter 1 = Some paint' \<and> paint' = replicate 2 (pack 200 100 0 50)"
proof -
  have p: "g_cycleMethod sample_painter \<in> {CYCLE_NONE, CYCLE_REPEAT, CYCLE_REFLECT}" "length (g_colors sample_painter) = 256"
    "paint_room sample_painter 1" "length (r_paint sample_painter) = 2" "nat (r_alphaWidth sample_painter) = 2"
    and c: "g_colors sample_painter = replicate 256 (pack 200 100 0 50)"
    by (simp_all add: sample_painter_def painter.defs raster.defs sample_raster_def paint_room_def)
  have i: "nat (pad x (g_cycleMethod sample_painter) div 256) < 256" for x using pad_bounds [OF p(1), of x] by auto
  from gradient_fills_rows [OF p(1-3), of exact_arith sample_geometry, unfolded Let_def] obtain paint' pos where
    g: "genLinearGradientPaint exact_arith sample_geometry sample_painter 1 = Some paint'"
      "filled_rows (r_paint sample_painter) (nat 1) (nat (r_alphaWidth sample_painter))
        (\<lambda>j i. g_colors sample_painter ! nat (pad (pos j i) (g_cycleMethod sample_painter) div 256)) paint'" by auto
  then have "paint' = replicate 2 (pack 200 100 0 50)"
    using i p(4,5) by (intro nth_equalityI) (auto simp: filled_rows_def c)
  with g(1) show ?thesis by simp
qed

section \<open>The incremental evaluation is exact\<close>

text \<open>
  The loops evaluate the gradient functions by forward differences: a linear function for the linear
  gradient, a linear and a quadratic one for the radial gradient. In exact arithmetic the values are
  those of the direct evaluation at every pixel.
\<close>

lemma linear_exact:
  "(linear_upd exact_arith geo ^^ i) (linear_start exact_arith geo x y) = (of_int x + of_nat i) * lg_mx geo + of_int y * lg_my geo + lg_b geo"
  by (induction i) (simp_all add: linear_upd_def linear_start_def exact_arith_simps algebra_simps)

text \<open>The products that \<open>struct _Renderer\<close> keeps, and a focus strictly inside the circle.\<close>

definition radial_ok :: "real gradient_geometry \<Rightarrow> bool" where
  "radial_ok geo \<longleftrightarrow> rg_a00a00 geo = rg_a00 geo ^ 2 \<and> rg_a10a10 geo = rg_a10 geo ^ 2 \<and> rg_a00a10 geo = rg_a00 geo * rg_a10 geo
     \<and> (rg_cx geo - rg_fx geo) ^ 2 + (rg_cy geo - rg_fy geo) ^ 2 < rg_rsq geo"

text \<open>The coefficients of the quadratic equation for the gradient value of a point.\<close>

definition qA :: "real gradient_geometry \<Rightarrow> real \<Rightarrow> real \<Rightarrow> real" where
  "qA geo px py = (rg_fx geo - px) ^ 2 + (rg_fy geo - py) ^ 2"

definition qB :: "real gradient_geometry \<Rightarrow> real \<Rightarrow> real \<Rightarrow> real" where
  "qB geo px py = (rg_cx geo - rg_fx geo) * (rg_fx geo - px) + (rg_cy geo - rg_fy geo) * (rg_fy geo - py)"

definition qC :: "real gradient_geometry \<Rightarrow> real" where
  "qC geo = (rg_cx geo - rg_fx geo) ^ 2 + (rg_cy geo - rg_fy geo) ^ 2 - rg_rsq geo"

definition paint_x :: "real gradient_geometry \<Rightarrow> real \<Rightarrow> real \<Rightarrow> real" where
  "paint_x geo x y = x * rg_a00 geo + y * rg_a01 geo + rg_a02 geo"

definition paint_y :: "real gradient_geometry \<Rightarrow> real \<Rightarrow> real \<Rightarrow> real" where
  "paint_y geo x y = x * rg_a10 geo + y * rg_a11 geo + rg_a12 geo"

text \<open>The two parts of the root, and the loop's variables at a pixel: scaled, with their differences.\<close>

definition root_u :: "real gradient_geometry \<Rightarrow> real \<Rightarrow> real \<Rightarrow> real" where
  "root_u geo x y = - qB geo (paint_x geo x y) (paint_y geo x y) / qC geo"

definition root_v :: "real gradient_geometry \<Rightarrow> real \<Rightarrow> real \<Rightarrow> real" where
  "root_v geo x y = ((qB geo (paint_x geo x y) (paint_y geo x y))\<^sup>2 - qA geo (paint_x geo x y) (paint_y geo x y) * qC geo) / (qC geo)\<^sup>2"

definition radial_at :: "real gradient_geometry \<Rightarrow> real \<Rightarrow> real \<Rightarrow> real radial" where
  "radial_at geo x y = \<lparr>rU = 65536 * root_u geo x y, rdU = 65536 * (root_u geo (x + 1) y - root_u geo x y), rV = 65536\<^sup>2 * root_v geo x y,
     rdV = 65536\<^sup>2 * (root_v geo (x + 1) y - root_v geo x y),
     rddV = 65536\<^sup>2 * (root_v geo (x + 2) y - 2 * root_v geo (x + 1) y + root_v geo x y)\<rparr>"

text \<open>The differences of the code in terms of the distances \<open>p\<close>, \<open>q\<close> to the focus; \<open>a\<close>, \<open>b\<close> is the axis and \<open>k\<close>, \<open>l\<close> the step.\<close>

lemma differences:
  fixes a b p q k l r :: real
  defines "C \<equiv> a * a + b * b - r" and "B \<equiv> \<lambda>t. a * (p - t * k) + b * (q - t * l)" and "A \<equiv> \<lambda>t. (p - t * k)\<^sup>2 + (q - t * l)\<^sup>2"
  shows "2 * (k * l) * (a * b) + (k\<^sup>2 * (a * a - C) + k * (- B 0 * 2 * a + 2 * C * p)) + (l\<^sup>2 * (b * b - C) + l * (- B 0 * 2 * b + 2 * C * q))
      = ((B 1)\<^sup>2 - A 1 * C) - ((B 0)\<^sup>2 - A 0 * C)"
    and "2 * ((k\<^sup>2 + l\<^sup>2) * r - (k\<^sup>2 * (b * b) - 2 * (k * l) * (a * b) + l\<^sup>2 * (a * a)))
      = ((B 2)\<^sup>2 - A 2 * C) - 2 * ((B 1)\<^sup>2 - A 1 * C) + ((B 0)\<^sup>2 - A 0 * C)"
    and "k * a + l * b = B 0 - B 1"
  unfolding C_def B_def A_def by algebra+

lemma radial_start_at:
  assumes "radial_ok geo"
  shows "radial_start exact_arith geo x y = radial_at geo (of_int x) (of_int y)"
proof -
  let ?a = "rg_cx geo - rg_fx geo" and ?b = "rg_cy geo - rg_fy geo" and ?k = "rg_a00 geo" and ?l = "rg_a10 geo"
  let ?p = "rg_fx geo - paint_x geo (of_int x) (of_int y)" and ?q = "rg_fy geo - paint_y geo (of_int x) (of_int y)"
  let ?C = "qC geo"
  have p: "rg_a00a00 geo = rg_a00 geo ^ 2" "rg_a10a10 geo = rg_a10 geo ^ 2" "rg_a00a10 geo = rg_a00 geo * rg_a10 geo"
    using assms by (simp_all add: radial_ok_def)
  have C: "?C = ?a * ?a + ?b * ?b - rg_rsq geo" by (simp add: qC_def power2_eq_square)
  have sh: "qB geo (paint_x geo (of_int x + t) (of_int y)) (paint_y geo (of_int x + t) (of_int y)) = ?a * (?p - t * ?k) + ?b * (?q - t * ?l)"
    "qA geo (paint_x geo (of_int x + t) (of_int y)) (paint_y geo (of_int x + t) (of_int y)) = (?p - t * ?k)\<^sup>2 + (?q - t * ?l)\<^sup>2" for t
    unfolding qA_def qB_def paint_x_def paint_y_def by algebra+
  let ?B = "\<lambda>t. ?a * (?p - t * ?k) + ?b * (?q - t * ?l)" and ?A = "\<lambda>t. (?p - t * ?k)\<^sup>2 + (?q - t * ?l)\<^sup>2"
  let ?N = "\<lambda>t. (?B t)\<^sup>2 - ?A t * ?C"
  have start: "radial_start exact_arith geo x y = \<lparr>rU = 65536 * (- ?B 0 * (1 / ?C)), rdU = 65536 * ((?k * ?a + ?l * ?b) * (1 / ?C)),
      rV = 65536 * 65536 * (?N 0 * (1 / ?C * (1 / ?C))),
      rdV = 65536 * 65536 * ((2 * (?k * ?l) * (?a * ?b) + (?k\<^sup>2 * (?a * ?a - ?C) + ?k * (- ?B 0 * 2 * ?a + 2 * ?C * ?p))
         + (?l\<^sup>2 * (?b * ?b - ?C) + ?l * (- ?B 0 * 2 * ?b + 2 * ?C * ?q))) * (1 / ?C * (1 / ?C))),
      rddV = 65536 * 65536 * (2 * ((?k\<^sup>2 + ?l\<^sup>2) * rg_rsq geo - (?k\<^sup>2 * (?b * ?b) - 2 * (?k * ?l) * (?a * ?b) + ?l\<^sup>2 * (?a * ?a))) * (1 / ?C * (1 / ?C)))\<rparr>"
    unfolding radial_start_def Let_def exact_arith_simps p C
    by (simp add: paint_x_def paint_y_def power2_eq_square)
  have dif: "2 * (?k * ?l) * (?a * ?b) + (?k\<^sup>2 * (?a * ?a - ?C) + ?k * (- ?B 0 * 2 * ?a + 2 * ?C * ?p))
         + (?l\<^sup>2 * (?b * ?b - ?C) + ?l * (- ?B 0 * 2 * ?b + 2 * ?C * ?q)) = ?N 1 - ?N 0"
    "2 * ((?k\<^sup>2 + ?l\<^sup>2) * rg_rsq geo - (?k\<^sup>2 * (?b * ?b) - 2 * (?k * ?l) * (?a * ?b) + ?l\<^sup>2 * (?a * ?a))) = ?N 2 - 2 * ?N 1 + ?N 0"
    "?k * ?a + ?l * ?b = ?B 0 - ?B 1"
    unfolding C by (rule differences)+
  have "radial_at geo (of_int x) (of_int y) = \<lparr>rU = 65536 * (- ?B 0 / ?C), rdU = 65536 * ((- ?B 1 / ?C) - (- ?B 0 / ?C)), rV = 65536 ^ 2 * (?N 0 / ?C ^ 2),
          rdV = 65536 ^ 2 * (?N 1 / ?C ^ 2 - ?N 0 / ?C ^ 2), rddV = 65536 ^ 2 * (?N 2 / ?C ^ 2 - 2 * (?N 1 / ?C ^ 2) + ?N 0 / ?C ^ 2)\<rparr>"
    unfolding radial_at_def root_u_def root_v_def using sh [of 0] sh [of 1] sh [of 2] by simp
  then show ?thesis unfolding start dif
    by (simp add: diff_divide_distrib add_divide_distrib power2_eq_square)
qed

lemma qC_neg: "radial_ok geo \<Longrightarrow> qC geo < 0"
  by (simp add: radial_ok_def qC_def)

lemma disc_nonneg:
  assumes "radial_ok geo"
  shows "0 \<le> (qB geo px py)\<^sup>2 - qA geo px py * qC geo"
proof -
  have "qA geo px py * qC geo \<le> 0" using qC_neg [OF assms] by (intro mult_nonneg_nonpos) (simp_all add: qA_def)
  moreover have "0 \<le> (qB geo px py)\<^sup>2" by (rule zero_le_power2)
  ultimately show ?thesis by linarith
qed

lemma root_v_nonneg: "radial_ok geo \<Longrightarrow> 0 \<le> root_v geo x y"
  unfolding root_v_def by (intro divide_nonneg_nonneg disc_nonneg) simp_all

text \<open>The first part is linear along a row and the second quadratic.\<close>

lemma root_u_linear: "root_u geo (x + 2) y = 2 * root_u geo (x + 1) y - root_u geo x y"
proof -
  have "qB geo (paint_x geo (x + 2) y) (paint_y geo (x + 2) y)
      = 2 * qB geo (paint_x geo (x + 1) y) (paint_y geo (x + 1) y) - qB geo (paint_x geo x y) (paint_y geo x y)"
    unfolding qB_def paint_x_def paint_y_def by algebra
  then show ?thesis unfolding root_u_def by (simp add: diff_divide_distrib)
qed

lemma root_v_quadratic: "root_v geo (x + 3) y = 3 * root_v geo (x + 2) y - 3 * root_v geo (x + 1) y + root_v geo x y"
proof -
  have split: "a = 3 * b - 3 * c + d \<Longrightarrow> a / z = 3 * (b / z) - 3 * (c / z) + d / z" for a b c d z :: real
    by (simp add: add_divide_distrib diff_divide_distrib)
  show ?thesis unfolding root_v_def
    by (rule split, unfold qA_def qB_def paint_x_def paint_y_def, algebra)
qed

lemma radial_upd_at:
  assumes "radial_ok geo"
  shows "radial_upd exact_arith (radial_at geo x y) = radial_at geo (x + 1) y"
proof -
  have s: "x + 1 + 1 = x + 2" "x + 1 + 2 = x + 3" by simp_all
  have "\<not> rV (radial_at geo x y) < 0" using root_v_nonneg [OF assms] by (simp add: radial_at_def not_less)
  then show ?thesis
    by (simp add: radial_upd_def radial_V_def exact_arith_simps)
      (simp add: radial_at_def s root_u_linear root_v_quadratic)
qed

lemma radial_iter:
  assumes "radial_ok geo"
  shows "(radial_upd exact_arith ^^ i) (radial_start exact_arith geo x y) = radial_at geo (of_int x + of_nat i) (of_int y)"
  by (induction i) (simp_all add: radial_start_at [OF assms] radial_upd_at [OF assms] algebra_simps)

text \<open>
  The focal radial gradient: the value at a point is the \<open>g\<close> for which the point lies on the circle
  whose centre and radius are the fraction \<open>g\<close> of the way from the focus to the outer circle.
\<close>

definition on_circle :: "real gradient_geometry \<Rightarrow> real \<Rightarrow> real \<Rightarrow> real \<Rightarrow> bool" where
  "on_circle geo g px py \<longleftrightarrow>
     (px - (rg_fx geo + g * (rg_cx geo - rg_fx geo)))\<^sup>2 + (py - (rg_fy geo + g * (rg_cy geo - rg_fy geo)))\<^sup>2 = g\<^sup>2 * rg_rsq geo"

lemma on_circle_iff: "on_circle geo g px py \<longleftrightarrow> qC geo * g\<^sup>2 + 2 * g * qB geo px py + qA geo px py = 0"
  unfolding on_circle_def qA_def qB_def qC_def by (auto simp: power2_eq_square algebra_simps)

lemma nonneg_root:
  fixes A B C :: real
  assumes "C < 0" "0 \<le> A" "A = 0 \<longrightarrow> B = 0"
  defines "g \<equiv> - B / C + sqrt ((B\<^sup>2 - A * C) / C\<^sup>2)"
  shows "0 \<le> g" and "C * g\<^sup>2 + 2 * g * B + A = 0" and "0 \<le> g' \<Longrightarrow> C * g'\<^sup>2 + 2 * g' * B + A = 0 \<Longrightarrow> g' = g"
proof -
  define w where "w = sqrt (B\<^sup>2 - A * C)"
  have D: "B\<^sup>2 \<le> B\<^sup>2 - A * C" using mult_nonneg_nonpos [of A C] assms by simp
  then have "0 \<le> B\<^sup>2 - A * C" using zero_le_power2 [of B] by linarith
  then have w: "w\<^sup>2 = B\<^sup>2 - A * C" "\<bar>B\<bar> \<le> w" using real_sqrt_le_mono [OF D] by (simp_all add: w_def)
  have gw: "g * C = - B - w"
    using assms(1) by (simp add: g_def w_def real_sqrt_divide field_simps)
  then have g: "g = (B + w) / (- C)" using assms(1) by (simp add: field_simps)
  show "0 \<le> g" unfolding g using w(2) assms(1) by (intro divide_nonneg_pos) auto
  have "C * (C * g\<^sup>2 + 2 * g * B + A) = (g * C)\<^sup>2 + 2 * (g * C) * B + A * C" by algebra
  also have "\<dots> = w\<^sup>2 - B\<^sup>2 + A * C" unfolding gw by algebra
  finally show "C * g\<^sup>2 + 2 * g * B + A = 0" using w(1) assms(1) by simp
  assume g': "0 \<le> g'" "C * g'\<^sup>2 + 2 * g' * B + A = 0"
  have "(C * g' + B)\<^sup>2 = C * (C * g'\<^sup>2 + 2 * g' * B + A) + B\<^sup>2 - A * C" by algebra
  then have "(C * g' + B)\<^sup>2 = w\<^sup>2" using g'(2) w(1) by simp
  then consider "C * g' + B = - w" | "C * g' + B = w" by (auto simp: power2_eq_iff)
  then show "g' = g"
  proof cases
    case 1
    then have "C * g' = C * g" using gw by (simp add: mult.commute)
    then show ?thesis using assms(1) by simp
  next
    case 2
    moreover have "C * g' \<le> 0" using assms(1) g'(1) by (simp add: mult_nonpos_nonneg)
    ultimately have "C * g' = 0" "B = w" using w(2) by linarith+
    then have "g' = 0" using assms(1) by simp
    with g'(2) have "A = 0" by simp
    with assms(3) \<open>B = w\<close> \<open>g' = 0\<close> g show ?thesis by simp
  qed
qed



end
