(* ===== verification/PiscesTexture.thy ===== *)
theory PiscesTexture
  imports PiscesGradient
begin

unbundle bit_operations_syntax

text \<open>
  Paint generation of the software renderer, \<open>native-prism-sw/PiscesPaint.c\<close>, second part: texture
  paint. \<open>genTexturePaintTarget\<close> has one loop for each of three kinds of transform and six modes;
  the copies differ in the bounds check and in the texel they compute, which are the parameters
  here. A position is a \<open>jlong\<close> in 48.16 fixed point.
\<close>

section \<open>Model\<close>

datatype tex_mode =
    NO_REPEAT_NO_INTERPOLATE
  | REPEAT_NO_INTERPOLATE
  | NO_REPEAT_INTERPOLATE_NO_ALPHA
  | NO_REPEAT_INTERPOLATE_ALPHA
  | REPEAT_INTERPOLATE_NO_ALPHA
  | REPEAT_INTERPOLATE_ALPHA

fun repeats :: "tex_mode \<Rightarrow> bool" where
  "repeats REPEAT_NO_INTERPOLATE = True"
| "repeats REPEAT_INTERPOLATE_NO_ALPHA = True"
| "repeats REPEAT_INTERPOLATE_ALPHA = True"
| "repeats _ = False"

definition repeatInterpolateMode :: "'a painter_scheme \<Rightarrow> tex_mode" where
  "repeatInterpolateMode rdr =
     (if t_interpolate rdr then
        if t_hasAlpha rdr then if t_repeat rdr then REPEAT_INTERPOLATE_ALPHA else NO_REPEAT_INTERPOLATE_ALPHA
        else if t_repeat rdr then REPEAT_INTERPOLATE_NO_ALPHA else NO_REPEAT_INTERPOLATE_NO_ALPHA
      else if t_repeat rdr then REPEAT_NO_INTERPOLATE else NO_REPEAT_NO_INTERPOLATE)"

text \<open>The C remainder has the sign of the dividend.\<close>

definition c_rem :: "int \<Rightarrow> int \<Rightarrow> int" where
  "c_rem x y = sgn x * (\<bar>x\<bar> mod \<bar>y\<bar>)"

definition lmod :: "jlong \<Rightarrow> jlong \<Rightarrow> jlong option" where
  "lmod x y = (if y = 0 then None else let x = c_rem x y in Some (if x < 0 then i64 (x + y) else x))"

definition isInBoundsNoRepeat :: "jint \<Rightarrow> jint \<Rightarrow> jint \<Rightarrow> bool" where
  "isInBoundsNoRepeat a lo hi \<longleftrightarrow> \<not> (a < lo \<or> a > hi)"

definition checkBoundsRepeat :: "jint \<Rightarrow> jlong \<Rightarrow> jint \<Rightarrow> jint \<Rightarrow> (jint \<times> jlong) option" where
  "checkBoundsRepeat a la lo hi =
     (if a < lo \<or> a > hi then
        if hi \<ge> 0 then do { la \<leftarrow> lmod la (i32 (push_bit 16 (hi + 1))); Some (i32 (drop_bit 16 la), la) }
        else Some (0, 0)
      else Some (a, la))"

definition checkBoundsNoRepeat :: "jint \<Rightarrow> jint \<Rightarrow> jint \<Rightarrow> jint" where
  "checkBoundsNoRepeat a lo hi = (if a < lo then lo else if a > hi then hi else a)"

definition getPointsToInterpolate ::
    "jint list \<Rightarrow> jint \<Rightarrow> jint \<Rightarrow> jint \<Rightarrow> jint \<Rightarrow> jint \<Rightarrow> jint \<Rightarrow> jint \<Rightarrow> (jint \<times> jint \<times> jint) option" where
  "getPointsToInterpolate data sidx stride p00 tx txMax ty tyMax =
     (let sidx2 = (if ty \<ge> tyMax then sidx else i32 (sidx + stride));
          isXin = tx < txMax
      in do { p0 \<leftarrow> (if isXin then aget data (sidx + 1) else Some p00);
              p1 \<leftarrow> aget data sidx2;
              p2 \<leftarrow> (if isXin then aget data (sidx2 + 1) else aget data sidx2);
              Some (p0, p1, p2) })"

definition getPointsToInterpolateRepeat ::
    "jint list \<Rightarrow> jint \<Rightarrow> jint \<Rightarrow> jint \<Rightarrow> jint \<Rightarrow> jint \<Rightarrow> jint \<Rightarrow> jint \<Rightarrow> (jint \<times> jint \<times> jint) option" where
  "getPointsToInterpolateRepeat data sidx stride p00 tx txMax ty tyMax =
     (let sidx2 = (if ty \<ge> tyMax then max tx 0 else i32 (sidx + stride));
          isXin = tx < txMax
      in do { p0 \<leftarrow> (if isXin then aget data (sidx + 1) else aget data (sidx - max tx 0));
              p1 \<leftarrow> aget data sidx2;
              p2 \<leftarrow> (if isXin then aget data (sidx2 + 1) else aget data (sidx2 - max tx 0));
              Some (p0, p1, p2) })"

text \<open>The colour of a pixel from its four neighbours, with the cases in which an offset is zero.\<close>

definition cval_alpha :: "jint \<Rightarrow> jint \<times> jint \<times> jint \<Rightarrow> jint \<Rightarrow> jint \<Rightarrow> jint" where
  "cval_alpha p00 pts hfrac vfrac = (case pts of (p0, p1, p2) \<Rightarrow>
     if hfrac \<noteq> 0 \<and> vfrac \<noteq> 0 then interpolate4points p00 p0 p1 p2 hfrac vfrac
     else if hfrac \<noteq> 0 then interpolate2points p00 p0 hfrac
     else if vfrac \<noteq> 0 then interpolate2points p00 p1 vfrac
     else p00)"

definition cval_no_alpha :: "jint \<Rightarrow> jint \<times> jint \<times> jint \<Rightarrow> jint \<Rightarrow> jint \<Rightarrow> jint" where
  "cval_no_alpha p00 pts hfrac vfrac = (case pts of (p0, p1, p2) \<Rightarrow>
     if hfrac \<noteq> 0 \<and> vfrac \<noteq> 0 then interpolate4pointsNoAlpha p00 p0 p1 p2 hfrac vfrac
     else if hfrac \<noteq> 0 then interpolate2pointsNoAlpha p00 p0 hfrac
     else if vfrac \<noteq> 0 then interpolate2pointsNoAlpha p00 p1 vfrac
     else p00)"

text \<open>The texel of a mode at an already checked position.\<close>

definition texel_at :: "tex_mode \<Rightarrow> 'a painter_scheme \<Rightarrow> jint \<Rightarrow> jint \<Rightarrow> jint \<Rightarrow> jint \<Rightarrow> jint option" where
  "texel_at mode rdr tx ty hfrac vfrac =
     (let sidx = i32 (max 0 ty * t_stride rdr + max 0 tx)
      in do { p00 \<leftarrow> aget (t_intData rdr) sidx;
              let txM = i32 (t_imageWidth rdr - 1);
              let tyM = i32 (t_imageHeight rdr - 1);
              case mode of
                NO_REPEAT_NO_INTERPOLATE \<Rightarrow> Some p00
              | REPEAT_NO_INTERPOLATE \<Rightarrow> Some p00
              | NO_REPEAT_INTERPOLATE_ALPHA \<Rightarrow>
                  do { pts \<leftarrow> getPointsToInterpolate (t_intData rdr) sidx (t_stride rdr) p00 tx txM ty tyM;
                       Some (cval_alpha p00 pts hfrac vfrac) }
              | NO_REPEAT_INTERPOLATE_NO_ALPHA \<Rightarrow>
                  do { pts \<leftarrow> getPointsToInterpolate (t_intData rdr) sidx (t_stride rdr) p00 tx txM ty tyM;
                       Some (cval_no_alpha p00 pts hfrac vfrac) }
              | REPEAT_INTERPOLATE_ALPHA \<Rightarrow>
                  do { pts \<leftarrow> getPointsToInterpolateRepeat (t_intData rdr) sidx (t_stride rdr) p00 tx txM ty tyM;
                       Some (cval_alpha p00 pts hfrac vfrac) }
              | REPEAT_INTERPOLATE_NO_ALPHA \<Rightarrow>
                  do { pts \<leftarrow> getPointsToInterpolateRepeat (t_intData rdr) sidx (t_stride rdr) p00 tx txM ty tyM;
                       Some (cval_no_alpha p00 pts hfrac vfrac) } })"

definition checkBounds :: "bool \<Rightarrow> jint \<Rightarrow> jlong \<Rightarrow> jint \<Rightarrow> jint \<Rightarrow> (jint \<times> jlong) option" where
  "checkBounds rep a la lo hi =
     (if rep then checkBoundsRepeat a la lo hi else Some (checkBoundsNoRepeat a lo hi, la))"

subsection \<open>Translation\<close>

definition translate_step :: "tex_mode \<Rightarrow> 'a painter_scheme \<Rightarrow> jint \<Rightarrow> jint \<Rightarrow> jint \<Rightarrow> jlong \<Rightarrow> (jint \<times> jlong) option" where
  "translate_step mode rdr ty hfrac vfrac ltx =
     do { (tx, ltx) \<leftarrow> checkBounds (repeats mode) (i32 (drop_bit 16 ltx)) ltx (i32 (t_txMin rdr - 1)) (t_txMax rdr);
          v \<leftarrow> texel_at mode rdr tx ty hfrac vfrac;
          Some (v, i64 (ltx + 0x10000)) }"

text \<open>
  The copying loop: the texels left of the texture, the part that is copied, and the rest. The
  arguments are the number of cells left, the next cell and the column.
\<close>

fun copy_left :: "jint list \<Rightarrow> jint \<Rightarrow> jint \<Rightarrow> nat \<Rightarrow> jint \<Rightarrow> jint \<Rightarrow> jint list \<Rightarrow> (nat \<times> jint \<times> jint \<times> jint list) option" where
  "copy_left data txtRow txMin 0 a tx paint = Some (0, a, tx, paint)"
| "copy_left data txtRow txMin (Suc n) a tx paint =
     (if tx < txMin then
        do { v \<leftarrow> aget data (txtRow + txMin);
             paint' \<leftarrow> aset paint a v;
             copy_left data txtRow txMin n (a + 1) (i32 (tx + 1)) paint' }
      else Some (Suc n, a, tx, paint))"

definition copy_row :: "'a painter_scheme \<Rightarrow> jint \<Rightarrow> jint \<Rightarrow> jint \<Rightarrow> jint list \<Rightarrow> jint list option" where
  "copy_row rdr tx ty pidx paint =
     (let txtRow = i32 (max 0 ty * t_stride rdr)
      in do { (n, a, tx, paint) \<leftarrow> copy_left (t_intData rdr) txtRow (t_txMin rdr) (nat (r_alphaWidth rdr)) pidx tx paint;
              let len = min (int n) (i32 (t_txMax rdr - tx + 1));
              (n, a, paint) \<leftarrow> (if len > 0 then
                  do { cells \<leftarrow> aread (t_intData rdr) (txtRow + tx) (nat len);
                       paint \<leftarrow> awrite paint a cells;
                       Some (n - nat len, a + len, paint) }
                else Some (n, a, paint));
              fill_span (\<lambda>_. do { v \<leftarrow> aget (t_intData rdr) (txtRow + t_txMax rdr); Some (v, ()) }) n a () paint })"

definition translate_row :: "tex_mode \<Rightarrow> 'a painter_scheme \<Rightarrow> jint \<Rightarrow> jint \<Rightarrow> jint list \<Rightarrow> jint list option" where
  "translate_row mode rdr y paintOffset paint =
     (let ltx = i64 (i32 (push_bit 16 (r_currX rdr)) + t_m02 rdr);
          lty = i64 (i32 (push_bit 16 y) + t_m12 rdr);
          hfrac = ltx AND 0xffff; vfrac = lty AND 0xffff
      in do { (ty, lty) \<leftarrow> checkBounds (t_repeat rdr) (i32 (drop_bit 16 lty)) lty (i32 (t_tyMin rdr - 1)) (t_tyMax rdr);
              if mode = NO_REPEAT_NO_INTERPOLATE then copy_row rdr (i32 (drop_bit 16 ltx)) ty paintOffset paint
              else fill_span (translate_step mode rdr ty hfrac vfrac) (nat (r_alphaWidth rdr)) paintOffset ltx paint })"

subsection \<open>Scaling and general transforms\<close>

definition scale_step :: "tex_mode \<Rightarrow> 'a painter_scheme \<Rightarrow> jlong \<times> jlong \<Rightarrow> (jint \<times> jlong \<times> jlong) option" where
  "scale_step mode rdr = (\<lambda>(ltx, lty).
     let hfrac = ltx AND 0xffff; vfrac = lty AND 0xffff
     in do { (tx, ltx) \<leftarrow> checkBounds (repeats mode) (i32 (drop_bit 16 ltx)) ltx (i32 (t_txMin rdr - 1)) (t_txMax rdr);
             (ty, lty) \<leftarrow> checkBounds (repeats mode) (i32 (drop_bit 16 lty)) lty (i32 (t_tyMin rdr - 1)) (t_tyMax rdr);
             v \<leftarrow> texel_at mode rdr tx ty hfrac vfrac;
             Some (v, i64 (ltx + t_m00 rdr), i64 (lty + t_m10 rdr)) })"

definition generic_step :: "tex_mode \<Rightarrow> 'a painter_scheme \<Rightarrow> jlong \<times> jlong \<Rightarrow> (jint \<times> jlong \<times> jlong) option" where
  "generic_step mode rdr = (\<lambda>(ltx, lty).
     if repeats mode then scale_step mode rdr (ltx, lty)
     else
       let tx = i32 (drop_bit 16 ltx); ty = i32 (drop_bit 16 lty);
           hfrac = ltx AND 0xffff; vfrac = lty AND 0xffff
       in do { v \<leftarrow> (if isInBoundsNoRepeat tx (i32 (t_txMin rdr - 1)) (t_txMax rdr)
                         \<and> isInBoundsNoRepeat ty (i32 (t_tyMin rdr - 1)) (t_tyMax rdr)
                     then texel_at mode rdr tx ty hfrac vfrac else Some 0);
               Some (v, i64 (ltx + t_m00 rdr), i64 (lty + t_m10 rdr)) })"

definition matrix_row ::
    "(jlong \<times> jlong \<Rightarrow> (jint \<times> jlong \<times> jlong) option) \<Rightarrow> 'a painter_scheme \<Rightarrow> jint \<Rightarrow> jint \<Rightarrow> jint list \<Rightarrow> jint list option" where
  "matrix_row step rdr y paintOffset paint =
     (let x = r_currX rdr;
          ltx = i64 (x * t_m00 rdr + y * t_m01 rdr + t_m02 rdr);
          lty = i64 (x * t_m10 rdr + y * t_m11 rdr + t_m12 rdr)
      in fill_span step (nat (r_alphaWidth rdr)) paintOffset (ltx, lty) paint)"

definition TEXTURE_TRANSFORM_IDENTITY :: jint where "TEXTURE_TRANSFORM_IDENTITY = 1"
definition TEXTURE_TRANSFORM_TRANSLATE :: jint where "TEXTURE_TRANSFORM_TRANSLATE = 2"
definition TEXTURE_TRANSFORM_SCALE_TRANSLATE :: jint where "TEXTURE_TRANSFORM_SCALE_TRANSLATE = 3"
definition TEXTURE_TRANSFORM_GENERIC :: jint where "TEXTURE_TRANSFORM_GENERIC = 4"

definition genTexturePaintTarget :: "'a painter_scheme \<Rightarrow> jint list \<Rightarrow> jint \<Rightarrow> jint list option" where
  "genTexturePaintTarget rdr paint height =
     (let mode = repeatInterpolateMode rdr;
          rows = (\<lambda>row. fill_rows (\<lambda>j. row (i32 (r_currY rdr + int j))) (r_alphaWidth rdr) (nat height) 0 0 paint);
          ty = t_transformType rdr
      in if ty = TEXTURE_TRANSFORM_IDENTITY \<or> ty = TEXTURE_TRANSFORM_TRANSLATE then rows (translate_row mode rdr)
         else if ty = TEXTURE_TRANSFORM_SCALE_TRANSLATE then rows (matrix_row (scale_step mode rdr) rdr)
         else if ty = TEXTURE_TRANSFORM_GENERIC then rows (matrix_row (generic_step mode rdr) rdr)
         else Some paint)"

definition genTexturePaint :: "'a painter_scheme \<Rightarrow> jint \<Rightarrow> jint list option" where
  "genTexturePaint rdr height = genTexturePaintTarget rdr (r_paint rdr) height"

subsection \<open>A texture multiplied with the previous paint\<close>

definition PAINT_FLAT_COLOR :: jint where "PAINT_FLAT_COLOR = 0"
definition PAINT_LINEAR_GRADIENT :: jint where "PAINT_LINEAR_GRADIENT = 1"
definition PAINT_RADIAL_GRADIENT :: jint where "PAINT_RADIAL_GRADIENT = 2"

text \<open>The pixel rules: a white colour only fades the texture, another one tints it as well.\<close>

definition fade_px :: "jint \<Rightarrow> jint \<Rightarrow> jint" where
  "fade_px palpha_1 t =
     pack (drop_bit 8 (i32 (palpha_1 * px_A t))) (drop_bit 8 (i32 (palpha_1 * px_R t)))
       (drop_bit 8 (i32 (palpha_1 * px_G t))) (drop_bit 8 (i32 (palpha_1 * px_B t)))"

definition tint_px :: "jint \<Rightarrow> jint \<Rightarrow> jint \<Rightarrow> jint \<Rightarrow> jint \<Rightarrow> jint" where
  "tint_px palpha_1 cred cgreen cblue t =
     pack (drop_bit 8 (i32 (palpha_1 * px_A t)))
       (drop_bit 8 (i32 (drop_bit 8 (i32 ((cred + 1) * px_R t)) * palpha_1)))
       (drop_bit 8 (i32 (drop_bit 8 (i32 ((cgreen + 1) * px_G t)) * palpha_1)))
       (drop_bit 8 (i32 (drop_bit 8 (i32 ((cblue + 1) * px_B t)) * palpha_1)))"

fun map_span :: "(jint \<Rightarrow> jint \<Rightarrow> jint option) \<Rightarrow> nat \<Rightarrow> jint \<Rightarrow> jint list \<Rightarrow> jint list option" where
  "map_span f 0 k paint = Some paint"
| "map_span f (Suc n) k paint =
     do { v \<leftarrow> aget paint k; v' \<leftarrow> f k v; paint' \<leftarrow> aset paint k v'; map_span f n (k + 1) paint' }"

definition map_rows :: "(jint \<Rightarrow> jint \<Rightarrow> jint option) \<Rightarrow> jint \<Rightarrow> jint \<Rightarrow> jint \<Rightarrow> jint list \<Rightarrow> jint list option" where
  "map_rows f paintStride w height paint =
     fill_rows (\<lambda>i _. map_span f (nat w) (i32 (int i * paintStride))) paintStride (nat height) 0 0 paint"

text \<open>
  \<open>block\<close> is what \<open>my_malloc\<close> answers for the texture, \<open>fl\<close> and \<open>geo\<close> the arithmetic and the geometry of
  the gradient.
  A failed allocation and invalid dimensions leave the paint as it is.
\<close>

definition genTexturePaintMultiply ::
    "('f, 'd) arith \<Rightarrow> 'f gradient_geometry \<Rightarrow> jint list option \<Rightarrow> 'a painter_scheme \<Rightarrow> jint \<Rightarrow> jint list option" where
  "genTexturePaintMultiply fl geo block rdr height =
     (let w = i32 (r_maxTouched rdr - r_minTouched rdr + 1);
          paintStride = r_alphaWidth rdr;
          mode = t_prevPaintMode rdr
      in if mode = PAINT_FLAT_COLOR then
           do { paint \<leftarrow> genTexturePaintTarget rdr (r_paint rdr) height;
                let palpha_1 = i32 (r_calpha rdr + 1);
                if r_cred rdr = 0xFF \<and> r_cgreen rdr = 0xFF \<and> r_cblue rdr = 0xFF then
                  if r_calpha rdr < 0xFF then map_rows (\<lambda>_ t. Some (fade_px palpha_1 t)) paintStride w height paint
                  else Some paint
                else map_rows (\<lambda>_ t. Some (tint_px palpha_1 (r_cred rdr) (r_cgreen rdr) (r_cblue rdr) t)) paintStride w height paint }
         else if mode = PAINT_LINEAR_GRADIENT \<or> mode = PAINT_RADIAL_GRADIENT then
           if w > 0 \<and> height > 0 \<and> w < (2 ^ 31 - 1) div height div 4 then
             (case block of
                None \<Rightarrow> Some (r_paint rdr)
              | Some imagePaint \<Rightarrow>
                  do { paint \<leftarrow> (if mode = PAINT_LINEAR_GRADIENT then genLinearGradientPaint fl geo rdr height
                                 else genRadialGradientPaint fl geo rdr height);
                       imagePaint \<leftarrow> genTexturePaintTarget rdr imagePaint height;
                       map_rows (\<lambda>k p. do { t \<leftarrow> aget imagePaint k;
                           Some (tint_px (px_A p + 1) (px_R p) (px_G p) (px_B p) t) }) paintStride w height paint })
           else Some (r_paint rdr)
         else Some (r_paint rdr))"

section \<open>Every access is inside the texture\<close>

text \<open>
  A well-formed texture: the rows are in the array and indices do not overflow, the sub-texture lies
  in the image, its pixels are premultiplied, and where the mode interpolates it has at least two rows
  and two columns. Repeating needs sides below \<open>2^15\<close>, because the period is computed in 32 bits.
\<close>

definition texture_ok :: "'a painter_scheme \<Rightarrow> bool" where
  "texture_ok rdr \<longleftrightarrow> 0 < t_imageWidth rdr \<and> 0 < t_imageHeight rdr \<and> t_imageWidth rdr \<le> t_stride rdr
     \<and> t_imageHeight rdr * t_stride rdr < 2 ^ 31
     \<and> (t_imageHeight rdr - 1) * t_stride rdr + t_imageWidth rdr \<le> int (length (t_intData rdr))
     \<and> 0 \<le> t_txMin rdr \<and> t_txMin rdr \<le> t_txMax rdr \<and> t_txMax rdr < t_imageWidth rdr
     \<and> 0 \<le> t_tyMin rdr \<and> t_tyMin rdr \<le> t_tyMax rdr \<and> t_tyMax rdr < t_imageHeight rdr
     \<and> (t_repeat rdr \<longrightarrow> t_txMax rdr < 32767 \<and> t_tyMax rdr < 32767)
     \<and> (t_interpolate rdr \<longrightarrow> 2 \<le> t_imageWidth rdr \<and> 2 \<le> t_imageHeight rdr)
     \<and> list_all px_ok (t_intData rdr)"

definition tex_px :: "'a painter_scheme \<Rightarrow> int \<Rightarrow> int \<Rightarrow> jint" where
  "tex_px rdr r c = t_intData rdr ! nat (r * t_stride rdr + c)"

lemma tex_index:
  assumes "texture_ok rdr" "0 \<le> r" "r < t_imageHeight rdr" "0 \<le> c" "c < t_imageWidth rdr"
  shows "0 \<le> r * t_stride rdr + c" "r * t_stride rdr + c < int (length (t_intData rdr))" "r * t_stride rdr + c < 2 ^ 31"
proof -
  have t: "t_imageWidth rdr \<le> t_stride rdr" "0 < t_imageWidth rdr" "t_imageHeight rdr * t_stride rdr < 2 ^ 31"
    "(t_imageHeight rdr - 1) * t_stride rdr + t_imageWidth rdr \<le> int (length (t_intData rdr))"
    using assms(1) by (auto simp: texture_ok_def)
  have r: "r * t_stride rdr \<le> (t_imageHeight rdr - 1) * t_stride rdr" using t assms(3) by (intro mult_right_mono) auto
  show "0 \<le> r * t_stride rdr + c" using t assms by auto
  show "r * t_stride rdr + c < int (length (t_intData rdr))" using r t assms by linarith
  have "(t_imageHeight rdr - 1) * t_stride rdr = t_imageHeight rdr * t_stride rdr - t_stride rdr" by (simp add: algebra_simps)
  then show "r * t_stride rdr + c < 2 ^ 31" using r t assms by linarith
qed

lemma tex_sides:
  assumes "texture_ok rdr"
  shows "t_imageWidth rdr < 2 ^ 31" "t_imageHeight rdr < 2 ^ 31"
proof -
  have t: "0 < t_imageWidth rdr" "0 < t_imageHeight rdr" "t_imageWidth rdr \<le> t_stride rdr" "t_imageHeight rdr * t_stride rdr < 2 ^ 31"
    using assms by (auto simp: texture_ok_def)
  have "t_imageHeight rdr * 1 \<le> t_imageHeight rdr * t_stride rdr" using t by (intro mult_left_mono) auto
  moreover have "1 * t_stride rdr \<le> t_imageHeight rdr * t_stride rdr" using t by (intro mult_right_mono) auto
  ultimately show "t_imageWidth rdr < 2 ^ 31" "t_imageHeight rdr < 2 ^ 31" using t by linarith+
qed

lemma tex_get:
  assumes "texture_ok rdr" "0 \<le> r" "r < t_imageHeight rdr" "0 \<le> c" "c < t_imageWidth rdr"
  shows "aget (t_intData rdr) (r * t_stride rdr + c) = Some (tex_px rdr r c)"
    and "i32 (r * t_stride rdr + c) = r * t_stride rdr + c" and "px_ok (tex_px rdr r c)"
proof -
  note b = tex_index [OF assms]
  show "aget (t_intData rdr) (r * t_stride rdr + c) = Some (tex_px rdr r c)" using b by (simp add: aget_in tex_px_def)
  show "i32 (r * t_stride rdr + c) = r * t_stride rdr + c" using b by (simp add: i32_small)
  show "px_ok (tex_px rdr r c)" using assms(1) b by (auto simp: texture_ok_def tex_px_def list_all_length)
qed

lemma c_rem_pos: "0 < y \<Longrightarrow> c_rem x y = (if 0 \<le> x then x mod y else - ((- x) mod y))"
  by (cases "x = 0") (auto simp: c_rem_def sgn_if)

lemma lmod_pos:
  assumes "0 < y" "y < 2 ^ 62"
  shows "lmod x y = Some (x mod y)"
proof (cases "0 \<le> x")
  case True
  moreover have "\<not> x mod y < 0" using assms by (simp add: not_less)
  ultimately show ?thesis using assms by (simp add: lmod_def c_rem_pos Let_def)
next
  case False
  define r where "r = (- x) mod y"
  have r: "0 \<le> r" "r < y" using assms by (auto simp: r_def)
  have "x mod y = (if r = 0 then 0 else y - r)" unfolding r_def using zmod_zminus1_eq_if [of "- x" y] by simp
  moreover have "i64 (- r + y) = y - r" using r assms by (subst i64_small) auto
  ultimately show ?thesis using False assms r by (auto simp: lmod_def c_rem_pos Let_def simp flip: r_def)
qed

lemma checkBounds_ok:
  assumes "-1 \<le> lo" "lo \<le> hi" "0 \<le> hi" "rep \<Longrightarrow> hi < 32767"
  shows "\<exists>a' la'. checkBounds rep a la lo hi = Some (a', la') \<and> -1 \<le> a' \<and> a' \<le> hi"
proof (cases "rep \<and> (a < lo \<or> a > hi)")
  case True
  define m where "m = (hi + 1) * 65536"
  have m: "i32 (push_bit 16 (hi + 1)) = m" "0 < m" "m < 2 ^ 31"
    using assms(3,4) True by (auto simp: m_def push_bit_eq_mult i32_small)
  define l where "l = la mod m"
  have l: "0 \<le> l" "l < m" using m by (auto simp: l_def)
  have q: "l div 65536 \<le> hi" "0 \<le> l div 65536" using l by (simp_all add: m_def pos_imp_zdiv_nonneg_iff)
  then have "i32 (drop_bit 16 l) = l div 65536" using assms(4) True by (subst i32_small) (auto simp: drop_bit_eq_div)
  with q show ?thesis using True assms(3) m lmod_pos [of m la] by (auto simp: checkBounds_def checkBoundsRepeat_def simp flip: l_def)
qed (use assms in \<open>auto simp: checkBounds_def checkBoundsRepeat_def checkBoundsNoRepeat_def\<close>)

lemma px_ok_premult: "px_ok p \<Longrightarrow> premult p" and px_ok_i32: "px_ok p \<Longrightarrow> is_i32 p"
  by (simp_all add: px_ok_def)

lemma px_ok_interpolate4: "is_frac h \<Longrightarrow> is_frac v \<Longrightarrow> px_ok p00 \<Longrightarrow> px_ok p01 \<Longrightarrow> px_ok p10 \<Longrightarrow> px_ok p11 \<Longrightarrow>
    px_ok (interpolate4points p00 p01 p10 p11 h v)"
  by (auto simp: px_ok_def interpolate4points_eq premult_def is_chan_bilerp intro!: bilerp_mono)

lemma px_ok_interpolate2: "is_frac f \<Longrightarrow> px_ok p0 \<Longrightarrow> px_ok p1 \<Longrightarrow> px_ok (interpolate2points p0 p1 f)"
  by (auto simp: px_ok_def interpolate2points_eq premult_def is_chan_lerp intro!: lerp_mono)

lemma is_chan_opaque [simp]: "is_chan 255"
  by (simp add: is_chan_def)

lemma px_ok_no_alpha:
  "is_frac h \<Longrightarrow> is_frac v \<Longrightarrow> px_ok (interpolate4pointsNoAlpha p00 p01 p10 p11 h v)"
  "is_frac h \<Longrightarrow> px_ok (interpolate2pointsNoAlpha p00 p01 h)"
  by (auto simp: px_ok_def interpolate4pointsNoAlpha_def interpolate2pointsNoAlpha_def Let_def interp_eq is_chan_lerp
      intro!: premult_packI is_chanD(2) [OF is_chan_lerp])

lemma px_ok_cval:
  assumes "is_frac h" "is_frac v" "px_ok p00" "px_ok p0" "px_ok p1" "px_ok p2"
  shows "px_ok (cval_alpha p00 (p0, p1, p2) h v)" "px_ok (cval_no_alpha p00 (p0, p1, p2) h v)"
  using assms by (simp_all add: cval_alpha_def cval_no_alpha_def px_ok_interpolate4 px_ok_interpolate2 px_ok_no_alpha)

lemma points_ok:
  assumes "texture_ok rdr" "2 \<le> t_imageWidth rdr" "2 \<le> t_imageHeight rdr"
    and "-1 \<le> tx" "tx < t_imageWidth rdr" "-1 \<le> ty" "ty < t_imageHeight rdr" "px_ok p00"
    and sidx: "sidx = max 0 ty * t_stride rdr + max 0 tx"
  shows "\<exists>p0 p1 p2. getPointsToInterpolate (t_intData rdr) sidx (t_stride rdr) p00 tx (t_imageWidth rdr - 1) ty (t_imageHeight rdr - 1)
      = Some (p0, p1, p2) \<and> px_ok p0 \<and> px_ok p1 \<and> px_ok p2"
    and "\<exists>p0 p1 p2. getPointsToInterpolateRepeat (t_intData rdr) sidx (t_stride rdr) p00 tx (t_imageWidth rdr - 1) ty (t_imageHeight rdr - 1)
      = Some (p0, p1, p2) \<and> px_ok p0 \<and> px_ok p1 \<and> px_ok p2"
proof -
  let ?r = "max 0 ty" and ?c = "max 0 tx"
  define r2 where "r2 = (if ty \<ge> t_imageHeight rdr - 1 then ?r else ?r + 1)"
  define r3 where "r3 = (if ty \<ge> t_imageHeight rdr - 1 then 0 else ?r + 1)"
  have r: "0 \<le> ?r" "?r < t_imageHeight rdr" "0 \<le> r2" "r2 < t_imageHeight rdr" "0 \<le> r3" "r3 < t_imageHeight rdr"
    and c: "0 \<le> ?c" "?c < t_imageWidth rdr" "tx < t_imageWidth rdr - 1 \<Longrightarrow> ?c + 1 < t_imageWidth rdr" "0 < t_imageWidth rdr"
    using assms(2-7) by (auto simp: r2_def r3_def)
  have s2: "(if ty \<ge> t_imageHeight rdr - 1 then sidx else i32 (sidx + t_stride rdr)) = r2 * t_stride rdr + ?c"
    using tex_get(2) [OF assms(1) r(3,4) c(1,2)] by (auto simp: r2_def sidx algebra_simps)
  have s3: "(if ty \<ge> t_imageHeight rdr - 1 then max tx 0 else i32 (sidx + t_stride rdr)) = r3 * t_stride rdr + ?c"
    using tex_get(2) [OF assms(1) r(5,6) c(1,2)] by (auto simp: r3_def sidx algebra_simps max.commute)
  have e: "r * t_stride rdr + ?c + 1 = r * t_stride rdr + (?c + 1)" "r * t_stride rdr + ?c - max tx 0 = r * t_stride rdr + 0" for r
    by (simp_all add: max.commute)
  show "\<exists>p0 p1 p2. getPointsToInterpolate (t_intData rdr) sidx (t_stride rdr) p00 tx (t_imageWidth rdr - 1) ty (t_imageHeight rdr - 1)
      = Some (p0, p1, p2) \<and> px_ok p0 \<and> px_ok p1 \<and> px_ok p2"
    using tex_get [OF assms(1) r(1,2), of "?c + 1"] tex_get [OF assms(1) r(3,4) c(1,2)] tex_get [OF assms(1) r(3,4), of "?c + 1"] c assms(8)
    unfolding getPointsToInterpolate_def Let_def s2 unfolding sidx e by auto
  show "\<exists>p0 p1 p2. getPointsToInterpolateRepeat (t_intData rdr) sidx (t_stride rdr) p00 tx (t_imageWidth rdr - 1) ty (t_imageHeight rdr - 1)
      = Some (p0, p1, p2) \<and> px_ok p0 \<and> px_ok p1 \<and> px_ok p2"
    using tex_get [OF assms(1) r(1,2), of "?c + 1"] tex_get [OF assms(1) r(1,2), of 0] tex_get [OF assms(1) r(5,6) c(1,2)]
      tex_get [OF assms(1) r(5,6), of "?c + 1"] tex_get [OF assms(1) r(5,6), of 0] c
    unfolding getPointsToInterpolateRepeat_def Let_def s3 unfolding sidx e by auto
qed

text \<open>The modes that interpolate.\<close>

fun smooth :: "tex_mode \<Rightarrow> bool" where
  "smooth NO_REPEAT_NO_INTERPOLATE = False"
| "smooth REPEAT_NO_INTERPOLATE = False"
| "smooth _ = True"

lemma mode_facts [simp]:
  "repeats (repeatInterpolateMode rdr) = t_repeat rdr" "smooth (repeatInterpolateMode rdr) = t_interpolate rdr"
  by (simp_all add: repeatInterpolateMode_def)

lemma texel_ok:
  assumes "texture_ok rdr" "smooth mode \<Longrightarrow> t_interpolate rdr" "-1 \<le> tx" "tx \<le> t_txMax rdr" "-1 \<le> ty" "ty \<le> t_tyMax rdr"
    and "is_frac h" "is_frac v"
  shows "\<exists>p. texel_at mode rdr tx ty h v = Some p \<and> px_ok p"
proof -
  have t: "tx < t_imageWidth rdr" "ty < t_imageHeight rdr" "0 < t_imageWidth rdr" "0 < t_imageHeight rdr"
    using assms(1,4,6) by (auto simp: texture_ok_def)
  have m: "i32 (t_imageWidth rdr - 1) = t_imageWidth rdr - 1" "i32 (t_imageHeight rdr - 1) = t_imageHeight rdr - 1"
    using t tex_sides [OF assms(1)] by (auto intro!: i32_small)
  let ?s = "max 0 ty * t_stride rdr + max 0 tx"
  have g: "aget (t_intData rdr) ?s = Some (tex_px rdr (max 0 ty) (max 0 tx))" "i32 ?s = ?s" "px_ok (tex_px rdr (max 0 ty) (max 0 tx))"
    using tex_get [OF assms(1), of "max 0 ty" "max 0 tx"] t by auto
  show ?thesis
  proof (cases "smooth mode")
    case True
    then have two: "2 \<le> t_imageWidth rdr" "2 \<le> t_imageHeight rdr" using assms(1,2) by (auto simp: texture_ok_def)
    note p = points_ok [OF assms(1) two assms(3) t(1) assms(5) t(2) g(3) refl]
    from p(1) p(2) show ?thesis
      by (cases mode) (use True g m px_ok_cval [OF assms(7,8) g(3)] in \<open>auto simp: texel_at_def Let_def\<close>)
  next
    case False
    then show ?thesis using g by (cases mode) (auto simp: texel_at_def Let_def)
  qed
qed

lemma is_frac_and [simp]: "is_frac (x AND 0xffff)"
  by (simp add: is_frac_def and_mask)

lemma bounds_x:
  assumes "texture_ok rdr"
  shows "\<exists>a' la'. checkBounds (t_repeat rdr) a la (i32 (t_txMin rdr - 1)) (t_txMax rdr) = Some (a', la') \<and> -1 \<le> a' \<and> a' \<le> t_txMax rdr"
    "\<exists>a' la'. checkBounds (t_repeat rdr) a la (i32 (t_tyMin rdr - 1)) (t_tyMax rdr) = Some (a', la') \<and> -1 \<le> a' \<and> a' \<le> t_tyMax rdr"
    "-1 \<le> i32 (t_txMin rdr - 1)" "-1 \<le> i32 (t_tyMin rdr - 1)"
proof -
  have "t_txMin rdr < 2 ^ 31" "t_tyMin rdr < 2 ^ 31"
    using assms tex_sides [OF assms] unfolding texture_ok_def by linarith+
  then have i: "i32 (t_txMin rdr - 1) = t_txMin rdr - 1" "i32 (t_tyMin rdr - 1) = t_tyMin rdr - 1"
    using assms by (auto intro!: i32_id simp: is_i32_def texture_ok_def)
  show "-1 \<le> i32 (t_txMin rdr - 1)" "-1 \<le> i32 (t_tyMin rdr - 1)" using i assms by (auto simp: texture_ok_def)
  show "\<exists>a' la'. checkBounds (t_repeat rdr) a la (i32 (t_txMin rdr - 1)) (t_txMax rdr) = Some (a', la') \<and> -1 \<le> a' \<and> a' \<le> t_txMax rdr"
    by (rule checkBounds_ok) (use i assms in \<open>auto simp: texture_ok_def\<close>)
  show "\<exists>a' la'. checkBounds (t_repeat rdr) a la (i32 (t_tyMin rdr - 1)) (t_tyMax rdr) = Some (a', la') \<and> -1 \<le> a' \<and> a' \<le> t_tyMax rdr"
    by (rule checkBounds_ok) (use i assms in \<open>auto simp: texture_ok_def\<close>)
qed

lemma scale_step_ok:
  assumes "texture_ok rdr"
  shows "\<exists>p s'. scale_step (repeatInterpolateMode rdr) rdr s = Some (p, s') \<and> px_ok p"
proof (cases s)
  case (Pair ltx lty)
  from bounds_x(1) [OF assms, of "i32 (drop_bit 16 ltx)" ltx] bounds_x(2) [OF assms, of "i32 (drop_bit 16 lty)" lty]
  obtain tx ltx' ty lty' where
    b: "checkBounds (t_repeat rdr) (i32 (drop_bit 16 ltx)) ltx (i32 (t_txMin rdr - 1)) (t_txMax rdr) = Some (tx, ltx')" "-1 \<le> tx" "tx \<le> t_txMax rdr"
      "checkBounds (t_repeat rdr) (i32 (drop_bit 16 lty)) lty (i32 (t_tyMin rdr - 1)) (t_tyMax rdr) = Some (ty, lty')" "-1 \<le> ty" "ty \<le> t_tyMax rdr"
    by blast
  from texel_ok [OF assms, of "repeatInterpolateMode rdr" tx ty "ltx AND 0xffff" "lty AND 0xffff"] b
  show ?thesis unfolding Pair by (auto simp: scale_step_def Let_def)
qed

lemma generic_step_ok:
  assumes "texture_ok rdr"
  shows "\<exists>p s'. generic_step (repeatInterpolateMode rdr) rdr s = Some (p, s') \<and> px_ok p"
proof (cases "t_repeat rdr")
  case True
  with scale_step_ok [OF assms, of s] show ?thesis by (cases s) (simp add: generic_step_def)
next
  case False
  obtain ltx lty where s: "s = (ltx, lty)" by (cases s)
  let ?tx = "i32 (drop_bit 16 ltx)" and ?ty = "i32 (drop_bit 16 lty)"
  have z: "px_ok 0" by (simp add: px_ok_def premult_def px_A_def px_R_def px_G_def px_B_def is_i32_def)
  from False z texel_ok [OF assms, of "repeatInterpolateMode rdr" ?tx ?ty "ltx AND 0xffff" "lty AND 0xffff"] bounds_x(3,4) [OF assms]
  show ?thesis unfolding s by (auto simp: generic_step_def Let_def isInBoundsNoRepeat_def)
qed

lemma translate_step_ok:
  assumes "texture_ok rdr" "-1 \<le> ty" "ty \<le> t_tyMax rdr" "is_frac h" "is_frac v"
  shows "\<exists>p s'. translate_step (repeatInterpolateMode rdr) rdr ty h v ltx = Some (p, s') \<and> px_ok p"
proof -
  from bounds_x(1) [OF assms(1), of "i32 (drop_bit 16 ltx)" ltx] obtain tx ltx' where
    b: "checkBounds (t_repeat rdr) (i32 (drop_bit 16 ltx)) ltx (i32 (t_txMin rdr - 1)) (t_txMax rdr) = Some (tx, ltx')" "-1 \<le> tx" "tx \<le> t_txMax rdr"
    by blast
  with texel_ok [OF assms(1), of "repeatInterpolateMode rdr" tx ty h v] assms show ?thesis
    by (auto simp: translate_step_def)
qed

subsection \<open>The copying loop\<close>

lemma filled_span_append:
  assumes "filled_span paint off m val p1" "filled_span p1 (off + m) n (\<lambda>i. val (m + i)) p2"
  shows "filled_span paint off (m + n) val p2"
  unfolding filled_span_def
proof (intro conjI allI impI)
  show "length p2 = length paint" using assms by (simp add: filled_span_def)
  fix k assume k: "k < length paint"
  have "off + m \<le> k \<Longrightarrow> m + (k - (off + m)) = k - off" by simp
  with k assms show "p2 ! k = (if off \<le> k \<and> k < off + (m + n) then val (k - off) else paint ! k)"
    by (auto simp: filled_span_def)
qed

lemma filled_span_cong:
  "filled_span paint off n val p \<Longrightarrow> (\<And>i. i < n \<Longrightarrow> val i = val' i) \<Longrightarrow> filled_span paint off n val' p"
  by (auto simp: filled_span_def)

lemma filled_span_length: "filled_span paint off n val p \<Longrightarrow> length p = length paint"
  by (simp add: filled_span_def)

lemma awrite_filled:
  assumes "off + length cells \<le> length paint"
  shows "\<exists>p. awrite paint (int off) cells = Some p \<and> filled_span paint off (length cells) (\<lambda>i. cells ! i) p"
proof -
  have "int off + int (length cells) \<le> int (length paint)" using assms by linarith
  then obtain p where p: "awrite paint (int off) cells = Some p" using awrite_in [of "int off" cells paint] by auto
  have "int k < int off + int (length cells) \<longleftrightarrow> k < off + length cells" for k by linarith
  then have "filled_span paint off (length cells) (\<lambda>i. cells ! i) p"
    using awrite_length [OF p] awrite_nth [OF p] by (auto simp: filled_span_def nat_diff_distrib)
  with p show ?thesis by blast
qed

lemma copy_left_run:
  assumes "aget data (txtRow + txMin) = Some v" "off + n \<le> length paint" "- (2 ^ 31) \<le> tx" "txMin < 2 ^ 31"
  shows "\<exists>p m. m = min n (nat (txMin - tx)) \<and> copy_left data txtRow txMin n (int off) tx paint = Some (n - m, int (off + m), tx + int m, p)
    \<and> filled_span paint off m (\<lambda>_. v) p"
  using assms(2,3)
proof (induction n arbitrary: off tx paint)
  case (Suc n)
  show ?case
  proof (cases "tx < txMin")
    case True
    have i: "i32 (tx + 1) = tx + 1" using True Suc.prems(2) assms(4) by (intro i32_id) (simp add: is_i32_def)
    have p: "aset paint (int off) v = Some (paint[off := v])" using Suc.prems(1) by (simp add: aset_in)
    have m: "min (Suc n) (nat (txMin - tx)) = Suc (min n (nat (txMin - (tx + 1))))" using True by auto
    from Suc.IH [of "Suc off" "paint[off := v]" "tx + 1"] Suc.prems obtain q where
      q: "copy_left data txtRow txMin n (int (Suc off)) (tx + 1) (paint[off := v]) =
          Some (n - min n (nat (txMin - (tx + 1))), int (Suc off + min n (nat (txMin - (tx + 1)))), tx + 1 + int (min n (nat (txMin - (tx + 1)))), q)"
        "filled_span (paint[off := v]) (Suc off) (min n (nat (txMin - (tx + 1)))) (\<lambda>_. v) q" by auto
    have s: "int off + 1 = int (Suc off)" by simp
    have "copy_left data txtRow txMin (Suc n) (int off) tx paint = copy_left data txtRow txMin n (int (Suc off)) (tx + 1) (paint[off := v])"
      using True assms(1) by (simp add: p i s del: of_nat_Suc)
    with q m filled_span_Cons [OF q(2)] Suc.prems(1) show ?thesis
      by (intro exI [of _ q] exI [of _ "min (Suc n) (nat (txMin - tx))"]) (simp add: algebra_simps del: copy_left.simps)
  qed (auto simp: filled_span_0)
qed (auto simp: filled_span_0)

lemma copy_row_ok:
  assumes "texture_ok rdr" "-1 \<le> ty" "ty \<le> t_tyMax rdr" "is_i32 tx" "off + nat (r_alphaWidth rdr) \<le> length paint" "length paint < 2 ^ 31"
  shows "\<exists>p. copy_row rdr tx ty (int off) paint = Some p
    \<and> filled_span paint off (nat (r_alphaWidth rdr)) (\<lambda>k. tex_px rdr (max 0 ty) (max (t_txMin rdr) (min (t_txMax rdr) (tx + int k)))) p"
proof -
  let ?n = "nat (r_alphaWidth rdr)" and ?r = "max 0 ty" and ?lo = "t_txMin rdr" and ?hi = "t_txMax rdr"
  let ?row = "?r * t_stride rdr" and ?val = "\<lambda>k. tex_px rdr (max 0 ty) (max (t_txMin rdr) (min (t_txMax rdr) (tx + int k)))"
  have t: "0 \<le> ?r" "?r < t_imageHeight rdr" "0 \<le> ?lo" "?lo \<le> ?hi" "?hi < t_imageWidth rdr" "?hi < 2 ^ 31 - 1"
    using assms(1-3) tex_sides [OF assms(1)] by (auto simp: texture_ok_def)
  note get = tex_get [OF assms(1) t(1,2)]
  have row: "i32 ?row = ?row" using get(2) [of 0] t by simp
  define m where "m = min ?n (nat (?lo - tx))"
  from copy_left_run [of "t_intData rdr" ?row ?lo "tex_px rdr ?r ?lo" off ?n paint tx] get(1) [of ?lo] t assms(4,5)
  obtain p1 where p1: "copy_left (t_intData rdr) ?row ?lo ?n (int off) tx paint = Some (?n - m, int (off + m), tx + int m, p1)"
      "filled_span paint off m (\<lambda>_. tex_px rdr ?r ?lo) p1"
    by (auto simp: m_def is_i32_def)
  have f1: "filled_span paint off m ?val p1" by (rule filled_span_cong [OF p1(2)]) (use t in \<open>auto simp: m_def\<close>)
  define len where "len = (if m < ?n then min (int (?n - m)) (?hi - (tx + int m) + 1) else 0)"
  have past: "m < ?n \<Longrightarrow> ?lo \<le> tx + int m" by (auto simp: m_def)
  have len: "min (int (?n - m)) (i32 (?hi - (tx + int m) + 1)) > 0 \<longleftrightarrow> len > 0"
    "len > 0 \<Longrightarrow> min (int (?n - m)) (i32 (?hi - (tx + int m) + 1)) = len"
  proof -
    have "i32 (?hi - (tx + int m) + 1) = ?hi - (tx + int m) + 1" if "m < ?n"
      using past [OF that] that t assms(4) by (intro i32_id) (auto simp: is_i32_def m_def)
    then show "min (int (?n - m)) (i32 (?hi - (tx + int m) + 1)) > 0 \<longleftrightarrow> len > 0"
      "len > 0 \<Longrightarrow> min (int (?n - m)) (i32 (?hi - (tx + int m) + 1)) = len"
      by (cases "m < ?n"; simp add: len_def)+
  qed
  let ?mid = "if min (int (?n - m)) (i32 (?hi - (tx + int m) + 1)) > 0 then
      do { cells \<leftarrow> aread (t_intData rdr) (?row + (tx + int m)) (nat (min (int (?n - m)) (i32 (?hi - (tx + int m) + 1))));
           paint \<leftarrow> awrite p1 (int (off + m)) cells;
           Some (?n - m - nat (min (int (?n - m)) (i32 (?hi - (tx + int m) + 1))),
             int (off + m) + min (int (?n - m)) (i32 (?hi - (tx + int m) + 1)), paint) }
    else Some (?n - m, int (off + m), p1)"
  have mid: "\<exists>p2. ?mid = Some (?n - m - nat len, int (off + m + nat len), p2) \<and> filled_span p1 (off + m) (nat len) (\<lambda>i. ?val (m + i)) p2"
  proof (cases "len > 0")
    case True
    then have k: "m < ?n" "len \<le> int (?n - m)" "tx + int m + len \<le> ?hi + 1" "?lo \<le> tx + int m"
      using past by (auto simp: len_def split: if_splits)
    let ?cells = "map (\<lambda>i. tex_px rdr ?r (tx + int m + int i)) [0..<nat len]"
    have rd: "aread (t_intData rdr) (?row + (tx + int m)) (nat len) = Some ?cells"
      using tex_index [OF assms(1) t(1,2), of "tx + int m"] tex_index(2) [OF assms(1) t(1,2), of "tx + int m + len - 1"] True k t
      by (auto simp: aread_def tex_px_def intro!: nth_equalityI arg_cong [where f = "(!) _"])
    have "nat len \<le> ?n - m" using k(2) by linarith
    then have "off + m + length ?cells \<le> length p1" using k(1) assms(5) filled_span_length [OF p1(2)] by simp
    from awrite_filled [OF this] obtain p2 where
      p2: "awrite p1 (int (off + m)) ?cells = Some p2" "filled_span p1 (off + m) (nat len) (\<lambda>i. ?cells ! i) p2" by auto
    have "filled_span p1 (off + m) (nat len) (\<lambda>i. ?val (m + i)) p2"
    proof (rule filled_span_cong [OF p2(2)])
      fix i assume i: "i < nat len"
      then have "tx + int m + int i \<le> ?hi" using k(3) by linarith
      then have "max ?lo (min ?hi (tx + int (m + i))) = tx + int m + int i" using k(4) by simp
      with i show "?cells ! i = ?val (m + i)" by simp
    qed
    with True len rd p2(1) show ?thesis by auto
  next
    case False
    then show ?thesis using len(1) by (auto simp: filled_span_0)
  qed
  then obtain p2 where p2: "?mid = Some (?n - m - nat len, int (off + m + nat len), p2)"
    "filled_span p1 (off + m) (nat len) (\<lambda>i. ?val (m + i)) p2" by blast
  let ?last = "\<lambda>_ :: unit. do { v \<leftarrow> aget (t_intData rdr) (?row + ?hi); Some (v, ()) }"
  have fit: "m + nat len \<le> ?n" by (auto simp: len_def m_def)
  have "off + m + nat len + (?n - m - nat len) \<le> length p2"
    using fit assms(5) filled_span_length [OF p1(2)] filled_span_length [OF p2(2)] by simp
  with fill_span_run [of "?n - m - nat len" ?last "\<lambda>_. ()" "\<lambda>_. tex_px rdr ?r ?hi" "off + m + nat len" p2] get(1) [of ?hi] t assms(6)
    filled_span_length [OF p1(2)] filled_span_length [OF p2(2)]
  obtain p3 where p3: "fill_span ?last (?n - m - nat len) (int (off + m + nat len)) () p2 = Some p3"
    "filled_span p2 (off + m + nat len) (?n - m - nat len) (\<lambda>_. tex_px rdr ?r ?hi) p3" by auto
  have "filled_span p2 (off + (m + nat len)) (?n - m - nat len) (\<lambda>i. ?val (m + nat len + i)) p3"
    unfolding add.assoc [symmetric]
    by (rule filled_span_cong [OF p3(2)]) (use past t in \<open>auto simp: len_def m_def min_def max_def split: if_splits\<close>)
  with filled_span_append [OF f1 p2(2)] have "filled_span paint off (m + nat len + (?n - m - nat len)) ?val p3"
    by (rule filled_span_append)
  moreover have "copy_row rdr tx ty (int off) paint = Some p3"
    unfolding copy_row_def Let_def row p1(1) by (simp only: Option.bind.simps prod.case p2(1) p3(1))
  ultimately show ?thesis using fit by simp
qed

subsection \<open>Rows and blocks\<close>

lemma matrix_row_ok:
  assumes "\<And>s. \<exists>p s'. step s = Some (p, s') \<and> px_ok p" "off + nat (r_alphaWidth rdr) \<le> length paint" "length paint < 2 ^ 31"
  shows "\<exists>p val. matrix_row step rdr y (int off) paint = Some p \<and> filled_span paint off (nat (r_alphaWidth rdr)) val p \<and> (\<forall>i. px_ok (val i))"
  unfolding matrix_row_def Let_def using assms by (intro fill_span_inv [where I = "\<lambda>_. True"]) auto

lemma translate_row_ok:
  assumes "texture_ok rdr" "off + nat (r_alphaWidth rdr) \<le> length paint" "length paint < 2 ^ 31"
  shows "\<exists>p val. translate_row (repeatInterpolateMode rdr) rdr y (int off) paint = Some p
    \<and> filled_span paint off (nat (r_alphaWidth rdr)) val p \<and> (\<forall>i. px_ok (val i))"
proof -
  let ?mode = "repeatInterpolateMode rdr"
  let ?ltx = "i64 (i32 (push_bit 16 (r_currX rdr)) + t_m02 rdr)" and ?lty = "i64 (i32 (push_bit 16 y) + t_m12 rdr)"
  from bounds_x(2) [OF assms(1), of "i32 (drop_bit 16 ?lty)" ?lty] obtain ty lty' where
    b: "checkBounds (t_repeat rdr) (i32 (drop_bit 16 ?lty)) ?lty (i32 (t_tyMin rdr - 1)) (t_tyMax rdr) = Some (ty, lty')"
      "-1 \<le> ty" "ty \<le> t_tyMax rdr" by blast
  show ?thesis
  proof (cases "?mode = NO_REPEAT_NO_INTERPOLATE")
    case True
    let ?tx = "i32 (drop_bit 16 ?ltx)"
    let ?val = "\<lambda>k. tex_px rdr (max 0 ty) (max (t_txMin rdr) (min (t_txMax rdr) (?tx + int k)))"
    have "px_ok (?val k)" for k
      using tex_get(3) [OF assms(1), of "max 0 ty" "max (t_txMin rdr) (min (t_txMax rdr) (?tx + int k))"] b assms(1)
      by (auto simp: texture_ok_def)
    with copy_row_ok [OF assms(1) b(2,3) is_i32_i32 [of "drop_bit 16 ?ltx"] assms(2,3)] True b(1) show ?thesis
      by (auto simp: translate_row_def Let_def)
  next
    case False
    have "\<exists>p val. fill_span (translate_step ?mode rdr ty (?ltx AND 0xffff) (?lty AND 0xffff)) (nat (r_alphaWidth rdr)) (int off) ?ltx paint = Some p
      \<and> filled_span paint off (nat (r_alphaWidth rdr)) val p \<and> (\<forall>i. px_ok (val i))"
      using translate_step_ok [OF assms(1) b(2,3), of "?ltx AND 0xffff" "?lty AND 0xffff"] assms(2,3)
      by (intro fill_span_inv [where I = "\<lambda>_. True"]) auto
    with False b(1) show ?thesis by (simp add: translate_row_def Let_def)
  qed
qed

lemma row_fits: "j < h \<Longrightarrow> h * w \<le> l \<Longrightarrow> j * w + w \<le> (l :: nat)"
  using mult_le_mono1 [of "Suc j" h w] by simp

lemma target_ok:
  assumes "texture_ok rdr" "0 \<le> r_alphaWidth rdr" "nat height * nat (r_alphaWidth rdr) \<le> length paint" "length paint < 2 ^ 31"
    and "t_transformType rdr \<in> {TEXTURE_TRANSFORM_IDENTITY, TEXTURE_TRANSFORM_TRANSLATE, TEXTURE_TRANSFORM_SCALE_TRANSLATE, TEXTURE_TRANSFORM_GENERIC}"
  shows "\<exists>p. genTexturePaintTarget rdr paint height = Some p \<and> rows_with px_ok paint (nat height) (nat (r_alphaWidth rdr)) p"
proof -
  let ?w = "nat (r_alphaWidth rdr)" and ?h = "nat height" and ?mode = "repeatInterpolateMode rdr"
  have w: "int ?w = r_alphaWidth rdr" using assms(2) by simp
  have rows: "\<exists>p. fill_rows (\<lambda>j. row (i32 (r_currY rdr + int j))) (int ?w) ?h 0 0 paint = Some p \<and> rows_with px_ok paint ?h ?w p"
    if "\<And>y off p. off + ?w \<le> length p \<Longrightarrow> length p < 2 ^ 31 \<Longrightarrow>
      \<exists>p' val. row y (int off) p = Some p' \<and> filled_span p off ?w val p' \<and> (\<forall>i. px_ok (val i))" for row
  proof (rule fill_rows_with [OF _ assms(3,4)])
    fix j and p :: "jint list"
    assume "j < ?h" "length p = length paint"
    then show "\<exists>p' val. row (i32 (r_currY rdr + int j)) (int (j * ?w)) p = Some p' \<and> filled_span p (j * ?w) ?w val p' \<and> (\<forall>i. px_ok (val i))"
      using row_fits [OF _ assms(3)] assms(4) by (intro that) simp_all
  qed
  note t = rows [of "translate_row ?mode rdr", OF translate_row_ok [OF assms(1)], unfolded w]
    and s = rows [of "matrix_row (scale_step ?mode rdr) rdr", OF matrix_row_ok [OF scale_step_ok [OF assms(1)]], unfolded w]
    and g = rows [of "matrix_row (generic_step ?mode rdr) rdr", OF matrix_row_ok [OF generic_step_ok [OF assms(1)]], unfolded w]
  from assms(5) t s g show ?thesis
    by (auto simp: genTexturePaintTarget_def Let_def TEXTURE_TRANSFORM_IDENTITY_def TEXTURE_TRANSFORM_TRANSLATE_def
        TEXTURE_TRANSFORM_SCALE_TRANSLATE_def TEXTURE_TRANSFORM_GENERIC_def)
qed

text \<open>
  C17: texture paint never leaves the texture or the paint buffer. For a texture whose rows are in its array (\<open>texture_ok\<close>: where the mode interpolates it has
  at least two columns and two rows, where it repeats its sides are below 32768), for every kind of transform, every mode, every matrix and every position,
  \<open>genTexturePaint\<close> returns; it writes exactly the cells of the rows asked for, and every pixel it writes is premultiplied when the texture is. Positions that
  overflow 64 bits are covered. The two conditions on the sides are needed: \<open>texture_edge_defects\<close>.
\<close>

theorem genTexturePaint_safe:
  assumes "texture_ok rdr" "paint_room rdr height"
    and "t_transformType rdr \<in> {TEXTURE_TRANSFORM_IDENTITY, TEXTURE_TRANSFORM_TRANSLATE, TEXTURE_TRANSFORM_SCALE_TRANSLATE, TEXTURE_TRANSFORM_GENERIC}"
  shows "\<exists>p. genTexturePaint rdr height = Some p \<and> length p = length (r_paint rdr)
    \<and> (\<forall>k < length (r_paint rdr). if k < nat height * nat (r_alphaWidth rdr) then px_ok (p ! k) else p ! k = r_paint rdr ! k)"
  using target_ok [OF assms(1) _ _ _ assms(3), of height "r_paint rdr"] assms(2)
  by (auto simp: genTexturePaint_def paint_room_def rows_with_def)

lemma sample_texture_ok: "texture_ok sample_painter" "paint_room sample_painter 1" "t_transformType sample_painter = 2"
  by (simp_all add: texture_ok_def paint_room_def sample_painter_def painter.defs raster.defs sample_raster_def px_ok_def premult_packI is_chan_def)

theorem genTexturePaint_safe_witness:
  "\<exists>p. genTexturePaint sample_painter 1 = Some p \<and> length p = 2 \<and> px_ok (p ! 0)"
proof -
  have "length (r_paint sample_painter) = 2" "nat (r_alphaWidth sample_painter) = 2"
    by (simp_all add: sample_painter_def painter.defs raster.defs sample_raster_def)
  with genTexturePaint_safe [OF sample_texture_ok(1,2)] sample_texture_ok(3) show ?thesis
    by (auto simp: TEXTURE_TRANSFORM_TRANSLATE_def)
qed

section \<open>Multiplication keeps pixels premultiplied\<close>

lemma map_span_run:
  assumes "\<And>k v. off \<le> k \<Longrightarrow> k < off + n \<Longrightarrow> Q v \<Longrightarrow> \<exists>v'. f (int k) v = Some v' \<and> P v'"
    and "\<And>k. off \<le> k \<Longrightarrow> k < off + n \<Longrightarrow> Q (paint ! k)" "off + n \<le> length paint"
  shows "\<exists>p. map_span f n (int off) paint = Some p \<and> length p = length paint
    \<and> (\<forall>k < length paint. if off \<le> k \<and> k < off + n then P (p ! k) else p ! k = paint ! k)"
  using assms
proof (induction n arbitrary: off paint)
  case (Suc n)
  from Suc.prems(1) [of off "paint ! off"] Suc.prems(2) obtain v where v: "f (int off) (paint ! off) = Some v" "P v" by auto
  have s: "int off + 1 = int (Suc off)" by simp
  have "\<exists>p. map_span f n (int (Suc off)) (paint[off := v]) = Some p \<and> length p = length (paint[off := v])
    \<and> (\<forall>k < length (paint[off := v]). if Suc off \<le> k \<and> k < Suc off + n then P (p ! k) else p ! k = paint[off := v] ! k)"
    by (rule Suc.IH) (use Suc.prems in auto)
  then obtain p where p: "map_span f n (int (Suc off)) (paint[off := v]) = Some p" "length p = length paint"
    "\<And>k. k < length paint \<Longrightarrow> if Suc off \<le> k \<and> k < Suc off + n then P (p ! k) else p ! k = paint[off := v] ! k" by auto
  have "map_span f (Suc n) (int off) paint = Some p"
    using Suc.prems(3) v p(1) by (simp add: aget_in aset_in s del: of_nat_Suc)
  moreover have "if off \<le> k \<and> k < off + Suc n then P (p ! k) else p ! k = paint ! k" if "k < length paint" for k
    using p(3) [OF that] v that by (cases "k = off") (auto split: if_splits)
  ultimately show ?case using p(2) by blast
qed auto

lemma map_rows_run:
  assumes f: "\<And>k v. k < h * w \<Longrightarrow> Q v \<Longrightarrow> \<exists>v'. f (int k) v = Some v' \<and> P v'"
    and "\<And>k. k < h * w \<Longrightarrow> Q (paint ! k)" "h * w \<le> length paint" "length paint < 2 ^ 31" "stride = int w"
  shows "\<exists>p. map_rows f stride (int w) (int h) paint = Some p \<and> rows_with P paint h w p"
proof -
  let ?I = "\<lambda>j p. rows_with P paint j w p"
  have "\<exists>p'. map_span f (nat (int w)) (i32 (int j * int w)) p = Some p' \<and> ?I (Suc j) p'" if "j < h" "?I j p" for j p
  proof -
    have fit: "j * w + w \<le> h * w" using that(1) row_fits by blast
    then have i: "i32 (int j * int w) = int (j * w)" using assms(3,4) by (subst i32_small) (auto simp flip: of_nat_mult)
    have l: "length p = length paint" "\<And>k. k < length paint \<Longrightarrow> j * w \<le> k \<Longrightarrow> p ! k = paint ! k"
      using that(2) by (auto simp: rows_with_def split: if_splits)
    have "\<exists>q. map_span f w (int (j * w)) p = Some q \<and> length q = length p
      \<and> (\<forall>k < length p. if j * w \<le> k \<and> k < j * w + w then P (q ! k) else q ! k = p ! k)"
      by (rule map_span_run [where Q = Q]) (use f assms(2,3) fit l in auto)
    then obtain q where q: "map_span f w (int (j * w)) p = Some q" "length q = length p"
      "\<And>k. k < length p \<Longrightarrow> if j * w \<le> k \<and> k < j * w + w then P (q ! k) else q ! k = p ! k" by blast
    have "rows_with P paint (Suc j) w q"
      unfolding rows_with_def
    proof (intro conjI allI impI)
      fix k assume "k < length paint"
      with q(3) [of k] that(2) l(1) show "if k < Suc j * w then P (q ! k) else q ! k = paint ! k"
        by (cases "k < j * w") (auto simp: rows_with_def split: if_splits)
    qed (simp add: q(2) l(1))
    with q(1) i show ?thesis by simp
  qed
  from fill_rows_inv [where I = ?I and h = h and w = w and paint = paint, OF this _ assms(3,4)] show ?thesis
    by (auto simp: map_rows_def assms(5) rows_with_def)
qed

lemma scaled_chan:
  assumes "is_chan c" "is_chan x"
  shows "drop_bit 8 (i32 ((c + 1) * x)) = scale x (c + 1)" "drop_bit 8 (i32 (x * (c + 1))) = scale x (c + 1)"
    "is_chan (scale x (c + 1))" "scale x (c + 1) \<le> x"
  using scale_bounds [of x x "c + 1"] assms by (auto simp: is_chan_def mult.commute)

lemma scale_mono: "x \<le> y \<Longrightarrow> is_chan c \<Longrightarrow> scale x (c + 1) \<le> scale y (c + 1)"
  unfolding scale_def is_chan_def by (intro zdiv_mono1 mult_right_mono) auto

lemma fade_px_eq:
  "is_chan a \<Longrightarrow> fade_px (a + 1) t = pack (scale (px_A t) (a + 1)) (scale (px_R t) (a + 1)) (scale (px_G t) (a + 1)) (scale (px_B t) (a + 1))"
  by (simp add: fade_px_def scaled_chan)

lemma tint_px_eq:
  assumes "is_chan a" "is_chan r" "is_chan g" "is_chan b"
  shows "tint_px (a + 1) r g b t = pack (scale (px_A t) (a + 1)) (scale (scale (px_R t) (r + 1)) (a + 1))
    (scale (scale (px_G t) (g + 1)) (a + 1)) (scale (scale (px_B t) (b + 1)) (a + 1))"
  using assms by (simp add: tint_px_def scaled_chan)

lemma px_ok_fade: "is_chan a \<Longrightarrow> px_ok t \<Longrightarrow> px_ok (fade_px (a + 1) t)"
  by (auto simp: px_ok_def fade_px_eq premult_def scaled_chan intro!: scale_mono)

lemma px_ok_tint: "is_chan a \<Longrightarrow> is_chan r \<Longrightarrow> is_chan g \<Longrightarrow> is_chan b \<Longrightarrow> px_ok t \<Longrightarrow> px_ok (tint_px (a + 1) r g b t)"
  by (auto simp: px_ok_def tint_px_eq premult_def scaled_chan intro!: scale_mono order_trans [OF scaled_chan(4)])

lemma rows_with_trans: "rows_with Q paint h w p \<Longrightarrow> rows_with P p h w q \<Longrightarrow> rows_with P paint h w q"
  by (auto simp: rows_with_def)

lemma multiply_flat:
  assumes "rows_with px_ok paint h w p" "h * w \<le> length paint" "length paint < 2 ^ 31"
    and "\<And>t. px_ok t \<Longrightarrow> px_ok (f t)"
  shows "\<exists>q. map_rows (\<lambda>_ t. Some (f t)) (int w) (int w) (int h) p = Some q \<and> rows_with px_ok paint h w q"
proof -
  have "\<exists>q. map_rows (\<lambda>_ t. Some (f t)) (int w) (int w) (int h) p = Some q \<and> rows_with px_ok p h w q"
    by (rule map_rows_run [where Q = px_ok]) (use assms in \<open>auto simp: rows_with_def split: if_splits\<close>)
  with assms(1) rows_with_trans show ?thesis by blast
qed

lemma multiply_gradient:
  assumes "rows_with px_ok cells h w im" "length cells = h * w" "rows_with Q paint h w p" "h * w \<le> length paint" "length paint < 2 ^ 31"
  shows "\<exists>q. map_rows (\<lambda>k p. do { t \<leftarrow> aget im k; Some (tint_px (px_A p + 1) (px_R p) (px_G p) (px_B p) t) }) (int w) (int w) (int h) p = Some q
    \<and> rows_with px_ok paint h w q"
proof -
  have "\<exists>v'. do { t \<leftarrow> aget im (int k); Some (tint_px (px_A v + 1) (px_R v) (px_G v) (px_B v) t) } = Some v' \<and> px_ok v'" if "k < h * w" for k v
  proof -
    have "k < length im" "px_ok (im ! k)" using assms(1,2) that by (auto simp: rows_with_def)
    moreover from this have "aget im (int k) = Some (im ! k)" by (simp add: aget_in)
    ultimately show ?thesis by (simp add: px_ok_tint)
  qed
  then have "\<exists>q. map_rows (\<lambda>k p. do { t \<leftarrow> aget im k; Some (tint_px (px_A p + 1) (px_R p) (px_G p) (px_B p) t) }) (int w) (int w) (int h) p = Some q
      \<and> rows_with px_ok p h w q"
    by (intro map_rows_run [where Q = "\<lambda>_. True"]) (use assms in \<open>auto simp: rows_with_def\<close>)
  with assms(3) rows_with_trans show ?thesis by blast
qed

text \<open>
  a texture multiplied with a colour or a gradient stays premultiplied. When the touched columns
  are the columns of the buffer, the routine returns, fills the rows asked for and no other cell, and
  every pixel it leaves there is premultiplied, in all three cases of the previous paint.
\<close>

theorem genTexturePaintMultiply_safe:
  assumes "texture_ok rdr" "paint_room rdr height" "0 < height" "0 < r_alphaWidth rdr"
    and "t_transformType rdr \<in> {TEXTURE_TRANSFORM_IDENTITY, TEXTURE_TRANSFORM_TRANSLATE, TEXTURE_TRANSFORM_SCALE_TRANSLATE, TEXTURE_TRANSFORM_GENERIC}"
    and "i32 (r_maxTouched rdr - r_minTouched rdr + 1) = r_alphaWidth rdr"
    and "is_chan (r_cred rdr)" "is_chan (r_cgreen rdr)" "is_chan (r_cblue rdr)" "is_chan (r_calpha rdr)"
    and "g_cycleMethod rdr \<in> {CYCLE_NONE, CYCLE_REPEAT, CYCLE_REFLECT}" "length (g_colors rdr) = 256"
    and "t_prevPaintMode rdr \<in> {PAINT_FLAT_COLOR, PAINT_LINEAR_GRADIENT, PAINT_RADIAL_GRADIENT}"
    and "length cells = nat height * nat (r_alphaWidth rdr)" "r_alphaWidth rdr < (2 ^ 31 - 1) div height div 4"
  shows "\<exists>p. genTexturePaintMultiply fl geo (Some cells) rdr height = Some p
    \<and> rows_with px_ok (r_paint rdr) (nat height) (nat (r_alphaWidth rdr)) p"
proof -
  let ?w = "nat (r_alphaWidth rdr)" and ?h = "nat height"
  have d: "int ?w = r_alphaWidth rdr" "int ?h = height" using assms(3,4) by simp_all
  have room: "?h * ?w \<le> length (r_paint rdr)" "length (r_paint rdr) < 2 ^ 31" using assms(2) by (auto simp: paint_room_def)
  have a: "i32 (r_calpha rdr + 1) = r_calpha rdr + 1" using assms(10) by (auto simp: is_chan_def i32_small)
  note target = target_ok [OF assms(1) _ _ _ assms(5), of height]
  show ?thesis
  proof (cases "t_prevPaintMode rdr = PAINT_FLAT_COLOR")
    case True
    from target [of "r_paint rdr"] room assms(4) obtain p where
      p: "genTexturePaintTarget rdr (r_paint rdr) height = Some p" "rows_with px_ok (r_paint rdr) ?h ?w p" by auto
    note m = multiply_flat [OF p(2) room, unfolded d]
    show ?thesis using True p m [of "fade_px (r_calpha rdr + 1)"] m [of "tint_px (r_calpha rdr + 1) (r_cred rdr) (r_cgreen rdr) (r_cblue rdr)"]
        px_ok_fade [OF assms(10)] px_ok_tint [OF assms(10,7,8,9)]
      by (auto simp: genTexturePaintMultiply_def Let_def assms(6) a)
  next
    case False
    let ?lin = "genLinearGradientPaint fl geo rdr height" and ?rad = "genRadialGradientPaint fl geo rdr height"
    have "\<exists>p. (if t_prevPaintMode rdr = PAINT_LINEAR_GRADIENT then ?lin else ?rad) = Some p \<and> rows_with (\<lambda>_. True) (r_paint rdr) ?h ?w p"
      using gradient_rows_run [OF assms(11,12,2), of "linear_start fl geo" "f_to_jint fl" "linear_upd fl geo"]
        gradient_rows_run [OF assms(11,12,2), of "radial_start fl geo" "radial_pos fl" "radial_upd fl"]
      by (auto simp: genLinearGradientPaint_def genRadialGradientPaint_def filled_rows_def rows_with_def)
    then obtain p where
      p: "(if t_prevPaintMode rdr = PAINT_LINEAR_GRADIENT then ?lin else ?rad) = Some p" "rows_with (\<lambda>_. True) (r_paint rdr) ?h ?w p" by blast
    from target [of cells] room assms(4,14) obtain im where
      im: "genTexturePaintTarget rdr cells height = Some im" "rows_with px_ok cells ?h ?w im" by auto
    from multiply_gradient [OF im(2) assms(14) p(2) room, unfolded d] False p(1) im(1) assms(3,4,13,15) show ?thesis
      by (auto simp: genTexturePaintMultiply_def Let_def assms(6) PAINT_FLAT_COLOR_def PAINT_LINEAR_GRADIENT_def PAINT_RADIAL_GRADIENT_def)
  qed
qed

text \<open>A texture of three by two pixels under the colour of the renderer.\<close>

theorem genTexturePaintMultiply_safe_witness:
  "\<exists>p. genTexturePaintMultiply exact_arith sample_geometry (Some [0, 0]) sample_painter 1 = Some p \<and> px_ok (p ! 0) \<and> px_ok (p ! 1)"
proof -
  have s: "0 < r_alphaWidth sample_painter" "i32 (r_maxTouched sample_painter - r_minTouched sample_painter + 1) = r_alphaWidth sample_painter"
    "is_chan (r_cred sample_painter)" "is_chan (r_cgreen sample_painter)" "is_chan (r_cblue sample_painter)" "is_chan (r_calpha sample_painter)"
    "g_cycleMethod sample_painter = CYCLE_REFLECT" "length (g_colors sample_painter) = 256" "t_prevPaintMode sample_painter = PAINT_FLAT_COLOR"
    "nat (r_alphaWidth sample_painter) = 2" "r_alphaWidth sample_painter = 2" "length (r_paint sample_painter) = 2"
    by (simp_all add: sample_painter_def painter.defs raster.defs sample_raster_def is_chan_def PAINT_FLAT_COLOR_def i32_small)
  from genTexturePaintMultiply_safe [OF sample_texture_ok(1,2), of "[0, 0]" exact_arith sample_geometry] sample_texture_ok(3) s
  show ?thesis by (auto simp: TEXTURE_TRANSFORM_TRANSLATE_def rows_with_def)
qed

section \<open>The special cases agree with the general ones\<close>

text \<open>
  the shortcuts of the interpolation are exact. The branches for a zero horizontal or vertical
  fraction give the pixel that the bilinear interpolation of all four neighbours gives; for textures
  without alpha this needs an opaque pixel where both fractions are zero.
\<close>

theorem interpolation_shortcuts_exact:
  assumes "is_frac h" "is_frac v" "is_i32 p00"
  shows "cval_alpha p00 (p0, p1, p2) h v = interpolate4points p00 p0 p1 p2 h v
    \<and> (px_A p00 = 255 \<or> h \<noteq> 0 \<or> v \<noteq> 0 \<longrightarrow> cval_no_alpha p00 (p0, p1, p2) h v = interpolate4pointsNoAlpha p00 p0 p1 p2 h v)"
proof
  have z: "is_frac 0" by (simp add: is_frac_def)
  have full: "px_A p00 = 255 \<Longrightarrow> pack 255 (px_R p00) (px_G p00) (px_B p00) = p00" by (metis pack_px [OF assms(3)])
  show "cval_alpha p00 (p0, p1, p2) h v = interpolate4points p00 p0 p1 p2 h v"
    using assms z by (auto simp: cval_alpha_def interpolate4points_eq interpolate2points_eq bilerp_def)
  show "px_A p00 = 255 \<or> h \<noteq> 0 \<or> v \<noteq> 0 \<longrightarrow> cval_no_alpha p00 (p0, p1, p2) h v = interpolate4pointsNoAlpha p00 p0 p1 p2 h v"
    using assms z full
    by (auto simp: cval_no_alpha_def interpolate4pointsNoAlpha_def interpolate2pointsNoAlpha_def Let_def interp_eq is_chan_lerp)
qed

theorem interpolation_shortcuts_exact_witness:
  "cval_alpha (pack 255 9 9 9) (1, 2, 3) 0 0x8000 = interpolate4points (pack 255 9 9 9) 1 2 3 0 0x8000"
  using interpolation_shortcuts_exact [of 0 "0x8000" "pack 255 9 9 9" 1 2 3] by (simp add: is_frac_def)

lemma filled_span_unique: "filled_span paint off n val p \<Longrightarrow> filled_span paint off n val q \<Longrightarrow> p = q"
  by (auto simp: filled_span_def intro: nth_equalityI)

text \<open>A position in the range in which nothing wraps.\<close>

lemma fixed_point:
  assumes "- 32768 \<le> x" "x < 32768" "\<bar>m\<bar> \<le> 2 ^ 40" "0 \<le> i" "i \<le> 2 ^ 20"
  shows "i64 (i32 (push_bit 16 x) + m) = x * 65536 + m" "i64 (x * 65536 + m) = x * 65536 + m"
    "i64 (x * 65536 + m + i * 65536) = x * 65536 + m + i * 65536"
    "i32 (drop_bit 16 (x * 65536 + m + i * 65536)) = (x * 65536 + m) div 65536 + i"
proof -
  have "i32 (push_bit 16 x) = x * 65536" using assms(1,2) by (subst i32_id) (auto simp: is_i32_def push_bit_eq_mult)
  moreover show "i64 (x * 65536 + m) = x * 65536 + m" "i64 (x * 65536 + m + i * 65536) = x * 65536 + m + i * 65536"
    using assms by (auto intro!: i64_id simp: is_i64_def abs_le_iff)
  ultimately show "i64 (i32 (push_bit 16 x) + m) = x * 65536 + m" by simp
  have d: "(x * 65536 + m + i * 65536) div 65536 = (x * 65536 + m) div 65536 + i" by simp
  have "- (2 ^ 30) \<le> (x * 65536 + m) div 65536" "(x * 65536 + m) div 65536 \<le> 2 ^ 30"
    using assms by (auto simp: abs_le_iff)
  then show "i32 (drop_bit 16 (x * 65536 + m + i * 65536)) = (x * 65536 + m) div 65536 + i"
    using assms by (subst i32_id) (auto simp: is_i32_def drop_bit_eq_div d)
qed

text \<open>
  A translation in the range in which nothing wraps, of a texture with neither repetition nor interpolation, with the matrix that the scaling code has for it.
\<close>

definition plain_translation :: "'a painter_scheme \<Rightarrow> jint \<Rightarrow> bool" where
  "plain_translation rdr y \<longleftrightarrow> texture_ok rdr \<and> \<not> t_repeat rdr \<and> \<not> t_interpolate rdr
     \<and> t_m00 rdr = 65536 \<and> t_m11 rdr = 65536 \<and> t_m01 rdr = 0 \<and> t_m10 rdr = 0 \<and> \<bar>t_m02 rdr\<bar> \<le> 2 ^ 40 \<and> \<bar>t_m12 rdr\<bar> \<le> 2 ^ 40
     \<and> - 32768 \<le> r_currX rdr \<and> r_currX rdr < 32768 \<and> - 32768 \<le> y \<and> y < 32768 \<and> r_alphaWidth rdr \<le> 2 ^ 20"

text \<open>The column of the texture under the first pixel of a row, and the row, which is the same in both loops.\<close>

definition first_col :: "'a painter_scheme \<Rightarrow> int" where
  "first_col rdr = (r_currX rdr * 65536 + t_m02 rdr) div 65536"

definition clamped_row :: "'a painter_scheme \<Rightarrow> jint \<Rightarrow> int" where
  "clamped_row rdr y = max (t_tyMin rdr - 1) (min (t_tyMax rdr) ((y * 65536 + t_m12 rdr) div 65536))"

lemma clamped_row_bounds:
  assumes "texture_ok rdr"
  shows "-1 \<le> clamped_row rdr y" "clamped_row rdr y \<le> t_tyMax rdr" "0 \<le> max 0 (clamped_row rdr y)" "max 0 (clamped_row rdr y) < t_imageHeight rdr"
  using assms by (auto simp: clamped_row_def texture_ok_def)

lemma check_clamps: "lo \<le> hi + 1 \<Longrightarrow> checkBoundsNoRepeat a (lo - 1) hi = max (lo - 1) (min hi a)"
  by (simp add: checkBoundsNoRepeat_def min_def max_def)

lemma sub_limits: "texture_ok rdr \<Longrightarrow> i32 (t_txMin rdr - 1) = t_txMin rdr - 1 \<and> i32 (t_tyMin rdr - 1) = t_tyMin rdr - 1 \<and> t_txMin rdr \<le> t_txMax rdr + 1 \<and> t_tyMin rdr \<le> t_tyMax rdr + 1"
  using tex_sides [of rdr] by (auto simp: texture_ok_def is_i32_def intro!: i32_id)

lemma translation_copied:
  assumes "plain_translation rdr y" "off + nat (r_alphaWidth rdr) \<le> length paint" "length paint < 2 ^ 31"
  shows "\<exists>p. translate_row NO_REPEAT_NO_INTERPOLATE rdr y (int off) paint = Some p
    \<and> filled_span paint off (nat (r_alphaWidth rdr))
        (\<lambda>k. tex_px rdr (max 0 (clamped_row rdr y)) (max (t_txMin rdr) (min (t_txMax rdr) (first_col rdr + int k)))) p"
proof -
  define X where "X = r_currX rdr * 65536 + t_m02 rdr"
  define Y where "Y = y * 65536 + t_m12 rdr"
  have ok: "texture_ok rdr" "\<not> t_repeat rdr" using assms(1) by (simp_all add: plain_translation_def)
  note fx = fixed_point [of "r_currX rdr" "t_m02 rdr" 0, folded X_def] and fy = fixed_point [of y "t_m12 rdr" 0, folded Y_def]
  have f: "i64 (i32 (push_bit 16 (r_currX rdr)) + t_m02 rdr) = X" "i32 (drop_bit 16 X) = X div 65536" "i64 (i32 (push_bit 16 y) + t_m12 rdr) = Y" "i32 (drop_bit 16 Y) = Y div 65536"
    using fx(1,4) fy(1,4) assms(1) by (simp_all add: plain_translation_def)
  have "checkBounds False (Y div 65536) Y (i32 (t_tyMin rdr - 1)) (t_tyMax rdr) = Some (clamped_row rdr y, Y)"
    using sub_limits [OF ok(1)] by (simp add: checkBounds_def check_clamps clamped_row_def Y_def)
  then have "translate_row NO_REPEAT_NO_INTERPOLATE rdr y (int off) paint = copy_row rdr (X div 65536) (clamped_row rdr y) (int off) paint"
    using ok(2) by (simp add: translate_row_def Let_def f)
  moreover have "is_i32 (X div 65536)" using is_i32_i32 [of "drop_bit 16 X"] f(2) by simp
  ultimately show ?thesis
    using copy_row_ok [OF ok(1) clamped_row_bounds(1,2) [OF ok(1)] _ assms(2,3)] by (simp add: first_col_def X_def)
qed

lemma translation_scaled:
  assumes "plain_translation rdr y" "off + nat (r_alphaWidth rdr) \<le> length paint" "length paint < 2 ^ 31"
  shows "\<exists>q. matrix_row (scale_step NO_REPEAT_NO_INTERPOLATE rdr) rdr y (int off) paint = Some q
    \<and> filled_span paint off (nat (r_alphaWidth rdr))
        (\<lambda>k. tex_px rdr (max 0 (clamped_row rdr y)) (max 0 (max (t_txMin rdr - 1) (min (t_txMax rdr) (first_col rdr + int k))))) q"
proof -
  define X where "X = r_currX rdr * 65536 + t_m02 rdr"
  define Y where "Y = y * 65536 + t_m12 rdr"
  let ?w = "nat (r_alphaWidth rdr)" and ?r = "max 0 (clamped_row rdr y)" and ?st = "\<lambda>i. (X + int i * 65536, Y)"
  let ?c = "\<lambda>k. max (t_txMin rdr - 1) (min (t_txMax rdr) (first_col rdr + int k))"
  have ok: "texture_ok rdr" "t_m00 rdr = 65536" "t_m11 rdr = 65536" "t_m01 rdr = 0" "t_m10 rdr = 0" using assms(1) by (simp_all add: plain_translation_def)
  have fx: "i64 (X + int i * 65536) = X + int i * 65536" "i32 (drop_bit 16 (X + int i * 65536)) = first_col rdr + int i" if i: "i \<le> ?w" for i
  proof -
    have "nat (r_alphaWidth rdr) \<le> 2 ^ 20" using assms(1) by (simp add: plain_translation_def nat_le_iff)
    then have "int i \<le> 2 ^ 20" using i by simp
    then show "i64 (X + int i * 65536) = X + int i * 65536" "i32 (drop_bit 16 (X + int i * 65536)) = first_col rdr + int i"
      using fixed_point(3,4) [of "r_currX rdr" "t_m02 rdr" "int i"] assms(1) by (simp_all add: X_def first_col_def plain_translation_def)
  qed
  have fy: "i64 Y = Y" "i32 (drop_bit 16 Y) = Y div 65536"
    using fixed_point(3,4) [of y "t_m12 rdr" 0] assms(1) by (simp_all add: Y_def plain_translation_def)
  have "scale_step NO_REPEAT_NO_INTERPOLATE rdr (?st i) = Some (tex_px rdr ?r (max 0 (?c i)), ?st (Suc i))" if i: "i < ?w" for i
  proof -
    have b: "checkBounds False (i32 (drop_bit 16 (X + int i * 65536))) (X + int i * 65536) (i32 (t_txMin rdr - 1)) (t_txMax rdr) = Some (?c i, X + int i * 65536)"
      "checkBounds False (i32 (drop_bit 16 Y)) Y (i32 (t_tyMin rdr - 1)) (t_tyMax rdr) = Some (clamped_row rdr y, Y)"
      using sub_limits [OF ok(1)] fx(2) [of i] fy(2) i by (simp_all add: checkBounds_def check_clamps clamped_row_def Y_def)
    have "0 \<le> max 0 (?c i)" "max 0 (?c i) < t_imageWidth rdr" using ok(1) by (auto simp: texture_ok_def)
    note g = tex_get(1,2) [OF ok(1) clamped_row_bounds(3,4) [OF ok(1)] this]
    have n: "i64 (X + int i * 65536 + 65536) = X + int (Suc i) * 65536" "i64 (Y + 0) = Y" using fx(1) [of "Suc i"] fy(1) i by (simp_all add: algebra_simps)
    show ?thesis unfolding scale_step_def prod.case repeats.simps ok(2,5) Let_def b Option.bind.simps texel_at_def g tex_mode.case n ..
  qed
  from fill_span_run [where st = ?st and n = ?w, OF this assms(2,3)] show ?thesis
    using fx(1) [of 0] fy(1) by (simp add: matrix_row_def Let_def ok(2-5) flip: X_def Y_def)
qed


definition plain_painter :: painter where
  "plain_painter = sample_painter\<lparr>t_interpolate := False, t_m02 := - 65536\<rparr>"


section \<open>Textures with a short or a long side\<close>

text \<open>The position of the first pixel of the first row, before any check.\<close>

definition start_tx :: "'a painter_scheme \<Rightarrow> jint" where
  "start_tx rdr = i32 (drop_bit 16 (i64 (i32 (push_bit 16 (r_currX rdr)) + t_m02 rdr)))"

definition start_ty :: "'a painter_scheme \<Rightarrow> jint" where
  "start_ty rdr = i32 (drop_bit 16 (i64 (i32 (push_bit 16 (i32 (r_currY rdr))) + t_m12 rdr)))"

lemma fill_span_first: "0 < n \<Longrightarrow> step s = None \<Longrightarrow> fill_span step n k s paint = None"
  by (cases n) simp_all

lemma first_row_fails:
  assumes "t_transformType rdr \<in> {TEXTURE_TRANSFORM_IDENTITY, TEXTURE_TRANSFORM_TRANSLATE}" "0 < height"
    and "translate_row (repeatInterpolateMode rdr) rdr (i32 (r_currY rdr)) 0 (r_paint rdr) = None"
  shows "genTexturePaint rdr height = None"
  using assms by (cases "nat height") (auto simp: genTexturePaint_def genTexturePaintTarget_def Let_def)

lemma smooth_fails:
  assumes "t_transformType rdr \<in> {TEXTURE_TRANSFORM_IDENTITY, TEXTURE_TRANSFORM_TRANSLATE}" "0 < height" "0 < r_alphaWidth rdr" "t_interpolate rdr" "\<not> t_repeat rdr"
    and tx: "tx = checkBoundsNoRepeat (start_tx rdr) (i32 (t_txMin rdr - 1)) (t_txMax rdr)"
    and ty: "ty = checkBoundsNoRepeat (start_ty rdr) (i32 (t_tyMin rdr - 1)) (t_tyMax rdr)"
    and "\<And>p00. getPointsToInterpolate (t_intData rdr) (i32 (max 0 ty * t_stride rdr + max 0 tx)) (t_stride rdr) p00
      tx (i32 (t_imageWidth rdr - 1)) ty (i32 (t_imageHeight rdr - 1)) = None"
  shows "genTexturePaint rdr height = None"
proof (rule first_row_fails [OF assms(1,2)])
  have mode: "repeatInterpolateMode rdr = (if t_hasAlpha rdr then NO_REPEAT_INTERPOLATE_ALPHA else NO_REPEAT_INTERPOLATE_NO_ALPHA)"
    using assms(4,5) by (simp add: repeatInterpolateMode_def)
  have "texel_at (repeatInterpolateMode rdr) rdr tx ty hfrac vfrac = None" for hfrac vfrac
    using assms(8) by (cases "aget (t_intData rdr) (i32 (max 0 ty * t_stride rdr + max 0 tx))") (simp_all add: texel_at_def mode Let_def)
  then show "translate_row (repeatInterpolateMode rdr) rdr (i32 (r_currY rdr)) 0 (r_paint rdr) = None"
    using assms(3,5) unfolding translate_row_def Let_def checkBounds_def mode tx ty start_tx_def start_ty_def
    by (auto intro!: fill_span_first simp: translate_step_def checkBounds_def)
qed

text \<open>
  The conditions of \<open>texture_ok\<close> on the sides are needed. A smooth texture of one column whose array ends with its last pixel is read past its end by a
  row that starts left of it in or below its last row, because left of column 0 the code takes the neighbour to the right of column 0; one of a single row, by
  a row above it, for which it takes the neighbour below. And when the number of columns of a repeated texture is a multiple of 65536 the period is 0 in 32 bits, and
  a row that starts outside the texture divides by it.
\<close>

theorem texture_edge_defects:
  assumes "t_transformType rdr \<in> {TEXTURE_TRANSFORM_IDENTITY, TEXTURE_TRANSFORM_TRANSLATE}" "0 < height" "0 < r_alphaWidth rdr"
    and rows: "0 < t_imageWidth rdr" "0 < t_imageHeight rdr" "t_imageWidth rdr \<le> t_stride rdr" "t_imageHeight rdr * t_stride rdr + t_stride rdr < 2 ^ 31"
      "int (length (t_intData rdr)) = (t_imageHeight rdr - 1) * t_stride rdr + t_imageWidth rdr"
    and whole: "t_txMin rdr = 0" "t_tyMin rdr = 0" "t_txMax rdr = t_imageWidth rdr - 1" "t_tyMax rdr = t_imageHeight rdr - 1"
  shows "t_interpolate rdr \<and> \<not> t_repeat rdr \<and> t_imageWidth rdr = 1 \<and> start_tx rdr < 0 \<and> t_tyMax rdr \<le> start_ty rdr \<longrightarrow> genTexturePaint rdr height = None"
    and "t_interpolate rdr \<and> \<not> t_repeat rdr \<and> t_imageHeight rdr = 1 \<and> start_ty rdr < 0 \<longrightarrow> genTexturePaint rdr height = None"
    and "t_repeat rdr \<and> 65536 dvd t_imageWidth rdr \<and> (start_tx rdr < -1 \<or> t_txMax rdr < start_tx rdr) \<longrightarrow> genTexturePaint rdr height = None"
proof -
  have h: "1 * t_stride rdr \<le> t_imageHeight rdr * t_stride rdr" "t_imageHeight rdr * 1 \<le> t_imageHeight rdr * t_stride rdr"
    using rows by (intro mult_right_mono mult_left_mono; simp)+
  have long: "t_imageHeight rdr * t_stride rdr + t_stride rdr < 2147483648" using rows(4) by simp
  then have "t_imageWidth rdr < 2147483648" "t_imageHeight rdr < 2147483648" using h rows(1-3) by linarith+
  then have i: "i32 (t_imageWidth rdr - 1) = t_imageWidth rdr - 1" "i32 (t_imageHeight rdr - 1) = t_imageHeight rdr - 1" "i32 (0 - 1) = -1" "i32 (- 1) = -1"
    using rows(1,2) by (simp_all add: i32_small i32_id is_i32_def)
  have last: "i32 ((t_imageHeight rdr - 1) * t_stride rdr) = (t_imageHeight rdr - 1) * t_stride rdr" using rows h by (intro i32_small) (auto simp: algebra_simps)
  show "t_interpolate rdr \<and> \<not> t_repeat rdr \<and> t_imageWidth rdr = 1 \<and> start_tx rdr < 0 \<and> t_tyMax rdr \<le> start_ty rdr \<longrightarrow> genTexturePaint rdr height = None"
  proof (clarify, rule smooth_fails [OF assms(1-3) _ _ refl refl], goal_cases)
    case (3 p00)
    then have "checkBoundsNoRepeat (start_tx rdr) (i32 (0 - 1)) (t_imageWidth rdr - 1) = -1"
      "checkBoundsNoRepeat (start_ty rdr) (i32 (0 - 1)) (t_imageHeight rdr - 1) = t_imageHeight rdr - 1"
      using whole rows by (auto simp: checkBoundsNoRepeat_def i)
    then show ?case using 3 rows last by (simp add: whole getPointsToInterpolate_def Let_def i i32_small aget_def)
  qed
  show "t_interpolate rdr \<and> \<not> t_repeat rdr \<and> t_imageHeight rdr = 1 \<and> start_ty rdr < 0 \<longrightarrow> genTexturePaint rdr height = None"
  proof (clarify, rule smooth_fails [OF assms(1-3) _ _ refl refl], goal_cases)
    case (3 p00)
    define c where "c = checkBoundsNoRepeat (start_tx rdr) (- 1) (t_imageWidth rdr - 1)"
    have c: "-1 \<le> c" "c \<le> t_imageWidth rdr - 1" using rows by (auto simp: c_def checkBoundsNoRepeat_def)
    have "checkBoundsNoRepeat (start_ty rdr) (i32 (0 - 1)) (t_imageHeight rdr - 1) = -1" using 3 rows by (auto simp: checkBoundsNoRepeat_def i)
    moreover have "i32 (max 0 c) = max 0 c" "i32 (max 0 c + t_stride rdr) = max 0 c + t_stride rdr" using c rows(1,3) long h(1) by (intro i32_small; linarith)+
    moreover have "aget (t_intData rdr) (max 0 c + t_stride rdr) = None" using rows 3 by (simp add: aget_def)
    ultimately show ?case using 3 by (simp add: whole getPointsToInterpolate_def Let_def i i32_small flip: c_def)
  qed
  show "t_repeat rdr \<and> 65536 dvd t_imageWidth rdr \<and> (start_tx rdr < -1 \<or> t_txMax rdr < start_tx rdr) \<longrightarrow> genTexturePaint rdr height = None"
  proof (clarify, rule first_row_fails [OF assms(1,2)])
    assume r: "t_repeat rdr" "65536 dvd t_imageWidth rdr" "start_tx rdr < -1 \<or> t_txMax rdr < start_tx rdr"
    then obtain m where "t_imageWidth rdr = 65536 * m" by (auto simp: dvd_def)
    then have "push_bit 16 (t_txMax rdr + 1) = 4294967296 * m" by (simp add: whole push_bit_eq_mult)
    then have "i32 (push_bit 16 (t_txMax rdr + 1)) = 0" using i32_cong [of "4294967296 * m" 0] by (simp add: i32_small)
    then have "checkBoundsRepeat (start_tx rdr) l (i32 (t_txMin rdr - 1)) (t_txMax rdr) = None" for l
      using r(3) rows whole by (auto simp: checkBoundsRepeat_def lmod_def i)
    moreover have "repeats (repeatInterpolateMode rdr)" "repeatInterpolateMode rdr \<noteq> NO_REPEAT_NO_INTERPOLATE" using r(1) by (simp_all add: repeatInterpolateMode_def)
    ultimately have "fill_span (translate_step (repeatInterpolateMode rdr) rdr ty hfrac vfrac) (nat (r_alphaWidth rdr)) 0
        (i64 (i32 (push_bit 16 (r_currX rdr)) + t_m02 rdr)) (r_paint rdr) = None" and "repeatInterpolateMode rdr \<noteq> NO_REPEAT_NO_INTERPOLATE" for ty hfrac vfrac
      using assms(3) by (auto intro!: fill_span_first simp: translate_step_def checkBounds_def simp flip: start_tx_def)
    then show "translate_row (repeatInterpolateMode rdr) rdr (i32 (r_currY rdr)) 0 (r_paint rdr) = None"
      by (simp add: translate_row_def Let_def split_def)
  qed
qed

end
