(* ===== verification/PiscesRenderer.thy ===== *)
theory PiscesRenderer
  imports PiscesTexture
begin

unbundle bit_operations_syntax

text \<open>
  The state of the software renderer, \<open>native-prism-sw/PiscesRenderer.inl\<close> with
  \<open>PiscesTransform.c\<close>: the setters, the lazily updated tables of routines, the internal colour and the
  textures the renderer owns. The setters only mark what they invalidate; \<open>VALIDATE_BLITTING\<close> brings
  the tables up to date before anything is drawn.
\<close>

section \<open>Model\<close>

subsection \<open>Transforms\<close>

record Transform6 =
  m00 :: jint
  m01 :: jint
  m10 :: jint
  m11 :: jint
  m02 :: jint
  m12 :: jint

definition pisces_transform_invert :: "('f, 'd) arith \<Rightarrow> Transform6 \<Rightarrow> Transform6" where
  "pisces_transform_invert fl t =
     (let sub = f_sub fl; mul = f_mul fl; neg = f_neg fl; num = f_of_jint fl;
          fm00 = f_div fl (num (m00 t)) (num 65536); fm01 = f_div fl (num (m01 t)) (num 65536);
          fm02 = f_div fl (num (m02 t)) (num 65536); fm10 = f_div fl (num (m10 t)) (num 65536);
          fm11 = f_div fl (num (m11 t)) (num 65536); fm12 = f_div fl (num (m12 t)) (num 65536);
          fdet = sub (mul fm00 fm11) (mul fm01 fm10);
          fa00 = f_div fl fm11 fdet;
          fa01 = f_div fl (neg fm01) fdet;
          fa10 = f_div fl (neg fm10) fdet;
          fa11 = f_div fl fm00 fdet;
          fa02 = f_div fl (sub (mul fm01 fm12) (mul fm02 fm11)) fdet;
          fa12 = f_div fl (sub (mul fm02 fm10) (mul fm00 fm12)) fdet;
          fix = (\<lambda>f. f_to_jint fl (mul f (num 65536)))
      in \<lparr>m00 = fix fa00, m01 = fix fa01, m10 = fix fa10, m11 = fix fa11, m02 = fix fa02, m12 = fix fa12\<rparr>)"

definition pisces_transform_multiply :: "Transform6 \<Rightarrow> Transform6 \<Rightarrow> Transform6" where
  "pisces_transform_multiply d s =
     \<lparr>m00 = i32 (drop_bit 16 (i64 (m00 d * m00 s + m01 d * m10 s))),
      m01 = i32 (drop_bit 16 (i64 (m00 d * m01 s + m01 d * m11 s))),
      m10 = i32 (drop_bit 16 (i64 (m10 d * m00 s + m11 d * m10 s))),
      m11 = i32 (drop_bit 16 (i64 (m10 d * m01 s + m11 d * m11 s))),
      m02 = i32 (drop_bit 16 (i64 (push_bit 16 (m02 d) + m00 d * m02 s + m01 d * m12 s))),
      m12 = i32 (drop_bit 16 (i64 (push_bit 16 (m12 d) + m10 d * m02 s + m11 d * m12 s)))\<rparr>"

subsection \<open>The renderer\<close>

text \<open>The functions the renderer calls through pointers; a null pointer is \<open>None\<close>.\<close>

datatype rows_fn =
    BlitSrcOver | BlitPTSrcOver | BlitSrc | BlitPTSrc
  | BlitSrcOverMask | BlitPTSrcOverMask | BlitSrcMask | BlitPTSrcMask
  | BlitSrcOverLCDMask

datatype line_fn = EmitLineSource | EmitLineSourceOver | EmitLinePTSource | EmitLinePTSourceOver

datatype paint_fn = GenLinearGradientPaint | GenRadialGradientPaint | GenTexturePaint | GenTexturePaintMultiply

record routines =
  bl_SourceOverMask :: "rows_fn option"
  bl_PT_SourceOverMask :: "rows_fn option"
  bl_SourceMask :: "rows_fn option"
  bl_PT_SourceMask :: "rows_fn option"
  bl_SourceOverLCDMask :: "rows_fn option"
  bl_PT_SourceOverLCDMask :: "rows_fn option"
  bl_SourceLCDMask :: "rows_fn option"
  bl_PT_SourceLCDMask :: "rows_fn option"
  bl_SourceOverNoMask :: "rows_fn option"
  bl_PT_SourceOverNoMask :: "rows_fn option"
  bl_SourceNoMask :: "rows_fn option"
  bl_PT_SourceNoMask :: "rows_fn option"
  bl_SourceOver :: "rows_fn option"
  bl_PT_SourceOver :: "rows_fn option"
  bl_Source :: "rows_fn option"
  bl_PT_Source :: "rows_fn option"
  el_Source :: "line_fn option"
  el_SourceOver :: "line_fn option"
  el_PT_Source :: "line_fn option"
  el_PT_SourceOver :: "line_fn option"
  bl_Clear :: "rows_fn option"
  bl_PT_Clear :: "rows_fn option"
  bl :: "rows_fn option"
  bl_PT :: "rows_fn option"
  el :: "line_fn option"
  el_PT :: "line_fn option"
  clearRect_set :: bool
  emitRows :: "rows_fn option"
  emitLine :: "line_fn option"
  genPaint :: "paint_fn option"

text \<open>A surface; \<open>sf_data\<close> is the array its \<open>data\<close> pointer leads to, empty for the null pointer.\<close>

record surface =
  sf_width :: jint
  sf_height :: jint
  sf_offset :: jint
  sf_scanlineStride :: jint
  sf_pixelStride :: jint
  sf_imageType :: jint
  sf_data :: "jint list"

text \<open>
  Blocks of the C heap have numbers. A pointer of the renderer is null, leads to such a block, or to
  an array of Java that is pinned during a call; only a live block may be freed.
\<close>

datatype ptr = Null | Block nat | Pinned

fun my_free :: "ptr \<Rightarrow> nat set \<Rightarrow> nat set option" where
  "my_free Null heap = Some heap"
| "my_free (Block b) heap = (if b \<in> heap then Some (heap - {b}) else None)"
| "my_free Pinned heap = None"

text \<open>
  The rest of \<open>struct _Renderer\<close>. \<open>_texture_byteData\<close> and \<open>_texture_alphaData\<close> are null in every state and
  are left out.
\<close>

record 'f renderer = painter +
  rn_geo :: "'f gradient_geometry"
  rn_paint_transform :: Transform6
  rn_gradient_transform :: Transform6
  rn_gradient_inverse_transform :: Transform6
  rn_paintMode :: jint
  rn_ured :: jint
  rn_ugreen :: jint
  rn_ublue :: jint
  rn_ualpha :: jint
  rn_compositeRule :: jint
  rn_surface :: surface
  rn_imageType :: jint
  rn_fn :: routines
  rn_rowNum :: jint
  rn_rectX :: jint
  rn_rectY :: jint
  rn_mask_free :: bool
  rn_maskType :: jint
  rn_mask :: ptr
  rn_mask_width :: jint
  rn_mask_height :: jint
  rn_texture :: ptr
  rn_texture_free :: bool
  rn_clip_bbMinX :: jint
  rn_clip_bbMinY :: jint
  rn_clip_bbMaxX :: jint
  rn_clip_bbMaxY :: jint
  rn_rendererState :: jint
  rn_heap :: "nat set"

definition COMPOSITE_CLEAR :: jint where "COMPOSITE_CLEAR = 0"
definition COMPOSITE_SRC :: jint where "COMPOSITE_SRC = 1"
definition COMPOSITE_SRC_OVER :: jint where "COMPOSITE_SRC_OVER = 2"
definition TYPE_INT_ARGB_PRE :: jint where "TYPE_INT_ARGB_PRE = 1"
definition IMAGE_MODE_NORMAL :: jint where "IMAGE_MODE_NORMAL = 1"
definition PAINT_TEXTURE8888 :: jint where "PAINT_TEXTURE8888 = 4"
definition PAINT_TEXTURE8888_MULTIPLY :: jint where "PAINT_TEXTURE8888_MULTIPLY = 5"
definition NO_MASK :: jint where "NO_MASK = 0"
definition ALPHA_MASK :: jint where "ALPHA_MASK = 1"
definition LCD_ALPHA_MASK :: jint where "LCD_ALPHA_MASK = 2"

definition INVALID_COLOR_ALPHA_MAP :: jint where "INVALID_COLOR_ALPHA_MAP = 1"
definition INVALID_PAINT_ALPHA_MAP :: jint where "INVALID_PAINT_ALPHA_MAP = 2"
definition INVALID_INTERNAL_COLOR :: jint where "INVALID_INTERNAL_COLOR = 8"
definition INVALID_RENDERER_SURFACE :: jint where "INVALID_RENDERER_SURFACE = 16"
definition INVALID_COMPOSITE_DEPENDED_ROUTINES :: jint where "INVALID_COMPOSITE_DEPENDED_ROUTINES = 32"
definition INVALID_PAINT_DEPENDED_ROUTINES :: jint where "INVALID_PAINT_DEPENDED_ROUTINES = 64"
definition INVALID_MASK_DEPENDED_ROUTINES :: jint where "INVALID_MASK_DEPENDED_ROUTINES = 128"

definition INVALID_BLITTING_MASK :: jint where
  "INVALID_BLITTING_MASK = INVALID_INTERNAL_COLOR OR INVALID_RENDERER_SURFACE OR INVALID_COMPOSITE_DEPENDED_ROUTINES
     OR INVALID_PAINT_DEPENDED_ROUTINES OR INVALID_MASK_DEPENDED_ROUTINES"

definition INVALID_ALL :: jint where
  "INVALID_ALL = INVALID_COLOR_ALPHA_MAP OR INVALID_PAINT_ALPHA_MAP OR INVALID_BLITTING_MASK"

definition mark :: "jint \<Rightarrow> ('f, 'a) renderer_scheme \<Rightarrow> ('f, 'a) renderer_scheme" where
  "mark flags rdr = rdr\<lparr>rn_rendererState := rn_rendererState rdr OR flags\<rparr>"

definition unmark :: "jint \<Rightarrow> ('f, 'a) renderer_scheme \<Rightarrow> ('f, 'a) renderer_scheme" where
  "unmark flags rdr = rdr\<lparr>rn_rendererState := rn_rendererState rdr AND NOT flags\<rparr>"

definition INVALIDATE_RENDERER_SURFACE :: "('f, 'a) renderer_scheme \<Rightarrow> ('f, 'a) renderer_scheme" where
  "INVALIDATE_RENDERER_SURFACE rdr = mark INVALID_RENDERER_SURFACE rdr"

subsection \<open>The tables of routines\<close>

definition updatePaintDependedRoutines :: "('f, 'a) renderer_scheme \<Rightarrow> ('f, 'a) renderer_scheme" where
  "updatePaintDependedRoutines rdr =
     (let f = rn_fn rdr; mode = rn_paintMode rdr;
          paint = (\<lambda>g. f\<lparr>genPaint := Some g, emitRows := bl_PT f, emitLine := el_PT f\<rparr>);
          f = (if mode = PAINT_LINEAR_GRADIENT then paint GenLinearGradientPaint
               else if mode = PAINT_RADIAL_GRADIENT then paint GenRadialGradientPaint
               else if mode = PAINT_TEXTURE8888 then paint GenTexturePaint
               else if mode = PAINT_TEXTURE8888_MULTIPLY then paint GenTexturePaintMultiply
               else if mode = PAINT_FLAT_COLOR then f\<lparr>genPaint := None, emitRows := bl f, emitLine := el f\<rparr>
               else f)
      in unmark INVALID_PAINT_DEPENDED_ROUTINES (rdr\<lparr>rn_fn := f\<rparr>))"

definition updateCompositeDependedRoutines :: "('f, 'a) renderer_scheme \<Rightarrow> ('f, 'a) renderer_scheme" where
  "updateCompositeDependedRoutines rdr =
     (let f = rn_fn rdr; rule = rn_compositeRule rdr;
          f = (if rule = COMPOSITE_SRC_OVER then
                 f\<lparr>bl := bl_SourceOver f, bl_PT := bl_PT_SourceOver f, el := el_SourceOver f, el_PT := el_PT_SourceOver f\<rparr>
               else if rule = COMPOSITE_SRC then
                 f\<lparr>bl := bl_Source f, bl_PT := bl_PT_Source f, el := el_Source f, el_PT := el_PT_Source f\<rparr>
               else if rule = COMPOSITE_CLEAR then
                 f\<lparr>bl := bl_Clear f, bl_PT := bl_PT_Clear f, el := el_Source f, el_PT := el_Source f\<rparr>
               else f)
      in unmark INVALID_COMPOSITE_DEPENDED_ROUTINES (updatePaintDependedRoutines (rdr\<lparr>rn_fn := f\<rparr>)))"

definition updateMaskDependedRoutines :: "('f, 'a) renderer_scheme \<Rightarrow> ('f, 'a) renderer_scheme" where
  "updateMaskDependedRoutines rdr =
     (let f = rn_fn rdr; mask = rn_maskType rdr;
          f = (if mask = NO_MASK then
                 f\<lparr>bl_SourceOver := bl_SourceOverNoMask f, bl_PT_SourceOver := bl_PT_SourceOverNoMask f,
                   bl_Source := bl_SourceNoMask f, bl_PT_Source := bl_PT_SourceNoMask f\<rparr>
               else if mask = ALPHA_MASK then
                 f\<lparr>bl_SourceOver := bl_SourceOverMask f, bl_PT_SourceOver := bl_PT_SourceOverMask f,
                   bl_Source := bl_SourceMask f, bl_PT_Source := bl_PT_SourceMask f\<rparr>
               else if mask = LCD_ALPHA_MASK then
                 f\<lparr>bl_SourceOver := bl_SourceOverLCDMask f, bl_PT_SourceOver := bl_PT_SourceOverLCDMask f,
                   bl_Source := bl_SourceLCDMask f, bl_PT_Source := bl_PT_SourceLCDMask f\<rparr>
               else f)
      in unmark INVALID_MASK_DEPENDED_ROUTINES (updateCompositeDependedRoutines (rdr\<lparr>rn_fn := f\<rparr>)))"

definition updateSurfaceDependedRoutines :: "('f, 'a) renderer_scheme \<Rightarrow> ('f, 'a) renderer_scheme" where
  "updateSurfaceDependedRoutines rdr =
     (let f = rn_fn rdr;
          f = (if rn_imageType rdr = TYPE_INT_ARGB_PRE then
                 f\<lparr>bl_SourceOverNoMask := Some BlitSrcOver, bl_PT_SourceOverNoMask := Some BlitPTSrcOver,
                   bl_SourceNoMask := Some BlitSrc, bl_PT_SourceNoMask := Some BlitPTSrc,
                   bl_SourceOverMask := Some BlitSrcOverMask, bl_PT_SourceOverMask := Some BlitPTSrcOverMask,
                   bl_SourceMask := Some BlitSrcMask, bl_PT_SourceMask := Some BlitPTSrcMask,
                   bl_SourceOverLCDMask := Some BlitSrcOverLCDMask, bl_PT_SourceOverLCDMask := None,
                   bl_SourceLCDMask := None, bl_PT_SourceLCDMask := None,
                   bl_Clear := Some BlitSrc, bl_PT_Clear := Some BlitSrc, clearRect_set := True,
                   el_Source := Some EmitLineSource, el_SourceOver := Some EmitLineSourceOver,
                   el_PT_Source := Some EmitLinePTSource, el_PT_SourceOver := Some EmitLinePTSourceOver\<rparr>
               else f)
      in updateMaskDependedRoutines (rdr\<lparr>rn_fn := f\<rparr>))"

definition updateRendererSurface :: "('f, 'a) renderer_scheme \<Rightarrow> ('f, 'a) renderer_scheme" where
  "updateRendererSurface rdr =
     (let s = rn_surface rdr;
          rdr = rdr\<lparr>r_width := sf_width s, r_height := sf_height s, r_data := sf_data s, r_imageOffset := sf_offset s,
                  r_imageScanlineStride := sf_scanlineStride s, r_imagePixelStride := sf_pixelStride s\<rparr>;
          rdr = (if rn_imageType rdr \<noteq> sf_imageType s then
                   let rdr = (if rn_compositeRule rdr \<noteq> COMPOSITE_SRC_OVER \<and> sf_imageType s = TYPE_INT_ARGB_PRE
                              then mark (INVALID_COLOR_ALPHA_MAP OR INVALID_PAINT_ALPHA_MAP) rdr else rdr)
                   in updateSurfaceDependedRoutines (rdr\<lparr>rn_imageType := sf_imageType s\<rparr>)
                 else rdr)
      in unmark INVALID_RENDERER_SURFACE rdr)"

definition updateInternalColor :: "('f, 'a) renderer_scheme \<Rightarrow> ('f, 'a) renderer_scheme" where
  "updateInternalColor rdr =
     unmark INVALID_INTERNAL_COLOR
       (if rn_compositeRule rdr = COMPOSITE_CLEAR then rdr\<lparr>r_cred := 0, r_cgreen := 0, r_cblue := 0, r_calpha := 0\<rparr>
        else rdr\<lparr>r_cred := rn_ured rdr, r_cgreen := rn_ugreen rdr, r_cblue := rn_ublue rdr, r_calpha := rn_ualpha rdr\<rparr>)"

definition VALIDATE_BLITTING :: "('f, 'a) renderer_scheme \<Rightarrow> ('f, 'a) renderer_scheme" where
  "VALIDATE_BLITTING rdr =
     (if rn_rendererState rdr AND INVALID_BLITTING_MASK \<noteq> 0 then
        let state = rn_rendererState rdr;
            rdr = (if state AND INVALID_RENDERER_SURFACE \<noteq> 0 then updateRendererSurface rdr else rdr);
            rdr = (if state AND INVALID_INTERNAL_COLOR \<noteq> 0 then updateInternalColor rdr else rdr)
        in if state AND INVALID_MASK_DEPENDED_ROUTINES \<noteq> 0 then updateMaskDependedRoutines rdr
           else if state AND INVALID_COMPOSITE_DEPENDED_ROUTINES \<noteq> 0 then updateCompositeDependedRoutines rdr
           else if state AND INVALID_PAINT_DEPENDED_ROUTINES \<noteq> 0 then updatePaintDependedRoutines rdr
           else rdr
      else rdr)"

subsection \<open>The setters\<close>

definition createCommon :: "('f, 'd) arith \<Rightarrow> surface \<Rightarrow> nat set \<Rightarrow> 'f renderer" where
  "createCommon fl s heap =
     (let z = f_of_jint fl 0; id0 = \<lparr>m00 = 0, m01 = 0, m10 = 0, m11 = 0, m02 = 0, m12 = 0\<rparr>
      in \<lparr>r_cred = 0, r_cgreen = 0, r_cblue = 0, r_calpha = 0, r_data = [], r_width = 0, r_height = 0, r_imageOffset = 0,
        r_imageScanlineStride = 0, r_imagePixelStride = 0, r_alphaWidth = 0, r_minTouched = 0, r_maxTouched = 0,
        r_currX = 0, r_currY = 0, r_currImageOffset = 0, r_alphaMap = [], r_rowAAInt = [], r_rowAAOff = 0,
        r_mask_byteData = [], r_maskOffset = 0, r_paint = [], r_el_lfrac = 0, r_el_rfrac = 0,
        g_cycleMethod = 0, g_colors = replicate 256 0, t_prevPaintMode = 0, t_intData = [], t_hasAlpha = False,
        t_imageWidth = 0, t_imageHeight = 0, t_stride = 0, t_txMin = 0, t_tyMin = 0, t_txMax = 0, t_tyMax = 0,
        t_repeat = False, t_m00 = 0, t_m01 = 0, t_m02 = 0, t_m10 = 0, t_m11 = 0, t_m12 = 0, t_interpolate = False, t_transformType = 0,
        rn_geo = \<lparr>lg_mx = z, lg_my = z, lg_b = z, rg_a00 = z, rg_a01 = z, rg_a02 = z, rg_a10 = z, rg_a11 = z, rg_a12 = z,
          rg_cx = z, rg_cy = z, rg_fx = z, rg_fy = z, rg_rsq = z, rg_a00a00 = z, rg_a10a10 = z, rg_a00a10 = z\<rparr>,
        rn_paint_transform = id0, rn_gradient_transform = id0, rn_gradient_inverse_transform = id0,
        rn_paintMode = PAINT_FLAT_COLOR, rn_ured = 0, rn_ugreen = 0, rn_ublue = 0, rn_ualpha = 0,
        rn_compositeRule = COMPOSITE_SRC_OVER, rn_surface = s, rn_imageType = -1,
        rn_fn = \<lparr>bl_SourceOverMask = None, bl_PT_SourceOverMask = None, bl_SourceMask = None, bl_PT_SourceMask = None,
          bl_SourceOverLCDMask = None, bl_PT_SourceOverLCDMask = None, bl_SourceLCDMask = None, bl_PT_SourceLCDMask = None,
          bl_SourceOverNoMask = None, bl_PT_SourceOverNoMask = None, bl_SourceNoMask = None, bl_PT_SourceNoMask = None,
          bl_SourceOver = None, bl_PT_SourceOver = None, bl_Source = None, bl_PT_Source = None,
          el_Source = None, el_SourceOver = None, el_PT_Source = None, el_PT_SourceOver = None,
          bl_Clear = None, bl_PT_Clear = None, bl = None, bl_PT = None, el = None, el_PT = None,
          clearRect_set = False, emitRows = None, emitLine = None, genPaint = None\<rparr>,
        rn_rowNum = 0, rn_rectX = 0, rn_rectY = 0, rn_mask_free = False, rn_maskType = NO_MASK, rn_mask = Null,
        rn_mask_width = 0, rn_mask_height = 0, rn_texture = Null, rn_texture_free = False,
        rn_clip_bbMinX = 0, rn_clip_bbMinY = 0, rn_clip_bbMaxX = i32 (sf_width s - 1), rn_clip_bbMaxY = i32 (sf_height s - 1),
        rn_rendererState = INVALID_ALL, rn_heap = heap\<rparr>)"

definition free_texture :: "('f, 'a) renderer_scheme \<Rightarrow> ('f, 'a) renderer_scheme option" where
  "free_texture rdr =
     (if rn_texture_free rdr then do { heap \<leftarrow> my_free (rn_texture rdr) (rn_heap rdr); Some (rdr\<lparr>rn_heap := heap\<rparr>) }
      else Some rdr)"

text \<open>
  \<open>renderer_dispose\<close> answers the heap that is left. \<open>_rowAAInt\<close> leads to a pinned array or is null, so that
  only the null pointer may be freed; the paint buffer and the renderer are blocks of their own, which
  nothing else refers to.
\<close>

definition renderer_dispose :: "('f, 'a) renderer_scheme \<Rightarrow> nat set option" where
  "renderer_dispose rdr =
     do { heap \<leftarrow> my_free (if r_rowAAInt rdr = [] then Null else Pinned) (rn_heap rdr);
          rdr \<leftarrow> free_texture (rdr\<lparr>rn_heap := heap\<rparr>);
          Some (rn_heap rdr) }"

definition setPaintMode :: "jint \<Rightarrow> ('f, 'a) renderer_scheme \<Rightarrow> ('f, 'a) renderer_scheme option" where
  "setPaintMode newPaintMode rdr =
     (if rn_paintMode rdr \<noteq> newPaintMode then
        do { rdr \<leftarrow> free_texture rdr;
             Some ((mark INVALID_PAINT_DEPENDED_ROUTINES (rdr\<lparr>rn_texture := Null, t_intData := []\<rparr>))
               \<lparr>t_prevPaintMode := rn_paintMode rdr, rn_paintMode := newPaintMode\<rparr>) }
      else Some rdr)"

definition renderer_setClip :: "jint \<Rightarrow> jint \<Rightarrow> jint \<Rightarrow> jint \<Rightarrow> ('f, 'a) renderer_scheme \<Rightarrow> ('f, 'a) renderer_scheme" where
  "renderer_setClip minX minY width height rdr =
     rdr\<lparr>rn_clip_bbMinX := minX, rn_clip_bbMinY := minY,
        rn_clip_bbMaxX := i32 (minX + width - 1), rn_clip_bbMaxY := i32 (minY + height - 1)\<rparr>"

definition renderer_setColor :: "jint \<Rightarrow> jint \<Rightarrow> jint \<Rightarrow> jint \<Rightarrow> ('f, 'a) renderer_scheme \<Rightarrow> ('f, 'a) renderer_scheme option" where
  "renderer_setColor red green blue alpha rdr =
     (let rdr = (if rn_ured rdr \<noteq> red \<or> rn_ugreen rdr \<noteq> green \<or> rn_ublue rdr \<noteq> blue \<or> rn_ualpha rdr \<noteq> alpha then
                   let r = mark INVALID_INTERNAL_COLOR rdr;
                       r = (if rn_ualpha rdr \<noteq> alpha then mark (INVALID_COLOR_ALPHA_MAP OR INVALID_PAINT_ALPHA_MAP) r else r)
                   in r\<lparr>rn_ured := red, rn_ugreen := green, rn_ublue := blue, rn_ualpha := alpha\<rparr>
                 else rdr)
      in setPaintMode PAINT_FLAT_COLOR rdr)"

definition renderer_setCompositeRule :: "jint \<Rightarrow> ('f, 'a) renderer_scheme \<Rightarrow> ('f, 'a) renderer_scheme" where
  "renderer_setCompositeRule rule rdr =
     (if rn_compositeRule rdr \<noteq> rule then
        let r = mark (INVALID_INTERNAL_COLOR OR INVALID_COMPOSITE_DEPENDED_ROUTINES) rdr;
            r = (if rule = COMPOSITE_SRC_OVER \<or> (rule = COMPOSITE_CLEAR \<or> rule = COMPOSITE_SRC) \<and> rn_imageType rdr = TYPE_INT_ARGB_PRE
                 then mark (INVALID_COLOR_ALPHA_MAP OR INVALID_PAINT_ALPHA_MAP) r else r)
        in r\<lparr>rn_compositeRule := rule\<rparr>
      else rdr)"

text \<open>The geometry of the gradients. \<open>minv\<close> is the inverse of the gradient transform.\<close>

definition linear_geometry ::
    "('f, 'd) arith \<Rightarrow> jint \<Rightarrow> jint \<Rightarrow> jint \<Rightarrow> jint \<Rightarrow> Transform6 \<Rightarrow> 'f gradient_geometry \<Rightarrow> 'f gradient_geometry" where
  "linear_geometry fl x0 y0 x1 y1 minv geo =
     (let add = f_add fl; sub = f_sub fl; mul = f_mul fl; quo = f_div fl; num = f_of_jint fl;
          a00 = num (m00 minv); a01 = num (m01 minv); a02 = quo (num (m02 minv)) (num 65536);
          a10 = num (m10 minv); a11 = num (m11 minv); a12 = quo (num (m12 minv)) (num 65536);
          fx0 = quo (num x0) (num 65536); fx1 = quo (num x1) (num 65536);
          fy0 = quo (num y0) (num 65536); fy1 = quo (num y1) (num 65536);
          fdx = sub fx1 fx0; fdy = sub fy1 fy0;
          flensq = add (mul fdx fdx) (mul fdy fdy);
          t = add (mul fdx fx0) (mul fdy fy0)
      in geo\<lparr>lg_mx := quo (add (mul a00 fdx) (mul a10 fdy)) flensq,
             lg_my := quo (add (mul a01 fdx) (mul a11 fdy)) flensq,
             lg_b := quo (mul (num 65536) (sub (add (mul a02 fdx) (mul a12 fdy)) t)) flensq\<rparr>)"

definition radial_geometry ::
    "('f, 'd) arith \<Rightarrow> jint \<Rightarrow> jint \<Rightarrow> jint \<Rightarrow> jint \<Rightarrow> jint \<Rightarrow> Transform6 \<Rightarrow> 'f gradient_geometry \<Rightarrow> 'f gradient_geometry" where
  "radial_geometry fl cx cy fx fy radius minv geo =
     (let add = f_add fl; sub = f_sub fl; mul = f_mul fl; quo = f_div fl; num = f_of_jint fl;
          a00 = quo (num (m00 minv)) (num 65536); a01 = quo (num (m01 minv)) (num 65536); a02 = quo (num (m02 minv)) (num 65536);
          a10 = quo (num (m10 minv)) (num 65536); a11 = quo (num (m11 minv)) (num 65536); a12 = quo (num (m12 minv)) (num 65536);
          cx' = quo (num cx) (num 65536); cy' = quo (num cy) (num 65536);
          fx' = quo (num fx) (num 65536); fy' = quo (num fy) (num 65536);
          r = quo (num radius) (num 65536);
          rsq = mul r r;
          fcx = sub fx' cx'; fcy = sub fy' cy';
          dsq = add (mul fcx fcx) (mul fcy fcy);
          outside = f_less fl (mul rsq (f_lit fl 94 100)) dsq;
          f = quo (mul r (f_lit fl 97 100)) (f_of_double fl (d_sqrt fl (d_of_float fl dsq)))
      in geo\<lparr>rg_a00 := a00, rg_a01 := a01, rg_a02 := a02, rg_a10 := a10, rg_a11 := a11, rg_a12 := a12,
             rg_a00a00 := mul a00 a00, rg_a10a10 := mul a10 a10, rg_a00a10 := mul a00 a10,
             rg_rsq := rsq, rg_cx := cx', rg_cy := cy',
             rg_fx := if outside then add cx' (mul f fcx) else fx',
             rg_fy := if outside then add cy' (mul f fcy) else fy'\<rparr>)"

definition copy_colors :: "jint list \<Rightarrow> ('f, 'a) renderer_scheme \<Rightarrow> ('f, 'a) renderer_scheme option" where
  "copy_colors colors rdr = do { cs \<leftarrow> aread colors 0 256; Some (rdr\<lparr>g_colors := cs\<rparr>) }"

definition renderer_setLinearGradient ::
    "('f, 'd) arith \<Rightarrow> jint \<Rightarrow> jint \<Rightarrow> jint \<Rightarrow> jint \<Rightarrow> jint list \<Rightarrow> Transform6 \<Rightarrow> ('f, 'a) renderer_scheme \<Rightarrow> ('f, 'a) renderer_scheme option" where
  "renderer_setLinearGradient fl x0 y0 x1 y1 colors transform rdr =
     (let minv = pisces_transform_invert fl transform;
          rdr = rdr\<lparr>rn_gradient_transform := transform, rn_gradient_inverse_transform := minv,
                  rn_geo := linear_geometry fl x0 y0 x1 y1 minv (rn_geo rdr)\<rparr>
      in do { rdr \<leftarrow> setPaintMode PAINT_LINEAR_GRADIENT rdr; copy_colors colors rdr })"

definition renderer_setRadialGradient ::
    "('f, 'd) arith \<Rightarrow> jint \<Rightarrow> jint \<Rightarrow> jint \<Rightarrow> jint \<Rightarrow> jint \<Rightarrow> jint list \<Rightarrow> Transform6 \<Rightarrow> ('f, 'a) renderer_scheme \<Rightarrow> ('f, 'a) renderer_scheme option" where
  "renderer_setRadialGradient fl cx cy fx fy radius colors transform rdr =
     (let minv = pisces_transform_invert fl transform;
          rdr = rdr\<lparr>rn_gradient_transform := transform, rn_gradient_inverse_transform := minv,
                  rn_geo := radial_geometry fl cx cy fx fy radius minv (rn_geo rdr)\<rparr>
      in do { rdr \<leftarrow> setPaintMode PAINT_RADIAL_GRADIENT rdr; copy_colors colors rdr })"

text \<open>The matrix of a texture and its classification.\<close>

definition texture_matrix :: "bool \<Rightarrow> Transform6 \<Rightarrow> ('f, 'a) renderer_scheme \<Rightarrow> ('f, 'a) renderer_scheme" where
  "texture_matrix smoothImage c rdr =
     (let rdr = rdr\<lparr>t_m00 := m00 c, t_m01 := m01 c, t_m10 := m10 c, t_m11 := m11 c, t_m02 := m02 c, t_m12 := m12 c\<rparr>
      in if smoothImage then
           rdr\<lparr>t_interpolate := True,
              t_m02 := i64 (t_m02 rdr + (drop_bit 1 (t_m00 rdr) + drop_bit 1 (t_m01 rdr) - 32768)),
              t_m12 := i64 (t_m12 rdr + (drop_bit 1 (t_m10 rdr) + drop_bit 1 (t_m11 rdr) - 32768))\<rparr>
         else rdr\<lparr>t_interpolate := False\<rparr>)"

definition classify_matrix :: "('f, 'a) renderer_scheme \<Rightarrow> ('f, 'a) renderer_scheme" where
  "classify_matrix rdr =
     (if t_m00 rdr = 65536 \<and> t_m11 rdr = 65536 \<and> t_m01 rdr = 0 \<and> t_m10 rdr = 0 then
        if t_m02 rdr = 0 \<and> t_m12 rdr = 0 then rdr\<lparr>t_transformType := TEXTURE_TRANSFORM_IDENTITY, t_interpolate := False\<rparr>
        else
          let rdr = rdr\<lparr>t_transformType := TEXTURE_TRANSFORM_TRANSLATE\<rparr>
          in if t_m02 rdr AND 0xFFFF = 0 \<and> t_m12 rdr AND 0xFFFF = 0 then rdr\<lparr>t_interpolate := False\<rparr> else rdr
      else if t_m01 rdr = 0 \<and> t_m10 rdr = 0 then rdr\<lparr>t_transformType := TEXTURE_TRANSFORM_SCALE_TRANSLATE\<rparr>
      else rdr\<lparr>t_transformType := TEXTURE_TRANSFORM_GENERIC\<rparr>)"

definition renderer_setTexture ::
    "('f, 'd) arith \<Rightarrow> jint \<Rightarrow> ptr \<Rightarrow> jint list \<Rightarrow> jint \<Rightarrow> jint \<Rightarrow> jint \<Rightarrow> bool \<Rightarrow> bool \<Rightarrow> Transform6 \<Rightarrow> bool \<Rightarrow> bool \<Rightarrow>
     jint \<Rightarrow> jint \<Rightarrow> jint \<Rightarrow> jint \<Rightarrow> ('f, 'a) renderer_scheme \<Rightarrow> ('f, 'a) renderer_scheme option" where
  "renderer_setTexture fl renderMode p data width height stride rep smoothImage transform freeData textureHasAlpha txMin tyMin txMax tyMax rdr =
     (let rdr = rdr\<lparr>rn_paint_transform := transform\<rparr>;
          compoundTransform = pisces_transform_invert fl transform
      in do { rdr \<leftarrow> setPaintMode (if renderMode = IMAGE_MODE_NORMAL then PAINT_TEXTURE8888 else PAINT_TEXTURE8888_MULTIPLY) rdr;
              rdr \<leftarrow> free_texture rdr;
              Some (classify_matrix (texture_matrix smoothImage compoundTransform
                (rdr\<lparr>rn_texture_free := freeData, t_hasAlpha := textureHasAlpha, rn_texture := p, t_intData := data,
                   t_imageWidth := width, t_imageHeight := height, t_stride := stride, t_repeat := rep,
                   t_txMin := txMin, t_tyMin := tyMin, t_txMax := txMax, t_tyMax := tyMax\<rparr>))) })"

definition free_mask :: "('f, 'a) renderer_scheme \<Rightarrow> ('f, 'a) renderer_scheme option" where
  "free_mask rdr =
     (if rn_mask_free rdr then do { heap \<leftarrow> my_free (rn_mask rdr) (rn_heap rdr); Some (rdr\<lparr>rn_heap := heap\<rparr>) }
      else Some rdr)"

definition renderer_setMask ::
    "jint \<Rightarrow> ptr \<Rightarrow> jbyte list \<Rightarrow> jint \<Rightarrow> jint \<Rightarrow> bool \<Rightarrow> ('f, 'a) renderer_scheme \<Rightarrow> ('f, 'a) renderer_scheme option" where
  "renderer_setMask maskType p data width height freeData rdr =
     do { rdr \<leftarrow> free_mask rdr;
          Some (mark (INVALID_BLITTING_MASK OR INVALID_MASK_DEPENDED_ROUTINES)
            (rdr\<lparr>rn_mask_free := freeData, rn_maskType := maskType, rn_mask := p, r_mask_byteData := data,
               rn_mask_width := width, rn_mask_height := height\<rparr>)) }"

definition renderer_removeMask :: "('f, 'a) renderer_scheme \<Rightarrow> ('f, 'a) renderer_scheme option" where
  "renderer_removeMask rdr =
     do { rdr \<leftarrow> free_mask rdr;
          Some (mark (INVALID_BLITTING_MASK OR INVALID_MASK_DEPENDED_ROUTINES)
            (rdr\<lparr>rn_maskType := NO_MASK, rn_mask := Null, r_mask_byteData := []\<rparr>)) }"

text \<open>Clearing, clipped to the surface and to the clip rectangle.\<close>

definition renderer_clearRect ::
    "jint \<Rightarrow> jint \<Rightarrow> jint \<Rightarrow> jint \<Rightarrow> ('f, 'a) renderer_scheme \<Rightarrow> ('f, 'a) renderer_scheme option" where
  "renderer_clearRect x y w h rdr =
     (let maxX = i32 (x + w - 1); maxY = i32 (y + h - 1);
          rdr = VALIDATE_BLITTING rdr;
          x = max (max x 0) (rn_clip_bbMinX rdr);
          y = max (max y 0) (rn_clip_bbMinY rdr);
          maxX = min (min maxX (i32 (r_width rdr - 1))) (rn_clip_bbMaxX rdr);
          maxY = min (min maxY (i32 (r_height rdr - 1))) (rn_clip_bbMaxY rdr)
      in if x \<le> maxX \<and> y \<le> maxY then
           if clearRect_set (rn_fn rdr) then clearRect8888_any rdr x y (i32 (maxX - x + 1)) (i32 (maxY - y + 1)) else None
         else Some rdr)"

section \<open>The tables are right when they are used\<close>

subsection \<open>Specification\<close>

text \<open>The routine for each mask, composite rule and kind of paint, without any caching.\<close>

definition rows_for :: "jint \<Rightarrow> jint \<Rightarrow> bool \<Rightarrow> rows_fn option" where
  "rows_for mt rule flat =
     (if rule = COMPOSITE_CLEAR then Some BlitSrc
      else if rule = COMPOSITE_SRC_OVER then
        if mt = NO_MASK then Some (if flat then BlitSrcOver else BlitPTSrcOver)
        else if mt = ALPHA_MASK then Some (if flat then BlitSrcOverMask else BlitPTSrcOverMask)
        else if flat then Some BlitSrcOverLCDMask else None
      else
        if mt = NO_MASK then Some (if flat then BlitSrc else BlitPTSrc)
        else if mt = ALPHA_MASK then Some (if flat then BlitSrcMask else BlitPTSrcMask)
        else None)"

definition line_for :: "jint \<Rightarrow> bool \<Rightarrow> line_fn option" where
  "line_for rule flat =
     (if rule = COMPOSITE_CLEAR then Some EmitLineSource
      else if rule = COMPOSITE_SRC_OVER then Some (if flat then EmitLineSourceOver else EmitLinePTSourceOver)
      else Some (if flat then EmitLineSource else EmitLinePTSource))"

definition paint_for :: "jint \<Rightarrow> paint_fn option" where
  "paint_for mode =
     (if mode = PAINT_LINEAR_GRADIENT then Some GenLinearGradientPaint
      else if mode = PAINT_RADIAL_GRADIENT then Some GenRadialGradientPaint
      else if mode = PAINT_TEXTURE8888 then Some GenTexturePaint
      else if mode = PAINT_TEXTURE8888_MULTIPLY then Some GenTexturePaintMultiply
      else None)"

definition masks :: "jint set" where "masks = {NO_MASK, ALPHA_MASK, LCD_ALPHA_MASK}"
definition rules :: "jint set" where "rules = {COMPOSITE_CLEAR, COMPOSITE_SRC, COMPOSITE_SRC_OVER}"
definition modes :: "jint set" where
  "modes = {PAINT_FLAT_COLOR, PAINT_LINEAR_GRADIENT, PAINT_RADIAL_GRADIENT, PAINT_TEXTURE8888, PAINT_TEXTURE8888_MULTIPLY}"

definition supported :: "('f, 'a) renderer_scheme \<Rightarrow> bool" where
  "supported rdr \<longleftrightarrow> rn_maskType rdr \<in> masks \<and> rn_compositeRule rdr \<in> rules \<and> rn_paintMode rdr \<in> modes
     \<and> sf_imageType (rn_surface rdr) = TYPE_INT_ARGB_PRE"

subsection \<open>Invariant\<close>

definition surf_tab :: "routines \<Rightarrow> bool" where
  "surf_tab f \<longleftrightarrow>
     bl_SourceOverNoMask f = rows_for NO_MASK COMPOSITE_SRC_OVER True \<and> bl_PT_SourceOverNoMask f = rows_for NO_MASK COMPOSITE_SRC_OVER False
   \<and> bl_SourceNoMask f = rows_for NO_MASK COMPOSITE_SRC True \<and> bl_PT_SourceNoMask f = rows_for NO_MASK COMPOSITE_SRC False
   \<and> bl_SourceOverMask f = rows_for ALPHA_MASK COMPOSITE_SRC_OVER True \<and> bl_PT_SourceOverMask f = rows_for ALPHA_MASK COMPOSITE_SRC_OVER False
   \<and> bl_SourceMask f = rows_for ALPHA_MASK COMPOSITE_SRC True \<and> bl_PT_SourceMask f = rows_for ALPHA_MASK COMPOSITE_SRC False
   \<and> bl_SourceOverLCDMask f = rows_for LCD_ALPHA_MASK COMPOSITE_SRC_OVER True \<and> bl_PT_SourceOverLCDMask f = rows_for LCD_ALPHA_MASK COMPOSITE_SRC_OVER False
   \<and> bl_SourceLCDMask f = rows_for LCD_ALPHA_MASK COMPOSITE_SRC True \<and> bl_PT_SourceLCDMask f = rows_for LCD_ALPHA_MASK COMPOSITE_SRC False
   \<and> bl_Clear f = Some BlitSrc \<and> bl_PT_Clear f = Some BlitSrc \<and> clearRect_set f
   \<and> el_Source f = line_for COMPOSITE_SRC True \<and> el_SourceOver f = line_for COMPOSITE_SRC_OVER True
   \<and> el_PT_Source f = line_for COMPOSITE_SRC False \<and> el_PT_SourceOver f = line_for COMPOSITE_SRC_OVER False"

definition mask_tab :: "jint \<Rightarrow> routines \<Rightarrow> bool" where
  "mask_tab mt f \<longleftrightarrow> bl_SourceOver f = rows_for mt COMPOSITE_SRC_OVER True \<and> bl_PT_SourceOver f = rows_for mt COMPOSITE_SRC_OVER False
     \<and> bl_Source f = rows_for mt COMPOSITE_SRC True \<and> bl_PT_Source f = rows_for mt COMPOSITE_SRC False"

definition comp_tab :: "jint \<Rightarrow> jint \<Rightarrow> routines \<Rightarrow> bool" where
  "comp_tab mt rule f \<longleftrightarrow> bl f = rows_for mt rule True \<and> bl_PT f = rows_for mt rule False
     \<and> el f = line_for rule True \<and> el_PT f = line_for rule False"

definition paint_tab :: "jint \<Rightarrow> jint \<Rightarrow> jint \<Rightarrow> routines \<Rightarrow> bool" where
  "paint_tab mt rule mode f \<longleftrightarrow> emitRows f = rows_for mt rule (mode = PAINT_FLAT_COLOR)
     \<and> emitLine f = line_for rule (mode = PAINT_FLAT_COLOR) \<and> genPaint f = paint_for mode"

text \<open>The flags of \<open>_rendererState\<close> by their bit numbers.\<close>

lemma flag_tests:
  "s AND INVALID_INTERNAL_COLOR = 0 \<longleftrightarrow> \<not> bit s 3" "s AND INVALID_RENDERER_SURFACE = 0 \<longleftrightarrow> \<not> bit s 4"
  "s AND INVALID_COMPOSITE_DEPENDED_ROUTINES = 0 \<longleftrightarrow> \<not> bit s 5" "s AND INVALID_PAINT_DEPENDED_ROUTINES = 0 \<longleftrightarrow> \<not> bit s 6"
  "s AND INVALID_MASK_DEPENDED_ROUTINES = 0 \<longleftrightarrow> \<not> bit s 7"
  using and_exp_eq_0_iff_not_bit [of s 3] and_exp_eq_0_iff_not_bit [of s 4] and_exp_eq_0_iff_not_bit [of s 5]
    and_exp_eq_0_iff_not_bit [of s 6] and_exp_eq_0_iff_not_bit [of s 7]
  by (simp_all add: INVALID_INTERNAL_COLOR_def INVALID_RENDERER_SURFACE_def INVALID_COMPOSITE_DEPENDED_ROUTINES_def
      INVALID_PAINT_DEPENDED_ROUTINES_def INVALID_MASK_DEPENDED_ROUTINES_def)

lemma blitting_mask: "INVALID_BLITTING_MASK = 248" "INVALID_ALL = 251"
  by (simp_all add: INVALID_BLITTING_MASK_def INVALID_ALL_def INVALID_INTERNAL_COLOR_def INVALID_RENDERER_SURFACE_def
      INVALID_COMPOSITE_DEPENDED_ROUTINES_def INVALID_PAINT_DEPENDED_ROUTINES_def INVALID_MASK_DEPENDED_ROUTINES_def
      INVALID_COLOR_ALPHA_MAP_def INVALID_PAINT_ALPHA_MAP_def)

lemma blitting_test: "s AND INVALID_BLITTING_MASK = 0 \<longleftrightarrow> \<not> bit s 3 \<and> \<not> bit s 4 \<and> \<not> bit s 5 \<and> \<not> bit s 6 \<and> \<not> bit s 7"
  unfolding INVALID_BLITTING_MASK_def by (simp add: bit.conj_disj_distrib or_eq_0_iff flag_tests)

lemma mark_bits:
  "bit (rn_rendererState (mark fl rdr)) k \<longleftrightarrow> bit (rn_rendererState rdr) k \<or> bit fl k"
  "bit (rn_rendererState (unmark fl rdr)) k \<longleftrightarrow> bit (rn_rendererState rdr) k \<and> \<not> bit fl k"
  by (auto simp: mark_def unmark_def bit_or_iff bit_and_iff bit_not_iff)

lemmas tab_defs = surf_tab_def mask_tab_def comp_tab_def paint_tab_def
lemmas routine_consts = NO_MASK_def ALPHA_MASK_def LCD_ALPHA_MASK_def COMPOSITE_CLEAR_def COMPOSITE_SRC_def COMPOSITE_SRC_OVER_def
  PAINT_FLAT_COLOR_def PAINT_LINEAR_GRADIENT_def PAINT_RADIAL_GRADIENT_def PAINT_TEXTURE8888_def PAINT_TEXTURE8888_MULTIPLY_def
lemmas spec_defs = rows_for_def line_for_def paint_for_def routine_consts

definition tabs_ok :: "('f, 'a) renderer_scheme \<Rightarrow> routines \<Rightarrow> bool" where
  "tabs_ok rdr f \<longleftrightarrow> surf_tab f \<and> mask_tab (rn_maskType rdr) f \<and> comp_tab (rn_maskType rdr) (rn_compositeRule rdr) f
     \<and> paint_tab (rn_maskType rdr) (rn_compositeRule rdr) (rn_paintMode rdr) f"

lemma tabs_ok_fn [simp]: "tabs_ok (rdr\<lparr>rn_fn := g\<rparr>) f = tabs_ok rdr f"
  by (simp add: tabs_ok_def)

text \<open>What the updates do to the tables. Each one builds on the tables of the level below.\<close>

lemma updatePaint:
  assumes "rn_paintMode rdr \<in> modes" "surf_tab (rn_fn rdr)" "mask_tab (rn_maskType rdr) (rn_fn rdr)"
    and "comp_tab (rn_maskType rdr) (rn_compositeRule rdr) (rn_fn rdr)"
  shows "\<exists>f. updatePaintDependedRoutines rdr = unmark INVALID_PAINT_DEPENDED_ROUTINES (rdr\<lparr>rn_fn := f\<rparr>)
    \<and> tabs_ok rdr f"
  unfolding updatePaintDependedRoutines_def Let_def
  by (rule exI, rule conjI, rule refl) (use assms in \<open>auto simp: tabs_ok_def tab_defs paint_for_def modes_def routine_consts\<close>)

lemma updateComposite:
  assumes "rn_paintMode rdr \<in> modes" "rn_compositeRule rdr \<in> rules" "surf_tab (rn_fn rdr)" "mask_tab (rn_maskType rdr) (rn_fn rdr)"
  shows "\<exists>f. updateCompositeDependedRoutines rdr
      = unmark INVALID_COMPOSITE_DEPENDED_ROUTINES (unmark INVALID_PAINT_DEPENDED_ROUTINES (rdr\<lparr>rn_fn := f\<rparr>))
    \<and> tabs_ok rdr f"
proof -
  define f where "f = rn_fn rdr"
  define f' where "f' = (if rn_compositeRule rdr = COMPOSITE_SRC_OVER then
                 f\<lparr>bl := bl_SourceOver f, bl_PT := bl_PT_SourceOver f, el := el_SourceOver f, el_PT := el_PT_SourceOver f\<rparr>
               else if rn_compositeRule rdr = COMPOSITE_SRC then
                 f\<lparr>bl := bl_Source f, bl_PT := bl_PT_Source f, el := el_Source f, el_PT := el_PT_Source f\<rparr>
               else if rn_compositeRule rdr = COMPOSITE_CLEAR then
                 f\<lparr>bl := bl_Clear f, bl_PT := bl_PT_Clear f, el := el_Source f, el_PT := el_Source f\<rparr>
               else f)"
  have "surf_tab f'" "mask_tab (rn_maskType rdr) f'" using assms(3,4) by (auto simp: f'_def f_def surf_tab_def mask_tab_def)
  moreover have "comp_tab (rn_maskType rdr) (rn_compositeRule rdr) f'"
    using assms(2,3,4) by (auto simp: f'_def f_def comp_tab_def surf_tab_def mask_tab_def rules_def) (auto simp: spec_defs)
  ultimately obtain f'' where "updatePaintDependedRoutines (rdr\<lparr>rn_fn := f'\<rparr>) = unmark INVALID_PAINT_DEPENDED_ROUTINES (rdr\<lparr>rn_fn := f''\<rparr>)"
    "tabs_ok rdr f''"
    using updatePaint [of "rdr\<lparr>rn_fn := f'\<rparr>"] assms(1) by auto
  then show ?thesis
    unfolding updateCompositeDependedRoutines_def Let_def f_def [symmetric] f'_def [symmetric] by auto
qed

lemma updateMask:
  assumes "rn_paintMode rdr \<in> modes" "rn_compositeRule rdr \<in> rules" "rn_maskType rdr \<in> masks" "surf_tab (rn_fn rdr)"
  shows "\<exists>f. updateMaskDependedRoutines rdr
      = unmark INVALID_MASK_DEPENDED_ROUTINES (unmark INVALID_COMPOSITE_DEPENDED_ROUTINES (unmark INVALID_PAINT_DEPENDED_ROUTINES (rdr\<lparr>rn_fn := f\<rparr>)))
    \<and> tabs_ok rdr f"
proof -
  define f where "f = rn_fn rdr"
  define f' where "f' = (if rn_maskType rdr = NO_MASK then
                 f\<lparr>bl_SourceOver := bl_SourceOverNoMask f, bl_PT_SourceOver := bl_PT_SourceOverNoMask f,
                   bl_Source := bl_SourceNoMask f, bl_PT_Source := bl_PT_SourceNoMask f\<rparr>
               else if rn_maskType rdr = ALPHA_MASK then
                 f\<lparr>bl_SourceOver := bl_SourceOverMask f, bl_PT_SourceOver := bl_PT_SourceOverMask f,
                   bl_Source := bl_SourceMask f, bl_PT_Source := bl_PT_SourceMask f\<rparr>
               else if rn_maskType rdr = LCD_ALPHA_MASK then
                 f\<lparr>bl_SourceOver := bl_SourceOverLCDMask f, bl_PT_SourceOver := bl_PT_SourceOverLCDMask f,
                   bl_Source := bl_SourceLCDMask f, bl_PT_Source := bl_PT_SourceLCDMask f\<rparr>
               else f)"
  have "surf_tab f'" using assms(4) by (auto simp: f'_def f_def surf_tab_def)
  moreover have "mask_tab (rn_maskType rdr) f'"
    using assms(3,4) by (auto simp: f'_def f_def surf_tab_def mask_tab_def masks_def)
  ultimately obtain f'' where "updateCompositeDependedRoutines (rdr\<lparr>rn_fn := f'\<rparr>)
      = unmark INVALID_COMPOSITE_DEPENDED_ROUTINES (unmark INVALID_PAINT_DEPENDED_ROUTINES (rdr\<lparr>rn_fn := f''\<rparr>))"
    "tabs_ok rdr f''"
    using updateComposite [of "rdr\<lparr>rn_fn := f'\<rparr>"] assms(1,2) by auto
  then show ?thesis
    unfolding updateMaskDependedRoutines_def Let_def f_def [symmetric] f'_def [symmetric] by auto
qed

lemma updateSurface:
  assumes "rn_paintMode rdr \<in> modes" "rn_compositeRule rdr \<in> rules" "rn_maskType rdr \<in> masks" "rn_imageType rdr = TYPE_INT_ARGB_PRE"
  shows "\<exists>f. updateSurfaceDependedRoutines rdr
      = unmark INVALID_MASK_DEPENDED_ROUTINES (unmark INVALID_COMPOSITE_DEPENDED_ROUTINES (unmark INVALID_PAINT_DEPENDED_ROUTINES (rdr\<lparr>rn_fn := f\<rparr>)))
    \<and> tabs_ok rdr f"
proof -
  define f' where "f' = (rn_fn rdr)\<lparr>bl_SourceOverNoMask := Some BlitSrcOver, bl_PT_SourceOverNoMask := Some BlitPTSrcOver,
                   bl_SourceNoMask := Some BlitSrc, bl_PT_SourceNoMask := Some BlitPTSrc,
                   bl_SourceOverMask := Some BlitSrcOverMask, bl_PT_SourceOverMask := Some BlitPTSrcOverMask,
                   bl_SourceMask := Some BlitSrcMask, bl_PT_SourceMask := Some BlitPTSrcMask,
                   bl_SourceOverLCDMask := Some BlitSrcOverLCDMask, bl_PT_SourceOverLCDMask := None,
                   bl_SourceLCDMask := None, bl_PT_SourceLCDMask := None,
                   bl_Clear := Some BlitSrc, bl_PT_Clear := Some BlitSrc, clearRect_set := True,
                   el_Source := Some EmitLineSource, el_SourceOver := Some EmitLineSourceOver,
                   el_PT_Source := Some EmitLinePTSource, el_PT_SourceOver := Some EmitLinePTSourceOver\<rparr>"
  have "surf_tab f'" by (simp add: f'_def surf_tab_def spec_defs)
  with updateMask [of "rdr\<lparr>rn_fn := f'\<rparr>"] assms show ?thesis
    unfolding updateSurfaceDependedRoutines_def Let_def assms(4) by (simp add: f'_def)
qed

text \<open>
  The invariant. A table may be stale only while its flag, or that of a level below it, is set; the
  internal colour may be stale only while its flag is set.
\<close>

definition levels :: "('f, 'a) renderer_scheme \<Rightarrow> routines \<Rightarrow> int \<Rightarrow> bool" where
  "levels rdr f s \<longleftrightarrow> surf_tab f
     \<and> (\<not> bit s 7 \<longrightarrow> mask_tab (rn_maskType rdr) f)
     \<and> (\<not> bit s 7 \<and> \<not> bit s 5 \<longrightarrow> comp_tab (rn_maskType rdr) (rn_compositeRule rdr) f)
     \<and> (\<not> bit s 7 \<and> \<not> bit s 5 \<and> \<not> bit s 6 \<longrightarrow> paint_tab (rn_maskType rdr) (rn_compositeRule rdr) (rn_paintMode rdr) f)"

definition shown_colour :: "('f, 'a) renderer_scheme \<Rightarrow> colour" where
  "shown_colour rdr = (if rn_compositeRule rdr = COMPOSITE_CLEAR then (0, 0, 0, 0)
     else (rn_ualpha rdr, rn_ured rdr, rn_ugreen rdr, rn_ublue rdr))"

definition rn_inv :: "('f, 'a) renderer_scheme \<Rightarrow> bool" where
  "rn_inv rdr \<longleftrightarrow> supported rdr
     \<and> (if rn_imageType rdr = TYPE_INT_ARGB_PRE then levels rdr (rn_fn rdr) (rn_rendererState rdr)
        else rn_imageType rdr = -1 \<and> bit (rn_rendererState rdr) 4)
     \<and> (\<not> bit (rn_rendererState rdr) 3 \<longrightarrow> cur_colour rdr = shown_colour rdr)"

lemma flag_bits:
  "bit INVALID_INTERNAL_COLOR k \<longleftrightarrow> k = 3" "bit INVALID_RENDERER_SURFACE k \<longleftrightarrow> k = 4"
  "bit INVALID_COMPOSITE_DEPENDED_ROUTINES k \<longleftrightarrow> k = 5" "bit INVALID_PAINT_DEPENDED_ROUTINES k \<longleftrightarrow> k = 6"
  "bit INVALID_MASK_DEPENDED_ROUTINES k \<longleftrightarrow> k = 7" "bit INVALID_COLOR_ALPHA_MAP k \<longleftrightarrow> k = 0" "bit INVALID_PAINT_ALPHA_MAP k \<longleftrightarrow> k = 1"
  using bit_exp_iff [of 3 k, where ?'a = int] bit_exp_iff [of 4 k, where ?'a = int] bit_exp_iff [of 5 k, where ?'a = int]
    bit_exp_iff [of 6 k, where ?'a = int] bit_exp_iff [of 7 k, where ?'a = int] bit_exp_iff [of 0 k, where ?'a = int]
    bit_exp_iff [of 1 k, where ?'a = int]
  by (auto simp: INVALID_INTERNAL_COLOR_def INVALID_RENDERER_SURFACE_def INVALID_COMPOSITE_DEPENDED_ROUTINES_def
      INVALID_PAINT_DEPENDED_ROUTINES_def INVALID_MASK_DEPENDED_ROUTINES_def INVALID_COLOR_ALPHA_MAP_def INVALID_PAINT_ALPHA_MAP_def)

lemmas state_bits = bit_or_iff bit_and_iff bit_not_iff flag_bits

text \<open>The renderer with the fields that a validation writes.\<close>

definition with_surface :: "('f, 'a) renderer_scheme \<Rightarrow> ('f, 'a) renderer_scheme" where
  "with_surface rdr = (let s = rn_surface rdr in
     rdr\<lparr>r_width := sf_width s, r_height := sf_height s, r_data := sf_data s, r_imageOffset := sf_offset s,
        r_imageScanlineStride := sf_scanlineStride s, r_imagePixelStride := sf_pixelStride s, rn_imageType := TYPE_INT_ARGB_PRE\<rparr>)"

definition with_colour :: "('f, 'a) renderer_scheme \<Rightarrow> ('f, 'a) renderer_scheme" where
  "with_colour rdr = (case shown_colour rdr of (a, r, g, b) \<Rightarrow> rdr\<lparr>r_cred := r, r_cgreen := g, r_cblue := b, r_calpha := a\<rparr>)"

lemma updateRendererSurface_levels:
  assumes "rn_inv rdr"
  shows "\<exists>f s. updateRendererSurface rdr = (with_surface rdr)\<lparr>rn_fn := f, rn_rendererState := s\<rparr> \<and> levels rdr f s \<and> \<not> bit s 4
    \<and> (\<forall>k \<in> {3, 5, 6, 7}. bit s k \<longrightarrow> bit (rn_rendererState rdr) k) \<and> (bit s 3 \<longleftrightarrow> bit (rn_rendererState rdr) 3)"
proof (cases "rn_imageType rdr = TYPE_INT_ARGB_PRE")
  case True
  then show ?thesis using assms
    by (intro exI [of _ "rn_fn rdr"] exI [of _ "rn_rendererState rdr AND NOT INVALID_RENDERER_SURFACE"])
       (auto simp: rn_inv_def supported_def updateRendererSurface_def with_surface_def unmark_def Let_def levels_def state_bits)
next
  case False
  define st where "st = (if rn_compositeRule rdr \<noteq> COMPOSITE_SRC_OVER
    then rn_rendererState rdr OR (INVALID_COLOR_ALPHA_MAP OR INVALID_PAINT_ALPHA_MAP) else rn_rendererState rdr)"
  define r where "r = (with_surface rdr)\<lparr>rn_rendererState := st\<rparr>"
  have sup: "rn_paintMode rdr \<in> modes" "rn_compositeRule rdr \<in> rules" "rn_maskType rdr \<in> masks" "sf_imageType (rn_surface rdr) = TYPE_INT_ARGB_PRE"
    using assms by (auto simp: rn_inv_def supported_def)
  have f: "rn_paintMode r = rn_paintMode rdr" "rn_compositeRule r = rn_compositeRule rdr" "rn_maskType r = rn_maskType rdr"
    "rn_imageType r = TYPE_INT_ARGB_PRE"
    by (simp_all add: r_def with_surface_def Let_def)
  obtain f where g: "updateSurfaceDependedRoutines r
      = unmark INVALID_MASK_DEPENDED_ROUTINES (unmark INVALID_COMPOSITE_DEPENDED_ROUTINES (unmark INVALID_PAINT_DEPENDED_ROUTINES (r\<lparr>rn_fn := f\<rparr>)))"
      "tabs_ok r f" using updateSurface [of r] sup f by auto
  have "updateRendererSurface rdr = unmark INVALID_RENDERER_SURFACE (updateSurfaceDependedRoutines r)"
    using False sup(4) by (cases rdr) (auto simp: updateRendererSurface_def r_def st_def with_surface_def Let_def mark_def)
  then have e: "updateRendererSurface rdr = (with_surface rdr)\<lparr>rn_fn := f, rn_rendererState :=
      (((st AND NOT INVALID_PAINT_DEPENDED_ROUTINES) AND NOT INVALID_COMPOSITE_DEPENDED_ROUTINES)
         AND NOT INVALID_MASK_DEPENDED_ROUTINES) AND NOT INVALID_RENDERER_SURFACE\<rparr>"
    unfolding g(1) by (simp add: unmark_def r_def)
  have lev: "levels rdr f s" for s using g(2) f by (simp add: tabs_ok_def levels_def)
  show ?thesis by (intro exI, intro conjI, rule e, rule lev) (auto simp: state_bits st_def)
qed

lemma updateInternalColor_eq:
  "updateInternalColor rdr = (with_colour rdr)\<lparr>rn_rendererState := rn_rendererState rdr AND NOT INVALID_INTERNAL_COLOR\<rparr>"
  by (simp add: updateInternalColor_def with_colour_def shown_colour_def unmark_def)

lemma with_colour_cached: "cur_colour rdr = shown_colour rdr \<Longrightarrow> with_colour rdr = rdr"
  by (auto simp: with_colour_def cur_colour_def shown_colour_def split: prod.splits if_splits)

lemma update_levels:
  assumes "rn_paintMode r \<in> modes" "rn_compositeRule r \<in> rules" "rn_maskType r \<in> masks"
    and "levels r (rn_fn r) (rn_rendererState r)" "\<forall>k \<in> {5, 6, 7}. bit (rn_rendererState r) k \<longrightarrow> bit st k"
    and "\<not> bit (rn_rendererState r) 3" "\<not> bit (rn_rendererState r) 4"
  shows "\<exists>g t. (if bit st 7 then updateMaskDependedRoutines r else if bit st 5 then updateCompositeDependedRoutines r
        else if bit st 6 then updatePaintDependedRoutines r else r) = r\<lparr>rn_fn := g, rn_rendererState := t\<rparr>
     \<and> tabs_ok r g \<and> t AND INVALID_BLITTING_MASK = 0" (is "\<exists>g t. ?u = r\<lparr>rn_fn := g, rn_rendererState := t\<rparr> \<and> _ \<and> _")
proof -
  let ?s = "rn_rendererState r"
  have tabs: "surf_tab (rn_fn r)" "\<not> bit st 7 \<Longrightarrow> mask_tab (rn_maskType r) (rn_fn r)"
    "\<not> bit st 7 \<Longrightarrow> \<not> bit st 5 \<Longrightarrow> comp_tab (rn_maskType r) (rn_compositeRule r) (rn_fn r)"
    "\<not> bit st 7 \<Longrightarrow> \<not> bit st 5 \<Longrightarrow> \<not> bit st 6 \<Longrightarrow> tabs_ok r (rn_fn r)"
    using assms(4,5) by (auto simp: levels_def tabs_ok_def)
  have clear: ?thesis if "?u = r\<lparr>rn_fn := g, rn_rendererState := t\<rparr>" "tabs_ok r g" "\<forall>k \<in> {3, 4, 5, 6, 7}. \<not> bit t k" for g t
    using that by (intro exI conjI) (auto simp: blitting_test)
  consider "bit st 7" | "\<not> bit st 7" "bit st 5" | "\<not> bit st 7" "\<not> bit st 5" "bit st 6" | "\<not> bit st 7" "\<not> bit st 5" "\<not> bit st 6" by blast
  then show ?thesis
  proof cases
    case 1
    from updateMask [OF assms(1-3) tabs(1)] obtain g where g: "updateMaskDependedRoutines r
      = unmark INVALID_MASK_DEPENDED_ROUTINES (unmark INVALID_COMPOSITE_DEPENDED_ROUTINES (unmark INVALID_PAINT_DEPENDED_ROUTINES (r\<lparr>rn_fn := g\<rparr>)))"
      "tabs_ok r g" by blast
    with 1 have "?u = r\<lparr>rn_fn := g, rn_rendererState := ((?s AND NOT INVALID_PAINT_DEPENDED_ROUTINES)
        AND NOT INVALID_COMPOSITE_DEPENDED_ROUTINES) AND NOT INVALID_MASK_DEPENDED_ROUTINES\<rparr>" by (simp add: unmark_def)
    from clear [OF this g(2)] assms(6,7) show ?thesis by (simp add: state_bits)
  next
    case 2
    from updateComposite [OF assms(1,2) tabs(1) tabs(2) [OF 2(1)]] obtain g where g: "updateCompositeDependedRoutines r
      = unmark INVALID_COMPOSITE_DEPENDED_ROUTINES (unmark INVALID_PAINT_DEPENDED_ROUTINES (r\<lparr>rn_fn := g\<rparr>))"
      "tabs_ok r g" by blast
    with 2 have "?u = r\<lparr>rn_fn := g, rn_rendererState := (?s AND NOT INVALID_PAINT_DEPENDED_ROUTINES)
        AND NOT INVALID_COMPOSITE_DEPENDED_ROUTINES\<rparr>" by (simp add: unmark_def)
    from clear [OF this g(2)] assms(5-7) 2 show ?thesis by (auto simp: state_bits)
  next
    case 3
    from updatePaint [OF assms(1) tabs(1) tabs(2) [OF 3(1)] tabs(3) [OF 3(1,2)]] obtain g where
      g: "updatePaintDependedRoutines r = unmark INVALID_PAINT_DEPENDED_ROUTINES (r\<lparr>rn_fn := g\<rparr>)" "tabs_ok r g" by blast
    with 3 have "?u = r\<lparr>rn_fn := g, rn_rendererState := ?s AND NOT INVALID_PAINT_DEPENDED_ROUTINES\<rparr>" by (simp add: unmark_def)
    from clear [OF this g(2)] assms(5-7) 3 show ?thesis by (auto simp: state_bits)
  next
    case 4
    then have "?u = r\<lparr>rn_fn := rn_fn r, rn_rendererState := ?s\<rparr>" by simp
    moreover have "\<forall>k \<in> {3, 4, 5, 6, 7}. \<not> bit ?s k" using assms(5-7) 4 by auto
    ultimately show ?thesis using tabs(4) [OF 4] by (intro clear)
  qed
qed

lemma validate_levels:
  assumes "rn_inv rdr" "bit (rn_rendererState rdr) 4"
  shows "\<exists>f s. VALIDATE_BLITTING rdr = (with_colour (with_surface rdr))\<lparr>rn_fn := f, rn_rendererState := s\<rparr>
    \<and> tabs_ok rdr f \<and> s AND INVALID_BLITTING_MASK = 0"
proof -
  let ?st = "rn_rendererState rdr"
  have sup: "rn_paintMode rdr \<in> modes" "rn_compositeRule rdr \<in> rules" "rn_maskType rdr \<in> masks"
    using assms by (auto simp: rn_inv_def supported_def)
  obtain f s where u: "updateRendererSurface rdr = (with_surface rdr)\<lparr>rn_fn := f, rn_rendererState := s\<rparr>" "levels rdr f s" "\<not> bit s 4"
    "\<forall>k \<in> {3, 5, 6, 7}. bit s k \<longrightarrow> bit ?st k" "bit s 3 \<longleftrightarrow> bit ?st 3"
    using updateRendererSurface_levels [OF assms(1)] by blast
  define r where "r = (with_colour (with_surface rdr))\<lparr>rn_fn := f, rn_rendererState := s AND NOT INVALID_INTERNAL_COLOR\<rparr>"
  have fr: "rn_paintMode r = rn_paintMode rdr" "rn_compositeRule r = rn_compositeRule rdr" "rn_maskType r = rn_maskType rdr" "rn_fn r = f"
    "rn_rendererState r = s AND NOT INVALID_INTERNAL_COLOR"
    by (simp_all add: r_def with_surface_def with_colour_def Let_def split: prod.splits)
  have cc: "with_colour ((with_surface rdr)\<lparr>rn_fn := f, rn_rendererState := s\<rparr>) = (with_colour (with_surface rdr))\<lparr>rn_fn := f, rn_rendererState := s\<rparr>"
    "cur_colour (with_surface rdr) = cur_colour rdr" "shown_colour (with_surface rdr) = shown_colour rdr"
    by (auto simp: with_colour_def with_surface_def shown_colour_def cur_colour_def Let_def)
  have c: "(if bit ?st 3 then updateInternalColor (updateRendererSurface rdr) else updateRendererSurface rdr) = r"
  proof (cases "bit ?st 3")
    case True
    then show ?thesis by (simp add: u(1) updateInternalColor_eq cc(1) r_def)
  next
    case False
    then have "with_colour (with_surface rdr) = with_surface rdr" using assms(1) by (intro with_colour_cached) (simp add: cc rn_inv_def)
    moreover have "s AND NOT INVALID_INTERNAL_COLOR = s"
      using False u(5) by (intro bit_eqI) (auto simp: state_bits)
    ultimately show ?thesis using False by (simp add: u(1) r_def)
  qed
  have v: "VALIDATE_BLITTING rdr = (if bit ?st 7 then updateMaskDependedRoutines r else if bit ?st 5 then updateCompositeDependedRoutines r
      else if bit ?st 6 then updatePaintDependedRoutines r else r)"
    using assms(2) by (auto simp: VALIDATE_BLITTING_def Let_def flag_tests blitting_test c [symmetric])
  have "levels r (rn_fn r) (rn_rendererState r)" using u(2) fr by (simp add: levels_def state_bits)
  then obtain g t where "VALIDATE_BLITTING rdr = r\<lparr>rn_fn := g, rn_rendererState := t\<rparr>" "tabs_ok r g" "t AND INVALID_BLITTING_MASK = 0"
    using update_levels [of r ?st] sup fr(1-3) u(3,4) unfolding v fr(5) by (auto simp: state_bits)
  then show ?thesis using fr by (intro exI [of _ g] exI [of _ t]) (simp add: r_def tabs_ok_def)
qed

subsection \<open>The operations keep the invariant\<close>

text \<open>The invariant reads only this part of the state.\<close>

definition core :: "('f, 'a) renderer_scheme \<Rightarrow> _" where
  "core rdr = (rn_maskType rdr, rn_compositeRule rdr, rn_paintMode rdr, sf_imageType (rn_surface rdr), rn_imageType rdr, rn_fn rdr,
     rn_rendererState rdr, cur_colour rdr, rn_ualpha rdr, rn_ured rdr, rn_ugreen rdr, rn_ublue rdr)"

lemma rn_inv_core: "core r = core rdr \<Longrightarrow> rn_inv r = rn_inv rdr"
  by (simp add: core_def rn_inv_def supported_def levels_def shown_colour_def)

text \<open>Setting flags, and changing the settings together with the flags of what depends on them.\<close>

lemma rn_inv_mark: "rn_inv rdr \<Longrightarrow> rn_inv (mark flags rdr)"
  by (auto simp: rn_inv_def supported_def levels_def shown_colour_def cur_colour_def mark_def bit_or_iff)

definition same_settings :: "('f, 'a) renderer_scheme \<Rightarrow> ('f, 'a) renderer_scheme \<Rightarrow> bool" where
  "same_settings r rdr \<longleftrightarrow> sf_imageType (rn_surface r) = sf_imageType (rn_surface rdr) \<and> rn_imageType r = rn_imageType rdr
     \<and> rn_fn r = rn_fn rdr \<and> cur_colour r = cur_colour rdr \<and> (\<forall>k. bit (rn_rendererState rdr) k \<longrightarrow> bit (rn_rendererState r) k)"

lemma rn_inv_change:
  assumes "rn_inv rdr" "same_settings r rdr"
    and "rn_maskType r \<in> masks" "rn_compositeRule r \<in> rules" "rn_paintMode r \<in> modes"
    and "rn_maskType r = rn_maskType rdr \<or> bit (rn_rendererState r) 7"
    and "rn_compositeRule r = rn_compositeRule rdr \<or> bit (rn_rendererState r) 5"
    and "rn_paintMode r = rn_paintMode rdr \<or> bit (rn_rendererState r) 6"
    and "shown_colour r = shown_colour rdr \<or> bit (rn_rendererState r) 3"
  shows "rn_inv r"
proof -
  have s: "supported r" using assms(1-5) by (auto simp: rn_inv_def supported_def same_settings_def)
  have "levels r (rn_fn r) (rn_rendererState r)" if "levels rdr (rn_fn rdr) (rn_rendererState rdr)"
    using that assms(2,6-8) unfolding levels_def same_settings_def by auto
  then show ?thesis using assms(1,2,9) s by (auto simp: rn_inv_def same_settings_def split: if_splits)
qed

lemma free_texture_Some: "free_texture rdr = Some r \<Longrightarrow> \<exists>h. r = rdr\<lparr>rn_heap := h\<rparr>"
  by (auto simp: free_texture_def split: if_splits Option.bind_splits intro!: exI [of _ "rn_heap r"])

lemma free_mask_Some: "free_mask rdr = Some r \<Longrightarrow> \<exists>h. r = rdr\<lparr>rn_heap := h\<rparr>"
  by (auto simp: free_mask_def split: if_splits Option.bind_splits intro!: exI [of _ "rn_heap r"])

lemma rn_inv_createCommon:
  assumes "sf_imageType s = TYPE_INT_ARGB_PRE"
  shows "rn_inv (createCommon fl s heap)"
proof -
  have "bit INVALID_ALL 4" "bit INVALID_ALL 3" by (simp_all add: INVALID_ALL_def INVALID_BLITTING_MASK_def state_bits)
  then show ?thesis using assms
    by (simp add: rn_inv_def supported_def createCommon_def Let_def masks_def rules_def modes_def TYPE_INT_ARGB_PRE_def)
qed

lemma rn_inv_setClip: "rn_inv rdr \<Longrightarrow> rn_inv (renderer_setClip x y w h rdr)"
  by (subst rn_inv_core [of _ rdr]) (simp_all add: core_def cur_colour_def renderer_setClip_def)

lemma rn_inv_setPaintMode:
  assumes "rn_inv rdr" "setPaintMode m rdr = Some r" "m \<in> modes"
  shows "rn_inv r" "rn_paintMode r = m"
proof -
  have sup: "supported rdr" using assms(1) by (simp add: rn_inv_def)
  show "rn_paintMode r = m" using assms(2) by (auto simp: setPaintMode_def split: if_splits Option.bind_splits)
  show "rn_inv r"
  proof (cases "rn_paintMode rdr = m")
    case False
    with assms(2) obtain h where "r = (mark INVALID_PAINT_DEPENDED_ROUTINES (rdr\<lparr>rn_heap := h, rn_texture := Null, t_intData := []\<rparr>))
        \<lparr>t_prevPaintMode := rn_paintMode rdr, rn_paintMode := m\<rparr>"
      by (auto simp: setPaintMode_def split: Option.bind_splits dest!: free_texture_Some)
    then show ?thesis using sup assms(3)
      by (intro rn_inv_change [OF assms(1)]) (auto simp: same_settings_def mark_def cur_colour_def shown_colour_def supported_def state_bits)
  qed (use assms in \<open>simp add: setPaintMode_def\<close>)
qed

lemma rn_inv_setColor:
  assumes "rn_inv rdr" "renderer_setColor red green blue alpha rdr = Some r"
  shows "rn_inv r"
proof -
  let ?new = "\<lambda>r. r\<lparr>rn_ured := red, rn_ugreen := green, rn_ublue := blue, rn_ualpha := alpha\<rparr>"
  have sup: "supported rdr" using assms(1) by (simp add: rn_inv_def)
  have "rn_inv (?new (mark INVALID_INTERNAL_COLOR rdr))" "rn_inv (?new (mark (INVALID_COLOR_ALPHA_MAP OR INVALID_PAINT_ALPHA_MAP) (mark INVALID_INTERNAL_COLOR rdr)))"
    using sup by (intro rn_inv_change [OF assms(1)]; auto simp: same_settings_def mark_def cur_colour_def shown_colour_def supported_def state_bits)+
  then have "\<exists>r0. rn_inv r0 \<and> setPaintMode PAINT_FLAT_COLOR r0 = Some r"
    using assms by (auto simp: renderer_setColor_def Let_def split: if_splits)
  then show ?thesis using rn_inv_setPaintMode(1) by (auto simp: modes_def)
qed

lemma rn_inv_setCompositeRule:
  assumes "rn_inv rdr" "rule \<in> rules"
  shows "rn_inv (renderer_setCompositeRule rule rdr)"
proof -
  have sup: "supported rdr" using assms(1) by (simp add: rn_inv_def)
  have "rn_inv ((mark (INVALID_INTERNAL_COLOR OR INVALID_COMPOSITE_DEPENDED_ROUTINES) rdr)\<lparr>rn_compositeRule := rule\<rparr>)"
    "rn_inv ((mark (INVALID_COLOR_ALPHA_MAP OR INVALID_PAINT_ALPHA_MAP)
       (mark (INVALID_INTERNAL_COLOR OR INVALID_COMPOSITE_DEPENDED_ROUTINES) rdr))\<lparr>rn_compositeRule := rule\<rparr>)"
    using sup assms(2) by (intro rn_inv_change [OF assms(1)]; auto simp: same_settings_def mark_def cur_colour_def shown_colour_def supported_def state_bits)+
  then show ?thesis using assms(1) by (auto simp: renderer_setCompositeRule_def Let_def)
qed

text \<open>The gradient and texture setters change the paint mode and fields outside the core.\<close>

lemma rn_inv_by_core: "rn_inv rdr \<Longrightarrow> core r = core rdr \<Longrightarrow> rn_inv r"
  using rn_inv_core [of r rdr] by blast

lemma copy_colors_core: "copy_colors cs rdr = Some r \<Longrightarrow> core r = core rdr"
  by (auto simp: copy_colors_def core_def cur_colour_def split: Option.bind_splits)

lemma rn_inv_setLinearGradient:
  assumes "rn_inv rdr" "renderer_setLinearGradient fl x0 y0 x1 y1 cs t rdr = Some r"
  shows "rn_inv r"
proof -
  let ?r0 = "rdr\<lparr>rn_gradient_transform := t, rn_gradient_inverse_transform := pisces_transform_invert fl t,
      rn_geo := linear_geometry fl x0 y0 x1 y1 (pisces_transform_invert fl t) (rn_geo rdr)\<rparr>"
  have "rn_inv ?r0" using assms(1) by (rule rn_inv_by_core) (simp add: core_def cur_colour_def)
  moreover from assms(2) obtain r1 where r: "setPaintMode PAINT_LINEAR_GRADIENT ?r0 = Some r1" "copy_colors cs r1 = Some r"
    unfolding renderer_setLinearGradient_def Let_def by (auto split: Option.bind_splits)
  ultimately have "rn_inv r1" by (intro rn_inv_setPaintMode(1) [OF _ r(1)]) (auto simp: modes_def)
  then show ?thesis using copy_colors_core [OF r(2)] by (rule rn_inv_by_core)
qed

lemma rn_inv_setRadialGradient:
  assumes "rn_inv rdr" "renderer_setRadialGradient fl cx cy fx fy rad cs t rdr = Some r"
  shows "rn_inv r"
proof -
  let ?r0 = "rdr\<lparr>rn_gradient_transform := t, rn_gradient_inverse_transform := pisces_transform_invert fl t,
      rn_geo := radial_geometry fl cx cy fx fy rad (pisces_transform_invert fl t) (rn_geo rdr)\<rparr>"
  have "rn_inv ?r0" using assms(1) by (rule rn_inv_by_core) (simp add: core_def cur_colour_def)
  moreover from assms(2) obtain r1 where r: "setPaintMode PAINT_RADIAL_GRADIENT ?r0 = Some r1" "copy_colors cs r1 = Some r"
    unfolding renderer_setRadialGradient_def Let_def by (auto split: Option.bind_splits)
  ultimately have "rn_inv r1" by (intro rn_inv_setPaintMode(1) [OF _ r(1)]) (auto simp: modes_def)
  then show ?thesis using copy_colors_core [OF r(2)] by (rule rn_inv_by_core)
qed

lemma texture_core: "core (classify_matrix rdr) = core rdr" "core (texture_matrix sm c rdr) = core rdr"
  by (simp_all add: classify_matrix_def texture_matrix_def core_def cur_colour_def Let_def)

lemma rn_inv_setTexture:
  assumes "rn_inv rdr" "renderer_setTexture fl im p d w h st rp sm t fd al a b c e rdr = Some r"
  shows "rn_inv r"
proof -
  let ?m = "if im = IMAGE_MODE_NORMAL then PAINT_TEXTURE8888 else PAINT_TEXTURE8888_MULTIPLY"
  from assms(2) obtain r1 r2 where r: "setPaintMode ?m (rdr\<lparr>rn_paint_transform := t\<rparr>) = Some r1" "free_texture r1 = Some r2"
    and e: "r = classify_matrix (texture_matrix sm (pisces_transform_invert fl t)
      (r2\<lparr>rn_texture_free := fd, t_hasAlpha := al, rn_texture := p, t_intData := d, t_imageWidth := w, t_imageHeight := h,
        t_stride := st, t_repeat := rp, t_txMin := a, t_tyMin := b, t_txMax := c, t_tyMax := e\<rparr>))"
    unfolding renderer_setTexture_def Let_def by (auto split: Option.bind_splits)
  have "rn_inv (rdr\<lparr>rn_paint_transform := t\<rparr>)" using assms(1) by (rule rn_inv_by_core) (simp add: core_def cur_colour_def)
  then have "rn_inv r1" using rn_inv_setPaintMode(1) [OF _ r(1)] by (auto simp: modes_def)
  moreover have "core r2 = core r1" using free_texture_Some [OF r(2)] by (auto simp: core_def cur_colour_def)
  ultimately have "rn_inv r2" by (rule rn_inv_by_core)
  moreover have "core r = core r2" unfolding e texture_core by (simp add: core_def cur_colour_def)
  ultimately show ?thesis by (rule rn_inv_by_core)
qed

lemma rn_inv_setMask:
  assumes "rn_inv rdr" "renderer_setMask mt p d w h fd rdr = Some r" "mt \<in> masks"
  shows "rn_inv r"
proof -
  from assms(2) obtain hp where "r = mark (INVALID_BLITTING_MASK OR INVALID_MASK_DEPENDED_ROUTINES)
     (rdr\<lparr>rn_heap := hp, rn_mask_free := fd, rn_maskType := mt, rn_mask := p, r_mask_byteData := d, rn_mask_width := w, rn_mask_height := h\<rparr>)"
    by (auto simp: renderer_setMask_def split: Option.bind_splits dest!: free_mask_Some)
  then show ?thesis using assms(1,3)
    by (intro rn_inv_change [OF assms(1)]) (auto simp: same_settings_def mark_def cur_colour_def shown_colour_def rn_inv_def supported_def state_bits)
qed

lemma rn_inv_removeMask:
  assumes "rn_inv rdr" "renderer_removeMask rdr = Some r"
  shows "rn_inv r"
proof -
  from assms(2) obtain hp where "r = mark (INVALID_BLITTING_MASK OR INVALID_MASK_DEPENDED_ROUTINES)
     (rdr\<lparr>rn_heap := hp, rn_maskType := NO_MASK, rn_mask := Null, r_mask_byteData := []\<rparr>)"
    by (auto simp: renderer_removeMask_def split: Option.bind_splits dest!: free_mask_Some)
  then show ?thesis using assms(1)
    by (intro rn_inv_change [OF assms(1)]) (auto simp: same_settings_def mark_def cur_colour_def shown_colour_def rn_inv_def supported_def state_bits masks_def)
qed

text \<open>A validation after the surface is marked as changed, as every drawing call begins.\<close>

lemma validate_surface:
  assumes "rn_inv rdr"
  shows "\<exists>f s. VALIDATE_BLITTING (INVALIDATE_RENDERER_SURFACE rdr) = (with_colour (with_surface rdr))\<lparr>rn_fn := f, rn_rendererState := s\<rparr>
    \<and> tabs_ok rdr f \<and> s AND INVALID_BLITTING_MASK = 0"
    and "rn_inv (VALIDATE_BLITTING (INVALIDATE_RENDERER_SURFACE rdr))"
proof -
  let ?m = "INVALIDATE_RENDERER_SURFACE rdr"
  have m: "rn_inv ?m" "bit (rn_rendererState ?m) 4" using assms by (auto simp: INVALIDATE_RENDERER_SURFACE_def rn_inv_mark mark_bits flag_bits)
  from validate_levels [OF m] obtain f s where v: "VALIDATE_BLITTING ?m = (with_colour (with_surface ?m))\<lparr>rn_fn := f, rn_rendererState := s\<rparr>"
    "tabs_ok ?m f" "s AND INVALID_BLITTING_MASK = 0" by blast
  have e: "(with_colour (with_surface ?m))\<lparr>rn_fn := f, rn_rendererState := s\<rparr> = (with_colour (with_surface rdr))\<lparr>rn_fn := f, rn_rendererState := s\<rparr>"
    by (cases rdr) (simp add: INVALIDATE_RENDERER_SURFACE_def mark_def with_surface_def with_colour_def shown_colour_def Let_def)
  show "\<exists>f s. VALIDATE_BLITTING ?m = (with_colour (with_surface rdr))\<lparr>rn_fn := f, rn_rendererState := s\<rparr>
    \<and> tabs_ok rdr f \<and> s AND INVALID_BLITTING_MASK = 0"
    using v unfolding e by (auto simp: tabs_ok_def INVALIDATE_RENDERER_SURFACE_def mark_def)
  show "rn_inv (VALIDATE_BLITTING ?m)"
    using v(2,3) m(1) unfolding v(1) rn_inv_def
    by (auto simp: levels_def tabs_ok_def with_surface_def with_colour_def shown_colour_def cur_colour_def supported_def Let_def split: prod.splits)
qed

end
