(* ===== verification/PiscesDraw.thy ===== *)
theory PiscesDraw
  imports PiscesLine PiscesRenderer
begin

unbundle bit_operations_syntax

text \<open>
  The drawing entry points of the software renderer, \<open>native-prism-sw/JPiscesRenderer.c\<close>, with the
  surface of \<open>JJavaSurface.c\<close>. A call pins the \<open>int[]\<close> of the surface, validates the renderer, works out
  the rows and columns to draw and hands them to the paint and blit routines through the tables.
  The Java array is an argument and a result of a call; what Java, the allocator and the
  virtual machine decide (whether an array can be pinned, whether \<open>calloc\<close> succeeds) are arguments.
\<close>

section \<open>Model\<close>

datatype jexn = OutOfMemoryError | IllegalArgumentException | IllegalStateException | ArithmeticException

subsection \<open>Surfaces\<close>

definition JavaSurface_initialize :: "jint \<Rightarrow> jint \<Rightarrow> jint \<Rightarrow> surface" where
  "JavaSurface_initialize dataType width height =
     \<lparr>sf_width = width, sf_height = height, sf_offset = 0, sf_scanlineStride = width, sf_pixelStride = 1,
      sf_imageType = dataType, sf_data = []\<rparr>"

text \<open>
  \<open>surface_acquire\<close>: the surface with its data pointer, whether the memory flag was raised, and the
  exception it has thrown. \<open>pin\<close> is the success of \<open>GetPrimitiveArrayCritical\<close>. A surface of an unknown
  type has no field id for its array, and \<open>GetObjectField\<close> is undefined there.
\<close>

definition surface_acquire :: "bool \<Rightarrow> jint list \<Rightarrow> surface \<Rightarrow> (surface \<times> bool \<times> jexn option) option" where
  "surface_acquire pin arr s =
     (let refuse = Some (s\<lparr>sf_data := []\<rparr>, False, Some IllegalArgumentException)
      in if sf_imageType s \<noteq> TYPE_INT_ARGB_PRE then None
         else if sf_width s < 0 \<or> sf_height s < 0 then refuse
         else if sf_width s = 0 then None
         else if int (length arr) div sf_width s < sf_height s then refuse
         else if pin then Some (s\<lparr>sf_data := arr\<rparr>, False, None)
         else Some (s\<lparr>sf_data := []\<rparr>, True, None))"

text \<open>
  The frame of a drawing call: \<open>ACQUIRE_SURFACE\<close>, the body, \<open>RELEASE_SURFACE\<close> and the exception for
  the memory flag. The renderer and the surface share the pinned array, so that what the body draws
  is in the Java array afterwards. The body answers whether it raised the memory flag and the
  contents of another Java array it works on, \<open>aux\<close>.
\<close>

definition drawing ::
    "bool \<Rightarrow> jint list \<Rightarrow> 'r \<Rightarrow> (('f, 'a) renderer_scheme \<Rightarrow> (bool \<times> 'r \<times> ('f, 'a) renderer_scheme) option) \<Rightarrow> ('f, 'a) renderer_scheme \<Rightarrow>
     (jexn option \<times> jint list \<times> 'r \<times> ('f, 'a) renderer_scheme) option" where
  "drawing pin arr aux body rdr =
     do { (s, mem, ex) \<leftarrow> surface_acquire pin arr (rn_surface rdr);
          let rdr = rdr\<lparr>rn_surface := s\<rparr>;
          if mem then Some (Some OutOfMemoryError, arr, aux, rdr)
          else
            do { (flag, aux, rdr) \<leftarrow> body rdr;
                 let d = r_data rdr;
                 let ex = (if ex = None \<and> flag then Some OutOfMemoryError else ex);
                 Some (ex, if sf_data s = [] then arr else d, aux, rdr\<lparr>rn_surface := (rn_surface rdr)\<lparr>sf_data := d\<rparr>\<rparr>) } }"

definition draw ::
    "bool \<Rightarrow> jint list \<Rightarrow> (('f, 'a) renderer_scheme \<Rightarrow> (bool \<times> ('f, 'a) renderer_scheme) option) \<Rightarrow> ('f, 'a) renderer_scheme \<Rightarrow>
     (jexn option \<times> jint list \<times> ('f, 'a) renderer_scheme) option" where
  "draw pin arr body rdr =
     do { (ex, arr, aux, rdr) \<leftarrow> drawing pin arr () (\<lambda>rdr. map_option (\<lambda>(flag, rdr). (flag, (), rdr)) (body rdr)) rdr;
          Some (ex, arr, rdr) }"

subsection \<open>Calls through the tables\<close>

definition call_rows :: "jint list \<Rightarrow> jint list \<Rightarrow> ('f, 'a) renderer_scheme \<Rightarrow> jint \<Rightarrow> ('f, 'a) renderer_scheme option" where
  "call_rows gamma invGamma rdr height =
     (case emitRows (rn_fn rdr) of
        None \<Rightarrow> None
      | Some BlitSrcOver \<Rightarrow> blitSrcOver8888_pre rdr height
      | Some BlitPTSrcOver \<Rightarrow> blitPTSrcOver8888_pre rdr height
      | Some BlitSrc \<Rightarrow> blitSrc8888_pre rdr height
      | Some BlitPTSrc \<Rightarrow> blitPTSrc8888_pre rdr height
      | Some BlitSrcOverMask \<Rightarrow> blitSrcOverMask8888_pre rdr height
      | Some BlitPTSrcOverMask \<Rightarrow> blitPTSrcOverMask8888_pre rdr height
      | Some BlitSrcMask \<Rightarrow> blitSrcMask8888_pre rdr height
      | Some BlitPTSrcMask \<Rightarrow> blitPTSrcMask8888_pre rdr height
      | Some BlitSrcOverLCDMask \<Rightarrow> blitSrcOverLCDMask8888_pre gamma invGamma rdr height)"

definition call_line :: "('f, 'a) renderer_scheme \<Rightarrow> jint \<Rightarrow> jint \<Rightarrow> ('f, 'a) renderer_scheme option" where
  "call_line rdr height fr =
     (case emitLine (rn_fn rdr) of
        None \<Rightarrow> None
      | Some EmitLineSource \<Rightarrow> emitLineSource8888_pre rdr height fr
      | Some EmitLineSourceOver \<Rightarrow> emitLineSourceOver8888_pre rdr height fr
      | Some EmitLinePTSource \<Rightarrow> emitLinePTSource8888_pre rdr height fr
      | Some EmitLinePTSourceOver \<Rightarrow> emitLinePTSourceOver8888_pre rdr height fr)"

text \<open>\<open>ALLOC3\<close> of the paint buffer; \<open>alloc n\<close> tells whether \<open>calloc\<close> of \<open>n\<close> cells succeeds.\<close>

definition ALLOC3_paint :: "(nat \<Rightarrow> bool) \<Rightarrow> nat \<Rightarrow> ('f, 'a) renderer_scheme \<Rightarrow> ('f, 'a) renderer_scheme" where
  "ALLOC3_paint alloc l rdr =
     (if r_paint rdr = [] \<or> length (r_paint rdr) < l
      then rdr\<lparr>r_paint := if alloc l then replicate l 0 else []\<rparr> else rdr)"

definition call_paint ::
    "('f, 'd) arith \<Rightarrow> (nat \<Rightarrow> bool) \<Rightarrow> jint \<Rightarrow> jint \<Rightarrow> ('f, 'a) renderer_scheme \<Rightarrow> ('f, 'a) renderer_scheme option" where
  "call_paint fl alloc len height rdr =
     (case genPaint (rn_fn rdr) of
        None \<Rightarrow> Some rdr
      | Some g \<Rightarrow>
          (let rdr = ALLOC3_paint alloc (nat len) rdr;
               w = i32 (r_maxTouched rdr - r_minTouched rdr + 1);
               n = nat (i32 (w * height));
               block = (if alloc n then Some (replicate n 0) else None)
           in do { p \<leftarrow> (case g of
                     GenLinearGradientPaint \<Rightarrow> genLinearGradientPaint fl (rn_geo rdr) rdr height
                   | GenRadialGradientPaint \<Rightarrow> genRadialGradientPaint fl (rn_geo rdr) rdr height
                   | GenTexturePaint \<Rightarrow> genTexturePaint rdr height
                   | GenTexturePaintMultiply \<Rightarrow> genTexturePaintMultiply fl (rn_geo rdr) block rdr height);
                   Some (rdr\<lparr>r_paint := p\<rparr>) }))"

subsection \<open>Rectangles\<close>

definition IMAGE_FRAC_EDGE_KEEP :: jint where "IMAGE_FRAC_EDGE_KEEP = 0"
definition IMAGE_FRAC_EDGE_PAD :: jint where "IMAGE_FRAC_EDGE_PAD = 1"
definition IMAGE_FRAC_EDGE_TRIM :: jint where "IMAGE_FRAC_EDGE_TRIM = 2"
definition NUM_ALPHA_ROWS :: jint where "NUM_ALPHA_ROWS = 8"

text \<open>
  One axis of a rectangle: the first and the last pixel with the fractions of the two at the edges.
  The code does the same for both axes.
\<close>

record axis =
  ax_from :: jint
  ax_to :: jint
  ax_lo :: jint
  ax_hi :: jint

definition axis_of :: "jint \<Rightarrow> jint \<Rightarrow> axis" where
  "axis_of x w =
     (let hi = i32 (x + w) AND 0xFFFF
      in \<lparr>ax_from = drop_bit 16 x, ax_to = (if hi \<noteq> 0 then drop_bit 16 (i32 (x + w)) else drop_bit 16 (i32 (x + w)) - 1),
          ax_lo = (0x10000 - (x AND 0xFFFF)) AND 0xFFFF, ax_hi = hi\<rparr>)"

definition axis_edges :: "jint \<Rightarrow> jint \<Rightarrow> axis \<Rightarrow> axis" where
  "axis_edges lEdge rEdge a =
     (let a = (if lEdge = IMAGE_FRAC_EDGE_PAD then a\<lparr>ax_lo := 0\<rparr>
               else if lEdge = IMAGE_FRAC_EDGE_TRIM then a\<lparr>ax_from := if ax_lo a \<noteq> 0 then i32 (ax_from a + 1) else ax_from a, ax_lo := 0\<rparr>
               else a)
      in if rEdge = IMAGE_FRAC_EDGE_PAD then a\<lparr>ax_hi := 0\<rparr>
         else if rEdge = IMAGE_FRAC_EDGE_TRIM then a\<lparr>ax_to := if ax_hi a \<noteq> 0 then i32 (ax_to a - 1) else ax_to a, ax_hi := 0\<rparr>
         else a)"

definition axis_clip :: "jint \<Rightarrow> jint \<Rightarrow> axis \<Rightarrow> axis" where
  "axis_clip cmin cmax a =
     (let a = (if ax_from a < cmin then a\<lparr>ax_from := cmin, ax_lo := 0\<rparr> else a)
      in if ax_to a > cmax then a\<lparr>ax_to := cmax, ax_hi := 0\<rparr> else a)"

text \<open>A single pixel with fractional edges has one fraction.\<close>

definition axis_single :: "axis \<Rightarrow> axis" where
  "axis_single a =
     (if ax_from a = ax_to a \<and> ax_lo a OR ax_hi a \<noteq> 0
      then a\<lparr>ax_lo := (ax_hi a - 0x10000 + ax_lo a) AND 0xFFFF, ax_hi := 0\<rparr> else a)"

text \<open>One call of the line routine with the paint it needs, and the step to the next rows.\<close>

definition emit_band ::
    "('f, 'd) arith \<Rightarrow> (nat \<Rightarrow> bool) \<Rightarrow> jint \<Rightarrow> jint \<Rightarrow> ('f, 'a) renderer_scheme \<Rightarrow> ('f, 'a) renderer_scheme option" where
  "emit_band fl alloc height fr rdr =
     do { rdr \<leftarrow> call_paint fl alloc (i32 (r_alphaWidth rdr * height)) height rdr;
          call_line rdr height fr }"

definition next_band :: "jint \<Rightarrow> jint \<Rightarrow> jint \<Rightarrow> ('f, 'a) renderer_scheme \<Rightarrow> ('f, 'a) renderer_scheme" where
  "next_band x_from width rows rdr =
     (let y = i32 (r_currY rdr + rows)
      in rdr\<lparr>r_currX := x_from, r_currY := y, r_currImageOffset := i32 (y * width), rn_rowNum := i32 (rn_rowNum rdr + rows)\<rparr>)"

function mid_bands ::
    "('f, 'd) arith \<Rightarrow> (nat \<Rightarrow> bool) \<Rightarrow> jint \<Rightarrow> jint \<Rightarrow> jint \<Rightarrow> ('f, 'a) renderer_scheme \<Rightarrow> ('f, 'a) renderer_scheme option" where
  "mid_bands fl alloc x_from width rows_to_render rdr =
     (if rows_to_render > 0 then
        let rows = min rows_to_render NUM_ALPHA_ROWS
        in do { rdr \<leftarrow> emit_band fl alloc rows 0x10000 rdr;
                mid_bands fl alloc x_from width (rows_to_render - rows) (next_band x_from width rows rdr) }
      else Some rdr)"
  by pat_completeness auto
termination
  by (relation "measure (\<lambda>(fl, alloc, x, w, n, rdr). nat n)") (auto simp: NUM_ALPHA_ROWS_def)

declare mid_bands.simps [simp del]

text \<open>
  The rows of a rectangle, after the renderer has been validated: a fractional first row, the full
  rows and a fractional last row.
\<close>

definition emit_all ::
    "('f, 'd) arith \<Rightarrow> (nat \<Rightarrow> bool) \<Rightarrow> jint \<Rightarrow> jint \<Rightarrow> axis \<Rightarrow> jint \<Rightarrow> ('f, 'a) renderer_scheme \<Rightarrow> ('f, 'a) renderer_scheme option" where
  "emit_all fl alloc x_from width ay rows rdr =
     (let rows = (if ax_hi ay \<noteq> 0 then i32 (rows - 1) else rows)
      in do { (rows, rdr) \<leftarrow> (if ax_lo ay \<noteq> 0 then
                 do { rdr \<leftarrow> emit_band fl alloc 1 (ax_lo ay) rdr;
                      Some (i32 (rows - 1), next_band x_from width 1 rdr) }
               else Some (rows, rdr));
              rdr \<leftarrow> mid_bands fl alloc x_from width rows rdr;
              if ax_hi ay \<noteq> 0 then emit_band fl alloc 1 (ax_hi ay) rdr else Some rdr })"

definition fill_setup :: "axis \<Rightarrow> axis \<Rightarrow> ('f, 'a) renderer_scheme \<Rightarrow> ('f, 'a) renderer_scheme" where
  "fill_setup ax ay rdr =
     (let width = sf_width (rn_surface rdr)
      in rdr\<lparr>r_minTouched := ax_from ax, r_maxTouched := ax_to ax, r_currX := ax_from ax, r_currY := ax_from ay,
            r_alphaWidth := i32 (ax_to ax - ax_from ax + 1), r_currImageOffset := i32 (ax_from ay * width),
            r_imageScanlineStride := width, r_imagePixelStride := 1, rn_rowNum := 0,
            r_el_lfrac := ax_lo (axis_single ax), r_el_rfrac := ax_hi (axis_single ax)\<rparr>)"

definition fill_bands ::
    "('f, 'd) arith \<Rightarrow> (nat \<Rightarrow> bool) \<Rightarrow> axis \<Rightarrow> axis \<Rightarrow> ('f, 'a) renderer_scheme \<Rightarrow> ('f, 'a) renderer_scheme option" where
  "fill_bands fl alloc ax ay rdr =
     emit_all fl alloc (ax_from ax) (sf_width (rn_surface rdr)) (axis_single ay) (i32 (ax_to ay - ax_from ay + 1)) (fill_setup ax ay rdr)"

definition fillRect ::
    "('f, 'd) arith \<Rightarrow> (nat \<Rightarrow> bool) \<Rightarrow> bool \<Rightarrow> jint list \<Rightarrow> jint \<Rightarrow> jint \<Rightarrow> jint \<Rightarrow> jint \<Rightarrow> jint \<Rightarrow> jint \<Rightarrow> jint \<Rightarrow> jint \<Rightarrow>
     ('f, 'a) renderer_scheme \<Rightarrow> (jexn option \<times> jint list \<times> ('f, 'a) renderer_scheme) option" where
  "fillRect fl alloc pin arr x y w h lEdge rEdge tEdge bEdge rdr =
     (let ax = axis_of x w; ay = axis_of y h;
          rdr = rdr\<lparr>rn_rectX := ax_from ax, rn_rectY := ax_from ay\<rparr>;
          ax = axis_clip (rn_clip_bbMinX rdr) (rn_clip_bbMaxX rdr) (axis_edges lEdge rEdge ax);
          ay = axis_clip (rn_clip_bbMinY rdr) (rn_clip_bbMaxY rdr) (axis_edges tEdge bEdge ay)
      in if ax_from ax \<le> ax_to ax \<and> ax_from ay \<le> ax_to ay then
           draw pin arr (\<lambda>rdr. do { rdr \<leftarrow> fill_bands fl alloc ax ay (VALIDATE_BLITTING (INVALIDATE_RENDERER_SURFACE rdr)); Some (False, rdr) }) rdr
         else Some (None, arr, rdr))"

definition fillRectImpl ::
    "('f, 'd) arith \<Rightarrow> (nat \<Rightarrow> bool) \<Rightarrow> bool \<Rightarrow> jint list \<Rightarrow> jint \<Rightarrow> jint \<Rightarrow> jint \<Rightarrow> jint \<Rightarrow>
     ('f, 'a) renderer_scheme \<Rightarrow> (jexn option \<times> jint list \<times> ('f, 'a) renderer_scheme) option" where
  "fillRectImpl fl alloc pin arr x y w h rdr =
     fillRect fl alloc pin arr x y w h IMAGE_FRAC_EDGE_KEEP IMAGE_FRAC_EDGE_KEEP IMAGE_FRAC_EDGE_KEEP IMAGE_FRAC_EDGE_KEEP rdr"

definition clearRectImpl ::
    "bool \<Rightarrow> jint list \<Rightarrow> jint \<Rightarrow> jint \<Rightarrow> jint \<Rightarrow> jint \<Rightarrow> ('f, 'a) renderer_scheme \<Rightarrow> (jexn option \<times> jint list \<times> ('f, 'a) renderer_scheme) option" where
  "clearRectImpl pin arr x y w h rdr =
     draw pin arr (\<lambda>rdr.
       let rdr = (INVALIDATE_RENDERER_SURFACE rdr)\<lparr>r_imagePixelStride := 1, r_imageScanlineStride := sf_width (rn_surface rdr)\<rparr>
       in do { rdr \<leftarrow> renderer_clearRect x y w h rdr; Some (False, rdr) }) rdr"

subsection \<open>Rows of coverage and masks\<close>

text \<open>
  \<open>emitAndClearAlphaRowImpl\<close>. The alpha map and the row of deltas are Java arrays that are pinned in turn;
  \<open>pinMap\<close> and \<open>pinRow\<close> are the successes. The row of deltas is a result as well, since the blit clears it.
\<close>

definition emitAndClearAlphaRowImpl ::
    "('f, 'd) arith \<Rightarrow> (nat \<Rightarrow> bool) \<Rightarrow> bool \<Rightarrow> bool \<Rightarrow> bool \<Rightarrow> jint list \<Rightarrow> jint list \<Rightarrow> jint list \<Rightarrow> jbyte list \<Rightarrow> jint list \<Rightarrow>
     jint \<Rightarrow> jint \<Rightarrow> jint \<Rightarrow> jint \<Rightarrow> jint \<Rightarrow> ('f, 'a) renderer_scheme \<Rightarrow>
     (jexn option \<times> jint list \<times> jint list \<times> ('f, 'a) renderer_scheme) option" where
  "emitAndClearAlphaRowImpl fl alloc pin pinMap pinRow gamma invGamma arr alphaMap alphaRow y x_from x_to x_off rowNum rdr =
     drawing pin arr alphaRow (\<lambda>rdr.
       let rdr = VALIDATE_BLITTING (INVALIDATE_RENDERER_SURFACE rdr)
       in if \<not> pinMap \<or> \<not> pinRow then Some (True, alphaRow, rdr)
          else
            let x_from = max x_from (rn_clip_bbMinX rdr); x_to = min x_to (rn_clip_bbMaxX rdr);
                width = sf_width (rn_surface rdr)
            in if x_to \<ge> x_from \<and> y \<ge> rn_clip_bbMinY rdr \<and> y \<le> rn_clip_bbMaxY rdr then
                 let rdr = rdr\<lparr>r_minTouched := x_from, r_maxTouched := x_to, r_currX := x_from, r_currY := y, rn_rowNum := rowNum,
                             r_alphaMap := alphaMap, r_rowAAInt := alphaRow, r_rowAAOff := x_off,
                             r_alphaWidth := i32 (x_to - x_from + 1), r_currImageOffset := i32 (y * width),
                             r_imageScanlineStride := width, r_imagePixelStride := 1\<rparr>
                 in do { rdr \<leftarrow> call_paint fl alloc (i32 (x_to - x_from + 1)) 1 rdr;
                         rdr \<leftarrow> call_rows gamma invGamma rdr 1;
                         Some (False, r_rowAAInt rdr, rdr\<lparr>r_rowAAInt := [], r_rowAAOff := 0\<rparr>) }
               else Some (False, alphaRow, rdr)) rdr"

text \<open>The loop over the rows of a mask. After a row \<open>_currX\<close> is set to \<open>x\<close>, the column of the mask, not to \<open>minX\<close>.\<close>

fun mask_rows ::
    "('f, 'd) arith \<Rightarrow> (nat \<Rightarrow> bool) \<Rightarrow> jint list \<Rightarrow> jint list \<Rightarrow> jint \<Rightarrow> jint \<Rightarrow> jint \<Rightarrow> jint \<Rightarrow> nat \<Rightarrow>
     ('f, 'a) renderer_scheme \<Rightarrow> ('f, 'a) renderer_scheme option" where
  "mask_rows fl alloc gamma invGamma x width surfaceWidth maskWidth 0 rdr = Some rdr"
| "mask_rows fl alloc gamma invGamma x width surfaceWidth maskWidth (Suc n) rdr =
     do { rdr \<leftarrow> call_paint fl alloc width 1 (rdr\<lparr>r_currImageOffset := i32 (r_currY rdr * surfaceWidth)\<rparr>);
          rdr \<leftarrow> call_rows gamma invGamma rdr 1;
          mask_rows fl alloc gamma invGamma x width surfaceWidth maskWidth n
            (rdr\<lparr>r_maskOffset := i32 (r_maskOffset rdr + maskWidth), rn_rowNum := i32 (rn_rowNum rdr + 1),
               r_currX := x, r_currY := i32 (r_currY rdr + 1)\<rparr>) }"

definition fillAlphaMask ::
    "('f, 'd) arith \<Rightarrow> (nat \<Rightarrow> bool) \<Rightarrow> bool \<Rightarrow> bool \<Rightarrow> jint list \<Rightarrow> jint list \<Rightarrow> jint list \<Rightarrow> jint \<Rightarrow> jint \<Rightarrow> jint \<Rightarrow> jint \<Rightarrow>
     jint \<Rightarrow> jbyte list \<Rightarrow> jint \<Rightarrow> jint \<Rightarrow> jint \<Rightarrow> jint \<Rightarrow> ('f, 'a) renderer_scheme \<Rightarrow>
     (jexn option \<times> jint list \<times> ('f, 'a) renderer_scheme) option" where
  "fillAlphaMask fl alloc pin pinMask gamma invGamma arr minX minY maxX maxY maskType jmask x maskWidth maskHeight offset rdr =
     (if maxX \<ge> minX \<and> maxY \<ge> minY then
        draw pin arr (\<lambda>rdr.
          if pinMask then
            do { let width = i32 (maxX - minX + 1);
                 let height = i32 (maxY - minY + 1);
                 rdr \<leftarrow> renderer_setMask maskType Pinned jmask maskWidth maskHeight False rdr;
                 let rdr = VALIDATE_BLITTING (INVALIDATE_RENDERER_SURFACE rdr);
                 let surfaceWidth = sf_width (rn_surface rdr);
                 rdr \<leftarrow> mask_rows fl alloc gamma invGamma x width surfaceWidth maskWidth (nat height)
                   (rdr\<lparr>r_minTouched := minX, r_maxTouched := maxX, r_currX := minX, r_currY := minY, r_alphaWidth := width,
                      r_imageScanlineStride := surfaceWidth, r_imagePixelStride := 1, rn_rowNum := 0, r_maskOffset := offset\<rparr>);
                 rdr \<leftarrow> renderer_removeMask rdr;
                 Some (False, rdr) }
          else Some (True, rdr)) rdr
      else Some (None, arr, rdr))"

definition INT_MAX :: jint where "INT_MAX = 2 ^ 31 - 1"

definition fillAlphaMaskImpl ::
    "('f, 'd) arith \<Rightarrow> (nat \<Rightarrow> bool) \<Rightarrow> bool \<Rightarrow> bool \<Rightarrow> jint list \<Rightarrow> jint list \<Rightarrow> jint list \<Rightarrow> jbyte list \<Rightarrow>
     jint \<Rightarrow> jint \<Rightarrow> jint \<Rightarrow> jint \<Rightarrow> jint \<Rightarrow> jint \<Rightarrow> ('f, 'a) renderer_scheme \<Rightarrow>
     (jexn option \<times> jint list \<times> ('f, 'a) renderer_scheme) option" where
  "fillAlphaMaskImpl fl alloc pin pinMask gamma invGamma arr jmask x y maskWidth maskHeight offset stride rdr =
     (let skip = Some (None, arr, rdr);
          minX = max x (rn_clip_bbMinX rdr); minY = max y (rn_clip_bbMinY rdr);
          maxX = min (i32 (x + maskWidth - 1)) (rn_clip_bbMaxX rdr); maxY = min (i32 (y + maskHeight - 1)) (rn_clip_bbMaxY rdr);
          rows = i32 (i32 (minY - y) * maskWidth)
      in if x \<le> i32 (- (INT_MAX - maskWidth)) \<or> y \<le> i32 (- (INT_MAX - maskHeight)) then skip
         else if x \<ge> i32 (INT_MAX - maskWidth) \<or> y \<ge> i32 (INT_MAX - maskHeight) then skip
         else if maskWidth > 0 \<and> i32 (minY - y) \<ge> INT_MAX div maskWidth then skip
         else if i32 (minX - x) \<ge> i32 (INT_MAX - rows) then skip
         else if offset \<ge> i32 (INT_MAX - (rows + minX - x)) then skip
         else fillAlphaMask fl alloc pin pinMask gamma invGamma arr minX minY maxX maxY ALPHA_MASK jmask x maskWidth maskHeight
                (i32 (offset + rows + minX - x)) rdr)"

definition fillLCDAlphaMaskImpl ::
    "('f, 'd) arith \<Rightarrow> (nat \<Rightarrow> bool) \<Rightarrow> bool \<Rightarrow> bool \<Rightarrow> jint list \<Rightarrow> jint list \<Rightarrow> jint list \<Rightarrow> jbyte list \<Rightarrow>
     jint \<Rightarrow> jint \<Rightarrow> jint \<Rightarrow> jint \<Rightarrow> jint \<Rightarrow> jint \<Rightarrow> ('f, 'a) renderer_scheme \<Rightarrow>
     (jexn option \<times> jint list \<times> ('f, 'a) renderer_scheme) option" where
  "fillLCDAlphaMaskImpl fl alloc pin pinMask gamma invGamma arr jmask x y maskWidth maskHeight offset stride rdr =
     (let skip = Some (None, arr, rdr);
          w3 = sgn maskWidth * (\<bar>maskWidth\<bar> div 3);
          minX = max x (rn_clip_bbMinX rdr); minY = max y (rn_clip_bbMinY rdr);
          maxX = min (i32 (x + w3 - 1)) (rn_clip_bbMaxX rdr); maxY = min (i32 (y + maskHeight - 1)) (rn_clip_bbMaxY rdr);
          rows = i32 (i32 (minY - y) * maskWidth); cols = i32 (i32 (minX - x) * 3)
      in if x < i32 (- (INT_MAX - w3)) \<or> y < i32 (- (INT_MAX - maskHeight)) then skip
         else if x \<ge> i32 (INT_MAX - w3) \<or> y \<ge> i32 (INT_MAX - maskHeight) then skip
         else if maskWidth > 0 \<and> i32 (minY - y) \<ge> INT_MAX div maskWidth then skip
         else if i32 (minX - x) \<ge> INT_MAX div 3 then skip
         else if cols \<ge> i32 (INT_MAX - rows) then skip
         else if offset \<ge> i32 (INT_MAX - (rows + cols)) then skip
         else fillAlphaMask fl alloc pin pinMask gamma invGamma arr minX minY maxX maxY LCD_ALPHA_MASK jmask x maskWidth maskHeight
                (i32 (offset + rows + cols)) rdr)"

subsection \<open>Images and textures\<close>

text \<open>
  \<open>drawImageImpl\<close> uses the pinned array of the image as texture for the call. \<open>pixels + offset\<close> is the
  array without its first cells.
\<close>

definition drawImageImpl ::
    "('f, 'd) arith \<Rightarrow> (nat \<Rightarrow> bool) \<Rightarrow> bool \<Rightarrow> bool \<Rightarrow> jint list \<Rightarrow> jint \<Rightarrow> jint list \<Rightarrow> jint \<Rightarrow> jint \<Rightarrow> jint \<Rightarrow> jint \<Rightarrow> Transform6 \<Rightarrow> bool \<Rightarrow> bool \<Rightarrow>
     jint \<Rightarrow> jint \<Rightarrow> jint \<Rightarrow> jint \<Rightarrow> jint \<Rightarrow> jint \<Rightarrow> jint \<Rightarrow> jint \<Rightarrow> jint \<Rightarrow> jint \<Rightarrow> jint \<Rightarrow> jint \<Rightarrow> bool \<Rightarrow> ('f, 'a) renderer_scheme \<Rightarrow>
     (jexn option \<times> jint list \<times> ('f, 'a) renderer_scheme) option" where
  "drawImageImpl fl alloc pin pinData arr imageMode pixels width height offset stride transform rep linearFiltering
       bboxX bboxY bboxW bboxH lEdge rEdge tEdge bEdge txMin tyMin txMax tyMax hasAlpha rdr =
     (if pinData then
        if offset < 0 \<or> int (length pixels) < offset then None else
        do { rdr \<leftarrow> renderer_setTexture fl imageMode Pinned (drop (nat offset) pixels) width height stride rep linearFiltering transform
               False hasAlpha txMin tyMin txMax tyMax rdr;
             (ex, arr, rdr) \<leftarrow> fillRect fl alloc pin arr bboxX bboxY bboxW bboxH lEdge rEdge tEdge bEdge rdr;
             Some (ex, arr, rdr\<lparr>rn_texture := Null, t_intData := []\<rparr>) }
      else Some (Some OutOfMemoryError, arr, rdr))"

text \<open>\<open>setTextureImpl\<close> copies the image to a block of its own, number \<open>b\<close>.\<close>

fun copy_image :: "jint list \<Rightarrow> jint \<Rightarrow> jint \<Rightarrow> nat \<Rightarrow> jint \<Rightarrow> jint list \<Rightarrow> jint list option" where
  "copy_image pixels width stride 0 i dst = Some dst"
| "copy_image pixels width stride (Suc n) i dst =
     do { row \<leftarrow> aread pixels (i32 (i * stride)) (nat width);
          dst \<leftarrow> awrite dst (i32 (i * width)) row;
          copy_image pixels width stride n (i + 1) dst }"

definition copy_texture :: "jint list \<Rightarrow> jint \<Rightarrow> jint \<Rightarrow> jint \<Rightarrow> jint list option" where
  "copy_texture pixels width height stride =
     (let alloc_data = replicate (nat (i32 (width * height))) 0
      in if stride = width then do { xs \<leftarrow> aread pixels 0 (nat (width * height)); awrite alloc_data 0 xs }
         else copy_image pixels width stride (nat height) 0 alloc_data)"

definition setTextureImpl ::
    "('f, 'd) arith \<Rightarrow> (nat \<Rightarrow> bool) \<Rightarrow> nat \<Rightarrow> bool \<Rightarrow> jint list \<Rightarrow> jint \<Rightarrow> jint \<Rightarrow> jint \<Rightarrow> Transform6 \<Rightarrow> bool \<Rightarrow> bool \<Rightarrow> bool \<Rightarrow>
     ('f, 'a) renderer_scheme \<Rightarrow> (jexn option \<times> ('f, 'a) renderer_scheme) option" where
  "setTextureImpl fl alloc b pinData pixels width height stride transform rep linearFiltering hasAlpha rdr =
     (let cells = i32 (width * height)
      in if width > 0 \<and> height > 0 \<and> width < INT_MAX div height div 4 \<and> stride > 0
            \<and> height - 1 \<le> sgn (int (length pixels) - width) * (\<bar>int (length pixels) - width\<bar> div stride) \<and> pinData \<and> alloc (nat cells)
         then
           do { copy \<leftarrow> copy_texture pixels width height stride;
                rdr \<leftarrow> renderer_setTexture fl IMAGE_MODE_NORMAL (Block b) copy width height width rep linearFiltering transform True hasAlpha
                   0 0 (i32 (width - 1)) (i32 (height - 1)) (rdr\<lparr>rn_heap := insert b (rn_heap rdr)\<rparr>);
                Some (None, rdr) }
         else Some (Some OutOfMemoryError, rdr))"

definition setLinearGradientImpl ::
    "('f, 'd) arith \<Rightarrow> bool \<Rightarrow> jint \<Rightarrow> jint \<Rightarrow> jint \<Rightarrow> jint \<Rightarrow> jint list \<Rightarrow> jint \<Rightarrow> Transform6 \<Rightarrow> ('f, 'a) renderer_scheme \<Rightarrow>
     (jexn option \<times> ('f, 'a) renderer_scheme) option" where
  "setLinearGradientImpl fl pinRamp x0 y0 x1 y1 ramp cycleMethod transform rdr =
     (if pinRamp then
        do { rdr \<leftarrow> renderer_setLinearGradient fl x0 y0 x1 y1 ramp transform (rdr\<lparr>g_cycleMethod := cycleMethod\<rparr>); Some (None, rdr) }
      else Some (Some OutOfMemoryError, rdr))"

definition setRadialGradientImpl ::
    "('f, 'd) arith \<Rightarrow> bool \<Rightarrow> jint \<Rightarrow> jint \<Rightarrow> jint \<Rightarrow> jint \<Rightarrow> jint \<Rightarrow> jint list \<Rightarrow> jint \<Rightarrow> Transform6 \<Rightarrow> ('f, 'a) renderer_scheme \<Rightarrow>
     (jexn option \<times> ('f, 'a) renderer_scheme) option" where
  "setRadialGradientImpl fl pinRamp cx cy fx fy radius ramp cycleMethod transform rdr =
     (if pinRamp then
        do { rdr \<leftarrow> renderer_setRadialGradient fl cx cy fx fy radius ramp transform (rdr\<lparr>g_cycleMethod := cycleMethod\<rparr>); Some (None, rdr) }
      else Some (Some OutOfMemoryError, rdr))"

end
