(* ===== verification/PiscesFill.thy ===== *)
theory PiscesFill
  imports PiscesDraw
begin

unbundle bit_operations_syntax

text \<open>
  What \<open>fillRect\<close> of \<open>native-prism-sw/JPiscesRenderer.c\<close> draws: the pixels it reaches, the coverage it gives
  them, and the bands of rows it hands to the line routines.
\<close>

section \<open>Rectangles are covered exactly\<close>

text \<open>The length that pixel \<open>i\<close> shares with the interval from \<open>x\<close> of length \<open>w\<close>, all in units of \<open>1/65536\<close>.\<close>

definition cover :: "int \<Rightarrow> int \<Rightarrow> int \<Rightarrow> int" where
  "cover x w i = max 0 (min (x + w) ((i + 1) * 65536) - max x (i * 65536))"

definition ax_frac :: "axis \<Rightarrow> int \<Rightarrow> int" where
  "ax_frac a i = (if i = ax_from a \<and> ax_lo a \<noteq> 0 then ax_lo a else if i = ax_to a \<and> ax_hi a \<noteq> 0 then ax_hi a else 65536)"

definition axis_pixels :: "int \<Rightarrow> int \<Rightarrow> int \<Rightarrow> int \<Rightarrow> axis" where
  "axis_pixels cmin cmax x w = axis_clip cmin cmax (axis_edges IMAGE_FRAC_EDGE_KEEP IMAGE_FRAC_EDGE_KEEP (axis_of x w))"

lemma and_FFFF: "x AND 0xFFFF = x mod 65536" for x :: int
  using take_bit_eq_mask [of 16 x] by (simp add: take_bit_eq_mod mask_eq_exp_minus_1)

lemma pixel_bounds:
  "x div 65536 \<le> i \<longleftrightarrow> x < (i + 1) * 65536" "i \<le> (y - 1) div 65536 \<longleftrightarrow> i * 65536 < y" for x y :: int
proof -
  have split: "\<exists>q r. x div 65536 = q \<and> x = q * 65536 + r \<and> 0 \<le> r \<and> r < 65536" for x :: int
    by (intro exI [of _ "x div 65536"] exI [of _ "x mod 65536"]) simp
  from split [of x] show "x div 65536 \<le> i \<longleftrightarrow> x < (i + 1) * 65536" by auto
  from split [of "y - 1"] show "i \<le> (y - 1) div 65536 \<longleftrightarrow> i * 65536 < y" by auto
qed

lemma pixel_before: "(y - 1) div 65536 = (if y mod 65536 \<noteq> 0 then y div 65536 else y div 65536 - 1)" for y :: int
proof -
  have y: "y = y div 65536 * 65536 + y mod 65536" "0 \<le> y mod 65536" "y mod 65536 < 65536" by simp_all
  show ?thesis
  proof (cases "y mod 65536 = 0")
    case True
    then have "y - 1 = (y div 65536 - 1) * 65536 + 65535" using y(1) by simp
    then have "(y - 1) div 65536 = y div 65536 - 1" by simp
    with True show ?thesis by simp
  next
    case False
    have "(y - 1) div 65536 \<le> y div 65536" unfolding pixel_bounds(1) using y by simp
    moreover have "y div 65536 \<le> (y - 1) div 65536" unfolding pixel_bounds(2) using y False by linarith
    ultimately show ?thesis using False by simp
  qed
qed

lemma axis_of_eq:
  assumes "is_i32 (x + w)"
  shows "axis_of x w = \<lparr>ax_from = x div 65536, ax_to = (x + w - 1) div 65536, ax_lo = (- x) mod 65536, ax_hi = (x + w) mod 65536\<rparr>"
proof -
  have "(65536 - x mod 65536) mod 65536 = (- x) mod 65536" by (simp add: mod_minus_eq)
  moreover have "(if (x + w) mod 65536 \<noteq> 0 then (x + w) div 65536 else (x + w) div 65536 - 1) = (x + w - 1) div 65536"
    by (simp only: pixel_before)
  ultimately show ?thesis using assms by (simp only: axis_of_def Let_def i32_id drop_bit_eq_div and_FFFF) (auto split: if_splits)
qed

lemma axis_pixels_range:
  assumes "is_i32 (x + w)" "0 < w"
  shows "ax_from (axis_pixels cmin cmax x w) = max cmin (x div 65536)" "ax_to (axis_pixels cmin cmax x w) = min cmax ((x + w - 1) div 65536)"
  using assms by (auto simp: axis_pixels_def axis_edges_def IMAGE_FRAC_EDGE_KEEP_def IMAGE_FRAC_EDGE_PAD_def IMAGE_FRAC_EDGE_TRIM_def
      axis_of_eq axis_clip_def Let_def max_def min_def)

lemma axis_pixels_inside:
  assumes "is_i32 (x + w)" "0 < w"
  shows "ax_from (axis_pixels cmin cmax x w) \<le> i \<and> i \<le> ax_to (axis_pixels cmin cmax x w) \<longleftrightarrow> cmin \<le> i \<and> i \<le> cmax \<and> 0 < cover x w i"
proof -
  show ?thesis using assms(2) pixel_bounds(1) [of x i] pixel_bounds(2) [of i "x + w"]
    unfolding axis_pixels_range [OF assms] by (auto simp: cover_def)
qed

text \<open>The part of the first pixel before \<open>x\<close>, and the part of the last pixel before \<open>y\<close>.\<close>

lemma first_part: "x = x div 65536 * 65536 + x mod 65536" "(- x) mod 65536 = (if x mod 65536 = 0 then 0 else 65536 - x mod 65536)" for x :: int
  by (simp_all add: zmod_zminus1_eq_if)

lemma last_part:
  fixes y :: int
  obtains e where "y = (y - 1) div 65536 * 65536 + e" "0 < e" "e \<le> 65536" "y mod 65536 = (if e = 65536 then 0 else e)"
proof (cases "y mod 65536 = 0")
  case True
  then have "y = (y - 1) div 65536 * 65536 + 65536" unfolding pixel_before using div_mult_mod_eq [of y 65536] by simp
  with True that [of 65536] show ?thesis by simp
next
  case False
  have "0 \<le> y mod 65536" "y mod 65536 < 65536" by simp_all
  moreover have "y = (y - 1) div 65536 * 65536 + y mod 65536" unfolding pixel_before using False by simp
  ultimately show ?thesis using that [of "y mod 65536"] False by simp
qed

lemma cover_eq:
  assumes "x + w = (x + w - 1) div 65536 * 65536 + e" "0 < e" "e \<le> 65536"
    and "x div 65536 \<le> i" "i \<le> (x + w - 1) div 65536" "0 < w"
  shows "cover x w i = (if i = (x + w - 1) div 65536 then e else 65536) - (if i = x div 65536 then x mod 65536 else 0)"
proof -
  let ?q = "x div 65536" and ?t = "(x + w - 1) div 65536"
  have r: "x = ?q * 65536 + x mod 65536" "0 \<le> x mod 65536" "x mod 65536 < 65536" by simp_all
  have "min (x + w) ((i + 1) * 65536) = i * 65536 + (if i = ?t then e else 65536)"
  proof (cases "i = ?t")
    case True then show ?thesis using assms(1,3) by simp
  next
    case False then have "(i + 1) * 65536 \<le> ?t * 65536" using assms(5) by simp
    with False show ?thesis using assms(1,2) by simp
  qed
  moreover have "max x (i * 65536) = i * 65536 + (if i = ?q then x mod 65536 else 0)"
  proof (cases "i = ?q")
    case True then show ?thesis using r by simp
  next
    case False then have "(?q + 1) * 65536 \<le> i * 65536" using assms(4) by simp
    with False show ?thesis using r by simp
  qed
  moreover have "i = ?t \<Longrightarrow> i = ?q \<Longrightarrow> x mod 65536 < e" using assms(1,6) r(1) by simp
  ultimately show ?thesis using assms(2,3) r(2,3) by (auto simp: cover_def)
qed

lemma axis_single_eq:
  assumes "0 \<le> ax_lo a" "ax_lo a < 65536" "0 \<le> ax_hi a" "ax_hi a < 65536"
  shows "axis_single a = (if ax_from a = ax_to a then a\<lparr>ax_lo := (ax_hi a + ax_lo a) mod 65536, ax_hi := 0\<rparr> else a)"
proof -
  have "(ax_hi a - 65536 + ax_lo a) mod 65536 = (ax_hi a + ax_lo a) mod 65536"
    by (metis add_diff_eq diff_add_eq minus_mod_self2)
  then show ?thesis using assms by (cases a) (auto simp: axis_single_def and_FFFF or_eq_0_iff)
qed

lemma axis_pixels_eq:
  assumes "is_i32 (x + w)" "0 < w"
  shows "axis_pixels cmin cmax x w = \<lparr>ax_from = max cmin (x div 65536), ax_to = min cmax ((x + w - 1) div 65536),
    ax_lo = (if x div 65536 < cmin then 0 else (- x) mod 65536), ax_hi = (if cmax < (x + w - 1) div 65536 then 0 else (x + w) mod 65536)\<rparr>"
  using assms by (auto simp: axis_pixels_def axis_edges_def IMAGE_FRAC_EDGE_KEEP_def IMAGE_FRAC_EDGE_PAD_def IMAGE_FRAC_EDGE_TRIM_def
      axis_of_eq axis_clip_def Let_def)

lemma axis_single_cover:
  assumes "is_i32 (x + w)" "0 < w" and a: "a = axis_pixels cmin cmax x w" and s: "s = axis_single a" and ne: "ax_from a \<le> ax_to a"
  shows "ax_from s = ax_from a" "ax_to s = ax_to a" "frac_ok (ax_lo s)" "frac_ok (ax_hi s)"
    "(if ax_lo s \<noteq> 0 then 1 else 0) + (if ax_hi s \<noteq> 0 then 1 else 0) \<le> ax_to s - ax_from s + 1"
    "ax_from a \<le> i \<Longrightarrow> i \<le> ax_to a \<Longrightarrow> ax_frac s i = cover x w i"
proof -
  obtain e where e: "x + w = (x + w - 1) div 65536 * 65536 + e" "0 < e" "e \<le> 65536" "(x + w) mod 65536 = (if e = 65536 then 0 else e)"
    by (rule last_part [of "x + w"])
  let ?q = "x div 65536" and ?t = "(x + w - 1) div 65536" and ?r = "x mod 65536"
  have r: "0 \<le> ?r" "?r < 65536" by simp_all
  note eq = axis_pixels_eq [OF assms(1,2), of cmin cmax, folded a]
  have lo: "0 \<le> ax_lo a" "ax_lo a < 65536" and hi: "0 \<le> ax_hi a" "ax_hi a < 65536" by (simp_all add: eq)
  note s_eq = axis_single_eq [OF lo hi, folded s]
  show ft: "ax_from s = ax_from a" "ax_to s = ax_to a" by (simp_all add: s_eq)
  show "frac_ok (ax_lo s)" "frac_ok (ax_hi s)" using lo hi by (simp_all add: s_eq frac_ok_def)
  show "(if ax_lo s \<noteq> 0 then 1 else 0) + (if ax_hi s \<noteq> 0 then 1 else 0) \<le> ax_to s - ax_from s + 1"
    using ne by (simp add: s_eq)
  assume i: "ax_from a \<le> i" "i \<le> ax_to a"
  then have it: "?q \<le> i" "i \<le> ?t" by (simp_all add: eq)
  note c = cover_eq [OF e(1-3) it assms(2)]
  have l: "ax_lo a = (if ax_from a = ?q \<and> ?r \<noteq> 0 then 65536 - ?r else 0)" and h: "ax_hi a = (if ax_to a = ?t \<and> e \<noteq> 65536 then e else 0)"
    using e(4) by (auto simp: eq first_part(2) max_def min_def)
  show "ax_frac s i = cover x w i"
  proof (cases "ax_from a = ax_to a")
    case True
    then have "i = ax_from a" using i by simp
    have m: "?r \<noteq> 0 \<Longrightarrow> - ?r mod 65536 = 65536 - ?r" "?r < e \<Longrightarrow> e \<noteq> 65536 \<Longrightarrow> (e + (65536 - ?r)) mod 65536 = e - ?r"
      using first_part(2) [of ?r] mod_pos_pos_trivial [of "e - ?r" 65536] mod_add_self2 [of "e - ?r" 65536] e(3) r
      by (simp_all add: algebra_simps)
    have pos: "?q = ?t \<Longrightarrow> ?r < e" using e(1) assms(2) first_part(1) [of x] by simp
    have "(ax_hi a + ax_lo a) mod 65536 = (if cover x w i = 65536 then 0 else cover x w i) \<and> 0 < cover x w i"
      unfolding c l h using True \<open>i = ax_from a\<close> pos e(2,3) r
      by (auto simp: m)
    then show ?thesis using True \<open>i = ax_from a\<close> by (simp add: s_eq ax_frac_def)
  next
    case False
    have "?q \<le> ax_from a" "ax_to a \<le> ?t" by (simp_all add: eq)
    then consider "i = ax_from a" "i \<noteq> ?t" | "i = ax_to a" "i \<noteq> ?q" "i \<noteq> ax_from a" | "i \<noteq> ?q" "i \<noteq> ?t" "i \<noteq> ax_from a" "i \<noteq> ax_to a"
      using i False by fastforce
    then show ?thesis unfolding c by cases (use False e(2) r in \<open>auto simp: s_eq ax_frac_def l h\<close>)
  qed
qed

section \<open>Bands of rows\<close>

text \<open>
  \<open>rows_rel d i stride n h P d'\<close>: pixel \<open>k\<close> of row \<open>j\<close> of a block of \<open>h\<close> rows of \<open>n\<close> pixels is related by \<open>P j k\<close>
  to what it was, and no other cell has changed.
\<close>

definition rows_rel ::
    "jint list \<Rightarrow> int \<Rightarrow> int \<Rightarrow> nat \<Rightarrow> nat \<Rightarrow> (nat \<Rightarrow> nat \<Rightarrow> jint \<Rightarrow> jint \<Rightarrow> bool) \<Rightarrow> jint list \<Rightarrow> bool" where
  "rows_rel d i stride n h P d' \<longleftrightarrow> length d' = length d \<and> (\<forall>x < length d.
     (\<forall>j < h. \<forall>k < n. int x = i + int j * stride + int k \<longrightarrow> P j k (d ! x) (d' ! x)) \<and>
     ((\<forall>j < h. \<forall>k < n. int x \<noteq> i + int j * stride + int k) \<longrightarrow> d' ! x = d ! x))"

lemma rows_rel_of:
  assumes "rows_of d i stride n h ops d'" "\<And>j k p q. j < h \<Longrightarrow> k < n \<Longrightarrow> pixop_val (ops j k) p = Some q \<Longrightarrow> P j k p q"
  shows "rows_rel d i stride n h P d'"
  using assms unfolding rows_of_def rows_rel_def by blast

lemma rows_rel_0: "rows_rel d i stride n 0 P d"
  by (simp add: rows_rel_def)

lemma rows_rel_cong:
  "rows_rel d i stride n h P d' \<Longrightarrow> (\<And>j k. j < h \<Longrightarrow> k < n \<Longrightarrow> P j k = Q j k) \<Longrightarrow> rows_rel d i stride n h Q d'"
  unfolding rows_rel_def by auto

lemma rows_rel_append:
  assumes "rows_rel d i stride n g P d1" "rows_rel d1 (i + int g * stride) stride n h Q d2" "int n \<le> stride"
  shows "rows_rel d i stride n (g + h) (\<lambda>j k. if j < g then P j k else Q (j - g) k) d2"
  unfolding rows_rel_def
proof (intro conjI allI impI)
  note r1 = assms(1) [unfolded rows_rel_def] and r2 = assms(2) [unfolded rows_rel_def]
  show "length d2 = length d" using r1 r2 by simp
  fix x assume x: "x < length d"
  have second: "int x = i + int j * stride + int k \<longleftrightarrow> int x = i + int g * stride + int (j - g) * stride + int k" if "g \<le> j" for j k
    using that by (simp add: of_nat_diff algebra_simps)
  {
    fix j k assume jk: "j < g + h" "k < n" and eq: "int x = i + int j * stride + int k"
    have unique: "j' = j" if "k' < n" "int x = i + int j' * stride + int k'" for j' k'
      using row_unique [of j' stride k' j k n] that eq jk(2) assms(3) by simp
    show "(if j < g then P j k else Q (j - g) k) (d ! x) (d2 ! x)"
    proof (cases "j < g")
      case True
      have "\<forall>j' < h. \<forall>k' < n. int x \<noteq> i + int g * stride + int j' * stride + int k'"
      proof (intro allI impI notI)
        fix j' k' assume "j' < h" "k' < n" "int x = i + int g * stride + int j' * stride + int k'"
        with second [of "g + j'" k'] unique [of k' "g + j'"] True show False by simp
      qed
      then have "d2 ! x = d1 ! x" using r1 r2 x by simp
      with True r1 x jk eq show ?thesis by simp
    next
      case False
      have "\<forall>j' < g. \<forall>k' < n. int x \<noteq> i + int j' * stride + int k'" using unique False by blast
      then have "d1 ! x = d ! x" using r1 x by simp
      moreover have "Q (j - g) k (d1 ! x) (d2 ! x)" using r1 r2 x jk False eq second [of j k] by simp
      ultimately show ?thesis using False by simp
    qed
  next
    assume out: "\<forall>j < g + h. \<forall>k < n. int x \<noteq> i + int j * stride + int k"
    then have "\<forall>j < g. \<forall>k < n. int x \<noteq> i + int j * stride + int k" by simp
    moreover have "\<forall>j < h. \<forall>k < n. int x \<noteq> i + int g * stride + int j * stride + int k"
      using out second by (metis add_diff_cancel_left' le_add1 nat_add_left_cancel_less)
    ultimately show "d2 ! x = d ! x" using r1 r2 x by simp
  }
qed

text \<open>
  The law of a routine that draws bands: from a state that is ready for row \<open>j\<close> a band of \<open>h\<close> rows is drawn
  with the fraction \<open>fr\<close>, and the renderer is ready for the row after it.
\<close>

locale band_law =
  fixes fl :: "('f, 'd) arith" and alloc :: "nat \<Rightarrow> bool" and x0 W :: jint and n H :: nat and base :: int
    and ready :: "nat \<Rightarrow> ('f, 'a) renderer_scheme \<Rightarrow> bool" and sound :: "('f, 'a) renderer_scheme \<Rightarrow> bool"
    and pix :: "jint \<Rightarrow> nat \<Rightarrow> jint \<Rightarrow> jint \<Rightarrow> bool"
  assumes stride: "ready j rdr \<Longrightarrow> int n \<le> W \<and> H < 2 ^ 31"
    and sound: "ready j rdr \<Longrightarrow> sound rdr"
    and band: "ready j rdr \<Longrightarrow> 0 < h \<Longrightarrow> j + h \<le> H \<Longrightarrow> 0 < fr \<Longrightarrow> fr \<le> 65536 \<Longrightarrow>
      \<exists>rdr'. emit_band fl alloc (int h) fr rdr = Some rdr'
        \<and> rows_rel (r_data rdr) (base + int j * W) W n h (\<lambda>_. pix fr) (r_data rdr')
        \<and> sound rdr' \<and> ready (j + h) (next_band x0 W (int h) rdr') \<and> r_data (next_band x0 W (int h) rdr') = r_data rdr'"
begin

lemma mid_bands_rows:
  assumes "ready j rdr" "j + m \<le> H"
  shows "\<exists>rdr'. mid_bands fl alloc x0 W (int m) rdr = Some rdr'
    \<and> rows_rel (r_data rdr) (base + int j * W) W n m (\<lambda>_. pix 65536) (r_data rdr') \<and> ready (j + m) rdr'"
  using assms
proof (induction m arbitrary: j rdr rule: less_induct)
  case (less m)
  show ?case
  proof (cases "m = 0")
    case True
    then show ?thesis using less.prems by (simp add: mid_bands.simps rows_rel_0)
  next
    case False
    define h where "h = min m 8"
    have h: "0 < h" "h \<le> m" "int h = min (int m) NUM_ALPHA_ROWS" using False by (auto simp: h_def NUM_ALPHA_ROWS_def)
    have "j + h \<le> H" using h less.prems(2) by simp
    from band [OF less.prems(1) h(1) this, of 65536] obtain r1 where
      r1: "emit_band fl alloc (int h) 65536 rdr = Some r1" "rows_rel (r_data rdr) (base + int j * W) W n h (\<lambda>_. pix 65536) (r_data r1)"
        "ready (j + h) (next_band x0 W (int h) r1)" "r_data (next_band x0 W (int h) r1) = r_data r1" by auto
    have "j + h + (m - h) \<le> H" "m - h < m" using h less.prems(2) by simp_all
    from less.IH [OF this(2) r1(3) this(1)] obtain r2 where
      r2: "mid_bands fl alloc x0 W (int (m - h)) (next_band x0 W (int h) r1) = Some r2"
        "rows_rel (r_data r1) (base + int (j + h) * W) W n (m - h) (\<lambda>_. pix 65536) (r_data r2)" "ready (j + h + (m - h)) r2"
      by (auto simp: r1(4))
    have "mid_bands fl alloc x0 W (int m) rdr = Some r2"
      using False r1(1) r2(1) h(2) by (subst mid_bands.simps) (simp add: Let_def flip: h(3))
    moreover have "rows_rel (r_data rdr) (base + int j * W) W n (h + (m - h)) (\<lambda>j' k. if j' < h then pix 65536 k else pix 65536 k) (r_data r2)"
      using r2(2) stride [OF less.prems(1)] by (intro rows_rel_append [OF r1(2)]) (simp_all add: algebra_simps)
    ultimately show ?thesis using h(2) r2(3) by simp
  qed
qed

lemma emit_all_rows:
  assumes "ready 0 rdr" "frac_ok (ax_lo ay)" "frac_ok (ax_hi ay)" "int H = ax_to ay - ax_from ay + 1"
    and "(if ax_lo ay \<noteq> 0 then 1 else 0) + (if ax_hi ay \<noteq> 0 then 1 else 0) \<le> int H"
  shows "\<exists>rdr'. emit_all fl alloc x0 W ay (int H) rdr = Some rdr'
    \<and> rows_rel (r_data rdr) base W n H (\<lambda>j. pix (ax_frac ay (ax_from ay + int j))) (r_data rdr') \<and> sound rdr'"
proof -
  define t where "t = (if ax_lo ay \<noteq> 0 then 1 else 0 :: nat)"
  define b where "b = (if ax_hi ay \<noteq> 0 then 1 else 0 :: nat)"
  define m where "m = H - t - b"
  have tb: "t + b \<le> H" "t + m + b = H" using assms(5) by (auto simp: t_def b_def m_def split: if_splits)
  note st = stride [OF assms(1)]
  have "\<exists>r1. (if ax_lo ay \<noteq> 0 then do { rdr \<leftarrow> emit_band fl alloc 1 (ax_lo ay) rdr; Some (i32 (int (H - b) - 1), next_band x0 W 1 rdr) }
        else Some (int (H - b), rdr)) = Some (int m, r1) \<and> ready t r1 \<and> rows_rel (r_data rdr) base W n t (\<lambda>_. pix (ax_lo ay)) (r_data r1)"
  proof (cases "ax_lo ay = 0")
    case False
    then have "0 < ax_lo ay" "ax_lo ay \<le> 65536" "0 + 1 \<le> H" using assms(2) tb by (auto simp: frac_ok_def t_def)
    with band [OF assms(1), of 1 "ax_lo ay"] obtain r1 where
      "emit_band fl alloc 1 (ax_lo ay) rdr = Some r1" "rows_rel (r_data rdr) base W n 1 (\<lambda>_. pix (ax_lo ay)) (r_data r1)"
      "ready 1 (next_band x0 W 1 r1)" "r_data (next_band x0 W 1 r1) = r_data r1" by auto
    moreover have "i32 (int (H - b) - 1) = int m" using tb False st by (auto simp: m_def t_def i32_small of_nat_diff)
    ultimately show ?thesis using False by (auto simp: t_def)
  qed (use assms(1) tb in \<open>auto simp: t_def m_def rows_rel_0\<close>)
  then obtain r1 where r1: "(if ax_lo ay \<noteq> 0 then do { rdr \<leftarrow> emit_band fl alloc 1 (ax_lo ay) rdr; Some (i32 (int (H - b) - 1), next_band x0 W 1 rdr) }
        else Some (int (H - b), rdr)) = Some (int m, r1)" "ready t r1" "rows_rel (r_data rdr) base W n t (\<lambda>_. pix (ax_lo ay)) (r_data r1)" by blast
  have "t + m \<le> H" using tb by simp
  from mid_bands_rows [OF r1(2) this] obtain r2 where
    r2: "mid_bands fl alloc x0 W (int m) r1 = Some r2" "rows_rel (r_data r1) (base + int t * W) W n m (\<lambda>_. pix 65536) (r_data r2)" "ready (t + m) r2" by blast
  have "\<exists>r3. (if ax_hi ay \<noteq> 0 then emit_band fl alloc 1 (ax_hi ay) r2 else Some r2) = Some r3
      \<and> rows_rel (r_data r2) (base + int (t + m) * W) W n b (\<lambda>_. pix (ax_hi ay)) (r_data r3) \<and> sound r3"
  proof (cases "ax_hi ay = 0")
    case False
    then have "0 < ax_hi ay" "ax_hi ay \<le> 65536" "t + m + 1 \<le> H" using assms(3) tb by (auto simp: frac_ok_def b_def)
    with band [OF r2(3), of 1 "ax_hi ay"] False show ?thesis by (auto simp: b_def)
  qed (use sound [OF r2(3)] in \<open>auto simp: b_def rows_rel_0\<close>)
  then obtain r3 where r3: "(if ax_hi ay \<noteq> 0 then emit_band fl alloc 1 (ax_hi ay) r2 else Some r2) = Some r3"
    "rows_rel (r_data r2) (base + int (t + m) * W) W n b (\<lambda>_. pix (ax_hi ay)) (r_data r3)" "sound r3" by blast
  have "(if ax_hi ay \<noteq> 0 then i32 (int H - 1) else int H) = int (H - b)" using tb st by (auto simp: b_def i32_small of_nat_diff)
  with r1(1) r2(1) r3(1) have "emit_all fl alloc x0 W ay (int H) rdr = Some r3" by (simp add: emit_all_def Let_def)
  moreover have "rows_rel (r_data rdr) base W n H (\<lambda>j. pix (ax_frac ay (ax_from ay + int j))) (r_data r3)"
  proof -
    have "rows_rel (r_data rdr) base W n (t + m + b)
        (\<lambda>j k. if j < t + m then (if j < t then pix (ax_lo ay) k else pix 65536 k) else pix (ax_hi ay) k) (r_data r3)"
      using r3(2) st by (intro rows_rel_append [OF rows_rel_append [OF r1(3) r2(2)]]) (simp_all add: algebra_simps)
    then show ?thesis unfolding tb(2)
      by (rule rows_rel_cong) (use assms(4) tb in \<open>auto simp: ax_frac_def t_def b_def split: if_splits\<close>)
  qed
  ultimately show ?thesis using r3(3) by blast
qed

end

section \<open>Rectangles of the current colour\<close>

text \<open>
  The states of a renderer during a fill differ from the first one, \<open>r0\<close>, in the image, the paint buffer
  and the position only.
\<close>

abbreviation at_row :: "('f, 'a) renderer_scheme \<Rightarrow> jint list \<Rightarrow> jint list \<Rightarrow> jint \<Rightarrow> jint \<Rightarrow> jint \<Rightarrow> jint \<Rightarrow> ('f, 'a) renderer_scheme" where
  "at_row r0 d p x y off k \<equiv> r0\<lparr>r_data := d, r_paint := p, r_currX := x, r_currY := y, r_currImageOffset := off, rn_rowNum := k\<rparr>"

definition drawn :: "('f, 'a) renderer_scheme \<Rightarrow> ('f, 'a) renderer_scheme \<Rightarrow> bool" where
  "drawn r0 rdr \<longleftrightarrow> surface_ok (r_data rdr) \<and> length (r_data rdr) = length (r_data r0)
     \<and> (\<exists>d p x y off k. rdr = at_row r0 d p x y off k)"

text \<open>\<open>rect_ok y0 W n H r0\<close>: the \<open>n\<close> columns and \<open>H\<close> rows to be drawn lie in the image.\<close>

definition rect_ok :: "jint \<Rightarrow> jint \<Rightarrow> nat \<Rightarrow> nat \<Rightarrow> ('f, 'a) renderer_scheme \<Rightarrow> bool" where
  "rect_ok y0 W n H r0 \<longleftrightarrow> r_imagePixelStride r0 = 1 \<and> r_imageScanlineStride r0 = W \<and> 0 < n \<and> r_alphaWidth r0 = int n
     \<and> 0 \<le> y0 \<and> 0 \<le> r_minTouched r0 \<and> r_minTouched r0 + int n \<le> W \<and> (y0 + int H) * W \<le> int (length (r_data r0))
     \<and> int (length (r_data r0)) < 2 ^ 31 \<and> frac_ok (r_el_lfrac r0) \<and> frac_ok (r_el_rfrac r0)
     \<and> (if r_el_lfrac r0 \<noteq> 0 then 1 else 0) + (if r_el_rfrac r0 \<noteq> 0 then 1 else 0) \<le> int n"

definition at_band :: "jint \<Rightarrow> jint \<Rightarrow> nat \<Rightarrow> nat \<Rightarrow> ('f, 'a) renderer_scheme \<Rightarrow> nat \<Rightarrow> ('f, 'a) renderer_scheme \<Rightarrow> bool" where
  "at_band y0 W n H r0 j rdr \<longleftrightarrow> rect_ok y0 W n H r0 \<and> drawn r0 rdr \<and> j \<le> H
     \<and> r_currY rdr = y0 + int j \<and> r_currImageOffset rdr = (y0 + int j) * W"

lemma rect_ok_rows:
  assumes "rect_ok y0 W n H r0" "j \<le> H"
  shows "(y0 + int j) * W \<le> int (length (r_data r0))" "0 \<le> (y0 + int j) * W" "0 < W" "int n \<le> W" "int H < 2 ^ 31" "y0 + int j < 2 ^ 31"
proof -
  have W: "int n \<le> W" "0 < W" "0 \<le> y0" using assms(1) by (auto simp: rect_ok_def)
  have "(y0 + int j) * W \<le> (y0 + int H) * W" using assms(2) W(2) by (intro mult_right_mono) auto
  then show m: "(y0 + int j) * W \<le> int (length (r_data r0))" using assms(1) unfolding rect_ok_def by linarith
  show "0 \<le> (y0 + int j) * W" "int n \<le> W" "0 < W" using W by simp_all
  have "(y0 + int H) * 1 \<le> (y0 + int H) * W" using W by (intro mult_left_mono) auto
  moreover have "(y0 + int H) * W < 2 ^ 31" using assms(1) unfolding rect_ok_def by linarith
  ultimately show "int H < 2 ^ 31" "y0 + int j < 2 ^ 31" using W(3) assms(2) by auto
qed

lemma at_band_lines:
  assumes "at_band y0 W n H r0 j rdr" "0 < h" "j + h \<le> H"
  shows "lines_ok rdr h" "r_alphaWidth rdr = int n" "is_i32 (r_alphaWidth rdr)" "row_start rdr = y0 * W + r_minTouched r0 + int j * W"
    "r_imageScanlineStride rdr = W" "r_el_lfrac rdr = r_el_lfrac r0" "r_el_rfrac rdr = r_el_rfrac r0" "cur_colour rdr = cur_colour r0"
    "surface_ok (r_data rdr)"
proof -
  have ok: "rect_ok y0 W n H r0" and dr: "drawn r0 rdr" and cy: "r_currImageOffset rdr = (y0 + int j) * W"
    using assms(1) by (auto simp: at_band_def)
  note rows = rect_ok_rows [OF ok, of "j + h"] assms(3)
  have f: "r_imagePixelStride rdr = 1" "r_imageScanlineStride rdr = W" "r_minTouched rdr = r_minTouched r0" "r_alphaWidth rdr = int n"
    "r_el_lfrac rdr = r_el_lfrac r0" "r_el_rfrac rdr = r_el_rfrac r0" "length (r_data rdr) = length (r_data r0)" "cur_colour rdr = cur_colour r0"
    using dr ok by (auto simp: drawn_def rect_ok_def cur_colour_def)
  have o: "0 \<le> (y0 + int j) * W" using rect_ok_rows(2) [OF ok, of j] assms(3) by simp
  have "(y0 + int j) * W + (int h - 1) * W + W = (y0 + int (j + h)) * W" by (simp add: algebra_simps)
  then have "(y0 + int j) * W + r_minTouched r0 + (int h - 1) * W + int n \<le> int (length (r_data r0))"
    using rows ok by (simp add: rect_ok_def)
  then show "lines_ok rdr h" using ok o by (simp add: lines_ok_def rect_ok_def f cy)
  show "r_alphaWidth rdr = int n" "r_imageScanlineStride rdr = W" "r_el_lfrac rdr = r_el_lfrac r0" "r_el_rfrac rdr = r_el_rfrac r0"
    "cur_colour rdr = cur_colour r0" using f by simp_all
  show "surface_ok (r_data rdr)" using dr by (simp add: drawn_def)
  show "row_start rdr = y0 * W + r_minTouched r0 + int j * W" by (simp add: row_start_def f cy algebra_simps)
  have "W \<le> (y0 + int (j + h)) * W" using mult_right_mono [of 1 "y0 + int (j + h)" W] rows(3,7) assms(2) ok by (simp add: rect_ok_def)
  then have "int n < 2 ^ 31" using rows ok unfolding rect_ok_def by linarith
  then show "is_i32 (r_alphaWidth rdr)" by (simp add: f is_i32_def)
qed

lemma drawn_upd:
  assumes "drawn r0 rdr" "surface_ok d" "length d = length (r_data rdr)"
  shows "drawn r0 (at_row rdr d p x y off k)"
proof -
  from assms(1) obtain d1 p1 x1 y1 off1 k1 where "rdr = at_row r0 d1 p1 x1 y1 off1 k1" by (auto simp: drawn_def)
  then have "at_row rdr d p x y off k = at_row r0 d p x y off k" by simp
  moreover have "length (r_data rdr) = length (r_data r0)" using assms(1) by (simp add: drawn_def)
  ultimately show ?thesis unfolding drawn_def by (intro conjI exI) (simp_all add: assms(2,3))
qed

lemma at_band_next:
  assumes "at_band y0 W n H r0 j rdr" "j + h \<le> H" "rdr' = rdr\<lparr>r_data := d, r_paint := p\<rparr>" "surface_ok d" "length d = length (r_data rdr)"
  shows "drawn r0 rdr'" "at_band y0 W n H r0 (j + h) (next_band x0 W (int h) rdr')" "r_data (next_band x0 W (int h) rdr') = r_data rdr'"
proof -
  have ok: "rect_ok y0 W n H r0" and cy: "r_currY rdr = y0 + int j" using assms(1) by (auto simp: at_band_def)
  have dr: "drawn r0 rdr" using assms(1) by (simp add: at_band_def)
  note rows = rect_ok_rows [OF ok, of "j + h"] assms(2)
  have "rdr' = at_row rdr d p (r_currX rdr) (r_currY rdr) (r_currImageOffset rdr) (rn_rowNum rdr)" using assms(3) by simp
  then show d': "drawn r0 rdr'" using drawn_upd [OF dr assms(4,5)] by metis
  show "r_data (next_band x0 W (int h) rdr') = r_data rdr'" by (simp add: next_band_def Let_def)
  have "i32 (r_currY rdr' + int h) = y0 + int (j + h)" using rows ok by (simp add: assms(3) cy add.assoc i32_small rect_ok_def)
  moreover have "i32 ((y0 + int (j + h)) * W) = (y0 + int (j + h)) * W" using rows ok unfolding rect_ok_def by (intro i32_small) auto
  moreover have "next_band x0 W (int h) rdr' = at_row rdr d p x0 (i32 (r_currY rdr' + int h)) (i32 (i32 (r_currY rdr' + int h) * W)) (i32 (rn_rowNum rdr' + int h))"
    by (simp add: next_band_def Let_def assms(3))
  then have "drawn r0 (next_band x0 W (int h) rdr')" using drawn_upd [OF dr assms(4,5)] by metis
  ultimately show "at_band y0 W n H r0 (j + h) (next_band x0 W (int h) rdr')"
    using assms(2) ok by (simp add: at_band_def next_band_def Let_def)
qed

text \<open>The routine that composites the current colour over the image obeys the law of bands.\<close>

definition flat_band :: "jint \<Rightarrow> jint \<Rightarrow> nat \<Rightarrow> nat \<Rightarrow> ('f, 'a) renderer_scheme \<Rightarrow> nat \<Rightarrow> ('f, 'a) renderer_scheme \<Rightarrow> bool" where
  "flat_band y0 W n H r0 j rdr \<longleftrightarrow> at_band y0 W n H r0 j rdr \<and> colour_ok (cur_colour r0)
     \<and> emitLine (rn_fn r0) = Some EmitLineSourceOver \<and> genPaint (rn_fn r0) = None"

definition flat_pix :: "('f, 'a) renderer_scheme \<Rightarrow> jint \<Rightarrow> nat \<Rightarrow> jint \<Rightarrow> jint \<Rightarrow> bool" where
  "flat_pix r0 fr k p q \<longleftrightarrow> q = blendSrcOver8888_pre p (over_alpha r0 fr k) (r_cred r0) (r_cgreen r0) (r_cblue r0)"

interpretation flat: band_law fl alloc x0 W n H "y0 * W + r_minTouched r0" "flat_band y0 W n H r0" "drawn r0" "flat_pix r0"
proof
  fix j rdr assume r: "flat_band y0 W n H r0 j rdr"
  then show "int n \<le> W \<and> H < 2 ^ 31" "drawn r0 rdr"
    using rect_ok_rows(4,5) [of y0 W n H r0 j] by (auto simp: flat_band_def at_band_def)
  fix h fr assume h: "0 < h" "j + h \<le> H" and fr: "0 < fr" "fr \<le> (65536 :: int)"
  have b: "at_band y0 W n H r0 j rdr" "colour_ok (cur_colour r0)" using r by (auto simp: flat_band_def)
  note l = at_band_lines [OF b(1) h]
  have dr: "drawn r0 rdr" and ok: "rect_ok y0 W n H r0" using b(1) by (auto simp: at_band_def)
  have fn: "rn_fn rdr = rn_fn r0" using dr by (auto simp: drawn_def)
  from emitLineSourceOver8888_pre_safe [of rdr "int h" fr] l b(2) ok fr
  obtain d where d: "emitLineSourceOver8888_pre rdr (int h) fr = Some (rdr\<lparr>r_data := d\<rparr>)" "surface_ok d"
    "line_rows rdr (int h) (\<lambda>_ k. Blend (\<lambda>p. Some (blendSrcOver8888_pre p (over_alpha rdr fr k) (r_cred rdr) (r_cgreen rdr) (r_cblue rdr)))) d"
    by (auto simp: rect_ok_def)
  let ?r = "rdr\<lparr>r_data := d\<rparr>"
  have e: "?r = rdr\<lparr>r_data := d, r_paint := r_paint rdr\<rparr>" by simp
  have len: "length d = length (r_data rdr)" using d(3) by (simp add: rows_of_def)
  have oa: "over_alpha rdr fr = over_alpha r0 fr" using l ok by (auto simp: over_alpha_def rect_ok_def cur_colour_def)
  have "emit_band fl alloc (int h) fr rdr = Some ?r"
    using r d(1) by (simp add: emit_band_def call_paint_def call_line_def fn flat_band_def)
  moreover have "rows_rel (r_data rdr) (y0 * W + r_minTouched r0 + int j * W) W n h (\<lambda>_. flat_pix r0 fr) (r_data ?r)"
    using d(3) l by (intro rows_rel_of) (auto simp: flat_pix_def oa cur_colour_def)
  ultimately show "\<exists>rdr'. emit_band fl alloc (int h) fr rdr = Some rdr'
      \<and> rows_rel (r_data rdr) (y0 * W + r_minTouched r0 + int j * W) W n h (\<lambda>_. flat_pix r0 fr) (r_data rdr')
      \<and> drawn r0 rdr' \<and> flat_band y0 W n H r0 (j + h) (next_band x0 W (int h) rdr') \<and> r_data (next_band x0 W (int h) rdr') = r_data rdr'"
    using at_band_next [OF b(1) h(2) e d(2) len] r by (auto simp: flat_band_def)
qed

end
