(* ===== verification/PiscesRect.thy ===== *)
theory PiscesRect
  imports PiscesFill
begin

unbundle bit_operations_syntax

text \<open>
  The calls of \<open>native-prism-sw/JPiscesRenderer.c\<close> from end to end: what the Java array of the surface holds
  after a rectangle has been filled or cleared, and what becomes of the renderer.
\<close>

section \<open>A fill from end to end\<close>

text \<open>
  The surface a renderer draws on: the Java array holds its rows, and the clip lies inside it.
\<close>

definition target_ok :: "jint list \<Rightarrow> ('f, 'a) renderer_scheme \<Rightarrow> bool" where
  "target_ok arr rdr \<longleftrightarrow> sf_imageType (rn_surface rdr) = TYPE_INT_ARGB_PRE \<and> 0 < sf_width (rn_surface rdr) \<and> 0 \<le> sf_height (rn_surface rdr)
     \<and> sf_width (rn_surface rdr) * sf_height (rn_surface rdr) \<le> int (length arr) \<and> int (length arr) < 2 ^ 31 \<and> surface_ok arr
     \<and> 0 \<le> rn_clip_bbMinX rdr \<and> rn_clip_bbMaxX rdr < sf_width (rn_surface rdr)
     \<and> 0 \<le> rn_clip_bbMinY rdr \<and> rn_clip_bbMaxY rdr < sf_height (rn_surface rdr)"

definition in_clip :: "('f, 'a) renderer_scheme \<Rightarrow> int \<Rightarrow> int \<Rightarrow> bool" where
  "in_clip rdr row col \<longleftrightarrow> rn_clip_bbMinX rdr \<le> col \<and> col \<le> rn_clip_bbMaxX rdr \<and> rn_clip_bbMinY rdr \<le> row \<and> row \<le> rn_clip_bbMaxY rdr"

text \<open>
  \<open>pixels_changed W arr S P arr'\<close>: the pixels (row, column) of \<open>S\<close> in an array with rows of \<open>W\<close> pixels are related by
  \<open>P\<close> to what they were, the others are kept.
\<close>

definition pixels_changed ::
    "int \<Rightarrow> jint list \<Rightarrow> (int \<Rightarrow> int \<Rightarrow> bool) \<Rightarrow> (int \<Rightarrow> int \<Rightarrow> jint \<Rightarrow> jint \<Rightarrow> bool) \<Rightarrow> jint list \<Rightarrow> bool" where
  "pixels_changed W arr S P arr' \<longleftrightarrow> length arr' = length arr \<and>
     (\<forall>row col. 0 \<le> row \<and> 0 \<le> col \<and> col < W \<and> row * W + col < int (length arr) \<longrightarrow>
        (let i = nat (row * W + col) in if S row col then P row col (arr ! i) (arr' ! i) else arr' ! i = arr ! i))"

lemma pixels_changed_empty: "(\<And>row col. \<not> S row col) \<Longrightarrow> pixels_changed W arr S P arr"
  by (simp add: pixels_changed_def)

text \<open>The pixels that a rectangle reaches inside the clip.\<close>

abbreviation changed ::
    "('f, 'a) renderer_scheme \<Rightarrow> jint list \<Rightarrow> jint \<Rightarrow> jint \<Rightarrow> jint \<Rightarrow> jint \<Rightarrow> (int \<Rightarrow> int \<Rightarrow> jint \<Rightarrow> jint \<Rightarrow> bool) \<Rightarrow> jint list \<Rightarrow> bool" where
  "changed rdr arr x y w h P arr' \<equiv> pixels_changed (sf_width (rn_surface rdr)) arr
     (\<lambda>row col. in_clip rdr row col \<and> 0 < cover x w col \<and> 0 < cover y h row) P arr'"

lemma rows_relD:
  assumes "rows_rel d i stride n h P d'" "x < length d"
  shows "j < h \<Longrightarrow> k < n \<Longrightarrow> int x = i + int j * stride + int k \<Longrightarrow> P j k (d ! x) (d' ! x)"
    "(\<And>j k. j < h \<Longrightarrow> k < n \<Longrightarrow> int x \<noteq> i + int j * stride + int k) \<Longrightarrow> d' ! x = d ! x"
  using assms by (simp_all add: rows_rel_def)

lemma rows_rel_pixel:
  assumes "rows_rel d (y0 * W + x0) W n H P d'" "0 \<le> x0" "x0 + int n \<le> W" "0 \<le> y0"
    and "0 \<le> row" "0 \<le> col" "col < W" "row * W + col < int (length d)"
  shows "if y0 \<le> row \<and> row < y0 + int H \<and> x0 \<le> col \<and> col < x0 + int n
    then P (nat (row - y0)) (nat (col - x0)) (d ! nat (row * W + col)) (d' ! nat (row * W + col))
    else d' ! nat (row * W + col) = d ! nat (row * W + col)"
proof -
  have i: "int (nat (row * W + col)) = row * W + col" using assms(5-7) by simp
  then have x: "nat (row * W + col) < length d" using assms(8) by linarith
  have at: "row = y0 + int j \<and> col = x0 + int k" if "int (nat (row * W + col)) = y0 * W + x0 + int j * W + int k" "k < n" for j k
  proof -
    have "row * W + col = (y0 + int j) * W + (x0 + int k)" using that(1) i by (simp add: algebra_simps)
    then have "(row * W + col) div W = ((y0 + int j) * W + (x0 + int k)) div W" by simp
    then have "row = y0 + int j" using assms(2,3,6,7) that(2) by simp
    then show ?thesis using \<open>row * W + col = (y0 + int j) * W + (x0 + int k)\<close> by simp
  qed
  show ?thesis
  proof (cases "y0 \<le> row \<and> row < y0 + int H \<and> x0 \<le> col \<and> col < x0 + int n")
    case True
    then have "int (nat (row * W + col)) = y0 * W + x0 + int (nat (row - y0)) * W + int (nat (col - x0))" unfolding i by (simp add: algebra_simps)
    from rows_relD(1) [OF assms(1) x _ _ this] show ?thesis using True by auto
  next
    case False
    have "d' ! nat (row * W + col) = d ! nat (row * W + col)"
    proof (rule rows_relD(2) [OF assms(1) x])
      fix j k assume "j < H" "k < n"
      then show "int (nat (row * W + col)) \<noteq> y0 * W + x0 + int j * W + int k" using at [of j k] False by auto
    qed
    with False show ?thesis by auto
  qed
qed

lemma rows_rel_changed:
  assumes "rows_rel d (y0 * W + x0) W n H P d'" "0 \<le> x0" "x0 + int n \<le> W" "0 \<le> y0"
    and S: "\<And>row col. S row col \<longleftrightarrow> y0 \<le> row \<and> row < y0 + int H \<and> x0 \<le> col \<and> col < x0 + int n"
    and Q: "\<And>row col p q. S row col \<Longrightarrow> P (nat (row - y0)) (nat (col - x0)) p q \<Longrightarrow> Q row col p q"
  shows "pixels_changed W d S Q d'"
  unfolding pixels_changed_def Let_def
proof (intro conjI allI impI)
  show "length d' = length d" using assms(1) by (simp add: rows_rel_def)
  fix row col assume rc: "0 \<le> row \<and> 0 \<le> col \<and> col < W \<and> row * W + col < int (length d)"
  then show "if S row col then Q row col (d ! nat (row * W + col)) (d' ! nat (row * W + col))
      else d' ! nat (row * W + col) = d ! nat (row * W + col)"
    using rows_rel_pixel [OF assms(1-4), of row col] Q [of row col] by (simp add: S split: if_splits)
qed

text \<open>The state a fill starts from, with the axes of the rectangle.\<close>

definition fill_axes :: "('f, 'a) renderer_scheme \<Rightarrow> jint \<Rightarrow> jint \<Rightarrow> jint \<Rightarrow> jint \<Rightarrow> axis \<times> axis" where
  "fill_axes rdr x y w h = (axis_pixels (rn_clip_bbMinX rdr) (rn_clip_bbMaxX rdr) x w, axis_pixels (rn_clip_bbMinY rdr) (rn_clip_bbMaxY rdr) y h)"

definition fill_first :: "jint list \<Rightarrow> ('f, 'a) renderer_scheme \<Rightarrow> jint \<Rightarrow> jint \<Rightarrow> jint \<Rightarrow> jint \<Rightarrow> ('f, 'a) renderer_scheme" where
  "fill_first arr rdr x y w h = (case fill_axes rdr x y w h of (ax, ay) \<Rightarrow>
     fill_setup ax ay (VALIDATE_BLITTING (INVALIDATE_RENDERER_SURFACE
       (rdr\<lparr>rn_rectX := ax_from (axis_of x w), rn_rectY := ax_from (axis_of y h), rn_surface := (rn_surface rdr)\<lparr>sf_data := arr\<rparr>\<rparr>))))"

lemma drawn_refl:
  assumes "surface_ok (r_data r)"
  shows "drawn r r"
proof -
  have "\<exists>d p x y off k. r = at_row r d p x y off k"
    by (rule exI [of _ "r_data r"], rule exI [of _ "r_paint r"], rule exI [of _ "r_currX r"], rule exI [of _ "r_currY r"],
        rule exI [of _ "r_currImageOffset r"], rule exI [of _ "rn_rowNum r"]) simp
  with assms show ?thesis by (simp add: drawn_def)
qed

lemma surface_acquire_ok:
  "target_ok arr rdr \<Longrightarrow> surface_acquire True arr (rn_surface rdr) = Some ((rn_surface rdr)\<lparr>sf_data := arr\<rparr>, False, None)"
  by (auto simp: target_ok_def surface_acquire_def Let_def not_less zdiv_mono1 pos_imp_zdiv_neg_iff dest: zdiv_mono1 [where b = "sf_width (rn_surface rdr)"])

lemma fill_first_ok:
  assumes "rn_inv rdr" "target_ok arr rdr" "is_i32 (x + w)" "0 < w" "is_i32 (y + h)" "0 < h"
    and axes: "fill_axes rdr x y w h = (ax, ay)" and ne: "ax_from ax \<le> ax_to ax" "ax_from ay \<le> ax_to ay"
  defines "r0 \<equiv> fill_first arr rdr x y w h"
  shows "rect_ok (ax_from ay) (sf_width (rn_surface rdr)) (nat (ax_to ax - ax_from ax + 1)) (nat (ax_to ay - ax_from ay + 1)) r0" (is ?rect)
    and "drawn r0 r0" "r_data r0 = arr" "r_minTouched r0 = ax_from ax" "r_currY r0 = ax_from ay" "r_maxTouched r0 = ax_to ax" "r_currX r0 = ax_from ax"
    and "r_currImageOffset r0 = ax_from ay * sf_width (rn_surface rdr)" "cur_colour r0 = shown_colour rdr"
    and "r_el_lfrac r0 = ax_lo (axis_single ax)" "r_el_rfrac r0 = ax_hi (axis_single ax)"
    and "emitLine (rn_fn r0) = line_for (rn_compositeRule rdr) (rn_paintMode rdr = PAINT_FLAT_COLOR)"
    and "genPaint (rn_fn r0) = paint_for (rn_paintMode rdr)" "rn_inv r0" "rn_surface r0 = (rn_surface rdr)\<lparr>sf_data := arr\<rparr>"
proof -
  let ?W = "sf_width (rn_surface rdr)"
  define r1 where "r1 = rdr\<lparr>rn_rectX := ax_from (axis_of x w), rn_rectY := ax_from (axis_of y h), rn_surface := (rn_surface rdr)\<lparr>sf_data := arr\<rparr>\<rparr>"
  have "rn_inv r1" using assms(1) by (rule rn_inv_by_core) (simp add: core_def r1_def cur_colour_def)
  from validate_surface [OF this] obtain f s where
    v: "VALIDATE_BLITTING (INVALIDATE_RENDERER_SURFACE r1) = (with_colour (with_surface r1))\<lparr>rn_fn := f, rn_rendererState := s\<rparr>"
      "tabs_ok r1 f" "rn_inv (VALIDATE_BLITTING (INVALIDATE_RENDERER_SURFACE r1))" by blast
  have r0: "r0 = fill_setup ax ay (VALIDATE_BLITTING (INVALIDATE_RENDERER_SURFACE r1))"
    by (simp add: r0_def fill_first_def axes r1_def)
  have s1: "sf_width (rn_surface (VALIDATE_BLITTING (INVALIDATE_RENDERER_SURFACE r1))) = ?W"
    unfolding v(1) by (simp add: with_colour_def with_surface_def r1_def Let_def split: prod.splits)
  note su = r0 [unfolded fill_setup_def Let_def s1]
  show "rn_inv r0" using v(3) by (rule rn_inv_by_core) (simp add: core_def su cur_colour_def)
  have d: "r_data (VALIDATE_BLITTING (INVALIDATE_RENDERER_SURFACE r1)) = arr"
    unfolding v(1) by (simp add: with_colour_def with_surface_def r1_def Let_def split: prod.splits)
  show data: "r_data r0 = arr" by (simp add: su d)
  show "r_minTouched r0 = ax_from ax" "r_currY r0 = ax_from ay" "r_maxTouched r0 = ax_to ax" "r_currX r0 = ax_from ax"
    "r_el_lfrac r0 = ax_lo (axis_single ax)" "r_el_rfrac r0 = ax_hi (axis_single ax)"
    by (simp_all add: su)
  show "cur_colour r0 = shown_colour rdr"
    unfolding su v(1) by (simp add: with_colour_def with_surface_def shown_colour_def r1_def Let_def cur_colour_def split: prod.splits)
  show "emitLine (rn_fn r0) = line_for (rn_compositeRule rdr) (rn_paintMode rdr = PAINT_FLAT_COLOR)" "genPaint (rn_fn r0) = paint_for (rn_paintMode rdr)"
    using v(2) unfolding su v(1) by (simp_all add: tabs_ok_def paint_tab_def r1_def)
  show "rn_surface r0 = (rn_surface rdr)\<lparr>sf_data := arr\<rparr>"
    unfolding su v(1) by (simp add: with_colour_def with_surface_def r1_def Let_def split: prod.splits)
  show "drawn r0 r0" using assms(2) by (intro drawn_refl) (simp add: data target_ok_def)
  have X: "ax = axis_pixels (rn_clip_bbMinX rdr) (rn_clip_bbMaxX rdr) x w" and Y: "ay = axis_pixels (rn_clip_bbMinY rdr) (rn_clip_bbMaxY rdr) y h"
    using axes by (simp_all add: fill_axes_def)
  note sx = axis_single_cover [OF assms(3,4) X refl ne(1)] and rx = axis_pixels_range [OF assms(3,4), of "rn_clip_bbMinX rdr" "rn_clip_bbMaxX rdr", folded X]
  note ry = axis_pixels_range [OF assms(5,6), of "rn_clip_bbMinY rdr" "rn_clip_bbMaxY rdr", folded Y]
  have clip: "0 \<le> rn_clip_bbMinX rdr" "rn_clip_bbMaxX rdr < ?W" "0 \<le> rn_clip_bbMinY rdr" "rn_clip_bbMaxY rdr < sf_height (rn_surface rdr)"
    using assms(2) by (simp_all add: target_ok_def)
  have tx: "0 \<le> ax_from ax" "ax_to ax < ?W" and ty: "0 \<le> ax_from ay" "ax_to ay < sf_height (rn_surface rdr)"
    unfolding rx ry using clip by simp_all
  have W: "0 < ?W" and area: "sf_height (rn_surface rdr) * ?W \<le> int (length arr)" "int (length arr) < 2147483648"
    using assms(2) by (simp_all add: target_ok_def mult.commute)
  have "(ax_to ay + 1) * ?W \<le> sf_height (rn_surface rdr) * ?W" using ty W by (intro mult_right_mono) auto
  then have len: "(ax_to ay + 1) * ?W \<le> int (length arr)" using area(1) by linarith
  have "ax_from ay * ?W \<le> (ax_to ay + 1) * ?W" using ne(2) W by (intro mult_right_mono) auto
  then have "ax_from ay * ?W < 2147483648" using len area(2) by linarith
  then have off: "i32 (ax_from ay * ?W) = ax_from ay * ?W" using ty(1) W by (intro i32_small) auto
  then show "r_currImageOffset r0 = ax_from ay * ?W" by (simp add: su)
  have "1 * ?W \<le> sf_height (rn_surface rdr) * ?W" using ty ne(2) W by (intro mult_right_mono) auto
  then have "?W < 2147483648" using area by linarith
  then have aw: "i32 (ax_to ax - ax_from ax + 1) = ax_to ax - ax_from ax + 1" using tx ne by (intro i32_small) auto
  show ?rect using len tx ty ne sx(3-5) area(2)
    by (simp add: rect_ok_def data) (auto simp: su aw sx(1,2) frac_ok_def)
qed

text \<open>Drawing a body that succeeds: the array of the surface is the image the body leaves.\<close>

lemma draw_ok:
  assumes "target_ok arr rdr" "arr \<noteq> []" "body (rdr\<lparr>rn_surface := (rn_surface rdr)\<lparr>sf_data := arr\<rparr>\<rparr>) = Some (False, r)"
  shows "draw True arr body rdr = Some (None, r_data r, r\<lparr>rn_surface := (rn_surface r)\<lparr>sf_data := r_data r\<rparr>\<rparr>)"
  using assms(2,3) by (simp add: draw_def drawing_def surface_acquire_ok [OF assms(1)] Let_def)

lemma target_ok_rect: "target_ok arr (rdr\<lparr>rn_rectX := a, rn_rectY := b\<rparr>) = target_ok arr rdr"
  by (simp add: target_ok_def)

lemma fill_axes_nonempty:
  assumes "is_i32 (x + w)" "0 < w" "is_i32 (y + h)" "0 < h" "fill_axes rdr x y w h = (ax, ay)"
  shows "in_clip rdr row col \<and> 0 < cover x w col \<and> 0 < cover y h row
    \<longleftrightarrow> ax_from ax \<le> col \<and> col \<le> ax_to ax \<and> ax_from ay \<le> row \<and> row \<le> ax_to ay"
  using assms(5) axis_pixels_inside [OF assms(1,2), of "rn_clip_bbMinX rdr" "rn_clip_bbMaxX rdr" col]
    axis_pixels_inside [OF assms(3,4), of "rn_clip_bbMinY rdr" "rn_clip_bbMaxY rdr" row]
  by (auto simp: in_clip_def fill_axes_def)

text \<open>From the law of the bands to the pixels of the surface.\<close>

lemma fillRectImpl_pixels:
  assumes "rn_inv rdr" "target_ok arr rdr" "is_i32 (x + w)" "0 < w" "is_i32 (y + h)" "0 < h"
    and law: "\<And>ax ay n H. fill_axes rdr x y w h = (ax, ay) \<Longrightarrow> ax_from ax \<le> ax_to ax \<Longrightarrow> ax_from ay \<le> ax_to ay \<Longrightarrow>
      n = nat (ax_to ax - ax_from ax + 1) \<Longrightarrow> H = nat (ax_to ay - ax_from ay + 1) \<Longrightarrow>
      band_law fl alloc (ax_from ax) (sf_width (rn_surface rdr)) n H (ax_from ay * sf_width (rn_surface rdr) + ax_from ax)
        (ready ax ay) (drawn (fill_first arr rdr x y w h)) (pix ax ay) \<and> ready ax ay 0 (fill_first arr rdr x y w h)"
    and pix: "\<And>ax ay row col p q. fill_axes rdr x y w h = (ax, ay) \<Longrightarrow> ax_from ax \<le> col \<Longrightarrow> col \<le> ax_to ax \<Longrightarrow> ax_from ay \<le> ax_to ay \<Longrightarrow>
      pix ax ay (cover y h row) (nat (col - ax_from ax)) p q \<Longrightarrow> P row col p q"
  shows "\<exists>arr' rdr'. fillRectImpl fl alloc True arr x y w h rdr = Some (None, arr', rdr')
    \<and> changed rdr arr x y w h P arr' \<and> surface_ok arr' \<and> rn_inv rdr'"
proof -
  let ?W = "sf_width (rn_surface rdr)" and ?r = "rdr\<lparr>rn_rectX := ax_from (axis_of x w), rn_rectY := ax_from (axis_of y h)\<rparr>"
  obtain ax ay where axes: "fill_axes rdr x y w h = (ax, ay)" by fastforce
  then have e: "fillRectImpl fl alloc True arr x y w h rdr = (if ax_from ax \<le> ax_to ax \<and> ax_from ay \<le> ax_to ay then
      draw True arr (\<lambda>rdr. do { rdr \<leftarrow> fill_bands fl alloc ax ay (VALIDATE_BLITTING (INVALIDATE_RENDERER_SURFACE rdr)); Some (False, rdr) }) ?r
      else Some (None, arr, ?r))"
    by (simp add: fillRectImpl_def fillRect_def Let_def fill_axes_def axis_pixels_def)
  note inside = fill_axes_nonempty [OF assms(3-6) axes]
  show ?thesis
  proof (cases "ax_from ax \<le> ax_to ax \<and> ax_from ay \<le> ax_to ay")
    case False
    then have "\<not> (in_clip rdr row col \<and> 0 < cover x w col \<and> 0 < cover y h row)" for row col using inside by auto
    then have "changed rdr arr x y w h P arr" by (rule pixels_changed_empty)
    moreover have "rn_inv ?r" using assms(1) by (rule rn_inv_by_core) (simp add: core_def cur_colour_def)
    ultimately show ?thesis using assms(2) unfolding e if_not_P [OF False] by (simp add: target_ok_def)
  next
    case True
    define r0 where "r0 = fill_first arr rdr x y w h"
    define n where "n = nat (ax_to ax - ax_from ax + 1)"
    define H where "H = nat (ax_to ay - ax_from ay + 1)"
    note ff = fill_first_ok [OF assms(1-6) axes True [THEN conjunct1] True [THEN conjunct2], folded r0_def n_def H_def]
    note bl = law [OF axes True [THEN conjunct1] True [THEN conjunct2] n_def H_def, folded r0_def]
    have Y: "ay = axis_pixels (rn_clip_bbMinY rdr) (rn_clip_bbMaxY rdr) y h" using axes by (simp add: fill_axes_def)
    note sy = axis_single_cover [OF assms(5,6) Y refl True [THEN conjunct2]]
    have H: "int H = ax_to ay - ax_from ay + 1" using True by (simp add: H_def)
    from band_law.emit_all_rows [OF bl [THEN conjunct1] bl [THEN conjunct2] sy(3,4)] sy(1,2,5) H obtain r where
      r: "emit_all fl alloc (ax_from ax) ?W (axis_single ay) (int H) r0 = Some r" "drawn r0 r"
        "rows_rel (r_data r0) (ax_from ay * ?W + ax_from ax) ?W n H (\<lambda>j. pix ax ay (ax_frac (axis_single ay) (ax_from ay + int j))) (r_data r)" by auto
    let ?s = "rdr\<lparr>rn_rectX := ax_from (axis_of x w), rn_rectY := ax_from (axis_of y h), rn_surface := (rn_surface rdr)\<lparr>sf_data := arr\<rparr>\<rparr>" and ?r' = "r\<lparr>rn_surface := (rn_surface r)\<lparr>sf_data := r_data r\<rparr>\<rparr>"
    have st: "fill_setup ax ay (VALIDATE_BLITTING (INVALIDATE_RENDERER_SURFACE ?s)) = r0" by (simp add: r0_def fill_first_def axes)
    then have "sf_width (rn_surface (VALIDATE_BLITTING (INVALIDATE_RENDERER_SURFACE ?s))) = ?W"
      using ff(15) by (auto simp: fill_setup_def Let_def)
    moreover have "i32 (ax_to ay - ax_from ay + 1) = int H" using rect_ok_rows(5) [OF ff(1) order_refl] by (simp add: i32_small flip: H)
    ultimately have "fill_bands fl alloc ax ay (VALIDATE_BLITTING (INVALIDATE_RENDERER_SURFACE ?s)) = Some r"
      using r(1) by (simp add: fill_bands_def st)
    moreover have "arr \<noteq> []"
    proof -
      have "0 < ax_from ay + int H" using ff(1) H True by (simp add: rect_ok_def)
      then have "0 < (ax_from ay + int H) * ?W" using rect_ok_rows(3) [OF ff(1) order_refl] by (rule mult_pos_pos)
      then show ?thesis using rect_ok_rows(1) [OF ff(1) order_refl] ff(3) by auto
    qed
    ultimately have "fillRectImpl fl alloc True arr x y w h rdr = Some (None, r_data r, ?r')"
      using True assms(2) unfolding e by (subst draw_ok) (simp_all add: target_ok_rect)
    moreover have "core ?r' = core r0" using r(2) by (auto simp: drawn_def core_def cur_colour_def)
    then have "rn_inv ?r'" by (rule rn_inv_by_core [OF ff(14)])
    moreover have "changed rdr arr x y w h P (r_data r)"
    proof (rule rows_rel_changed [OF r(3) [unfolded ff(3)]])
      show "0 \<le> ax_from ax" "ax_from ax + int n \<le> ?W" "0 \<le> ax_from ay" using ff(1,4) by (simp_all add: rect_ok_def)
      show "(in_clip rdr row col \<and> 0 < cover x w col \<and> 0 < cover y h row)
          = (ax_from ay \<le> row \<and> row < ax_from ay + int H \<and> ax_from ax \<le> col \<and> col < ax_from ax + int n)" for row col
        using inside [of row col] H True by (auto simp: n_def)
      fix row col p q assume "in_clip rdr row col \<and> 0 < cover x w col \<and> 0 < cover y h row"
        and "pix ax ay (ax_frac (axis_single ay) (ax_from ay + int (nat (row - ax_from ay)))) (nat (col - ax_from ax)) p q"
      then show "P row col p q" unfolding inside using pix [OF axes, of col row p q] sy(6) [of row] True by simp
    qed
    ultimately show ?thesis using r(2) by (auto simp: drawn_def)
  qed
qed

text \<open>The alpha of a pixel of which the parts \<open>cv\<close> and \<open>ch\<close> (in units of \<open>1/65536\<close>) are covered vertically and horizontally.\<close>

definition cov_alpha :: "jint \<Rightarrow> int \<Rightarrow> int \<Rightarrow> jint" where
  "cov_alpha a cv ch =
     (let alpha = a * cv div 65536
      in if ch = 65536 then alpha else if alpha = 255 then ch div 256 else ch * alpha div 65536)"

lemma edge_choice:
  fixes l h :: int
  assumes "l \<noteq> 65536" "h \<noteq> 65536"
  shows "(if P \<and> l \<noteq> 0 then edge l else if Q \<and> h \<noteq> 0 then edge h else inner)
    = (if (if P \<and> l \<noteq> 0 then l else if Q \<and> h \<noteq> 0 then h else 65536) = 65536 then inner
       else edge (if P \<and> l \<noteq> 0 then l else if Q \<and> h \<noteq> 0 then h else 65536))"
  using assms by simp

lemma over_alpha_cover:
  assumes "is_i32 (x + w)" "0 < w" "ax = axis_pixels cmin cmax x w" "ax_from ax \<le> col" "col \<le> ax_to ax"
    and "r_el_lfrac r0 = ax_lo (axis_single ax)" "r_el_rfrac r0 = ax_hi (axis_single ax)" "r_alphaWidth r0 = ax_to ax - ax_from ax + 1"
  shows "over_alpha r0 fr (nat (col - ax_from ax)) = cov_alpha (r_calpha r0) fr (cover x w col)"
proof -
  have ne: "ax_from ax \<le> ax_to ax" using assms(4,5) by simp
  note sx = axis_single_cover [OF assms(1-3) refl ne]
  have c: "cover x w col = ax_frac (axis_single ax) col" using sx(6) [OF assms(4,5)] by simp
  have k: "nat (col - ax_from ax) = 0 \<longleftrightarrow> col = ax_from ax" "Suc (nat (col - ax_from ax)) = nat (ax_to ax - ax_from ax + 1) \<longleftrightarrow> col = ax_to ax"
    using assms(4,5) by auto
  let ?lo = "ax_lo (axis_single ax)" and ?hi = "ax_hi (axis_single ax)" and ?a = "r_calpha r0 * fr div 65536"
  have "over_alpha r0 fr (nat (col - ax_from ax)) = (if col = ax_from ax \<and> ?lo \<noteq> 0 then (\<lambda>f. if ?a = 255 then f div 256 else f * ?a div 65536) ?lo
      else if col = ax_to ax \<and> ?hi \<noteq> 0 then (\<lambda>f. if ?a = 255 then f div 256 else f * ?a div 65536) ?hi else ?a)"
    unfolding over_alpha_def line_value_def Let_def assms(6-8) k by (rule refl)
  also have "\<dots> = (if cover x w col = 65536 then ?a else (\<lambda>f. if ?a = 255 then f div 256 else f * ?a div 65536) (cover x w col))"
    unfolding c ax_frac_def sx(1,2) using sx(3,4) by (intro edge_choice) (simp_all add: frac_ok_def)
  also have "\<dots> = cov_alpha (r_calpha r0) fr (cover x w col)" unfolding cov_alpha_def Let_def by (rule refl)
  finally show ?thesis .
qed

text \<open>
  C1: filling a rectangle of the current colour is exact. For a rectangle with fractional edges in
  16.16 fixed point, \<open>fillRectImpl\<close> returns without an exception; every pixel inside the clip that the
  rectangle reaches is composited exactly once, with the colour's alpha scaled by the part of the
  pixel's height and of its width that the rectangle covers; every other pixel of the Java array keeps
  its value, the surface stays premultiplied and the renderer keeps its invariant.
\<close>

theorem fillRect_covers:
  fixes rdr :: "('f, 'a) renderer_scheme"
  assumes "rn_inv rdr" "target_ok arr rdr" "is_i32 (x + w)" "0 < w" "is_i32 (y + h)" "0 < h"
    and "rn_compositeRule rdr = COMPOSITE_SRC_OVER" "rn_paintMode rdr = PAINT_FLAT_COLOR" "colour_ok (shown_colour rdr)"
  shows "\<exists>arr' rdr'. fillRectImpl fl alloc True arr x y w h rdr = Some (None, arr', rdr')
    \<and> changed rdr arr x y w h (\<lambda>row col p q. q = blendSrcOver8888_pre p (cov_alpha (rn_ualpha rdr) (cover y h row) (cover x w col))
        (rn_ured rdr) (rn_ugreen rdr) (rn_ublue rdr)) arr'
    \<and> surface_ok arr' \<and> rn_inv rdr'"
proof -
  let ?W = "sf_width (rn_surface rdr)" and ?r0 = "fill_first arr rdr x y w h"
  let ?n = "\<lambda>a. nat (ax_to a - ax_from a + 1)"
  have col: "shown_colour rdr = (rn_ualpha rdr, rn_ured rdr, rn_ugreen rdr, rn_ublue rdr)"
    using assms(7) by (simp add: shown_colour_def COMPOSITE_CLEAR_def COMPOSITE_SRC_OVER_def)
  show ?thesis
  proof (rule fillRectImpl_pixels [OF assms(1-6), where ready = "\<lambda>ax ay. flat_band (ax_from ay) ?W (?n ax) (?n ay) ?r0" and pix = "\<lambda>ax ay. flat_pix ?r0"])
    fix ax ay n H assume axes: "fill_axes rdr x y w h = (ax, ay)" and ne: "ax_from ax \<le> ax_to ax" "ax_from ay \<le> ax_to ay"
      and n: "n = ?n ax" "H = ?n ay"
    note ff = fill_first_ok [OF assms(1-6) axes ne]
    have "flat_band (ax_from ay) ?W n H ?r0 0 ?r0"
      using ff assms(7-9) unfolding n by (simp add: flat_band_def at_band_def line_for_def paint_for_def routine_consts)
    then show "band_law fl alloc (ax_from ax) ?W n H (ax_from ay * ?W + ax_from ax) (flat_band (ax_from ay) ?W (?n ax) (?n ay) ?r0) (drawn ?r0) (flat_pix ?r0)
        \<and> flat_band (ax_from ay) ?W (?n ax) (?n ay) ?r0 0 ?r0"
      using flat.band_law_axioms [of fl alloc "ax_from ax" ?W n H "ax_from ay" ?r0] ff(4) n by simp
  next
    fix ax ay row col p q assume axes: "fill_axes rdr x y w h = (ax, ay)" and c: "ax_from ax \<le> col" "col \<le> ax_to ax" and ne: "ax_from ay \<le> ax_to ay"
      and q: "flat_pix ?r0 (cover y h row) (nat (col - ax_from ax)) p q"
    have "ax_from ax \<le> ax_to ax" using c by simp
    note ff = fill_first_ok [OF assms(1-6) axes this ne]
    have X: "ax = axis_pixels (rn_clip_bbMinX rdr) (rn_clip_bbMaxX rdr) x w" using axes by (simp add: fill_axes_def)
    have aw: "r_alphaWidth ?r0 = ax_to ax - ax_from ax + 1" using ff(1) c by (simp add: rect_ok_def)
    show "q = blendSrcOver8888_pre p (cov_alpha (rn_ualpha rdr) (cover y h row) (cover x w col)) (rn_ured rdr) (rn_ugreen rdr) (rn_ublue rdr)"
      using q over_alpha_cover [OF assms(3,4) X c ff(10,11) aw] ff(9) unfolding flat_pix_def col by (simp add: cur_colour_def)
  qed
qed

text \<open>A renderer on a surface of four by four pixels, with a colour set.\<close>

definition sample_renderer :: "real renderer" where
  "sample_renderer = the (renderer_setColor 10 20 30 200 (createCommon exact_arith (JavaSurface_initialize TYPE_INT_ARGB_PRE 4 4) {}))"

lemma sample_renderer:
  "renderer_setColor 10 20 30 200 (createCommon exact_arith (JavaSurface_initialize TYPE_INT_ARGB_PRE 4 4) {}) = Some sample_renderer"
  by (simp add: sample_renderer_def renderer_setColor_def setPaintMode_def createCommon_def mark_def Let_def)

lemma sample_renderer_inv: "rn_inv sample_renderer"
  by (rule rn_inv_setColor [OF rn_inv_createCommon sample_renderer]) (simp add: JavaSurface_initialize_def)

lemma sample_renderer_fields:
  "rn_compositeRule sample_renderer = COMPOSITE_SRC_OVER" "rn_paintMode sample_renderer = PAINT_FLAT_COLOR"
  "rn_surface sample_renderer = JavaSurface_initialize TYPE_INT_ARGB_PRE 4 4"
  "rn_clip_bbMinX sample_renderer = 0" "rn_clip_bbMinY sample_renderer = 0" "rn_clip_bbMaxX sample_renderer = 3" "rn_clip_bbMaxY sample_renderer = 3"
  "shown_colour sample_renderer = (200, 10, 20, 30)"
  "rn_ualpha sample_renderer = 200" "rn_ured sample_renderer = 10" "rn_ugreen sample_renderer = 20" "rn_ublue sample_renderer = 30"
  by (simp_all add: sample_renderer_def renderer_setColor_def setPaintMode_def createCommon_def mark_def Let_def JavaSurface_initialize_def
      shown_colour_def COMPOSITE_CLEAR_def COMPOSITE_SRC_OVER_def i32_small)

lemma sample_target: "target_ok (replicate 16 0) sample_renderer"
  by (simp add: target_ok_def sample_renderer_fields JavaSurface_initialize_def surface_ok_def px_ok_def is_i32_def premult_def px_A_def px_R_def px_G_def px_B_def)

theorem fillRect_covers_witness:
  "\<exists>arr' rdr'. fillRectImpl exact_arith (\<lambda>_. True) True (replicate 16 0) 0x18000 0x8000 0x18000 0x10000 sample_renderer = Some (None, arr', rdr')
    \<and> arr' ! 5 = blendSrcOver8888_pre 0 50 10 20 30 \<and> arr' ! 0 = 0"
proof -
  have "is_i32 (0x18000 + 0x18000)" "is_i32 (0x8000 + 0x10000)" by (simp_all add: is_i32_def)
  from fillRect_covers [OF sample_renderer_inv sample_target this(1) _ this(2), of exact_arith "\<lambda>_. True"] obtain arr' rdr' where
    f: "fillRectImpl exact_arith (\<lambda>_. True) True (replicate 16 0) 0x18000 0x8000 0x18000 0x10000 sample_renderer = Some (None, arr', rdr')"
    and c: "changed sample_renderer (replicate 16 0) 0x18000 0x8000 0x18000 0x10000
      (\<lambda>row col p q. q = blendSrcOver8888_pre p (cov_alpha 200 (cover 0x8000 0x10000 row) (cover 0x18000 0x18000 col)) 10 20 30) arr'"
    by (auto simp: sample_renderer_fields colour_ok_def is_chan_def)
  have "arr' ! nat (1 * 4 + 1) = blendSrcOver8888_pre 0 50 10 20 30" "arr' ! nat (0 * 4 + 0) = 0"
    using c [unfolded pixels_changed_def Let_def, THEN conjunct2, rule_format, of 1 1] c [unfolded pixels_changed_def Let_def, THEN conjunct2, rule_format, of 0 0]
    by (simp_all add: sample_renderer_fields JavaSurface_initialize_def in_clip_def cover_def cov_alpha_def)
  with f show ?thesis by auto
qed

end
