(* ===== verification/PiscesCalls.thy ===== *)
theory PiscesCalls
  imports PiscesRect
begin

unbundle bit_operations_syntax

text \<open>
  The software renderer as a state machine: the native methods of \<open>com.sun.pisces.PiscesRenderer\<close> in any
  order, with any arguments and any behaviour of the allocator and the virtual machine. The abstract
  renderer is what a caller has set; the concrete one refines it, and it frees every block it owns
  exactly once.
\<close>

section \<open>Drawing changes no setting\<close>

lemma bind_SomeE: "Option.bind x f = Some y \<Longrightarrow> (\<And>z. x = Some z \<Longrightarrow> f z = Some y \<Longrightarrow> P) \<Longrightarrow> P"
  by (auto split: Option.bind_splits)

text \<open>The blit and line routines write the image and the row of deltas only, the paint routines the paint buffer.\<close>

lemma emit_rows_frame: "emit_rows lop mop rop lf rf w ps rdr h = Some r \<Longrightarrow> \<exists>d. r = rdr\<lparr>r_data := d\<rparr>"
  by (auto simp: emit_rows_def split: Option.bind_splits)

lemma blit_mask_frame: "blit_mask f st rdr h = Some r \<Longrightarrow> \<exists>d. r = rdr\<lparr>r_data := d\<rparr>"
  by (auto simp: blit_mask_def split: Option.bind_splits)

lemma blit_span_row:
  "blit_span (aa_step f off) st n i (k, v, row) d = Some ((k', v', row'), d') \<Longrightarrow> length row' = length row"
  by (induction n arbitrary: i k v row d) (auto simp: aa_step_def Let_def aset_Some_iff elim!: bind_SomeE)

lemma iter_opt_keeps:
  assumes "\<And>s s'. body s = Some s' \<Longrightarrow> I s \<Longrightarrow> I s'" "iter_opt n body s = Some s'" "I s"
  shows "I s'"
  using assms(2,3) by (induction n arbitrary: s) (auto dest: assms(1) elim!: bind_SomeE)

text \<open>\<open>drawn_row rdr r\<close>: \<open>r\<close> is \<open>rdr\<close> with another image, and a row of deltas of the same length.\<close>

definition drawn_row :: "'a raster_scheme \<Rightarrow> 'a raster_scheme \<Rightarrow> bool" where
  "drawn_row rdr r \<longleftrightarrow> (\<exists>row d. length row = length (r_rowAAInt rdr) \<and> r = rdr\<lparr>r_rowAAInt := row, r_data := d\<rparr>)"

lemma blit_aa_frame: "blit_aa f rdr h = Some r \<Longrightarrow> drawn_row rdr r"
proof -
  assume "blit_aa f rdr h = Some r"
  then obtain a row d where it: "iter_opt (nat h) (\<lambda>(imageOffset, row, data).
              do { ((k, aval_relative, row), data) \<leftarrow>
                     blit_span (aa_step f (r_rowAAOff rdr)) (r_imagePixelStride rdr)
                       (nat (touchedWidth rdr))
                       (i32 (imageOffset + r_minTouched rdr * r_imagePixelStride rdr)) (0, 0, row) data;
                   Some (i32 (imageOffset + r_imageScanlineStride rdr), row, data) })
              (r_currImageOffset rdr, r_rowAAInt rdr, r_data rdr) = Some (a, row, d)" and r: "r = rdr\<lparr>r_rowAAInt := row, r_data := d\<rparr>"
    unfolding blit_aa_def by (auto elim!: bind_SomeE)
  have "case (a, row, d) of (a, row, d) \<Rightarrow> length row = length (r_rowAAInt rdr)"
    by (rule iter_opt_keeps [OF _ it]) (auto elim!: bind_SomeE dest!: blit_span_row)
  with r show ?thesis by (auto simp: drawn_row_def)
qed

lemma call_line_frame: "call_line rdr h fr = Some r \<Longrightarrow> \<exists>d. r = rdr\<lparr>r_data := d\<rparr>"
  by (auto simp: call_line_def emitLineSource8888_pre_def emitLinePTSource8888_pre_def emitLineSourceOver8888_pre_def
      emitLinePTSourceOver8888_pre_def Let_def split: option.splits line_fn.splits if_splits dest!: emit_rows_frame)

lemma blit_mask_drawn_row: "blit_mask f st rdr h = Some r \<Longrightarrow> drawn_row rdr r"
  unfolding drawn_row_def by (drule blit_mask_frame, elim exE, rule exI [of _ "r_rowAAInt rdr"]) auto

lemma call_rows_frame: "call_rows g i rdr h = Some r \<Longrightarrow> drawn_row rdr r"
  unfolding call_rows_def
  by (auto simp: blitSrc8888_pre_def blitPTSrc8888_pre_def blitSrcOver8888_pre_def blitPTSrcOver8888_pre_def
      blitSrcMask8888_pre_def blitPTSrcMask8888_pre_def blitSrcOverMask8888_pre_def blitPTSrcOverMask8888_pre_def
      blitSrcOverLCDMask8888_pre_def Let_def split: option.splits rows_fn.splits if_splits Option.bind_splits dest!: blit_aa_frame blit_mask_drawn_row)

lemma call_paint_frame: "call_paint fl alloc len h rdr = Some r \<Longrightarrow> \<exists>p. r = rdr\<lparr>r_paint := p\<rparr>"
  by (auto simp: call_paint_def ALLOC3_paint_def Let_def split: option.splits paint_fn.splits if_splits Option.bind_splits
      intro: exI [of _ "r_paint r"])

text \<open>What a caller has set and what the renderer owns; a drawing call keeps both, and the invariant.\<close>

record settings =
  s_mask :: jint
  s_rule :: jint
  s_mode :: jint
  s_colour :: colour
  s_clip :: "jint \<times> jint \<times> jint \<times> jint"

definition settings_of :: "('f, 'a) renderer_scheme \<Rightarrow> settings" where
  "settings_of rdr = \<lparr>s_mask = rn_maskType rdr, s_rule = rn_compositeRule rdr, s_mode = rn_paintMode rdr,
     s_colour = (rn_ualpha rdr, rn_ured rdr, rn_ugreen rdr, rn_ublue rdr),
     s_clip = (rn_clip_bbMinX rdr, rn_clip_bbMinY rdr, rn_clip_bbMaxX rdr, rn_clip_bbMaxY rdr)\<rparr>"

definition owned :: "('f, 'a) renderer_scheme \<Rightarrow> ptr \<times> bool \<times> nat set \<times> bool \<times> bool" where
  "owned rdr = (rn_texture rdr, rn_texture_free rdr, rn_heap rdr, rn_mask_free rdr, r_rowAAInt rdr = [])"

definition kept :: "('f, 'a) renderer_scheme \<Rightarrow> ('f, 'a) renderer_scheme \<Rightarrow> bool" where
  "kept rdr r \<longleftrightarrow> settings_of r = settings_of rdr \<and> owned r = owned rdr \<and> (rn_inv rdr \<longrightarrow> rn_inv r)"

lemma kept_refl [simp]: "kept rdr rdr"
  by (simp add: kept_def)

lemma kept_trans [trans]: "kept r1 r2 \<Longrightarrow> kept r2 r3 \<Longrightarrow> kept r1 r3"
  by (simp add: kept_def)

lemma keptI: "core r = core rdr \<Longrightarrow> settings_of r = settings_of rdr \<Longrightarrow> owned r = owned rdr \<Longrightarrow> kept rdr r"
  using rn_inv_core [of r rdr] by (simp add: kept_def)

lemmas kept_defs = core_def cur_colour_def settings_of_def owned_def

lemma kept_line: "call_line rdr h fr = Some r \<Longrightarrow> kept rdr r"
  by (drule call_line_frame, elim exE, rule keptI) (simp_all add: kept_defs)

lemma kept_rows: "call_rows g i rdr h = Some r \<Longrightarrow> kept rdr r"
  by (drule call_rows_frame, unfold drawn_row_def, elim exE conjE, rule keptI) (auto simp: kept_defs)

lemma kept_paint: "call_paint fl alloc len h rdr = Some r \<Longrightarrow> kept rdr r"
  by (drule call_paint_frame, elim exE, rule keptI) (simp_all add: kept_defs)

lemma kept_validate: "rn_inv rdr \<Longrightarrow> kept rdr (VALIDATE_BLITTING (INVALIDATE_RENDERER_SURFACE rdr))"
  using validate_surface [of rdr]
  by (auto simp: kept_def settings_of_def owned_def with_colour_def with_surface_def Let_def split: prod.splits)

lemma kept_position:
  "kept rdr (rdr\<lparr>r_minTouched := a, r_maxTouched := b, r_currX := c, r_currY := d, r_alphaWidth := e, r_currImageOffset := f,
     r_imageScanlineStride := g, r_imagePixelStride := h, rn_rowNum := i, r_el_lfrac := j, r_el_rfrac := k\<rparr>)"
  by (rule keptI) (simp_all add: kept_defs)

lemma kept_next_band: "kept rdr (next_band x w n rdr)"
  by (rule keptI) (simp_all add: kept_defs next_band_def Let_def)

lemma kept_emit_band: "emit_band fl alloc h fr rdr = Some r \<Longrightarrow> kept rdr r"
  by (auto simp: emit_band_def split: Option.bind_splits dest!: kept_paint kept_line intro: kept_trans)

lemma kept_mid_bands: "mid_bands fl alloc x w n rdr = Some r \<Longrightarrow> kept rdr r"
proof (induction fl alloc x w n rdr rule: mid_bands.induct)
  case (1 fl alloc x w n rdr)
  show ?case
  proof (cases "n > 0")
    case True
    let ?n = "min n NUM_ALPHA_ROWS"
    from "1.prems" True obtain r1 where r1: "emit_band fl alloc ?n 0x10000 rdr = Some r1"
      "mid_bands fl alloc x w (n - ?n) (next_band x w ?n r1) = Some r"
      by (subst (asm) mid_bands.simps) (auto simp: Let_def split: Option.bind_splits)
    have "kept rdr r1" by (rule kept_emit_band [OF r1(1)])
    also have "kept r1 (next_band x w ?n r1)" by (rule kept_next_band)
    also have "kept (next_band x w ?n r1) r" using "1.IH" [OF True refl r1(1)] r1(2) by simp
    finally show ?thesis .
  qed (use "1.prems" in \<open>subst (asm) mid_bands.simps, simp\<close>)
qed

lemma kept_emit_all:
  assumes "emit_all fl alloc x w ay n rdr = Some r"
  shows "kept rdr r"
proof -
  from assms obtain m r1 r2 where
    r1: "(if ax_lo ay \<noteq> 0 then do { rdr \<leftarrow> emit_band fl alloc 1 (ax_lo ay) rdr; Some (i32 ((if ax_hi ay \<noteq> 0 then i32 (n - 1) else n) - 1), next_band x w 1 rdr) }
        else Some (if ax_hi ay \<noteq> 0 then i32 (n - 1) else n, rdr)) = Some (m, r1)"
    and r2: "mid_bands fl alloc x w m r1 = Some r2" and r3: "(if ax_hi ay \<noteq> 0 then emit_band fl alloc 1 (ax_hi ay) r2 else Some r2) = Some r"
    unfolding emit_all_def Let_def by (auto elim!: bind_SomeE)
  have "kept rdr r1"
  proof (cases "ax_lo ay = 0")
    case False
    with r1 obtain r0 where "emit_band fl alloc 1 (ax_lo ay) rdr = Some r0" "r1 = next_band x w 1 r0" by (auto split: Option.bind_splits)
    then show ?thesis using kept_trans [OF kept_emit_band kept_next_band] by blast
  qed (use r1 in simp)
  also have "kept r1 r2" by (rule kept_mid_bands [OF r2])
  also have "kept r2 r" using r3 by (cases "ax_hi ay = 0") (auto dest: kept_emit_band)
  finally show ?thesis .
qed

text \<open>The frame of a drawing call around a body that keeps the settings.\<close>

lemma kept_surface: "sf_imageType s = sf_imageType (rn_surface rdr) \<Longrightarrow> kept rdr (rdr\<lparr>rn_surface := s\<rparr>)"
  by (rule keptI) (simp_all add: kept_defs)

lemma surface_acquire_type: "surface_acquire pin arr s = Some (s', m, ex) \<Longrightarrow> sf_imageType s' = sf_imageType s"
  by (auto simp: surface_acquire_def Let_def split: if_splits)

lemma kept_drawing:
  assumes "drawing pin arr aux body rdr = Some (ex, arr', aux', r)" "rn_inv rdr"
    and body: "\<And>r1 flag x r2. kept rdr r1 \<Longrightarrow> rn_inv r1 \<Longrightarrow> body r1 = Some (flag, x, r2) \<Longrightarrow> kept r1 r2"
  shows "kept rdr r"
proof -
  from assms(1) obtain s m e where s: "surface_acquire pin arr (rn_surface rdr) = Some (s, m, e)"
    unfolding drawing_def by (auto elim!: bind_SomeE)
  have k: "kept rdr (rdr\<lparr>rn_surface := s\<rparr>)" by (rule kept_surface [OF surface_acquire_type [OF s]])
  show ?thesis
  proof (cases m)
    case True
    with assms(1) s k show ?thesis by (simp add: drawing_def)
  next
    case False
    with assms(1) s obtain flag x r2 where b: "body (rdr\<lparr>rn_surface := s\<rparr>) = Some (flag, x, r2)"
      and r: "r = r2\<lparr>rn_surface := (rn_surface r2)\<lparr>sf_data := r_data r2\<rparr>\<rparr>"
      unfolding drawing_def by (auto simp: Let_def elim!: bind_SomeE)
    note k
    also have "kept (rdr\<lparr>rn_surface := s\<rparr>) r2" using body [OF k _ b] k assms(2) by (simp add: kept_def)
    also have "kept r2 r" unfolding r by (rule kept_surface) simp
    finally show ?thesis .
  qed
qed

lemma kept_draw:
  assumes "draw pin arr body rdr = Some (ex, arr', r)" "rn_inv rdr"
    and body: "\<And>r1 flag r2. kept rdr r1 \<Longrightarrow> rn_inv r1 \<Longrightarrow> body r1 = Some (flag, r2) \<Longrightarrow> kept r1 r2"
  shows "kept rdr r"
proof -
  from assms(1) obtain x where "drawing pin arr () (\<lambda>rdr. map_option (\<lambda>(flag, rdr). (flag, (), rdr)) (body rdr)) rdr = Some (ex, arr', x, r)"
    unfolding draw_def by (auto elim!: bind_SomeE)
  then show ?thesis using assms(2) body by (rule kept_drawing) auto
qed

subsection \<open>The drawing calls\<close>

lemma kept_fillRect:
  assumes "fillRect fl alloc pin arr x y w h le re te be rdr = Some (ex, arr', r)" "rn_inv rdr"
  shows "kept rdr r"
proof -
  let ?r = "rdr\<lparr>rn_rectX := ax_from (axis_of x w), rn_rectY := ax_from (axis_of y h)\<rparr>"
  have k: "kept rdr ?r" by (rule keptI) (simp_all add: kept_defs)
  then have inv: "rn_inv ?r" using assms(2) by (simp add: kept_def)
  let ?ax = "axis_clip (rn_clip_bbMinX rdr) (rn_clip_bbMaxX rdr) (axis_edges le re (axis_of x w))"
    and ?ay = "axis_clip (rn_clip_bbMinY rdr) (rn_clip_bbMaxY rdr) (axis_edges te be (axis_of y h))"
  have "r = ?r \<or> draw pin arr (\<lambda>rdr. do { rdr \<leftarrow> fill_bands fl alloc ?ax ?ay (VALIDATE_BLITTING (INVALIDATE_RENDERER_SURFACE rdr)); Some (False, rdr) }) ?r
      = Some (ex, arr', r)"
    using assms(1) by (auto simp: fillRect_def Let_def split: if_splits)
  moreover have "kept ?r r" if "draw pin arr (\<lambda>rdr. do { rdr \<leftarrow> fill_bands fl alloc ?ax ?ay (VALIDATE_BLITTING (INVALIDATE_RENDERER_SURFACE rdr)); Some (False, rdr) }) ?r
      = Some (ex, arr', r)"
  proof (rule kept_draw [OF that inv])
    fix r1 flag r2 assume r1: "rn_inv r1"
      and "do { rdr \<leftarrow> fill_bands fl alloc ?ax ?ay (VALIDATE_BLITTING (INVALIDATE_RENDERER_SURFACE r1)); Some (False, rdr) } = Some (flag, r2)"
    then have e: "fill_bands fl alloc ?ax ?ay (VALIDATE_BLITTING (INVALIDATE_RENDERER_SURFACE r1)) = Some r2" by (auto elim!: bind_SomeE)
    have "kept r1 (VALIDATE_BLITTING (INVALIDATE_RENDERER_SURFACE r1))" by (rule kept_validate [OF r1])
    also have "kept \<dots> (fill_setup ?ax ?ay (VALIDATE_BLITTING (INVALIDATE_RENDERER_SURFACE r1)))"
      by (rule keptI) (simp_all add: fill_setup_def Let_def kept_defs)
    also have "kept \<dots> r2" using e unfolding fill_bands_def by (rule kept_emit_all)
    finally show "kept r1 r2" .
  qed
  ultimately show ?thesis using k kept_trans by blast
qed

lemma clearRect8888_any_frame: "clearRect8888_any rdr x y w h = Some r \<Longrightarrow> \<exists>d. r = rdr\<lparr>r_data := d\<rparr>"
  unfolding clearRect8888_any_def Let_def by (auto split: if_splits elim!: bind_SomeE)

lemma mark_strides:
  "INVALIDATE_RENDERER_SURFACE (rdr\<lparr>r_imagePixelStride := a, r_imageScanlineStride := b\<rparr>)
    = (INVALIDATE_RENDERER_SURFACE rdr)\<lparr>r_imagePixelStride := a, r_imageScanlineStride := b\<rparr>"
  by (cases rdr) (simp add: INVALIDATE_RENDERER_SURFACE_def mark_def)

lemma kept_clearRect:
  assumes "clearRectImpl pin arr x y w h rdr = Some (ex, arr', r)" "rn_inv rdr"
  shows "kept rdr r"
proof (rule kept_draw [OF assms(1) [unfolded clearRectImpl_def] assms(2)])
  fix r1 flag r2 assume r1: "rn_inv r1"
    and "(let rdr = (INVALIDATE_RENDERER_SURFACE r1)\<lparr>r_imagePixelStride := 1, r_imageScanlineStride := sf_width (rn_surface r1)\<rparr>
      in do { rdr \<leftarrow> renderer_clearRect x y w h rdr; Some (False, rdr) }) = Some (flag, r2)"
  then have e: "renderer_clearRect x y w h (INVALIDATE_RENDERER_SURFACE (r1\<lparr>r_imagePixelStride := 1, r_imageScanlineStride := sf_width (rn_surface r1)\<rparr>)) = Some r2"
    unfolding mark_strides by (auto simp: Let_def elim!: bind_SomeE)
  let ?s = "r1\<lparr>r_imagePixelStride := 1, r_imageScanlineStride := sf_width (rn_surface r1)\<rparr>"
  let ?v = "VALIDATE_BLITTING (INVALIDATE_RENDERER_SURFACE ?s)"
  have k: "kept r1 ?s" by (rule keptI) (simp_all add: kept_defs)
  also have "kept ?s ?v" using k r1 by (intro kept_validate) (simp add: kept_def)
  also have "kept ?v r2"
  proof -
    have "\<exists>d. r2 = ?v\<lparr>r_data := d\<rparr>"
      using e unfolding renderer_clearRect_def Let_def
      by (auto split: if_splits dest!: clearRect8888_any_frame intro: exI [of _ "r_data r2"])
    then show ?thesis by (elim exE) (rule keptI, simp_all add: kept_defs)
  qed
  finally show "kept r1 r2" .
qed

lemma kept_emitAndClearAlphaRow:
  assumes "emitAndClearAlphaRowImpl fl alloc pin pm pr g i arr am ar y x0 x1 off rn rdr = Some (ex, arr', ar', r)" "rn_inv rdr" "r_rowAAInt rdr = []"
  shows "kept rdr r"
proof (rule kept_drawing [OF assms(1) [unfolded emitAndClearAlphaRowImpl_def] assms(2)], goal_cases)
  case (1 r1 flag a r2)
  let ?v = "VALIDATE_BLITTING (INVALIDATE_RENDERER_SURFACE r1)"
  let ?p = "\<lambda>a b rdr. rdr\<lparr>r_minTouched := a, r_maxTouched := b, r_currX := a, r_currY := y, rn_rowNum := rn,
                             r_alphaMap := am, r_rowAAInt := ar, r_rowAAOff := off,
                             r_alphaWidth := i32 (b - a + 1), r_currImageOffset := i32 (y * sf_width (rn_surface ?v)),
                             r_imageScanlineStride := sf_width (rn_surface ?v), r_imagePixelStride := 1\<rparr>"
  have v: "kept r1 ?v" by (rule kept_validate [OF 1(2)])
  have n: "r_rowAAInt ?v = []" using 1(1) v assms(3) by (simp add: kept_def owned_def)
  show "kept r1 r2"
  proof (cases "r2 = ?v")
    case False
    let ?a = "max x0 (rn_clip_bbMinX ?v)" and ?b = "min x1 (rn_clip_bbMaxX ?v)"
    from 1(3) False obtain r3 r4 where r3: "call_paint fl alloc (i32 (?b - ?a + 1)) 1 (?p ?a ?b ?v) = Some r3"
      and r4: "call_rows g i r3 1 = Some r4" and r2: "r2 = r4\<lparr>r_rowAAInt := [], r_rowAAOff := 0\<rparr>"
      by (auto simp: Let_def split: if_splits elim!: bind_SomeE)
    have p: "core (?p ?a ?b ?v) = core ?v" "settings_of (?p ?a ?b ?v) = settings_of ?v" by (simp_all add: kept_defs)
    have k: "kept (?p ?a ?b ?v) r4" using kept_paint [OF r3] kept_rows [OF r4] by (rule kept_trans)
    have "rn_inv (?p ?a ?b ?v)" using v 1(2) rn_inv_core [OF p(1)] by (simp add: kept_def)
    then have "rn_inv r4" using k by (simp add: kept_def)
    then have "rn_inv r2" unfolding r2 by (rule rn_inv_by_core) (simp add: core_def cur_colour_def)
    moreover have "settings_of r2 = settings_of ?v" "owned r2 = owned ?v" using k p(2) n by (simp_all add: r2 kept_def settings_of_def owned_def)
    ultimately have "kept ?v r2" by (simp add: kept_def)
    with v show ?thesis by (rule kept_trans)
  qed (use v in simp)
qed

lemma kept_mask_rows: "mask_rows fl alloc g i x w sw mw n rdr = Some r \<Longrightarrow> kept rdr r"
proof (induction n arbitrary: rdr)
  case (Suc n)
  from Suc.prems obtain r1 r2 where r1: "call_paint fl alloc w 1 (rdr\<lparr>r_currImageOffset := i32 (r_currY rdr * sw)\<rparr>) = Some r1"
    and r2: "call_rows g i r1 1 = Some r2"
    and r: "mask_rows fl alloc g i x w sw mw n (r2\<lparr>r_maskOffset := i32 (r_maskOffset r2 + mw), rn_rowNum := i32 (rn_rowNum r2 + 1),
               r_currX := x, r_currY := i32 (r_currY r2 + 1)\<rparr>) = Some r"
    by (auto elim!: bind_SomeE)
  have "kept rdr (rdr\<lparr>r_currImageOffset := i32 (r_currY rdr * sw)\<rparr>)" by (rule keptI) (simp_all add: kept_defs)
  also note kept_paint [OF r1]
  also note kept_rows [OF r2]
  also have "kept r2 (r2\<lparr>r_maskOffset := i32 (r_maskOffset r2 + mw), rn_rowNum := i32 (rn_rowNum r2 + 1),
               r_currX := x, r_currY := i32 (r_currY r2 + 1)\<rparr>)" by (rule keptI) (simp_all add: kept_defs)
  also note Suc.IH [OF r]
  finally show ?case .
qed simp

lemma setMask_settings:
  assumes "renderer_setMask mt p d w h False rdr = Some r" "\<not> rn_mask_free rdr"
  shows "settings_of r = (settings_of rdr)\<lparr>s_mask := mt\<rparr>" "owned r = owned rdr"
  using assms by (auto simp: renderer_setMask_def free_mask_def mark_def settings_of_def owned_def)

lemma removeMask_settings:
  assumes "renderer_removeMask rdr = Some r" "\<not> rn_mask_free rdr"
  shows "settings_of r = (settings_of rdr)\<lparr>s_mask := NO_MASK\<rparr>" "owned r = owned rdr"
  using assms by (auto simp: renderer_removeMask_def free_mask_def mark_def settings_of_def owned_def)

lemma kept_fillAlphaMask:
  assumes "fillAlphaMask fl alloc pin pm g i arr x0 y0 x1 y1 mt jm x mw mh off rdr = Some (ex, arr', r)"
    and "rn_inv rdr" "rn_maskType rdr = NO_MASK" "\<not> rn_mask_free rdr" "mt \<in> masks"
  shows "kept rdr r"
proof (cases "x1 \<ge> x0 \<and> y1 \<ge> y0")
  case True
  show ?thesis
  proof (rule kept_draw [OF assms(1) [unfolded fillAlphaMask_def if_P [OF True]] assms(2)], goal_cases)
    case (1 r1 flag r2)
    have m: "rn_maskType r1 = NO_MASK" "\<not> rn_mask_free r1" using 1(1) assms(3,4) by (auto simp: kept_def settings_of_def owned_def)
    show ?case
    proof (cases pm)
      case True
      define w where "w = i32 (x1 - x0 + 1)"
      define hh where "hh = i32 (y1 - y0 + 1)"
      from 1(3) True obtain ra rc where a: "renderer_setMask mt Pinned jm mw mh False r1 = Some ra"
        and c: "mask_rows fl alloc g i x w (sf_width (rn_surface (VALIDATE_BLITTING (INVALIDATE_RENDERER_SURFACE ra)))) mw (nat hh)
           ((VALIDATE_BLITTING (INVALIDATE_RENDERER_SURFACE ra))\<lparr>r_minTouched := x0, r_maxTouched := x1, r_currX := x0, r_currY := y0, r_alphaWidth := w,
              r_imageScanlineStride := sf_width (rn_surface (VALIDATE_BLITTING (INVALIDATE_RENDERER_SURFACE ra))),
              r_imagePixelStride := 1, rn_rowNum := 0, r_maskOffset := off\<rparr>) = Some rc"
        and d: "renderer_removeMask rc = Some r2"
        by (auto simp: Let_def w_def hh_def elim!: bind_SomeE)
      note sa = setMask_settings [OF a m(2)] and inva = rn_inv_setMask [OF 1(2) a assms(5)]
      let ?v = "VALIDATE_BLITTING (INVALIDATE_RENDERER_SURFACE ra)"
      note kept_validate [OF inva]
      also have "kept ?v (?v\<lparr>r_minTouched := x0, r_maxTouched := x1, r_currX := x0, r_currY := y0, r_alphaWidth := w,
              r_imageScanlineStride := sf_width (rn_surface ?v), r_imagePixelStride := 1, rn_rowNum := 0, r_maskOffset := off\<rparr>)"
        by (rule keptI) (simp_all add: kept_defs)
      also note kept_mask_rows [OF c]
      finally have k: "settings_of rc = (settings_of r1)\<lparr>s_mask := mt\<rparr>" "owned rc = owned r1" "rn_inv rc"
        using sa inva by (auto simp: kept_def)
      moreover have "\<not> rn_mask_free rc" using k(2) m(2) by (simp add: owned_def)
      ultimately show ?thesis using removeMask_settings [OF d] rn_inv_removeMask [OF k(3) d] m(1)
        by (simp add: kept_def settings_of_def)
    qed (use 1(3) in simp)
  qed
qed (use assms(1) in \<open>auto simp: fillAlphaMask_def\<close>)

section \<open>The calls\<close>

text \<open>
  A call of a native method. The functions \<open>nat \<Rightarrow> bool\<close> tell which sizes \<open>calloc\<close> can serve, the leading truth
  values which arrays can be pinned; \<open>SetTexture\<close> names the block that \<open>malloc\<close> returns.
\<close>

datatype call =
    SetClip jint jint jint jint
  | SetColor jint jint jint jint
  | SetCompositeRule jint
  | SetLinearGradient bool jint jint jint jint "jint list" jint Transform6
  | SetRadialGradient bool jint jint jint jint jint "jint list" jint Transform6
  | SetTexture "nat \<Rightarrow> bool" nat bool "jint list" jint jint jint Transform6 bool bool bool
  | ClearRect bool "jint list" jint jint jint jint
  | FillRect "nat \<Rightarrow> bool" bool "jint list" jint jint jint jint
  | EmitAndClearAlphaRow "nat \<Rightarrow> bool" bool bool bool "jint list" "jbyte list" "jint list" jint jint jint jint jint
  | FillAlphaMask "nat \<Rightarrow> bool" bool bool "jint list" "jbyte list" jint jint jint jint jint jint
  | FillLCDAlphaMask "nat \<Rightarrow> bool" bool bool "jint list" "jbyte list" jint jint jint jint jint jint
  | DrawImage "nat \<Rightarrow> bool" bool bool "jint list" jint "jint list" jint jint jint jint Transform6 bool bool
      "jint \<times> jint \<times> jint \<times> jint" "jint \<times> jint \<times> jint \<times> jint" "jint \<times> jint \<times> jint \<times> jint" bool

fun run_call ::
    "('f, 'd) arith \<Rightarrow> jint list \<Rightarrow> jint list \<Rightarrow> call \<Rightarrow> ('f, 'a) renderer_scheme \<Rightarrow> (jexn option \<times> ('f, 'a) renderer_scheme) option" where
  "run_call fl g i (SetClip x y w h) rdr = Some (None, renderer_setClip x y w h rdr)"
| "run_call fl g i (SetColor r gr b a) rdr = map_option (Pair None) (renderer_setColor r gr b a rdr)"
| "run_call fl g i (SetCompositeRule rule) rdr = Some (None, renderer_setCompositeRule rule rdr)"
| "run_call fl g i (SetLinearGradient pin x0 y0 x1 y1 ramp cm t) rdr = setLinearGradientImpl fl pin x0 y0 x1 y1 ramp cm t rdr"
| "run_call fl g i (SetRadialGradient pin cx cy fx fy rad ramp cm t) rdr = setRadialGradientImpl fl pin cx cy fx fy rad ramp cm t rdr"
| "run_call fl g i (SetTexture alloc b pin px w h st t rp lf al) rdr = setTextureImpl fl alloc b pin px w h st t rp lf al rdr"
| "run_call fl g i (ClearRect pin arr x y w h) rdr = map_option (\<lambda>(ex, arr, rdr). (ex, rdr)) (clearRectImpl pin arr x y w h rdr)"
| "run_call fl g i (FillRect alloc pin arr x y w h) rdr = map_option (\<lambda>(ex, arr, rdr). (ex, rdr)) (fillRectImpl fl alloc pin arr x y w h rdr)"
| "run_call fl g i (EmitAndClearAlphaRow alloc pin pm pr arr am ar y x0 x1 off rn) rdr =
     map_option (\<lambda>(ex, arr, ar, rdr). (ex, rdr)) (emitAndClearAlphaRowImpl fl alloc pin pm pr g i arr am ar y x0 x1 off rn rdr)"
| "run_call fl g i (FillAlphaMask alloc pin pm arr jm x y w h off st) rdr =
     map_option (\<lambda>(ex, arr, rdr). (ex, rdr)) (fillAlphaMaskImpl fl alloc pin pm g i arr jm x y w h off st rdr)"
| "run_call fl g i (FillLCDAlphaMask alloc pin pm arr jm x y w h off st) rdr =
     map_option (\<lambda>(ex, arr, rdr). (ex, rdr)) (fillLCDAlphaMaskImpl fl alloc pin pm g i arr jm x y w h off st rdr)"
| "run_call fl g i (DrawImage alloc pin pd arr im px w h off st t rp lf (bx, byy, bw, bh) (le, re, te, be) (tx0, ty0, tx1, ty1) al) rdr =
     map_option (\<lambda>(ex, arr, rdr). (ex, rdr))
       (drawImageImpl fl alloc pin pd arr im px w h off st t rp lf bx byy bw bh le re te be tx0 ty0 tx1 ty1 al rdr)"

text \<open>What a call means to its caller. \<open>ex\<close> is the exception it has thrown, if any.\<close>

fun spec_call :: "call \<Rightarrow> jexn option \<Rightarrow> settings \<Rightarrow> settings" where
  "spec_call (SetClip x y w h) ex s = s\<lparr>s_clip := (x, y, i32 (x + w - 1), i32 (y + h - 1))\<rparr>"
| "spec_call (SetColor r g b a) ex s = s\<lparr>s_colour := (a, r, g, b), s_mode := PAINT_FLAT_COLOR\<rparr>"
| "spec_call (SetCompositeRule rule) ex s = s\<lparr>s_rule := rule\<rparr>"
| "spec_call (SetLinearGradient pin x0 y0 x1 y1 ramp cm t) ex s = (if ex = None then s\<lparr>s_mode := PAINT_LINEAR_GRADIENT\<rparr> else s)"
| "spec_call (SetRadialGradient pin cx cy fx fy rad ramp cm t) ex s = (if ex = None then s\<lparr>s_mode := PAINT_RADIAL_GRADIENT\<rparr> else s)"
| "spec_call (SetTexture alloc b pin px w h st t rp lf al) ex s = (if ex = None then s\<lparr>s_mode := PAINT_TEXTURE8888\<rparr> else s)"
| "spec_call (DrawImage alloc pin pd arr im px w h off st t rp lf bb ee tt al) ex s =
     (if pd then s\<lparr>s_mode := if im = IMAGE_MODE_NORMAL then PAINT_TEXTURE8888 else PAINT_TEXTURE8888_MULTIPLY\<rparr> else s)"
| "spec_call _ ex s = s"

text \<open>What the Java class and the allocator guarantee of a call: a known composite rule, a block that is new.\<close>

fun call_ok :: "('f, 'a) renderer_scheme \<Rightarrow> call \<Rightarrow> bool" where
  "call_ok rdr (SetCompositeRule rule) \<longleftrightarrow> rule \<in> rules"
| "call_ok rdr (SetTexture alloc b pin px w h st t rp lf al) \<longleftrightarrow> b \<notin> rn_heap rdr"
| "call_ok rdr _ \<longleftrightarrow> True"

section \<open>Ownership\<close>

text \<open>
  Apart from the blocks \<open>h\<close> of others, the heap holds exactly the texture of the renderer, when it
  has one that it has to free.
\<close>

definition own_inv :: "nat set \<Rightarrow> ('f, 'a) renderer_scheme \<Rightarrow> bool" where
  "own_inv h rdr \<longleftrightarrow> \<not> rn_mask_free rdr \<and> r_rowAAInt rdr = [] \<and>
     (if rn_texture_free rdr
      then rn_texture rdr = Null \<and> rn_heap rdr = h \<or> (\<exists>b. rn_texture rdr = Block b \<and> b \<notin> h \<and> rn_heap rdr = insert b h)
      else rn_heap rdr = h)"

lemma own_inv_owned: "owned r = owned rdr \<Longrightarrow> own_inv h r = own_inv h rdr"
  by (simp add: owned_def own_inv_def)

lemma own_free: "own_inv h rdr \<Longrightarrow> free_texture rdr = Some (rdr\<lparr>rn_heap := h\<rparr>)"
  by (auto simp: own_inv_def free_texture_def split: if_splits)

lemma own_dispose:
  assumes "own_inv h rdr"
  shows "renderer_dispose rdr = Some h"
proof -
  have "rdr\<lparr>rn_heap := rn_heap rdr\<rparr> = rdr" by simp
  then show ?thesis using assms own_free [OF assms] by (simp add: renderer_dispose_def own_inv_def)
qed

lemma own_setPaintMode:
  assumes "own_inv h rdr"
  shows "\<exists>r. setPaintMode m rdr = Some r \<and> own_inv h r \<and> settings_of r = (settings_of rdr)\<lparr>s_mode := m\<rparr>"
proof (cases "rn_paintMode rdr = m")
  case True
  then show ?thesis using assms by (simp add: setPaintMode_def settings_of_def)
next
  case False
  then show ?thesis using assms by (simp add: setPaintMode_def own_free [OF assms] mark_def settings_of_def own_inv_def)
qed

section \<open>Refinement\<close>

definition good :: "nat set \<Rightarrow> ('f, 'a) renderer_scheme \<Rightarrow> bool" where
  "good h rdr \<longleftrightarrow> rn_inv rdr \<and> own_inv h rdr \<and> rn_maskType rdr = NO_MASK"

lemma goodD: "good h rdr \<Longrightarrow> rn_inv rdr" "good h rdr \<Longrightarrow> own_inv h rdr" "good h rdr \<Longrightarrow> s_mask (settings_of rdr) = NO_MASK"
  "good h rdr \<Longrightarrow> r_rowAAInt rdr = []"
  by (simp_all add: good_def settings_of_def own_inv_def)

lemma goodI: "rn_inv r \<Longrightarrow> own_inv h r \<Longrightarrow> s_mask (settings_of r) = NO_MASK \<Longrightarrow> good h r"
  by (simp add: good_def settings_of_def)

lemma good_kept: "good h rdr \<Longrightarrow> kept rdr r \<Longrightarrow> good h r \<and> settings_of r = settings_of rdr"
  using own_inv_owned [of r rdr h] by (auto simp: kept_def dest: goodD intro!: goodI)

lemma good_setColor:
  assumes "good h rdr"
  shows "\<exists>r. renderer_setColor red green blue alpha rdr = Some r \<and> good h r
    \<and> settings_of r = (settings_of rdr)\<lparr>s_colour := (alpha, red, green, blue), s_mode := PAINT_FLAT_COLOR\<rparr>"
proof -
  have "\<exists>r1. renderer_setColor red green blue alpha rdr = setPaintMode PAINT_FLAT_COLOR r1 \<and> owned r1 = owned rdr
    \<and> settings_of r1 = (settings_of rdr)\<lparr>s_colour := (alpha, red, green, blue)\<rparr>"
    unfolding renderer_setColor_def Let_def by (rule exI, rule conjI, rule refl) (auto simp: owned_def settings_of_def mark_def)
  then obtain r1 where r1: "renderer_setColor red green blue alpha rdr = setPaintMode PAINT_FLAT_COLOR r1" "owned r1 = owned rdr"
    "settings_of r1 = (settings_of rdr)\<lparr>s_colour := (alpha, red, green, blue)\<rparr>" by blast
  have "own_inv h r1" using assms own_inv_owned [OF r1(2)] by (simp add: good_def)
  from own_setPaintMode [OF this] obtain r where r: "setPaintMode PAINT_FLAT_COLOR r1 = Some r" "own_inv h r"
    "settings_of r = (settings_of r1)\<lparr>s_mode := PAINT_FLAT_COLOR\<rparr>" by blast
  moreover have "rn_inv r" by (rule rn_inv_setColor [OF goodD(1) [OF assms] r1(1) [unfolded r(1)]])
  ultimately show ?thesis using r1 goodD(3) [OF assms] by (auto intro!: goodI)
qed

lemma good_setCompositeRule:
  assumes "good h rdr" "rule \<in> rules"
  shows "good h (renderer_setCompositeRule rule rdr)" "settings_of (renderer_setCompositeRule rule rdr) = (settings_of rdr)\<lparr>s_rule := rule\<rparr>"
proof -
  show s: "settings_of (renderer_setCompositeRule rule rdr) = (settings_of rdr)\<lparr>s_rule := rule\<rparr>"
    by (auto simp: renderer_setCompositeRule_def Let_def settings_of_def mark_def)
  have "owned (renderer_setCompositeRule rule rdr) = owned rdr"
    by (auto simp: renderer_setCompositeRule_def Let_def owned_def mark_def)
  then have "own_inv h (renderer_setCompositeRule rule rdr)" using own_inv_owned goodD(2) [OF assms(1)] by blast
  then show "good h (renderer_setCompositeRule rule rdr)"
    using rn_inv_setCompositeRule [OF goodD(1) [OF assms(1)] assms(2)] goodD(3) [OF assms(1)] s by (intro goodI) simp_all
qed

text \<open>The gradient setters set the mode after the geometry; a colour ramp of fewer than 256 colours is read out of bounds.\<close>

lemma good_gradient:
  assumes "good h rdr" "owned r0 = owned rdr" "settings_of r0 = settings_of rdr"
    and "do { rdr \<leftarrow> setPaintMode m r0; copy_colors ramp rdr } = Some r" "rn_inv r"
  shows "good h r \<and> settings_of r = (settings_of rdr)\<lparr>s_mode := m\<rparr>"
proof -
  have "own_inv h r0" using assms(1) own_inv_owned [OF assms(2)] by (simp add: good_def)
  from own_setPaintMode [OF this] obtain r1 where r1: "setPaintMode m r0 = Some r1" "own_inv h r1" "settings_of r1 = (settings_of r0)\<lparr>s_mode := m\<rparr>" by blast
  with assms(4) have "copy_colors ramp r1 = Some r" by simp
  then have "owned r = owned r1" "settings_of r = settings_of r1"
    by (auto simp: copy_colors_def owned_def settings_of_def elim!: bind_SomeE)
  then have "own_inv h r" "settings_of r = (settings_of rdr)\<lparr>s_mode := m\<rparr>" using r1(2,3) own_inv_owned assms(3) by (blast, simp)
  then show ?thesis using assms(5) goodD(3) [OF assms(1)] by (intro conjI goodI) simp_all
qed

lemma good_setLinearGradient:
  assumes "good h rdr" "setLinearGradientImpl fl pin x0 y0 x1 y1 ramp cm t rdr = Some (ex, r)"
  shows "good h r \<and> settings_of r = (if ex = None then (settings_of rdr)\<lparr>s_mode := PAINT_LINEAR_GRADIENT\<rparr> else settings_of rdr)"
proof (cases pin)
  case True
  define r0 where "r0 = rdr\<lparr>g_cycleMethod := cm\<rparr>"
  from assms(2) True have r: "renderer_setLinearGradient fl x0 y0 x1 y1 ramp t r0 = Some r" "ex = None"
    by (auto simp: setLinearGradientImpl_def r0_def elim!: bind_SomeE)
  have "kept rdr r0" by (rule keptI) (simp_all add: kept_defs r0_def)
  then have r0: "good h r0" "settings_of r0 = settings_of rdr" using good_kept [OF assms(1)] by blast+
  have "rn_inv r" by (rule rn_inv_setLinearGradient [OF goodD(1) [OF r0(1)] r(1)])
  with r0 r(2) good_gradient [OF r0(1) _ _ r(1) [unfolded renderer_setLinearGradient_def Let_def]] show ?thesis
    by (auto simp: owned_def settings_of_def)
qed (use assms in \<open>auto simp: setLinearGradientImpl_def\<close>)

lemma good_setRadialGradient:
  assumes "good h rdr" "setRadialGradientImpl fl pin cx cy fx fy rad ramp cm t rdr = Some (ex, r)"
  shows "good h r \<and> settings_of r = (if ex = None then (settings_of rdr)\<lparr>s_mode := PAINT_RADIAL_GRADIENT\<rparr> else settings_of rdr)"
proof (cases pin)
  case True
  define r0 where "r0 = rdr\<lparr>g_cycleMethod := cm\<rparr>"
  from assms(2) True have r: "renderer_setRadialGradient fl cx cy fx fy rad ramp t r0 = Some r" "ex = None"
    by (auto simp: setRadialGradientImpl_def r0_def elim!: bind_SomeE)
  have "kept rdr r0" by (rule keptI) (simp_all add: kept_defs r0_def)
  then have r0: "good h r0" "settings_of r0 = settings_of rdr" using good_kept [OF assms(1)] by blast+
  have "rn_inv r" by (rule rn_inv_setRadialGradient [OF goodD(1) [OF r0(1)] r(1)])
  with r0 r(2) good_gradient [OF r0(1) _ _ r(1) [unfolded renderer_setRadialGradient_def Let_def]] show ?thesis
    by (auto simp: owned_def settings_of_def)
qed (use assms in \<open>auto simp: setRadialGradientImpl_def\<close>)

text \<open>A texture, owned or pinned.\<close>

lemma texture_settings:
  "settings_of (classify_matrix rdr) = settings_of rdr" "owned (classify_matrix rdr) = owned rdr"
  "settings_of (texture_matrix sm c rdr) = settings_of rdr" "owned (texture_matrix sm c rdr) = owned rdr"
  by (simp_all add: classify_matrix_def texture_matrix_def settings_of_def owned_def Let_def)

lemma setTexture_settings:
  assumes "own_inv h rdr" "m = (if im = IMAGE_MODE_NORMAL then PAINT_TEXTURE8888 else PAINT_TEXTURE8888_MULTIPLY)"
  shows "\<exists>r. renderer_setTexture fl im p d w hh st rp sm t fd al a b c e rdr = Some r \<and> owned r = (p, fd, h, False, True)
    \<and> settings_of r = (settings_of rdr)\<lparr>s_mode := m\<rparr>"
proof -
  have "own_inv h (rdr\<lparr>rn_paint_transform := t\<rparr>)" using assms(1) by (simp add: own_inv_def)
  from own_setPaintMode [OF this, of m] obtain r1 where
    r1: "setPaintMode m (rdr\<lparr>rn_paint_transform := t\<rparr>) = Some r1" "own_inv h r1" "settings_of r1 = (settings_of rdr)\<lparr>s_mode := m\<rparr>"
    by (auto simp: settings_of_def)
  have "\<not> rn_mask_free r1" "r_rowAAInt r1 = []" using r1(2) by (simp_all add: own_inv_def)
  with r1 show ?thesis
    by (simp add: renderer_setTexture_def Let_def assms(2) own_free texture_settings) (simp add: owned_def settings_of_def)
qed

lemma good_setTexture:
  assumes "good h rdr" "setTextureImpl fl alloc b pin px w hh st t rp lf al rdr = Some (ex, r)" "b \<notin> rn_heap rdr"
  shows "good h r \<and> settings_of r = (if ex = None then (settings_of rdr)\<lparr>s_mode := PAINT_TEXTURE8888\<rparr> else settings_of rdr)"
proof (cases "ex = None")
  case True
  define r0 where "r0 = rdr\<lparr>rn_heap := insert b (rn_heap rdr)\<rparr>"
  from assms(2) True obtain copy where r: "renderer_setTexture fl IMAGE_MODE_NORMAL (Block b) copy w hh w rp lf t True al
      0 0 (i32 (w - 1)) (i32 (hh - 1)) r0 = Some r"
    by (auto simp: setTextureImpl_def Let_def r0_def split: if_splits elim!: bind_SomeE)
  have o: "own_inv (insert b h) r0" "b \<notin> h" using assms(1,3) by (auto simp: good_def own_inv_def r0_def split: if_splits)
  from setTexture_settings [OF o(1) refl, of fl IMAGE_MODE_NORMAL "Block b" copy w hh w rp lf t True al 0 0 "i32 (w - 1)" "i32 (hh - 1)"] r
  have "owned r = (Block b, True, insert b h, False, True)" "settings_of r = (settings_of r0)\<lparr>s_mode := PAINT_TEXTURE8888\<rparr>" by auto
  moreover have "rn_inv r0" by (rule rn_inv_by_core [OF goodD(1) [OF assms(1)]]) (simp add: core_def cur_colour_def r0_def)
  then have "rn_inv r" by (rule rn_inv_setTexture [OF _ r])
  ultimately show ?thesis using True o(2) assms(1) by (auto simp: good_def own_inv_def owned_def r0_def settings_of_def)
qed (use assms in \<open>auto simp: setTextureImpl_def Let_def split: if_splits elim!: bind_SomeE\<close>)

lemma good_drawImage:
  assumes "good h rdr"
    and "drawImageImpl fl alloc pin pd arr im px w hh off st t rp lf bx byy bw bh le re te be tx0 ty0 tx1 ty1 al rdr = Some (ex, arr', r)"
  shows "good h r \<and> settings_of r = (if pd then (settings_of rdr)\<lparr>s_mode := if im = IMAGE_MODE_NORMAL then PAINT_TEXTURE8888 else PAINT_TEXTURE8888_MULTIPLY\<rparr>
    else settings_of rdr)"
proof (cases pd)
  case True
  let ?m = "if im = IMAGE_MODE_NORMAL then PAINT_TEXTURE8888 else PAINT_TEXTURE8888_MULTIPLY"
  from assms(2) True obtain r1 ex arr' r2 where r1: "renderer_setTexture fl im Pinned (drop (nat off) px) w hh st rp lf t False al tx0 ty0 tx1 ty1 rdr = Some r1"
    and r2: "fillRect fl alloc pin arr bx byy bw bh le re te be r1 = Some (ex, arr', r2)" and r: "r = r2\<lparr>rn_texture := Null, t_intData := []\<rparr>"
    by (auto simp: drawImageImpl_def split: if_splits elim!: bind_SomeE)
  have "own_inv h rdr" using assms(1) by (simp add: good_def)
  from setTexture_settings [OF this refl, of fl im Pinned "drop (nat off) px" w hh st rp lf t False al tx0 ty0 tx1 ty1] r1
  have s1: "owned r1 = (Pinned, False, h, False, True)" "settings_of r1 = (settings_of rdr)\<lparr>s_mode := ?m\<rparr>" by auto
  have i1: "rn_inv r1" by (rule rn_inv_setTexture [OF goodD(1) [OF assms(1)] r1])
  from kept_fillRect [OF r2 i1] have "owned r2 = owned r1" "settings_of r2 = settings_of r1" "rn_inv r2" using i1 by (auto simp: kept_def)
  moreover have "rn_inv r" using \<open>rn_inv r2\<close> unfolding r by (rule rn_inv_by_core) (simp add: core_def cur_colour_def)
  ultimately show ?thesis using True assms(1) s1 by (auto simp: r good_def own_inv_def owned_def settings_of_def)
qed (use assms in \<open>auto simp: drawImageImpl_def\<close>)

text \<open>Every call refines its meaning and keeps the renderer good.\<close>

lemma fillAlphaMaskImpl_Some:
  assumes "fillAlphaMaskImpl fl alloc pin pm g i arr jm x y w h off st rdr = Some (ex, arr', r)"
  shows "r = rdr \<or> (\<exists>x0 y0 x1 y1 o'. fillAlphaMask fl alloc pin pm g i arr x0 y0 x1 y1 ALPHA_MASK jm x w h o' rdr = Some (ex, arr', r))"
  using assms unfolding fillAlphaMaskImpl_def Let_def by (simp split: if_split_asm) blast+

lemma fillLCDAlphaMaskImpl_Some:
  assumes "fillLCDAlphaMaskImpl fl alloc pin pm g i arr jm x y w h off st rdr = Some (ex, arr', r)"
  shows "r = rdr \<or> (\<exists>x0 y0 x1 y1 o'. fillAlphaMask fl alloc pin pm g i arr x0 y0 x1 y1 LCD_ALPHA_MASK jm x w h o' rdr = Some (ex, arr', r))"
  using assms unfolding fillLCDAlphaMaskImpl_def Let_def by (simp split: if_split_asm) blast+

lemma good_mask:
  assumes "good h rdr" "r = rdr \<or> (\<exists>x0 y0 x1 y1 o'. fillAlphaMask fl alloc pin pm g i arr x0 y0 x1 y1 mt jm x w hh o' rdr = Some (ex, arr', r))"
    and "mt \<in> masks"
  shows "good h r \<and> settings_of r = settings_of rdr"
proof -
  have "rn_maskType rdr = NO_MASK" "\<not> rn_mask_free rdr" using assms(1) by (simp_all add: good_def own_inv_def)
  then have "r = rdr \<or> kept rdr r" using assms(2) by (elim disjE exE) (auto dest!: kept_fillAlphaMask [OF _ goodD(1) [OF assms(1)] _ _ assms(3)])
  then show ?thesis using good_kept [OF assms(1)] assms(1) by blast
qed

lemma call_refines:
  assumes "good h rdr" "call_ok rdr c" "run_call fl g i c rdr = Some (ex, r)"
  shows "good h r \<and> settings_of r = spec_call c ex (settings_of rdr)"
proof (cases c)
  case (SetClip x y w hh)
  have "owned (renderer_setClip x y w hh rdr) = owned rdr" by (simp add: renderer_setClip_def owned_def)
  then have "own_inv h (renderer_setClip x y w hh rdr)" using own_inv_owned goodD(2) [OF assms(1)] by blast
  with rn_inv_setClip [OF goodD(1) [OF assms(1)]] goodD(3) [OF assms(1)] assms(3) SetClip show ?thesis
    by (auto intro!: goodI) (simp_all add: renderer_setClip_def settings_of_def)
next
  case (SetColor a b c' d)
  with good_setColor [OF assms(1), of a b c' d] assms(3) show ?thesis by auto
next
  case (SetCompositeRule rule)
  with good_setCompositeRule [OF assms(1)] assms(2,3) show ?thesis by auto
next
  case (SetLinearGradient pin x0 y0 x1 y1 ramp cm t)
  then have "setLinearGradientImpl fl pin x0 y0 x1 y1 ramp cm t rdr = Some (ex, r)" using assms(3) by simp
  from good_setLinearGradient [OF assms(1) this] SetLinearGradient assms(2) show ?thesis by simp
next
  case (SetRadialGradient pin cx cy fx fy rad ramp cm t)
  then have "setRadialGradientImpl fl pin cx cy fx fy rad ramp cm t rdr = Some (ex, r)" using assms(3) by simp
  from good_setRadialGradient [OF assms(1) this] SetRadialGradient assms(2) show ?thesis by simp
next
  case (SetTexture alloc b pin px w hh st t rp lf al)
  then have "setTextureImpl fl alloc b pin px w hh st t rp lf al rdr = Some (ex, r)" using assms(3) by simp
  from good_setTexture [OF assms(1) this] SetTexture assms(2) show ?thesis by simp
next
  case (ClearRect pin arr x y w hh)
  then obtain arr' where "clearRectImpl pin arr x y w hh rdr = Some (ex, arr', r)" using assms(3) by auto
  from good_kept [OF assms(1) kept_clearRect [OF this goodD(1) [OF assms(1)]]] ClearRect show ?thesis by simp
next
  case (FillRect alloc pin arr x y w hh)
  then obtain arr' where "fillRect fl alloc pin arr x y w hh IMAGE_FRAC_EDGE_KEEP IMAGE_FRAC_EDGE_KEEP IMAGE_FRAC_EDGE_KEEP IMAGE_FRAC_EDGE_KEEP rdr = Some (ex, arr', r)" using assms(3) by (auto simp: fillRectImpl_def)
  from good_kept [OF assms(1) kept_fillRect [OF this goodD(1) [OF assms(1)]]] FillRect show ?thesis by simp
next
  case (EmitAndClearAlphaRow alloc pin pm pr arr am ar y x0 x1 off rn)
  then obtain arr' ar' where "emitAndClearAlphaRowImpl fl alloc pin pm pr g i arr am ar y x0 x1 off rn rdr = Some (ex, arr', ar', r)" using assms(3) by auto
  from good_kept [OF assms(1) kept_emitAndClearAlphaRow [OF this goodD(1) [OF assms(1)] goodD(4) [OF assms(1)]]] EmitAndClearAlphaRow show ?thesis by simp
next
  case (FillAlphaMask alloc pin pm arr jm x y w hh off st)
  then obtain arr' where "fillAlphaMaskImpl fl alloc pin pm g i arr jm x y w hh off st rdr = Some (ex, arr', r)" using assms(3) by auto
  from good_mask [OF assms(1) fillAlphaMaskImpl_Some [OF this]] FillAlphaMask show ?thesis by (simp add: masks_def)
next
  case (FillLCDAlphaMask alloc pin pm arr jm x y w hh off st)
  then obtain arr' where "fillLCDAlphaMaskImpl fl alloc pin pm g i arr jm x y w hh off st rdr = Some (ex, arr', r)" using assms(3) by auto
  from good_mask [OF assms(1) fillLCDAlphaMaskImpl_Some [OF this]] FillLCDAlphaMask show ?thesis by (simp add: masks_def)
next
  case (DrawImage alloc pin pd arr im px w hh off st t rp lf bb ee tt al)
  obtain b1 b2 b3 b4 e1 e2 e3 e4 t1 t2 t3 t4 where bb: "bb = (b1, b2, b3, b4)" "ee = (e1, e2, e3, e4)" "tt = (t1, t2, t3, t4)"
    by (metis prod_cases4)
  with DrawImage assms(3) obtain arr' where
    "drawImageImpl fl alloc pin pd arr im px w hh off st t rp lf b1 b2 b3 b4 e1 e2 e3 e4 t1 t2 t3 t4 al rdr = Some (ex, arr', r)" by auto
  from good_drawImage [OF assms(1) this] DrawImage show ?thesis by simp
qed

section \<open>Reachable renderers\<close>

definition initial_settings :: "surface \<Rightarrow> settings" where
  "initial_settings s = \<lparr>s_mask = NO_MASK, s_rule = COMPOSITE_SRC_OVER, s_mode = PAINT_FLAT_COLOR, s_colour = (0, 0, 0, 0),
     s_clip = (0, 0, i32 (sf_width s - 1), i32 (sf_height s - 1))\<rparr>"

text \<open>\<open>reach \<dots> a rdr\<close>: calls lead from a new renderer on the surface \<open>s\<close> to \<open>rdr\<close>, and their meanings to the settings \<open>a\<close>.\<close>

inductive reach :: "('f, 'd) arith \<Rightarrow> jint list \<Rightarrow> jint list \<Rightarrow> surface \<Rightarrow> nat set \<Rightarrow> settings \<Rightarrow> 'f renderer \<Rightarrow> bool"
  for fl g i s h where
  create: "reach fl g i s h (initial_settings s) (createCommon fl s h)"
| call: "reach fl g i s h a rdr \<Longrightarrow> call_ok rdr c \<Longrightarrow> run_call fl g i c rdr = Some (ex, r) \<Longrightarrow> reach fl g i s h (spec_call c ex a) r"

lemma good_createCommon:
  assumes "sf_imageType s = TYPE_INT_ARGB_PRE"
  shows "good h (createCommon fl s h)" "settings_of (createCommon fl s h) = initial_settings s"
  using rn_inv_createCommon [OF assms, of fl h]
  by (simp_all add: good_def own_inv_def createCommon_def Let_def settings_of_def initial_settings_def)

lemma reach_good:
  assumes "reach fl g i s h a rdr" "sf_imageType s = TYPE_INT_ARGB_PRE"
  shows "good h rdr \<and> settings_of rdr = a"
  using assms
proof (induction rule: reach.induct)
  case create
  then show ?case using good_createCommon by blast
next
  case (call a rdr c ex r)
  then show ?case using call_refines by blast
qed

text \<open>The tables and the colour that the settings \<open>a\<close> ask for when a mask of kind \<open>mt\<close> is drawn through.\<close>

definition serves :: "jint \<Rightarrow> settings \<Rightarrow> ('f, 'a) renderer_scheme \<Rightarrow> bool" where
  "serves mt a rdr \<longleftrightarrow>
     emitRows (rn_fn rdr) = rows_for mt (s_rule a) (s_mode a = PAINT_FLAT_COLOR)
   \<and> emitLine (rn_fn rdr) = line_for (s_rule a) (s_mode a = PAINT_FLAT_COLOR)
   \<and> genPaint (rn_fn rdr) = paint_for (s_mode a)
   \<and> cur_colour rdr = (if s_rule a = COMPOSITE_CLEAR then (0, 0, 0, 0) else s_colour a)
   \<and> rn_rendererState rdr AND INVALID_BLITTING_MASK = 0"

lemma serves_validate:
  assumes "rn_inv rdr"
  shows "serves (rn_maskType rdr) (settings_of rdr) (VALIDATE_BLITTING (INVALIDATE_RENDERER_SURFACE rdr))"
proof -
  from validate_surface(1) [OF assms] obtain f st where
    v: "VALIDATE_BLITTING (INVALIDATE_RENDERER_SURFACE rdr) = (with_colour (with_surface rdr))\<lparr>rn_fn := f, rn_rendererState := st\<rparr>"
      "tabs_ok rdr f" "st AND INVALID_BLITTING_MASK = 0" by blast
  have "cur_colour (VALIDATE_BLITTING (INVALIDATE_RENDERER_SURFACE rdr)) = shown_colour rdr"
    unfolding v(1) by (simp add: with_colour_def with_surface_def shown_colour_def Let_def cur_colour_def split: prod.splits)
  then show ?thesis using v(2,3)
    by (simp add: serves_def tabs_ok_def paint_tab_def settings_of_def shown_colour_def) (simp add: v(1))
qed

text \<open>
  C2: the renderer refines its settings. After any sequence of calls of the native methods (with
  whatever arguments, allocation failures and exceptions) the state is the image of the caller's
  settings, and the lazily updated tables that the next drawing call uses are exactly the ones the
  settings ask for: the blit routine for the mask, rule and paint, the line routine, the paint generator
  and the colour. No stale routine is ever called, whichever tables the calls in between invalidated.
\<close>

theorem renderer_refines:
  assumes "reach fl g i s h a rdr" "sf_imageType s = TYPE_INT_ARGB_PRE"
  shows "settings_of rdr = a \<and> serves NO_MASK a (VALIDATE_BLITTING (INVALIDATE_RENDERER_SURFACE rdr))
    \<and> (\<forall>mt \<in> masks. \<forall>p d w hh. \<exists>r. renderer_setMask mt p d w hh False rdr = Some r
        \<and> serves mt a (VALIDATE_BLITTING (INVALIDATE_RENDERER_SURFACE r)))"
proof (intro conjI ballI allI)
  have g: "good h rdr" "settings_of rdr = a" using reach_good [OF assms] by blast+
  show "settings_of rdr = a" by (rule g(2))
  show "serves NO_MASK a (VALIDATE_BLITTING (INVALIDATE_RENDERER_SURFACE rdr))"
    using serves_validate [OF goodD(1) [OF g(1)]] g by (simp add: good_def)
  fix mt p d w hh assume mt: "mt \<in> masks"
  have m: "\<not> rn_mask_free rdr" using goodD(2) [OF g(1)] by (simp add: own_inv_def)
  then obtain r where r: "renderer_setMask mt p d w hh False rdr = Some r" by (simp add: renderer_setMask_def free_mask_def)
  have "serves (rn_maskType r) (settings_of r) (VALIDATE_BLITTING (INVALIDATE_RENDERER_SURFACE r))"
    by (rule serves_validate [OF rn_inv_setMask [OF goodD(1) [OF g(1)] r mt]])
  then have "serves mt a (VALIDATE_BLITTING (INVALIDATE_RENDERER_SURFACE r))"
    using setMask_settings(1) [OF r m] g(2) by (simp add: serves_def settings_of_def) (metis settings.select_convs settings.update_convs)
  with r show "\<exists>r. renderer_setMask mt p d w hh False rdr = Some r \<and> serves mt a (VALIDATE_BLITTING (INVALIDATE_RENDERER_SURFACE r))" by blast
qed

text \<open>
  C13: the renderer frees what it owns, once. In every state that calls can reach, changing the paint
  mode and disposing of the renderer free only live blocks, never the pinned array of an image and never
  a block twice, and \<open>renderer_dispose\<close> gives back exactly the heap the renderer was created in: no
  texture leaks.
\<close>

theorem renderer_frees_once:
  assumes "reach fl g i s h a rdr" "sf_imageType s = TYPE_INT_ARGB_PRE"
  shows "renderer_dispose rdr = Some h \<and> (\<forall>m. \<exists>r. setPaintMode m rdr = Some r \<and> renderer_dispose r = Some h)"
proof -
  have o: "own_inv h rdr" using reach_good [OF assms] goodD(2) by blast
  then have "\<exists>r. setPaintMode m rdr = Some r \<and> renderer_dispose r = Some h" for m
    using own_setPaintMode [OF o, of m] own_dispose by blast
  with own_dispose [OF o] show ?thesis by blast
qed

text \<open>A new renderer whose colour has been set.\<close>

lemma sample_reach:
  "reach exact_arith [] [] (JavaSurface_initialize TYPE_INT_ARGB_PRE 4 4) {}
     (spec_call (SetColor 10 20 30 200) None (initial_settings (JavaSurface_initialize TYPE_INT_ARGB_PRE 4 4))) sample_renderer"
  by (rule reach.call [OF reach.create]) (simp_all add: sample_renderer)

theorem renderer_refines_witness:
  "serves NO_MASK (settings_of sample_renderer) (VALIDATE_BLITTING (INVALIDATE_RENDERER_SURFACE sample_renderer))
    \<and> s_colour (settings_of sample_renderer) = (200, 10, 20, 30) \<and> rows_for NO_MASK (s_rule (settings_of sample_renderer)) True = Some BlitSrcOver"
proof -
  have "sf_imageType (JavaSurface_initialize TYPE_INT_ARGB_PRE 4 4) = TYPE_INT_ARGB_PRE" by (simp add: JavaSurface_initialize_def)
  from renderer_refines [OF sample_reach this] show ?thesis by (auto simp: initial_settings_def spec_defs)
qed

section \<open>Copying a texture\<close>

lemma copy_image_rows:
  assumes "0 \<le> i" "0 < w" "0 < st" "n = 0 \<or> (i + int n - 1) * st + w \<le> int (length px)" "int (length px) < 2 ^ 31"
    and "(i + int n) * w \<le> int (length dst)" "int (length dst) < 2 ^ 31"
  shows "\<exists>dst'. copy_image px w st n i dst = Some dst' \<and> length dst' = length dst
    \<and> (\<forall>x < length dst. (\<forall>j k. i \<le> j \<and> j < i + int n \<and> 0 \<le> k \<and> k < w \<and> int x = j * w + k \<longrightarrow> dst' ! x = px ! nat (j * st + k))
        \<and> (int x < i * w \<longrightarrow> dst' ! x = dst ! x))"
  using assms
proof (induction n arbitrary: i dst)
  case (Suc n)
  have len: "(i + int n) * st + w \<le> int (length px)" "(i + int n + 1) * w \<le> int (length dst)" using Suc.prems(4,6) by (simp_all add: algebra_simps)
  have "i * st \<le> (i + int n) * st" "(i + 1) * w \<le> (i + int n + 1) * w" using Suc.prems(2,3) by (intro mult_right_mono; simp)+
  then have r: "i * st + w \<le> int (length px)" "i * w + w \<le> int (length dst)" using len by (simp_all add: algebra_simps)
  have z: "0 \<le> i * st" "0 \<le> i * w" using Suc.prems(1-3) by simp_all
  have e: "i32 (i * st) = i * st" "i32 (i * w) = i * w" using r z Suc.prems(2,5,7) by (simp_all add: i32_small)
  from z r have rd: "aread px (i * st) (nat w) = Some (take (nat w) (drop (nat (i * st)) px))" using Suc.prems(2) by (simp add: aread_def)
  let ?row = "take (nat w) (drop (nat (i * st)) px)"
  have lr: "length ?row = nat w" using rd aread_length by blast
  from awrite_in [of "i * w" ?row dst] z r lr Suc.prems(2) obtain d1 where d1: "awrite dst (i * w) ?row = Some d1" by auto
  note l1 = awrite_length [OF d1]
  have n: "n = 0 \<or> (i + 1 + int n - 1) * st + w \<le> int (length px)" using len by simp
  have "(i + 1 + int n) * w \<le> int (length d1)" using len(2) l1 by (simp add: algebra_simps)
  from Suc.IH [OF _ Suc.prems(2,3) n Suc.prems(5) this] Suc.prems(1,7) l1 obtain d2 where
    d2: "copy_image px w st n (i + 1) d1 = Some d2" "length d2 = length d1"
      "\<And>x j k. x < length d1 \<Longrightarrow> i + 1 \<le> j \<Longrightarrow> j < i + 1 + int n \<Longrightarrow> 0 \<le> k \<Longrightarrow> k < w \<Longrightarrow> int x = j * w + k \<Longrightarrow> d2 ! x = px ! nat (j * st + k)"
      "\<And>x. x < length d1 \<Longrightarrow> int x < (i + 1) * w \<Longrightarrow> d2 ! x = d1 ! x" by auto
  have "copy_image px w st (Suc n) i dst = Some d2" by (simp add: e rd d1 d2(1))
  moreover have "d2 ! x = px ! nat (j * st + k)" if "x < length dst" "i \<le> j" "j < i + int (Suc n)" "0 \<le> k" "k < w" "int x = j * w + k" for x j k
  proof (cases "j = i")
    case True
    have "d2 ! x = d1 ! x" using d2(4) [of x] that l1 True by (simp add: algebra_simps)
    also have "\<dots> = ?row ! nat k" using awrite_nth [OF d1 that(1)] that True lr by simp
    also have "\<dots> = px ! nat (j * st + k)" using that True z(1) r(1) by (simp add: nat_add_distrib)
    finally show ?thesis .
  qed (use d2(3) [of x j k] that l1 in simp)
  moreover have "d2 ! x = dst ! x" if "x < length dst" "int x < i * w" for x
  proof -
    have "int x < (i + 1) * w" using that(2) Suc.prems(2) by (simp add: algebra_simps)
    then have "d2 ! x = d1 ! x" using d2(4) [of x] that(1) l1 by simp
    then show ?thesis using awrite_nth [OF d1 that(1)] that(2) by simp
  qed
  ultimately show ?case using d2(2) l1 by auto
qed simp

lemma matrix_fields:
  "t_intData (classify_matrix rdr) = t_intData rdr" "rn_texture (classify_matrix rdr) = rn_texture rdr" "t_stride (classify_matrix rdr) = t_stride rdr"
  "t_intData (texture_matrix sm c rdr) = t_intData rdr" "rn_texture (texture_matrix sm c rdr) = rn_texture rdr" "t_stride (texture_matrix sm c rdr) = t_stride rdr"
  by (simp_all add: classify_matrix_def texture_matrix_def Let_def)

lemma setTexture_fields:
  assumes "renderer_setTexture fl im p d w hh st rp sm t fd al a b c e rdr = Some r"
  shows "t_intData r = d" "rn_texture r = p" "t_stride r = st"
proof -
  from assms obtain r2 where "r = classify_matrix (texture_matrix sm (pisces_transform_invert fl t)
      (r2\<lparr>rn_texture_free := fd, t_hasAlpha := al, rn_texture := p, t_intData := d, t_imageWidth := w, t_imageHeight := hh,
        t_stride := st, t_repeat := rp, t_txMin := a, t_tyMin := b, t_txMax := c, t_tyMax := e\<rparr>))"
    unfolding renderer_setTexture_def Let_def by (elim bind_SomeE) (metis option.inject)
  then show "t_intData r = d" "rn_texture r = p" "t_stride r = st" by (simp_all add: matrix_fields)
qed

definition image_fits :: "jint list \<Rightarrow> jint \<Rightarrow> jint \<Rightarrow> jint \<Rightarrow> bool" where
  "image_fits px w hh st \<longleftrightarrow> 0 < w \<and> 0 < hh \<and> 0 < st \<and> w < INT_MAX div hh div 4 \<and> (hh - 1) * st + w \<le> int (length px) \<and> int (length px) < 2 ^ 31"

lemma image_cells:
  assumes "image_fits px w hh st"
  shows "0 < w * hh" "w * hh < 2 ^ 29" "i32 (w * hh) = w * hh"
proof -
  have p: "0 < w" "0 < hh" "w < INT_MAX div hh div 4" using assms by (simp_all add: image_fits_def)
  have "INT_MAX div hh div 4 = INT_MAX div (hh * 4)" using p(2) by (simp add: zdiv_zmult2_eq)
  then have "(w + 1) * (hh * 4) \<le> INT_MAX div (hh * 4) * (hh * 4)" using p by (intro mult_right_mono) auto
  also have "\<dots> \<le> INT_MAX" using div_mult_mod_eq [of INT_MAX "hh * 4"] pos_mod_sign [of "hh * 4" INT_MAX] p(2) by linarith
  finally have "(w + 1) * (hh * 4) \<le> INT_MAX" .
  moreover have "(w + 1) * (hh * 4) = 4 * (w * hh) + 4 * hh" by (simp add: algebra_simps)
  moreover have "INT_MAX = 2147483647" by (simp add: INT_MAX_def)
  ultimately have "4 * (w * hh) < 2147483648" using p(2) by linarith
  then have "w * hh < 536870912" by linarith
  moreover show "0 < w * hh" using p by simp
  ultimately show "w * hh < 2 ^ 29" "i32 (w * hh) = w * hh" by (simp_all add: i32_small)
qed

lemma image_guard:
  assumes "image_fits px w hh st"
  shows "hh - 1 \<le> sgn (int (length px) - w) * (\<bar>int (length px) - w\<bar> div st)"
proof -
  have p: "0 < st" "(hh - 1) * st \<le> int (length px) - w" "0 \<le> (hh - 1) * st" using assms by (simp_all add: image_fits_def)
  then have "hh - 1 \<le> (int (length px) - w) div st" using zdiv_mono1 [OF p(2,1)] by simp
  then show ?thesis using p by (cases "int (length px) - w = 0") auto
qed

lemma texture_copy:
  assumes "image_fits px w hh st"
  shows "\<exists>copy. copy_texture px w hh st = Some copy
    \<and> length copy = nat (w * hh) \<and> (\<forall>j k. 0 \<le> j \<and> j < hh \<and> 0 \<le> k \<and> k < w \<longrightarrow> copy ! nat (j * w + k) = px ! nat (j * st + k))"
proof (cases "st = w")
  case True
  have len: "w * hh \<le> int (length px)" using assms True by (simp add: image_fits_def algebra_simps)
  note c = image_cells [OF assms]
  let ?xs = "take (nat (w * hh)) px"
  have "aread px 0 (nat (w * hh)) = Some ?xs" using len c(1) by (simp add: aread_def)
  moreover have l: "length ?xs = nat (w * hh)" using len by simp
  moreover have "awrite (replicate (nat (w * hh)) 0) 0 ?xs = Some ?xs" using l c(1) by (auto simp: awrite_def)
  moreover have "?xs ! nat (j * w + k) = px ! nat (j * st + k)" if "0 \<le> j" "j < hh" "0 \<le> k" "k < w" for j k
  proof -
    have "(j + 1) * w \<le> hh * w" using that by (intro mult_right_mono) auto
    then have "j * w + k < w * hh" using that by (simp add: algebra_simps)
    then have "nat (j * w + k) < nat (w * hh)" using c(1) by simp
    then show ?thesis using True by simp
  qed
  ultimately show ?thesis using True c(3) by (auto simp: copy_texture_def)
next
  case False
  have p: "0 < w" "0 < st" "0 < hh" "(hh - 1) * st + w \<le> int (length px)" "int (length px) < 2 ^ 31" using assms by (simp_all add: image_fits_def)
  note c = image_cells [OF assms]
  have "\<exists>dst'. copy_image px w st (nat hh) 0 (replicate (nat (w * hh)) 0) = Some dst' \<and> length dst' = length (replicate (nat (w * hh)) (0 :: int))
    \<and> (\<forall>x < length (replicate (nat (w * hh)) (0 :: int)). (\<forall>j k. 0 \<le> j \<and> j < 0 + int (nat hh) \<and> 0 \<le> k \<and> k < w \<and> int x = j * w + k \<longrightarrow> dst' ! x = px ! nat (j * st + k))
        \<and> (int x < 0 * w \<longrightarrow> dst' ! x = replicate (nat (w * hh)) 0 ! x))"
    by (rule copy_image_rows) (use p c in \<open>simp_all add: mult.commute\<close>)
  then obtain d where d: "copy_image px w st (nat hh) 0 (replicate (nat (w * hh)) 0) = Some d" "length d = nat (w * hh)"
    "\<And>x j k. x < nat (w * hh) \<Longrightarrow> 0 \<le> j \<Longrightarrow> j < hh \<Longrightarrow> 0 \<le> k \<Longrightarrow> k < w \<Longrightarrow> int x = j * w + k \<Longrightarrow> d ! x = px ! nat (j * st + k)"
    using p(3) by auto
  have "d ! nat (j * w + k) = px ! nat (j * st + k)" if "0 \<le> j" "j < hh" "0 \<le> k" "k < w" for j k
  proof (rule d(3) [OF _ that])
    have "(j + 1) * w \<le> hh * w" using that by (intro mult_right_mono) auto
    then show "nat (j * w + k) < nat (w * hh)" using that c(1) by (simp add: algebra_simps)
    show "int (nat (j * w + k)) = j * w + k" using that by simp
  qed
  with d(1,2) False c(3) show ?thesis by (auto simp: copy_texture_def)
qed

lemma setTexture_copied:
  assumes "good h rdr" "image_fits px w hh st" "b \<notin> rn_heap rdr" "\<And>n. alloc n"
  shows "\<exists>r. setTextureImpl fl alloc b True px w hh st t rp lf al rdr = Some (None, r) \<and> good h r \<and> rn_texture r = Block b
    \<and> t_stride r = w \<and> length (t_intData r) = nat (w * hh)
    \<and> (\<forall>j k. 0 \<le> j \<and> j < hh \<and> 0 \<le> k \<and> k < w \<longrightarrow> t_intData r ! nat (j * w + k) = px ! nat (j * st + k))"
proof -
  from texture_copy [OF assms(2)] obtain copy where
    c: "copy_texture px w hh st = Some copy" "length copy = nat (w * hh)"
    "\<And>j k. 0 \<le> j \<Longrightarrow> j < hh \<Longrightarrow> 0 \<le> k \<Longrightarrow> k < w \<Longrightarrow> copy ! nat (j * w + k) = px ! nat (j * st + k)" by blast
  define r0 where "r0 = rdr\<lparr>rn_heap := insert b (rn_heap rdr)\<rparr>"
  have "own_inv (insert b h) r0" using goodD(2) [OF assms(1)] assms(3) by (auto simp: own_inv_def r0_def split: if_splits)
  from setTexture_settings [OF this refl] obtain r where
    r: "renderer_setTexture fl IMAGE_MODE_NORMAL (Block b) copy w hh w rp lf t True al 0 0 (i32 (w - 1)) (i32 (hh - 1)) r0 = Some r" by blast
  have "0 < w" "0 < hh" "0 < st" "w < INT_MAX div hh div 4" using assms(2) by (simp_all add: image_fits_def)
  then have i: "setTextureImpl fl alloc b True px w hh st t rp lf al rdr = Some (None, r)"
    using image_guard [OF assms(2)] image_cells(3) [OF assms(2)] assms(4) c(1) r unfolding setTextureImpl_def Let_def r0_def by simp
  then show ?thesis using good_setTexture [OF assms(1) i assms(3)] setTexture_fields [OF r] c(2,3) by blast
qed

text \<open>
  C30: \<open>setTextureImpl\<close> copies the image. For an image of \<open>w\<close> by \<open>hh\<close> pixels that lies in the Java array (any
  positive stride) the call returns, the renderer owns the new block, and the block holds exactly the
  pixels of the image, row after row, on both copying paths.
\<close>

theorem setTexture_copies:
  assumes "good h rdr" "image_fits px w hh st" "b \<notin> rn_heap rdr" "\<And>n. alloc n"
  shows "\<exists>r. setTextureImpl fl alloc b True px w hh st t rp lf al rdr = Some (None, r) \<and> good h r \<and> rn_texture r = Block b
    \<and> t_stride r = w \<and> length (t_intData r) = nat (w * hh)
    \<and> (\<forall>j k. 0 \<le> j \<and> j < hh \<and> 0 \<le> k \<and> k < w \<longrightarrow> t_intData r ! nat (j * w + k) = px ! nat (j * st + k))"
  using assms by (rule setTexture_copied)

definition identity6 :: Transform6 where
  "identity6 = \<lparr>m00 = 65536, m01 = 0, m10 = 0, m11 = 65536, m02 = 0, m12 = 0\<rparr>"

lemma sample_texture:
  "good {} sample_renderer" "image_fits [1, 2, 3, 4, 5, 6, 7, 8] 2 2 3" "7 \<notin> rn_heap sample_renderer"
  using reach_good [OF sample_reach]
  by (simp_all add: JavaSurface_initialize_def image_fits_def INT_MAX_def sample_renderer_def renderer_setColor_def setPaintMode_def
      createCommon_def mark_def Let_def)

theorem setTexture_copies_witness:
  "\<exists>r. setTextureImpl exact_arith (\<lambda>_. True) 7 True [1, 2, 3, 4, 5, 6, 7, 8] 2 2 3 identity6 False False True sample_renderer = Some (None, r)
    \<and> rn_texture r = Block 7 \<and> t_intData r ! 3 = 5"
proof -
  from setTexture_copies [OF sample_texture, of "\<lambda>_. True" exact_arith identity6 False False True] obtain r where
    r: "setTextureImpl exact_arith (\<lambda>_. True) 7 True [1, 2, 3, 4, 5, 6, 7, 8] 2 2 3 identity6 False False True sample_renderer = Some (None, r)" "rn_texture r = Block 7"
    "\<And>j k. 0 \<le> j \<Longrightarrow> j < 2 \<Longrightarrow> 0 \<le> k \<Longrightarrow> k < 2 \<Longrightarrow> t_intData r ! nat (j * 2 + k) = [1, 2, 3, 4, 5, 6, 7, 8] ! nat (j * 3 + k)" by auto
  from r(3) [of 1 1] r(1,2) show ?thesis by (simp add: numeral_eq_Suc)
qed

theorem renderer_frees_once_witness:
  "\<exists>r. setTextureImpl exact_arith (\<lambda>_. True) 7 True [1, 2, 3, 4, 5, 6, 7, 8] 2 2 3 identity6 False False True sample_renderer = Some (None, r)
    \<and> rn_texture r = Block 7 \<and> renderer_dispose r = Some {}"
proof -
  from setTexture_copied [OF sample_texture, of "\<lambda>_. True" exact_arith identity6 False False True] obtain r where
    r: "setTextureImpl exact_arith (\<lambda>_. True) 7 True [1, 2, 3, 4, 5, 6, 7, 8] 2 2 3 identity6 False False True sample_renderer = Some (None, r)"
      "rn_texture r = Block 7" "good {} r" by auto
  have t: "sf_imageType (JavaSurface_initialize TYPE_INT_ARGB_PRE 4 4) = TYPE_INT_ARGB_PRE" by (simp add: JavaSurface_initialize_def)
  have "reach exact_arith [] [] (JavaSurface_initialize TYPE_INT_ARGB_PRE 4 4) {}
      (spec_call (SetTexture (\<lambda>_. True) 7 True [1, 2, 3, 4, 5, 6, 7, 8] 2 2 3 identity6 False False True) None
        (spec_call (SetColor 10 20 30 200) None (initial_settings (JavaSurface_initialize TYPE_INT_ARGB_PRE 4 4)))) r"
    by (rule reach.call [OF sample_reach]) (use r(1) sample_texture(3) in simp_all)
  from renderer_frees_once [OF this t] r(1,2) show ?thesis by blast
qed

text \<open>
  The check of \<open>setTextureImpl\<close> against the length of the array does not hold for one row. C division
  rounds towards zero, so that for every array that is shorter than the row by less than the stride the quotient \<open>(dataLength - width) / stride\<close> is 0,
  which the check accepts for a height of 1; the copy then reads past the end of the array. For every larger height the call is refused.
\<close>

theorem setTexture_short_row:
  assumes "int (length pixels) < width" "width - int (length pixels) < stride" "width < 2 ^ 29 - 1" "alloc (nat width)"
  shows "setTextureImpl fl alloc b True pixels width 1 stride t rp lf al rdr = None
    \<and> (1 < height \<longrightarrow> setTextureImpl fl alloc b True pixels width height stride t rp lf al rdr = Some (Some OutOfMemoryError, rdr))"
proof -
  have q: "(width - int (length pixels)) div stride = 0" "0 < stride" "0 < width" using assms by auto
  then have "sgn (int (length pixels) - width) * (\<bar>int (length pixels) - width\<bar> div stride) = 0" using assms(1) by simp
  moreover have "copy_texture pixels width 1 stride = None" using assms q by (simp add: copy_texture_def aread_def i32_small Let_def)
  ultimately show ?thesis using assms q by (simp add: setTextureImpl_def Let_def INT_MAX_def i32_small)
qed

end
