(* ===== verification/PiscesMask.thy ===== *)
theory PiscesMask
  imports PiscesCalls
begin

unbundle bit_operations_syntax

text \<open>
  What \<open>fillAlphaMaskImpl\<close> of \<open>native-prism-sw/JPiscesRenderer.c\<close> draws, the call behind text, and what
  \<open>clearRectImpl\<close> clears: the pixels of the Java array after the call.
\<close>

section \<open>Rows of a mask\<close>

lemma span_rows_rel:
  assumes "span_of d i ops n d'" "0 \<le> i"
  shows "rows_rel d i stride n 1 (\<lambda>_ k p q. pixop_val (ops k) p = Some q) d'"
  unfolding rows_rel_def
proof (intro conjI allI impI)
  note s = assms(1) [unfolded span_of_def]
  show "length d' = length d" using s by simp
  fix x assume x: "x < length d"
  then have c: "if i \<le> int x \<and> int x < i + int n then pixop_val (ops (nat (int x - i))) (d ! x) = Some (d' ! x) else d' ! x = d ! x"
    using s by blast
  show "pixop_val (ops k) (d ! x) = Some (d' ! x)" if "j < 1" "k < n" "int x = i + int j * stride + int k" for j k
    using c that by simp
  show "d' ! x = d ! x" if "\<forall>j < 1. \<forall>k < n. int x \<noteq> i + int j * stride + int k"
  proof -
    have "nat (int x - i) < n" if "i \<le> int x" "int x < i + int n" using that by linarith
    then have "\<not> (i \<le> int x \<and> int x < i + int n)"
      using that [rule_format, of 0 "nat (int x - i)"] by auto
    with c show ?thesis by auto
  qed
qed

text \<open>The state during the loop over the rows of a mask: only the image and the position change.\<close>

abbreviation mask_state ::
    "('f, 'a) renderer_scheme \<Rightarrow> jint list \<Rightarrow> jint \<Rightarrow> jint \<Rightarrow> jint \<Rightarrow> jint \<Rightarrow> jint \<Rightarrow> ('f, 'a) renderer_scheme" where
  "mask_state r0 d off m k x y \<equiv> r0\<lparr>r_data := d, r_currImageOffset := off, r_maskOffset := m, rn_rowNum := k, r_currX := x, r_currY := y\<rparr>"

text \<open>\<open>mask_rect\<close>: the rows and columns to be drawn lie in the image and in the mask.\<close>

definition mask_rect :: "jint \<Rightarrow> jint \<Rightarrow> nat \<Rightarrow> nat \<Rightarrow> jint \<Rightarrow> jint \<Rightarrow> ('f, 'a) renderer_scheme \<Rightarrow> bool" where
  "mask_rect y0 W n H o0 mw r0 \<longleftrightarrow> r_imagePixelStride r0 = 1 \<and> 0 < n \<and> r_maxTouched r0 = r_minTouched r0 + int n - 1
     \<and> 0 \<le> y0 \<and> 0 \<le> r_minTouched r0 \<and> r_minTouched r0 + int n \<le> W \<and> (y0 + int H) * W \<le> int (length (r_data r0))
     \<and> int (length (r_data r0)) < 2 ^ 31 \<and> 0 \<le> o0 \<and> 0 \<le> mw
     \<and> (\<forall>j < H. o0 + int j * mw + int n \<le> int (length (r_mask_byteData r0))) \<and> int (length (r_mask_byteData r0)) < 2 ^ 31
     \<and> emitRows (rn_fn r0) = Some BlitSrcOverMask \<and> genPaint (rn_fn r0) = None \<and> colour_ok (cur_colour r0)"

text \<open>What a pixel becomes under a byte of the mask: kept under 0, else composited with the coverage of the byte.\<close>

definition mask_over :: "colour \<Rightarrow> jbyte \<Rightarrow> jint \<Rightarrow> jint \<Rightarrow> bool" where
  "mask_over c m p q \<longleftrightarrow> pixop_val (if m = 0 then Keep else srcOver_rule c (m AND 255)) p = Some q"

definition mask_pix :: "('f, 'a) renderer_scheme \<Rightarrow> jint \<Rightarrow> jint \<Rightarrow> nat \<Rightarrow> nat \<Rightarrow> jint \<Rightarrow> jint \<Rightarrow> bool" where
  "mask_pix r0 o0 mw j k p q \<longleftrightarrow>
     mask_over (cur_colour r0) (r_mask_byteData r0 ! nat (o0 + int j * mw + int k)) p q"

lemma mask_row:
  assumes "mask_rect y0 W n H o0 mw r0" "j < H" "surface_ok d" "length d = length (r_data r0)"
    and s: "s = mask_state r0 d off (o0 + int j * mw) k x (y0 + int j)"
  shows "\<exists>d'. call_paint fl alloc w 1 (s\<lparr>r_currImageOffset := i32 (r_currY s * W)\<rparr>) = Some (s\<lparr>r_currImageOffset := (y0 + int j) * W\<rparr>)
    \<and> call_rows g i (s\<lparr>r_currImageOffset := (y0 + int j) * W\<rparr>) 1 = Some (s\<lparr>r_currImageOffset := (y0 + int j) * W, r_data := d'\<rparr>)
    \<and> rows_rel d (y0 * W + r_minTouched r0 + int j * W) W n 1 (\<lambda>_. mask_pix r0 o0 mw j) d' \<and> surface_ok d'"
proof -
  note m = assms(1) [unfolded mask_rect_def]
  have W: "0 < W" using m by auto
  have len: "(y0 + int j + 1) * W \<le> int (length (r_data r0))"
  proof -
    have "(y0 + int j + 1) * W \<le> (y0 + int H) * W" using assms(2) W by (intro mult_right_mono) auto
    then show ?thesis using m by linarith
  qed
  have z: "0 \<le> (y0 + int j) * W" using m W by simp
  have e: "(y0 + int j + 1) * W = (y0 + int j) * W + W" by (simp add: algebra_simps)
  have lt: "(y0 + int j) * W + W \<le> int (length (r_data r0))" "int (length (r_data r0)) < 2147483648" using len e m by simp_all
  then have off: "i32 ((y0 + int j) * W) = (y0 + int j) * W" using z W by (intro i32_small) linarith+
  let ?t = "s\<lparr>r_currImageOffset := (y0 + int j) * W\<rparr>"
  have cp: "call_paint fl alloc w 1 (s\<lparr>r_currImageOffset := i32 (r_currY s * W)\<rparr>) = Some ?t"
    using m by (simp add: s call_paint_def off)
  have rw: "row_width ?t = n" using m by (simp add: s row_width_def)
  have rs: "row_start ?t = y0 * W + r_minTouched r0 + int j * W" by (simp add: s row_start_def algebra_simps)
  have ro: "row_ok ?t" using m lt z by (simp add: s row_ok_def assms(4))
  have mo: "mask_ok ?t 1" using m assms(2) by (simp add: mask_ok_def rw) (simp add: s)
  have co: "cur_colour ?t = cur_colour r0" by (simp add: s cur_colour_def)
  from blitSrcOverMask8888_pre_row_safe [OF ro _ mo] assms(3) m co obtain d' where
    d': "blitSrcOverMask8888_pre ?t 1 = Some (?t\<lparr>r_data := d'\<rparr>)" "surface_ok d'"
      "span_of (r_data ?t) (row_start ?t) (\<lambda>k. if r_mask_byteData ?t ! nat (r_maskOffset ?t + int k) = 0 then Keep
             else srcOver_rule (cur_colour ?t) (mask_coverage ?t k)) (row_width ?t) d'"
    by (auto simp: s)
  have dt: "r_data ?t = d" by (simp add: s)
  have pos: "0 \<le> y0 * W + r_minTouched r0 + int j * W" using z m by (simp add: algebra_simps)
  have "rows_rel d (y0 * W + r_minTouched r0 + int j * W) W n 1 (\<lambda>_. mask_pix r0 o0 mw j) d'"
    using span_rows_rel [OF d'(3) [unfolded rw rs dt] pos, of W]
    by (rule rows_rel_cong) (auto simp: mask_pix_def mask_over_def fun_eq_iff mask_coverage_def s cur_colour_def)
  moreover have "call_rows g i ?t 1 = Some (?t\<lparr>r_data := d'\<rparr>)" using m d'(1) by (simp add: call_rows_def s)
  ultimately show ?thesis using cp d'(2) by blast
qed

lemma mask_rows_drawn:
  assumes "mask_rect y0 W n H o0 mw r0" "j + h = H" "surface_ok d" "length d = length (r_data r0)"
    and "s = mask_state r0 d off (i32 (o0 + int j * mw)) k cx (i32 (y0 + int j))"
  shows "\<exists>d' off' m' k' cx' y'. mask_rows fl alloc g i x w W mw h s = Some (mask_state r0 d' off' m' k' cx' y')
    \<and> rows_rel d (y0 * W + r_minTouched r0 + int j * W) W n h (\<lambda>j'. mask_pix r0 o0 mw (j + j')) d' \<and> surface_ok d' \<and> length d' = length d"
  using assms(2-)
proof (induction h arbitrary: j d s off k cx)
  case 0
  have "mask_rows fl alloc g i x w W mw 0 s = Some (mask_state r0 d off (i32 (o0 + int j * mw)) k cx (i32 (y0 + int j)))" using 0(4) by simp
  then show ?case using 0(2) rows_rel_0 by blast
next
  case (Suc h)
  have jH: "j < H" "Suc j + h = H" using Suc.prems(1) by simp_all
  note m = assms(1) [unfolded mask_rect_def]
  have "o0 + int j * mw + int n \<le> int (length (r_mask_byteData r0))" "0 \<le> o0 + int j * mw" "int (length (r_mask_byteData r0)) < 2147483648"
    using m jH by simp_all
  then have o: "i32 (o0 + int j * mw) = o0 + int j * mw" by (intro i32_small) auto
  have "y0 + int j < 2147483648"
  proof -
    have "(y0 + int H) * 1 \<le> (y0 + int H) * W" using m by (intro mult_left_mono) auto
    also have "\<dots> \<le> int (length (r_data r0))" using m by simp
    also have "\<dots> < 2147483648" using m by simp
    finally show ?thesis using jH(1) by simp
  qed
  then have y: "i32 (y0 + int j) = y0 + int j" using m by (intro i32_small) auto
  have s: "s = mask_state r0 d off (o0 + int j * mw) k cx (y0 + int j)" using Suc.prems(4) by (simp only: o y)
  from mask_row [OF assms(1) jH(1) Suc.prems(2,3) s] obtain d1 where
    d1: "call_paint fl alloc w 1 (s\<lparr>r_currImageOffset := i32 (r_currY s * W)\<rparr>) = Some (s\<lparr>r_currImageOffset := (y0 + int j) * W\<rparr>)"
      "call_rows g i (s\<lparr>r_currImageOffset := (y0 + int j) * W\<rparr>) 1 = Some (s\<lparr>r_currImageOffset := (y0 + int j) * W, r_data := d1\<rparr>)"
      "rows_rel d (y0 * W + r_minTouched r0 + int j * W) W n 1 (\<lambda>_. mask_pix r0 o0 mw j) d1" "surface_ok d1" by blast
  let ?s1 = "mask_state r0 d1 ((y0 + int j) * W) (i32 (o0 + int (Suc j) * mw)) (i32 (k + 1)) x (i32 (y0 + int (Suc j)))"
  have st: "mask_rows fl alloc g i x w W mw (Suc h) s = mask_rows fl alloc g i x w W mw h ?s1"
    by (simp add: d1(1,2)) (rule arg_cong [where f = "mask_rows fl alloc g i x w W mw h"], cases r0, simp add: s algebra_simps)
  have l1: "length d1 = length (r_data r0)" using d1(3) Suc.prems(3) by (simp add: rows_rel_def)
  from Suc.IH [OF jH(2) d1(4) l1 refl] obtain d2 off' m' k' cx' y' where
    d2: "mask_rows fl alloc g i x w W mw h ?s1 = Some (mask_state r0 d2 off' m' k' cx' y')" "surface_ok d2" "length d2 = length d1"
      "rows_rel d1 (y0 * W + r_minTouched r0 + int (Suc j) * W) W n h (\<lambda>j'. mask_pix r0 o0 mw (Suc j + j')) d2" by blast
  have i: "y0 * W + r_minTouched r0 + int (Suc j) * W = y0 * W + r_minTouched r0 + int j * W + int 1 * W" by (simp add: algebra_simps)
  have "rows_rel d (y0 * W + r_minTouched r0 + int j * W) W n (1 + h)
      (\<lambda>j' k. if j' < 1 then mask_pix r0 o0 mw j k else mask_pix r0 o0 mw (Suc j + (j' - 1)) k) d2"
    using m by (intro rows_rel_append [OF d1(3) d2(4) [unfolded i]]) simp
  then have "rows_rel d (y0 * W + r_minTouched r0 + int j * W) W n (Suc h) (\<lambda>j'. mask_pix r0 o0 mw (j + j')) d2"
    unfolding plus_1_eq_Suc by (rule rows_rel_cong) auto
  moreover have "mask_rows fl alloc g i x w W mw (Suc h) s = Some (mask_state r0 d2 off' m' k' cx' y')" using st d2(1) by (rule trans)
  moreover have "length d2 = length d" using d2(3) l1 Suc.prems(3) by simp
  ultimately show ?case using d2(2) by blast
qed

section \<open>A mask from end to end\<close>

text \<open>The renderer at the start of the loop over the rows, on the surface with the array \<open>arr\<close>.\<close>

definition mask_first ::
    "jint list \<Rightarrow> jbyte list \<Rightarrow> jint \<Rightarrow> jint \<Rightarrow> jint \<Rightarrow> jint \<Rightarrow> jint \<Rightarrow> jint \<Rightarrow> jint \<Rightarrow> ('f, 'a) renderer_scheme \<Rightarrow> ('f, 'a) renderer_scheme option" where
  "mask_first arr jm x0 y0 x1 y1 mw mh o0 rdr =
     do { ra \<leftarrow> renderer_setMask ALPHA_MASK Pinned jm mw mh False (rdr\<lparr>rn_surface := (rn_surface rdr)\<lparr>sf_data := arr\<rparr>\<rparr>);
          let v = VALIDATE_BLITTING (INVALIDATE_RENDERER_SURFACE ra);
          Some (v\<lparr>r_minTouched := x0, r_maxTouched := x1, r_currX := x0, r_currY := y0, r_alphaWidth := i32 (x1 - x0 + 1),
              r_imageScanlineStride := sf_width (rn_surface v), r_imagePixelStride := 1, rn_rowNum := 0, r_maskOffset := o0\<rparr>) }"

lemma mask_first_ok:
  assumes "good h rdr"
  shows "\<exists>r0. mask_first arr jm x0 y0 x1 y1 mw mh o0 rdr = Some r0 \<and> r_data r0 = arr \<and> r_minTouched r0 = x0 \<and> r_maxTouched r0 = x1 \<and> r_currY r0 = y0
    \<and> r_imagePixelStride r0 = 1 \<and> r_maskOffset r0 = o0 \<and> r_mask_byteData r0 = jm \<and> cur_colour r0 = shown_colour rdr
    \<and> emitRows (rn_fn r0) = rows_for ALPHA_MASK (rn_compositeRule rdr) (rn_paintMode rdr = PAINT_FLAT_COLOR) \<and> genPaint (rn_fn r0) = paint_for (rn_paintMode rdr)
    \<and> \<not> rn_mask_free r0 \<and> sf_width (rn_surface r0) = sf_width (rn_surface rdr) \<and> r_rowAAInt r0 = r_rowAAInt rdr"
proof -
  let ?s = "rdr\<lparr>rn_surface := (rn_surface rdr)\<lparr>sf_data := arr\<rparr>\<rparr>"
  have inv: "rn_inv ?s" using goodD(1) [OF assms(1)] by (rule rn_inv_by_core) (simp add: core_def cur_colour_def)
  have nf: "\<not> rn_mask_free rdr" using goodD(2) [OF assms(1)] by (simp add: own_inv_def)
  then obtain ra where ra: "renderer_setMask ALPHA_MASK Pinned jm mw mh False ?s = Some ra"
    "ra = mark (INVALID_BLITTING_MASK OR INVALID_MASK_DEPENDED_ROUTINES)
            (?s\<lparr>rn_mask_free := False, rn_maskType := ALPHA_MASK, rn_mask := Pinned, r_mask_byteData := jm,
               rn_mask_width := mw, rn_mask_height := mh\<rparr>)" by (simp add: renderer_setMask_def free_mask_def)
  have "rn_inv ra" by (rule rn_inv_setMask [OF inv ra(1)]) (simp add: masks_def)
  from validate_surface(1) [OF this] obtain f st where
    v: "VALIDATE_BLITTING (INVALIDATE_RENDERER_SURFACE ra) = (with_colour (with_surface ra))\<lparr>rn_fn := f, rn_rendererState := st\<rparr>" "tabs_ok ra f" by blast
  have fl: "rn_maskType ra = ALPHA_MASK" "rn_compositeRule ra = rn_compositeRule rdr" "rn_paintMode ra = rn_paintMode rdr" "r_mask_byteData ra = jm"
    "\<not> rn_mask_free ra" "rn_surface ra = (rn_surface rdr)\<lparr>sf_data := arr\<rparr>" "shown_colour ra = shown_colour rdr" "r_rowAAInt ra = r_rowAAInt rdr"
    by (simp_all add: ra(2) mark_def shown_colour_def)
  have tab: "emitRows f = rows_for ALPHA_MASK (rn_compositeRule rdr) (rn_paintMode rdr = PAINT_FLAT_COLOR)" "genPaint f = paint_for (rn_paintMode rdr)"
    using v(2) by (simp_all add: tabs_ok_def paint_tab_def fl)
  have sc: "shown_colour (with_surface ra) = shown_colour ra" by (simp add: with_surface_def shown_colour_def Let_def)
  obtain a r g b where col: "shown_colour rdr = (a, r, g, b)" by (metis prod_cases4)
  show ?thesis unfolding mask_first_def ra(1) bind.bind_lunit Let_def v(1)
    by (intro exI conjI, rule refl)
       (simp_all add: with_colour_def sc fl(7) col cur_colour_def, simp_all add: with_surface_def Let_def fl tab)
qed

lemma mask_sizes:
  assumes "target_ok arr rdr" "x0 \<le> x1" "0 \<le> x0" "x1 < sf_width (rn_surface rdr)" "y0 \<le> y1" "0 \<le> y0" "y1 < sf_height (rn_surface rdr)"
  defines "n \<equiv> nat (x1 - x0 + 1)" and "H \<equiv> nat (y1 - y0 + 1)"
  shows "(y0 + int H) * sf_width (rn_surface rdr) \<le> int (length arr)" "arr \<noteq> []" "i32 (x1 - x0 + 1) = int n" "i32 (y1 - y0 + 1) = int H" "i32 y0 = y0"
    "int n = x1 - x0 + 1" "int H = y1 - y0 + 1"
proof -
  let ?W = "sf_width (rn_surface rdr)"
  show nH: "int n = x1 - x0 + 1" "int H = y1 - y0 + 1" using assms(2,5) by (simp_all add: n_def H_def)
  have t: "0 < ?W" "sf_height (rn_surface rdr) * ?W \<le> int (length arr)" "int (length arr) < 2147483648"
    using assms(1) by (simp_all add: target_ok_def mult.commute)
  have "(y0 + int H) * ?W \<le> sf_height (rn_surface rdr) * ?W" using assms(7) t(1) nH by (intro mult_right_mono) auto
  then show area: "(y0 + int H) * ?W \<le> int (length arr)" using t(2) by linarith
  have "?W \<le> (y0 + int H) * ?W" "y0 + int H \<le> (y0 + int H) * ?W"
    using assms(5,6) t(1) nH mult_right_mono [of 1 "y0 + int H" ?W] mult_left_mono [of 1 ?W "y0 + int H"] by simp_all
  then have Hp: "?W \<le> int (length arr)" "y0 + int H \<le> int (length arr)" using area by linarith+
  then show "arr \<noteq> []" using t(1) by auto
  show "i32 (x1 - x0 + 1) = int n" "i32 (y1 - y0 + 1) = int H" "i32 y0 = y0" using nH Hp t(3) assms(2-7) by (simp_all add: i32_small)
qed

lemma mask_first_rect:
  fixes rdr :: "('f, 'a) renderer_scheme"
  assumes "good h rdr" "target_ok arr rdr" "rn_compositeRule rdr = COMPOSITE_SRC_OVER" "rn_paintMode rdr = PAINT_FLAT_COLOR"
    and "colour_ok (shown_colour rdr)"
    and X: "x0 \<le> x1" "0 \<le> x0" "x1 < sf_width (rn_surface rdr)" and Y: "y0 \<le> y1" "0 \<le> y0" "y1 < sf_height (rn_surface rdr)"
    and M: "0 \<le> o0" "0 \<le> mw" "o0 + (y1 - y0) * mw + (x1 - x0 + 1) \<le> int (length jm)" "int (length jm) < 2 ^ 31"
    and r0: "mask_first arr jm x0 y0 x1 y1 mw mh o0 rdr = Some r0"
  defines "n \<equiv> nat (x1 - x0 + 1)" and "H \<equiv> nat (y1 - y0 + 1)"
  shows "mask_rect y0 (sf_width (rn_surface rdr)) n H o0 mw r0" "i32 o0 = o0"
proof -
  note sz = mask_sizes [OF assms(2) X Y, folded n_def H_def]
  have tab: "rows_for ALPHA_MASK (rn_compositeRule rdr) (rn_paintMode rdr = PAINT_FLAT_COLOR) = Some BlitSrcOverMask" "paint_for (rn_paintMode rdr) = None"
    using assms(3,4) by (simp_all add: spec_defs)
  from mask_first_ok [OF assms(1)] r0 tab have
    f: "r_data r0 = arr" "r_minTouched r0 = x0" "r_maxTouched r0 = x1" "r_imagePixelStride r0 = 1" "r_mask_byteData r0 = jm"
      "cur_colour r0 = shown_colour rdr" "emitRows (rn_fn r0) = Some BlitSrcOverMask" "genPaint (rn_fn r0) = None" by (metis option.inject)+
  have cells: "o0 + int j * mw + int n \<le> int (length jm)" if "j < H" for j
  proof -
    have "int j * mw \<le> (y1 - y0) * mw" using that sz(7) M(2) by (intro mult_right_mono) auto
    then show ?thesis using M(3) sz(6) by linarith
  qed
  have "int (length arr) < 2 ^ 31" using assms(2) by (simp add: target_ok_def)
  then show "mask_rect y0 (sf_width (rn_surface rdr)) n H o0 mw r0"
    unfolding mask_rect_def using f X Y M(1,2,4) cells sz(1,6,7) assms(5) by simp
  have "o0 + int 0 * mw + int n \<le> int (length jm)" using sz(7) Y by (intro cells) linarith
  then show "i32 o0 = o0" using M(1,4) by (simp add: i32_small)
qed

lemma fillAlphaMask_draws:
  fixes rdr :: "('f, 'a) renderer_scheme"
  assumes "good h rdr" "target_ok arr rdr" "rn_compositeRule rdr = COMPOSITE_SRC_OVER" "rn_paintMode rdr = PAINT_FLAT_COLOR"
    and "colour_ok (shown_colour rdr)"
    and X: "x0 \<le> x1" "0 \<le> x0" "x1 < sf_width (rn_surface rdr)" and Y: "y0 \<le> y1" "0 \<le> y0" "y1 < sf_height (rn_surface rdr)"
    and M: "0 \<le> o0" "0 \<le> mw" "o0 + (y1 - y0) * mw + (x1 - x0 + 1) \<le> int (length jm)" "int (length jm) < 2 ^ 31"
  shows "\<exists>arr' r. fillAlphaMask fl alloc True True g i arr x0 y0 x1 y1 ALPHA_MASK jm x mw mh o0 rdr = Some (None, arr', r)
    \<and> pixels_changed (sf_width (rn_surface rdr)) arr (\<lambda>row col. y0 \<le> row \<and> row \<le> y1 \<and> x0 \<le> col \<and> col \<le> x1)
        (\<lambda>row col. mask_over (shown_colour rdr) (jm ! nat (o0 + (row - y0) * mw + (col - x0)))) arr'
    \<and> surface_ok arr'"
proof -
  let ?W = "sf_width (rn_surface rdr)"
  define n where "n = nat (x1 - x0 + 1)"
  define H where "H = nat (y1 - y0 + 1)"
  note sz = mask_sizes [OF assms(2) X Y, folded n_def H_def]
  from mask_first_ok [OF assms(1), of arr jm x0 y0 x1 y1 mw mh o0] obtain r0 where
    r0: "mask_first arr jm x0 y0 x1 y1 mw mh o0 rdr = Some r0" "r_data r0 = arr" "r_minTouched r0 = x0" "r_maskOffset r0 = o0" "r_currY r0 = y0"
      "r_mask_byteData r0 = jm" "cur_colour r0 = shown_colour rdr" "\<not> rn_mask_free r0" "sf_width (rn_surface r0) = ?W" by blast
  note mf = mask_first_rect [OF assms(1-5) X Y M r0(1), folded n_def H_def]
  have e: "i32 (o0 + int 0 * mw) = o0" "i32 (y0 + int 0) = y0" using mf(2) sz(5) by simp_all
  have st: "r0 = mask_state r0 arr (r_currImageOffset r0) (i32 (o0 + int 0 * mw)) (rn_rowNum r0) (r_currX r0) (i32 (y0 + int 0))"
    unfolding e by (rule renderer.equality) (simp_all add: r0)
  from mask_rows_drawn [OF mf(1) add_0 _ _ st, of fl alloc g i x "int n"] r0(2,3) assms(2) obtain d' off' m' k' cx' y' where
    d: "mask_rows fl alloc g i x (int n) ?W mw H r0 = Some (mask_state r0 d' off' m' k' cx' y')"
      "rows_rel arr (y0 * ?W + x0) ?W n H (mask_pix r0 o0 mw) d'" "surface_ok d'" by (auto simp: target_ok_def)
  define r where "r = mask_state r0 d' off' m' k' cx' y'"
  define r' where "r' = mark (INVALID_BLITTING_MASK OR INVALID_MASK_DEPENDED_ROUTINES) (r\<lparr>rn_maskType := NO_MASK, rn_mask := Null, r_mask_byteData := []\<rparr>)"
  have rm: "renderer_removeMask r = Some r'" using r0(8) by (simp add: renderer_removeMask_def free_mask_def r_def r'_def)
  define body where "body = (\<lambda>rdr :: ('f, 'a) renderer_scheme. do { rdr \<leftarrow> renderer_setMask ALPHA_MASK Pinned jm mw mh False rdr;
                 let rdr = VALIDATE_BLITTING (INVALIDATE_RENDERER_SURFACE rdr);
                 let surfaceWidth = sf_width (rn_surface rdr);
                 rdr \<leftarrow> mask_rows fl alloc g i x (int n) surfaceWidth mw H
                   (rdr\<lparr>r_minTouched := x0, r_maxTouched := x1, r_currX := x0, r_currY := y0, r_alphaWidth := int n,
                      r_imageScanlineStride := surfaceWidth, r_imagePixelStride := 1, rn_rowNum := 0, r_maskOffset := o0\<rparr>);
                 rdr \<leftarrow> renderer_removeMask rdr;
                 Some (False, rdr) })"
  have "body (rdr\<lparr>rn_surface := (rn_surface rdr)\<lparr>sf_data := arr\<rparr>\<rparr>) = Some (False, r')"
    using r0(1,9) d(1) rm unfolding mask_first_def body_def sz(3,4) r_def by (auto simp: Let_def elim!: bind_SomeE)
  from draw_ok [where body = body, OF assms(2) sz(2) this]
  have "fillAlphaMask fl alloc True True g i arr x0 y0 x1 y1 ALPHA_MASK jm x mw mh o0 rdr
      = Some (None, r_data r', r'\<lparr>rn_surface := (rn_surface r')\<lparr>sf_data := r_data r'\<rparr>\<rparr>)"
    unfolding fillAlphaMask_def body_def using X Y by (simp add: sz(3,4) Let_def)
  moreover have "r_data r' = d'" by (simp add: r'_def r_def mark_def)
  moreover have "pixels_changed ?W arr (\<lambda>row col. y0 \<le> row \<and> row \<le> y1 \<and> x0 \<le> col \<and> col \<le> x1)
        (\<lambda>row col. mask_over (shown_colour rdr) (jm ! nat (o0 + (row - y0) * mw + (col - x0)))) d'"
    using X Y sz(6,7) by (intro rows_rel_changed [OF d(2)]) (auto simp: mask_pix_def r0)
  ultimately show ?thesis using d(3) by auto
qed

text \<open>The guards of \<open>fillAlphaMaskImpl\<close> against overflow do not hold for a mask that fits its array.\<close>

lemma fillAlphaMaskImpl_clips:
  fixes rdr :: "('f, 'a) renderer_scheme"
  assumes m: "0 < mw" "0 < mh" "0 \<le> off" "off + mw * mh \<le> int (length jm)" "int (length jm) < 2 ^ 31"
    and p: "- (2 ^ 31 - 1 - mw) < x" "x < 2 ^ 31 - 1 - mw" "- (2 ^ 31 - 1 - mh) < y" "y < 2 ^ 31 - 1 - mh"
    and c: "x0 = max x (rn_clip_bbMinX rdr)" "y0 = max y (rn_clip_bbMinY rdr)"
      "x1 = min (x + mw - 1) (rn_clip_bbMaxX rdr)" "y1 = min (y + mh - 1) (rn_clip_bbMaxY rdr)"
  shows "fillAlphaMaskImpl fl alloc pin pm g i arr jm x y mw mh off st rdr = (if x0 \<le> x1 \<and> y0 \<le> y1
      then fillAlphaMask fl alloc pin pm g i arr x0 y0 x1 y1 ALPHA_MASK jm x mw mh (off + (y0 - y) * mw + x0 - x) rdr
      else Some (None, arr, rdr))"
proof -
  have b0: "0 < mw" "0 < mh" "off + mw * mh \<le> INT_MAX" "mw \<le> mw * mh" "mh \<le> mw * mh" "INT_MAX = 2147483647"
    using m mult_left_mono [of 1 mh mw] mult_right_mono [of 1 mw mh] by (simp_all add: INT_MAX_def)
  then have b1: "mw \<le> 2147483647" "mh \<le> 2147483647" using m(3) by linarith+
  have e: "i32 (x + mw - 1) = x + mw - 1" "i32 (y + mh - 1) = y + mh - 1" "i32 (mw - INT_MAX) = mw - INT_MAX"
      "i32 (mh - INT_MAX) = mh - INT_MAX" "i32 (INT_MAX - mw) = INT_MAX - mw" "i32 (INT_MAX - mh) = INT_MAX - mh"
    using p b0(1,2) b1 by (simp_all add: i32_id is_i32_def INT_MAX_def)
  show ?thesis
  proof (cases "x0 \<le> x1 \<and> y0 \<le> y1")
    case False
    have "fillAlphaMask fl alloc pin pm g i arr x0 y0 x1 y1 ALPHA_MASK jm x mw mh o0 rdr = Some (None, arr, rdr)" for o0
      unfolding fillAlphaMask_def by (rule if_not_P) (use False in auto)
    then show ?thesis using False by (simp add: fillAlphaMaskImpl_def Let_def e flip: c)
  next
    case True
    have b: "0 \<le> y0 - y" "y0 - y \<le> mh - 1" "0 \<le> x0 - x" "x0 - x \<le> mw - 1" using True by (auto simp: c)
    have "(y0 - y) * mw \<le> (mh - 1) * mw" using b(2) m(1) by (intro mult_right_mono) simp_all
    also have "\<dots> = mw * mh - mw" by (simp add: algebra_simps)
    finally have rows: "(y0 - y) * mw + mw \<le> mw * mh" by simp
    have z: "0 \<le> (y0 - y) * mw" using b m by simp
    define R where "R = (y0 - y) * mw"
    have R: "off + R + mw \<le> 2147483647" "0 \<le> R" using rows z b0 by (simp_all add: R_def)
    have "mw * mh div mw \<le> INT_MAX div mw" using b0 m(3) by (intro zdiv_mono1) simp_all
    then have g1: "y0 - y < INT_MAX div mw" using b b0(1) by simp
    have sm: "i32 (y0 - y) = y0 - y" "i32 (x0 - x) = x0 - x" "i32 R = R" "i32 (INT_MAX - R) = INT_MAX - R"
      "i32 (INT_MAX - (R + x0 - x)) = INT_MAX - (R + x0 - x)" "i32 (off + R + x0 - x) = off + R + x0 - x"
      using b b1 R m(3) by (simp_all add: i32_small b0(6))
    show ?thesis using p b R m(3) g1 b0(1) True unfolding fillAlphaMaskImpl_def Let_def
      by (simp add: b0(6) e [unfolded b0(6)] sm [unfolded b0(6)] flip: c R_def)
  qed
qed

text \<open>
  \<open>fillAlphaMaskImpl\<close> of an 8-bit mask, with a flat colour and SRC_OVER. The stride \<open>st\<close> that the Java method passes and checks is never read: whatever
  it is, the rows of the mask are taken to be \<open>maskWidth\<close> bytes apart.
\<close>

lemma fillAlphaMask_unpadded:
  fixes rdr :: "('f, 'a) renderer_scheme"
  assumes "good h rdr" "target_ok arr rdr" "rn_compositeRule rdr = COMPOSITE_SRC_OVER" "rn_paintMode rdr = PAINT_FLAT_COLOR"
    and "colour_ok (shown_colour rdr)"
    and m: "0 < mw" "0 < mh" "0 \<le> off" "off + mw * mh \<le> int (length jm)" "int (length jm) < 2 ^ 31"
    and p: "- (2 ^ 31 - 1 - mw) < x" "x < 2 ^ 31 - 1 - mw" "- (2 ^ 31 - 1 - mh) < y" "y < 2 ^ 31 - 1 - mh"
  shows "\<exists>arr' r. fillAlphaMaskImpl fl alloc True True g i arr jm x y mw mh off st rdr = Some (None, arr', r)
    \<and> pixels_changed (sf_width (rn_surface rdr)) arr
        (\<lambda>row col. in_clip rdr row col \<and> y \<le> row \<and> row < y + mh \<and> x \<le> col \<and> col < x + mw)
        (\<lambda>row col. mask_over (shown_colour rdr) (jm ! nat (off + (row - y) * mw + (col - x)))) arr'
    \<and> surface_ok arr' \<and> good h r \<and> settings_of r = settings_of rdr"
proof -
  define x0 where "x0 = max x (rn_clip_bbMinX rdr)"
  define y0 where "y0 = max y (rn_clip_bbMinY rdr)"
  define x1 where "x1 = min (x + mw - 1) (rn_clip_bbMaxX rdr)"
  define y1 where "y1 = min (y + mh - 1) (rn_clip_bbMaxY rdr)"
  note e = fillAlphaMaskImpl_clips [OF m p x0_def y0_def x1_def y1_def]
  have S: "in_clip rdr row col \<and> y \<le> row \<and> row < y + mh \<and> x \<le> col \<and> col < x + mw
      \<longleftrightarrow> y0 \<le> row \<and> row \<le> y1 \<and> x0 \<le> col \<and> col \<le> x1" for row col
    by (auto simp: in_clip_def x0_def x1_def y0_def y1_def)
  show ?thesis
  proof (cases "x0 \<le> x1 \<and> y0 \<le> y1")
    case False
    then have "pixels_changed (sf_width (rn_surface rdr)) arr (\<lambda>row col. y0 \<le> row \<and> row \<le> y1 \<and> x0 \<le> col \<and> col \<le> x1) P arr" for P
      by (intro pixels_changed_empty) auto
    moreover have "surface_ok arr" using assms(2) by (simp add: target_ok_def)
    ultimately show ?thesis unfolding S e if_not_P [OF False] using assms(1) by blast
  next
    case True
    have X: "x0 \<le> x1" "0 \<le> x0" "x1 < sf_width (rn_surface rdr)" and Y: "y0 \<le> y1" "0 \<le> y0" "y1 < sf_height (rn_surface rdr)"
      using True assms(2) by (simp_all add: target_ok_def x0_def y0_def x1_def y1_def le_max_iff_disj min_less_iff_disj)
    let ?o = "off + (y0 - y) * mw + x0 - x"
    have "(y1 - y) * mw \<le> (mh - 1) * mw" using m(1) by (intro mult_right_mono) (simp_all add: y1_def)
    then have fit: "?o + (y1 - y0) * mw + (x1 - x0 + 1) \<le> int (length jm)" using m(4) by (simp add: x1_def algebra_simps)
    have at: "?o + (row - y0) * mw + (col - x0) = off + (row - y) * mw + (col - x)" for row col by (simp add: algebra_simps)
    have "0 \<le> (y0 - y) * mw" "0 \<le> x0 - x" using m(1) by (simp_all add: y0_def x0_def)
    then have O: "0 \<le> ?o" "0 \<le> mw" using m(1,3) by linarith+
    from fillAlphaMask_draws [OF assms(1-5) X Y O fit m(5), of fl alloc g i x mh, unfolded at] obtain arr' r where
      f: "fillAlphaMask fl alloc True True g i arr x0 y0 x1 y1 ALPHA_MASK jm x mw mh ?o rdr = Some (None, arr', r)"
      and c: "pixels_changed (sf_width (rn_surface rdr)) arr (\<lambda>row col. y0 \<le> row \<and> row \<le> y1 \<and> x0 \<le> col \<and> col \<le> x1)
          (\<lambda>row col. mask_over (shown_colour rdr) (jm ! nat (off + (row - y) * mw + (col - x)))) arr'" "surface_ok arr'" by blast
    have "\<exists>x0 y0 x1 y1 o'. fillAlphaMask fl alloc True True g i arr x0 y0 x1 y1 ALPHA_MASK jm x mw mh o' rdr = Some (None, arr', r)"
      using f by blast
    from good_mask [OF assms(1) disjI2 [OF this]] have "good h r \<and> settings_of r = settings_of rdr" by (simp add: masks_def)
    then show ?thesis unfolding S e if_P [OF True] f using c by blast
  qed
qed

text \<open>
  C4: text is composited exactly. With a flat colour and SRC_OVER, \<open>fillAlphaMaskImpl\<close> of an 8-bit mask whose rows follow each other without padding, so with
  a stride that is the width, as \<open>SWGraphics\<close> draws its glyphs, returns without an exception wherever the mask is laid on the surface; every pixel inside the
  clip that the mask reaches is composited with the coverage of its own byte of the mask, every other pixel of the Java array keeps its value, the surface
  stays premultiplied, the mask is released and the renderer has the settings it had. (With a larger stride the code reads the wrong bytes:
  \<open>fillAlphaMask_unpadded\<close>.)
\<close>

theorem fillAlphaMask_composites:
  fixes rdr :: "('f, 'a) renderer_scheme"
  assumes "good h rdr" "target_ok arr rdr" "rn_compositeRule rdr = COMPOSITE_SRC_OVER" "rn_paintMode rdr = PAINT_FLAT_COLOR"
    and "colour_ok (shown_colour rdr)" "st = mw"
    and m: "0 < mw" "0 < mh" "0 \<le> off" "off + st * (mh - 1) + mw \<le> int (length jm)" "int (length jm) < 2 ^ 31"
    and p: "- (2 ^ 31 - 1 - mw) < x" "x < 2 ^ 31 - 1 - mw" "- (2 ^ 31 - 1 - mh) < y" "y < 2 ^ 31 - 1 - mh"
  shows "\<exists>arr' r. fillAlphaMaskImpl fl alloc True True g i arr jm x y mw mh off st rdr = Some (None, arr', r)
    \<and> pixels_changed (sf_width (rn_surface rdr)) arr
        (\<lambda>row col. in_clip rdr row col \<and> y \<le> row \<and> row < y + mh \<and> x \<le> col \<and> col < x + mw)
        (\<lambda>row col. mask_over (shown_colour rdr) (jm ! nat (off + (row - y) * st + (col - x)))) arr'
    \<and> surface_ok arr' \<and> good h r \<and> settings_of r = settings_of rdr"
proof -
  have "off + mw * mh \<le> int (length jm)" using m(4) \<open>st = mw\<close> by (simp add: algebra_simps)
  from fillAlphaMask_unpadded [OF assms(1-5) m(1-3) this m(5) p] show ?thesis by (simp only: \<open>st = mw\<close>)
qed

lemma sample_good: "good {} sample_renderer"
  using reach_good [OF sample_reach] by (simp add: JavaSurface_initialize_def)

theorem fillAlphaMask_composites_witness:
  "\<exists>arr' r. fillAlphaMaskImpl exact_arith (\<lambda>_. True) True True [] [] (replicate 16 0) [0, 127, - 1, 64] 3 1 2 2 0 2 sample_renderer = Some (None, arr', r)
    \<and> arr' ! 7 = 0 \<and> mask_over (200, 10, 20, 30) (- 1) 0 (arr' ! 11) \<and> arr' ! 12 = 0"
proof -
  have "colour_ok (shown_colour sample_renderer)" by (simp add: sample_renderer_fields colour_ok_def is_chan_def)
  from fillAlphaMask_composites [OF sample_good sample_target sample_renderer_fields(1,2) this,
      of 2 2 2 0 "[0, 127, - 1, 64]" 3 1 exact_arith "\<lambda>_. True" "[]" "[]"] obtain arr' r where
    f: "fillAlphaMaskImpl exact_arith (\<lambda>_. True) True True [] [] (replicate 16 0) [0, 127, - 1, 64] 3 1 2 2 0 2 sample_renderer = Some (None, arr', r)"
    and c: "pixels_changed 4 (replicate 16 0) (\<lambda>row col. in_clip sample_renderer row col \<and> 1 \<le> row \<and> row < 3 \<and> 3 \<le> col \<and> col < 5)
      (\<lambda>row col. mask_over (200, 10, 20, 30) ([0, 127, - 1, 64] ! nat ((row - 1) * 2 + (col - 3)))) arr'"
    by (auto simp: sample_renderer_fields JavaSurface_initialize_def)
  note px = c [unfolded pixels_changed_def Let_def, THEN conjunct2, rule_format]
  have "arr' ! nat (1 * 4 + 3) = 0" "mask_over (200, 10, 20, 30) (- 1) 0 (arr' ! nat (2 * 4 + 3))" "arr' ! nat (3 * 4 + 0) = 0"
    using px [of 1 3] px [of 2 3] px [of 3 0] by (simp_all add: sample_renderer_fields in_clip_def mask_over_def)
  with f show ?thesis by auto
qed

lemma blit_aa_null: "r_rowAAInt rdr = [] \<Longrightarrow> 0 < touchedWidth rdr \<Longrightarrow> blit_aa f rdr 1 = None"
  using gr0_conv_Suc [of "nat (touchedWidth rdr)"] by (auto simp: blit_aa_def aa_step_def aget_def)

lemma call_rows_null:
  assumes "emitRows (rn_fn rdr) = Some BlitSrc" "r_rowAAInt rdr = []" "0 < touchedWidth rdr"
  shows "do { r \<leftarrow> call_paint fl alloc w 1 rdr; r \<leftarrow> call_rows g i r 1; k r } = None"
proof (cases "call_paint fl alloc w 1 rdr")
  case (Some r)
  from call_paint_frame [OF Some] obtain p where r: "r = rdr\<lparr>r_paint := p\<rparr>" by blast
  have "blit_aa f r 1 = None" for f using assms(2,3) by (intro blit_aa_null) (simp_all add: r touchedWidth_def split: if_split_asm)
  then show ?thesis using assms(1) Some by (simp add: call_rows_def blitSrc8888_pre_def r)
qed simp

text \<open>
  C38: under the rule CLEAR a mask crashes the renderer. \<open>updateCompositeDependedRoutines\<close> selects the routine that reads the row of coverage
  deltas for every kind of mask; \<open>fillAlphaMaskImpl\<close> provides no such row, so when the clipped mask is not empty the
  routine reads through a NULL pointer.
\<close>

theorem clear_mask_crashes:
  fixes rdr :: "('f, 'a) renderer_scheme"
  assumes "good h rdr" "target_ok arr rdr" "rn_compositeRule rdr = COMPOSITE_CLEAR" "r_rowAAInt rdr = []"
    and m: "0 < mw" "0 < mh" "0 \<le> off" "off + mw * mh \<le> int (length jm)" "int (length jm) < 2 ^ 31"
    and p: "- (2 ^ 31 - 1 - mw) < x" "x < 2 ^ 31 - 1 - mw" "- (2 ^ 31 - 1 - mh) < y" "y < 2 ^ 31 - 1 - mh"
    and "in_clip rdr row col" "y \<le> row" "row < y + mh" "x \<le> col" "col < x + mw"
  shows "fillAlphaMaskImpl fl alloc True True g i arr jm x y mw mh off st rdr = None"
proof -
  define x0 where "x0 = max x (rn_clip_bbMinX rdr)"
  define y0 where "y0 = max y (rn_clip_bbMinY rdr)"
  define x1 where "x1 = min (x + mw - 1) (rn_clip_bbMaxX rdr)"
  define y1 where "y1 = min (y + mh - 1) (rn_clip_bbMaxY rdr)"
  have ne: "x0 \<le> x1 \<and> y0 \<le> y1" using assms(14-) by (auto simp: in_clip_def x0_def x1_def y0_def y1_def)
  then have X: "x0 \<le> x1" "0 \<le> x0" "x1 < sf_width (rn_surface rdr)" and Y: "y0 \<le> y1" "0 \<le> y0" "y1 < sf_height (rn_surface rdr)"
    using assms(2) by (simp_all add: target_ok_def x0_def y0_def x1_def y1_def le_max_iff_disj min_less_iff_disj)
  let ?o = "off + (y0 - y) * mw + x0 - x"
  note sz = mask_sizes [OF assms(2) X Y]
  from mask_first_ok [OF assms(1), of arr jm x0 y0 x1 y1 mw mh ?o] obtain r0 where
    r0: "mask_first arr jm x0 y0 x1 y1 mw mh ?o rdr = Some r0" "r_minTouched r0 = x0" "r_maxTouched r0 = x1"
      "emitRows (rn_fn r0) = rows_for ALPHA_MASK (rn_compositeRule rdr) (rn_paintMode rdr = PAINT_FLAT_COLOR)" "r_rowAAInt r0 = r_rowAAInt rdr" by blast
  have "emitRows (rn_fn r0) = Some BlitSrc" using r0(4) assms(3) by (simp add: rows_for_def)
  moreover have "0 < touchedWidth r0" using X sz(3) by (simp add: touchedWidth_def r0)
  moreover obtain n where n: "nat (i32 (y1 - y0 + 1)) = Suc n" using sz(4,7) Y by (cases "nat (i32 (y1 - y0 + 1))") auto
  ultimately have rows: "mask_rows fl alloc g i x w W mw (nat (i32 (y1 - y0 + 1))) r0 = None" for w W
    using assms(4) r0(5) unfolding n mask_rows.simps by (intro call_rows_null) (simp_all add: touchedWidth_def split: if_split_asm)
  show ?thesis unfolding fillAlphaMaskImpl_clips [OF m p x0_def y0_def x1_def y1_def] if_P [OF ne]
    using rows r0(1) ne sz(2)
    by (auto simp: fillAlphaMask_def draw_def drawing_def surface_acquire_ok [OF assms(2)] Let_def mask_first_def elim!: bind_SomeE)
qed

theorem clear_mask_crashes_witness:
  "fillAlphaMaskImpl exact_arith (\<lambda>_. True) True True [] [] (replicate 16 0) [0, 127, - 1, 64] 3 1 2 2 0 2
     (renderer_setCompositeRule COMPOSITE_CLEAR sample_renderer) = None"
proof -
  have g: "good {} (renderer_setCompositeRule COMPOSITE_CLEAR sample_renderer)"
    using good_setCompositeRule [OF sample_good] by (simp add: rules_def)
  have f: "rn_compositeRule (renderer_setCompositeRule COMPOSITE_CLEAR sample_renderer) = COMPOSITE_CLEAR"
    "r_rowAAInt (renderer_setCompositeRule COMPOSITE_CLEAR sample_renderer) = []"
    "in_clip (renderer_setCompositeRule COMPOSITE_CLEAR sample_renderer) row col = in_clip sample_renderer row col"
    "target_ok arr (renderer_setCompositeRule COMPOSITE_CLEAR sample_renderer) = target_ok arr sample_renderer" for row col arr
    by (simp_all add: renderer_setCompositeRule_def mark_def Let_def in_clip_def target_ok_def)
       (simp add: sample_renderer_def renderer_setColor_def setPaintMode_def createCommon_def mark_def Let_def)
  show ?thesis
    by (rule clear_mask_crashes [OF g _ f(1,2), where row = 1 and col = 3])
       (simp_all add: f sample_target, simp_all add: in_clip_def sample_renderer_fields)
qed

end
