(* ===== verification/PiscesSurface.thy ===== *)
theory PiscesSurface
  imports PiscesRect
begin

unbundle bit_operations_syntax

text \<open>
  Surfaces as Java sees them: \<open>AbstractSurface.java\<close> and \<open>JavaSurface.java\<close> with the native methods of
  \<open>native-prism-sw/JAbstractSurface.c\<close>, \<open>JJavaSurface.c\<close> and \<open>PiscesSurface.inl\<close>. Java arrays live in a store, because the
  array a caller passes may be the array behind the surface; the native structures live in a second store, from which
  \<open>disposeNative\<close> removes them. A critical section of the virtual machine gives the array itself, not a copy.
\<close>

section \<open>Model\<close>

type_synonym aref = nat
type_synonym arrays = "aref \<Rightarrow> jint list"

text \<open>The stores, and the flag of \<open>PiscesSysutils.c\<close>.\<close>

record jvm =
  jv_arrays :: arrays
  jv_native :: "nat \<rightharpoonup> surface"
  jv_memError :: bool

text \<open>
  A \<open>JavaSurface\<close> object: the address of its native structure (0 is \<open>NULL\<close>), its size, its array, the handle that the record of
  the disposer keeps, and whether Java can still reach it.
\<close>

record jsurface =
  js_nativePtr :: nat
  js_width :: jint
  js_height :: jint
  js_dataInt :: aref
  js_handle :: nat
  js_reachable :: bool

subsection \<open>Creation and disposal\<close>

fun bit_length :: "nat \<Rightarrow> nat" where
  "bit_length n = (if n = 0 then 0 else Suc (bit_length (n div 2)))"

declare bit_length.simps [simp del]

definition numberOfLeadingZeros :: "jint \<Rightarrow> jint" where
  "numberOfLeadingZeros x = (if x < 0 then 0 else 32 - int (bit_length (nat x)))"

definition nbits :: "jint \<Rightarrow> jint \<Rightarrow> jint" where
  "nbits a b = 32 - numberOfLeadingZeros a + 32 - numberOfLeadingZeros b"

definition AbstractSurface_check :: "jint \<Rightarrow> jint \<Rightarrow> jexn option" where
  "AbstractSurface_check width height =
     (if width < 0 \<or> height < 0 \<or> nbits width height > 31 then Some IllegalArgumentException else None)"

text \<open>
  \<open>initialize\<close> of \<open>JJavaSurface.c\<close>: \<open>ids\<close> is the success of the look-up of the field ids and \<open>p\<close> the result of \<open>my_malloc\<close>.
\<close>

definition initialize :: "bool \<Rightarrow> nat \<Rightarrow> jint \<Rightarrow> jint \<Rightarrow> jint \<Rightarrow> jvm \<Rightarrow> (jexn + nat) \<times> jvm" where
  "initialize ids p dataType width height v =
     (if \<not> ids then (Inl IllegalStateException, v)
      else if p = 0 then (Inl OutOfMemoryError, v)
      else (Inr p, v\<lparr>jv_native := (jv_native v)(p \<mapsto> JavaSurface_initialize dataType width height)\<rparr>))"

definition JavaSurface_new ::
    "bool \<Rightarrow> nat \<Rightarrow> aref \<Rightarrow> jint \<Rightarrow> jint \<Rightarrow> jint \<Rightarrow> jvm \<Rightarrow> (jexn + jsurface) \<times> jvm" where
  "JavaSurface_new ids p dataInt dataType width height v =
     (case AbstractSurface_check width height of
        Some e \<Rightarrow> (Inl e, v)
      | None \<Rightarrow>
          if width = 0 then (Inl ArithmeticException, v)
          else if int (length (jv_arrays v dataInt)) div width < height then (Inl IllegalArgumentException, v)
          else (case initialize ids p dataType width height v of
                  (Inl e, v) \<Rightarrow> (Inl e, v)
                | (Inr q, v) \<Rightarrow>
                    (Inr \<lparr>js_nativePtr = q, js_width = width, js_height = height, js_dataInt = dataInt, js_handle = q, js_reachable = True\<rparr>, v)))"

text \<open>\<open>free\<close> of a block that is not allocated is undefined.\<close>

definition disposeNative :: "nat \<Rightarrow> jvm \<Rightarrow> jvm option" where
  "disposeNative p v =
     (if p = 0 then Some v
      else if jv_native v p = None then None else Some (v\<lparr>jv_native := (jv_native v)(p := None)\<rparr>))"

definition record_dispose :: "jsurface \<Rightarrow> jvm \<Rightarrow> (jsurface \<times> jvm) option" where
  "record_dispose s v =
     (if js_handle s \<noteq> 0 then do { v \<leftarrow> disposeNative (js_handle s) v; Some (s\<lparr>js_handle := 0\<rparr>, v) } else Some (s, v))"

subsection \<open>Copying pixels\<close>

text \<open>
  The pointer loop that \<open>getRGBImpl\<close> and \<open>setRGB\<close> share: \<open>*dst++ = *src++\<close> for the pixels of a row, then both pointers skip
  the rest of their row. A pointer is an array (\<open>None\<close> is \<open>NULL\<close>) and an index.
\<close>

definition copy_pixel :: "aref option \<Rightarrow> aref option \<Rightarrow> arrays \<times> int \<times> int \<Rightarrow> (arrays \<times> int \<times> int) option" where
  "copy_pixel src dst = (\<lambda>(h, i, j).
     do { a \<leftarrow> src; v \<leftarrow> aget (h a) i; b \<leftarrow> dst; l \<leftarrow> aset (h b) j v; Some (h(b := l), i + 1, j + 1) })"

definition copy_pixel_row :: "aref option \<Rightarrow> jint \<Rightarrow> aref option \<Rightarrow> jint \<Rightarrow> jint \<Rightarrow> arrays \<times> int \<times> int \<Rightarrow> (arrays \<times> int \<times> int) option" where
  "copy_pixel_row src srcScanRest dst dstScanRest width st =
     do { (h, i, j) \<leftarrow> iter_opt (nat width) (copy_pixel src dst) st; Some (h, i + srcScanRest, j + dstScanRest) }"

definition copy_rows :: "aref option \<Rightarrow> jint \<Rightarrow> aref option \<Rightarrow> jint \<Rightarrow> jint \<Rightarrow> jint \<Rightarrow> arrays \<times> int \<times> int \<Rightarrow> (arrays \<times> int \<times> int) option" where
  "copy_rows src srcScanRest dst dstScanRest width height = iter_opt (nat height) (copy_pixel_row src srcScanRest dst dstScanRest width)"

definition setRGB_loop ::
    "aref option \<Rightarrow> int \<Rightarrow> jint \<Rightarrow> aref option \<Rightarrow> int \<Rightarrow> jint \<Rightarrow> jint \<Rightarrow> jint \<Rightarrow> arrays \<Rightarrow> arrays option" where
  "setRGB_loop dst dstStart dstScanLength src srcStart srcScanLength width height h =
     map_option fst (copy_rows src (i32 (srcScanLength - width)) dst (i32 (dstScanLength - width)) width height (h, srcStart, dstStart))"

text \<open>The data pointer of a surface whose array is \<open>r\<close>.\<close>

definition data_ptr :: "aref \<Rightarrow> surface \<Rightarrow> aref option" where
  "data_ptr r s = (if sf_data s = [] then None else Some r)"

definition surface_setRGB ::
    "aref \<Rightarrow> surface \<Rightarrow> jint \<Rightarrow> jint \<Rightarrow> jint \<Rightarrow> jint \<Rightarrow> aref \<Rightarrow> int \<Rightarrow> jint \<Rightarrow> arrays \<Rightarrow> arrays option" where
  "surface_setRGB r s x y width height data dataStart scanLength h =
     (if data_ptr r s = None then Some h
      else setRGB_loop (data_ptr r s) (i32 (y * sf_width s + x)) (sf_width s) (Some data) dataStart scanLength width height h)"

subsection \<open>The native methods\<close>

text \<open>
  The checks that \<open>getRGBImpl\<close> and \<open>setRGBImpl\<close> make alike, on an array of \<open>len\<close> cells: an exception, nothing to copy, or the
  first index in the array.
\<close>

definition rgb_start :: "surface \<Rightarrow> int \<Rightarrow> jint \<Rightarrow> jint \<Rightarrow> jint \<Rightarrow> jint \<Rightarrow> jint \<Rightarrow> jint \<Rightarrow> jexn + jint option" where
  "rgb_start s len offset scanLength x y width height =
     (if x < 0 \<or> x \<ge> sf_width s \<or> y < 0 \<or> y \<ge> sf_height s \<or>
         width < 0 \<or> width > i32 (sf_width s - x) \<or> height < 0 \<or> height > i32 (sf_height s - y) \<or>
         scanLength < width then Inl IllegalArgumentException
      else if \<not> (width > 0 \<and> height > 0) then Inr None
      else if 0 > cdiv (i32 (INT_MAX - offset)) scanLength then Inl IllegalArgumentException
      else
        let start = i32 offset
        in if scanLength > cdiv (i32 (INT_MAX - start)) height then Inl IllegalArgumentException
           else
             let last_i = i32 (start + height * scanLength - 1)
             in if start < 0 \<or> start \<ge> len \<or> last_i < 0 \<or> last_i \<ge> len then Inl IllegalArgumentException
                else Inr (Some start))"

text \<open>
  The frame of both methods: the checks, the critical section on the caller's array, \<open>ACQUIRE_SURFACE\<close>, the copy,
  \<open>RELEASE_SURFACE\<close> and the exception for the memory flag. \<open>pin\<close> and \<open>pinData\<close> are the answers of the virtual machine.
\<close>

definition rgb_call ::
    "bool \<Rightarrow> bool \<Rightarrow> (surface \<Rightarrow> jint \<Rightarrow> arrays \<Rightarrow> arrays option) \<Rightarrow>
     jsurface \<Rightarrow> aref \<Rightarrow> jint \<Rightarrow> jint \<Rightarrow> jint \<Rightarrow> jint \<Rightarrow> jint \<Rightarrow> jint \<Rightarrow> jvm \<Rightarrow> (jexn option \<times> jvm) option" where
  "rgb_call pin pinData copy this argb offset scanLength x y width height v =
     (if js_nativePtr this = 0 then Some (Some IllegalArgumentException, v)
      else do {
        s \<leftarrow> jv_native v (js_nativePtr this);
        case rgb_start s (int (length (jv_arrays v argb))) offset scanLength x y width height of
          Inl e \<Rightarrow> Some (Some e, v)
        | Inr None \<Rightarrow> Some (None, v)
        | Inr (Some start) \<Rightarrow>
            if \<not> pin then Some (Some OutOfMemoryError, v)
            else do {
              (s, mem, ex) \<leftarrow> surface_acquire pinData (jv_arrays v (js_dataInt this)) s;
              let flag = (jv_memError v \<or> mem);
              h \<leftarrow> (if flag then Some (jv_arrays v) else copy s start (jv_arrays v));
              Some (if flag \<and> ex = None then Some OutOfMemoryError else ex,
                    v\<lparr>jv_arrays := h, jv_native := (jv_native v)(js_nativePtr this \<mapsto> s), jv_memError := False\<rparr>) } })"

definition getRGBImpl ::
    "bool \<Rightarrow> bool \<Rightarrow> jsurface \<Rightarrow> aref \<Rightarrow> jint \<Rightarrow> jint \<Rightarrow> jint \<Rightarrow> jint \<Rightarrow> jint \<Rightarrow> jint \<Rightarrow> jvm \<Rightarrow> (jexn option \<times> jvm) option" where
  "getRGBImpl pin pinData this argb offset scanLength x y width height =
     rgb_call pin pinData
       (\<lambda>s dstStart h. map_option fst
          (copy_rows (data_ptr (js_dataInt this) s) (i32 (sf_width s - width)) (Some argb) (i32 (scanLength - width)) width height
             (h, i32 (y * sf_width s + x), dstStart)))
       this argb offset scanLength x y width height"

definition setRGBImpl ::
    "bool \<Rightarrow> bool \<Rightarrow> jsurface \<Rightarrow> aref \<Rightarrow> jint \<Rightarrow> jint \<Rightarrow> jint \<Rightarrow> jint \<Rightarrow> jint \<Rightarrow> jint \<Rightarrow> jvm \<Rightarrow> (jexn option \<times> jvm) option" where
  "setRGBImpl pin pinData this argb offset scanLength x y width height =
     rgb_call pin pinData
       (\<lambda>s srcStart h. surface_setRGB (js_dataInt this) s x y width height argb srcStart scanLength h)
       this argb offset scanLength x y width height"

text \<open>The methods of \<open>AbstractSurface.java\<close>, which check the arguments first.\<close>

definition rgbCheck :: "jsurface \<Rightarrow> int \<Rightarrow> jint \<Rightarrow> jint \<Rightarrow> jint \<Rightarrow> jint \<Rightarrow> jint \<Rightarrow> jint \<Rightarrow> bool" where
  "rgbCheck this arr_length offset scanLength x y width height \<longleftrightarrow>
     0 \<le> x \<and> x < js_width this \<and> 0 \<le> y \<and> y < js_height this \<and> 0 \<le> width \<and> 0 \<le> height
     \<and> i32 (x + width) \<le> js_width this \<and> i32 (y + height) \<le> js_height this
     \<and> 0 \<le> offset \<and> 0 \<le> scanLength \<and> width \<le> scanLength \<and> nbits scanLength height \<le> 31
     \<and> i32 (offset + scanLength * (height - 1) + width) \<le> arr_length"

definition getRGB ::
    "bool \<Rightarrow> bool \<Rightarrow> jsurface \<Rightarrow> aref \<Rightarrow> jint \<Rightarrow> jint \<Rightarrow> jint \<Rightarrow> jint \<Rightarrow> jint \<Rightarrow> jint \<Rightarrow> jvm \<Rightarrow> (jexn option \<times> jvm) option" where
  "getRGB pin pinData this argb offset scanLength x y width height v =
     (if rgbCheck this (int (length (jv_arrays v argb))) offset scanLength x y width height
      then getRGBImpl pin pinData this argb offset scanLength x y width height v else Some (Some IllegalArgumentException, v))"

definition setRGB ::
    "bool \<Rightarrow> bool \<Rightarrow> jsurface \<Rightarrow> aref \<Rightarrow> jint \<Rightarrow> jint \<Rightarrow> jint \<Rightarrow> jint \<Rightarrow> jint \<Rightarrow> jint \<Rightarrow> jvm \<Rightarrow> (jexn option \<times> jvm) option" where
  "setRGB pin pinData this argb offset scanLength x y width height v =
     (if rgbCheck this (int (length (jv_arrays v argb))) offset scanLength x y width height
      then setRGBImpl pin pinData this argb offset scanLength x y width height v else Some (Some IllegalArgumentException, v))"

section \<open>The copy loop\<close>

text \<open>Lengths never change, so that the loop stays in the arrays whichever they are.\<close>

definition same_lengths :: "arrays \<Rightarrow> arrays \<Rightarrow> bool" where
  "same_lengths h h' \<longleftrightarrow> (\<forall>r. length (h' r) = length (h r))"

lemma same_lengths_refl [simp]: "same_lengths h h"
  and same_lengths_trans: "same_lengths h h1 \<Longrightarrow> same_lengths h1 h2 \<Longrightarrow> same_lengths h h2"
  by (simp_all add: same_lengths_def)

lemma copy_pixel_at:
  assumes "0 \<le> i" "i < int (length (h a))" "0 \<le> j" "j < int (length (h b))"
  shows "copy_pixel (Some a) (Some b) (h, i, j) = Some (h(b := (h b)[nat j := h a ! nat i]), i + 1, j + 1)"
  using assms by (simp add: copy_pixel_def array_simps)

text \<open>
  What \<open>n\<close> steps have done: the pointers have moved, the lengths are kept, only the target array differs, and when the
  arrays differ, the cells hold what the source holds.
\<close>

definition copied :: "aref \<Rightarrow> aref \<Rightarrow> arrays \<Rightarrow> int \<Rightarrow> int \<Rightarrow> int \<Rightarrow> int \<Rightarrow> nat \<Rightarrow> nat \<Rightarrow> arrays \<Rightarrow> bool" where
  "copied a b h i sw j dw n m h' \<longleftrightarrow> same_lengths h h' \<and> (\<forall>r. r \<noteq> b \<longrightarrow> h' r = h r)
     \<and> (a \<noteq> b \<longrightarrow> rows_rel (h b) j dw n m (\<lambda>r k p q. q = h a ! nat (i + int r * sw + int k)) (h' b))"

lemma copied_pixel:
  assumes "copied a b h i sw j dw n 1 h'" "0 \<le> i" "i + int n < int (length (h a))" "0 \<le> j" "j + int n < int (length (h b))"
  shows "\<exists>h''. copy_pixel (Some a) (Some b) (h', i + int n, j + int n) = Some (h'', i + int (Suc n), j + int (Suc n))
    \<and> copied a b h i sw j dw (Suc n) 1 h''"
proof -
  have l: "length (h' r) = length (h r)" for r using assms(1) by (simp add: copied_def same_lengths_def)
  let ?h = "h'(b := (h' b)[nat (j + int n) := h' a ! nat (i + int n)])"
  have "copy_pixel (Some a) (Some b) (h', i + int n, j + int n) = Some (?h, i + int (Suc n), j + int (Suc n))"
    using assms(2-5) by (simp add: copy_pixel_at l)
  moreover have "rows_rel (h b) j dw (Suc n) 1 (\<lambda>r k p q. q = h a ! nat (i + int r * sw + int k)) (?h b)" if "a \<noteq> b"
    unfolding rows_rel_def
  proof (intro conjI allI impI)
    have r: "rows_rel (h b) j dw n 1 (\<lambda>r k p q. q = h a ! nat (i + int r * sw + int k)) (h' b)" and ha: "h' a = h a"
      using assms(1) that by (simp_all add: copied_def)
    note r = r [unfolded rows_rel_def]
    show "length (?h b) = length (h b)" by (simp add: l)
    fix x assume x: "x < length (h b)"
    show "?h b ! x = h a ! nat (i + int r * sw + int k)" if "r < 1" "k < Suc n" "int x = j + int r * dw + int k" for r k
    proof (cases "k = n")
      case True
      with that have "x = nat (j + int n)" by simp
      with True that x l ha show ?thesis by simp
    next
      case False
      with that have "nat (j + int n) \<noteq> x" "k < n" using assms(4) by auto
      with r x that show ?thesis by simp
    qed
    show "?h b ! x = h b ! x" if "\<forall>r < 1. \<forall>k < Suc n. int x \<noteq> j + int r * dw + int k"
    proof -
      have "nat (j + int n) \<noteq> x" using that assms(4) by auto
      with r x that show ?thesis by simp
    qed
  qed
  then have "copied a b h i sw j dw (Suc n) 1 ?h" using assms(1) by (simp add: copied_def same_lengths_def)
  ultimately show ?thesis by blast
qed

lemma copied_row:
  assumes "0 \<le> i" "i + int n \<le> int (length (h a))" "0 \<le> j" "j + int n \<le> int (length (h b))"
  shows "\<exists>h'. iter_opt n (copy_pixel (Some a) (Some b)) (h, i, j) = Some (h', i + int n, j + int n) \<and> copied a b h i sw j dw n 1 h'"
proof -
  have "\<exists>st. iter_opt n (copy_pixel (Some a) (Some b)) (h, i, j) = Some st \<and> (\<exists>h'. st = (h', i + int n, j + int n) \<and> copied a b h i sw j dw n 1 h')"
  proof (rule iter_opt_counter_inv)
    show "\<exists>h'. (h, i, j) = (h', i + int 0, j + int 0) \<and> copied a b h i sw j dw 0 1 h'"
      by (simp add: copied_def rows_rel_def)
    fix k st assume k: "k < n" "\<exists>h'. st = (h', i + int k, j + int k) \<and> copied a b h i sw j dw k 1 h'"
    then obtain h' where "st = (h', i + int k, j + int k)" "copied a b h i sw j dw k 1 h'" by blast
    with copied_pixel [of a b h i sw j dw k h'] assms k(1)
    show "\<exists>st'. copy_pixel (Some a) (Some b) st = Some st' \<and> (\<exists>h'. st' = (h', i + int (Suc k), j + int (Suc k)) \<and> copied a b h i sw j dw (Suc k) 1 h')"
      by auto
  qed
  then show ?thesis by blast
qed

lemma copied_append:
  assumes "copied a b h i sw j dw n m h1" "copied a b h1 (i + int m * sw) sw (j + int m * dw) dw n 1 h2" "int n \<le> dw"
  shows "copied a b h i sw j dw n (Suc m) h2"
proof -
  have "rows_rel (h b) j dw n (Suc m) (\<lambda>r k p q. q = h a ! nat (i + int r * sw + int k)) (h2 b)" if "a \<noteq> b"
  proof -
    have "h1 a = h a" using assms(1) that by (simp add: copied_def)
    with assms that have r: "rows_rel (h b) j dw n m (\<lambda>r k p q. q = h a ! nat (i + int r * sw + int k)) (h1 b)"
      "rows_rel (h1 b) (j + int m * dw) dw n 1 (\<lambda>r k p q. q = h a ! nat (i + int m * sw + int r * sw + int k)) (h2 b)"
      by (simp_all add: copied_def)
    have "rows_rel (h b) j dw n (m + 1) (\<lambda>r k p q. q = h a ! nat (i + int r * sw + int k)) (h2 b)"
      by (rule rows_rel_cong [OF rows_rel_append [OF r assms(3)]]) (auto simp: less_Suc_eq)
    then show ?thesis by simp
  qed
  with assms(1,2) show ?thesis by (auto simp: copied_def same_lengths_def)
qed

lemma copied_rows:
  assumes "0 \<le> i" "i + int m * sw + int n \<le> int (length (h a)) + sw" "0 \<le> j" "j + int m * dw + int n \<le> int (length (h b)) + dw"
    and "int n \<le> sw" "int n \<le> dw"
  shows "\<exists>h'. copy_rows (Some a) (sw - int n) (Some b) (dw - int n) (int n) (int m) (h, i, j) = Some (h', i + int m * sw, j + int m * dw)
    \<and> copied a b h i sw j dw n m h'"
proof -
  have fits: "i + int k * sw + int n \<le> int (length (h a))" "j + int k * dw + int n \<le> int (length (h b))" if "k < m" for k
  proof -
    have "int (Suc k) * sw \<le> int m * sw" "int (Suc k) * dw \<le> int m * dw" using that assms(5,6) by (intro mult_right_mono; simp)+
    then show "i + int k * sw + int n \<le> int (length (h a))" "j + int k * dw + int n \<le> int (length (h b))"
      using assms(2,4) by (simp_all add: algebra_simps)
  qed
  have "\<exists>st. iter_opt m (copy_pixel_row (Some a) (sw - int n) (Some b) (dw - int n) (int n)) (h, i, j) = Some st
      \<and> (\<exists>h'. st = (h', i + int m * sw, j + int m * dw) \<and> copied a b h i sw j dw n m h')"
  proof (rule iter_opt_counter_inv)
    show "\<exists>h'. (h, i, j) = (h', i + int 0 * sw, j + int 0 * dw) \<and> copied a b h i sw j dw n 0 h'"
      by (simp add: copied_def rows_rel_0)
    fix k st assume k: "k < m" "\<exists>h'. st = (h', i + int k * sw, j + int k * dw) \<and> copied a b h i sw j dw n k h'"
    then obtain h1 where h1: "st = (h1, i + int k * sw, j + int k * dw)" "copied a b h i sw j dw n k h1" by blast
    then have l: "length (h1 r) = length (h r)" for r by (simp add: copied_def same_lengths_def)
    have "0 \<le> i + int k * sw" "0 \<le> j + int k * dw" using assms(1,3,5,6) by simp_all
    with copied_row [of "i + int k * sw" n h1 a "j + int k * dw" b sw dw] fits [OF k(1)] obtain h2 where
      h2: "iter_opt n (copy_pixel (Some a) (Some b)) st = Some (h2, i + int k * sw + int n, j + int k * dw + int n)"
        "copied a b h1 (i + int k * sw) sw (j + int k * dw) dw n 1 h2" by (auto simp: l h1(1))
    have "copy_pixel_row (Some a) (sw - int n) (Some b) (dw - int n) (int n) st = Some (h2, i + int (Suc k) * sw, j + int (Suc k) * dw)"
      by (simp add: copy_pixel_row_def h2(1) algebra_simps)
    with copied_append [OF h1(2) h2(2) assms(6)]
    show "\<exists>st'. copy_pixel_row (Some a) (sw - int n) (Some b) (dw - int n) (int n) st = Some st'
        \<and> (\<exists>h'. st' = (h', i + int (Suc k) * sw, j + int (Suc k) * dw) \<and> copied a b h i sw j dw n (Suc k) h')" by blast
  qed
  then show ?thesis by (auto simp: copy_rows_def)
qed

section \<open>The checks\<close>

text \<open>A rectangle of the surface with a scan length that covers it, and a buffer that holds all its rows in full.\<close>

definition rect_in :: "int \<Rightarrow> int \<Rightarrow> jint \<Rightarrow> jint \<Rightarrow> jint \<Rightarrow> jint \<Rightarrow> jint \<Rightarrow> bool" where
  "rect_in W H scanLength x y width height \<longleftrightarrow> 0 \<le> x \<and> x < W \<and> 0 \<le> y \<and> y < H \<and> 0 \<le> width \<and> x + width \<le> W \<and> 0 \<le> height \<and> y + height \<le> H
     \<and> width \<le> scanLength"

definition buffer_holds :: "int \<Rightarrow> jint \<Rightarrow> jint \<Rightarrow> jint \<Rightarrow> bool" where
  "buffer_holds len offset scanLength height \<longleftrightarrow> 0 \<le> offset \<and> offset + height * scanLength \<le> len"

lemma INT_MAX_wrap: "is_i32 k \<Longrightarrow> i32 (INT_MAX - k) = (if 0 \<le> k then INT_MAX - k else - 2147483649 - k)"
proof (cases "0 \<le> k")
  case False
  assume k: "is_i32 k"
  have "i32 (INT_MAX - k) = i32 (- 2147483649 - k)" unfolding i32_cong by (simp add: INT_MAX_def mod_eq_dvd_iff)
  also have "\<dots> = - 2147483649 - k" using k False by (intro i32_id) (simp add: is_i32_def)
  finally show ?thesis using False by simp
qed (auto intro!: i32_id simp: INT_MAX_def is_i32_def)

lemma cdiv_neg_le: "a < 0 \<Longrightarrow> 0 < b \<Longrightarrow> cdiv a b \<le> 0"
  by (simp add: cdiv_def pos_imp_zdiv_nonneg_iff)

lemma rgb_start_eq:
  assumes "is_i32 (sf_width s)" "is_i32 (sf_height s)" "is_i32 offset" "is_i32 scanLength" "0 \<le> len" "len < 2147483648"
  shows "rgb_start s len offset scanLength x y width height =
    (if \<not> rect_in (sf_width s) (sf_height s) scanLength x y width height then Inl IllegalArgumentException
     else if width = 0 \<or> height = 0 then Inr None
     else if buffer_holds len offset scanLength height then Inr (Some offset) else Inl IllegalArgumentException)"
proof (cases "rect_in (sf_width s) (sf_height s) scanLength x y width height \<and> width \<noteq> 0 \<and> height \<noteq> 0")
  case False
  have w: "i32 (sf_width s - x) = sf_width s - x" if "0 \<le> x" "x < sf_width s"
    using assms(1) that by (intro i32_id) (simp add: is_i32_def)
  have h: "i32 (sf_height s - y) = sf_height s - y" if "0 \<le> y" "y < sf_height s"
    using assms(2) that by (intro i32_id) (simp add: is_i32_def)
  from False w h show ?thesis by (auto simp: rgb_start_def rect_in_def)
next
  case True
  then have r: "0 \<le> x" "x < sf_width s" "0 \<le> y" "y < sf_height s" "0 < width" "x + width \<le> sf_width s" "0 < height" "y + height \<le> sf_height s"
    "width \<le> scanLength" "0 < scanLength" by (auto simp: rect_in_def)
  have w: "i32 (sf_width s - x) = sf_width s - x" "i32 (sf_height s - y) = sf_height s - y"
    using assms(1,2) r by (auto intro!: i32_id simp: is_i32_def)
  show ?thesis
  proof (cases "0 \<le> offset")
    case False
    then have n: "i32 (INT_MAX - offset) < 0" using assms(3) by (simp add: INT_MAX_wrap is_i32_def)
    have "cdiv (i32 (INT_MAX - offset)) height < scanLength" using cdiv_neg_le [OF n r(7)] r(10) by linarith
    then show ?thesis using False True r by (simp add: rgb_start_def w buffer_holds_def i32_id [OF assms(3)])
  next
    case o: True
    define p where "p = height * scanLength"
    have p: "0 < p" using r by (simp add: p_def)
    have m: "i32 (INT_MAX - offset) = INT_MAX - offset" "0 \<le> INT_MAX - offset"
      using assms(3) o by (simp_all add: INT_MAX_wrap is_i32_def) (simp add: INT_MAX_def)
    have d: "(INT_MAX - offset) div height < scanLength \<longleftrightarrow> INT_MAX - offset < p"
      using zdiv_less_iff [OF r(7)] by (simp add: p_def)
    show ?thesis
    proof (cases "INT_MAX - offset < p")
      case True
      then have "\<not> buffer_holds len offset scanLength height" using assms(6) by (simp add: buffer_holds_def p_def INT_MAX_def)
      with True r m d \<open>rect_in _ _ _ _ _ _ _ \<and> _\<close> show ?thesis by (simp add: rgb_start_def w i32_id [OF assms(3)])
    next
      case False
      then have "i32 (offset + p - 1) = offset + p - 1" using o p by (intro i32_small) (simp_all add: INT_MAX_def)
      with False r m d o p \<open>rect_in _ _ _ _ _ _ _ \<and> _\<close> show ?thesis
        by (auto simp: rgb_start_def w i32_id [OF assms(3)] buffer_holds_def Let_def pos_imp_zdiv_neg_iff simp flip: p_def)
    qed
  qed
qed

section \<open>One call\<close>

text \<open>
  A virtual machine between two calls: the memory flag is clear and lengths are ints. A surface that Java can reach has its native
  structure, and its array holds its pixels.
\<close>

definition jvm_ok :: "jvm \<Rightarrow> bool" where
  "jvm_ok v \<longleftrightarrow> \<not> jv_memError v \<and> (\<forall>r. int (length (jv_arrays v r)) < 2147483648)"

definition backed :: "jvm \<Rightarrow> jsurface \<Rightarrow> bool" where
  "backed v this \<longleftrightarrow> js_nativePtr this \<noteq> 0 \<and> 0 < js_width this \<and> 0 \<le> js_height this
     \<and> is_i32 (js_width this) \<and> is_i32 (js_height this)
     \<and> js_width this * js_height this \<le> int (length (jv_arrays v (js_dataInt this)))
     \<and> (\<exists>s. jv_native v (js_nativePtr this) = Some s \<and> sf_width s = js_width this \<and> sf_height s = js_height this
          \<and> sf_imageType s = TYPE_INT_ARGB_PRE)"

text \<open>The native structures up to the data pointer that the last call has left.\<close>

definition same_natives :: "jvm \<Rightarrow> jvm \<Rightarrow> bool" where
  "same_natives v v' \<longleftrightarrow> (\<forall>p. map_option (sf_data_update (\<lambda>_. [])) (jv_native v' p) = map_option (sf_data_update (\<lambda>_. [])) (jv_native v p))"

lemma same_natives_refl [simp]: "same_natives v v"
  by (simp add: same_natives_def)

lemma backed_cong:
  assumes "backed v this" "same_natives v v'" "same_lengths (jv_arrays v) (jv_arrays v')"
  shows "backed v' this"
proof -
  obtain s where s: "jv_native v (js_nativePtr this) = Some s" "sf_width s = js_width this" "sf_height s = js_height this"
      "sf_imageType s = TYPE_INT_ARGB_PRE" using assms(1) by (auto simp: backed_def)
  have "map_option (sf_data_update (\<lambda>_. [])) (jv_native v' (js_nativePtr this)) = Some (s\<lparr>sf_data := []\<rparr>)"
    using assms(2) s(1) by (simp add: same_natives_def)
  then obtain s' where s': "jv_native v' (js_nativePtr this) = Some s'" "s'\<lparr>sf_data := []\<rparr> = s\<lparr>sf_data := []\<rparr>" by auto
  have "sf_width s' = sf_width s" "sf_height s' = sf_height s" "sf_imageType s' = sf_imageType s"
    using arg_cong [OF s'(2), of sf_width] arg_cong [OF s'(2), of sf_height] arg_cong [OF s'(2), of sf_imageType] by simp_all
  with s s'(1) assms(1,3) show ?thesis by (auto simp: backed_def same_lengths_def)
qed

text \<open>The calls that succeed: the rectangle is in the surface and, unless it is empty, the buffer holds it and both arrays can be pinned.\<close>

definition rgb_accepted :: "bool \<Rightarrow> bool \<Rightarrow> jsurface \<Rightarrow> int \<Rightarrow> jint \<Rightarrow> jint \<Rightarrow> jint \<Rightarrow> jint \<Rightarrow> jint \<Rightarrow> jint \<Rightarrow> bool" where
  "rgb_accepted pin pinData this len offset scanLength x y width height \<longleftrightarrow>
     rect_in (js_width this) (js_height this) scanLength x y width height
     \<and> (width = 0 \<or> height = 0 \<or> buffer_holds len offset scanLength height \<and> pin \<and> pinData)"

text \<open>The outcome of a call whose copy is described by \<open>Q\<close>.\<close>

definition rgb_outcome :: "bool \<Rightarrow> bool \<Rightarrow> (arrays \<Rightarrow> bool) \<Rightarrow> jvm \<Rightarrow> jexn option \<Rightarrow> jvm \<Rightarrow> bool" where
  "rgb_outcome accepted nothing Q v ex v' \<longleftrightarrow> same_natives v v' \<and> \<not> jv_memError v' \<and>
     (if accepted then ex = None \<and> (if nothing then jv_arrays v' = jv_arrays v else Q (jv_arrays v'))
      else ex \<noteq> None \<and> jv_arrays v' = jv_arrays v)"

lemma surface_acquire_backed:
  assumes "sf_imageType s = TYPE_INT_ARGB_PRE" "0 < sf_width s" "0 \<le> sf_height s" "sf_width s * sf_height s \<le> int (length arr)"
  shows "surface_acquire pin arr s = Some (s\<lparr>sf_data := if pin then arr else []\<rparr>, \<not> pin, None)"
proof -
  have "\<not> int (length arr) div sf_width s < sf_height s" using assms(4) by (simp add: zdiv_less_iff [OF assms(2)])
  with assms show ?thesis by (simp add: surface_acquire_def Let_def)
qed

lemma rgb_call_result:
  assumes v: "jvm_ok v" "backed v this" "is_i32 offset" "is_i32 scanLength"
    and copy: "\<And>s. rect_in (js_width this) (js_height this) scanLength x y width height \<Longrightarrow> 0 < width \<Longrightarrow> 0 < height \<Longrightarrow>
      buffer_holds (int (length (jv_arrays v argb))) offset scanLength height \<Longrightarrow> sf_width s = js_width this \<Longrightarrow>
      data_ptr (js_dataInt this) s = Some (js_dataInt this) \<Longrightarrow> \<exists>h'. copy s offset (jv_arrays v) = Some h' \<and> Q h'"
  shows "\<exists>ex v'. rgb_call pin pinData copy this argb offset scanLength x y width height v = Some (ex, v')
    \<and> rgb_outcome (rgb_accepted pin pinData this (int (length (jv_arrays v argb))) offset scanLength x y width height) (width = 0 \<or> height = 0) Q v ex v'"
proof -
  obtain s where s: "jv_native v (js_nativePtr this) = Some s" "sf_width s = js_width this" "sf_height s = js_height this"
      "sf_imageType s = TYPE_INT_ARGB_PRE" and p: "js_nativePtr this \<noteq> 0" and i: "is_i32 (js_width this)" "is_i32 (js_height this)"
      and W: "0 < js_width this" "0 \<le> js_height this" "js_width this * js_height this \<le> int (length (jv_arrays v (js_dataInt this)))"
    using v(2) by (auto simp: backed_def)
  note start = rgb_start_eq [of s offset scanLength "int (length (jv_arrays v argb))", unfolded s(2,3), OF i v(3,4)]
  have len: "int (length (jv_arrays v argb)) < 2147483648" and flag: "\<not> jv_memError v" using v(1) by (simp_all add: jvm_ok_def)
  note call = rgb_call_def
  show ?thesis
  proof (cases "rect_in (js_width this) (js_height this) scanLength x y width height \<and> width \<noteq> 0 \<and> height \<noteq> 0
      \<and> buffer_holds (int (length (jv_arrays v argb))) offset scanLength height \<and> pin")
    case False
    then show ?thesis using p s(1) len flag by (auto simp: call start rgb_outcome_def rgb_accepted_def split: if_splits)
  next
    case True
    then have r: "0 < width" "0 < height" "0 < js_height this" by (auto simp: rect_in_def)
    have acq: "surface_acquire q (jv_arrays v (js_dataInt this)) s
        = Some (s\<lparr>sf_data := if q then jv_arrays v (js_dataInt this) else []\<rparr>, \<not> q, None)" for q
      by (rule surface_acquire_backed) (use s W in simp_all)
    have "0 < js_width this * js_height this" using W(1) r(3) by simp
    then have "jv_arrays v (js_dataInt this) \<noteq> []" using W(3) by auto
    then have "\<exists>h'. copy (s\<lparr>sf_data := jv_arrays v (js_dataInt this)\<rparr>) offset (jv_arrays v) = Some h' \<and> Q h'"
      using True r s(2) by (intro copy) (simp_all add: data_ptr_def)
    then obtain h' where h': "copy (s\<lparr>sf_data := jv_arrays v (js_dataInt this)\<rparr>) offset (jv_arrays v) = Some h'" "Q h'" by blast
    show ?thesis using True p s(1) len flag h'
      by (cases pinData) (auto simp: call start acq rgb_outcome_def rgb_accepted_def same_natives_def)
  qed
qed

text \<open>The position of a rectangle of the surface in its array.\<close>

lemma rect_position:
  assumes "rect_in W H scanLength x y width height" "0 < width" "0 < height" "W * H \<le> len" "len < 2147483648"
  shows "i32 (y * W + x) = y * W + x" "0 \<le> y * W + x" "y * W + x + height * W + width \<le> len + W"
proof -
  have r: "0 \<le> x" "0 \<le> y" "0 < W" "x + width \<le> W" "y + height \<le> H" using assms(1,2) by (auto simp: rect_in_def)
  have "(y + height) * W \<le> H * W" using r by (intro mult_right_mono) simp_all
  then show e: "y * W + x + height * W + width \<le> len + W" using r assms(4) by (simp add: algebra_simps)
  show n: "0 \<le> y * W + x" using r by simp
  have "1 * W \<le> height * W" using r assms(3) by (intro mult_right_mono) simp_all
  with e n assms(2,5) show "i32 (y * W + x) = y * W + x" by (intro i32_small) linarith+
qed

lemma getRGBImpl_result:
  assumes v: "jvm_ok v" "backed v this" "is_i32 offset" "is_i32 scanLength"
  shows "\<exists>ex v'. getRGBImpl pin pinData this argb offset scanLength x y width height v = Some (ex, v')
    \<and> rgb_outcome (rgb_accepted pin pinData this (int (length (jv_arrays v argb))) offset scanLength x y width height) (width = 0 \<or> height = 0)
        (copied (js_dataInt this) argb (jv_arrays v) (y * js_width this + x) (js_width this) offset scanLength (nat width) (nat height)) v ex v'"
  unfolding getRGBImpl_def
proof (rule rgb_call_result [OF v])
  fix s assume r: "rect_in (js_width this) (js_height this) scanLength x y width height" "0 < width" "0 < height"
    and b: "buffer_holds (int (length (jv_arrays v argb))) offset scanLength height" and s: "sf_width s = js_width this"
      "data_ptr (js_dataInt this) s = Some (js_dataInt this)"
  have d: "js_width this * js_height this \<le> int (length (jv_arrays v (js_dataInt this)))" "int (length (jv_arrays v (js_dataInt this))) < 2147483648"
    using v(1,2) by (simp_all add: backed_def jvm_ok_def)
  note pos = rect_position [OF r d]
  have le: "width \<le> js_width this" "width \<le> scanLength" using r(1) by (auto simp: rect_in_def)
  have w: "i32 (js_width this - width) = js_width this - width" "i32 (scanLength - width) = scanLength - width"
    using le r(2) v(2,4) by (auto intro!: i32_id simp: backed_def is_i32_def)
  show "\<exists>h'. map_option fst (copy_rows (data_ptr (js_dataInt this) s) (i32 (sf_width s - width)) (Some argb) (i32 (scanLength - width)) width height
      (jv_arrays v, i32 (y * sf_width s + x), offset)) = Some h'
      \<and> copied (js_dataInt this) argb (jv_arrays v) (y * js_width this + x) (js_width this) offset scanLength (nat width) (nat height) h'"
    using copied_rows [of "y * js_width this + x" "nat height" "js_width this" "nat width" "jv_arrays v" "js_dataInt this" offset scanLength argb]
      pos le r b by (auto simp: s w buffer_holds_def)
qed

lemma setRGBImpl_result:
  assumes v: "jvm_ok v" "backed v this" "is_i32 offset" "is_i32 scanLength"
  shows "\<exists>ex v'. setRGBImpl pin pinData this argb offset scanLength x y width height v = Some (ex, v')
    \<and> rgb_outcome (rgb_accepted pin pinData this (int (length (jv_arrays v argb))) offset scanLength x y width height) (width = 0 \<or> height = 0)
        (copied argb (js_dataInt this) (jv_arrays v) offset scanLength (y * js_width this + x) (js_width this) (nat width) (nat height)) v ex v'"
  unfolding setRGBImpl_def
proof (rule rgb_call_result [OF v])
  fix s assume r: "rect_in (js_width this) (js_height this) scanLength x y width height" "0 < width" "0 < height"
    and b: "buffer_holds (int (length (jv_arrays v argb))) offset scanLength height" and s: "sf_width s = js_width this"
      "data_ptr (js_dataInt this) s = Some (js_dataInt this)"
  have d: "js_width this * js_height this \<le> int (length (jv_arrays v (js_dataInt this)))" "int (length (jv_arrays v (js_dataInt this))) < 2147483648"
    using v(1,2) by (simp_all add: backed_def jvm_ok_def)
  note pos = rect_position [OF r d]
  have le: "width \<le> js_width this" "width \<le> scanLength" using r(1) by (auto simp: rect_in_def)
  have w: "i32 (js_width this - width) = js_width this - width" "i32 (scanLength - width) = scanLength - width"
    using le r(2) v(2,4) by (auto intro!: i32_id simp: backed_def is_i32_def)
  show "\<exists>h'. surface_setRGB (js_dataInt this) s x y width height argb offset scanLength (jv_arrays v) = Some h'
      \<and> copied argb (js_dataInt this) (jv_arrays v) offset scanLength (y * js_width this + x) (js_width this) (nat width) (nat height) h'"
    using copied_rows [of offset "nat height" scanLength "nat width" "jv_arrays v" argb "y * js_width this + x" "js_width this" "js_dataInt this"]
      pos le r b by (auto simp: surface_setRGB_def setRGB_loop_def s w buffer_holds_def)
qed

text \<open>The calls as Java makes them; \<open>java_accepted\<close> adds the checks of \<open>rgbCheck\<close>.\<close>

definition java_accepted :: "bool \<Rightarrow> bool \<Rightarrow> jsurface \<Rightarrow> int \<Rightarrow> jint \<Rightarrow> jint \<Rightarrow> jint \<Rightarrow> jint \<Rightarrow> jint \<Rightarrow> jint \<Rightarrow> bool" where
  "java_accepted pin pinData this len offset scanLength x y width height \<longleftrightarrow>
     rgbCheck this len offset scanLength x y width height \<and> rgb_accepted pin pinData this len offset scanLength x y width height"

lemma getRGB_result:
  assumes v: "jvm_ok v" "backed v this" "is_i32 offset" "is_i32 scanLength"
  shows "\<exists>ex v'. getRGB pin pinData this argb offset scanLength x y width height v = Some (ex, v')
    \<and> rgb_outcome (java_accepted pin pinData this (int (length (jv_arrays v argb))) offset scanLength x y width height) (width = 0 \<or> height = 0)
        (copied (js_dataInt this) argb (jv_arrays v) (y * js_width this + x) (js_width this) offset scanLength (nat width) (nat height)) v ex v'"
  using getRGBImpl_result [OF v, of pin pinData argb x y width height] v(1)
  by (auto simp: getRGB_def java_accepted_def rgb_outcome_def jvm_ok_def)

lemma setRGB_result:
  assumes v: "jvm_ok v" "backed v this" "is_i32 offset" "is_i32 scanLength"
  shows "\<exists>ex v'. setRGB pin pinData this argb offset scanLength x y width height v = Some (ex, v')
    \<and> rgb_outcome (java_accepted pin pinData this (int (length (jv_arrays v argb))) offset scanLength x y width height) (width = 0 \<or> height = 0)
        (copied argb (js_dataInt this) (jv_arrays v) offset scanLength (y * js_width this + x) (js_width this) (nat width) (nat height)) v ex v'"
  using setRGBImpl_result [OF v, of pin pinData argb x y width height] v(1)
  by (auto simp: setRGB_def java_accepted_def rgb_outcome_def jvm_ok_def)

lemma outcome_keeps:
  assumes "rgb_outcome acc e (copied a b (jv_arrays v) i sw j dw n m) v ex v'"
  shows "same_natives v v' \<and> same_lengths (jv_arrays v) (jv_arrays v') \<and> \<not> jv_memError v'"
  using assms by (auto simp: rgb_outcome_def copied_def split: if_splits)

section \<open>Any sequence of calls\<close>

text \<open>
  The surfaces of a program. Java creates surfaces and copies pixels, writes its arrays in between (as the renderer does when it
  draws), and drops objects; the disposer runs the record of an object that is no longer reachable, at any time and any number
  of times. An address that \<open>my_malloc\<close> returns is not in use.
\<close>

record jworld =
  jw_vm :: jvm
  jw_objs :: "nat \<rightharpoonup> jsurface"

inductive surface_step :: "jworld \<Rightarrow> jworld \<Rightarrow> bool" where
  created: "jw_objs w n = None \<Longrightarrow> is_i32 width \<Longrightarrow> is_i32 height \<Longrightarrow> jv_native (jw_vm w) p = None \<Longrightarrow>
    JavaSurface_new ids p dataInt TYPE_INT_ARGB_PRE width height (jw_vm w) = (Inr s, v) \<Longrightarrow>
    surface_step w (w\<lparr>jw_vm := v, jw_objs := (jw_objs w)(n \<mapsto> s)\<rparr>)"
| failed: "jv_native (jw_vm w) p = None \<Longrightarrow>
    JavaSurface_new ids p dataInt TYPE_INT_ARGB_PRE width height (jw_vm w) = (Inl e, v) \<Longrightarrow> surface_step w (w\<lparr>jw_vm := v\<rparr>)"
| got: "jw_objs w n = Some s \<Longrightarrow> js_reachable s \<Longrightarrow> is_i32 offset \<Longrightarrow> is_i32 scanLength \<Longrightarrow>
    getRGB pin pinData s argb offset scanLength x y width height (jw_vm w) = Some (ex, v) \<Longrightarrow> surface_step w (w\<lparr>jw_vm := v\<rparr>)"
| put: "jw_objs w n = Some s \<Longrightarrow> js_reachable s \<Longrightarrow> is_i32 offset \<Longrightarrow> is_i32 scanLength \<Longrightarrow>
    setRGB pin pinData s argb offset scanLength x y width height (jw_vm w) = Some (ex, v) \<Longrightarrow> surface_step w (w\<lparr>jw_vm := v\<rparr>)"
| written: "same_lengths (jv_arrays (jw_vm w)) h \<Longrightarrow> surface_step w (w\<lparr>jw_vm := (jw_vm w)\<lparr>jv_arrays := h\<rparr>\<rparr>)"
| dropped: "jw_objs w n = Some s \<Longrightarrow> surface_step w (w\<lparr>jw_objs := (jw_objs w)(n \<mapsto> s\<lparr>js_reachable := False\<rparr>)\<rparr>)"
| disposed: "jw_objs w n = Some s \<Longrightarrow> \<not> js_reachable s \<Longrightarrow> record_dispose s (jw_vm w) = Some (s', v) \<Longrightarrow>
    surface_step w (w\<lparr>jw_vm := v, jw_objs := (jw_objs w)(n \<mapsto> s')\<rparr>)"

inductive surface_reach :: "jworld \<Rightarrow> bool" where
  start: "(\<And>r. int (length (h r)) < 2147483648) \<Longrightarrow>
    surface_reach \<lparr>jw_vm = \<lparr>jv_arrays = h, jv_native = Map.empty, jv_memError = False\<rparr>, jw_objs = Map.empty\<rparr>"
| step: "surface_reach w \<Longrightarrow> surface_step w w' \<Longrightarrow> surface_reach w'"

text \<open>
  The invariant: reachable objects are backed, the native structures are exactly those that a record still holds, and no two
  records hold the same.
\<close>

definition handles :: "(nat \<rightharpoonup> jsurface) \<Rightarrow> nat set" where
  "handles f = {js_handle s | n s. f n = Some s \<and> js_handle s \<noteq> 0}"

definition world_ok :: "jworld \<Rightarrow> bool" where
  "world_ok w \<longleftrightarrow> jvm_ok (jw_vm w)
     \<and> (\<forall>n s. jw_objs w n = Some s \<longrightarrow> js_reachable s \<longrightarrow> backed (jw_vm w) s \<and> js_handle s = js_nativePtr s)
     \<and> dom (jv_native (jw_vm w)) = handles (jw_objs w)
     \<and> (\<forall>n s n' s'. jw_objs w n = Some s \<longrightarrow> jw_objs w n' = Some s' \<longrightarrow> js_handle s = js_handle s' \<longrightarrow> js_handle s \<noteq> 0 \<longrightarrow> n = n')"

lemma world_okI:
  assumes "jvm_ok (jw_vm w)"
    and "\<And>n s. jw_objs w n = Some s \<Longrightarrow> js_reachable s \<Longrightarrow> backed (jw_vm w) s \<and> js_handle s = js_nativePtr s"
    and "dom (jv_native (jw_vm w)) = handles (jw_objs w)"
    and "\<And>n s n' s'. jw_objs w n = Some s \<Longrightarrow> jw_objs w n' = Some s' \<Longrightarrow> js_handle s = js_handle s' \<Longrightarrow> js_handle s \<noteq> 0 \<Longrightarrow> n = n'"
  shows "world_ok w"
  using assms unfolding world_ok_def by blast

lemma world_okD:
  assumes "world_ok w"
  shows "jvm_ok (jw_vm w)"
    and "jw_objs w n = Some s \<Longrightarrow> js_reachable s \<Longrightarrow> backed (jw_vm w) s \<and> js_handle s = js_nativePtr s"
    and "dom (jv_native (jw_vm w)) = handles (jw_objs w)"
    and "jw_objs w n = Some s \<Longrightarrow> jw_objs w n' = Some s' \<Longrightarrow> js_handle s = js_handle s' \<Longrightarrow> js_handle s \<noteq> 0 \<Longrightarrow> n = n'"
proof -
  note ok = assms [unfolded world_ok_def]
  show "jvm_ok (jw_vm w)" "dom (jv_native (jw_vm w)) = handles (jw_objs w)" using ok by simp_all
  show "backed (jw_vm w) s \<and> js_handle s = js_nativePtr s" if "jw_objs w n = Some s" "js_reachable s" using ok that by blast
  show "n = n'" if "jw_objs w n = Some s" "jw_objs w n' = Some s'" "js_handle s = js_handle s'" "js_handle s \<noteq> 0"
    using conjunct2 [OF conjunct2 [OF conjunct2 [OF ok]]] that by blast
qed

lemma handlesI: "f n = Some s \<Longrightarrow> js_handle s \<noteq> 0 \<Longrightarrow> js_handle s \<in> handles f"
  by (auto simp: handles_def)

lemma handles_new: "f n = None \<Longrightarrow> js_handle s \<noteq> 0 \<Longrightarrow> handles (f(n \<mapsto> s)) = insert (js_handle s) (handles f)"
  by (auto simp: handles_def split: if_splits) (metis option.distinct(1))

lemma handles_kept: "f n = Some s \<Longrightarrow> js_handle s' = js_handle s \<Longrightarrow> handles (f(n \<mapsto> s')) = handles f"
  by (auto simp: handles_def split: if_splits) (metis option.inject)

lemma handles_cleared:
  assumes "f n = Some s" "js_handle s' = 0" "\<And>m t. f m = Some t \<Longrightarrow> m \<noteq> n \<Longrightarrow> js_handle t \<noteq> js_handle s"
  shows "handles (f(n \<mapsto> s')) = handles f - {js_handle s}"
  using assms by (auto simp: handles_def split: if_splits) (metis option.inject)

lemma same_natives_None: "same_natives v v' \<Longrightarrow> jv_native v' p = None \<longleftrightarrow> jv_native v p = None"
  unfolding same_natives_def by (metis option.map_disc_iff)

text \<open>Steps that leave the objects and the native structures alone.\<close>

lemma world_ok_vm:
  assumes "world_ok w" "same_natives (jw_vm w) v" "same_lengths (jv_arrays (jw_vm w)) (jv_arrays v)" "\<not> jv_memError v"
  shows "world_ok (w\<lparr>jw_vm := v\<rparr>)"
proof (rule world_okI)
  show "jvm_ok (jw_vm (w\<lparr>jw_vm := v\<rparr>))" using world_okD(1) [OF assms(1)] assms(3,4) by (simp add: jvm_ok_def same_lengths_def)
  show "backed (jw_vm (w\<lparr>jw_vm := v\<rparr>)) s \<and> js_handle s = js_nativePtr s" if "jw_objs (w\<lparr>jw_vm := v\<rparr>) n = Some s" "js_reachable s" for n s
    using world_okD(2) [OF assms(1), of n s] that backed_cong assms(2,3) by auto
  show "dom (jv_native (jw_vm (w\<lparr>jw_vm := v\<rparr>))) = handles (jw_objs (w\<lparr>jw_vm := v\<rparr>))"
    using world_okD(3) [OF assms(1)] same_natives_None [OF assms(2)] by (auto simp: dom_def)
  show "n = n'" if "jw_objs (w\<lparr>jw_vm := v\<rparr>) n = Some s" "jw_objs (w\<lparr>jw_vm := v\<rparr>) n' = Some s'" "js_handle s = js_handle s'" "js_handle s \<noteq> 0" for n s n' s'
    using world_okD(4) [OF assms(1), of n s n' s'] that by simp
qed

lemma JavaSurface_new_ok:
  assumes "JavaSurface_new ids p dataInt TYPE_INT_ARGB_PRE width height v = (Inr s, v')" "is_i32 width" "is_i32 height"
  shows "p \<noteq> 0" "backed v' s" "js_handle s = p" "js_nativePtr s = p" "js_reachable s"
    "v' = v\<lparr>jv_native := (jv_native v)(p \<mapsto> JavaSurface_initialize TYPE_INT_ARGB_PRE width height)\<rparr>"
proof -
  from assms(1) have c: "0 < width" "0 \<le> height" "\<not> int (length (jv_arrays v dataInt)) div width < height" "p \<noteq> 0"
    and s: "s = \<lparr>js_nativePtr = p, js_width = width, js_height = height, js_dataInt = dataInt, js_handle = p, js_reachable = True\<rparr>"
    and v': "v' = v\<lparr>jv_native := (jv_native v)(p \<mapsto> JavaSurface_initialize TYPE_INT_ARGB_PRE width height)\<rparr>"
    by (auto simp: JavaSurface_new_def AbstractSurface_check_def initialize_def split: if_splits)
  show "p \<noteq> 0" "js_handle s = p" "js_nativePtr s = p" "js_reachable s"
    "v' = v\<lparr>jv_native := (jv_native v)(p \<mapsto> JavaSurface_initialize TYPE_INT_ARGB_PRE width height)\<rparr>" using c(4) s v' by simp_all
  show "backed v' s" using c assms(2,3) by (simp add: backed_def s v' JavaSurface_initialize_def zdiv_less_iff [OF c(1)])
qed

lemma world_ok_created:
  assumes w: "world_ok w" and n: "jw_objs w n = None" "jv_native (jw_vm w) p = None"
    and new: "JavaSurface_new ids p dataInt TYPE_INT_ARGB_PRE width height (jw_vm w) = (Inr s, v)" "is_i32 width" "is_i32 height"
  shows "world_ok (w\<lparr>jw_vm := v, jw_objs := (jw_objs w)(n \<mapsto> s)\<rparr>)" (is "world_ok ?w")
proof (rule world_okI)
  note s = JavaSurface_new_ok [OF new]
  have other: "js_handle t \<noteq> p" if "jw_objs w m = Some t" for m t
    using world_okD(3) [OF w] n(2) s(1) handlesI [of "jw_objs w" m t] that by blast
  show "jvm_ok (jw_vm ?w)" using world_okD(1) [OF w] by (simp add: jvm_ok_def s(6))
  show "backed (jw_vm ?w) t \<and> js_handle t = js_nativePtr t" if "jw_objs ?w m = Some t" "js_reachable t" for m t
  proof (cases "m = n")
    case True with that s show ?thesis by simp
  next
    case False
    with that have t: "backed (jw_vm w) t" "js_handle t = js_nativePtr t" "js_handle t \<noteq> p" using world_okD(2) [OF w, of m t] other [of m t] by simp_all
    then show ?thesis by (simp add: backed_def s(6))
  qed
  show "dom (jv_native (jw_vm ?w)) = handles (jw_objs ?w)"
    using handles_new [of "jw_objs w" n s] n(1) s(1,3) world_okD(3) [OF w] by (simp add: s(6))
  show "m = m'" if "jw_objs ?w m = Some t" "jw_objs ?w m' = Some t'" "js_handle t = js_handle t'" "js_handle t \<noteq> 0" for m t m' t'
    using that other [of m t] other [of m' t'] world_okD(4) [OF w, of m t m' t'] s(3) by (auto split: if_splits)
qed

lemma world_ok_disposed:
  assumes w: "world_ok w" and n: "jw_objs w n = Some s" "\<not> js_reachable s"
    and d: "record_dispose s (jw_vm w) = Some (s', v)"
  shows "world_ok (w\<lparr>jw_vm := v, jw_objs := (jw_objs w)(n \<mapsto> s')\<rparr>)" (is "world_ok ?w")
proof (cases "js_handle s = 0")
  case True
  with d have "s' = s" "v = jw_vm w" by (simp_all add: record_dispose_def)
  moreover have "(jw_objs w)(n \<mapsto> s) = jw_objs w" using n(1) by (simp add: fun_upd_idem)
  ultimately show ?thesis using w by simp
next
  case False
  with d have s': "s' = s\<lparr>js_handle := 0\<rparr>" and v: "v = (jw_vm w)\<lparr>jv_native := (jv_native (jw_vm w))(js_handle s := None)\<rparr>"
    by (auto simp: record_dispose_def disposeNative_def split: if_splits)
  have other: "js_handle t \<noteq> js_handle s" if "jw_objs w m = Some t" "m \<noteq> n" for m t
    using world_okD(4) [OF w that(1) n(1)] that(2) False by auto
  show ?thesis
  proof (rule world_okI)
    show "jvm_ok (jw_vm ?w)" using world_okD(1) [OF w] by (simp add: jvm_ok_def v)
    show "backed (jw_vm ?w) t \<and> js_handle t = js_nativePtr t" if "jw_objs ?w m = Some t" "js_reachable t" for m t
    proof -
      have "m \<noteq> n" using that n(2) s' by auto
      with that have "backed (jw_vm w) t" "js_handle t = js_nativePtr t" "js_handle t \<noteq> js_handle s"
        using world_okD(2) [OF w, of m t] other [of m t] by simp_all
      then show ?thesis by (simp add: backed_def v)
    qed
    show "dom (jv_native (jw_vm ?w)) = handles (jw_objs ?w)"
      using handles_cleared [of "jw_objs w" n s s'] n(1) other world_okD(3) [OF w] by (simp add: v s')
    show "m = m'" if "jw_objs ?w m = Some t" "jw_objs ?w m' = Some t'" "js_handle t = js_handle t'" "js_handle t \<noteq> 0" for m t m' t'
      using that world_okD(4) [OF w, of m t m' t'] by (auto simp: s' split: if_splits)
  qed
qed

lemma JavaSurface_new_failed:
  "JavaSurface_new ids p dataInt dataType width height v = (Inl e, v') \<Longrightarrow> v' = v"
  by (auto simp: JavaSurface_new_def initialize_def split: if_splits option.splits)

lemma world_ok_dropped:
  assumes w: "world_ok w" and n: "jw_objs w n = Some s"
  shows "world_ok (w\<lparr>jw_objs := (jw_objs w)(n \<mapsto> s\<lparr>js_reachable := False\<rparr>)\<rparr>)" (is "world_ok ?w")
proof (rule world_okI)
  have h: "\<exists>u. jw_objs w m = Some u \<and> js_handle u = js_handle t" if "jw_objs ?w m = Some t" for m t
    using that n by (auto split: if_splits)
  show "jvm_ok (jw_vm ?w)" using world_okD(1) [OF w] by simp
  show "backed (jw_vm ?w) t \<and> js_handle t = js_nativePtr t" if "jw_objs ?w m = Some t" "js_reachable t" for m t
    using that world_okD(2) [OF w, of m t] by (auto split: if_splits)
  show "dom (jv_native (jw_vm ?w)) = handles (jw_objs ?w)"
    using handles_kept [of "jw_objs w" n s "s\<lparr>js_reachable := False\<rparr>"] n world_okD(3) [OF w] by simp
  show "m = m'" if "jw_objs ?w m = Some t" "jw_objs ?w m' = Some t'" "js_handle t = js_handle t'" "js_handle t \<noteq> 0" for m t m' t'
    using h [OF that(1)] h [OF that(2)] that(3,4) world_okD(4) [OF w, of m _ m'] by metis
qed

lemma surface_step_ok:
  assumes "surface_step w w'" "world_ok w"
  shows "world_ok w'"
  using assms
proof (cases rule: surface_step.cases)
  case (got n s offset scanLength pin pinData argb x y width height ex v)
  with assms(2) getRGB_result [of "jw_vm w" s offset scanLength pin pinData argb x y width height]
  have "same_natives (jw_vm w) v \<and> same_lengths (jv_arrays (jw_vm w)) (jv_arrays v) \<and> \<not> jv_memError v"
    by (auto dest: world_okD outcome_keeps)
  with got(1) assms(2) show ?thesis by (simp add: world_ok_vm)
next
  case (put n s offset scanLength pin pinData argb x y width height ex v)
  with assms(2) setRGB_result [of "jw_vm w" s offset scanLength pin pinData argb x y width height]
  have "same_natives (jw_vm w) v \<and> same_lengths (jv_arrays (jw_vm w)) (jv_arrays v) \<and> \<not> jv_memError v"
    by (auto dest: world_okD outcome_keeps)
  with put(1) assms(2) show ?thesis by (simp add: world_ok_vm)
next
  case (written h)
  with assms(2) world_okD(1) [OF assms(2)] show ?thesis by (auto intro!: world_ok_vm simp: same_natives_def jvm_ok_def)
next
  case (failed p ids dataInt width height e v)
  with assms(2) show ?thesis using JavaSurface_new_failed [OF failed(3)] by simp
qed (auto intro: world_ok_created world_ok_disposed world_ok_dropped)

lemma surface_reach_ok: "surface_reach w \<Longrightarrow> world_ok w"
proof (induction rule: surface_reach.induct)
  case (start h)
  then show ?case by (auto intro!: world_okI simp: jvm_ok_def handles_def)
qed (rule surface_step_ok)

section \<open>What the calls do\<close>

lemma reach_call:
  assumes "surface_reach w" "jw_objs w n = Some s" "js_reachable s"
  shows "jvm_ok (jw_vm w)" "backed (jw_vm w) s"
  using surface_reach_ok [OF assms(1)] world_okD(1,2) assms(2,3) by blast+

lemma getRGB_done:
  assumes "jvm_ok v" "backed v s" "is_i32 offset" "is_i32 scanLength" "0 < width" "0 < height"
    and "getRGB pin pinData s argb offset scanLength x y width height v = Some (None, v')"
  shows "copied (js_dataInt s) argb (jv_arrays v) (y * js_width s + x) (js_width s) offset scanLength (nat width) (nat height) (jv_arrays v')"
    and "rect_in (js_width s) (js_height s) scanLength x y width height"
  using getRGB_result [OF assms(1-4), of pin pinData argb x y width height] assms(5-7)
  by (auto simp: rgb_outcome_def java_accepted_def rgb_accepted_def split: if_splits)

lemma setRGB_done:
  assumes "jvm_ok v" "backed v s" "is_i32 offset" "is_i32 scanLength" "0 < width" "0 < height"
    and "setRGB pin pinData s argb offset scanLength x y width height v = Some (None, v')"
  shows "copied argb (js_dataInt s) (jv_arrays v) offset scanLength (y * js_width s + x) (js_width s) (nat width) (nat height) (jv_arrays v')"
    and "rect_in (js_width s) (js_height s) scanLength x y width height"
  using setRGB_result [OF assms(1-4), of pin pinData argb x y width height] assms(5-7)
  by (auto simp: rgb_outcome_def java_accepted_def rgb_accepted_def split: if_splits)

text \<open>A cell of the rectangle after the copy into the surface.\<close>

lemma rows_rel_cell:
  assumes "rows_rel d i stride n m (\<lambda>r k p q. q = f r k) d'" "r < m" "k < n" "0 \<le> i" "0 \<le> stride" "i + int r * stride + int k < int (length d)"
  shows "d' ! nat (i + int r * stride + int k) = f r k"
  using rows_relD(1) [OF assms(1), of "nat (i + int r * stride + int k)" r k] assms(2-6) by (simp add: nat_less_iff)

text \<open>
  C14: No sequence of calls from Java breaks the surfaces. Whatever Java has done with its surfaces and arrays, including copies of a
  surface onto its own array, failed pins and failed allocations, \<open>getRGB\<close> and \<open>setRGB\<close> on a reachable surface with any arguments
  access their arrays only inside their bounds, a call ends in an exception exactly when it is not accepted, and
  then no array has changed; the disposer frees a structure once, and the structures that are allocated are exactly those that a
  record of the disposer still holds.
\<close>

theorem surface_calls_safe:
  assumes "surface_reach w" "jw_objs w n = Some s"
  shows "(js_reachable s \<longrightarrow> is_i32 offset \<longrightarrow> is_i32 scanLength \<longrightarrow>
      (\<exists>ex v'. getRGB pin pinData s argb offset scanLength x y width height (jw_vm w) = Some (ex, v')
         \<and> (ex = None \<longleftrightarrow> java_accepted pin pinData s (int (length (jv_arrays (jw_vm w) argb))) offset scanLength x y width height)
         \<and> (ex \<noteq> None \<longrightarrow> jv_arrays v' = jv_arrays (jw_vm w)))
      \<and> (\<exists>ex v'. setRGB pin pinData s argb offset scanLength x y width height (jw_vm w) = Some (ex, v')
         \<and> (ex = None \<longleftrightarrow> java_accepted pin pinData s (int (length (jv_arrays (jw_vm w) argb))) offset scanLength x y width height)
         \<and> (ex \<noteq> None \<longrightarrow> jv_arrays v' = jv_arrays (jw_vm w))))
    \<and> (\<not> js_reachable s \<longrightarrow> record_dispose s (jw_vm w) \<noteq> None)
    \<and> dom (jv_native (jw_vm w)) = handles (jw_objs w)"
proof (intro conjI impI)
  assume a: "js_reachable s" "is_i32 offset" "is_i32 scanLength"
  note c = reach_call [OF assms a(1)]
  show "\<exists>ex v'. getRGB pin pinData s argb offset scanLength x y width height (jw_vm w) = Some (ex, v')
      \<and> (ex = None \<longleftrightarrow> java_accepted pin pinData s (int (length (jv_arrays (jw_vm w) argb))) offset scanLength x y width height)
      \<and> (ex \<noteq> None \<longrightarrow> jv_arrays v' = jv_arrays (jw_vm w))"
    using getRGB_result [OF c a(2,3), of pin pinData argb x y width height] by (fastforce simp: rgb_outcome_def split: if_splits)
  show "\<exists>ex v'. setRGB pin pinData s argb offset scanLength x y width height (jw_vm w) = Some (ex, v')
      \<and> (ex = None \<longleftrightarrow> java_accepted pin pinData s (int (length (jv_arrays (jw_vm w) argb))) offset scanLength x y width height)
      \<and> (ex \<noteq> None \<longrightarrow> jv_arrays v' = jv_arrays (jw_vm w))"
    using setRGB_result [OF c a(2,3), of pin pinData argb x y width height] by (fastforce simp: rgb_outcome_def split: if_splits)
next
  note ok = surface_reach_ok [OF assms(1)]
  show "dom (jv_native (jw_vm w)) = handles (jw_objs w)" by (rule world_okD(3) [OF ok])
  then have "jv_native (jw_vm w) (js_handle s) \<noteq> None" if "js_handle s \<noteq> 0"
    using handlesI [of "jw_objs w" n s] assms(2) that by blast
  then show "record_dispose s (jw_vm w) \<noteq> None" by (cases "js_handle s = 0") (auto simp: record_dispose_def disposeNative_def)
qed

text \<open>
  C15: Pixels survive the round trip through a surface. When \<open>setRGB\<close> has copied a rectangle from an array of the caller, exactly the pixels of
  the rectangle have changed, each to its pixel of the caller's array, and \<open>getRGB\<close> of the same rectangle gives the same pixels
  back, in an array with any other offset and scan length, and writes nothing else.
\<close>

theorem rgb_round_trip:
  assumes "surface_reach w" "jw_objs w n = Some s" "js_reachable s" "is_i32 offset" "is_i32 scan" "is_i32 offset'" "is_i32 scan'"
    and "src \<noteq> js_dataInt s" "dst \<noteq> js_dataInt s" "0 < width" "0 < height"
    and "setRGB pin pinData s src offset scan x y width height (jw_vm w) = Some (None, v1)"
    and "getRGB pin' pinData' s dst offset' scan' x y width height v1 = Some (None, v2)"
  shows "pixels_changed (js_width s) (jv_arrays (jw_vm w) (js_dataInt s))
        (\<lambda>row col. y \<le> row \<and> row < y + height \<and> x \<le> col \<and> col < x + width)
        (\<lambda>row col _ q. q = jv_arrays (jw_vm w) src ! nat (offset + (row - y) * scan + (col - x))) (jv_arrays v1 (js_dataInt s))
    \<and> rows_rel (jv_arrays (jw_vm w) dst) offset' scan' (nat width) (nat height)
        (\<lambda>r k _ q. q = jv_arrays (jw_vm w) src ! nat (offset + int r * scan + int k)) (jv_arrays v2 dst)"
proof
  let ?h = "jv_arrays (jw_vm w)" and ?h1 = "jv_arrays v1" and ?h2 = "jv_arrays v2" and ?W = "js_width s" and ?d = "js_dataInt s"
  note c = reach_call [OF assms(1-3)]
  note set1 = setRGB_done [OF c assms(4,5,10,11,12)]
  have "surface_reach (w\<lparr>jw_vm := v1\<rparr>)"
    by (rule surface_reach.step [OF assms(1) surface_step.put [OF assms(2,3,4,5,12)]])
  from reach_call [OF this, of n s] assms(2,3) have c1: "jvm_ok v1" "backed v1 s" by simp_all
  note get1 = getRGB_done [OF c1 assms(6,7,10,11,13)]
  have r1: "rows_rel (?h ?d) (y * ?W + x) ?W (nat width) (nat height) (\<lambda>r k p q. q = ?h src ! nat (offset + int r * scan + int k)) (?h1 ?d)"
    and dst: "?h1 dst = ?h dst" using set1(1) assms(8,9) by (simp_all add: copied_def)
  have r2: "rows_rel (?h dst) offset' scan' (nat width) (nat height) (\<lambda>r k p q. q = ?h1 ?d ! nat (y * ?W + x + int r * ?W + int k)) (?h2 dst)"
    using get1(1) assms(9) dst by (simp add: copied_def)
  have rect: "0 \<le> x" "0 \<le> y" "x + width \<le> ?W" "0 < ?W" using set1(2) c(2) by (auto simp: rect_in_def backed_def)
  show "pixels_changed ?W (?h ?d) (\<lambda>row col. y \<le> row \<and> row < y + height \<and> x \<le> col \<and> col < x + width)
      (\<lambda>row col _ q. q = ?h src ! nat (offset + (row - y) * scan + (col - x))) (?h1 ?d)"
    by (rule rows_rel_changed [OF r1]) (use rect assms(10,11) in auto)
  have len: "?W * js_height s \<le> int (length (?h ?d))" "int (length (?h ?d)) < 2147483648"
    using c by (simp_all add: backed_def jvm_ok_def)
  note pos = rect_position [OF set1(2) assms(10,11) len]
  have cell: "?h1 ?d ! nat (y * ?W + x + int r * ?W + int k) = ?h src ! nat (offset + int r * scan + int k)" if "r < nat height" "k < nat width" for r k
  proof (rule rows_rel_cell [OF r1 that pos(2)])
    have "int (Suc r) * ?W \<le> height * ?W" using that(1) rect(4) by (intro mult_right_mono) simp_all
    then show "y * ?W + x + int r * ?W + int k < int (length (?h ?d))" using pos(3) that(2) by (simp add: algebra_simps)
  qed (use rect in simp)
  show "rows_rel (?h dst) offset' scan' (nat width) (nat height) (\<lambda>r k _ q. q = ?h src ! nat (offset + int r * scan + int k)) (?h2 dst)"
    by (rule rows_rel_cong [OF r2]) (simp add: cell)
qed

text \<open>
  A buffer of exactly the pixels that are copied is refused. \<open>rgbCheck\<close> of \<open>AbstractSurface.java\<close> asks that the last pixel of the
  rectangle is inside the array; the native methods ask that the whole last scan line is, so that a call whose last row ends with
  the array passes the check of Java and fails with \<open>IllegalArgumentException\<close> in the native method when the
  scan length is larger than the width.
\<close>

theorem tight_buffer_refused:
  assumes "surface_reach w" "jw_objs w n = Some s" "js_reachable s" "is_i32 offset" "is_i32 scanLength" "0 < width" "0 < height"
    and "rgbCheck s (int (length (jv_arrays (jw_vm w) argb))) offset scanLength x y width height"
    and "int (length (jv_arrays (jw_vm w) argb)) < offset + height * scanLength"
  shows "getRGB pin pinData s argb offset scanLength x y width height (jw_vm w) = Some (Some IllegalArgumentException, jw_vm w)
    \<and> setRGB pin pinData s argb offset scanLength x y width height (jw_vm w) = Some (Some IllegalArgumentException, jw_vm w)"
proof -
  note c = reach_call [OF assms(1-3)]
  obtain t where t: "jv_native (jw_vm w) (js_nativePtr s) = Some t" "is_i32 (sf_width t)" "is_i32 (sf_height t)" "js_nativePtr s \<noteq> 0"
    using c(2) by (auto simp: backed_def)
  have "rgb_start t (int (length (jv_arrays (jw_vm w) argb))) offset scanLength x y width height = Inl IllegalArgumentException"
    using assms(6,7,9) c(1) by (subst rgb_start_eq [OF t(2,3) assms(4,5)]) (simp_all add: jvm_ok_def buffer_holds_def)
  then show ?thesis using assms(8) t(1,4) by (simp add: getRGB_def setRGB_def getRGBImpl_def setRGBImpl_def rgb_call_def)
qed

section \<open>A run\<close>

text \<open>A surface of 3 by 2 pixels over array 0, with arrays 2 and 3 of the caller.\<close>

definition sample_arrays :: arrays where
  "sample_arrays r = (if r = 0 then [10, 11, 12, 13, 14, 15] else if r = 3 then [1, 2, 3, 4, 5, 6] else if r = 2 then [0, 0, 0, 0, 0] else [])"

definition sample_vm :: jvm where
  "sample_vm = \<lparr>jv_arrays = sample_arrays, jv_native = [7 \<mapsto> JavaSurface_initialize TYPE_INT_ARGB_PRE 3 2], jv_memError = False\<rparr>"

definition sample_surface :: jsurface where
  "sample_surface = \<lparr>js_nativePtr = 7, js_width = 3, js_height = 2, js_dataInt = 0, js_handle = 7, js_reachable = True\<rparr>"

definition sample_world :: jworld where
  "sample_world = \<lparr>jw_vm = sample_vm, jw_objs = [0 \<mapsto> sample_surface]\<rparr>"

lemma sample_surface_reach: "surface_reach sample_world"
proof -
  let ?w = "\<lparr>jw_vm = \<lparr>jv_arrays = sample_arrays, jv_native = Map.empty, jv_memError = False\<rparr>, jw_objs = Map.empty\<rparr>"
  have "surface_reach ?w" by (rule surface_reach.start) (simp add: sample_arrays_def)
  moreover have "JavaSurface_new True 7 0 TYPE_INT_ARGB_PRE 3 2 (jw_vm ?w) = (Inr sample_surface, sample_vm)"
    by (simp add: JavaSurface_new_def AbstractSurface_check_def nbits_def numberOfLeadingZeros_def bit_length.simps initialize_def
      sample_surface_def sample_vm_def sample_arrays_def)
  then have "surface_step ?w (?w\<lparr>jw_vm := sample_vm, jw_objs := (jw_objs ?w)(0 \<mapsto> sample_surface)\<rparr>)"
    by (rule surface_step.created [rotated 4]) (simp_all add: is_i32_def)
  ultimately have "surface_reach (?w\<lparr>jw_vm := sample_vm, jw_objs := (jw_objs ?w)(0 \<mapsto> sample_surface)\<rparr>)" by (rule surface_reach.step)
  then show ?thesis by (simp add: sample_world_def)
qed

lemmas sample_defs = sample_world_def sample_vm_def sample_surface_def sample_arrays_def

lemma sample_entry: "jw_objs sample_world 0 = Some sample_surface" "js_reachable sample_surface" "js_dataInt sample_surface = 0"
  by (simp_all add: sample_defs)

lemma sample_accepted:
  "java_accepted True True sample_surface 6 0 3 1 0 2 2" "java_accepted True True sample_surface 5 1 2 1 0 2 2"
  by (simp_all add: java_accepted_def rgbCheck_def rgb_accepted_def rect_in_def buffer_holds_def sample_defs nbits_def numberOfLeadingZeros_def
      bit_length.simps i32_def)

theorem surface_calls_safe_witness:
  "\<exists>ex v'. getRGB True True sample_surface 0 0 3 0 0 3 2 (jw_vm sample_world) = Some (ex, v')
     \<and> (ex = None \<longleftrightarrow> java_accepted True True sample_surface (int (length (jv_arrays (jw_vm sample_world) 0))) 0 3 0 0 3 2)
     \<and> (ex \<noteq> None \<longrightarrow> jv_arrays v' = jv_arrays (jw_vm sample_world))"
  using surface_calls_safe [OF sample_surface_reach sample_entry(1), of 0 3 True True 0 0 0 3 2] sample_entry(2) by (simp add: is_i32_def)

theorem rgb_round_trip_witness:
  "\<exists>v1 v2. setRGB True True sample_surface 3 0 3 1 0 2 2 (jw_vm sample_world) = Some (None, v1)
     \<and> getRGB True True sample_surface 2 1 2 1 0 2 2 v1 = Some (None, v2)
     \<and> rows_rel (jv_arrays (jw_vm sample_world) 2) 1 2 2 2 (\<lambda>r k _ q. q = jv_arrays (jw_vm sample_world) 3 ! nat (0 + int r * 3 + int k)) (jv_arrays v2 2)"
proof -
  have i: "is_i32 0" "is_i32 1" "is_i32 2" "is_i32 3" by (simp_all add: is_i32_def)
  have l: "length (jv_arrays (jw_vm sample_world) 3) = 6" "length (jv_arrays (jw_vm sample_world) 2) = 5" by (simp_all add: sample_defs)
  note c = reach_call [OF sample_surface_reach sample_entry(1,2)]
  from setRGB_result [OF c i(1,4), of True True 3 1 0 2 2] sample_accepted(1) obtain v1 where
    v1: "setRGB True True sample_surface 3 0 3 1 0 2 2 (jw_vm sample_world) = Some (None, v1)"
      "same_lengths (jv_arrays (jw_vm sample_world)) (jv_arrays v1)" by (auto simp: rgb_outcome_def l copied_def)
  have "surface_reach (sample_world\<lparr>jw_vm := v1\<rparr>)"
    by (rule surface_reach.step [OF sample_surface_reach surface_step.put [OF sample_entry(1,2) i(1,4) v1(1)]])
  from reach_call [OF this, of 0 sample_surface] sample_entry have c1: "jvm_ok v1" "backed v1 sample_surface" by simp_all
  have "length (jv_arrays v1 2) = 5" using v1(2) l(2) by (simp add: same_lengths_def)
  with getRGB_result [OF c1 i(2,3), of True True 2 1 0 2 2] sample_accepted(2) obtain v2 where
    v2: "getRGB True True sample_surface 2 1 2 1 0 2 2 v1 = Some (None, v2)" by (auto simp: rgb_outcome_def)
  from rgb_round_trip [OF sample_surface_reach sample_entry(1,2) i(1,4,2,3) _ _ _ _ v1(1) v2] v1(1) v2 show ?thesis
    by (simp add: sample_entry(3))
qed

theorem tight_buffer_refused_witness:
  "rgbCheck sample_surface 5 0 3 1 0 2 2
   \<and> getRGB True True sample_surface 2 0 3 1 0 2 2 (jw_vm sample_world) = Some (Some IllegalArgumentException, jw_vm sample_world)"
proof -
  have check: "rgbCheck sample_surface (int (length (jv_arrays (jw_vm sample_world) 2))) 0 3 1 0 2 2"
    by (simp add: rgbCheck_def sample_defs nbits_def numberOfLeadingZeros_def bit_length.simps i32_def)
  from tight_buffer_refused [OF sample_surface_reach sample_entry(1,2) _ _ _ _ this, of True True] check show ?thesis
    by (simp add: is_i32_def sample_defs)
qed

end
