(* ===== verification/Simd.thy ===== *)
theory Simd
  imports Prelude
begin

text \<open>
  The SSE2 instructions that \<open>jfxmedia/Utils/ColorConverter.c\<close> uses, as the intrinsics of \<open>emmintrin.h\<close> name them. A register
  (\<open>__m128i\<close>) is the list of its 16 bytes, the lowest first, and a plane of memory a list of bytes with a base address. The
  arithmetic instructions work on the eight 16-bit words of a register, modulo \<open>2^16\<close> unless they saturate.
\<close>

section \<open>Registers\<close>

type_synonym m128 = "int list"

definition lo8 :: "int \<Rightarrow> int" where "lo8 w = w mod 256"
definition hi8 :: "int \<Rightarrow> int" where "hi8 w = w div 256 mod 256"
definition join8 :: "int \<Rightarrow> int \<Rightarrow> int" where "join8 a b = a + 256 * b"
definition w16 :: "int \<Rightarrow> int" where "w16 x = x mod 65536"
definition s16 :: "int \<Rightarrow> int" where "s16 x = (if x < 32768 then x else x - 65536)"

fun words :: "m128 \<Rightarrow> int list" where
  "words (a # b # r) = join8 a b # words r"
| "words _ = []"

fun of_words :: "int list \<Rightarrow> m128" where
  "of_words (w # ws) = lo8 w # hi8 w # of_words ws"
| "of_words [] = []"

definition add16 :: "int \<Rightarrow> int \<Rightarrow> int" where "add16 x y = w16 (x + y)"
definition sub16 :: "int \<Rightarrow> int \<Rightarrow> int" where "sub16 x y = w16 (x - y)"
definition mulhi16 :: "int \<Rightarrow> int \<Rightarrow> int" where "mulhi16 x y = w16 (x * y div 65536)"
definition mullo16 :: "int \<Rightarrow> int \<Rightarrow> int" where "mullo16 x y = w16 (x * y)"
definition srai16 :: "nat \<Rightarrow> int \<Rightarrow> int" where "srai16 n x = w16 (drop_bit n (s16 x))"
definition srli16 :: "nat \<Rightarrow> int \<Rightarrow> int" where "srli16 n x = w16 (drop_bit n x)"
definition sat8 :: "int \<Rightarrow> int" where "sat8 x = max 0 (min 255 (s16 x))"

definition mm_setzero_si128 :: m128 where "mm_setzero_si128 = replicate 16 0"
definition mm_set1_epi8 :: "int \<Rightarrow> m128" where "mm_set1_epi8 b = replicate 16 (lo8 b)"
definition mm_set1_epi16 :: "int \<Rightarrow> m128" where "mm_set1_epi16 w = of_words (replicate 8 w)"
definition mm_add_epi16 :: "m128 \<Rightarrow> m128 \<Rightarrow> m128" where "mm_add_epi16 a b = of_words (map2 add16 (words a) (words b))"
definition mm_sub_epi16 :: "m128 \<Rightarrow> m128 \<Rightarrow> m128" where "mm_sub_epi16 a b = of_words (map2 sub16 (words a) (words b))"
definition mm_mulhi_epu16 :: "m128 \<Rightarrow> m128 \<Rightarrow> m128" where "mm_mulhi_epu16 a b = of_words (map2 mulhi16 (words a) (words b))"
definition mm_mullo_epi16 :: "m128 \<Rightarrow> m128 \<Rightarrow> m128" where "mm_mullo_epi16 a b = of_words (map2 mullo16 (words a) (words b))"
definition mm_srai_epi16 :: "m128 \<Rightarrow> nat \<Rightarrow> m128" where "mm_srai_epi16 a n = of_words (map (srai16 n) (words a))"
definition mm_srli_epi16 :: "m128 \<Rightarrow> nat \<Rightarrow> m128" where "mm_srli_epi16 a n = of_words (map (srli16 n) (words a))"
definition mm_packus_epi16 :: "m128 \<Rightarrow> m128 \<Rightarrow> m128" where "mm_packus_epi16 a b = map sat8 (words a @ words b)"

fun interleave :: "nat \<Rightarrow> nat \<Rightarrow> m128 \<Rightarrow> m128 \<Rightarrow> m128" where
  "interleave 0 k a b = []"
| "interleave (Suc n) k a b = take k a @ take k b @ interleave n k (drop k a) (drop k b)"

definition mm_unpacklo_epi8 :: "m128 \<Rightarrow> m128 \<Rightarrow> m128" where "mm_unpacklo_epi8 a b = interleave 8 1 a b"
definition mm_unpackhi_epi8 :: "m128 \<Rightarrow> m128 \<Rightarrow> m128" where "mm_unpackhi_epi8 a b = interleave 8 1 (drop 8 a) (drop 8 b)"
definition mm_unpacklo_epi16 :: "m128 \<Rightarrow> m128 \<Rightarrow> m128" where "mm_unpacklo_epi16 a b = interleave 4 2 a b"
definition mm_unpackhi_epi16 :: "m128 \<Rightarrow> m128 \<Rightarrow> m128" where "mm_unpackhi_epi16 a b = interleave 4 2 (drop 8 a) (drop 8 b)"
definition mm_unpacklo_epi32 :: "m128 \<Rightarrow> m128 \<Rightarrow> m128" where "mm_unpacklo_epi32 a b = interleave 2 4 a b"
definition mm_unpackhi_epi32 :: "m128 \<Rightarrow> m128 \<Rightarrow> m128" where "mm_unpackhi_epi32 a b = interleave 2 4 (drop 8 a) (drop 8 b)"
definition mm_unpacklo_epi64 :: "m128 \<Rightarrow> m128 \<Rightarrow> m128" where "mm_unpacklo_epi64 a b = interleave 1 8 a b"
definition mm_unpackhi_epi64 :: "m128 \<Rightarrow> m128 \<Rightarrow> m128" where "mm_unpackhi_epi64 a b = interleave 1 8 (drop 8 a) (drop 8 b)"
definition mm_srli_si128 :: "m128 \<Rightarrow> nat \<Rightarrow> m128" where "mm_srli_si128 a n = drop n a @ replicate n 0"

lemma join8_bytes [simp]: "join8 (lo8 w) (hi8 w) = w16 w"
proof -
  have "w mod 65536 = w mod 256 + 256 * (w div 256 mod 256)" using zmod_zmult2_eq [of 256 w 256] by simp
  then show ?thesis by (simp add: join8_def lo8_def hi8_def w16_def)
qed

lemma w16_ops [simp]: "w16 (w16 x) = w16 x" "w16 (add16 x y) = add16 x y" "w16 (sub16 x y) = sub16 x y" "w16 (mulhi16 x y) = mulhi16 x y"
    "w16 (mullo16 x y) = mullo16 x y" "w16 (srai16 n x) = srai16 n x" "w16 (srli16 n x) = srli16 n x"
  by (simp_all add: w16_def add16_def sub16_def mulhi16_def mullo16_def srai16_def srli16_def)

lemmas mm_defs = mm_setzero_si128_def mm_set1_epi8_def mm_set1_epi16_def mm_add_epi16_def mm_sub_epi16_def mm_mulhi_epu16_def mm_mullo_epi16_def
  mm_srai_epi16_def mm_srli_epi16_def mm_packus_epi16_def mm_unpacklo_epi8_def mm_unpackhi_epi8_def mm_unpacklo_epi16_def
  mm_unpackhi_epi16_def mm_unpacklo_epi32_def mm_unpackhi_epi32_def mm_unpacklo_epi64_def mm_unpackhi_epi64_def mm_srli_si128_def

section \<open>Memory\<close>

definition mm_loadl_epi64 :: "int list \<Rightarrow> int \<Rightarrow> m128 option" where
  "mm_loadl_epi64 p i = map_option (\<lambda>b. b @ replicate 8 0) (aread p i 8)"

definition mm_loadu_si128 :: "int list \<Rightarrow> int \<Rightarrow> m128 option" where
  "mm_loadu_si128 p i = aread p i 16"

text \<open>The aligned forms fault at an address that is not a multiple of 16.\<close>

definition mm_load_si128 :: "int \<Rightarrow> int list \<Rightarrow> int \<Rightarrow> m128 option" where
  "mm_load_si128 base p i = (if (base + i) mod 16 = 0 then aread p i 16 else None)"

definition mm_store_si128 :: "int \<Rightarrow> int list \<Rightarrow> int \<Rightarrow> m128 \<Rightarrow> int list option" where
  "mm_store_si128 base p i x = (if (base + i) mod 16 = 0 then awrite p i x else None)"

definition mm_storel_epi64 :: "int list \<Rightarrow> int \<Rightarrow> m128 \<Rightarrow> int list option" where
  "mm_storel_epi64 p i x = awrite p i (take 8 x)"

text \<open>\<open>_mm_cvtsi32_si128\<close> of an integer read from memory: its bytes, then zeros.\<close>

definition mm_cvt_i32 :: "int list \<Rightarrow> int \<Rightarrow> m128 option" where
  "mm_cvt_i32 p i = map_option (\<lambda>b. b @ replicate 12 0) (aread p i 4)"

definition mm_cvt_u16 :: "int list \<Rightarrow> int \<Rightarrow> m128 option" where
  "mm_cvt_u16 p i = map_option (\<lambda>b. b @ replicate 14 0) (aread p i 2)"

section \<open>Evaluation\<close>

lemma interleave_numeral [simp]:
  "interleave (numeral n) k a b = take k a @ take k b @ interleave (pred_numeral n) k (drop k a) (drop k b)"
  by (simp add: numeral_eq_Suc)

lemma replicate_numeral_Cons: "replicate (numeral n) x = x # replicate (pred_numeral n) x"
  by (simp add: numeral_eq_Suc)

lemma list_of_8: "length xs = 8 \<Longrightarrow> \<exists>a b c d e f g h. xs = [a, b, c, d, e, f, g, h]"
  by (auto simp: numeral_eq_Suc length_Suc_conv)

lemma list_of_16: "length xs = 16 \<Longrightarrow> \<exists>a b c d e f g h i j k l m n p q. xs = [a, b, c, d, e, f, g, h, i, j, k, l, m, n, p, q]"
  by (auto simp: numeral_eq_Suc length_Suc_conv)

lemma list_of_4: "length xs = 4 \<Longrightarrow> \<exists>a b c d. xs = [a, b, c, d]"
  by (auto simp: numeral_eq_Suc length_Suc_conv)

lemma list_of_2: "length xs = 2 \<Longrightarrow> \<exists>a b. xs = [a, b]"
  by (auto simp: numeral_eq_Suc length_Suc_conv)

end
