(* ===== verification/ColorConverter.thy ===== *)
theory ColorConverter
  imports ColorTables
begin

unbundle bit_operations_syntax

text \<open>
  The planar YCbCr to BGRA converters of \<open>jfxmedia/Utils/ColorConverter.c\<close>: the two
  clamping macros and the generic C implementations (the branch without SSE2 for 4:2:0, and the
  4:2:2 converter that every build uses). A plane is a list of bytes \<open>0 .. 255\<close>, a pointer into it an
  index, the null pointer the empty list; the destination is a separate plane. The functions answer
  the return code together with the destination.
\<close>

section \<open>Conversion functions\<close>

definition TCLAMP_U8 :: "int \<Rightarrow> int option" where
  "TCLAMP_U8 val = aget color_tClip (288 * 2 + val)"

definition SCLAMP_U8 :: "int \<Rightarrow> int option" where
  "SCLAMP_U8 v =
     (let mask = drop_bit 31 (i32 (v - 0x1fe))
      in Some (take_bit 8 ((drop_bit 1 (take_bit 32 v) OR NOT mask) AND NOT (drop_bit 31 v))))"

text \<open>
  The chroma terms \<open>(sfr, sfg, sfb)\<close> of a sample, and the three colour stores of a pixel; the macro
  that clamps green and the one that clamps blue differ between the pixels of a block.
\<close>

definition chroma :: "int \<Rightarrow> int \<Rightarrow> (int \<times> int \<times> int) option" where
  "chroma sf1 sf2 =
     do { rv \<leftarrow> aget color_tRV sf2;
          gu \<leftarrow> aget color_tGU sf1;
          gv \<leftarrow> aget color_tGV sf2;
          bu \<leftarrow> aget color_tBU sf1;
          Some (rv - 446, gu - gv, bu - 554) }"

definition store_px ::
    "(int \<Rightarrow> int option) \<Rightarrow> (int \<Rightarrow> int option) \<Rightarrow> int \<Rightarrow> int \<times> int \<times> int \<Rightarrow> int \<Rightarrow> int list \<Rightarrow> int list option" where
  "store_px clampG clampB sf = (\<lambda>(sfr, sfg, sfb) da bgra.
     do { r \<leftarrow> TCLAMP_U8 (sf + sfr); bgra \<leftarrow> aset bgra (da + 2) r;
          g \<leftarrow> clampG (sf + sfg); bgra \<leftarrow> aset bgra (da + 1) g;
          b \<leftarrow> clampB (sf + sfb); aset bgra da b })"

text \<open>One 2 by 2 block of a 4:2:0 frame, without its alpha bytes.\<close>

definition block420 ::
    "int list \<Rightarrow> int list \<Rightarrow> int list \<Rightarrow> int \<Rightarrow> int \<Rightarrow> int \<Rightarrow> int \<Rightarrow> int \<Rightarrow> int \<Rightarrow> int list \<Rightarrow> int list option" where
  "block420 y v u say1 say2 sau sav da1 da2 bgra =
     do { sf1 \<leftarrow> aget u sau;
          sf2 \<leftarrow> aget v sav;
          sf01 \<leftarrow> aget y say1;
          sf03 \<leftarrow> aget y (say1 + 1);
          sf02 \<leftarrow> aget y say2;
          sf04 \<leftarrow> aget y (say2 + 1);
          sf \<leftarrow> chroma sf1 sf2;
          sf01 \<leftarrow> aget color_tYY sf01;
          sf03 \<leftarrow> aget color_tYY sf03;
          sf02 \<leftarrow> aget color_tYY sf02;
          sf04 \<leftarrow> aget color_tYY sf04;
          bgra \<leftarrow> store_px TCLAMP_U8 SCLAMP_U8 sf01 sf da1 bgra;
          bgra \<leftarrow> store_px TCLAMP_U8 SCLAMP_U8 sf03 sf (da1 + 4) bgra;
          bgra \<leftarrow> store_px TCLAMP_U8 SCLAMP_U8 sf02 sf da2 bgra;
          store_px SCLAMP_U8 TCLAMP_U8 sf04 sf (da2 + 4) bgra }"

definition ColorConvert_YCbCr420p_to_ARGB32 :: "int list \<Rightarrow> int \<times> int list" where
  "ColorConvert_YCbCr420p_to_ARGB32 argb = (1, argb)"

definition ColorConvert_YCbCr420p_to_ARGB32_no_alpha :: "int list \<Rightarrow> int \<times> int list" where
  "ColorConvert_YCbCr420p_to_ARGB32_no_alpha argb = (1, argb)"

definition ColorConvert_YCbCr420p_to_BGRA32 ::
    "int list \<Rightarrow> int \<Rightarrow> int \<Rightarrow> int \<Rightarrow> int list \<Rightarrow> int list \<Rightarrow> int list \<Rightarrow> int list \<Rightarrow> int \<Rightarrow> int \<Rightarrow> int \<Rightarrow> int \<Rightarrow>
     (int \<times> int list) option" where
  "ColorConvert_YCbCr420p_to_BGRA32 bgra bgra_stride width height y v u a y_stride v_stride u_stride a_stride =
     (if bgra = [] \<or> y = [] \<or> u = [] \<or> v = [] then Some (1, bgra)
      else if width \<le> 0 \<or> height \<le> 0 then Some (1, bgra)
      else if (width OR height) AND 1 \<noteq> 0 then Some (1, bgra)
      else
        do { (_, _, _, _, _, _, _, _, bgra) \<leftarrow>
               iter_opt (nat (drop_bit 1 height)) (\<lambda>(sly1, sly2, slu, slv, dl1, dl2, a_row1, a_row2, bgra).
                 do { (_, _, _, _, _, _, _, _, bgra) \<leftarrow>
                        iter_opt (nat (drop_bit 1 width)) (\<lambda>(say1, say2, sau, sav, da1, da2, a_col1, a_col2, bgra).
                          do { bgra \<leftarrow> block420 y v u say1 say2 sau sav da1 da2 bgra;
                               a1 \<leftarrow> aget a a_col1; bgra \<leftarrow> aset bgra (da1 + 3) a1;
                               a2 \<leftarrow> aget a (a_col1 + 1); bgra \<leftarrow> aset bgra (da1 + 7) a2;
                               a3 \<leftarrow> aget a a_col2; bgra \<leftarrow> aset bgra (da2 + 3) a3;
                               a4 \<leftarrow> aget a (a_col2 + 1); bgra \<leftarrow> aset bgra (da2 + 7) a4;
                               Some (say1 + 2, say2 + 2, sau + 1, sav + 1, da1 + 8, da2 + 8,
                                     a_col1 + 2, a_col2 + 2, bgra) })
                          (sly1, sly2, slu, slv, dl1, dl2, a_row1, a_row2, bgra);
                      Some (sly1 + i32 (2 * y_stride), sly2 + i32 (2 * y_stride), slu + u_stride, slv + v_stride,
                            dl1 + i32 (2 * bgra_stride), dl2 + i32 (2 * bgra_stride),
                            a_row1 + i32 (push_bit 1 a_stride), a_row2 + i32 (push_bit 1 a_stride), bgra) })
                 (0, y_stride, 0, 0, 0, bgra_stride, 0, a_stride, bgra);
             Some (0, bgra) })"

definition ColorConvert_YCbCr420p_to_BGRA32_no_alpha ::
    "int list \<Rightarrow> int \<Rightarrow> int \<Rightarrow> int \<Rightarrow> int list \<Rightarrow> int list \<Rightarrow> int list \<Rightarrow> int \<Rightarrow> int \<Rightarrow> int \<Rightarrow> (int \<times> int list) option" where
  "ColorConvert_YCbCr420p_to_BGRA32_no_alpha bgra bgra_stride width height y v u y_stride v_stride u_stride =
     (if bgra = [] \<or> y = [] \<or> u = [] \<or> v = [] then Some (1, bgra)
      else if width \<le> 0 \<or> height \<le> 0 then Some (1, bgra)
      else if (width OR height) AND 1 \<noteq> 0 then Some (1, bgra)
      else
        do { (_, _, _, _, _, _, bgra) \<leftarrow>
               iter_opt (nat (drop_bit 1 height)) (\<lambda>(sly1, sly2, slu, slv, dl1, dl2, bgra).
                 do { (_, _, _, _, _, _, bgra) \<leftarrow>
                        iter_opt (nat (drop_bit 1 width)) (\<lambda>(say1, say2, sau, sav, da1, da2, bgra).
                          do { bgra \<leftarrow> block420 y v u say1 say2 sau sav da1 da2 bgra;
                               bgra \<leftarrow> aset bgra (da2 + 7) 0xff; bgra \<leftarrow> aset bgra (da2 + 3) 0xff;
                               bgra \<leftarrow> aset bgra (da1 + 7) 0xff; bgra \<leftarrow> aset bgra (da1 + 3) 0xff;
                               Some (say1 + 2, say2 + 2, sau + 1, sav + 1, da1 + 8, da2 + 8, bgra) })
                          (sly1, sly2, slu, slv, dl1, dl2, bgra);
                      Some (sly1 + i32 (2 * y_stride), sly2 + i32 (2 * y_stride), slu + u_stride, slv + v_stride,
                            dl1 + i32 (2 * bgra_stride), dl2 + i32 (2 * bgra_stride), bgra) })
                 (0, y_stride, 0, 0, 0, bgra_stride, bgra);
             Some (0, bgra) })"

definition ColorConvert_YCbCr422p_to_ARGB32_no_alpha :: "int list \<Rightarrow> int \<times> int list" where
  "ColorConvert_YCbCr422p_to_ARGB32_no_alpha argb = (1, argb)"

definition ColorConvert_YCbCr422p_to_BGRA32_no_alpha ::
    "int list \<Rightarrow> int \<Rightarrow> int \<Rightarrow> int \<Rightarrow> int list \<Rightarrow> int list \<Rightarrow> int list \<Rightarrow> int \<Rightarrow> int \<Rightarrow> (int \<times> int list) option" where
  "ColorConvert_YCbCr422p_to_BGRA32_no_alpha bgra bgra_stride width height y v u y_stride uv_stride =
     (if bgra = [] \<or> y = [] \<or> u = [] \<or> v = [] then Some (1, bgra)
      else if width \<le> 0 \<or> height \<le> 0 then Some (1, bgra)
      else if width AND 1 \<noteq> 0 then Some (1, bgra)
      else
        do { (_, _, _, _, bgra) \<leftarrow>
               iter_opt (nat height) (\<lambda>(sly1, slu, slv, dl1, bgra).
                 do { (_, _, _, _, bgra) \<leftarrow>
                        iter_opt (nat (drop_bit 1 width)) (\<lambda>(say1, sau, sav, da1, bgra).
                          do { sf1 \<leftarrow> aget u sau;
                               sf2 \<leftarrow> aget v sav;
                               sf01 \<leftarrow> aget y say1;
                               sf03 \<leftarrow> aget y (say1 + 2);
                               sf \<leftarrow> chroma sf1 sf2;
                               sf01 \<leftarrow> aget color_tYY sf01;
                               sf03 \<leftarrow> aget color_tYY sf03;
                               bgra \<leftarrow> store_px TCLAMP_U8 SCLAMP_U8 sf01 sf da1 bgra;
                               bgra \<leftarrow> store_px TCLAMP_U8 SCLAMP_U8 sf03 sf (da1 + 4) bgra;
                               bgra \<leftarrow> aset bgra (da1 + 7) 0xff; bgra \<leftarrow> aset bgra (da1 + 3) 0xff;
                               Some (say1 + 4, sau + 4, sav + 4, da1 + 8, bgra) })
                          (sly1, slu, slv, dl1, bgra);
                      Some (sly1 + y_stride, slu + uv_stride, slv + uv_stride, dl1 + bgra_stride, bgra) })
                 (0, 0, 0, 0, bgra);
             Some (0, bgra) })"

lemma TCLAMP_U8_eq: "- 576 \<le> v \<Longrightarrow> v < 1088 \<Longrightarrow> TCLAMP_U8 v = Some (clamp8 v)"
  using tab_of_get [OF tab_Clip, of v] by (simp add: TCLAMP_U8_def add.commute)

lemma SCLAMP_U8_eq:
  assumes "- (2 ^ 30) \<le> v" "v < 2 ^ 30"
  shows "SCLAMP_U8 v = Some (clamp8 v)"
proof -
  have w: "i32 (v - 510) = v - 510" using assms by (intro i32_id) (simp add: is_i32_def)
  have sh: "drop_bit 31 x = (if x < 0 then - 1 else 0)" if "- (2 ^ 31) \<le> x" "x < 2 ^ 31" for x :: int
  proof (cases "x < 0")
    case True
    have "x div 2 ^ 31 = - 1"
      by (rule int_div_pos_eq [where r = "x + 2 ^ 31"]) (use that True in auto)
    with True show ?thesis by (simp add: drop_bit_eq_div)
  qed (use that in \<open>simp add: drop_bit_eq_div\<close>)
  consider "v < 0" | "0 \<le> v" "v < 510" | "510 \<le> v" by linarith
  then show ?thesis
  proof cases
    case 1
    with assms show ?thesis by (simp add: SCLAMP_U8_def Let_def w sh clamp8_def)
  next
    case 2
    have "take_bit 32 v = v" "take_bit 8 (v div 2) = v div 2"
      using 2 by (auto intro!: take_bit_int_eq_self)
    with 2 show ?thesis
      by (simp add: SCLAMP_U8_def Let_def w sh clamp8_def) (simp add: drop_bit_eq_div)
  next
    case 3
    have "take_bit 8 z OR mask 8 = (mask 8 :: int)" for z
      by (rule bit_eqI) (auto simp: bit_simps)
    with assms 3 show ?thesis by (simp add: SCLAMP_U8_def Let_def w sh clamp8_def) (simp add: mask_eq_exp_minus_1)
  qed
qed

text \<open>The reference pixel: the three channels of a sample, and the byte order of a BGRA pixel.\<close>

definition red8 :: "int \<Rightarrow> int \<Rightarrow> int" where
  "red8 y v = clamp8 (fYY y + (fRV v - 446))"

definition green8 :: "int \<Rightarrow> int \<Rightarrow> int \<Rightarrow> int" where
  "green8 y u v = clamp8 (fYY y + (fGU u - fGV v))"

definition blue8 :: "int \<Rightarrow> int \<Rightarrow> int" where
  "blue8 y u = clamp8 (fYY y + (fBU u - 554))"

definition bgra_byte :: "int \<Rightarrow> int \<Rightarrow> int \<Rightarrow> int \<Rightarrow> nat \<Rightarrow> int" where
  "bgra_byte y u v a k =
     (if k = 0 then blue8 y u else if k = 1 then green8 y u v else if k = 2 then red8 y v else a)"

lemma chan_ranges:
  assumes "is_u8 y" "is_u8 u" "is_u8 v"
  shows "- 576 \<le> fYY y + (fRV v - 446)" "fYY y + (fRV v - 446) < 1088"
    "- 576 \<le> fYY y + (fGU u - fGV v)" "fYY y + (fGU u - fGV v) < 1088"
    "- 576 \<le> fYY y + (fBU u - 554)" "fYY y + (fBU u - 554) < 1088"
proof -
  have "0 \<le> fYY y" "fYY y \<le> 594" "0 \<le> fRV v" "fRV v \<le> 814" "71 \<le> fGU u" "fGU u \<le> 271"
    "0 \<le> fGV v" "fGV v \<le> 415" "0 \<le> fBU u" "fBU u \<le> 1029"
    using assms unfolding fYY_def fRV_def fGU_def fGV_def fBU_def is_u8_def by linarith+
  then show "- 576 \<le> fYY y + (fRV v - 446)" "fYY y + (fRV v - 446) < 1088"
    "- 576 \<le> fYY y + (fGU u - fGV v)" "fYY y + (fGU u - fGV v) < 1088"
    "- 576 \<le> fYY y + (fBU u - 554)" "fYY y + (fBU u - 554) < 1088" by linarith+
qed

lemma chroma_eq: "is_u8 u \<Longrightarrow> is_u8 v \<Longrightarrow> chroma u v = Some (fRV v - 446, fGU u - fGV v, fBU u - 554)"
  by (simp add: chroma_def tab_get)

lemma clamp_eqs:
  assumes "is_u8 y" "is_u8 u" "is_u8 v" "clamp = TCLAMP_U8 \<or> clamp = SCLAMP_U8"
  shows "clamp (fYY y + (fRV v - 446)) = Some (red8 y v)" "clamp (fYY y + (fGU u - fGV v)) = Some (green8 y u v)"
    "clamp (fYY y + (fBU u - 554)) = Some (blue8 y u)"
  using chan_ranges [OF assms(1-3)] assms(4)
  by (auto simp: TCLAMP_U8_eq SCLAMP_U8_eq red8_def green8_def blue8_def)

text \<open>
  the two clamping macros agree: for every value the converters can form, the table lookup
  \<open>TCLAMP_U8\<close> stays inside the table and gives the same byte as the branch-free \<open>SCLAMP_U8\<close>,
  half the value clamped to \<open>0 .. 255\<close>.
\<close>

theorem clamps_agree:
  assumes "is_u8 y" "is_u8 u" "is_u8 v" "chroma u v = Some (sfr, sfg, sfb)" "aget color_tYY y = Some yy"
    and "c = sfr \<or> c = sfg \<or> c = sfb"
  shows "TCLAMP_U8 (yy + c) = Some (max 0 (min 255 ((yy + c) div 2))) \<and> SCLAMP_U8 (yy + c) = TCLAMP_U8 (yy + c)"
proof -
  have "yy = fYY y" "sfr = fRV v - 446" "sfg = fGU u - fGV v" "sfb = fBU u - 554"
    using assms(4,5) chroma_eq [OF assms(2,3)] tab_get(1) [OF assms(1)] by auto
  then have "- 576 \<le> yy + c" "yy + c < 1088"
    using chan_ranges [OF assms(1-3)] assms(6) by auto
  then show ?thesis by (simp add: TCLAMP_U8_eq SCLAMP_U8_eq clamp8_def)
qed

theorem clamps_agree_witness: "TCLAMP_U8 (fYY 255 + 475) = Some 255 \<and> SCLAMP_U8 (fYY 255 + 475) = Some 255"
proof -
  have "is_u8 255" "is_u8 0" by (simp_all add: is_u8_def)
  moreover have "chroma 255 0 = Some (- 446, 71, 475)" "aget color_tYY 255 = Some (fYY 255)"
    using calculation by (simp_all add: chroma_eq tab_get fRV_def fGU_def fGV_def fBU_def)
  ultimately show ?thesis
    using clamps_agree [of 255 255 0 "- 446" 71 475 "fYY 255" 475] by (simp add: fYY_def)
qed

text \<open>
  C35: the fixed-point conversion is BT.601: before clamping, the channels (held doubled) are within
  one rounding step per table of \<open>2 (1.1644 (Y - 16) + 1.5966 (V - 128))\<close> and the matching formulas
  for green and blue, for every sample; so a clamped channel is off by less than one unit, green by
  less than one and a half.
\<close>

theorem bt601_error:
  assumes "is_u8 y" "is_u8 u" "is_u8 v"
    and "aget color_tYY y = Some yy" "chroma u v = Some (sfr, sfg, sfb)"
  shows "\<bar>10000 * (yy + sfr) - 2 * (11644 * (y - 16) + 15966 * (v - 128))\<bar> \<le> 10200
    \<and> \<bar>10000 * (yy + sfg) - 2 * (11644 * (y - 16) - 3920 * (u - 128) - 8132 * (v - 128))\<bar> \<le> 15000
    \<and> \<bar>10000 * (yy + sfb) - 2 * (11644 * (y - 16) + 20184 * (u - 128))\<bar> \<le> 10400"
proof -
  have eqs: "yy = fYY y" "sfr = fRV v - 446" "sfg = fGU u - fGV v" "sfb = fBU u - 554"
    using assms(4,5) chroma_eq [OF assms(2,3)] tab_get(1) [OF assms(1)] by auto
  have r: "10000 * ((x + 4999) div 10000) \<le> x + 5000" "x - 5000 \<le> 10000 * ((x + 4999) div 10000)" for x :: int
  proof -
    have "10000 * ((x + 4999) div 10000) + (x + 4999) mod 10000 = x + 4999" by simp
    moreover have "0 \<le> (x + 4999) mod 10000" "(x + 4999) mod 10000 < 10000" by simp_all
    ultimately show "10000 * ((x + 4999) div 10000) \<le> x + 5000" "x - 5000 \<le> 10000 * ((x + 4999) div 10000)"
      by linarith+
  qed
  note y = r [of "23288 * y", folded fYY_def] and rv = r [of "31932 * v", folded fRV_def]
    and gu = r [of "2712704 - 7840 * u", folded fGU_def] and gv = r [of "16264 * v", folded fGV_def]
    and bu = r [of "40368 * u", folded fBU_def]
  show ?thesis
    unfolding eqs abs_le_iff
  proof (intro conjI, goal_cases)
    case 1 show ?case using y rv by (simp add: algebra_simps)
  next
    case 2 show ?case using y rv by (simp add: algebra_simps)
  next
    case 3 show ?case using y gu gv by (simp add: algebra_simps)
  next
    case 4 show ?case using y gu gv by (simp add: algebra_simps)
  next
    case 5 show ?case using y bu by (simp add: algebra_simps)
  next
    case 6 show ?case using y bu by (simp add: algebra_simps)
  qed
qed

theorem bt601_error_witness: "\<bar>10000 * (fYY 16 - 446 + 409) - 0\<bar> \<le> 10200"
proof -
  have "is_u8 16" "is_u8 128" by (simp_all add: is_u8_def)
  then show ?thesis
    using bt601_error [of 16 128 128 "fYY 16" "- 37" "- 37" "- 37"]
    by (simp add: chroma_eq tab_get fRV_def fGU_def fGV_def fBU_def fYY_def)
qed


section \<open>Frames\<close>

text \<open>
  The converters only ever store the byte that the target function has at that position, so a conversion is \<open>filled d W f\<close> for a
  growing \<open>W\<close>.
\<close>

lemma store_px_filled:
  assumes "is_u8 y" "is_u8 u" "is_u8 v"
    and "clampG = TCLAMP_U8 \<or> clampG = SCLAMP_U8" "clampB = TCLAMP_U8 \<or> clampB = SCLAMP_U8"
    and "q + 2 < length d" "p = int q"
    and "f q = blue8 y u" "f (q + 1) = green8 y u v" "f (q + 2) = red8 y v"
  shows "store_px clampG clampB (fYY y) (fRV v - 446, fGU u - fGV v, fBU u - 554) p (filled d W f)
    = Some (filled d ({q, q + 1, q + 2} \<union> W) f)"
proof -
  have "aset (filled d W f) (p + 2) (red8 y v) = Some (filled d (insert (q + 2) W) f)"
    "aset (filled d (insert (q + 2) W) f) (p + 1) (green8 y u v) = Some (filled d (insert (q + 1) (insert (q + 2) W)) f)"
    "aset (filled d (insert (q + 1) (insert (q + 2) W)) f) p (blue8 y u)
      = Some (filled d (insert q (insert (q + 1) (insert (q + 2) W))) f)"
    using assms by (auto intro!: aset_filled)
  then show ?thesis
    using clamp_eqs(1) [OF assms(1-3), of TCLAMP_U8] clamp_eqs(2) [OF assms(1-4)] clamp_eqs(3) [OF assms(1-3,5)]
    by (simp add: store_px_def)
qed

text \<open>A plane of \<open>rows\<close> rows of \<open>cols\<close> bytes, \<open>stride\<close> bytes apart.\<close>

definition plane_ok :: "int list \<Rightarrow> nat \<Rightarrow> nat \<Rightarrow> nat \<Rightarrow> bool" where
  "plane_ok p stride rows cols \<longleftrightarrow> (\<forall>b \<in> set p. is_u8 b)
     \<and> (\<forall>r < rows. \<forall>c < cols. r * stride + c < length p)"

lemma plane_get:
  assumes "plane_ok p stride rows cols" "r < rows" "c < cols" "i = int (r * stride + c)"
  shows "aget p i = Some (p ! (r * stride + c))" "is_u8 (p ! (r * stride + c))"
proof -
  have lt: "r * stride + c < length p" using assms(1-3) by (simp add: plane_ok_def)
  then show "aget p i = Some (p ! (r * stride + c))"
    unfolding assms(4) aget_def by (simp only: nat_int of_nat_less_iff of_nat_0_le_iff if_True simp_thms)
  show "is_u8 (p ! (r * stride + c))" using lt assms(1) by (simp add: plane_ok_def)
qed

lemma plane_okI:
  assumes "\<forall>b \<in> set p. is_u8 b" "0 < rows \<Longrightarrow> 0 < cols \<Longrightarrow> (rows - 1) * stride + cols \<le> length p"
  shows "plane_ok p stride rows cols"
  unfolding plane_ok_def
proof (intro conjI allI impI)
  fix r c assume "r < rows" "c < cols"
  then have "r * stride \<le> (rows - 1) * stride" by (intro mult_le_mono1) simp
  with \<open>r < rows\<close> \<open>c < cols\<close> assms(2) show "r * stride + c < length p" by linarith
qed (use assms in blast)

text \<open>The byte at position \<open>x\<close> of a converted 4:2:0 frame.\<close>

definition byte420 ::
    "nat \<Rightarrow> int list \<Rightarrow> nat \<Rightarrow> int list \<Rightarrow> nat \<Rightarrow> int list \<Rightarrow> nat \<Rightarrow> (nat \<Rightarrow> nat \<Rightarrow> int) \<Rightarrow> nat \<Rightarrow> int" where
  "byte420 S y ys u us v vs al x =
     (let r = x div S; c = x mod S div 4
      in bgra_byte (y ! (r * ys + c)) (u ! (r div 2 * us + c div 2)) (v ! (r div 2 * vs + c div 2))
           (al r c) (x mod S mod 4))"

lemma byte420_at:
  assumes "8 * i + m < S" "m < 8" "t < 2"
  shows "byte420 S y ys u us v vs al ((2 * j + t) * S + (8 * i + m)) =
    bgra_byte (y ! ((2 * j + t) * ys + (2 * i + m div 4))) (u ! (j * us + i)) (v ! (j * vs + i))
      (al (2 * j + t) (2 * i + m div 4)) (m mod 4)"
proof -
  have "((2 * j + t) * S + (8 * i + m)) div S = 2 * j + t" "((2 * j + t) * S + (8 * i + m)) mod S = 8 * i + m"
    using assms(1) by simp_all
  moreover have "(2 * j + t) div 2 = j" using assms(3) by simp
  moreover have "(8 * i + m) div 4 = 2 * i + m div 4" "(8 * i + m) mod 4 = m mod 4"
    using div_mult_self1 [of 4 m "2 * i"] mod_mult_self1 [of m "2 * i" 4] by (simp_all add: add.commute)
  moreover have "m div 4 < 2" using assms(2) by simp
  then have "(2 * i + m div 4) div 2 = i" by simp
  ultimately show ?thesis by (simp add: byte420_def Let_def)
qed


definition frame420_ok ::
    "int list \<Rightarrow> nat \<Rightarrow> nat \<Rightarrow> nat \<Rightarrow> int list \<Rightarrow> nat \<Rightarrow> int list \<Rightarrow> nat \<Rightarrow> int list \<Rightarrow> nat \<Rightarrow> bool" where
  "frame420_ok d S wh hh y ys u us v vs \<longleftrightarrow>
     8 * wh \<le> S \<and> S < 2 ^ 30 \<and> ys < 2 ^ 30 \<and> 0 < wh \<and> 0 < hh
     \<and> (\<forall>r < 2 * hh. \<forall>c < 8 * wh. r * S + c < length d)
     \<and> plane_ok y ys (2 * hh) (2 * wh) \<and> plane_ok u us hh wh \<and> plane_ok v vs hh wh"

definition colour_bytes :: "nat \<Rightarrow> nat set" where
  "colour_bytes q = {q, q + 1, q + 2, q + 4, q + 5, q + 6}"

lemma px_pair_bytes: "insert (q + 7) (insert (q + 3) (colour_bytes q \<union> W)) = {q..<q + 8} \<union> W"
  by (auto simp: colour_bytes_def)

text \<open>Two neighbouring pixels that share their chroma sample.\<close>

lemma pair_filled:
  assumes "is_u8 y0" "is_u8 y1" "is_u8 u" "is_u8 v"
    and "G = TCLAMP_U8 \<or> G = SCLAMP_U8" "B = TCLAMP_U8 \<or> B = SCLAMP_U8"
    and "q + 7 < length d" "\<forall>m < 8. f (q + m) = bgra_byte (if m < 4 then y0 else y1) u v (al m) (m mod 4)"
    and "p = int q" "p' = int q + 4"
  shows "do { d1 \<leftarrow> store_px TCLAMP_U8 SCLAMP_U8 (fYY y0) (fRV v - 446, fGU u - fGV v, fBU u - 554) p (filled d W f);
              store_px G B (fYY y1) (fRV v - 446, fGU u - fGV v, fBU u - 554) p' d1 }
    = Some (filled d (colour_bytes q \<union> W) f)"
proof -
  have "f q = blue8 y0 u" "f (q + 1) = green8 y0 u v" "f (q + 2) = red8 y0 v"
    using assms(8) [rule_format, of 0] assms(8) [rule_format, of 1] assms(8) [rule_format, of 2]
    by (simp_all add: bgra_byte_def)
  then have 1: "store_px TCLAMP_U8 SCLAMP_U8 (fYY y0) (fRV v - 446, fGU u - fGV v, fBU u - 554) p (filled d W f)
      = Some (filled d ({q, q + 1, q + 2} \<union> W) f)"
    using assms by (intro store_px_filled) auto
  have "f (q + 4) = blue8 y1 u" "f (q + 4 + 1) = green8 y1 u v" "f (q + 4 + 2) = red8 y1 v"
    using assms(8) [rule_format, of 4] assms(8) [rule_format, of 5] assms(8) [rule_format, of 6]
    by (simp_all add: bgra_byte_def add.commute [of q])
  then have 2: "store_px G B (fYY y1) (fRV v - 446, fGU u - fGV v, fBU u - 554) p' (filled d W' f)
      = Some (filled d ({q + 4, q + 4 + 1, q + 4 + 2} \<union> W') f)" for W'
    using assms(1-7,9,10) by (intro store_px_filled) simp_all
  have "{q + 4, q + 4 + 1, q + 4 + 2} \<union> ({q, q + 1, q + 2} \<union> W) = colour_bytes q \<union> W"
    by (auto simp: colour_bytes_def)
  with 1 2 show ?thesis by (simp only: Option.bind.bind_lunit)
qed

lemma block420_filled:
  assumes ok: "frame420_ok d S wh hh y ys u us v vs" and ji: "j < hh" "i < wh"
    and f: "f = byte420 S y ys u us v vs al"
    and eqs: "say1 = int (2 * j * ys + 2 * i)" "say2 = int ((2 * j + 1) * ys + 2 * i)"
      "sau = int (j * us + i)" "sav = int (j * vs + i)"
      "da1 = int (2 * j * S + 8 * i)" "da2 = int ((2 * j + 1) * S + 8 * i)"
  shows "block420 y v u say1 say2 sau sav da1 da2 (filled d W f)
    = Some (filled d (colour_bytes ((2 * j + 1) * S + 8 * i) \<union> (colour_bytes (2 * j * S + 8 * i) \<union> W)) f)"
proof -
  have planes: "plane_ok y ys (2 * hh) (2 * wh)" "plane_ok u us hh wh" "plane_ok v vs hh wh"
    and S: "8 * wh \<le> S" and len: "\<And>r c. r < 2 * hh \<Longrightarrow> c < 8 * wh \<Longrightarrow> r * S + c < length d"
    using ok by (auto simp: frame420_ok_def)
  have r: "2 * j < 2 * hh" "2 * j + 1 < 2 * hh" and c: "2 * i < 2 * wh" "2 * i + 1 < 2 * wh" using ji by auto
  note U = plane_get [OF planes(2) ji eqs(3)] and V = plane_get [OF planes(3) ji eqs(4)]
  note Y1 = plane_get [OF planes(1) r(1) c(1) eqs(1)] and Y2 = plane_get [OF planes(1) r(2) c(1) eqs(2)]
  have Y3: "aget y (say1 + 1) = Some (y ! (2 * j * ys + (2 * i + 1)))" "is_u8 (y ! (2 * j * ys + (2 * i + 1)))"
    by (rule plane_get [OF planes(1) r(1) c(2)], simp add: eqs) (rule plane_get [OF planes(1) r(1) c(2) refl])
  have Y4: "aget y (say2 + 1) = Some (y ! ((2 * j + 1) * ys + (2 * i + 1)))" "is_u8 (y ! ((2 * j + 1) * ys + (2 * i + 1)))"
    by (rule plane_get [OF planes(1) r(2) c(2)], simp add: eqs) (rule plane_get [OF planes(1) r(2) c(2) refl])
  have at: "f ((2 * j + t) * S + 8 * i + m) =
      bgra_byte (if m < 4 then y ! ((2 * j + t) * ys + 2 * i) else y ! ((2 * j + t) * ys + (2 * i + 1)))
        (u ! (j * us + i)) (v ! (j * vs + i)) (al (2 * j + t) (2 * i + m div 4)) (m mod 4)"
    if "m < 8" "t < 2" for m t
  proof -
    have "8 * i + m < S" "m div 4 = (if m < 4 then 0 else 1)" using that(1) ji S by auto
    with byte420_at [OF this(1) that] show ?thesis unfolding f by (simp add: add.assoc)
  qed
  have lt: "2 * j * S + 8 * i + 7 < length d" "(2 * j + 1) * S + 8 * i + 7 < length d"
    using len [OF r(1), of "8 * i + 7"] len [OF r(2), of "8 * i + 7"] ji by (simp_all add: add.assoc)
  let ?sf = "(fRV (v ! (j * vs + i)) - 446, fGU (u ! (j * us + i)) - fGV (v ! (j * vs + i)), fBU (u ! (j * us + i)) - 554)"
  have at1: "\<forall>m < 8. f (2 * j * S + 8 * i + m) =
      bgra_byte (if m < 4 then y ! (2 * j * ys + 2 * i) else y ! (2 * j * ys + (2 * i + 1)))
        (u ! (j * us + i)) (v ! (j * vs + i)) (al (2 * j) (2 * i + m div 4)) (m mod 4)"
    using at [where t = 0] by simp
  have at2: "\<forall>m < 8. f ((2 * j + 1) * S + 8 * i + m) =
      bgra_byte (if m < 4 then y ! ((2 * j + 1) * ys + 2 * i) else y ! ((2 * j + 1) * ys + (2 * i + 1)))
        (u ! (j * us + i)) (v ! (j * vs + i)) (al (2 * j + 1) (2 * i + m div 4)) (m mod 4)"
    using at [where t = 1] by simp
  have d4: "da1 + 4 = int (2 * j * S + 8 * i) + 4" "da2 + 4 = int ((2 * j + 1) * S + 8 * i) + 4" by (simp_all add: eqs)
  have p1: "do { d1 \<leftarrow> store_px TCLAMP_U8 SCLAMP_U8 (fYY (y ! (2 * j * ys + 2 * i))) ?sf da1 (filled d W f);
      store_px TCLAMP_U8 SCLAMP_U8 (fYY (y ! (2 * j * ys + (2 * i + 1)))) ?sf (da1 + 4) d1 }
      = Some (filled d (colour_bytes (2 * j * S + 8 * i) \<union> W) f)" for W
    by (rule pair_filled [OF Y1(2) Y3(2) U(2) V(2) _ _ lt(1) at1 eqs(5) d4(1)]) simp_all
  have p2: "do { d1 \<leftarrow> store_px TCLAMP_U8 SCLAMP_U8 (fYY (y ! ((2 * j + 1) * ys + 2 * i))) ?sf da2 (filled d W f);
      store_px SCLAMP_U8 TCLAMP_U8 (fYY (y ! ((2 * j + 1) * ys + (2 * i + 1)))) ?sf (da2 + 4) d1 }
      = Some (filled d (colour_bytes ((2 * j + 1) * S + 8 * i) \<union> W) f)" for W
    by (rule pair_filled [OF Y2(2) Y4(2) U(2) V(2) _ _ lt(2) at2 eqs(6) d4(2)]) simp_all
  show ?thesis
    unfolding block420_def U(1) V(1) Y1(1) Y2(1) Y3(1) Y4(1)
      chroma_eq [OF U(2) V(2)] tab_get(1) [OF Y1(2)] tab_get(1) [OF Y2(2)] tab_get(1) [OF Y3(2)] tab_get(1) [OF Y4(2)]
      Option.bind.bind_lunit
    by (subst bind_assoc [symmetric]) (simp only: p1 p2 Option.bind.bind_lunit)
qed


text \<open>The bytes written after \<open>j\<close> row pairs and \<open>i\<close> blocks of the next one.\<close>

definition cover420 :: "nat \<Rightarrow> nat \<Rightarrow> nat \<Rightarrow> nat \<Rightarrow> nat set" where
  "cover420 S wh j i = (\<Union>r < 2 * j. {r * S..<r * S + 8 * wh}) \<union>
     ({2 * j * S..<2 * j * S + 8 * i} \<union> {(2 * j + 1) * S..<(2 * j + 1) * S + 8 * i})"

lemma cover420_0 [simp]: "cover420 S wh 0 0 = {}"
  by (simp add: cover420_def)

lemma cover420_block:
  "{(2 * j + 1) * S + 8 * i..<(2 * j + 1) * S + 8 * i + 8} \<union> ({2 * j * S + 8 * i..<2 * j * S + 8 * i + 8} \<union> cover420 S wh j i)
    = cover420 S wh j (Suc i)"
proof -
  have "{a + 8 * i..<a + 8 * i + 8} \<union> {a..<a + 8 * i} = {a..<a + 8 * Suc i}" for a :: nat by auto
  from this [of "2 * j * S"] this [of "(2 * j + 1) * S"] show ?thesis unfolding cover420_def by blast
qed

lemma cover420_rows: "cover420 S wh j wh = cover420 S wh (Suc j) 0"
  by (auto simp: cover420_def less_Suc_eq)

text \<open>What a converted frame is: every pixel of it, and nothing else, holds the converted sample.\<close>

definition frame420 ::
    "int list \<Rightarrow> nat \<Rightarrow> nat \<Rightarrow> nat \<Rightarrow> int list \<Rightarrow> nat \<Rightarrow> int list \<Rightarrow> nat \<Rightarrow> int list \<Rightarrow> nat \<Rightarrow> (nat \<Rightarrow> nat \<Rightarrow> int) \<Rightarrow> int list \<Rightarrow> bool" where
  "frame420 d S w h y ys u us v vs al d' \<longleftrightarrow> length d' = length d
     \<and> (\<forall>r < h. \<forall>c < w. \<forall>k < 4. d' ! (r * S + (4 * c + k)) =
          bgra_byte (y ! (r * ys + c)) (u ! (r div 2 * us + c div 2)) (v ! (r div 2 * vs + c div 2)) (al r c) k)
     \<and> (\<forall>x < length d. (\<forall>r < h. \<forall>c < 4 * w. x \<noteq> r * S + c) \<longrightarrow> d' ! x = d ! x)"

lemma filled_frame420:
  assumes "frame420_ok d S wh hh y ys u us v vs"
  shows "frame420 d S (2 * wh) (2 * hh) y ys u us v vs al
    (filled d (cover420 S wh hh 0) (byte420 S y ys u us v vs al))"
  unfolding frame420_def
proof (intro conjI allI impI)
  fix r c k :: nat assume rck: "r < 2 * hh" "c < 2 * wh" "k < 4"
  then have o: "4 * c + k < 8 * wh" by auto
  with rck assms have lt: "r * S + (4 * c + k) < length d" "4 * c + k < S" by (auto simp: frame420_ok_def)
  have "r * S + (4 * c + k) \<in> cover420 S wh hh 0" using rck(1) o by (auto simp: cover420_def intro!: bexI [of _ r])
  moreover have "(r * S + (4 * c + k)) div S = r" "(r * S + (4 * c + k)) mod S = 4 * c + k" using lt(2) by simp_all
  ultimately show "filled d (cover420 S wh hh 0) (byte420 S y ys u us v vs al) ! (r * S + (4 * c + k)) =
      bgra_byte (y ! (r * ys + c)) (u ! (r div 2 * us + c div 2)) (v ! (r div 2 * vs + c div 2)) (al r c) k"
    using rck(3) by (simp add: filled_nth [OF lt(1)] byte420_def Let_def)
next
  fix x assume x: "x < length d" "\<forall>r < 2 * hh. \<forall>c < 4 * (2 * wh). x \<noteq> r * S + c"
  have "x \<notin> cover420 S wh hh 0"
  proof
    assume "x \<in> cover420 S wh hh 0"
    then obtain r where "r < 2 * hh" "r * S \<le> x" "x < r * S + 8 * wh" by (auto simp: cover420_def)
    then have "x = r * S + (x - r * S)" "x - r * S < 4 * (2 * wh)" by auto
    with x(2) \<open>r < 2 * hh\<close> show False by blast
  qed
  with x(1) show "filled d (cover420 S wh hh 0) (byte420 S y ys u us v vs al) ! x = d ! x"
    by (simp add: filled_nth)
qed simp


lemma even_guard:
  assumes "0 < wh" "0 < hh"
  shows "\<not> (int (2 * wh) \<le> 0 \<or> int (2 * hh) \<le> 0)" "(int (2 * wh) OR int (2 * hh)) AND 1 = 0"
    "nat (drop_bit 1 (int (2 * wh))) = wh" "nat (drop_bit 1 (int (2 * hh))) = hh"
proof -
  have "even (int (2 * wh) OR int (2 * hh))" by (simp add: even_or_iff)
  then show "(int (2 * wh) OR int (2 * hh)) AND 1 = 0" by (simp add: and_one_eq even_iff_mod_2_eq_zero)
  show "nat (drop_bit 1 (int (2 * wh))) = wh" "nat (drop_bit 1 (int (2 * hh))) = hh"
    by (simp_all add: drop_bit_eq_div)
qed (use assms in auto)

lemma frame420_ok_nonempty:
  assumes "frame420_ok d S wh hh y ys u us v vs"
  shows "\<not> (d = [] \<or> y = [] \<or> u = [] \<or> v = [])"
proof -
  have p: "0 < wh" "0 < hh" "0 < 2 * hh" "0 < 8 * wh" "0 < 2 * wh" using assms by (auto simp: frame420_ok_def)
  have "0 * S + 0 < length d" using assms p by (auto simp only: frame420_ok_def)
  moreover have "0 * ys + 0 < length y" "0 * us + 0 < length u" "0 * vs + 0 < length v"
    using assms p unfolding frame420_ok_def plane_ok_def by blast+
  ultimately show ?thesis by auto
qed

lemma alpha_byte420:
  assumes ok: "frame420_ok d S wh hh y ys u us v vs" and ji: "j < hh" "i < wh" and t: "t < 2"
    and f: "f = byte420 S y ys u us v vs al"
  shows "(2 * j + t) * S + 8 * i + 7 < length d"
    "f ((2 * j + t) * S + 8 * i + 3) = al (2 * j + t) (2 * i)"
    "f ((2 * j + t) * S + 8 * i + 7) = al (2 * j + t) (2 * i + 1)"
proof -
  have o: "8 * i + 3 < S" "8 * i + 7 < S" "8 * i + 7 < 8 * wh" and r: "2 * j + t < 2 * hh"
    using ok ji t by (auto simp: frame420_ok_def)
  have "(2 * j + t) * S + (8 * i + 7) < length d" using ok r o(3) unfolding frame420_ok_def by blast
  then show "(2 * j + t) * S + 8 * i + 7 < length d" by (simp add: add.assoc)
  show "f ((2 * j + t) * S + 8 * i + 3) = al (2 * j + t) (2 * i)"
    using byte420_at [OF o(1) _ t, of y ys u us v vs al j] by (simp add: f add.assoc bgra_byte_def)
  show "f ((2 * j + t) * S + 8 * i + 7) = al (2 * j + t) (2 * i + 1)"
    using byte420_at [OF o(2) _ t, of y ys u us v vs al j] by (simp add: f add.assoc bgra_byte_def)
qed

text \<open>The stride arithmetic of a frame does not overflow.\<close>

lemma frame420_ok_strides:
  assumes "frame420_ok d S wh hh y ys u us v vs"
  shows "i32 (2 * int S) = 2 * int S" "i32 (2 * int ys) = 2 * int ys"
  using assms by (auto simp: frame420_ok_def i32_small)

lemma convert420_no_alpha:
  assumes ok: "frame420_ok d S wh hh y ys u us v vs"
  shows "ColorConvert_YCbCr420p_to_BGRA32_no_alpha d (int S) (int (2 * wh)) (int (2 * hh)) y v u (int ys) (int vs) (int us)
    = Some (0, filled d (cover420 S wh hh 0) (byte420 S y ys u us v vs (\<lambda>_ _. 255)))"
proof -
  define f where "f = byte420 S y ys u us v vs (\<lambda>_ _. 255)"
  have pos: "0 < wh" "0 < hh" and S: "8 * wh \<le> S" using ok by (auto simp: frame420_ok_def)
  define inner where "inner = (\<lambda>(say1, say2, sau, sav, da1, da2, bgra).
      do { bgra \<leftarrow> block420 y v u say1 say2 sau sav da1 da2 bgra;
           bgra \<leftarrow> aset bgra (da2 + 7) 0xff; bgra \<leftarrow> aset bgra (da2 + 3) 0xff;
           bgra \<leftarrow> aset bgra (da1 + 7) 0xff; bgra \<leftarrow> aset bgra (da1 + 3) 0xff;
           Some (say1 + 2, say2 + 2, sau + 1, sav + 1, da1 + 8, da2 + 8, bgra) })"
  define at where "at = (\<lambda>j i. (int (2 * j * ys + 2 * i), int ((2 * j + 1) * ys + 2 * i), int (j * us + i), int (j * vs + i),
      int (2 * j * S + 8 * i), int ((2 * j + 1) * S + 8 * i), filled d (cover420 S wh j i) f))"
  have step: "inner (at j i) = Some (at j (Suc i))" if "j < hh" "i < wh" for j i
  proof -
    let ?q1 = "2 * j * S + 8 * i" and ?q2 = "(2 * j + 1) * S + 8 * i"
    note a1 = alpha_byte420 [where t = 0, OF ok that _ f_def, simplified]
      and a2 = alpha_byte420 [where t = 1, OF ok that _ f_def, simplified]
    note block = block420_filled [OF ok that f_def refl refl refl refl refl refl, of "cover420 S wh j i"]
    have put: "aset (filled d W f) (int q + m) 255 = Some (filled d (insert (q + nat m) W) f)"
      if "q + nat m < length d" "f (q + nat m) = 255" "0 \<le> m" for q m W
      using that by (intro aset_filled) auto
    have "inner (at j i) = Some (int (2 * j * ys + 2 * i) + 2, int ((2 * j + 1) * ys + 2 * i) + 2, int (j * us + i) + 1,
        int (j * vs + i) + 1, int ?q1 + 8, int ?q2 + 8,
        filled d (insert (?q1 + 3) (insert (?q1 + 7) (insert (?q2 + 3) (insert (?q2 + 7)
          (colour_bytes ?q2 \<union> (colour_bytes ?q1 \<union> cover420 S wh j i)))))) f)"
      unfolding inner_def at_def prod.case block Option.bind.bind_lunit using a1 a2
      by (simp add: put del: of_nat_add of_nat_mult of_nat_Suc)
    also have "insert (?q1 + 3) (insert (?q1 + 7) (insert (?q2 + 3) (insert (?q2 + 7)
          (colour_bytes ?q2 \<union> (colour_bytes ?q1 \<union> cover420 S wh j i))))) = cover420 S wh j (Suc i)"
      unfolding cover420_block [symmetric] px_pair_bytes [symmetric] by blast
    finally show ?thesis by (simp add: at_def)
  qed
  have row: "iter_opt n inner (at j i) = Some (at j (i + n))" if "j < hh" "i + n \<le> wh" for j i n
    using that(2)
  proof (induction n arbitrary: i)
    case (Suc n)
    with Suc.IH [of "Suc i"] step [OF that(1), of i] show ?case by simp
  qed simp
  define outer where "outer = (\<lambda>(sly1, sly2, slu, slv, dl1, dl2, bgra).
      do { (_, _, _, _, _, _, bgra) \<leftarrow> iter_opt wh inner (sly1, sly2, slu, slv, dl1, dl2, bgra);
           Some (sly1 + 2 * int ys, sly2 + 2 * int ys, slu + int us, slv + int vs, dl1 + 2 * int S, dl2 + 2 * int S, bgra) })"
  have orow: "outer (at j 0) = Some (at (Suc j) 0)" if "j < hh" for j
    using row [OF that, of 0 wh] by (simp add: outer_def at_def cover420_rows algebra_simps)
  have rows: "iter_opt n outer (at j 0) = Some (at (j + n) 0)" if "j + n \<le> hh" for j n
    using that
  proof (induction n arbitrary: j)
    case (Suc n)
    with Suc.IH [of "Suc j"] orow [of j] show ?case by simp
  qed simp
  have "iter_opt hh outer (0, int ys, 0, 0, 0, int S, d) = Some (at hh 0)"
    using rows [of 0 hh] by (simp add: at_def)
  then show ?thesis
    unfolding ColorConvert_YCbCr420p_to_BGRA32_no_alpha_def even_guard [OF pos] frame420_ok_strides [OF ok]
      inner_def [symmetric] outer_def [symmetric]
    using frame420_ok_nonempty [OF ok] even_guard(1) [OF pos] by (simp add: at_def f_def)
qed


lemma convert420_alpha:
  assumes ok: "frame420_ok d S wh hh y ys u us v vs"
    and aok: "plane_ok a as (2 * hh) (2 * wh)" "as < 2 ^ 30"
  shows "ColorConvert_YCbCr420p_to_BGRA32 d (int S) (int (2 * wh)) (int (2 * hh)) y v u a (int ys) (int vs) (int us) (int as)
    = Some (0, filled d (cover420 S wh hh 0) (byte420 S y ys u us v vs (\<lambda>r c. a ! (r * as + c))))"
proof -
  define f where "f = byte420 S y ys u us v vs (\<lambda>r c. a ! (r * as + c))"
  have pos: "0 < wh" "0 < hh" and S: "8 * wh \<le> S" using ok by (auto simp: frame420_ok_def)
  define inner where "inner = (\<lambda>(say1, say2, sau, sav, da1, da2, a_col1, a_col2, bgra).
      do { bgra \<leftarrow> block420 y v u say1 say2 sau sav da1 da2 bgra;
           a1 \<leftarrow> aget a a_col1; bgra \<leftarrow> aset bgra (da1 + 3) a1;
           a2 \<leftarrow> aget a (a_col1 + 1); bgra \<leftarrow> aset bgra (da1 + 7) a2;
           a3 \<leftarrow> aget a a_col2; bgra \<leftarrow> aset bgra (da2 + 3) a3;
           a4 \<leftarrow> aget a (a_col2 + 1); bgra \<leftarrow> aset bgra (da2 + 7) a4;
           Some (say1 + 2, say2 + 2, sau + 1, sav + 1, da1 + 8, da2 + 8, a_col1 + 2, a_col2 + 2, bgra) })"
  define at where "at = (\<lambda>j i. (int (2 * j * ys + 2 * i), int ((2 * j + 1) * ys + 2 * i), int (j * us + i), int (j * vs + i),
      int (2 * j * S + 8 * i), int ((2 * j + 1) * S + 8 * i),
      int (2 * j * as + 2 * i), int ((2 * j + 1) * as + 2 * i), filled d (cover420 S wh j i) f))"
  have step: "inner (at j i) = Some (at j (Suc i))" if "j < hh" "i < wh" for j i
  proof -
    let ?q1 = "2 * j * S + 8 * i" and ?q2 = "(2 * j + 1) * S + 8 * i"
    note a1 = alpha_byte420 [where t = 0, OF ok that _ f_def, simplified]
      and a2 = alpha_byte420 [where t = 1, OF ok that _ f_def, simplified]
    note block = block420_filled [OF ok that f_def refl refl refl refl refl refl, of "cover420 S wh j i"]
    have rd: "aget a (int ((2 * j + t) * as + 2 * i)) = Some (a ! ((2 * j + t) * as + 2 * i))"
      "aget a (int ((2 * j + t) * as + 2 * i) + 1) = Some (a ! ((2 * j + t) * as + (2 * i + 1)))" if "t < 2" for t
    proof -
      have b: "2 * j + t < 2 * hh" "2 * i < 2 * wh" "2 * i + 1 < 2 * wh" using that \<open>j < hh\<close> \<open>i < wh\<close> by auto
      show "aget a (int ((2 * j + t) * as + 2 * i)) = Some (a ! ((2 * j + t) * as + 2 * i))"
        by (rule plane_get(1) [OF aok(1) b(1,2) refl])
      show "aget a (int ((2 * j + t) * as + 2 * i) + 1) = Some (a ! ((2 * j + t) * as + (2 * i + 1)))"
        by (rule plane_get(1) [OF aok(1) b(1,3)]) simp
    qed
    have put: "aset (filled d W f) (int q + m) b = Some (filled d (insert (q + nat m) W) f)"
      if "q + nat m < length d" "f (q + nat m) = b" "0 \<le> m" for q m W b
      using that by (intro aset_filled) auto
    have "inner (at j i) = Some (int (2 * j * ys + 2 * i) + 2, int ((2 * j + 1) * ys + 2 * i) + 2, int (j * us + i) + 1,
        int (j * vs + i) + 1, int ?q1 + 8, int ?q2 + 8, int (2 * j * as + 2 * i) + 2, int ((2 * j + 1) * as + 2 * i) + 2,
        filled d (insert (?q2 + 7) (insert (?q2 + 3) (insert (?q1 + 7) (insert (?q1 + 3)
          (colour_bytes ?q2 \<union> (colour_bytes ?q1 \<union> cover420 S wh j i)))))) f)"
      unfolding inner_def at_def prod.case block Option.bind.bind_lunit
      using a1 a2 rd [of 0] rd [of 1] by (simp add: put del: of_nat_add of_nat_mult of_nat_Suc)
    also have "insert (?q2 + 7) (insert (?q2 + 3) (insert (?q1 + 7) (insert (?q1 + 3)
          (colour_bytes ?q2 \<union> (colour_bytes ?q1 \<union> cover420 S wh j i))))) = cover420 S wh j (Suc i)"
      unfolding cover420_block [symmetric] px_pair_bytes [symmetric] by blast
    finally show ?thesis by (simp add: at_def)
  qed
  have row: "iter_opt n inner (at j i) = Some (at j (i + n))" if "j < hh" "i + n \<le> wh" for j i n
    using that(2)
  proof (induction n arbitrary: i)
    case (Suc n)
    with Suc.IH [of "Suc i"] step [OF that(1), of i] show ?case by simp
  qed simp
  define outer where "outer = (\<lambda>(sly1, sly2, slu, slv, dl1, dl2, a_row1, a_row2, bgra).
      do { (_, _, _, _, _, _, _, _, bgra) \<leftarrow> iter_opt wh inner (sly1, sly2, slu, slv, dl1, dl2, a_row1, a_row2, bgra);
           Some (sly1 + 2 * int ys, sly2 + 2 * int ys, slu + int us, slv + int vs, dl1 + 2 * int S, dl2 + 2 * int S,
             a_row1 + i32 (push_bit 1 (int as)), a_row2 + i32 (push_bit 1 (int as)), bgra) })"
  have "i32 (push_bit 1 (int as)) = 2 * int as" using aok(2) by (simp add: push_bit_eq_mult i32_small)
  then have orow: "outer (at j 0) = Some (at (Suc j) 0)" if "j < hh" for j
    using row [OF that, of 0 wh] by (simp add: outer_def at_def cover420_rows algebra_simps)
  have rows: "iter_opt n outer (at j 0) = Some (at (j + n) 0)" if "j + n \<le> hh" for j n
    using that
  proof (induction n arbitrary: j)
    case (Suc n)
    with Suc.IH [of "Suc j"] orow [of j] show ?case by simp
  qed simp
  have "iter_opt hh outer (0, int ys, 0, 0, 0, int S, 0, int as, d) = Some (at hh 0)"
    using rows [of 0 hh] by (simp add: at_def)
  then show ?thesis
    unfolding ColorConvert_YCbCr420p_to_BGRA32_def even_guard [OF pos] frame420_ok_strides [OF ok]
      inner_def [symmetric] outer_def [symmetric]
    using frame420_ok_nonempty [OF ok] even_guard(1) [OF pos] by (simp add: at_def f_def)
qed

text \<open>
  C9: a planar 4:2:0 frame with even sides is converted completely: for planes and a destination that
  hold the frame, both BGRA converters return 0 without an access outside a plane, every pixel of the
  frame holds the converted value of its luma sample and of the chroma sample of its 2 by 2 block, with
  the alpha plane (or 255) as its alpha, and no byte outside the frame changes, padding included.
\<close>

theorem ycbcr420p_frame:
  assumes "frame420_ok d S wh hh y ys u us v vs"
  shows "(\<exists>d'. ColorConvert_YCbCr420p_to_BGRA32_no_alpha d (int S) (int (2 * wh)) (int (2 * hh)) y v u
              (int ys) (int vs) (int us) = Some (0, d')
          \<and> frame420 d S (2 * wh) (2 * hh) y ys u us v vs (\<lambda>_ _. 255) d')
    \<and> (plane_ok a as (2 * hh) (2 * wh) \<and> as < 2 ^ 30 \<longrightarrow>
        (\<exists>d'. ColorConvert_YCbCr420p_to_BGRA32 d (int S) (int (2 * wh)) (int (2 * hh)) y v u a
              (int ys) (int vs) (int us) (int as) = Some (0, d')
          \<and> frame420 d S (2 * wh) (2 * hh) y ys u us v vs (\<lambda>r c. a ! (r * as + c)) d'))"
  using convert420_no_alpha [OF assms] convert420_alpha [OF assms] filled_frame420 [OF assms] by blast

theorem ycbcr420p_frame_witness:
  "\<exists>d'. ColorConvert_YCbCr420p_to_BGRA32_no_alpha (replicate 20 7) 10 2 2 [16, 235, 128, 0] [128] [128] 2 1 1
     = Some (0, d') \<and> d' ! 9 = 7"
proof -
  have p: "plane_ok [16, 235, 128, 0] 2 2 2" "plane_ok [128] 1 1 1"
    by (rule plane_okI; simp add: is_u8_def)+
  have l: "\<forall>r < 2 * 1. \<forall>c < 8 * 1. r * 10 + c < length (replicate 20 (7::int))" by auto
  have ok: "frame420_ok (replicate 20 7) 10 1 1 [16, 235, 128, 0] 2 [128] 1 [128] 1"
    unfolding frame420_ok_def using p l by simp
  from ycbcr420p_frame [OF ok] obtain d' where
    "ColorConvert_YCbCr420p_to_BGRA32_no_alpha (replicate 20 7) 10 2 2 [16, 235, 128, 0] [128] [128] 2 1 1 = Some (0, d')"
    and fr: "frame420 (replicate 20 7) 10 2 2 [16, 235, 128, 0] 2 [128] 1 [128] 1 (\<lambda>_ _. 255) d'" by auto
  moreover from fr have "\<forall>r < 2. \<forall>c < 8. (9::nat) \<noteq> r * 10 + c \<Longrightarrow> d' ! 9 = 7"
    by (simp add: frame420_def)
  then have "d' ! 9 = 7" by (auto simp: numeral_2_eq_2 less_Suc_eq)
  ultimately show ?thesis by blast
qed

text \<open>
  the converters refuse what they cannot convert: a null plane, a side that is not positive, or an
  odd side (for 4:2:2 an odd width) gives the return code 1 and leaves the destination as it is, and
  so do the ARGB entry points, always.
\<close>

theorem convert_refuses:
  assumes "bgra = [] \<or> y = [] \<or> u = [] \<or> v = [] \<or> width \<le> 0 \<or> height \<le> 0 \<or> odd width"
  shows "ColorConvert_YCbCr420p_to_BGRA32 bgra bs width height y v u a ys vs us as = Some (1, bgra)
    \<and> ColorConvert_YCbCr420p_to_BGRA32_no_alpha bgra bs width height y v u ys vs us = Some (1, bgra)
    \<and> ColorConvert_YCbCr422p_to_BGRA32_no_alpha bgra bs width height y v u ys uvs = Some (1, bgra)
    \<and> ColorConvert_YCbCr420p_to_ARGB32 bgra = (1, bgra) \<and> ColorConvert_YCbCr420p_to_ARGB32_no_alpha bgra = (1, bgra)
    \<and> ColorConvert_YCbCr422p_to_ARGB32_no_alpha bgra = (1, bgra)"
proof -
  have "(width OR height) AND 1 \<noteq> 0" "width AND 1 \<noteq> 0" if "odd width"
    using that by (simp_all add: and_one_eq even_or_iff odd_iff_mod_2_eq_one flip: even_iff_mod_2_eq_zero)
  with assms show ?thesis
    unfolding ColorConvert_YCbCr420p_to_BGRA32_def ColorConvert_YCbCr420p_to_BGRA32_no_alpha_def
      ColorConvert_YCbCr422p_to_BGRA32_no_alpha_def ColorConvert_YCbCr420p_to_ARGB32_def
      ColorConvert_YCbCr420p_to_ARGB32_no_alpha_def ColorConvert_YCbCr422p_to_ARGB32_no_alpha_def
    by (auto simp only: if_True if_False simp_thms split: if_splits)
qed

theorem convert_refuses_witness:
  "ColorConvert_YCbCr422p_to_BGRA32_no_alpha [0] 4 3 2 [0] [0] [0] 1 1 = Some (1, [0])"
  using convert_refuses [of "[0]" "[0]" "[0]" "[0]" 3 2] by simp


subsection \<open>Packed 4:2:2\<close>

text \<open>
  A 4:2:2 row holds, for each pair of pixels, four bytes: two luma samples two bytes apart and one
  sample of each chroma component.
\<close>

definition byte422 :: "nat \<Rightarrow> int list \<Rightarrow> nat \<Rightarrow> int list \<Rightarrow> int list \<Rightarrow> nat \<Rightarrow> nat \<Rightarrow> int" where
  "byte422 S y ys u v us x =
     (let r = x div S; c = x mod S div 4
      in bgra_byte (y ! (r * ys + 2 * c)) (u ! (r * us + 4 * (c div 2))) (v ! (r * us + 4 * (c div 2)))
           255 (x mod S mod 4))"

definition frame422_ok :: "int list \<Rightarrow> nat \<Rightarrow> nat \<Rightarrow> nat \<Rightarrow> int list \<Rightarrow> nat \<Rightarrow> int list \<Rightarrow> int list \<Rightarrow> nat \<Rightarrow> bool" where
  "frame422_ok d S wh h y ys u v us \<longleftrightarrow> 8 * wh \<le> S \<and> 0 < wh \<and> 0 < h
     \<and> (\<forall>r < h. \<forall>c < 8 * wh. r * S + c < length d)
     \<and> plane_ok y ys h (4 * wh - 1) \<and> plane_ok u us h (4 * wh - 3) \<and> plane_ok v us h (4 * wh - 3)"

definition cover422 :: "nat \<Rightarrow> nat \<Rightarrow> nat \<Rightarrow> nat \<Rightarrow> nat set" where
  "cover422 S wh j i = (\<Union>r < j. {r * S..<r * S + 8 * wh}) \<union> {j * S..<j * S + 8 * i}"

lemma cover422_0 [simp]: "cover422 S wh 0 0 = {}"
  by (simp add: cover422_def)

lemma cover422_pair: "{j * S + 8 * i..<j * S + 8 * i + 8} \<union> cover422 S wh j i = cover422 S wh j (Suc i)"
  by (auto simp: cover422_def)

lemma cover422_rows: "cover422 S wh j wh = cover422 S wh (Suc j) 0"
  by (auto simp: cover422_def less_Suc_eq)

lemma byte422_at:
  assumes "8 * i + m < S" "m < 8"
  shows "byte422 S y ys u v us (j * S + (8 * i + m)) =
    bgra_byte (y ! (j * ys + (4 * i + (if m < 4 then 0 else 2)))) (u ! (j * us + 4 * i)) (v ! (j * us + 4 * i)) 255 (m mod 4)"
proof -
  have "(j * S + (8 * i + m)) div S = j" "(j * S + (8 * i + m)) mod S = 8 * i + m"
    using assms(1) by simp_all
  moreover have "(8 * i + m) div 4 = 2 * i + m div 4" "(8 * i + m) mod 4 = m mod 4"
    using div_mult_self1 [of 4 m "2 * i"] mod_mult_self1 [of m "2 * i" 4] by (simp_all add: add.commute)
  moreover have "m div 4 = (if m < 4 then 0 else 1)" using assms(2) by auto
  ultimately show ?thesis by (simp add: byte422_def Let_def)
qed

definition frame422 ::
    "int list \<Rightarrow> nat \<Rightarrow> nat \<Rightarrow> nat \<Rightarrow> int list \<Rightarrow> nat \<Rightarrow> int list \<Rightarrow> int list \<Rightarrow> nat \<Rightarrow> int list \<Rightarrow> bool" where
  "frame422 d S w h y ys u v us d' \<longleftrightarrow> length d' = length d
     \<and> (\<forall>r < h. \<forall>c < w. \<forall>k < 4. d' ! (r * S + (4 * c + k)) =
          bgra_byte (y ! (r * ys + 2 * c)) (u ! (r * us + 4 * (c div 2))) (v ! (r * us + 4 * (c div 2))) 255 k)
     \<and> (\<forall>x < length d. (\<forall>r < h. \<forall>c < 4 * w. x \<noteq> r * S + c) \<longrightarrow> d' ! x = d ! x)"

lemma filled_frame422:
  assumes "frame422_ok d S wh h y ys u v us"
  shows "frame422 d S (2 * wh) h y ys u v us (filled d (cover422 S wh h 0) (byte422 S y ys u v us))"
  unfolding frame422_def
proof (intro conjI allI impI)
  fix r c k :: nat assume rck: "r < h" "c < 2 * wh" "k < 4"
  then have o: "4 * c + k < 8 * wh" by auto
  with rck assms have lt: "r * S + (4 * c + k) < length d" "4 * c + k < S" by (auto simp: frame422_ok_def)
  have "r * S + (4 * c + k) \<in> cover422 S wh h 0" using rck(1) o by (auto simp: cover422_def intro!: bexI [of _ r])
  moreover have "(r * S + (4 * c + k)) div S = r" "(r * S + (4 * c + k)) mod S = 4 * c + k" using lt(2) by simp_all
  ultimately show "filled d (cover422 S wh h 0) (byte422 S y ys u v us) ! (r * S + (4 * c + k)) =
      bgra_byte (y ! (r * ys + 2 * c)) (u ! (r * us + 4 * (c div 2))) (v ! (r * us + 4 * (c div 2))) 255 k"
    using rck(3) by (simp add: filled_nth [OF lt(1)] byte422_def Let_def)
next
  fix x assume x: "x < length d" "\<forall>r < h. \<forall>c < 4 * (2 * wh). x \<noteq> r * S + c"
  have "x \<notin> cover422 S wh h 0"
  proof
    assume "x \<in> cover422 S wh h 0"
    then obtain r where "r < h" "r * S \<le> x" "x < r * S + 8 * wh" by (auto simp: cover422_def)
    then have "x = r * S + (x - r * S)" "x - r * S < 4 * (2 * wh)" by auto
    with x(2) \<open>r < h\<close> show False by blast
  qed
  with x(1) show "filled d (cover422 S wh h 0) (byte422 S y ys u v us) ! x = d ! x"
    by (simp add: filled_nth)
qed simp

lemma pair422:
  assumes ok: "frame422_ok d S wh h y ys u v us" and ji: "j < h" "i < wh" and f: "f = byte422 S y ys u v us"
  shows "do { sf1 \<leftarrow> aget u (int (j * us + 4 * i));
              sf2 \<leftarrow> aget v (int (j * us + 4 * i));
              sf01 \<leftarrow> aget y (int (j * ys + 4 * i));
              sf03 \<leftarrow> aget y (int (j * ys + 4 * i) + 2);
              sf \<leftarrow> chroma sf1 sf2;
              sf01 \<leftarrow> aget color_tYY sf01;
              sf03 \<leftarrow> aget color_tYY sf03;
              bgra \<leftarrow> store_px TCLAMP_U8 SCLAMP_U8 sf01 sf (int (j * S + 8 * i)) (filled d W f);
              store_px TCLAMP_U8 SCLAMP_U8 sf03 sf (int (j * S + 8 * i) + 4) bgra }
      = Some (filled d (colour_bytes (j * S + 8 * i) \<union> W) f)"
    "j * S + 8 * i + 7 < length d" "f (j * S + 8 * i + 3) = 255" "f (j * S + 8 * i + 7) = 255"
proof -
  have planes: "plane_ok y ys h (4 * wh - 1)" "plane_ok u us h (4 * wh - 3)" "plane_ok v us h (4 * wh - 3)"
    and S: "8 * wh \<le> S" and len: "\<And>r c. r < h \<Longrightarrow> c < 8 * wh \<Longrightarrow> r * S + c < length d"
    using ok by (auto simp: frame422_ok_def)
  have c: "4 * i < 4 * wh - 1" "4 * i + 2 < 4 * wh - 1" "4 * i < 4 * wh - 3" using ji by auto
  note U = plane_get [OF planes(2) ji(1) c(3) refl] and V = plane_get [OF planes(3) ji(1) c(3) refl]
    and Y0 = plane_get [OF planes(1) ji(1) c(1) refl]
  have Y1: "aget y (int (j * ys + 4 * i) + 2) = Some (y ! (j * ys + (4 * i + 2)))" "is_u8 (y ! (j * ys + (4 * i + 2)))"
    by (rule plane_get [OF planes(1) ji(1) c(2)], simp) (rule plane_get [OF planes(1) ji(1) c(2) refl])
  have at: "\<forall>m < 8. f (j * S + 8 * i + m) =
      bgra_byte (if m < 4 then y ! (j * ys + 4 * i) else y ! (j * ys + (4 * i + 2)))
        (u ! (j * us + 4 * i)) (v ! (j * us + 4 * i)) 255 (m mod 4)"
  proof (intro allI impI)
    fix m :: nat assume m: "m < 8"
    then have "8 * i + m < S" using ji(2) S by auto
    from byte422_at [OF this m] show "f (j * S + 8 * i + m) =
      bgra_byte (if m < 4 then y ! (j * ys + 4 * i) else y ! (j * ys + (4 * i + 2)))
        (u ! (j * us + 4 * i)) (v ! (j * us + 4 * i)) 255 (m mod 4)" unfolding f by (simp add: add.assoc)
  qed
  show lt: "j * S + 8 * i + 7 < length d" using len [OF ji(1), of "8 * i + 7"] ji(2) by (simp add: add.assoc)
  show "f (j * S + 8 * i + 3) = 255" "f (j * S + 8 * i + 7) = 255"
    using at [rule_format, of 3] at [rule_format, of 7] by (simp_all add: bgra_byte_def)
  note p = pair_filled [OF Y0(2) Y1(2) U(2) V(2) disjI1 [OF refl] disjI2 [OF refl] lt at refl refl, of W]
  show "do { sf1 \<leftarrow> aget u (int (j * us + 4 * i));
              sf2 \<leftarrow> aget v (int (j * us + 4 * i));
              sf01 \<leftarrow> aget y (int (j * ys + 4 * i));
              sf03 \<leftarrow> aget y (int (j * ys + 4 * i) + 2);
              sf \<leftarrow> chroma sf1 sf2;
              sf01 \<leftarrow> aget color_tYY sf01;
              sf03 \<leftarrow> aget color_tYY sf03;
              bgra \<leftarrow> store_px TCLAMP_U8 SCLAMP_U8 sf01 sf (int (j * S + 8 * i)) (filled d W f);
              store_px TCLAMP_U8 SCLAMP_U8 sf03 sf (int (j * S + 8 * i) + 4) bgra }
      = Some (filled d (colour_bytes (j * S + 8 * i) \<union> W) f)"
    unfolding U(1) V(1) Y0(1) Y1(1) chroma_eq [OF U(2) V(2)] tab_get(1) [OF Y0(2)] tab_get(1) [OF Y1(2)]
      Option.bind.bind_lunit by (rule p)
qed


lemma convert422:
  assumes ok: "frame422_ok d S wh h y ys u v us"
  shows "ColorConvert_YCbCr422p_to_BGRA32_no_alpha d (int S) (int (2 * wh)) (int h) y v u (int ys) (int us)
    = Some (0, filled d (cover422 S wh h 0) (byte422 S y ys u v us))"
proof -
  define f where "f = byte422 S y ys u v us"
  have pos: "0 < wh" "0 < h" using ok by (auto simp: frame422_ok_def)
  define inner where "inner = (\<lambda>(say1, sau, sav, da1, bgra).
      do { sf1 \<leftarrow> aget u sau;
           sf2 \<leftarrow> aget v sav;
           sf01 \<leftarrow> aget y say1;
           sf03 \<leftarrow> aget y (say1 + 2);
           sf \<leftarrow> chroma sf1 sf2;
           sf01 \<leftarrow> aget color_tYY sf01;
           sf03 \<leftarrow> aget color_tYY sf03;
           bgra \<leftarrow> store_px TCLAMP_U8 SCLAMP_U8 sf01 sf da1 bgra;
           bgra \<leftarrow> store_px TCLAMP_U8 SCLAMP_U8 sf03 sf (da1 + 4) bgra;
           bgra \<leftarrow> aset bgra (da1 + 7) 0xff; bgra \<leftarrow> aset bgra (da1 + 3) 0xff;
           Some (say1 + 4, sau + 4, sav + 4, da1 + 8, bgra) })"
  define at where "at = (\<lambda>j i. (int (j * ys + 4 * i), int (j * us + 4 * i), int (j * us + 4 * i),
      int (j * S + 8 * i), filled d (cover422 S wh j i) f))"
  have step: "inner (at j i) = Some (at j (Suc i))" if "j < h" "i < wh" for j i
  proof -
    let ?q = "j * S + 8 * i"
    note pair = pair422 [OF ok that f_def]
    have put: "aset (filled d W f) (int q + m) 255 = Some (filled d (insert (q + nat m) W) f)"
      if "q + nat m < length d" "f (q + nat m) = 255" "0 \<le> m" for q m W
      using that by (intro aset_filled) auto
    have "inner (at j i) = do { bgra \<leftarrow> Some (filled d (colour_bytes ?q \<union> cover422 S wh j i) f);
           bgra \<leftarrow> aset bgra (int ?q + 7) 0xff; bgra \<leftarrow> aset bgra (int ?q + 3) 0xff;
           Some (int (j * ys + 4 * i) + 4, int (j * us + 4 * i) + 4, int (j * us + 4 * i) + 4, int ?q + 8, bgra) }"
      unfolding pair(1) [symmetric] by (simp add: inner_def at_def)
    also have "\<dots> = Some (int (j * ys + 4 * i) + 4, int (j * us + 4 * i) + 4, int (j * us + 4 * i) + 4, int ?q + 8,
        filled d (insert (?q + 3) (insert (?q + 7) (colour_bytes ?q \<union> cover422 S wh j i))) f)"
      using pair(2-4) by (simp add: put del: of_nat_add of_nat_mult)
    also have "insert (?q + 3) (insert (?q + 7) (colour_bytes ?q \<union> cover422 S wh j i)) = cover422 S wh j (Suc i)"
      unfolding cover422_pair [symmetric] px_pair_bytes [symmetric] by blast
    finally show ?thesis by (simp add: at_def)
  qed
  have row: "iter_opt n inner (at j i) = Some (at j (i + n))" if "j < h" "i + n \<le> wh" for j i n
    using that(2)
  proof (induction n arbitrary: i)
    case (Suc n)
    with Suc.IH [of "Suc i"] step [OF that(1), of i] show ?case by simp
  qed simp
  define outer where "outer = (\<lambda>(sly1, slu, slv, dl1, bgra).
      do { (_, _, _, _, bgra) \<leftarrow> iter_opt wh inner (sly1, slu, slv, dl1, bgra);
           Some (sly1 + int ys, slu + int us, slv + int us, dl1 + int S, bgra) })"
  have orow: "outer (at j 0) = Some (at (Suc j) 0)" if "j < h" for j
    using row [OF that, of 0 wh] by (simp add: outer_def at_def cover422_rows algebra_simps)
  have rows: "iter_opt n outer (at j 0) = Some (at (j + n) 0)" if "j + n \<le> h" for j n
    using that
  proof (induction n arbitrary: j)
    case (Suc n)
    with Suc.IH [of "Suc j"] orow [of j] show ?case by simp
  qed simp
  have run: "iter_opt h outer (0, 0, 0, 0, d) = Some (at h 0)"
    using rows [of 0 h] by (simp add: at_def)
  have ne: "\<not> (d = [] \<or> y = [] \<or> u = [] \<or> v = [])"
  proof -
    have p: "0 < 8 * wh" "0 < 4 * wh - 1" "0 < 4 * wh - 3" using pos by auto
    have "0 * S + 0 < length d" "0 * ys + 0 < length y" "0 * us + 0 < length u" "0 * us + 0 < length v"
      using ok pos(2) p unfolding frame422_ok_def plane_ok_def by blast+
    then show ?thesis by auto
  qed
  show ?thesis
    unfolding ColorConvert_YCbCr422p_to_BGRA32_no_alpha_def even_guard(3) [OF pos] inner_def [symmetric] outer_def [symmetric]
    using ne pos run by (simp add: at_def f_def and_one_eq)
qed

text \<open>
  a packed 4:2:2 frame of even width is converted completely: the converter returns 0 without an
  access outside a plane, every pixel holds the converted value of its luma sample and of the chroma
  samples of its pair with alpha 255, and no byte outside the frame changes.
\<close>

theorem ycbcr422p_frame:
  assumes "frame422_ok d S wh h y ys u v us"
  shows "\<exists>d'. ColorConvert_YCbCr422p_to_BGRA32_no_alpha d (int S) (int (2 * wh)) (int h) y v u (int ys) (int us)
      = Some (0, d') \<and> frame422 d S (2 * wh) h y ys u v us d'"
  using convert422 [OF assms] filled_frame422 [OF assms] by blast

theorem ycbcr422p_frame_witness:
  "\<exists>d'. ColorConvert_YCbCr422p_to_BGRA32_no_alpha (replicate 8 7) 8 2 1 [16, 235, 128] [128] [128] 4 4
     = Some (0, d') \<and> d' ! 7 = 255"
proof -
  have p: "plane_ok [16, 235, 128] 4 1 (4 * 1 - 1)" "plane_ok [128] 4 1 (4 * 1 - 3)"
    by (rule plane_okI; simp add: is_u8_def)+
  have ok: "frame422_ok (replicate 8 7) 8 1 1 [16, 235, 128] 4 [128] [128] 4"
    unfolding frame422_ok_def using p by simp
  from ycbcr422p_frame [OF ok] obtain d' where
    run: "ColorConvert_YCbCr422p_to_BGRA32_no_alpha (replicate 8 7) 8 2 1 [16, 235, 128] [128] [128] 4 4 = Some (0, d')"
    and fr: "frame422 (replicate 8 7) 8 2 1 [16, 235, 128] 4 [128] [128] 4 d'" by auto
  have "\<forall>r < 1. \<forall>c < 2. \<forall>k < 4. d' ! (r * 8 + (4 * c + k)) =
      bgra_byte ([16, 235, 128] ! (r * 4 + 2 * c)) ([128] ! (r * 4 + 4 * (c div 2))) ([128] ! (r * 4 + 4 * (c div 2))) 255 k"
    using fr unfolding frame422_def by (elim conjE) assumption
  from this [rule_format, of 0 1 3] have "d' ! 7 = 255" by (simp add: bgra_byte_def)
  with run show ?thesis by blast
qed

end
