(* ===== verification/SimdConverter.thy ===== *)
theory SimdConverter
  imports Simd ColorConverter
begin

unbundle bit_operations_syntax

text \<open>
  The SSE2 branch of \<open>jfxmedia/Utils/ColorConverter.c\<close>, which x86 builds use: four converters of planar 4:2:0 frames. They are
  copies of one text that differ in three places, the fields of \<open>variant\<close>: the order of the bytes of a pixel, whether there is
  an alpha plane, and whether the colours are multiplied by alpha. A row pair is converted 16 columns at a time, then at most once
  each by 8, 4 and 2.
\<close>

section \<open>Model\<close>

datatype pixel_order = ARGB | BGRA

record variant =
  va_order :: pixel_order
  va_alpha :: bool
  va_premultiply :: bool

text \<open>The planes with the addresses they start at, and whether \<open>load_si128\<close> is the unaligned load.\<close>

record simd_src =
  ss_y :: "int list"
  ss_ybase :: int
  ss_u :: "int list"
  ss_v :: "int list"
  ss_a :: "int list"
  ss_abase :: int
  ss_dbase :: int
  ss_unaligned :: bool

text \<open>The pointers that move along a row pair, and the destination.\<close>

record simd_row =
  sr_u :: int
  sr_v :: int
  sr_y1 :: int
  sr_y2 :: int
  sr_a1 :: int
  sr_a2 :: int
  sr_d1 :: int
  sr_d2 :: int
  sr_out :: "int list"

definition load_si128 :: "simd_src \<Rightarrow> int \<Rightarrow> int list \<Rightarrow> int \<Rightarrow> m128 option" where
  "load_si128 s base p i = (if ss_unaligned s then mm_loadu_si128 p i else mm_load_si128 base p i)"

definition x_zero :: m128 where "x_zero = mm_setzero_si128"
definition x_aa :: m128 where "x_aa = mm_set1_epi8 0xff"
definition x_one :: m128 where "x_one = mm_set1_epi16 0x0001"
definition x_c0 :: m128 where "x_c0 = mm_set1_epi16 0x2543"
definition x_c1 :: m128 where "x_c1 = mm_set1_epi16 0x4097"
definition x_c4 :: m128 where "x_c4 = mm_set1_epi16 0xc8b"
definition x_c5 :: m128 where "x_c5 = mm_set1_epi16 0x1a06"
definition x_c8 :: m128 where "x_c8 = mm_set1_epi16 0x3317"
definition x_coff0 :: m128 where "x_coff0 = mm_set1_epi16 0xdd60"
definition x_coff1 :: m128 where "x_coff1 = mm_set1_epi16 0x10f4"
definition x_coff2 :: m128 where "x_coff2 = mm_set1_epi16 0xe420"

definition PREMULTIPLY_ALPHA :: "m128 \<Rightarrow> m128 \<Rightarrow> m128" where
  "PREMULTIPLY_ALPHA cc aa =
     (let x_temp = mm_unpacklo_epi8 cc x_zero;
          x_temp1 = mm_unpacklo_epi8 aa x_zero;
          x_temp1 = mm_add_epi16 x_temp1 x_one;
          tt = mm_mullo_epi16 x_temp x_temp1;
          tt = mm_srli_epi16 tt 8;
          x_temp = mm_unpackhi_epi8 cc x_zero;
          x_temp1 = mm_unpackhi_epi8 aa x_zero;
          x_temp1 = mm_add_epi16 x_temp1 x_one;
          x_temp1 = mm_mullo_epi16 x_temp x_temp1;
          x_temp1 = mm_srli_epi16 x_temp1 8
      in mm_packus_epi16 tt x_temp1)"

definition tint :: "variant \<Rightarrow> m128 \<Rightarrow> m128 \<Rightarrow> m128" where
  "tint va cc aa = (if va_premultiply va then PREMULTIPLY_ALPHA cc aa else cc)"

text \<open>The chroma terms of eight samples, the words \<open>x_b\<close>, \<open>x_g\<close> and \<open>x_r\<close>.\<close>

definition chroma_words :: "m128 \<Rightarrow> m128 \<Rightarrow> m128 \<times> m128 \<times> m128" where
  "chroma_words x_u x_v =
     (let x_u0 = mm_mulhi_epu16 x_u x_c1;
          x_b = mm_add_epi16 x_u0 x_coff0;
          x_u1 = mm_mulhi_epu16 x_u x_c4;
          x_v1 = mm_mulhi_epu16 x_v x_c5;
          x_temp = mm_add_epi16 x_u1 x_v1;
          x_g = mm_sub_epi16 x_coff1 x_temp;
          x_v2 = mm_mulhi_epu16 x_v x_c8;
          x_r = mm_add_epi16 x_v2 x_coff2
      in (x_b, x_g, x_r))"

text \<open>
  Each chroma term goes to the four pixels of its 2 by 2 block: the lower four terms with \<open>x_y1\<close> and \<open>x_y2\<close>, the upper four with
  \<open>x_y3\<close> and \<open>x_y4\<close>. The code does this for each colour.
\<close>

definition shade_lo :: "m128 \<Rightarrow> m128 \<Rightarrow> m128 \<Rightarrow> m128 \<times> m128" where
  "shade_lo x_b x_y1 x_y2 =
     (let x_bak = mm_unpacklo_epi16 x_b x_b;
          x_temp = mm_unpacklo_epi32 x_bak x_bak;
          x_b1 = mm_add_epi16 x_y1 x_temp;
          x_temp = mm_unpackhi_epi32 x_bak x_bak;
          x_b2 = mm_add_epi16 x_y2 x_temp
      in (mm_srai_epi16 x_b1 5, mm_srai_epi16 x_b2 5))"

definition shade_hi :: "m128 \<Rightarrow> m128 \<Rightarrow> m128 \<Rightarrow> m128 \<times> m128" where
  "shade_hi x_b x_y3 x_y4 =
     (let x_bak = mm_unpackhi_epi16 x_b x_b;
          x_temp = mm_unpacklo_epi32 x_bak x_bak;
          x_b3 = mm_add_epi16 x_y3 x_temp;
          x_temp = mm_unpackhi_epi32 x_bak x_bak;
          x_b4 = mm_add_epi16 x_y4 x_temp
      in (mm_srai_epi16 x_b3 5, mm_srai_epi16 x_b4 5))"

definition shade_one :: "m128 \<Rightarrow> m128 \<Rightarrow> m128" where
  "shade_one x_b x_y1 =
     (let x_bak = mm_unpacklo_epi16 x_b x_b;
          x_temp = mm_unpacklo_epi32 x_bak x_bak;
          x_b1 = mm_add_epi16 x_y1 x_temp
      in mm_srai_epi16 x_b1 5)"

text \<open>The order of the four bytes of a pixel.\<close>

definition channels :: "variant \<Rightarrow> 'a \<Rightarrow> 'a \<Rightarrow> 'a \<Rightarrow> 'a \<Rightarrow> 'a \<times> 'a \<times> 'a \<times> 'a" where
  "channels va b g r a = (case va_order va of BGRA \<Rightarrow> (b, g, r, a) | ARGB \<Rightarrow> (a, r, g, b))"

text \<open>Four pixels of the upper and four of the lower row are stored, 16 bytes each.\<close>

definition save_quad :: "simd_src \<Rightarrow> m128 \<Rightarrow> m128 \<Rightarrow> simd_row \<Rightarrow> simd_row option" where
  "save_quad s x_arl x_gbl r =
     (let x_argbl = mm_unpacklo_epi16 x_arl x_gbl;
          x_argbh = mm_unpackhi_epi16 x_arl x_gbl;
          x_temp = mm_unpacklo_epi64 x_argbl x_argbh;
          x_temp1 = mm_unpackhi_epi64 x_argbl x_argbh
      in do { d \<leftarrow> mm_store_si128 (ss_dbase s) (sr_out r) (sr_d1 r) x_temp;
              d \<leftarrow> mm_store_si128 (ss_dbase s) d (sr_d2 r) x_temp1;
              Some (r\<lparr>sr_d1 := sr_d1 r + 16, sr_d2 := sr_d2 r + 16, sr_out := d\<rparr>) })"

definition save_lo :: "simd_src \<Rightarrow> m128 \<times> m128 \<times> m128 \<times> m128 \<Rightarrow> simd_row \<Rightarrow> simd_row option" where
  "save_lo s = (\<lambda>(c0, c1, c2, c3). save_quad s (mm_unpacklo_epi8 c0 c1) (mm_unpacklo_epi8 c2 c3))"

definition save_hi :: "simd_src \<Rightarrow> m128 \<times> m128 \<times> m128 \<times> m128 \<Rightarrow> simd_row \<Rightarrow> simd_row option" where
  "save_hi s = (\<lambda>(c0, c1, c2, c3). save_quad s (mm_unpackhi_epi8 c0 c1) (mm_unpackhi_epi8 c2 c3))"

text \<open>\<open>n\<close> columns further; the pointers to alpha are there only when there is an alpha plane.\<close>

definition advance :: "int \<Rightarrow> simd_row \<Rightarrow> simd_row" where
  "advance n r = r\<lparr>sr_u := sr_u r + n div 2, sr_v := sr_v r + n div 2, sr_y1 := sr_y1 r + n, sr_y2 := sr_y2 r + n,
     sr_a1 := sr_a1 r + n, sr_a2 := sr_a2 r + n\<rparr>"

subsection \<open>Sixteen columns\<close>

definition alpha16 :: "variant \<Rightarrow> simd_src \<Rightarrow> simd_row \<Rightarrow> (m128 \<times> m128) option" where
  "alpha16 va s r =
     (if va_alpha va then
        do { x_temp \<leftarrow> load_si128 s (ss_abase s) (ss_a s) (sr_a1 r);
             x_temp1 \<leftarrow> load_si128 s (ss_abase s) (ss_a s) (sr_a2 r);
             Some (mm_unpacklo_epi16 x_temp x_temp1, mm_unpackhi_epi16 x_temp x_temp1) }
      else Some (x_aa, x_aa))"

definition block16 :: "variant \<Rightarrow> simd_src \<Rightarrow> simd_row \<Rightarrow> simd_row option" where
  "block16 va s r =
     do { x_temp \<leftarrow> mm_loadl_epi64 (ss_u s) (sr_u r);
          let x_u = mm_unpacklo_epi8 x_zero x_temp;
          x_temp \<leftarrow> mm_loadl_epi64 (ss_v s) (sr_v r);
          let x_v = mm_unpacklo_epi8 x_zero x_temp;
          x_temp \<leftarrow> load_si128 s (ss_ybase s) (ss_y s) (sr_y1 r);
          x_temp1 \<leftarrow> load_si128 s (ss_ybase s) (ss_y s) (sr_y2 r);
          let x_out = mm_unpacklo_epi16 x_temp x_temp1;
          let x_y1 = mm_unpacklo_epi8 x_zero x_out;
          let x_y2 = mm_unpackhi_epi8 x_zero x_out;
          let x_out = mm_unpackhi_epi16 x_temp x_temp1;
          let x_y3 = mm_unpacklo_epi8 x_zero x_out;
          let x_y4 = mm_unpackhi_epi8 x_zero x_out;
          (x_a1, x_a2) \<leftarrow> alpha16 va s r;
          let (x_b, x_g, x_r) = chroma_words x_u x_v;
          let x_y1 = mm_mulhi_epu16 x_y1 x_c0;
          let x_y2 = mm_mulhi_epu16 x_y2 x_c0;
          let x_y3 = mm_mulhi_epu16 x_y3 x_c0;
          let x_y4 = mm_mulhi_epu16 x_y4 x_c0;
          let (x_b1, x_b2) = shade_lo x_b x_y1 x_y2;
          let (x_b3, x_b4) = shade_hi x_b x_y3 x_y4;
          let (x_g1, x_g2) = shade_lo x_g x_y1 x_y2;
          let (x_g3, x_g4) = shade_hi x_g x_y3 x_y4;
          let (x_r1, x_r2) = shade_lo x_r x_y1 x_y2;
          let (x_r3, x_r4) = shade_hi x_r x_y3 x_y4;
          let x_b = tint va (mm_packus_epi16 x_b1 x_b2) x_a1;
          let x_b1 = tint va (mm_packus_epi16 x_b3 x_b4) x_a2;
          let x_r = tint va (mm_packus_epi16 x_r1 x_r2) x_a1;
          let x_r1 = tint va (mm_packus_epi16 x_r3 x_r4) x_a2;
          let x_g = tint va (mm_packus_epi16 x_g1 x_g2) x_a1;
          let x_g1 = tint va (mm_packus_epi16 x_g3 x_g4) x_a2;
          r \<leftarrow> save_lo s (channels va x_b x_g x_r x_a1) (advance 16 r);
          r \<leftarrow> save_hi s (channels va x_b x_g x_r x_a1) r;
          r \<leftarrow> save_lo s (channels va x_b1 x_g1 x_r1 x_a2) r;
          save_hi s (channels va x_b1 x_g1 x_r1 x_a2) r }"

subsection \<open>Eight columns\<close>

definition alpha8 :: "variant \<Rightarrow> simd_src \<Rightarrow> simd_row \<Rightarrow> m128 option" where
  "alpha8 va s r =
     (if va_alpha va then
        do { x_temp \<leftarrow> mm_loadl_epi64 (ss_a s) (sr_a1 r);
             x_temp1 \<leftarrow> mm_loadl_epi64 (ss_a s) (sr_a2 r);
             Some (mm_unpacklo_epi16 x_temp x_temp1) }
      else Some x_aa)"

definition block8 :: "variant \<Rightarrow> simd_src \<Rightarrow> simd_row \<Rightarrow> simd_row option" where
  "block8 va s r =
     do { x_temp \<leftarrow> mm_cvt_i32 (ss_u s) (sr_u r);
          let x_u = mm_unpacklo_epi8 x_zero x_temp;
          x_temp \<leftarrow> mm_cvt_i32 (ss_v s) (sr_v r);
          let x_v = mm_unpacklo_epi8 x_zero x_temp;
          x_temp \<leftarrow> mm_loadl_epi64 (ss_y s) (sr_y1 r);
          x_temp1 \<leftarrow> mm_loadl_epi64 (ss_y s) (sr_y2 r);
          let x_out = mm_unpacklo_epi16 x_temp x_temp1;
          let x_y1 = mm_unpacklo_epi8 x_zero x_out;
          let x_y2 = mm_unpackhi_epi8 x_zero x_out;
          x_a1 \<leftarrow> alpha8 va s r;
          let (x_b, x_g, x_r) = chroma_words x_u x_v;
          let x_y1 = mm_mulhi_epu16 x_y1 x_c0;
          let x_y2 = mm_mulhi_epu16 x_y2 x_c0;
          let (x_b1, x_b2) = shade_lo x_b x_y1 x_y2;
          let (x_g1, x_g2) = shade_lo x_g x_y1 x_y2;
          let (x_r1, x_r2) = shade_lo x_r x_y1 x_y2;
          let x_b = tint va (mm_packus_epi16 x_b1 x_b2) x_a1;
          let x_r = tint va (mm_packus_epi16 x_r1 x_r2) x_a1;
          let x_g = tint va (mm_packus_epi16 x_g1 x_g2) x_a1;
          r \<leftarrow> save_lo s (channels va x_b x_g x_r x_a1) (advance 8 r);
          save_hi s (channels va x_b x_g x_r x_a1) r }"

subsection \<open>Four columns\<close>

text \<open>The multiplication of \<open>x_y2\<close>, which the following code does not use, is left out.\<close>

definition alpha4 :: "variant \<Rightarrow> simd_src \<Rightarrow> simd_row \<Rightarrow> m128 option" where
  "alpha4 va s r =
     (if va_alpha va then
        do { x_temp \<leftarrow> mm_cvt_i32 (ss_a s) (sr_a1 r);
             x_temp1 \<leftarrow> mm_cvt_i32 (ss_a s) (sr_a2 r);
             Some (mm_unpacklo_epi16 x_temp x_temp1) }
      else Some x_aa)"

definition block4 :: "variant \<Rightarrow> simd_src \<Rightarrow> simd_row \<Rightarrow> simd_row option" where
  "block4 va s r =
     do { x_temp \<leftarrow> mm_cvt_u16 (ss_u s) (sr_u r);
          let x_u = mm_unpacklo_epi8 x_zero x_temp;
          x_temp \<leftarrow> mm_cvt_u16 (ss_v s) (sr_v r);
          let x_v = mm_unpacklo_epi8 x_zero x_temp;
          x_temp \<leftarrow> mm_cvt_i32 (ss_y s) (sr_y1 r);
          x_temp1 \<leftarrow> mm_cvt_i32 (ss_y s) (sr_y2 r);
          let x_out = mm_unpacklo_epi16 x_temp x_temp1;
          let x_y1 = mm_unpacklo_epi8 x_zero x_out;
          x_a1 \<leftarrow> alpha4 va s r;
          let (x_b, x_g, x_r) = chroma_words x_u x_v;
          let x_y1 = mm_mulhi_epu16 x_y1 x_c0;
          let x_b = tint va (mm_packus_epi16 (shade_one x_b x_y1) x_zero) x_a1;
          let x_r = tint va (mm_packus_epi16 (shade_one x_r x_y1) x_zero) x_a1;
          let x_g = tint va (mm_packus_epi16 (shade_one x_g x_y1) x_zero) x_a1;
          save_lo s (channels va x_b x_g x_r x_a1) (advance 4 r) }"

subsection \<open>Two columns\<close>

text \<open>The chroma terms of one sample, in 32-bit arithmetic.\<close>

definition chroma_int :: "int \<Rightarrow> int \<Rightarrow> int \<times> int \<times> int" where
  "chroma_int iu iv =
     (let iu0 = drop_bit 8 (iu * 0x4097);
          ib = i32 (0xffffdd60 + iu0);
          iu1 = drop_bit 8 (iu * 0xc8b);
          iv1 = drop_bit 8 (iv * 0x1a06);
          ig = 0x10f4 - (iu1 + iv1);
          iv2 = drop_bit 8 (iv * 0x3317);
          ir = i32 (iv2 + 0xffffe420)
      in (ib, ig, ir))"

text \<open>
  \<open>_mm_cvtsi32_si128\<close> of two bytes of each row. The code shifts the bytes of the lower row into the sign bit of an \<open>int\<close>, which the
  compilers that build it take as a shift of the bits.
\<close>

definition cvt_pair :: "int list \<Rightarrow> int \<Rightarrow> int \<Rightarrow> m128 option" where
  "cvt_pair p i j = do { a \<leftarrow> aread p i 2; b \<leftarrow> aread p j 2; Some (a @ b @ replicate 12 0) }"

definition shade_int :: "int \<Rightarrow> m128 \<Rightarrow> m128" where
  "shade_int ib x_y1 =
     (let x_temp = mm_set1_epi16 ib;
          x_b1 = mm_add_epi16 x_y1 x_temp
      in mm_srai_epi16 x_b1 5)"

definition save_pair :: "m128 \<times> m128 \<times> m128 \<times> m128 \<Rightarrow> simd_row \<Rightarrow> simd_row option" where
  "save_pair = (\<lambda>(c0, c1, c2, c3) r.
     (let x_arl = mm_unpacklo_epi8 c0 c1;
          x_gbl = mm_unpacklo_epi8 c2 c3;
          x_argbl = mm_unpacklo_epi16 x_arl x_gbl
      in do { d \<leftarrow> mm_storel_epi64 (sr_out r) (sr_d1 r) x_argbl;
              d \<leftarrow> mm_storel_epi64 d (sr_d2 r) (mm_srli_si128 x_argbl 8);
              Some (r\<lparr>sr_d1 := sr_d1 r + 8, sr_d2 := sr_d2 r + 8, sr_out := d\<rparr>) }))"

definition alpha2 :: "variant \<Rightarrow> simd_src \<Rightarrow> simd_row \<Rightarrow> m128 option" where
  "alpha2 va s r = (if va_alpha va then cvt_pair (ss_a s) (sr_a1 r) (sr_a2 r) else Some x_aa)"

definition block2 :: "variant \<Rightarrow> simd_src \<Rightarrow> simd_row \<Rightarrow> simd_row option" where
  "block2 va s r =
     do { iu \<leftarrow> aget (ss_u s) (sr_u r);
          iv \<leftarrow> aget (ss_v s) (sr_v r);
          x_temp \<leftarrow> cvt_pair (ss_y s) (sr_y1 r) (sr_y2 r);
          let x_y1 = mm_unpacklo_epi8 x_zero x_temp;
          x_a1 \<leftarrow> alpha2 va s r;
          let (ib, ig, ir) = chroma_int iu iv;
          let x_y1 = mm_mulhi_epu16 x_y1 x_c0;
          let x_b = tint va (mm_packus_epi16 (shade_int ib x_y1) x_zero) x_a1;
          let x_r = tint va (mm_packus_epi16 (shade_int ir x_y1) x_zero) x_a1;
          let x_g = tint va (mm_packus_epi16 (shade_int ig x_y1) x_zero) x_a1;
          save_pair (channels va x_b x_g x_r x_a1) (advance 2 r) }"

subsection \<open>Rows and frames\<close>

definition simd_columns :: "variant \<Rightarrow> simd_src \<Rightarrow> int \<Rightarrow> simd_row \<Rightarrow> simd_row option" where
  "simd_columns va s width r =
     do { (iW, r) \<leftarrow> span (\<lambda>_ r. block16 va s r) 16 0 (i32 (width - 16) + 1) r;
          (iW, r) \<leftarrow> (if iW \<le> i32 (width - 8) then do { r \<leftarrow> block8 va s r; Some (iW + 8, r) } else Some (iW, r));
          (iW, r) \<leftarrow> (if iW \<le> i32 (width - 4) then do { r \<leftarrow> block4 va s r; Some (iW + 4, r) } else Some (iW, r));
          if iW \<le> i32 (width - 2) then block2 va s r else Some r }"

definition next_rows :: "int \<Rightarrow> int \<Rightarrow> int \<Rightarrow> int \<Rightarrow> int \<Rightarrow> simd_row \<Rightarrow> simd_row" where
  "next_rows bgra_stride y_stride v_stride u_stride a_stride r =
     r\<lparr>sr_y1 := sr_y1 r + i32 (2 * y_stride), sr_y2 := sr_y2 r + i32 (2 * y_stride), sr_u := sr_u r + u_stride, sr_v := sr_v r + v_stride,
       sr_a1 := sr_a1 r + i32 (2 * a_stride), sr_a2 := sr_a2 r + i32 (2 * a_stride),
       sr_d1 := sr_d1 r + i32 (2 * bgra_stride), sr_d2 := sr_d2 r + i32 (2 * bgra_stride)\<rparr>"

definition convert_simd ::
    "variant \<Rightarrow> simd_src \<Rightarrow> int list \<Rightarrow> int \<Rightarrow> int \<Rightarrow> int \<Rightarrow> int \<Rightarrow> int \<Rightarrow> int \<Rightarrow> int \<Rightarrow> (int \<times> int list) option" where
  "convert_simd va s bgra bgra_stride width height y_stride v_stride u_stride a_stride =
     do { r \<leftarrow> iter_opt (nat (drop_bit 1 height)) (\<lambda>r.
            do { r' \<leftarrow> simd_columns va s width r;
                 Some (next_rows bgra_stride y_stride v_stride u_stride a_stride (r\<lparr>sr_out := sr_out r'\<rparr>)) })
            \<lparr>sr_u = 0, sr_v = 0, sr_y1 = 0, sr_y2 = y_stride, sr_a1 = 0, sr_a2 = a_stride, sr_d1 = 0, sr_d2 = bgra_stride, sr_out = bgra\<rparr>;
          Some (0, sr_out r) }"

text \<open>
  The four converters. An argument \<open>pb\<close> after a plane \<open>p\<close> is its address.
\<close>

definition unaligned :: "int list \<Rightarrow> bool" where
  "unaligned xs \<longleftrightarrow> (\<exists>x \<in> set xs. x mod 16 \<noteq> 0)"

definition ARGB32_sse2 where
  "ARGB32_sse2 argb db argb_stride width height y yb v vb u ub a ab y_stride v_stride u_stride a_stride =
     convert_simd \<lparr>va_order = ARGB, va_alpha = True, va_premultiply = False\<rparr>
       \<lparr>ss_y = y, ss_ybase = yb, ss_u = u, ss_v = v, ss_a = a, ss_abase = ab, ss_dbase = db,
        ss_unaligned = unaligned [yb, ub, vb, ab, y_stride, u_stride, v_stride, a_stride]\<rparr>
       argb argb_stride width height y_stride v_stride u_stride a_stride"

definition ARGB32_no_alpha_sse2 where
  "ARGB32_no_alpha_sse2 argb db argb_stride width height y yb v vb u ub y_stride v_stride u_stride =
     convert_simd \<lparr>va_order = ARGB, va_alpha = False, va_premultiply = False\<rparr>
       \<lparr>ss_y = y, ss_ybase = yb, ss_u = u, ss_v = v, ss_a = [], ss_abase = 0, ss_dbase = db,
        ss_unaligned = unaligned [yb, ub, vb, y_stride, u_stride, v_stride]\<rparr>
       argb argb_stride width height y_stride v_stride u_stride 0"

definition BGRA32_sse2 where
  "BGRA32_sse2 bgra db bgra_stride width height y yb v vb u ub a ab y_stride v_stride u_stride a_stride =
     convert_simd \<lparr>va_order = BGRA, va_alpha = True, va_premultiply = True\<rparr>
       \<lparr>ss_y = y, ss_ybase = yb, ss_u = u, ss_v = v, ss_a = a, ss_abase = ab, ss_dbase = db,
        ss_unaligned = unaligned [yb, ub, vb, ab, y_stride, u_stride, v_stride, a_stride]\<rparr>
       bgra bgra_stride width height y_stride v_stride u_stride a_stride"

definition BGRA32_no_alpha_sse2 where
  "BGRA32_no_alpha_sse2 bgra db bgra_stride width height y yb v vb u ub y_stride v_stride u_stride =
     convert_simd \<lparr>va_order = BGRA, va_alpha = False, va_premultiply = False\<rparr>
       \<lparr>ss_y = y, ss_ybase = yb, ss_u = u, ss_v = v, ss_a = [], ss_abase = 0, ss_dbase = db,
        ss_unaligned = unaligned [yb, ub, vb, y_stride, u_stride, v_stride]\<rparr>
       bgra bgra_stride width height y_stride v_stride u_stride 0"

section \<open>Pixels\<close>

text \<open>The three colours and the four bytes of a pixel, in the arithmetic of the instructions.\<close>

definition lumaS :: "int \<Rightarrow> int" where "lumaS y = mulhi16 (join8 0 y) (w16 0x2543)"
definition bS :: "int \<Rightarrow> int" where "bS u = add16 (mulhi16 (join8 0 u) (w16 0x4097)) (w16 0xdd60)"
definition gS :: "int \<Rightarrow> int \<Rightarrow> int" where
  "gS u v = sub16 (w16 0x10f4) (add16 (mulhi16 (join8 0 u) (w16 0xc8b)) (mulhi16 (join8 0 v) (w16 0x1a06)))"
definition rS :: "int \<Rightarrow> int" where "rS v = add16 (mulhi16 (join8 0 v) (w16 0x3317)) (w16 0xe420)"
definition shadeS :: "int \<Rightarrow> int \<Rightarrow> int" where "shadeS y c = sat8 (srai16 5 (add16 y c))"
definition preS :: "variant \<Rightarrow> int \<Rightarrow> int \<Rightarrow> int" where
  "preS va c a = (if va_premultiply va then sat8 (srli16 8 (mullo16 (join8 c 0) (add16 (join8 a 0) (w16 1)))) else c)"

definition pixS :: "variant \<Rightarrow> int \<Rightarrow> int \<Rightarrow> int \<Rightarrow> int \<Rightarrow> int list" where
  "pixS va y u v a =
     (let (c0, c1, c2, c3) = channels va (preS va (shadeS (lumaS y) (bS u)) a) (preS va (shadeS (lumaS y) (gS u v)) a)
                               (preS va (shadeS (lumaS y) (rS v)) a) a
      in [c0, c1, c2, c3])"

lemmas const_defs = x_zero_def x_aa_def x_one_def x_c0_def x_c1_def x_c4_def x_c5_def x_c8_def x_coff0_def x_coff1_def x_coff2_def

declare of_words.simps [simp del]

lemma add16_w16 [simp]: "add16 (w16 x) y = add16 x y" "add16 x (w16 y) = add16 x y"
  by (simp_all add: add16_def w16_def mod_simps)

lemma sat8_zero [simp]: "sat8 (join8 0 0) = 0"
  by (simp add: sat8_def s16_def join8_def)

lemma w16_terms [simp]: "w16 (lumaS y) = lumaS y" "w16 (bS u) = bS u" "w16 (gS u v) = gS u v" "w16 (rS v) = rS v"
  by (simp_all add: lumaS_def bS_def gS_def rS_def)

lemmas eval_defs = mm_defs const_defs of_words.simps replicate_numeral_Cons

text \<open>The sections of a block on registers given by their cells.\<close>

lemma chroma_words_eq:
  "chroma_words [0, u0, 0, u1, 0, u2, 0, u3, 0, u4, 0, u5, 0, u6, 0, u7]
     [0, v0, 0, v1, 0, v2, 0, v3, 0, v4, 0, v5, 0, v6, 0, v7] =
    (of_words [bS u0, bS u1, bS u2, bS u3, bS u4, bS u5, bS u6, bS u7],
     of_words [gS u0 v0, gS u1 v1, gS u2 v2, gS u3 v3, gS u4 v4, gS u5 v5, gS u6 v6, gS u7 v7],
     of_words [rS v0, rS v1, rS v2, rS v3, rS v4, rS v5, rS v6, rS v7])"
  by (simp add: chroma_words_def eval_defs bS_def gS_def rS_def)

lemma luma_eq: "mm_mulhi_epu16 [0, y0, 0, y1, 0, y2, 0, y3, 0, y4, 0, y5, 0, y6, 0, y7] x_c0 = of_words [lumaS y0, lumaS y1, lumaS y2, lumaS y3, lumaS y4, lumaS y5, lumaS y6, lumaS y7]"
  by (simp add: eval_defs lumaS_def)

lemma shade_lo_eq:
  "shade_lo (of_words [c0, c1, c2, c3, c4, c5, c6, c7]) (of_words [y0, y1, y2, y3, y4, y5, y6, y7]) (of_words [z0, z1, z2, z3, z4, z5, z6, z7]) =
    (of_words [srai16 5 (add16 y0 c0), srai16 5 (add16 y1 c0), srai16 5 (add16 y2 c0), srai16 5 (add16 y3 c0), srai16 5 (add16 y4 c1), srai16 5 (add16 y5 c1), srai16 5 (add16 y6 c1), srai16 5 (add16 y7 c1)],
     of_words [srai16 5 (add16 z0 c2), srai16 5 (add16 z1 c2), srai16 5 (add16 z2 c2), srai16 5 (add16 z3 c2), srai16 5 (add16 z4 c3), srai16 5 (add16 z5 c3), srai16 5 (add16 z6 c3), srai16 5 (add16 z7 c3)])"
  by (simp add: shade_lo_def eval_defs)

lemma shade_hi_eq:
  "shade_hi (of_words [c0, c1, c2, c3, c4, c5, c6, c7]) (of_words [y0, y1, y2, y3, y4, y5, y6, y7]) (of_words [z0, z1, z2, z3, z4, z5, z6, z7]) =
    (of_words [srai16 5 (add16 y0 c4), srai16 5 (add16 y1 c4), srai16 5 (add16 y2 c4), srai16 5 (add16 y3 c4), srai16 5 (add16 y4 c5), srai16 5 (add16 y5 c5), srai16 5 (add16 y6 c5), srai16 5 (add16 y7 c5)],
     of_words [srai16 5 (add16 z0 c6), srai16 5 (add16 z1 c6), srai16 5 (add16 z2 c6), srai16 5 (add16 z3 c6), srai16 5 (add16 z4 c7), srai16 5 (add16 z5 c7), srai16 5 (add16 z6 c7), srai16 5 (add16 z7 c7)])"
  by (simp add: shade_hi_def eval_defs)

lemma shade_one_eq:
  "shade_one (of_words [c0, c1, c2, c3, c4, c5, c6, c7]) (of_words [y0, y1, y2, y3, y4, y5, y6, y7]) =
    of_words [srai16 5 (add16 y0 c0), srai16 5 (add16 y1 c0), srai16 5 (add16 y2 c0), srai16 5 (add16 y3 c0), srai16 5 (add16 y4 c1), srai16 5 (add16 y5 c1), srai16 5 (add16 y6 c1), srai16 5 (add16 y7 c1)]"
  by (simp add: shade_one_def eval_defs)

lemma shade_int_eq: "shade_int c (of_words [y0, y1, y2, y3, y4, y5, y6, y7]) = of_words [srai16 5 (add16 y0 c), srai16 5 (add16 y1 c), srai16 5 (add16 y2 c), srai16 5 (add16 y3 c), srai16 5 (add16 y4 c), srai16 5 (add16 y5 c), srai16 5 (add16 y6 c), srai16 5 (add16 y7 c)]"
  by (simp add: shade_int_def eval_defs)

lemma packus_eq:
  "mm_packus_epi16 (of_words [srai16 5 (add16 y0 c0), srai16 5 (add16 y1 c1), srai16 5 (add16 y2 c2), srai16 5 (add16 y3 c3), srai16 5 (add16 y4 c4), srai16 5 (add16 y5 c5), srai16 5 (add16 y6 c6), srai16 5 (add16 y7 c7)]) (of_words [srai16 5 (add16 z0 d0), srai16 5 (add16 z1 d1), srai16 5 (add16 z2 d2), srai16 5 (add16 z3 d3), srai16 5 (add16 z4 d4), srai16 5 (add16 z5 d5), srai16 5 (add16 z6 d6), srai16 5 (add16 z7 d7)]) =
    [shadeS y0 c0, shadeS y1 c1, shadeS y2 c2, shadeS y3 c3, shadeS y4 c4, shadeS y5 c5, shadeS y6 c6, shadeS y7 c7,
     shadeS z0 d0, shadeS z1 d1, shadeS z2 d2, shadeS z3 d3, shadeS z4 d4, shadeS z5 d5, shadeS z6 d6, shadeS z7 d7]"
  by (simp add: eval_defs shadeS_def)

lemma packus_zero_eq:
  "mm_packus_epi16 (of_words [srai16 5 (add16 y0 c0), srai16 5 (add16 y1 c1), srai16 5 (add16 y2 c2), srai16 5 (add16 y3 c3), srai16 5 (add16 y4 c4), srai16 5 (add16 y5 c5), srai16 5 (add16 y6 c6), srai16 5 (add16 y7 c7)]) x_zero =
    [shadeS y0 c0, shadeS y1 c1, shadeS y2 c2, shadeS y3 c3, shadeS y4 c4, shadeS y5 c5, shadeS y6 c6, shadeS y7 c7, 0, 0, 0, 0, 0, 0, 0, 0]"
  by (simp add: eval_defs shadeS_def)

lemma spread_eq:
  "mm_unpacklo_epi8 [c0, c1, c2, c3, c4, c5, c6, c7, c8, c9, c10, c11, c12, c13, c14, c15] x_zero = [c0, 0, c1, 0, c2, 0, c3, 0, c4, 0, c5, 0, c6, 0, c7, 0]"
  "mm_unpackhi_epi8 [c0, c1, c2, c3, c4, c5, c6, c7, c8, c9, c10, c11, c12, c13, c14, c15] x_zero = [c8, 0, c9, 0, c10, 0, c11, 0, c12, 0, c13, 0, c14, 0, c15, 0]"
  by (simp_all add: eval_defs)

lemma scale_eq:
  "mm_srli_epi16 (mm_mullo_epi16 [c0, 0, c1, 0, c2, 0, c3, 0, c4, 0, c5, 0, c6, 0, c7, 0] (mm_add_epi16 [a0, 0, a1, 0, a2, 0, a3, 0, a4, 0, a5, 0, a6, 0, a7, 0] x_one)) 8 =
    of_words [srli16 8 (mullo16 (join8 c0 0) (add16 (join8 a0 0) (w16 1))), srli16 8 (mullo16 (join8 c1 0) (add16 (join8 a1 0) (w16 1))), srli16 8 (mullo16 (join8 c2 0) (add16 (join8 a2 0) (w16 1))), srli16 8 (mullo16 (join8 c3 0) (add16 (join8 a3 0) (w16 1))), srli16 8 (mullo16 (join8 c4 0) (add16 (join8 a4 0) (w16 1))), srli16 8 (mullo16 (join8 c5 0) (add16 (join8 a5 0) (w16 1))), srli16 8 (mullo16 (join8 c6 0) (add16 (join8 a6 0) (w16 1))), srli16 8 (mullo16 (join8 c7 0) (add16 (join8 a7 0) (w16 1)))]"
  by (simp add: eval_defs)

lemma packus_scaled_eq:
  "mm_packus_epi16 (of_words [srli16 8 x0, srli16 8 x1, srli16 8 x2, srli16 8 x3, srli16 8 x4, srli16 8 x5, srli16 8 x6, srli16 8 x7]) (of_words [srli16 8 z0, srli16 8 z1, srli16 8 z2, srli16 8 z3, srli16 8 z4, srli16 8 z5, srli16 8 z6, srli16 8 z7]) =
    [sat8 (srli16 8 x0), sat8 (srli16 8 x1), sat8 (srli16 8 x2), sat8 (srli16 8 x3), sat8 (srli16 8 x4), sat8 (srli16 8 x5), sat8 (srli16 8 x6), sat8 (srli16 8 x7),
     sat8 (srli16 8 z0), sat8 (srli16 8 z1), sat8 (srli16 8 z2), sat8 (srli16 8 z3), sat8 (srli16 8 z4), sat8 (srli16 8 z5), sat8 (srli16 8 z6), sat8 (srli16 8 z7)]"
  by (simp add: eval_defs)

lemma tint_eq:
  "tint va [c0, c1, c2, c3, c4, c5, c6, c7, c8, c9, c10, c11, c12, c13, c14, c15] [a0, a1, a2, a3, a4, a5, a6, a7, a8, a9, a10, a11, a12, a13, a14, a15] =
    [preS va c0 a0, preS va c1 a1, preS va c2 a2, preS va c3 a3, preS va c4 a4, preS va c5 a5, preS va c6 a6, preS va c7 a7, preS va c8 a8, preS va c9 a9, preS va c10 a10, preS va c11 a11, preS va c12 a12, preS va c13 a13, preS va c14 a14, preS va c15 a15]"
  by (cases "va_premultiply va") (simp_all only: tint_def PREMULTIPLY_ALPHA_def Let_def preS_def spread_eq scale_eq packus_scaled_eq if_True if_False)

definition cell :: "variant \<Rightarrow> int \<Rightarrow> int \<Rightarrow> int \<Rightarrow> int \<Rightarrow> int list" where
  "cell va b g r a = (let (c0, c1, c2, c3) = channels va b g r a in [c0, c1, c2, c3])"

definition store_quad :: "simd_src \<Rightarrow> m128 \<Rightarrow> m128 \<Rightarrow> simd_row \<Rightarrow> simd_row option" where
  "store_quad s t b r =
     do { d \<leftarrow> mm_store_si128 (ss_dbase s) (sr_out r) (sr_d1 r) t;
          d \<leftarrow> mm_store_si128 (ss_dbase s) d (sr_d2 r) b;
          Some (r\<lparr>sr_d1 := sr_d1 r + 16, sr_d2 := sr_d2 r + 16, sr_out := d\<rparr>) }"

definition store_pair :: "m128 \<Rightarrow> m128 \<Rightarrow> simd_row \<Rightarrow> simd_row option" where
  "store_pair t b r =
     do { d \<leftarrow> awrite (sr_out r) (sr_d1 r) t;
          d \<leftarrow> awrite d (sr_d2 r) b;
          Some (r\<lparr>sr_d1 := sr_d1 r + 8, sr_d2 := sr_d2 r + 8, sr_out := d\<rparr>) }"

lemma save_lo_eq:
  "save_lo s (channels va [b0, b1, b2, b3, b4, b5, b6, b7, b8, b9, b10, b11, b12, b13, b14, b15] [g0, g1, g2, g3, g4, g5, g6, g7, g8, g9, g10, g11, g12, g13, g14, g15] [r0, r1, r2, r3, r4, r5, r6, r7, r8, r9, r10, r11, r12, r13, r14, r15] [a0, a1, a2, a3, a4, a5, a6, a7, a8, a9, a10, a11, a12, a13, a14, a15]) =
    store_quad s (cell va b0 g0 r0 a0 @ cell va b1 g1 r1 a1 @ cell va b4 g4 r4 a4 @ cell va b5 g5 r5 a5) (cell va b2 g2 r2 a2 @ cell va b3 g3 r3 a3 @ cell va b6 g6 r6 a6 @ cell va b7 g7 r7 a7)"
  by (rule ext, cases "va_order va") (simp_all add: save_lo_def save_quad_def store_quad_def channels_def cell_def eval_defs)

lemma save_hi_eq:
  "save_hi s (channels va [b0, b1, b2, b3, b4, b5, b6, b7, b8, b9, b10, b11, b12, b13, b14, b15] [g0, g1, g2, g3, g4, g5, g6, g7, g8, g9, g10, g11, g12, g13, g14, g15] [r0, r1, r2, r3, r4, r5, r6, r7, r8, r9, r10, r11, r12, r13, r14, r15] [a0, a1, a2, a3, a4, a5, a6, a7, a8, a9, a10, a11, a12, a13, a14, a15]) =
    store_quad s (cell va b8 g8 r8 a8 @ cell va b9 g9 r9 a9 @ cell va b12 g12 r12 a12 @ cell va b13 g13 r13 a13) (cell va b10 g10 r10 a10 @ cell va b11 g11 r11 a11 @ cell va b14 g14 r14 a14 @ cell va b15 g15 r15 a15)"
  by (rule ext, cases "va_order va") (simp_all add: save_hi_def save_quad_def store_quad_def channels_def cell_def eval_defs)

lemma save_pair_eq:
  "save_pair (channels va [b0, b1, b2, b3, b4, b5, b6, b7, b8, b9, b10, b11, b12, b13, b14, b15] [g0, g1, g2, g3, g4, g5, g6, g7, g8, g9, g10, g11, g12, g13, g14, g15] [r0, r1, r2, r3, r4, r5, r6, r7, r8, r9, r10, r11, r12, r13, r14, r15] [a0, a1, a2, a3, a4, a5, a6, a7, a8, a9, a10, a11, a12, a13, a14, a15]) q =
    store_pair (cell va b0 g0 r0 a0 @ cell va b1 g1 r1 a1) (cell va b2 g2 r2 a2 @ cell va b3 g3 r3 a3) q"
  unfolding save_pair_def store_pair_def channels_def cell_def Let_def mm_storel_epi64_def
  by (cases "va_order va") (simp_all only: pixel_order.case prod.case, simp_all add: eval_defs)

lemma pixS_cell:
  "cell va (preS va (shadeS (lumaS y) (bS u)) a) (preS va (shadeS (lumaS y) (gS u v)) a) (preS va (shadeS (lumaS y) (rS v)) a) a = pixS va y u v a"
  by (simp add: pixS_def cell_def)

lemmas block_eqs = chroma_words_eq luma_eq shade_lo_eq shade_hi_eq shade_one_eq shade_int_eq packus_eq packus_zero_eq tint_eq save_lo_eq save_hi_eq
  save_pair_eq pixS_cell


text \<open>The two rows are interleaved by pairs of pixels, and bytes are the upper halves of words.\<close>

lemma pairs_eq:
  "mm_unpacklo_epi16 [y0, y1, y2, y3, y4, y5, y6, y7, y8, y9, y10, y11, y12, y13, y14, y15] [z0, z1, z2, z3, z4, z5, z6, z7, z8, z9, z10, z11, z12, z13, z14, z15] =
    [y0, y1, z0, z1, y2, y3, z2, z3, y4, y5, z4, z5, y6, y7, z6, z7]"
  "mm_unpackhi_epi16 [y0, y1, y2, y3, y4, y5, y6, y7, y8, y9, y10, y11, y12, y13, y14, y15] [z0, z1, z2, z3, z4, z5, z6, z7, z8, z9, z10, z11, z12, z13, z14, z15] =
    [y8, y9, z8, z9, y10, y11, z10, z11, y12, y13, z12, z13, y14, y15, z14, z15]"
  by (simp_all add: mm_defs)

lemma upper_eq:
  "mm_unpacklo_epi8 x_zero [y0, y1, y2, y3, y4, y5, y6, y7, y8, y9, y10, y11, y12, y13, y14, y15] = [0, y0, 0, y1, 0, y2, 0, y3, 0, y4, 0, y5, 0, y6, 0, y7]"
  "mm_unpackhi_epi8 x_zero [y0, y1, y2, y3, y4, y5, y6, y7, y8, y9, y10, y11, y12, y13, y14, y15] = [0, y8, 0, y9, 0, y10, 0, y11, 0, y12, 0, y13, 0, y14, 0, y15]"
  by (simp_all add: mm_defs x_zero_def replicate_numeral_Cons)

lemma load_eqs:
  "aread p i 8 = Some [y0, y1, y2, y3, y4, y5, y6, y7] \<Longrightarrow> mm_loadl_epi64 p i = Some [y0, y1, y2, y3, y4, y5, y6, y7, 0, 0, 0, 0, 0, 0, 0, 0]"
  "aread p i 4 = Some [y0, y1, y2, y3] \<Longrightarrow> mm_cvt_i32 p i = Some [y0, y1, y2, y3, 0, 0, 0, 0, 0, 0, 0, 0, 0, 0, 0, 0]"
  "aread p i 2 = Some [y0, y1] \<Longrightarrow> mm_cvt_u16 p i = Some [y0, y1, 0, 0, 0, 0, 0, 0, 0, 0, 0, 0, 0, 0, 0, 0]"
  "aread p i 2 = Some [y0, y1] \<Longrightarrow> aread p j 2 = Some [z0, z1] \<Longrightarrow> cvt_pair p i j = Some [y0, y1, z0, z1, 0, 0, 0, 0, 0, 0, 0, 0, 0, 0, 0, 0]"
  by (simp_all add: mm_loadl_epi64_def mm_cvt_i32_def mm_cvt_u16_def cvt_pair_def replicate_numeral_Cons)

lemmas simd_eqs = pairs_eq upper_eq load_eqs block_eqs

lemma block16_eq:
  assumes "aread (ss_u s) (sr_u r) 8 = Some [u0, u1, u2, u3, u4, u5, u6, u7]" "aread (ss_v s) (sr_v r) 8 = Some [v0, v1, v2, v3, v4, v5, v6, v7]"
    and "load_si128 s (ss_ybase s) (ss_y s) (sr_y1 r) = Some [y0, y1, y2, y3, y4, y5, y6, y7, y8, y9, y10, y11, y12, y13, y14, y15]"
    and "load_si128 s (ss_ybase s) (ss_y s) (sr_y2 r) = Some [z0, z1, z2, z3, z4, z5, z6, z7, z8, z9, z10, z11, z12, z13, z14, z15]"
    and "alpha16 va s r = Some ([a0, a1, e0, e1, a2, a3, e2, e3, a4, a5, e4, e5, a6, a7, e6, e7],
      [a8, a9, e8, e9, a10, a11, e10, e11, a12, a13, e12, e13, a14, a15, e14, e15])"
  shows "block16 va s r =
    do { r \<leftarrow> store_quad s (pixS va y0 u0 v0 a0 @ pixS va y1 u0 v0 a1 @ pixS va y2 u1 v1 a2 @ pixS va y3 u1 v1 a3)
         (pixS va z0 u0 v0 e0 @ pixS va z1 u0 v0 e1 @ pixS va z2 u1 v1 e2 @ pixS va z3 u1 v1 e3) (advance 16 r);
       r \<leftarrow> store_quad s (pixS va y4 u2 v2 a4 @ pixS va y5 u2 v2 a5 @ pixS va y6 u3 v3 a6 @ pixS va y7 u3 v3 a7)
         (pixS va z4 u2 v2 e4 @ pixS va z5 u2 v2 e5 @ pixS va z6 u3 v3 e6 @ pixS va z7 u3 v3 e7) r;
       r \<leftarrow> store_quad s (pixS va y8 u4 v4 a8 @ pixS va y9 u4 v4 a9 @ pixS va y10 u5 v5 a10 @ pixS va y11 u5 v5 a11)
         (pixS va z8 u4 v4 e8 @ pixS va z9 u4 v4 e9 @ pixS va z10 u5 v5 e10 @ pixS va z11 u5 v5 e11) r;
       store_quad s (pixS va y12 u6 v6 a12 @ pixS va y13 u6 v6 a13 @ pixS va y14 u7 v7 a14 @ pixS va y15 u7 v7 a15)
         (pixS va z12 u6 v6 e12 @ pixS va z13 u6 v6 e13 @ pixS va z14 u7 v7 e14 @ pixS va z15 u7 v7 e15) r }"
  by (simp only: block16_def assms load_eqs(1) [OF assms(1)] load_eqs(1) [OF assms(2)] Option.bind.bind_lunit Let_def prod.case simd_eqs)

lemma block8_eq:
  assumes "aread (ss_u s) (sr_u r) 4 = Some [u0, u1, u2, u3]" "aread (ss_v s) (sr_v r) 4 = Some [v0, v1, v2, v3]"
    and "aread (ss_y s) (sr_y1 r) 8 = Some [y0, y1, y2, y3, y4, y5, y6, y7]" "aread (ss_y s) (sr_y2 r) 8 = Some [z0, z1, z2, z3, z4, z5, z6, z7]"
    and "alpha8 va s r = Some [a0, a1, e0, e1, a2, a3, e2, e3, a4, a5, e4, e5, a6, a7, e6, e7]"
  shows "block8 va s r =
    do { r \<leftarrow> store_quad s (pixS va y0 u0 v0 a0 @ pixS va y1 u0 v0 a1 @ pixS va y2 u1 v1 a2 @ pixS va y3 u1 v1 a3)
         (pixS va z0 u0 v0 e0 @ pixS va z1 u0 v0 e1 @ pixS va z2 u1 v1 e2 @ pixS va z3 u1 v1 e3) (advance 8 r);
       store_quad s (pixS va y4 u2 v2 a4 @ pixS va y5 u2 v2 a5 @ pixS va y6 u3 v3 a6 @ pixS va y7 u3 v3 a7)
         (pixS va z4 u2 v2 e4 @ pixS va z5 u2 v2 e5 @ pixS va z6 u3 v3 e6 @ pixS va z7 u3 v3 e7) r }"
  by (simp only: block8_def assms load_eqs(2) [OF assms(1)] load_eqs(2) [OF assms(2)] load_eqs(1) [OF assms(3)] load_eqs(1) [OF assms(4)]
      Option.bind.bind_lunit Let_def prod.case simd_eqs)

lemma block4_eq:
  assumes "aread (ss_u s) (sr_u r) 2 = Some [u0, u1]" "aread (ss_v s) (sr_v r) 2 = Some [v0, v1]"
    and "aread (ss_y s) (sr_y1 r) 4 = Some [y0, y1, y2, y3]" "aread (ss_y s) (sr_y2 r) 4 = Some [z0, z1, z2, z3]"
    and "alpha4 va s r = Some ([a0, a1, e0, e1, a2, a3, e2, e3] @ x)" "length x = 8"
  shows "block4 va s r = store_quad s (pixS va y0 u0 v0 a0 @ pixS va y1 u0 v0 a1 @ pixS va y2 u1 v1 a2 @ pixS va y3 u1 v1 a3)
         (pixS va z0 u0 v0 e0 @ pixS va z1 u0 v0 e1 @ pixS va z2 u1 v1 e2 @ pixS va z3 u1 v1 e3) (advance 4 r)"
proof -
  obtain x0 x1 x2 x3 x4 x5 x6 x7 where x: "x = [x0, x1, x2, x3, x4, x5, x6, x7]" using list_of_8 [OF assms(6)] by blast
  show ?thesis
    by (simp only: block4_def assms x append.simps load_eqs(3) [OF assms(1)] load_eqs(3) [OF assms(2)] load_eqs(2) [OF assms(3)] load_eqs(2) [OF assms(4)]
        Option.bind.bind_lunit Let_def prod.case simd_eqs)
qed


text \<open>One sample of chroma in 32-bit arithmetic gives the words of the vector code.\<close>

lemma shadeS_w16: "shadeS y (w16 c) = shadeS y c"
  by (simp add: shadeS_def)

lemma i32_w16: "w16 (i32 x) = w16 x"
proof -
  have "i32 x mod 2 ^ 32 mod 65536 = x mod 2 ^ 32 mod 65536" by (simp only: i32_mod_eq)
  then show ?thesis by (simp add: w16_def mod_mod_cancel)
qed

lemma mulhi_upper: "mulhi16 (join8 0 u) (w16 c) = w16 (drop_bit 8 (u * c))" if "0 \<le> c" "c < 65536"
proof -
  have "256 * u * c div 65536 = 256 * (u * c) div (256 * 256)" by (simp add: mult.assoc)
  then show ?thesis using that by (simp add: mulhi16_def join8_def w16_def drop_bit_eq_div mult.commute)
qed

lemma chroma_int_eq:
  assumes "chroma_int u v = (ib, ig, ir)"
  shows "shadeS y ib = shadeS y (bS u)" "shadeS y ig = shadeS y (gS u v)" "shadeS y ir = shadeS y (rS v)"
proof -
  have ib: "ib = i32 (0xffffdd60 + drop_bit 8 (u * 0x4097))" and ir: "ir = i32 (drop_bit 8 (v * 0x3317) + 0xffffe420)"
    and ig: "ig = 0x10f4 - (drop_bit 8 (u * 0xc8b) + drop_bit 8 (v * 0x1a06))"
    using assms by (simp_all add: chroma_int_def Let_def)
  have m: "mulhi16 (join8 0 u) (w16 0x4097) = w16 (drop_bit 8 (u * 0x4097))" "mulhi16 (join8 0 v) (w16 0x3317) = w16 (drop_bit 8 (v * 0x3317))"
    "mulhi16 (join8 0 u) (w16 0xc8b) = w16 (drop_bit 8 (u * 0xc8b))" "mulhi16 (join8 0 v) (w16 0x1a06) = w16 (drop_bit 8 (v * 0x1a06))"
    by (rule mulhi_upper; simp)+
  have "w16 ib = bS u" unfolding ib i32_w16 bS_def m by (simp add: w16_def add16_def mod_simps) (simp add: mod_eq_dvd_iff)
  then show "shadeS y ib = shadeS y (bS u)" using shadeS_w16 [of y ib] by simp
  have "w16 ir = rS v" unfolding ir i32_w16 rS_def m by (simp add: w16_def add16_def mod_simps) (simp add: mod_eq_dvd_iff)
  then show "shadeS y ir = shadeS y (rS v)" using shadeS_w16 [of y ir] by simp
  have "w16 ig = gS u v" unfolding ig gS_def m by (simp add: w16_def add16_def sub16_def mod_simps)
  then show "shadeS y ig = shadeS y (gS u v)" using shadeS_w16 [of y ig] by simp
qed

lemma block2_eq:
  assumes "aget (ss_u s) (sr_u r) = Some u0" "aget (ss_v s) (sr_v r) = Some v0"
    and "aread (ss_y s) (sr_y1 r) 2 = Some [y0, y1]" "aread (ss_y s) (sr_y2 r) 2 = Some [z0, z1]"
    and "alpha2 va s r = Some ([a0, a1, e0, e1] @ x)" "length x = 12"
  shows "block2 va s r = store_pair (pixS va y0 u0 v0 a0 @ pixS va y1 u0 v0 a1) (pixS va z0 u0 v0 e0 @ pixS va z1 u0 v0 e1) (advance 2 r)"
proof -
  obtain x0 x1 x2 x3 x4 x5 x6 x7 where x: "take 8 x = [x0, x1, x2, x3, x4, x5, x6, x7]" using list_of_8 [of "take 8 x"] assms(6) by auto
  obtain x8 x9 x10 x11 where "drop 8 x = [x8, x9, x10, x11]" using list_of_4 [of "drop 8 x"] assms(6) by auto
  with x have x: "x = [x0, x1, x2, x3, x4, x5, x6, x7, x8, x9, x10, x11]" using append_take_drop_id [of 8 x] by simp
  obtain ib ig ir where c: "chroma_int u0 v0 = (ib, ig, ir)" by (metis prod.collapse)
  show ?thesis
    by (simp only: block2_def assms(1-5) x append.simps load_eqs(4) [OF assms(3,4)] c Option.bind.bind_lunit Let_def prod.case
        simd_eqs chroma_int_eq [OF c])
qed

end
