(* ===== verification/SimdFrame.thy ===== *)
theory SimdFrame
  imports SimdConverter
begin

text \<open>
  What the SSE2 converters of \<open>ColorConverter.c\<close> do to a whole frame, and how their pixels compare with those of the generic
  converters and of the colour space.
\<close>

section \<open>Blocks\<close>

text \<open>The blocks with their inputs as functions of the column.\<close>

lemma upt_cells:
  "[0..<16] = [0, 1, 2, 3, 4, 5, 6, 7, 8, 9, 10, 11, 12, 13, 14, 15]"
  "[0..<8] = [0, 1, 2, 3, 4, 5, 6, 7]"
  "[0..<4] = [0, 1, 2, 3]"
  "[0..<2] = [0, 1]"
  by code_simp+

lemma block16_run:
  assumes "aread (ss_u s) (sr_u r) 8 = Some (map U [0..<8])" "aread (ss_v s) (sr_v r) 8 = Some (map V [0..<8])"
    and "load_si128 s (ss_ybase s) (ss_y s) (sr_y1 r) = Some (map Y [0..<16])" "load_si128 s (ss_ybase s) (ss_y s) (sr_y2 r) = Some (map Z [0..<16])"
    and "if va_alpha va then load_si128 s (ss_abase s) (ss_a s) (sr_a1 r) = Some (map A [0..<16]) \<and> load_si128 s (ss_abase s) (ss_a s) (sr_a2 r) = Some (map E [0..<16])
      else (\<forall>k. A k = 255 \<and> E k = 255)"
    and P: "\<And>k. P k = pixS va (Y k) (U (k div 2)) (V (k div 2)) (A k)" and Q: "\<And>k. Q k = pixS va (Z k) (U (k div 2)) (V (k div 2)) (E k)"
  shows "block16 va s r =
    do { r \<leftarrow> store_quad s (P 0 @ P 1 @ P 2 @ P 3) (Q 0 @ Q 1 @ Q 2 @ Q 3) (advance 16 r);
         r \<leftarrow> store_quad s (P 4 @ P 5 @ P 6 @ P 7) (Q 4 @ Q 5 @ Q 6 @ Q 7) r;
         r \<leftarrow> store_quad s (P 8 @ P 9 @ P 10 @ P 11) (Q 8 @ Q 9 @ Q 10 @ Q 11) r;
         store_quad s (P 12 @ P 13 @ P 14 @ P 15) (Q 12 @ Q 13 @ Q 14 @ Q 15) r }"
proof -
  have "alpha16 va s r = Some ([A 0, A 1, E 0, E 1, A 2, A 3, E 2, E 3, A 4, A 5, E 4, E 5, A 6, A 7, E 6, E 7],
      [A 8, A 9, E 8, E 9, A 10, A 11, E 10, E 11, A 12, A 13, E 12, E 13, A 14, A 15, E 14, E 15])"
    using assms(5) by (cases "va_alpha va") (simp_all add: alpha16_def pairs_eq upt_cells x_aa_def mm_set1_epi8_def replicate_numeral_Cons lo8_def)
  from block16_eq [OF _ _ _ _ this, of "U 0" "U 1" "U 2" "U 3" "U 4" "U 5" "U 6" "U 7" "V 0" "V 1" "V 2" "V 3" "V 4" "V 5" "V 6" "V 7"] assms(1-4)
  show ?thesis by (simp add: P Q upt_cells)
qed

lemma block8_run:
  assumes "aread (ss_u s) (sr_u r) 4 = Some (map U [0..<4])" "aread (ss_v s) (sr_v r) 4 = Some (map V [0..<4])"
    and "aread (ss_y s) (sr_y1 r) 8 = Some (map Y [0..<8])" "aread (ss_y s) (sr_y2 r) 8 = Some (map Z [0..<8])"
    and "if va_alpha va then aread (ss_a s) (sr_a1 r) 8 = Some (map A [0..<8]) \<and> aread (ss_a s) (sr_a2 r) 8 = Some (map E [0..<8])
      else (\<forall>k. A k = 255 \<and> E k = 255)"
    and P: "\<And>k. P k = pixS va (Y k) (U (k div 2)) (V (k div 2)) (A k)" and Q: "\<And>k. Q k = pixS va (Z k) (U (k div 2)) (V (k div 2)) (E k)"
  shows "block8 va s r =
    do { r \<leftarrow> store_quad s (P 0 @ P 1 @ P 2 @ P 3) (Q 0 @ Q 1 @ Q 2 @ Q 3) (advance 8 r);
         store_quad s (P 4 @ P 5 @ P 6 @ P 7) (Q 4 @ Q 5 @ Q 6 @ Q 7) r }"
proof -
  have "alpha8 va s r = Some [A 0, A 1, E 0, E 1, A 2, A 3, E 2, E 3, A 4, A 5, E 4, E 5, A 6, A 7, E 6, E 7]"
    using assms(5) load_eqs(1)
    by (cases "va_alpha va") (simp_all add: alpha8_def pairs_eq upt_cells x_aa_def mm_set1_epi8_def replicate_numeral_Cons lo8_def mm_loadl_epi64_def)
  from block8_eq [OF _ _ _ _ this, of "U 0" "U 1" "U 2" "U 3" "V 0" "V 1" "V 2" "V 3"] assms(1-4)
  show ?thesis by (simp add: P Q upt_cells)
qed

lemma block4_run:
  assumes "aread (ss_u s) (sr_u r) 2 = Some (map U [0..<2])" "aread (ss_v s) (sr_v r) 2 = Some (map V [0..<2])"
    and "aread (ss_y s) (sr_y1 r) 4 = Some (map Y [0..<4])" "aread (ss_y s) (sr_y2 r) 4 = Some (map Z [0..<4])"
    and "if va_alpha va then aread (ss_a s) (sr_a1 r) 4 = Some (map A [0..<4]) \<and> aread (ss_a s) (sr_a2 r) 4 = Some (map E [0..<4])
      else (\<forall>k. A k = 255 \<and> E k = 255)"
    and P: "\<And>k. P k = pixS va (Y k) (U (k div 2)) (V (k div 2)) (A k)" and Q: "\<And>k. Q k = pixS va (Z k) (U (k div 2)) (V (k div 2)) (E k)"
  shows "block4 va s r = store_quad s (P 0 @ P 1 @ P 2 @ P 3) (Q 0 @ Q 1 @ Q 2 @ Q 3) (advance 4 r)"
proof -
  have "\<exists>x. length x = 8 \<and> alpha4 va s r = Some ([A 0, A 1, E 0, E 1, A 2, A 3, E 2, E 3] @ x)"
    using assms(5)
    by (cases "va_alpha va") (simp_all add: alpha4_def pairs_eq upt_cells x_aa_def mm_set1_epi8_def replicate_numeral_Cons lo8_def mm_cvt_i32_def)
  then obtain x where "alpha4 va s r = Some ([A 0, A 1, E 0, E 1, A 2, A 3, E 2, E 3] @ x)" "length x = 8" by blast
  from block4_eq [OF _ _ _ _ this, of "U 0" "U 1" "V 0" "V 1"] assms(1-4)
  show ?thesis by (simp add: P Q upt_cells)
qed

lemma block2_run:
  assumes "aget (ss_u s) (sr_u r) = Some (U 0)" "aget (ss_v s) (sr_v r) = Some (V 0)"
    and "aread (ss_y s) (sr_y1 r) 2 = Some (map Y [0..<2])" "aread (ss_y s) (sr_y2 r) 2 = Some (map Z [0..<2])"
    and "if va_alpha va then aread (ss_a s) (sr_a1 r) 2 = Some (map A [0..<2]) \<and> aread (ss_a s) (sr_a2 r) 2 = Some (map E [0..<2])
      else (\<forall>k. A k = 255 \<and> E k = 255)"
    and P: "\<And>k. P k = pixS va (Y k) (U (k div 2)) (V (k div 2)) (A k)" and Q: "\<And>k. Q k = pixS va (Z k) (U (k div 2)) (V (k div 2)) (E k)"
  shows "block2 va s r = store_pair (P 0 @ P 1) (Q 0 @ Q 1) (advance 2 r)"
proof -
  have "\<exists>x. length x = 12 \<and> alpha2 va s r = Some ([A 0, A 1, E 0, E 1] @ x)"
    using assms(5)
    by (cases "va_alpha va") (simp_all add: alpha2_def cvt_pair_def upt_cells x_aa_def mm_set1_epi8_def replicate_numeral_Cons lo8_def)
  then obtain x where "alpha2 va s r = Some ([A 0, A 1, E 0, E 1] @ x)" "length x = 12" by blast
  from block2_eq [OF assms(1,2) _ _ this, of "Y 0" "Y 1" "Z 0" "Z 1"] assms(3,4)
  show ?thesis by (simp add: P Q upt_cells)
qed

section \<open>Bytes of a frame\<close>

definition pxS :: "variant \<Rightarrow> int list \<Rightarrow> nat \<Rightarrow> int list \<Rightarrow> nat \<Rightarrow> int list \<Rightarrow> nat \<Rightarrow> (nat \<Rightarrow> nat \<Rightarrow> int) \<Rightarrow> nat \<Rightarrow> nat \<Rightarrow> int list" where
  "pxS va y ys u us v vs al r c = pixS va (y ! (r * ys + c)) (u ! (r div 2 * us + c div 2)) (v ! (r div 2 * vs + c div 2)) (al r c)"

definition byteS :: "nat \<Rightarrow> (nat \<Rightarrow> nat \<Rightarrow> int list) \<Rightarrow> nat \<Rightarrow> int" where
  "byteS S px x = px (x div S) (x mod S div 4) ! (x mod S mod 4)"

lemma length_pxS [simp]: "length (pxS va y ys u us v vs al r c) = 4"
  by (simp add: pxS_def pixS_def split: prod.split)

lemma byteS_pixel:
  assumes "length (px r c) = 4" "4 * c + 4 \<le> S"
  shows "map (byteS S px) [r * S + 4 * c..<r * S + 4 * c + 4] = px r c"
proof (rule nth_equalityI)
  fix k assume "k < length (map (byteS S px) [r * S + 4 * c..<r * S + 4 * c + 4])"
  then have k: "k < 4" by simp
  then have "(r * S + (4 * c + k)) div S = r" "(r * S + (4 * c + k)) mod S = 4 * c + k" using assms(2) by simp_all
  then show "map (byteS S px) [r * S + 4 * c..<r * S + 4 * c + 4] ! k = px r c ! k"
    using k by (simp add: byteS_def add.assoc)
qed (simp add: assms(1))

lemma byteS_run:
  assumes "\<And>r c. length (px r c) = 4" "4 * (c + n) \<le> S"
  shows "map (byteS S px) [r * S + 4 * c..<r * S + 4 * c + 4 * n] = concat (map (px r) [c..<c + n])"
  using assms(2)
proof (induction n)
  case (Suc n)
  have "[r * S + 4 * c..<r * S + 4 * c + 4 * Suc n] = [r * S + 4 * c..<r * S + 4 * c + 4 * n] @ [r * S + 4 * (c + n)..<r * S + 4 * (c + n) + 4]"
    using upt_add_eq_append [of "r * S + 4 * c" "r * S + 4 * c + 4 * n" 4] by (simp add: algebra_simps)
  then show ?case using Suc byteS_pixel [of px r "c + n" S] assms(1) by simp
qed simp

lemma plane_aread:
  assumes "plane_ok p stride rows cols" "r < rows" "c + n \<le> cols" "0 < n" "i = int (r * stride + c)"
  shows "aread p i n = Some (map (\<lambda>k. p ! (r * stride + (c + k))) [0..<n])"
proof -
  have "c + n - 1 < cols" using assms(3,4) by linarith
  then have "r * stride + (c + n - 1) < length p" using assms(1,2) unfolding plane_ok_def by blast
  then have l: "r * stride + c + n \<le> length p" using assms(4) by linarith
  have "take n (drop (r * stride + c) p) = map (\<lambda>k. p ! (r * stride + (c + k))) [0..<n]"
    by (rule nth_equalityI) (use l in \<open>auto simp: add.assoc\<close>)
  moreover have "i + int n \<le> int (length p)" using l unfolding assms(5) by linarith
  ultimately show ?thesis using assms(4) unfolding aread_def assms(5) by (simp only: nat_int) simp
qed

lemma cover420_blocks:
  "{(2 * j + 1) * S + 8 * i..<(2 * j + 1) * S + 8 * i + 8 * n} \<union> ({2 * j * S + 8 * i..<2 * j * S + 8 * i + 8 * n} \<union> cover420 S wh j i)
    = cover420 S wh j (i + n)"
proof -
  have "{a + 8 * i..<a + 8 * i + 8 * n} \<union> {a..<a + 8 * i} = {a..<a + 8 * (i + n)}" for a :: nat by auto
  from this [of "2 * j * S"] this [of "(2 * j + 1) * S"] show ?thesis unfolding cover420_def by blast
qed

section \<open>Steps along a row pair\<close>

text \<open>
  The planes and the destination hold the frame of \<open>2 * wh\<close> by \<open>2 * hh\<close> pixels, the destination is aligned to 16 bytes, and the
  sources are where \<open>load_si128\<close> is the aligned load.
\<close>

definition simd_ok :: "variant \<Rightarrow> simd_src \<Rightarrow> int list \<Rightarrow> nat \<Rightarrow> nat \<Rightarrow> nat \<Rightarrow> nat \<Rightarrow> nat \<Rightarrow> nat \<Rightarrow> nat \<Rightarrow> bool" where
  "simd_ok va s d S wh hh ys us vs as \<longleftrightarrow> frame420_ok d S wh hh (ss_y s) ys (ss_u s) us (ss_v s) vs \<and> as < 2 ^ 30
     \<and> (va_alpha va \<longrightarrow> plane_ok (ss_a s) as (2 * hh) (2 * wh)) \<and> ss_dbase s mod 16 = 0 \<and> S mod 16 = 0
     \<and> (\<not> ss_unaligned s \<longrightarrow> ss_ybase s mod 16 = 0 \<and> ys mod 16 = 0 \<and> (va_alpha va \<longrightarrow> ss_abase s mod 16 = 0 \<and> as mod 16 = 0))"

definition alphaS :: "variant \<Rightarrow> simd_src \<Rightarrow> nat \<Rightarrow> nat \<Rightarrow> nat \<Rightarrow> int" where
  "alphaS va s as r c = (if va_alpha va then ss_a s ! (r * as + c) else 255)"

definition frameS :: "variant \<Rightarrow> simd_src \<Rightarrow> nat \<Rightarrow> nat \<Rightarrow> nat \<Rightarrow> nat \<Rightarrow> nat \<Rightarrow> nat \<Rightarrow> int list" where
  "frameS va s ys us vs as = pxS va (ss_y s) ys (ss_u s) us (ss_v s) vs (alphaS va s as)"

definition row_at :: "variant \<Rightarrow> simd_src \<Rightarrow> int list \<Rightarrow> nat \<Rightarrow> nat \<Rightarrow> nat \<Rightarrow> nat \<Rightarrow> nat \<Rightarrow> nat \<Rightarrow> nat \<Rightarrow> nat \<Rightarrow> simd_row" where
  "row_at va s d S wh ys us vs as j i =
     \<lparr>sr_u = int (j * us + i), sr_v = int (j * vs + i), sr_y1 = int (2 * j * ys + 2 * i), sr_y2 = int ((2 * j + 1) * ys + 2 * i),
      sr_a1 = int (2 * j * as + 2 * i), sr_a2 = int ((2 * j + 1) * as + 2 * i), sr_d1 = int (2 * j * S + 8 * i), sr_d2 = int ((2 * j + 1) * S + 8 * i),
      sr_out = filled d (cover420 S wh j i) (byteS S (frameS va s ys us vs as))\<rparr>"

text \<open>A quad of pixels in both rows is stored.\<close>

lemma aligned_16: "(b::int) mod 16 = 0 \<Longrightarrow> n mod 16 = 0 \<Longrightarrow> (b + int n) mod 16 = 0"
  by (simp add: mod_eq_0_iff_dvd) (metis dvd_add int_dvd_int_iff of_nat_numeral)

lemma store_quad_at:
  assumes ok: "simd_ok va s d S wh hh ys us vs as" and ji: "j < hh" "i + 2 \<le> wh" "even i"
    and px: "t = frameS va s ys us vs as (2 * j) (2 * i) @ frameS va s ys us vs as (2 * j) (2 * i + 1)
        @ frameS va s ys us vs as (2 * j) (2 * i + 2) @ frameS va s ys us vs as (2 * j) (2 * i + 3)"
      "b = frameS va s ys us vs as (2 * j + 1) (2 * i) @ frameS va s ys us vs as (2 * j + 1) (2 * i + 1)
        @ frameS va s ys us vs as (2 * j + 1) (2 * i + 2) @ frameS va s ys us vs as (2 * j + 1) (2 * i + 3)"
    and r: "sr_d1 r = int (2 * j * S + 8 * i)" "sr_d2 r = int ((2 * j + 1) * S + 8 * i)"
      "sr_out r = filled d (cover420 S wh j i) (byteS S (frameS va s ys us vs as))"
  shows "store_quad s t b r = Some (r\<lparr>sr_d1 := int (2 * j * S + 8 * (i + 2)), sr_d2 := int ((2 * j + 1) * S + 8 * (i + 2)),
    sr_out := filled d (cover420 S wh j (i + 2)) (byteS S (frameS va s ys us vs as))\<rparr>)"
proof -
  let ?f = "byteS S (frameS va s ys us vs as)"
  have S: "8 * (i + 2) \<le> S" and len: "\<And>r c. r < 2 * hh \<Longrightarrow> c < 8 * wh \<Longrightarrow> r * S + c < length d" and al: "ss_dbase s mod 16 = 0" "S mod 16 = 0"
    using ok ji(2) by (auto simp: simd_ok_def frame420_ok_def)
  have fits: "r * S + 8 * i + 16 \<le> length d" if "r < 2 * hh" for r using len [OF that, of "8 * i + 15"] ji(2) by linarith
  have run: "map ?f [r * S + 8 * i..<r * S + 8 * i + 16] = concat (map (frameS va s ys us vs as r) [2 * i..<2 * i + 4])" for r
    using byteS_run [of "frameS va s ys us vs as" "2 * i" 4 S r] S by (simp add: frameS_def)
  have "[2 * i..<2 * i + 4] = [2 * i, 2 * i + 1, 2 * i + 2, 2 * i + 3]" by (simp add: upt_rec numeral_eq_Suc)
  then have tb: "t = map ?f [2 * j * S + 8 * i..<2 * j * S + 8 * i + 16]" "b = map ?f [(2 * j + 1) * S + 8 * i..<(2 * j + 1) * S + 8 * i + 16]"
    unfolding px run [of "2 * j"] run [of "2 * j + 1"] by simp_all
  have r16: "(r * S + 8 * i) mod 16 = 0" for r using al(2) ji(3) by (auto elim!: evenE simp: mod_eq_0_iff_dvd)
  note a1 = aligned_16 [OF al(1) r16, of "2 * j"] and a2 = aligned_16 [OF al(1) r16, of "2 * j + 1"]
  have w1: "awrite (filled d W ?f) (int (2 * j * S + 8 * i)) t = Some (filled d ({2 * j * S + 8 * i..<2 * j * S + 8 * i + 16} \<union> W) ?f)" for W
    using fits [of "2 * j"] ji(1) tb(1) by (intro awrite_run_filled) simp_all
  have w2: "awrite (filled d W ?f) (int ((2 * j + 1) * S + 8 * i)) b = Some (filled d ({(2 * j + 1) * S + 8 * i..<(2 * j + 1) * S + 8 * i + 16} \<union> W) ?f)" for W
    using fits [of "2 * j + 1"] ji(1) tb(2) by (intro awrite_run_filled) simp_all
  show ?thesis
    unfolding store_quad_def mm_store_si128_def r w1 w2 if_P [OF a1] if_P [OF a2] Option.bind.bind_lunit
    using cover420_blocks [of j S i 2 wh] by (simp add: r)
qed

lemma store_pair_at:
  assumes ok: "simd_ok va s d S wh hh ys us vs as" and ji: "j < hh" "i < wh"
    and px: "t = frameS va s ys us vs as (2 * j) (2 * i) @ frameS va s ys us vs as (2 * j) (2 * i + 1)"
      "b = frameS va s ys us vs as (2 * j + 1) (2 * i) @ frameS va s ys us vs as (2 * j + 1) (2 * i + 1)"
    and r: "sr_d1 r = int (2 * j * S + 8 * i)" "sr_d2 r = int ((2 * j + 1) * S + 8 * i)"
      "sr_out r = filled d (cover420 S wh j i) (byteS S (frameS va s ys us vs as))"
  shows "store_pair t b r = Some (r\<lparr>sr_d1 := int (2 * j * S + 8 * (i + 1)), sr_d2 := int ((2 * j + 1) * S + 8 * (i + 1)),
    sr_out := filled d (cover420 S wh j (i + 1)) (byteS S (frameS va s ys us vs as))\<rparr>)"
proof -
  let ?f = "byteS S (frameS va s ys us vs as)"
  have S: "8 * (i + 1) \<le> S" and len: "\<And>r c. r < 2 * hh \<Longrightarrow> c < 8 * wh \<Longrightarrow> r * S + c < length d"
    using ok ji(2) by (auto simp: simd_ok_def frame420_ok_def)
  have fits: "r * S + 8 * i + 8 \<le> length d" if "r < 2 * hh" for r using len [OF that, of "8 * i + 7"] ji(2) by linarith
  have run: "map ?f [r * S + 8 * i..<r * S + 8 * i + 8] = concat (map (frameS va s ys us vs as r) [2 * i..<2 * i + 2])" for r
    using byteS_run [of "frameS va s ys us vs as" "2 * i" 2 S r] S by (simp add: frameS_def)
  have "[2 * i..<2 * i + 2] = [2 * i, 2 * i + 1]" by (simp add: upt_rec numeral_eq_Suc)
  then have tb: "t = map ?f [2 * j * S + 8 * i..<2 * j * S + 8 * i + 8]" "b = map ?f [(2 * j + 1) * S + 8 * i..<(2 * j + 1) * S + 8 * i + 8]"
    unfolding px run [of "2 * j"] run [of "2 * j + 1"] by simp_all
  have w1: "awrite (filled d W ?f) (int (2 * j * S + 8 * i)) t = Some (filled d ({2 * j * S + 8 * i..<2 * j * S + 8 * i + 8} \<union> W) ?f)" for W
    using fits [of "2 * j"] ji(1) tb(1) by (intro awrite_run_filled) simp_all
  have w2: "awrite (filled d W ?f) (int ((2 * j + 1) * S + 8 * i)) b = Some (filled d ({(2 * j + 1) * S + 8 * i..<(2 * j + 1) * S + 8 * i + 8} \<union> W) ?f)" for W
    using fits [of "2 * j + 1"] ji(1) tb(2) by (intro awrite_run_filled) simp_all
  show ?thesis
    unfolding store_pair_def r w1 w2 Option.bind.bind_lunit using cover420_blocks [of j S i 1 wh] by (simp add: r)
qed

lemma frameS_at:
  assumes "t < 2"
  shows "frameS va s ys us vs as (2 * j + t) (2 * i + k) = pixS va (ss_y s ! ((2 * j + t) * ys + (2 * i + k))) (ss_u s ! (j * us + (i + k div 2)))
    (ss_v s ! (j * vs + (i + k div 2))) (alphaS va s as (2 * j + t) (2 * i + k))"
proof -
  have "(2 * j + t) div 2 = j" "(2 * i + k) div 2 = i + k div 2" using assms by simp_all
  then show ?thesis by (simp only: frameS_def pxS_def)
qed

lemma load_at:
  assumes "plane_ok p stride rows cols" "\<not> ss_unaligned s \<longrightarrow> base mod 16 = 0 \<and> stride mod 16 = 0" "r < rows" "c + 16 \<le> cols" "c mod 16 = 0"
    and "i = int (r * stride + c)"
  shows "load_si128 s base p i = Some (map (\<lambda>k. p ! (r * stride + (c + k))) [0..<16])"
proof -
  note rd = plane_aread [OF assms(1,3,4) _ assms(6), simplified]
  show ?thesis
  proof (cases "ss_unaligned s")
    case False
    have "(r * stride + c) mod 16 = 0" using False assms(2,5) by (auto simp: mod_eq_0_iff_dvd)
    then have "(base + i) mod 16 = 0" using aligned_16 [of base "r * stride + c"] assms(2,6) False by simp
    with rd False show ?thesis by (simp add: load_si128_def mm_load_si128_def)
  qed (simp add: load_si128_def mm_loadu_si128_def rd)
qed

text \<open>The planes at a block of \<open>n\<close> samples.\<close>

lemma simd_reads:
  assumes ok: "simd_ok va s d S wh hh ys us vs as" and ji: "j < hh" "i + n \<le> wh" "0 < n"
  shows "aread (ss_u s) (int (j * us + i)) n = Some (map (\<lambda>k. ss_u s ! (j * us + (i + k))) [0..<n])"
    "aread (ss_v s) (int (j * vs + i)) n = Some (map (\<lambda>k. ss_v s ! (j * vs + (i + k))) [0..<n])"
    "t < 2 \<Longrightarrow> aread (ss_y s) (int ((2 * j + t) * ys + 2 * i)) (2 * n) = Some (map (\<lambda>k. ss_y s ! ((2 * j + t) * ys + (2 * i + k))) [0..<2 * n])"
    "t < 2 \<Longrightarrow> va_alpha va \<Longrightarrow> aread (ss_a s) (int ((2 * j + t) * as + 2 * i)) (2 * n) = Some (map (\<lambda>k. alphaS va s as (2 * j + t) (2 * i + k)) [0..<2 * n])"
proof -
  have p: "plane_ok (ss_y s) ys (2 * hh) (2 * wh)" "plane_ok (ss_u s) us hh wh" "plane_ok (ss_v s) vs hh wh"
    and a: "va_alpha va \<Longrightarrow> plane_ok (ss_a s) as (2 * hh) (2 * wh)" using ok by (auto simp: simd_ok_def frame420_ok_def)
  show "aread (ss_u s) (int (j * us + i)) n = Some (map (\<lambda>k. ss_u s ! (j * us + (i + k))) [0..<n])"
    by (rule plane_aread [OF p(2) ji refl])
  show "aread (ss_v s) (int (j * vs + i)) n = Some (map (\<lambda>k. ss_v s ! (j * vs + (i + k))) [0..<n])"
    by (rule plane_aread [OF p(3) ji refl])
  show "aread (ss_y s) (int ((2 * j + t) * ys + 2 * i)) (2 * n) = Some (map (\<lambda>k. ss_y s ! ((2 * j + t) * ys + (2 * i + k))) [0..<2 * n])" if "t < 2"
    using ji that by (intro plane_aread [OF p(1)]) simp_all
  show "aread (ss_a s) (int ((2 * j + t) * as + 2 * i)) (2 * n) = Some (map (\<lambda>k. alphaS va s as (2 * j + t) (2 * i + k)) [0..<2 * n])" if "t < 2" "va_alpha va"
    using plane_aread [OF a [OF that(2)], of "2 * j + t" "2 * i" "2 * n"] ji that by (simp add: alphaS_def)
qed

lemma advance_at:
  "advance (int (2 * n)) (row_at va s d S wh ys us vs as j i) =
    (row_at va s d S wh ys us vs as j (i + n))\<lparr>sr_d1 := int (2 * j * S + 8 * i), sr_d2 := int ((2 * j + 1) * S + 8 * i),
      sr_out := filled d (cover420 S wh j i) (byteS S (frameS va s ys us vs as))\<rparr>"
  by (simp add: advance_def row_at_def algebra_simps)

text \<open>Quad \<open>m\<close> of a block of \<open>n\<close> samples whose other pointers have moved already.\<close>

definition mid_row :: "variant \<Rightarrow> simd_src \<Rightarrow> int list \<Rightarrow> nat \<Rightarrow> nat \<Rightarrow> nat \<Rightarrow> nat \<Rightarrow> nat \<Rightarrow> nat \<Rightarrow> nat \<Rightarrow> nat \<Rightarrow> nat \<Rightarrow> simd_row" where
  "mid_row va s d S wh ys us vs as j i n =
     (row_at va s d S wh ys us vs as j n)\<lparr>sr_d1 := int (2 * j * S + 8 * i), sr_d2 := int ((2 * j + 1) * S + 8 * i),
       sr_out := filled d (cover420 S wh j i) (byteS S (frameS va s ys us vs as))\<rparr>"

lemma mid_row_end: "mid_row va s d S wh ys us vs as j n n = row_at va s d S wh ys us vs as j n"
  by (simp add: mid_row_def row_at_def)

lemma mid_row_start: "advance (int (2 * n)) (row_at va s d S wh ys us vs as j i) = mid_row va s d S wh ys us vs as j i (i + n)"
  unfolding mid_row_def by (rule advance_at)

lemma quad_at:
  assumes ok: "simd_ok va s d S wh hh ys us vs as" and ji: "j < hh" "even i"
    and P: "P = (\<lambda>k. frameS va s ys us vs as (2 * j) (2 * i + k))" and Q: "Q = (\<lambda>k. frameS va s ys us vs as (2 * j + 1) (2 * i + k))"
    and m: "i + 2 * m + 2 \<le> wh" "c0 = 4 * m" "c1 = c0 + 1" "c2 = c0 + 2" "c3 = c0 + 3" "i1 = i + 2 * m" "i2 = i1 + 2"
  shows "store_quad s (P c0 @ P c1 @ P c2 @ P c3) (Q c0 @ Q c1 @ Q c2 @ Q c3) (mid_row va s d S wh ys us vs as j i1 n)
    = Some (mid_row va s d S wh ys us vs as j i2 n)"
  unfolding P Q mid_row_def using store_quad_at [OF ok ji(1), of "i + 2 * m"] ji(2) m(1) by (simp add: m(2-) add.assoc)

lemma block16_at:
  assumes ok: "simd_ok va s d S wh hh ys us vs as" and ji: "j < hh" "i + 8 \<le> wh" "i mod 8 = 0"
  shows "block16 va s (row_at va s d S wh ys us vs as j i) = Some (row_at va s d S wh ys us vs as j (i + 8))"
proof -
  define P where "P = (\<lambda>k. frameS va s ys us vs as (2 * j) (2 * i + k))"
  define Q where "Q = (\<lambda>k. frameS va s ys us vs as (2 * j + 1) (2 * i + k))"
  have p: "plane_ok (ss_y s) ys (2 * hh) (2 * wh)" "va_alpha va \<Longrightarrow> plane_ok (ss_a s) as (2 * hh) (2 * wh)"
    and al: "\<not> ss_unaligned s \<longrightarrow> ss_ybase s mod 16 = 0 \<and> ys mod 16 = 0" "va_alpha va \<Longrightarrow> \<not> ss_unaligned s \<longrightarrow> ss_abase s mod 16 = 0 \<and> as mod 16 = 0"
    using ok by (auto simp: simd_ok_def frame420_ok_def)
  have c: "2 * i + 16 \<le> 2 * wh" "2 * i mod 16 = 0" "even i" using ji(2,3) by (auto simp: mod_eq_0_iff_dvd)
  have y: "load_si128 s (ss_ybase s) (ss_y s) (int ((2 * j + t) * ys + 2 * i)) = Some (map (\<lambda>k. ss_y s ! ((2 * j + t) * ys + (2 * i + k))) [0..<16])" if "t < 2" for t
    using that ji(1) by (intro load_at [OF p(1) al(1) _ c(1,2) refl]) simp
  have a: "load_si128 s (ss_abase s) (ss_a s) (int ((2 * j + t) * as + 2 * i)) = Some (map (\<lambda>k. alphaS va s as (2 * j + t) (2 * i + k)) [0..<16])"
    if "t < 2" "va_alpha va" for t
    using load_at [OF p(2) al(2), of "2 * j + t" "2 * i"] that ji(1) c by (simp add: alphaS_def)
  have "block16 va s (row_at va s d S wh ys us vs as j i) =
      do { r \<leftarrow> store_quad s (P 0 @ P 1 @ P 2 @ P 3) (Q 0 @ Q 1 @ Q 2 @ Q 3) (advance 16 (row_at va s d S wh ys us vs as j i));
           r \<leftarrow> store_quad s (P 4 @ P 5 @ P 6 @ P 7) (Q 4 @ Q 5 @ Q 6 @ Q 7) r;
           r \<leftarrow> store_quad s (P 8 @ P 9 @ P 10 @ P 11) (Q 8 @ Q 9 @ Q 10 @ Q 11) r;
           store_quad s (P 12 @ P 13 @ P 14 @ P 15) (Q 12 @ Q 13 @ Q 14 @ Q 15) r }"
    by (rule block16_run [where U = "\<lambda>k. ss_u s ! (j * us + (i + k))" and V = "\<lambda>k. ss_v s ! (j * vs + (i + k))"
          and Y = "\<lambda>k. ss_y s ! ((2 * j + 0) * ys + (2 * i + k))" and Z = "\<lambda>k. ss_y s ! ((2 * j + 1) * ys + (2 * i + k))"
          and A = "\<lambda>k. alphaS va s as (2 * j + 0) (2 * i + k)" and E = "\<lambda>k. alphaS va s as (2 * j + 1) (2 * i + k)"])
      (use simd_reads [OF ok ji(1), of i 8] ji(2) y [of 0] y [of 1] a [of 0] a [of 1] frameS_at [of 0] frameS_at [of 1]
        in \<open>auto simp: row_at_def P_def Q_def alphaS_def\<close>)
  moreover have "advance 16 (row_at va s d S wh ys us vs as j i) = mid_row va s d S wh ys us vs as j i (i + 8)"
    using mid_row_start [of 8 va s d S wh ys us vs as j i] by simp
  moreover have "store_quad s (P 0 @ P 1 @ P 2 @ P 3) (Q 0 @ Q 1 @ Q 2 @ Q 3) (mid_row va s d S wh ys us vs as j i (i + 8))
      = Some (mid_row va s d S wh ys us vs as j (i + 2) (i + 8))"
    by (rule quad_at [OF ok ji(1) c(3) P_def Q_def, where m = 0]) (use ji(2) in simp_all)
  moreover have "store_quad s (P 4 @ P 5 @ P 6 @ P 7) (Q 4 @ Q 5 @ Q 6 @ Q 7) (mid_row va s d S wh ys us vs as j (i + 2) (i + 8))
      = Some (mid_row va s d S wh ys us vs as j (i + 4) (i + 8))"
    by (rule quad_at [OF ok ji(1) c(3) P_def Q_def, where m = 1]) (use ji(2) in simp_all)
  moreover have "store_quad s (P 8 @ P 9 @ P 10 @ P 11) (Q 8 @ Q 9 @ Q 10 @ Q 11) (mid_row va s d S wh ys us vs as j (i + 4) (i + 8))
      = Some (mid_row va s d S wh ys us vs as j (i + 6) (i + 8))"
    by (rule quad_at [OF ok ji(1) c(3) P_def Q_def, where m = 2]) (use ji(2) in simp_all)
  moreover have "store_quad s (P 12 @ P 13 @ P 14 @ P 15) (Q 12 @ Q 13 @ Q 14 @ Q 15) (mid_row va s d S wh ys us vs as j (i + 6) (i + 8))
      = Some (mid_row va s d S wh ys us vs as j (i + 8) (i + 8))"
    by (rule quad_at [OF ok ji(1) c(3) P_def Q_def, where m = 3]) (use ji(2) in simp_all)
  ultimately show ?thesis by (simp only: Option.bind.bind_lunit mid_row_end)
qed

lemma block8_at:
  assumes ok: "simd_ok va s d S wh hh ys us vs as" and ji: "j < hh" "i + 4 \<le> wh" "even i"
  shows "block8 va s (row_at va s d S wh ys us vs as j i) = Some (row_at va s d S wh ys us vs as j (i + 4))"
proof -
  define P where "P = (\<lambda>k. frameS va s ys us vs as (2 * j) (2 * i + k))"
  define Q where "Q = (\<lambda>k. frameS va s ys us vs as (2 * j + 1) (2 * i + k))"
  have "block8 va s (row_at va s d S wh ys us vs as j i) =
      do { r \<leftarrow> store_quad s (P 0 @ P 1 @ P 2 @ P 3) (Q 0 @ Q 1 @ Q 2 @ Q 3) (advance 8 (row_at va s d S wh ys us vs as j i));
           store_quad s (P 4 @ P 5 @ P 6 @ P 7) (Q 4 @ Q 5 @ Q 6 @ Q 7) r }"
    by (rule block8_run [where U = "\<lambda>k. ss_u s ! (j * us + (i + k))" and V = "\<lambda>k. ss_v s ! (j * vs + (i + k))"
          and Y = "\<lambda>k. ss_y s ! ((2 * j + 0) * ys + (2 * i + k))" and Z = "\<lambda>k. ss_y s ! ((2 * j + 1) * ys + (2 * i + k))"
          and A = "\<lambda>k. alphaS va s as (2 * j + 0) (2 * i + k)" and E = "\<lambda>k. alphaS va s as (2 * j + 1) (2 * i + k)"])
      (use simd_reads [OF ok ji(1), of i 4] simd_reads(3,4) [OF ok ji(1), of i 4 0] simd_reads(3,4) [OF ok ji(1), of i 4 1] ji(2)
        frameS_at [of 0] frameS_at [of 1] in \<open>auto simp: row_at_def P_def Q_def alphaS_def\<close>)
  moreover have "advance 8 (row_at va s d S wh ys us vs as j i) = mid_row va s d S wh ys us vs as j i (i + 4)"
    using mid_row_start [of 4 va s d S wh ys us vs as j i] by simp
  moreover have "store_quad s (P 0 @ P 1 @ P 2 @ P 3) (Q 0 @ Q 1 @ Q 2 @ Q 3) (mid_row va s d S wh ys us vs as j i (i + 4))
      = Some (mid_row va s d S wh ys us vs as j (i + 2) (i + 4))"
    by (rule quad_at [OF ok ji(1,3) P_def Q_def, where m = 0]) (use ji(2) in simp_all)
  moreover have "store_quad s (P 4 @ P 5 @ P 6 @ P 7) (Q 4 @ Q 5 @ Q 6 @ Q 7) (mid_row va s d S wh ys us vs as j (i + 2) (i + 4))
      = Some (mid_row va s d S wh ys us vs as j (i + 4) (i + 4))"
    by (rule quad_at [OF ok ji(1,3) P_def Q_def, where m = 1]) (use ji(2) in simp_all)
  ultimately show ?thesis by (simp only: Option.bind.bind_lunit mid_row_end)
qed

lemma block4_at:
  assumes ok: "simd_ok va s d S wh hh ys us vs as" and ji: "j < hh" "i + 2 \<le> wh" "even i"
  shows "block4 va s (row_at va s d S wh ys us vs as j i) = Some (row_at va s d S wh ys us vs as j (i + 2))"
proof -
  define P where "P = (\<lambda>k. frameS va s ys us vs as (2 * j) (2 * i + k))"
  define Q where "Q = (\<lambda>k. frameS va s ys us vs as (2 * j + 1) (2 * i + k))"
  have "block4 va s (row_at va s d S wh ys us vs as j i) =
      store_quad s (P 0 @ P 1 @ P 2 @ P 3) (Q 0 @ Q 1 @ Q 2 @ Q 3) (advance 4 (row_at va s d S wh ys us vs as j i))"
    by (rule block4_run [where U = "\<lambda>k. ss_u s ! (j * us + (i + k))" and V = "\<lambda>k. ss_v s ! (j * vs + (i + k))"
          and Y = "\<lambda>k. ss_y s ! ((2 * j + 0) * ys + (2 * i + k))" and Z = "\<lambda>k. ss_y s ! ((2 * j + 1) * ys + (2 * i + k))"
          and A = "\<lambda>k. alphaS va s as (2 * j + 0) (2 * i + k)" and E = "\<lambda>k. alphaS va s as (2 * j + 1) (2 * i + k)"])
      (use simd_reads [OF ok ji(1), of i 2] simd_reads(3,4) [OF ok ji(1), of i 2 0] simd_reads(3,4) [OF ok ji(1), of i 2 1] ji(2)
        frameS_at [of 0] frameS_at [of 1] in \<open>auto simp: row_at_def P_def Q_def alphaS_def\<close>)
  moreover have "advance 4 (row_at va s d S wh ys us vs as j i) = mid_row va s d S wh ys us vs as j i (i + 2)"
    using mid_row_start [of 2 va s d S wh ys us vs as j i] by simp
  moreover have "store_quad s (P 0 @ P 1 @ P 2 @ P 3) (Q 0 @ Q 1 @ Q 2 @ Q 3) (mid_row va s d S wh ys us vs as j i (i + 2))
      = Some (mid_row va s d S wh ys us vs as j (i + 2) (i + 2))"
    by (rule quad_at [OF ok ji(1,3) P_def Q_def, where m = 0]) (use ji(2) in simp_all)
  ultimately show ?thesis by (simp only: mid_row_end)
qed

lemma block2_at:
  assumes ok: "simd_ok va s d S wh hh ys us vs as" and ji: "j < hh" "i + 1 \<le> wh"
  shows "block2 va s (row_at va s d S wh ys us vs as j i) = Some (row_at va s d S wh ys us vs as j (i + 1))"
proof -
  define P where "P = (\<lambda>k. frameS va s ys us vs as (2 * j) (2 * i + k))"
  define Q where "Q = (\<lambda>k. frameS va s ys us vs as (2 * j + 1) (2 * i + k))"
  have p: "plane_ok (ss_u s) us hh wh" "plane_ok (ss_v s) vs hh wh" using ok by (auto simp: simd_ok_def frame420_ok_def)
  have i: "i < wh" using ji(2) by simp
  have "block2 va s (row_at va s d S wh ys us vs as j i) = store_pair (P 0 @ P 1) (Q 0 @ Q 1) (advance 2 (row_at va s d S wh ys us vs as j i))"
    by (rule block2_run [where U = "\<lambda>k. ss_u s ! (j * us + (i + k))" and V = "\<lambda>k. ss_v s ! (j * vs + (i + k))"
          and Y = "\<lambda>k. ss_y s ! ((2 * j + 0) * ys + (2 * i + k))" and Z = "\<lambda>k. ss_y s ! ((2 * j + 1) * ys + (2 * i + k))"
          and A = "\<lambda>k. alphaS va s as (2 * j + 0) (2 * i + k)" and E = "\<lambda>k. alphaS va s as (2 * j + 1) (2 * i + k)"])
      (use plane_get(1) [OF p(1) ji(1) i refl] plane_get(1) [OF p(2) ji(1) i refl]
        simd_reads(3,4) [OF ok ji(1), of i 1 0] simd_reads(3,4) [OF ok ji(1), of i 1 1] ji(2)
        frameS_at [of 0] frameS_at [of 1] in \<open>auto simp: row_at_def P_def Q_def alphaS_def numeral_2_eq_2\<close>)
  moreover have "advance 2 (row_at va s d S wh ys us vs as j i) = mid_row va s d S wh ys us vs as j i (i + 1)"
    using mid_row_start [of 1 va s d S wh ys us vs as j i] by simp
  moreover have "store_pair (P 0 @ P 1) (Q 0 @ Q 1) (mid_row va s d S wh ys us vs as j i (i + 1)) = Some (mid_row va s d S wh ys us vs as j (i + 1) (i + 1))"
    unfolding mid_row_def P_def Q_def using store_pair_at [OF ok ji(1) i] by simp
  ultimately show ?thesis by (simp only: mid_row_end)
qed

section \<open>Rows and frames\<close>

lemma span_block16:
  assumes ok: "simd_ok va s d S wh hh ys us vs as" and j: "j < hh" and w: "16 * (k + n) \<le> w" "w < 16 * (k + n) + 16" "w div 2 = wh"
  shows "span (\<lambda>_ r. block16 va s r) 16 (int (16 * k)) (int w - 15) (row_at va s d S wh ys us vs as j (8 * k))
    = Some (int (16 * (k + n)), row_at va s d S wh ys us vs as j (8 * (k + n)))"
  using w
proof (induction n arbitrary: k)
  case (Suc n)
  have "block16 va s (row_at va s d S wh ys us vs as j (8 * k)) = Some (row_at va s d S wh ys us vs as j (8 * k + 8))"
    using Suc.prems by (intro block16_at [OF ok j]) auto
  moreover have "int (16 * k) < int w - 15" using Suc.prems by simp
  ultimately show ?case using Suc.IH [of "Suc k"] Suc.prems by (simp add: span_step add.commute)
qed simp

lemma simd_columns_at:
  assumes ok: "simd_ok va s d S wh hh ys us vs as" and j: "j < hh" and w: "w div 2 = wh" "w < 2147483648"
  shows "simd_columns va s (int w) (row_at va s d S wh ys us vs as j 0) = Some (row_at va s d S wh ys us vs as j wh)"
proof -
  let ?r = "row_at va s d S wh ys us vs as j"
  define q b8 b4 m where "q = w div 16" and "b8 = w mod 16 div 8" and "b4 = w mod 8 div 4" and "m = w mod 4"
  have wq: "w = 16 * q + 8 * b8 + 4 * b4 + m" 
  proof -
    have "w mod 16 mod 8 = w mod 8" "w mod 8 mod 4 = w mod 4" by (simp_all add: mod_mod_cancel)
    then show ?thesis
      using div_mult_mod_eq [of w 16] div_mult_mod_eq [of "w mod 16" 8] div_mult_mod_eq [of "w mod 8" 4]
      unfolding q_def b8_def b4_def m_def by linarith
  qed
  have b: "b8 \<le> 1" "b4 \<le> 1" "m < 4" unfolding b8_def b4_def m_def by simp_all
  have wh: "wh = 8 * q + 4 * b8 + 2 * b4 + m div 2" using w(1) wq by simp
  have i: "i32 (int w - int n) = int w - int n" if "n \<le> 16" for n using w(2) that by (intro i32_id) (simp add: is_i32_def)
  have s16: "span (\<lambda>_ r. block16 va s r) 16 0 (int w - 15) (?r 0) = Some (int (16 * q), ?r (8 * q))"
    using span_block16 [OF ok j, of 0 q w] w(1) wq b by simp
  have s8: "(if int (16 * q) \<le> int w - 8 then do { r \<leftarrow> block8 va s (?r (8 * q)); Some (int (16 * q) + 8, r) } else Some (int (16 * q), ?r (8 * q)))
      = Some (int (2 * (8 * q + 4 * b8)), ?r (8 * q + 4 * b8))"
  proof (cases "b8 = 0")
    case False
    then have "b8 = 1" using b(1) by simp
    then show ?thesis using block8_at [OF ok j, of "8 * q"] wq wh by simp
  qed (use wq b in simp)
  have s4: "(if int (2 * (8 * q + 4 * b8)) \<le> int w - 4 then do { r \<leftarrow> block4 va s (?r (8 * q + 4 * b8)); Some (int (2 * (8 * q + 4 * b8)) + 4, r) }
        else Some (int (2 * (8 * q + 4 * b8)), ?r (8 * q + 4 * b8)))
      = Some (int (2 * (8 * q + 4 * b8 + 2 * b4)), ?r (8 * q + 4 * b8 + 2 * b4))"
  proof (cases "b4 = 0")
    case False
    then have "b4 = 1" using b(2) by simp
    then show ?thesis using block4_at [OF ok j, of "8 * q + 4 * b8"] wq wh by simp
  qed (use wq b in simp)
  have s2: "(if int (2 * (8 * q + 4 * b8 + 2 * b4)) \<le> int w - 2 then block2 va s (?r (8 * q + 4 * b8 + 2 * b4)) else Some (?r (8 * q + 4 * b8 + 2 * b4))) = Some (?r wh)"
  proof (cases "m < 2")
    case False
    then have "m div 2 = 1" using b(3) by simp
    then show ?thesis using block2_at [OF ok j, of "8 * q + 4 * b8 + 2 * b4"] wq wh False by simp
  qed (use wq wh in simp)
  have e: "int w - 16 + 1 = int w - 15" by simp
  show ?thesis
    by (simp only: simd_columns_def i [of 16, simplified] i [of 8, simplified] i [of 4, simplified] i [of 2, simplified]
        e s16 s8 s4 s2 Option.bind.bind_lunit prod.case)
qed

lemma next_rows_at:
  assumes ok: "simd_ok va s d S wh hh ys us vs as"
  shows "next_rows (int S) (int ys) (int vs) (int us) (int as)
    ((row_at va s d S wh ys us vs as j 0)\<lparr>sr_out := sr_out (row_at va s d S wh ys us vs as j wh)\<rparr>) = row_at va s d S wh ys us vs as (Suc j) 0"
proof -
  have "i32 (2 * int S) = 2 * int S" "i32 (2 * int ys) = 2 * int ys" "i32 (2 * int as) = 2 * int as"
    using ok by (auto simp: simd_ok_def frame420_ok_def i32_small)
  then show ?thesis by (simp add: next_rows_def row_at_def cover420_rows algebra_simps)
qed

lemma convert_simd_at:
  assumes ok: "simd_ok va s d S wh hh ys us vs as" and w: "w div 2 = wh" "w < 2147483648" "h div 2 = hh"
  shows "convert_simd va s d (int S) (int w) (int h) (int ys) (int vs) (int us) (int as)
    = Some (0, filled d (cover420 S wh hh 0) (byteS S (frameS va s ys us vs as)))"
proof -
  let ?r = "row_at va s d S wh ys us vs as"
  let ?body = "\<lambda>r. do { r' \<leftarrow> simd_columns va s (int w) r; Some (next_rows (int S) (int ys) (int vs) (int us) (int as) (r\<lparr>sr_out := sr_out r'\<rparr>)) }"
  have step: "?body (?r j 0) = Some (?r (Suc j) 0)" if "j < hh" for j
    using simd_columns_at [OF ok that w(1,2)] next_rows_at [OF ok, of j] by simp
  have "\<exists>r. iter_opt hh ?body (?r 0 0) = Some r \<and> r = ?r hh 0"
    by (rule iter_opt_counter_inv [where I = "\<lambda>k r. r = ?r k 0"]) (use step in auto)
  moreover have "?r 0 0 = \<lparr>sr_u = 0, sr_v = 0, sr_y1 = 0, sr_y2 = int ys, sr_a1 = 0, sr_a2 = int as, sr_d1 = 0, sr_d2 = int S, sr_out = d\<rparr>"
    by (simp add: row_at_def)
  moreover have "nat (drop_bit 1 (int h)) = hh" using w(3) by (simp add: drop_bit_eq_div)
  ultimately show ?thesis by (simp add: convert_simd_def) (simp add: row_at_def)
qed

section \<open>Values\<close>

text \<open>The three colours of a pixel over the integers, and the factor of a premultiplied pixel.\<close>

definition blueV :: "int \<Rightarrow> int \<Rightarrow> int" where
  "blueV y u = max 0 (min 255 ((9539 * y div 256 + (16535 * u div 256 - 8864)) div 32))"

definition greenV :: "int \<Rightarrow> int \<Rightarrow> int \<Rightarrow> int" where
  "greenV y u v = max 0 (min 255 ((9539 * y div 256 + (4340 - (3211 * u div 256 + 6662 * v div 256))) div 32))"

definition redV :: "int \<Rightarrow> int \<Rightarrow> int" where
  "redV y v = max 0 (min 255 ((9539 * y div 256 + (13079 * v div 256 - 7136)) div 32))"

definition timesV :: "variant \<Rightarrow> int \<Rightarrow> int \<Rightarrow> int" where
  "timesV va c a = (if va_premultiply va then c * (a + 1) div 256 else c)"

definition pixV :: "variant \<Rightarrow> int \<Rightarrow> int \<Rightarrow> int \<Rightarrow> int \<Rightarrow> int list" where
  "pixV va y u v a =
     (case va_order va of
        BGRA \<Rightarrow> [timesV va (blueV y u) a, timesV va (greenV y u v) a, timesV va (redV y v) a, a]
      | ARGB \<Rightarrow> [a, timesV va (redV y v) a, timesV va (greenV y u v) a, timesV va (blueV y u) a])"

lemma s16_w16: "- 32768 \<le> x \<Longrightarrow> x < 32768 \<Longrightarrow> s16 (w16 x) = x"
proof -
  assume x: "- 32768 \<le> x" "x < 32768"
  show ?thesis
  proof (cases "0 \<le> x")
    case True
    with x show ?thesis by (simp add: s16_def w16_def)
  next
    case False
    have "x mod 65536 = (x + 65536) mod 65536" by simp
    also have "\<dots> = x + 65536" using False x by (intro mod_pos_pos_trivial) simp_all
    finally show ?thesis using x False by (simp add: s16_def w16_def)
  qed
qed

lemma shade_value:
  assumes "- 16384 \<le> l" "l < 16384" "- 16384 \<le> c" "c < 16384"
  shows "shadeS l (w16 c) = max 0 (min 255 ((l + c) div 32))"
proof -
  have s: "s16 (w16 (l + c)) = l + c" using assms by (intro s16_w16) simp_all
  have "- 1024 \<le> (l + c) div 32" "(l + c) div 32 < 1024" using assms by linarith+
  then have "s16 (w16 ((l + c) div 32)) = (l + c) div 32" by (intro s16_w16) simp_all
  then show ?thesis by (simp add: shadeS_def add16_def srai16_def s drop_bit_eq_div sat8_def w16_def mod_simps)
    (simp flip: w16_def add: s)
qed

lemma mulhi_value: "is_u8 x \<Longrightarrow> 0 \<le> c \<Longrightarrow> c < 65536 \<Longrightarrow> mulhi16 (join8 0 x) (w16 c) = c * x div 256"
proof -
  assume x: "is_u8 x" "0 \<le> c" "c < 65536"
  have "c * x \<le> 65535 * 255" using x by (intro mult_mono) (auto simp: is_u8_def)
  then have "0 \<le> c * x div 256" "c * x div 256 < 65536" using x by (simp add: is_u8_def pos_imp_zdiv_nonneg_iff, linarith)
  then show ?thesis using mulhi_upper [OF x(2,3), of x] by (simp add: w16_def drop_bit_eq_div mult.commute)
qed

text \<open>The chroma terms never leave the range where a signed word holds the sum.\<close>

lemma chroma_values:
  assumes "is_u8 u" "is_u8 v"
  shows "bS u = w16 (16535 * u div 256 - 8864)" "gS u v = w16 (4340 - (3211 * u div 256 + 6662 * v div 256))"
    "rS v = w16 (13079 * v div 256 - 7136)"
proof -
  have "bS u = w16 (16535 * u div 256 + 56672)" using mulhi_value [OF assms(1), of "0x4097"] by (simp add: bS_def add16_def w16_def mod_simps)
  moreover have "16535 * u div 256 + 56672 = (16535 * u div 256 - 8864) + 65536" by simp
  ultimately show "bS u = w16 (16535 * u div 256 - 8864)" by (simp only: w16_def mod_add_self2)
  have "rS v = w16 (13079 * v div 256 + 58400)" using mulhi_value [OF assms(2), of "0x3317"] by (simp add: rS_def add16_def w16_def mod_simps)
  moreover have "13079 * v div 256 + 58400 = (13079 * v div 256 - 7136) + 65536" by simp
  ultimately show "rS v = w16 (13079 * v div 256 - 7136)" by (simp only: w16_def mod_add_self2)
  show "gS u v = w16 (4340 - (3211 * u div 256 + 6662 * v div 256))"
    using mulhi_value [OF assms(1), of "0xc8b"] mulhi_value [OF assms(2), of "0x1a06"]
    by (simp add: gS_def add16_def sub16_def w16_def mod_simps)
qed

lemma shadeS_values:
  assumes "is_u8 y" "is_u8 u" "is_u8 v"
  shows "shadeS (lumaS y) (bS u) = blueV y u" "shadeS (lumaS y) (gS u v) = greenV y u v" "shadeS (lumaS y) (rS v) = redV y v"
proof -
  have l: "lumaS y = 9539 * y div 256" using mulhi_value [OF assms(1), of "0x2543"] by (simp add: lumaS_def)
  have r: "0 \<le> 9539 * y div 256" "9539 * y div 256 < 9502" "0 \<le> 16535 * u div 256" "16535 * u div 256 < 16471"
    "0 \<le> 3211 * u div 256" "3211 * u div 256 < 3199" "0 \<le> 6662 * v div 256" "6662 * v div 256 < 6637"
    "0 \<le> 13079 * v div 256" "13079 * v div 256 < 13028"
    using assms unfolding is_u8_def by linarith+
  show "shadeS (lumaS y) (bS u) = blueV y u"
    unfolding l chroma_values(1) [OF assms(2,3)] blueV_def using r by (intro shade_value) linarith+
  show "shadeS (lumaS y) (gS u v) = greenV y u v"
    unfolding l chroma_values(2) [OF assms(2,3)] greenV_def using r by (intro shade_value) linarith+
  show "shadeS (lumaS y) (rS v) = redV y v"
    unfolding l chroma_values(3) [OF assms(2,3)] redV_def using r by (intro shade_value) linarith+
qed

lemma preS_value:
  assumes "is_u8 c" "is_u8 a"
  shows "preS va c a = timesV va c a"
proof -
  have "0 \<le> c * (a + 1)" using assms by (simp add: is_u8_def)
  moreover have "c * (a + 1) \<le> 255 * 256" using assms by (intro mult_mono) (simp_all add: is_u8_def)
  ultimately have "c * (a + 1) mod 65536 = c * (a + 1)" "0 \<le> c * (a + 1) div 256" "c * (a + 1) div 256 \<le> 255" by simp_all
  moreover have "w16 (a + 1) = a + 1" using assms(2) by (simp add: w16_def is_u8_def)
  ultimately show ?thesis
    using assms by (simp add: preS_def timesV_def join8_def mullo16_def add16_def srli16_def sat8_def s16_def w16_def mod_simps drop_bit_eq_div)
qed

lemma pixS_value:
  assumes "is_u8 y" "is_u8 u" "is_u8 v" "is_u8 a"
  shows "pixS va y u v a = pixV va y u v a"
proof -
  have "is_u8 (blueV y u)" "is_u8 (greenV y u v)" "is_u8 (redV y v)"
    by (auto simp: is_u8_def blueV_def greenV_def redV_def)
  then show ?thesis
    using assms by (cases "va_order va") (simp_all add: pixS_def pixV_def channels_def shadeS_values preS_value)
qed

section \<open>Frames\<close>

text \<open>A destination that holds the pixels \<open>px\<close> and is as it was elsewhere.\<close>

definition frame_of :: "int list \<Rightarrow> nat \<Rightarrow> nat \<Rightarrow> nat \<Rightarrow> (nat \<Rightarrow> nat \<Rightarrow> int list) \<Rightarrow> int list \<Rightarrow> bool" where
  "frame_of d S w h px d' \<longleftrightarrow> length d' = length d
     \<and> (\<forall>r < h. \<forall>c < w. \<forall>k < 4. d' ! (r * S + (4 * c + k)) = px r c ! k)
     \<and> (\<forall>x < length d. (\<forall>r < h. \<forall>c < 4 * w. x \<noteq> r * S + c) \<longrightarrow> d' ! x = d ! x)"

definition pxV :: "variant \<Rightarrow> int list \<Rightarrow> nat \<Rightarrow> int list \<Rightarrow> nat \<Rightarrow> int list \<Rightarrow> nat \<Rightarrow> (nat \<Rightarrow> nat \<Rightarrow> int) \<Rightarrow> nat \<Rightarrow> nat \<Rightarrow> int list" where
  "pxV va y ys u us v vs al r c = pixV va (y ! (r * ys + c)) (u ! (r div 2 * us + c div 2)) (v ! (r div 2 * vs + c div 2)) (al r c)"

lemma cover420_outside:
  assumes "\<forall>r < 2 * hh. \<forall>c < 4 * (2 * wh). x \<noteq> r * S + c"
  shows "x \<notin> cover420 S wh hh 0"
proof
  assume "x \<in> cover420 S wh hh 0"
  then obtain r where "r < 2 * hh" "r * S \<le> x" "x < r * S + 8 * wh" by (auto simp: cover420_def)
  then have "x = r * S + (x - r * S)" "x - r * S < 4 * (2 * wh)" by auto
  with assms \<open>r < 2 * hh\<close> show False by blast
qed

lemma filled_frame_of:
  assumes ok: "frame420_ok d S wh hh y ys u us v vs" and px: "\<And>r c. r < 2 * hh \<Longrightarrow> c < 2 * wh \<Longrightarrow> px r c = qx r c"
  shows "frame_of d S (2 * wh) (2 * hh) qx (filled d (cover420 S wh hh 0) (byteS S px))"
  unfolding frame_of_def
proof (intro conjI allI impI)
  fix r c k :: nat assume rck: "r < 2 * hh" "c < 2 * wh" "k < 4"
  then have o: "4 * c + k < 8 * wh" by auto
  with rck ok have lt: "r * S + (4 * c + k) < length d" "4 * c + k < S" by (auto simp: frame420_ok_def)
  have "r * S + (4 * c + k) \<in> cover420 S wh hh 0" using rck(1) o by (auto simp: cover420_def intro!: bexI [of _ r])
  moreover have "(r * S + (4 * c + k)) div S = r" "(r * S + (4 * c + k)) mod S = 4 * c + k" using lt(2) by simp_all
  ultimately show "filled d (cover420 S wh hh 0) (byteS S px) ! (r * S + (4 * c + k)) = qx r c ! k"
    using rck(3) px [OF rck(1,2)] by (simp add: filled_nth [OF lt(1)] byteS_def)
qed (use cover420_outside in \<open>simp_all add: filled_nth\<close>)

lemma frameS_pixels:
  assumes ok: "simd_ok va s d S wh hh ys us vs as" and rc: "r < 2 * hh" "c < 2 * wh"
  shows "frameS va s ys us vs as r c = pxV va (ss_y s) ys (ss_u s) us (ss_v s) vs (alphaS va s as) r c"
proof -
  have p: "plane_ok (ss_y s) ys (2 * hh) (2 * wh)" "plane_ok (ss_u s) us hh wh" "plane_ok (ss_v s) vs hh wh"
    and a: "va_alpha va \<Longrightarrow> plane_ok (ss_a s) as (2 * hh) (2 * wh)" using ok by (auto simp: simd_ok_def frame420_ok_def)
  have h: "r div 2 < hh" "c div 2 < wh" using rc by auto
  have "is_u8 (ss_y s ! (r * ys + c))" "is_u8 (ss_u s ! (r div 2 * us + c div 2))" "is_u8 (ss_v s ! (r div 2 * vs + c div 2))"
    using plane_get(2) [OF p(1) rc] plane_get(2) [OF p(2) h] plane_get(2) [OF p(3) h] by simp_all
  moreover have "is_u8 (alphaS va s as r c)" using plane_get(2) [OF a rc] by (simp add: alphaS_def) (simp add: is_u8_def)
  ultimately show ?thesis by (simp add: frameS_def pxS_def pxV_def pixS_value)
qed

lemma convert_simd_frame:
  assumes ok: "simd_ok va s d S (w div 2) (h div 2) ys us vs as" and w: "w < 2147483648"
  shows "\<exists>d'. convert_simd va s d (int S) (int w) (int h) (int ys) (int vs) (int us) (int as) = Some (0, d')
    \<and> frame_of d S (2 * (w div 2)) (2 * (h div 2)) (pxV va (ss_y s) ys (ss_u s) us (ss_v s) vs (alphaS va s as)) d'"
proof -
  have "frame420_ok d S (w div 2) (h div 2) (ss_y s) ys (ss_u s) us (ss_v s) vs" using ok by (simp add: simd_ok_def)
  from filled_frame_of [OF this frameS_pixels [OF ok]] show ?thesis using convert_simd_at [OF ok refl w refl] by simp
qed

lemma alphaS_eqs:
  "\<not> va_alpha va \<Longrightarrow> alphaS va s as = (\<lambda>_ _. 255)" "va_alpha va \<Longrightarrow> alphaS va s as = (\<lambda>r c. ss_a s ! (r * as + c))"
  by (auto simp: alphaS_def fun_eq_iff)

text \<open>A call that returns 0 and leaves the frame of pixels \<open>va\<close> with alpha \<open>al\<close>.\<close>

definition converted ::
    "int list \<Rightarrow> nat \<Rightarrow> nat \<Rightarrow> nat \<Rightarrow> int list \<Rightarrow> nat \<Rightarrow> int list \<Rightarrow> nat \<Rightarrow> int list \<Rightarrow> nat \<Rightarrow> variant \<Rightarrow> (nat \<Rightarrow> nat \<Rightarrow> int)
      \<Rightarrow> (int \<times> int list) option \<Rightarrow> bool" where
  "converted d S w h y ys u us v vs va al res \<longleftrightarrow>
     (\<exists>d'. res = Some (0, d') \<and> frame_of d S (2 * (w div 2)) (2 * (h div 2)) (pxV va y ys u us v vs al) d')"

lemma aligned_nat: "int n mod 16 = 0 \<longleftrightarrow> n mod 16 = 0"
  by (metis of_nat_0_eq_iff of_nat_mod of_nat_numeral)

lemma no_alpha_converted:
  assumes "frame420_ok d S (w div 2) (h div 2) y ys u us v vs" "w < 2147483648" "db mod 16 = 0" "S mod 16 = 0" "\<not> va_alpha va"
    and "un = unaligned [yb, ub, vb, int ys, int us, int vs]"
  shows "converted d S w h y ys u us v vs va (\<lambda>_ _. 255)
    (convert_simd va \<lparr>ss_y = y, ss_ybase = yb, ss_u = u, ss_v = v, ss_a = [], ss_abase = 0, ss_dbase = db, ss_unaligned = un\<rparr>
      d (int S) (int w) (int h) (int ys) (int vs) (int us) 0)"
proof -
  let ?s = "\<lparr>ss_y = y, ss_ybase = yb, ss_u = u, ss_v = v, ss_a = [], ss_abase = 0, ss_dbase = db, ss_unaligned = un\<rparr>"
  have "simd_ok va ?s d S (w div 2) (h div 2) ys us vs 0"
    using assms by (auto simp: simd_ok_def unaligned_def aligned_nat)
  from convert_simd_frame [OF this assms(2)] assms(5) show ?thesis by (simp add: converted_def alphaS_eqs)
qed

lemma alpha_converted:
  assumes "frame420_ok d S (w div 2) (h div 2) y ys u us v vs" "w < 2147483648" "db mod 16 = 0" "S mod 16 = 0" "va_alpha va"
    and "plane_ok a as (2 * (h div 2)) (2 * (w div 2)) \<and> as < 2 ^ 30" "un = unaligned [yb, ub, vb, ab, int ys, int us, int vs, int as]"
  shows "converted d S w h y ys u us v vs va (\<lambda>r c. a ! (r * as + c))
    (convert_simd va \<lparr>ss_y = y, ss_ybase = yb, ss_u = u, ss_v = v, ss_a = a, ss_abase = ab, ss_dbase = db, ss_unaligned = un\<rparr>
      d (int S) (int w) (int h) (int ys) (int vs) (int us) (int as))"
proof -
  let ?s = "\<lparr>ss_y = y, ss_ybase = yb, ss_u = u, ss_v = v, ss_a = a, ss_abase = ab, ss_dbase = db, ss_unaligned = un\<rparr>"
  have "simd_ok va ?s d S (w div 2) (h div 2) ys us vs as"
    using assms by (auto simp: simd_ok_def unaligned_def aligned_nat)
  from convert_simd_frame [OF this assms(2)] assms(5) show ?thesis by (simp add: converted_def alphaS_eqs)
qed

text \<open>
  C10: on x86 a planar 4:2:0 frame is converted completely by the vector code of all four converters: for planes that hold the
  frame, wherever they are in memory, and a destination that holds it and is aligned to 16 bytes, the call returns 0 without an
  access outside a plane, a misaligned one included. Every pixel of the even part of the frame holds the value of its luma sample and
  of the chroma sample of its 2 by 2 block, in the byte order of the converter, with the alpha plane (or 255) as its alpha and, in
  the converter to BGRA with an alpha plane, multiplied by alpha. Nothing else changes: padding, and the last column and row of odd
  sides, which the call leaves out although it returns success.
\<close>

theorem sse2_frame:
  fixes w h :: nat
  assumes "frame420_ok d S (w div 2) (h div 2) y ys u us v vs" "w < 2147483648" "db mod 16 = 0" "S mod 16 = 0"
  shows "converted d S w h y ys u us v vs \<lparr>va_order = BGRA, va_alpha = False, va_premultiply = False\<rparr> (\<lambda>_ _. 255)
      (BGRA32_no_alpha_sse2 d db (int S) (int w) (int h) y yb v vb u ub (int ys) (int vs) (int us))
    \<and> converted d S w h y ys u us v vs \<lparr>va_order = ARGB, va_alpha = False, va_premultiply = False\<rparr> (\<lambda>_ _. 255)
      (ARGB32_no_alpha_sse2 d db (int S) (int w) (int h) y yb v vb u ub (int ys) (int vs) (int us))
    \<and> (plane_ok a as (2 * (h div 2)) (2 * (w div 2)) \<and> as < 2 ^ 30 \<longrightarrow>
        converted d S w h y ys u us v vs \<lparr>va_order = BGRA, va_alpha = True, va_premultiply = True\<rparr> (\<lambda>r c. a ! (r * as + c))
          (BGRA32_sse2 d db (int S) (int w) (int h) y yb v vb u ub a ab (int ys) (int vs) (int us) (int as))
      \<and> converted d S w h y ys u us v vs \<lparr>va_order = ARGB, va_alpha = True, va_premultiply = False\<rparr> (\<lambda>r c. a ! (r * as + c))
          (ARGB32_sse2 d db (int S) (int w) (int h) y yb v vb u ub a ab (int ys) (int vs) (int us) (int as)))"
  unfolding BGRA32_no_alpha_sse2_def ARGB32_no_alpha_sse2_def BGRA32_sse2_def ARGB32_sse2_def
  using no_alpha_converted [OF assms _ refl] alpha_converted [OF assms _ _ refl] by simp

theorem sse2_frame_witness:
  "\<exists>d'. BGRA32_sse2 (replicate 32 7) 64 16 3 2 [16, 235, 9, 128, 0, 9] 3 [128] 5 [128] 9 [255, 127, 9, 0, 0, 9] 1 3 1 1 3 = Some (0, d')
     \<and> d' ! 4 = 127 \<and> d' ! 8 = 7"
proof -
  have p: "plane_ok [16, 235, 9, 128, 0, 9] 3 2 2" "plane_ok [128] 1 1 1" "plane_ok [255, 127, 9, 0, 0, 9] 3 2 2"
    by (rule plane_okI; simp add: is_u8_def)+
  have l: "\<forall>r < 2 * 1. \<forall>c < 8 * 1. r * 16 + c < length (replicate 32 (7::int))" by auto
  have ok: "frame420_ok (replicate 32 7) 16 (3 div 2) (2 div 2) [16, 235, 9, 128, 0, 9] 3 [128] 1 [128] 1"
    unfolding frame420_ok_def using p l by simp
  have "converted (replicate 32 7) 16 3 2 [16, 235, 9, 128, 0, 9] 3 [128] 1 [128] 1 \<lparr>va_order = BGRA, va_alpha = True, va_premultiply = True\<rparr>
      (\<lambda>r c. [255, 127, 9, 0, 0, 9] ! (r * 3 + c))
      (BGRA32_sse2 (replicate 32 7) 64 16 3 2 [16, 235, 9, 128, 0, 9] 3 [128] 5 [128] 9 [255, 127, 9, 0, 0, 9] 1 3 1 1 3)"
    using sse2_frame [OF ok, of 64 3 5 9 "[255, 127, 9, 0, 0, 9]" 3 1] p(3) by simp
  then obtain d' where "BGRA32_sse2 (replicate 32 7) 64 16 3 2 [16, 235, 9, 128, 0, 9] 3 [128] 5 [128] 9 [255, 127, 9, 0, 0, 9] 1 3 1 1 3 = Some (0, d')"
    and fr: "frame_of (replicate 32 7) 16 2 2 (pxV \<lparr>va_order = BGRA, va_alpha = True, va_premultiply = True\<rparr>
      [16, 235, 9, 128, 0, 9] 3 [128] 1 [128] 1 (\<lambda>r c. [255, 127, 9, 0, 0, 9] ! (r * 3 + c))) d'" by (auto simp: converted_def)
  moreover from fr have "\<forall>r < 2. \<forall>c < 2. \<forall>k < 4. d' ! (r * 16 + (4 * c + k)) = pxV \<lparr>va_order = BGRA, va_alpha = True, va_premultiply = True\<rparr>
      [16, 235, 9, 128, 0, 9] 3 [128] 1 [128] 1 (\<lambda>r c. [255, 127, 9, 0, 0, 9] ! (r * 3 + c)) r c ! k" by (simp add: frame_of_def)
  from this [rule_format, of 0 1 0] have "d' ! 4 = 127" by (simp add: pxV_def pixV_def timesV_def blueV_def)
  moreover from fr have "d' ! 8 = 7" unfolding frame_of_def by (auto simp: numeral_2_eq_2 less_Suc_eq)
  ultimately show ?thesis by blast
qed

section \<open>The two builds\<close>

lemma clamp_close: "(a::int) - b \<le> 1 \<Longrightarrow> b - a \<le> 1 \<Longrightarrow> \<bar>max 0 (min 255 a) - max 0 (min 255 b)\<bar> \<le> 1"
  by linarith

lemma luma_between:
  "9539 * y - 256 < 256 * (9539 * y div 256)" "256 * (9539 * y div 256) \<le> 9539 * y"
  "23288 * y - 5001 < 10000 * fYY y" "10000 * fYY y \<le> 23288 * y + 4999"
  using div_between [of 256 "9539 * y"] div_between [of 10000 "23288 * y + 4999"] by (simp_all add: fYY_def)

lemma blue_close:
  assumes "is_u8 y" "is_u8 u"
  shows "\<bar>blueV y u - blue8 y u\<bar> \<le> 1"
proof -
  define L B p q where "L = 9539 * y div 256" and "B = 16535 * u div 256" and "p = (L + (B - 8864)) div 32" and "q = (fYY y + (fBU u - 554)) div 2"
  note L = luma_between [of y, folded L_def]
  have B: "16535 * u - 256 < 256 * B" "256 * B \<le> 16535 * u" "40368 * u - 5001 < 10000 * fBU u" "10000 * fBU u \<le> 40368 * u + 4999"
    using div_between [of 256 "16535 * u"] div_between [of 10000 "40368 * u + 4999"] by (simp_all add: B_def fBU_def)
  have d: "L + (B - 8864) - 32 < 32 * p" "32 * p \<le> L + (B - 8864)" "fYY y + (fBU u - 554) - 2 < 2 * q" "2 * q \<le> fYY y + (fBU u - 554)"
    using div_between [of 32 "L + (B - 8864)"] div_between [of 2 "fYY y + (fBU u - 554)"] by (simp_all add: p_def q_def)
  have "9539 * y + 16535 * u - 2277888 < 8192 * p" "8192 * p \<le> 9539 * y + 16535 * u - 2269184" using L B d by linarith+
  moreover have "23288 * y + 40368 * u - 5570002 < 20000 * q" "20000 * q \<le> 23288 * y + 40368 * u - 5530002" using L B d by linarith+
  ultimately have "p - q \<le> 1" "q - p \<le> 1" using assms by (simp_all add: is_u8_def)
  then show ?thesis unfolding blueV_def blue8_def clamp8_def by (fold L_def, fold B_def, fold p_def q_def) (rule clamp_close)
qed

lemma red_close:
  assumes "is_u8 y" "is_u8 v"
  shows "\<bar>redV y v - red8 y v\<bar> \<le> 1"
proof -
  define L B p q where "L = 9539 * y div 256" and "B = 13079 * v div 256" and "p = (L + (B - 7136)) div 32" and "q = (fYY y + (fRV v - 446)) div 2"
  note L = luma_between [of y, folded L_def]
  have B: "13079 * v - 256 < 256 * B" "256 * B \<le> 13079 * v" "31932 * v - 5001 < 10000 * fRV v" "10000 * fRV v \<le> 31932 * v + 4999"
    using div_between [of 256 "13079 * v"] div_between [of 10000 "31932 * v + 4999"] by (simp_all add: B_def fRV_def)
  have d: "L + (B - 7136) - 32 < 32 * p" "32 * p \<le> L + (B - 7136)" "fYY y + (fRV v - 446) - 2 < 2 * q" "2 * q \<le> fYY y + (fRV v - 446)"
    using div_between [of 32 "L + (B - 7136)"] div_between [of 2 "fYY y + (fRV v - 446)"] by (simp_all add: p_def q_def)
  have "9539 * y + 13079 * v - 1835520 < 8192 * p" "8192 * p \<le> 9539 * y + 13079 * v - 1826816" using L B d by linarith+
  moreover have "23288 * y + 31932 * v - 4490002 < 20000 * q" "20000 * q \<le> 23288 * y + 31932 * v - 4450002" using L B d by linarith+
  ultimately have "p - q \<le> 1" "q - p \<le> 1" using assms by (simp_all add: is_u8_def)
  then show ?thesis unfolding redV_def red8_def clamp8_def by (fold L_def, fold B_def, fold p_def q_def) (rule clamp_close)
qed

lemma green_close:
  assumes "is_u8 y" "is_u8 u" "is_u8 v"
  shows "\<bar>greenV y u v - green8 y u v\<bar> \<le> 1"
proof -
  define L B C p q where "L = 9539 * y div 256" and "B = 3211 * u div 256" and "C = 6662 * v div 256"
    and "p = (L + (4340 - (B + C))) div 32" and "q = (fYY y + (fGU u - fGV v)) div 2"
  note L = luma_between [of y, folded L_def]
  have B: "3211 * u - 256 < 256 * B" "256 * B \<le> 3211 * u" "2707703 - 7840 * u < 10000 * fGU u" "10000 * fGU u \<le> 2717703 - 7840 * u"
    and C: "6662 * v - 256 < 256 * C" "256 * C \<le> 6662 * v" "16264 * v - 5001 < 10000 * fGV v" "10000 * fGV v \<le> 16264 * v + 4999"
    using div_between [of 256 "3211 * u"] div_between [of 10000 "2712704 - 7840 * u + 4999"]
      div_between [of 256 "6662 * v"] div_between [of 10000 "16264 * v + 4999"] by (simp_all add: B_def C_def fGU_def fGV_def)
  have d: "L + (4340 - (B + C)) - 32 < 32 * p" "32 * p \<le> L + (4340 - (B + C))" "fYY y + (fGU u - fGV v) - 2 < 2 * q" "2 * q \<le> fYY y + (fGU u - fGV v)"
    using div_between [of 32 "L + (4340 - (B + C))"] div_between [of 2 "fYY y + (fGU u - fGV v)"] by (simp_all add: p_def q_def)
  have "9539 * y - 3211 * u - 6662 * v + 1102592 < 8192 * p" "8192 * p \<le> 9539 * y - 3211 * u - 6662 * v + 1111552"
    using L B C d by linarith+
  moreover have "23288 * y - 7840 * u - 16264 * v + 2687702 < 20000 * q" "20000 * q \<le> 23288 * y - 7840 * u - 16264 * v + 2727703"
    using L B C d by linarith+
  ultimately have "p - q \<le> 1" "q - p \<le> 1" using assms by (simp_all add: is_u8_def)
  then show ?thesis unfolding greenV_def green8_def clamp8_def by (fold L_def, fold B_def C_def, fold p_def q_def) (rule clamp_close)
qed

text \<open>A pixel of the two builds, when both have the alpha plane's byte unchanged.\<close>

lemma pixel_close:
  assumes "is_u8 y" "is_u8 u" "is_u8 v" "k < 4" "va_order va = BGRA" "\<not> va_premultiply va"
  shows "\<bar>pixV va y u v a ! k - bgra_byte y u v a k\<bar> \<le> 1"
proof -
  from assms(4) consider "k = 0" | "k = 1" | "k = 2" | "k = 3" by linarith
  then show ?thesis
    using blue_close [OF assms(1,2)] red_close [OF assms(1,3)] green_close [OF assms(1-3)] assms(5,6)
    by cases (simp_all add: pixV_def timesV_def bgra_byte_def)
qed

lemma frames_close:
  assumes ok: "frame420_ok d S wh hh y ys u us v vs" and va: "va_order va = BGRA" "\<not> va_premultiply va"
    and f: "frame_of d S (2 * wh) (2 * hh) (pxV va y ys u us v vs al) d1" "frame420 d S (2 * wh) (2 * hh) y ys u us v vs al d2" and x: "x < length d"
  shows "\<bar>d1 ! x - d2 ! x\<bar> \<le> 1"
proof (cases "\<forall>r < 2 * hh. \<forall>c < 4 * (2 * wh). x \<noteq> r * S + c")
  case True
  with f x have "d1 ! x = d ! x" "d2 ! x = d ! x" by (simp_all add: frame_of_def frame420_def)
  then show ?thesis by simp
next
  case False
  then obtain r c where rc: "r < 2 * hh" "c < 4 * (2 * wh)" "x = r * S + c" by blast
  define i k where "i = c div 4" and "k = c mod 4"
  have c: "c = 4 * i + k" "k < 4" "i < 2 * wh" using rc(2) by (simp_all add: i_def k_def)
  have h: "r div 2 < hh" "i div 2 < wh" using rc(1) c(3) by auto
  have p: "plane_ok y ys (2 * hh) (2 * wh)" "plane_ok u us hh wh" "plane_ok v vs hh wh" using ok by (simp_all add: frame420_ok_def)
  have "d1 ! x = pxV va y ys u us v vs al r i ! k" using f(1) rc c unfolding frame_of_def by blast
  moreover have "d2 ! x = bgra_byte (y ! (r * ys + i)) (u ! (r div 2 * us + i div 2)) (v ! (r div 2 * vs + i div 2)) (al r i) k"
    using f(2) rc c unfolding frame420_def by blast
  ultimately show ?thesis
    using pixel_close [OF plane_get(2) [OF p(1) rc(1) c(3) refl] plane_get(2) [OF p(2) h refl] plane_get(2) [OF p(3) h refl] c(2) va]
    by (simp add: pxV_def)
qed

text \<open>
  C26: the two builds of the converter to BGRA without alpha agree to within one step of a byte: for an even frame that both accept,
  the vector code and the table code return 0 and no byte of the destination differs by more than 1.
\<close>

theorem builds_agree:
  assumes "frame420_ok d S wh hh y ys u us v vs" "wh < 1073741824" "db mod 16 = 0" "S mod 16 = 0"
  shows "\<exists>d1 d2. BGRA32_no_alpha_sse2 d db (int S) (int (2 * wh)) (int (2 * hh)) y yb v vb u ub (int ys) (int vs) (int us) = Some (0, d1)
    \<and> ColorConvert_YCbCr420p_to_BGRA32_no_alpha d (int S) (int (2 * wh)) (int (2 * hh)) y v u (int ys) (int vs) (int us) = Some (0, d2)
    \<and> length d1 = length d \<and> length d2 = length d \<and> (\<forall>x < length d. \<bar>d1 ! x - d2 ! x\<bar> \<le> 1)"
proof -
  let ?va = "\<lparr>va_order = BGRA, va_alpha = False, va_premultiply = False\<rparr>"
  have "converted d S (2 * wh) (2 * hh) y ys u us v vs ?va (\<lambda>_ _. 255)
      (BGRA32_no_alpha_sse2 d db (int S) (int (2 * wh)) (int (2 * hh)) y yb v vb u ub (int ys) (int vs) (int us))"
    unfolding BGRA32_no_alpha_sse2_def using assms by (intro no_alpha_converted) simp_all
  then obtain d1 where 1: "BGRA32_no_alpha_sse2 d db (int S) (int (2 * wh)) (int (2 * hh)) y yb v vb u ub (int ys) (int vs) (int us) = Some (0, d1)"
    "frame_of d S (2 * wh) (2 * hh) (pxV ?va y ys u us v vs (\<lambda>_ _. 255)) d1" by (auto simp: converted_def)
  obtain d2 where 2: "ColorConvert_YCbCr420p_to_BGRA32_no_alpha d (int S) (int (2 * wh)) (int (2 * hh)) y v u (int ys) (int vs) (int us) = Some (0, d2)"
    "frame420 d S (2 * wh) (2 * hh) y ys u us v vs (\<lambda>_ _. 255) d2" using convert420_no_alpha [OF assms(1)] filled_frame420 [OF assms(1)] by blast
  have "\<bar>d1 ! x - d2 ! x\<bar> \<le> 1" if "x < length d" for x using frames_close [OF assms(1) _ _ 1(2) 2(2) that] by simp
  moreover have "length d1 = length d" "length d2 = length d" using 1(2) 2(2) by (simp_all add: frame_of_def frame420_def)
  ultimately show ?thesis using 1(1) 2(1) by blast
qed

theorem builds_agree_witness:
  "\<exists>d1 d2. BGRA32_no_alpha_sse2 (replicate 32 7) 64 16 2 2 [16, 235, 128, 0] 3 [90] 5 [128] 9 2 1 1 = Some (0, d1)
     \<and> ColorConvert_YCbCr420p_to_BGRA32_no_alpha (replicate 32 7) 16 2 2 [16, 235, 128, 0] [90] [128] 2 1 1 = Some (0, d2)
     \<and> \<bar>d1 ! 5 - d2 ! 5\<bar> \<le> 1"
proof -
  have p: "plane_ok [16, 235, 128, 0] 2 2 2" "plane_ok [128] 1 1 1" "plane_ok [90] 1 1 1"
    by (rule plane_okI; simp add: is_u8_def)+
  have l: "\<forall>r < 2 * 1. \<forall>c < 8 * 1. r * 16 + c < length (replicate 32 (7::int))" by auto
  have ok: "frame420_ok (replicate 32 7) 16 1 1 [16, 235, 128, 0] 2 [128] 1 [90] 1"
    unfolding frame420_ok_def using p l by simp
  from builds_agree [OF ok, of 64 3 5 9] show ?thesis by fastforce
qed

lemma times_close:
  fixes c e a :: int
  assumes "\<bar>c - e\<bar> \<le> 1" "is_u8 a"
  shows "\<bar>c * (a + 1) div 256 - e * (a + 1) div 256\<bar> \<le> 1"
proof -
  define m where "m = a + 1"
  have m: "0 \<le> m" "m \<le> 256" using assms(2) by (simp_all add: is_u8_def m_def)
  have "c * m \<le> (e + 1) * m" "e * m \<le> (c + 1) * m" using assms(1) m(1) by (auto intro!: mult_right_mono)
  then have "c * m \<le> e * m + m" "e * m \<le> c * m + m" by (simp_all add: algebra_simps)
  then have "c * m \<le> e * m + 256" "e * m \<le> c * m + 256" using m(2) by linarith+
  then have "c * m div 256 \<le> (e * m + 256) div 256" "e * m div 256 \<le> (c * m + 256) div 256"
    by (simp_all only: zdiv_mono1)
  then show ?thesis unfolding m_def by simp
qed

lemma premultiplied_close:
  assumes "is_u8 y" "is_u8 u" "is_u8 v" "is_u8 a" "k < 3" "va_order va = BGRA" "va_premultiply va"
  shows "\<bar>pixV va y u v a ! k - bgra_byte y u v a k * (a + 1) div 256\<bar> \<le> 1"
proof -
  from assms(5) consider "k = 0" | "k = 1" | "k = 2" by linarith
  then show ?thesis
    using times_close [OF blue_close [OF assms(1,2)] assms(4)] times_close [OF red_close [OF assms(1,3)] assms(4)]
      times_close [OF green_close [OF assms(1-3)] assms(4)] assms(6,7)
    by cases (simp_all add: pixV_def timesV_def bgra_byte_def)
qed

text \<open>
  C40: the two builds of the converter to BGRA with an alpha plane do not agree: for the same frame both return 0 and store the same
  alpha, but the vector code's colours are those of the table code multiplied by alpha, to within one step. Only the vector code
  gives the premultiplied pixels that the frame's format promises; with alpha 0 the table code keeps the full colour.
\<close>

theorem alpha_builds_differ:
  assumes "frame420_ok d S wh hh y ys u us v vs" "wh < 1073741824" "db mod 16 = 0" "S mod 16 = 0"
    and "plane_ok a as (2 * hh) (2 * wh)" "as < 2 ^ 30"
  shows "\<exists>d1 d2. BGRA32_sse2 d db (int S) (int (2 * wh)) (int (2 * hh)) y yb v vb u ub a ab (int ys) (int vs) (int us) (int as) = Some (0, d1)
    \<and> ColorConvert_YCbCr420p_to_BGRA32 d (int S) (int (2 * wh)) (int (2 * hh)) y v u a (int ys) (int vs) (int us) (int as) = Some (0, d2)
    \<and> (\<forall>r < 2 * hh. \<forall>c < 2 * wh. d1 ! (r * S + (4 * c + 3)) = a ! (r * as + c) \<and> d2 ! (r * S + (4 * c + 3)) = a ! (r * as + c)
         \<and> (\<forall>k < 3. \<bar>d1 ! (r * S + (4 * c + k)) - d2 ! (r * S + (4 * c + k)) * (a ! (r * as + c) + 1) div 256\<bar> \<le> 1))"
proof -
  let ?va = "\<lparr>va_order = BGRA, va_alpha = True, va_premultiply = True\<rparr>"
  have "converted d S (2 * wh) (2 * hh) y ys u us v vs ?va (\<lambda>r c. a ! (r * as + c))
      (BGRA32_sse2 d db (int S) (int (2 * wh)) (int (2 * hh)) y yb v vb u ub a ab (int ys) (int vs) (int us) (int as))"
    unfolding BGRA32_sse2_def using assms by (intro alpha_converted) simp_all
  then obtain d1 where 1: "BGRA32_sse2 d db (int S) (int (2 * wh)) (int (2 * hh)) y yb v vb u ub a ab (int ys) (int vs) (int us) (int as) = Some (0, d1)"
    "frame_of d S (2 * wh) (2 * hh) (pxV ?va y ys u us v vs (\<lambda>r c. a ! (r * as + c))) d1" by (auto simp: converted_def)
  obtain d2 where 2: "ColorConvert_YCbCr420p_to_BGRA32 d (int S) (int (2 * wh)) (int (2 * hh)) y v u a (int ys) (int vs) (int us) (int as) = Some (0, d2)"
    "frame420 d S (2 * wh) (2 * hh) y ys u us v vs (\<lambda>r c. a ! (r * as + c)) d2"
    using convert420_alpha [OF assms(1,5,6)] filled_frame420 [OF assms(1)] by blast
  have "d1 ! (r * S + (4 * c + 3)) = a ! (r * as + c) \<and> d2 ! (r * S + (4 * c + 3)) = a ! (r * as + c)
         \<and> (\<forall>k < 3. \<bar>d1 ! (r * S + (4 * c + k)) - d2 ! (r * S + (4 * c + k)) * (a ! (r * as + c) + 1) div 256\<bar> \<le> 1)"
    if rc: "r < 2 * hh" "c < 2 * wh" for r c
  proof -
    have h: "r div 2 < hh" "c div 2 < wh" using rc by auto
    have p: "plane_ok y ys (2 * hh) (2 * wh)" "plane_ok u us hh wh" "plane_ok v vs hh wh" using assms(1) by (simp_all add: frame420_ok_def)
    have px: "d1 ! (r * S + (4 * c + k)) = pxV ?va y ys u us v vs (\<lambda>r c. a ! (r * as + c)) r c ! k"
      "d2 ! (r * S + (4 * c + k)) = bgra_byte (y ! (r * ys + c)) (u ! (r div 2 * us + c div 2)) (v ! (r div 2 * vs + c div 2)) (a ! (r * as + c)) k"
      if "k < 4" for k using 1(2) 2(2) rc that unfolding frame_of_def frame420_def by blast+
    have "\<bar>d1 ! (r * S + (4 * c + k)) - d2 ! (r * S + (4 * c + k)) * (a ! (r * as + c) + 1) div 256\<bar> \<le> 1" if "k < 3" for k
      using premultiplied_close [OF plane_get(2) [OF p(1) rc refl] plane_get(2) [OF p(2) h refl] plane_get(2) [OF p(3) h refl]
        plane_get(2) [OF assms(5) rc refl] that, of ?va] px [of k] that by (simp add: pxV_def)
    then show ?thesis using px [of 3] by (simp add: pxV_def pixV_def bgra_byte_def)
  qed
  with 1(1) 2(1) show ?thesis by blast
qed

theorem alpha_builds_differ_witness:
  "\<exists>d1 d2. BGRA32_sse2 (replicate 32 7) 64 16 2 2 [235, 235, 235, 235] 3 [128] 5 [128] 9 [0, 0, 0, 0] 1 2 1 1 2 = Some (0, d1)
     \<and> ColorConvert_YCbCr420p_to_BGRA32 (replicate 32 7) 16 2 2 [235, 235, 235, 235] [128] [128] [0, 0, 0, 0] 2 1 1 2 = Some (0, d2)
     \<and> d1 ! 3 = 0 \<and> d2 ! 3 = 0"
proof -
  have p: "plane_ok [235, 235, 235, 235] 2 2 2" "plane_ok [128] 1 1 1" "plane_ok [0, 0, 0, 0] 2 (2 * 1) (2 * 1)"
    by (rule plane_okI; simp add: is_u8_def)+
  have l: "\<forall>r < 2 * 1. \<forall>c < 8 * 1. r * 16 + c < length (replicate 32 (7::int))" by auto
  have ok: "frame420_ok (replicate 32 7) 16 1 1 [235, 235, 235, 235] 2 [128] 1 [128] 1"
    unfolding frame420_ok_def using p l by simp
  from alpha_builds_differ [OF ok _ _ _ p(3), of 64 3 5 9 1] show ?thesis by fastforce
qed

end
