(* ===== verification/FileCache.thy ===== *)
theory FileCache
  imports Prelude
begin

text \<open>
  The temporary-file cache of the media buffers, \<open>progressbuffer/posix/filecache.c\<close>. One unlinked
  file is open twice, for writing and for reading; each descriptor has its own offset in the kernel,
  and the \<open>Cache\<close> struct keeps a copy of both. The record holds the file's bytes, the two kernel
  offsets and the two copies.

  What the operating system answers is an argument: \<open>n\<close> of a write or a read is how many bytes the
  call transfers at most (a call may transfer fewer than asked), and a negative \<open>n\<close> is an error;
  \<open>alloc\<close>, \<open>mapped\<close> and \<open>wrapped\<close> say whether an allocation, a buffer map or a buffer wrap succeeds.
\<close>

section \<open>Model\<close>

datatype flow = FLOW_OK | FLOW_FLUSHING | FLOW_ERROR | FLOW_EOS

record gbuf =
  b_data :: "int list"
  b_offset :: int

record cache =
  c_file :: "int list"
  c_write_off :: int
  c_read_off :: int
  c_read_position :: int
  c_write_position :: int

definition DEFAULT_BUFFER_SIZE :: int where
  "DEFAULT_BUFFER_SIZE = 4096"

text \<open>POSIX \<open>write\<close>, \<open>read\<close> and \<open>lseek\<close> on the two descriptors; a write past the end fills the gap with zeros.\<close>

definition put_at :: "int list \<Rightarrow> nat \<Rightarrow> int list \<Rightarrow> int list" where
  "put_at f off bs = take off (f @ replicate (off - length f) 0) @ bs @ drop (off + length bs) f"

definition os_write :: "int \<Rightarrow> int list \<Rightarrow> cache \<Rightarrow> int \<times> cache" where
  "os_write n data c =
     (if n < 0 then (-1, c)
      else let bs = take (nat n) data
           in (int (length bs), c\<lparr>c_file := if bs = [] then c_file c else put_at (c_file c) (nat (c_write_off c)) bs,
                                  c_write_off := c_write_off c + int (length bs)\<rparr>))"

definition os_read :: "int \<Rightarrow> int \<Rightarrow> cache \<Rightarrow> int \<times> int list \<times> cache" where
  "os_read n sz c =
     (if n < 0 then (-1, [], c)
      else let bs = take (nat (min n sz)) (drop (nat (c_read_off c)) (c_file c))
           in (int (length bs), bs, c\<lparr>c_read_off := c_read_off c + int (length bs)\<rparr>))"

definition new_cache :: cache where
  "new_cache = \<lparr>c_file = [], c_write_off = 0, c_read_off = 0, c_read_position = 0, c_write_position = 0\<rparr>"

definition create_cache :: "bool \<Rightarrow> bool \<Rightarrow> int \<Rightarrow> int \<Rightarrow> int \<Rightarrow> cache option" where
  "create_cache alloc filename writeHandle readHandle unlinked =
     (if alloc then
        if \<not> filename then None
        else if writeHandle < 0 \<or> readHandle < 0 then None
        else if unlinked < 0 then None
        else Some new_cache
      else None)"

definition cache_write_buffer :: "bool \<Rightarrow> int \<Rightarrow> int list \<Rightarrow> cache \<Rightarrow> cache" where
  "cache_write_buffer mapped n data c =
     (if mapped then
        let (written, c) = os_write n data c
        in if written > 0 then c\<lparr>c_write_position := i64 (c_write_position c + written)\<rparr> else c
      else c)"

definition cache_read_buffer :: "bool \<Rightarrow> int \<Rightarrow> bool \<Rightarrow> cache \<Rightarrow> int \<times> gbuf option \<times> cache" where
  "cache_read_buffer alloc n wrapped c =
     (if alloc then
        let avail = i64 (c_write_position c - c_read_position c);
            sz = (if avail > 0 \<and> avail < DEFAULT_BUFFER_SIZE then avail else DEFAULT_BUFFER_SIZE);
            (read_bytes, bs, c) = os_read n sz c
        in if read_bytes > 0 then
             let buffer = (if wrapped then Some \<lparr>b_data = bs, b_offset = c_read_position c\<rparr> else None);
                 c = c\<lparr>c_read_position := i64 (c_read_position c + read_bytes)\<rparr>
             in (c_read_position c, buffer, c)
           else (0, None, c)
      else (0, None, c))"

definition cache_set_handler_position :: "int \<Rightarrow> bool" where
  "cache_set_handler_position position \<longleftrightarrow> 0 \<le> position"

definition cache_set_write_position :: "int \<Rightarrow> cache \<Rightarrow> bool \<times> cache" where
  "cache_set_write_position position c =
     (if position = c_write_position c then (True, c)
      else if cache_set_handler_position position
      then (True, c\<lparr>c_write_off := position, c_write_position := position\<rparr>)
      else (False, c))"

definition cache_set_read_position :: "int \<Rightarrow> cache \<Rightarrow> bool \<times> cache" where
  "cache_set_read_position position c =
     (if position = c_read_position c then (True, c)
      else if cache_set_handler_position position
      then (True, c\<lparr>c_read_off := position, c_read_position := position\<rparr>)
      else (False, c))"

definition cache_read_buffer_from_position ::
    "bool \<Rightarrow> int \<Rightarrow> bool \<Rightarrow> int \<Rightarrow> int \<Rightarrow> cache \<Rightarrow> flow \<times> gbuf option \<times> cache" where
  "cache_read_buffer_from_position alloc n wrapped start_position sz c =
     (let (ok, c) = cache_set_read_position start_position c
      in if ok then
           if alloc then
             let (read_bytes, bs, c) = os_read n sz c;
                 (result, buffer) =
                   (if read_bytes = sz \<and> wrapped
                    then (FLOW_OK, Some \<lparr>b_data = bs, b_offset = c_read_position c\<rparr>)
                    else (FLOW_ERROR, None))
             in (result, buffer, c\<lparr>c_read_position := i64 (c_read_position c + read_bytes)\<rparr>)
           else (FLOW_ERROR, None, c)
         else (FLOW_ERROR, None, c))"

definition cache_has_enough_data :: "cache \<Rightarrow> bool" where
  "cache_has_enough_data c \<longleftrightarrow> c_read_position c < c_write_position c"

section \<open>The contract of a byte queue\<close>

text \<open>
  What the progress buffers rely on: bytes put in come out once, in order, and nothing else comes
  out. \<open>get n\<close> is a read in which the system transfers at most \<open>n\<close> bytes.
\<close>

locale byte_queue =
  fixes qinv :: "'c \<Rightarrow> bool" and pending :: "'c \<Rightarrow> int list"
    and put :: "int list \<Rightarrow> 'c \<Rightarrow> 'c" and get :: "int \<Rightarrow> 'c \<Rightarrow> int list \<times> 'c"
    and ready :: "'c \<Rightarrow> bool" and reset :: "'c \<Rightarrow> 'c" and room :: "'c \<Rightarrow> int"
  assumes put: "qinv c \<Longrightarrow> int (length bs) \<le> room c \<Longrightarrow>
      qinv (put bs c) \<and> pending (put bs c) = pending c @ bs \<and> room (put bs c) = room c - int (length bs)"
    and get: "qinv c \<Longrightarrow> ready c \<Longrightarrow> 0 < n \<Longrightarrow> get n c = (bs, c') \<Longrightarrow>
      qinv c' \<and> bs \<noteq> [] \<and> pending c = bs @ pending c' \<and> room c' = room c"
    and ready: "qinv c \<Longrightarrow> ready c \<longleftrightarrow> pending c \<noteq> []"
    and reset: "qinv c \<Longrightarrow> qinv (reset c) \<and> pending (reset c) = []"
begin

text \<open>A run of writes and reads; a read of an empty queue does not happen.\<close>

fun run :: "(int list + int) list \<Rightarrow> 'c \<Rightarrow> int list \<Rightarrow> int list \<times> 'c" where
  "run [] c out = (out, c)"
| "run (Inl bs # ops) c out = run ops (put bs c) out"
| "run (Inr n # ops) c out =
     (if ready c \<and> 0 < n then let (bs, c') = get n c in run ops c' (out @ bs) else run ops c out)"

definition inputs :: "(int list + int) list \<Rightarrow> int list" where
  "inputs ops = concat (map (\<lambda>x. case x of Inl bs \<Rightarrow> bs | Inr _ \<Rightarrow> []) ops)"

lemma inputs_simps [simp]:
  "inputs [] = []" "inputs (Inl bs # ops) = bs @ inputs ops" "inputs (Inr n # ops) = inputs ops"
  by (simp_all add: inputs_def)

lemma run_fifo:
  assumes "qinv c" "int (length (inputs ops)) \<le> room c"
  shows "case run ops c out of (out', c') \<Rightarrow> qinv c' \<and> out' @ pending c' = out @ pending c @ inputs ops"
  using assms
proof (induction ops c out rule: run.induct)
  case (2 bs ops c out)
  with put [of c bs] show ?case by auto
next
  case (3 n ops c out)
  show ?case
  proof (cases "ready c \<and> 0 < n")
    case True
    obtain bs c' where g: "get n c = (bs, c')" by (cases "get n c")
    with True 3 get [of c n bs c'] show ?thesis by (auto simp: Let_def split: prod.splits)
  qed (use 3 in auto)
qed auto

text \<open>Reading until the queue is empty ends, and has then delivered everything.\<close>

function drain :: "int \<Rightarrow> 'c \<Rightarrow> int list \<times> 'c" where
  "drain n c =
     (if qinv c \<and> ready c \<and> 0 < n then let (bs, c') = get n c; (rest, c'') = drain n c' in (bs @ rest, c'') else ([], c))"
  by pat_completeness auto
termination
proof (relation "measure (\<lambda>(n, c). length (pending c))")
  fix n :: int and c :: 'c and x bs c'
  assume "qinv c \<and> ready c \<and> 0 < n" "x = get n c" "(bs, c') = x"
  then show "((n, c'), n, c) \<in> measure (\<lambda>(n, c). length (pending c))"
    using get [of c n bs c'] by auto
qed auto

declare drain.simps [simp del]

lemma drain_all: "qinv c \<Longrightarrow> 0 < n \<Longrightarrow> fst (drain n c) = pending c \<and> pending (snd (drain n c)) = []"
proof (induction n c rule: drain.induct)
  case (1 n c)
  show ?case
  proof (cases "ready c")
    case True
    obtain bs c' where g: "get n c = (bs, c')" by (cases "get n c")
    note q = get [OF 1(2) True 1(3) g]
    have "fst (drain n c') = pending c' \<and> pending (snd (drain n c')) = []"
      using 1 True g q by auto
    then show ?thesis
      using 1(2,3) True g q by (subst (1 2) drain.simps) (auto simp: Let_def split: prod.splits)
  next
    case False
    with 1(2) ready [of c] show ?thesis by (simp add: drain.simps)
  qed
qed

end


section \<open>The cache keeps the contract\<close>

definition cache_ok :: "cache \<Rightarrow> bool" where
  "cache_ok c \<longleftrightarrow> c_write_off c = c_write_position c \<and> c_read_off c = c_read_position c
     \<and> 0 \<le> c_read_position c \<and> c_read_position c \<le> c_write_position c
     \<and> c_write_position c \<le> int (length (c_file c)) \<and> c_write_position c \<le> 2 ^ 62"

definition pending_bytes :: "cache \<Rightarrow> int list" where
  "pending_bytes c = take (nat (c_write_position c - c_read_position c)) (drop (nat (c_read_position c)) (c_file c))"

definition cache_room :: "cache \<Rightarrow> int" where
  "cache_room c = 2 ^ 62 - c_write_position c"

definition cache_put :: "int list \<Rightarrow> cache \<Rightarrow> cache" where
  "cache_put bs = cache_write_buffer True (int (length bs)) bs"

definition cache_get :: "int \<Rightarrow> cache \<Rightarrow> int list \<times> cache" where
  "cache_get n c = (case cache_read_buffer True n True c of (_, b, c') \<Rightarrow>
     (case b of None \<Rightarrow> [] | Some b \<Rightarrow> b_data b, c'))"

definition cache_rewind :: "cache \<Rightarrow> cache" where
  "cache_rewind c = snd (cache_set_read_position 0 (snd (cache_set_write_position 0 c)))"

lemma pending_length: "cache_ok c \<Longrightarrow> int (length (pending_bytes c)) = c_write_position c - c_read_position c"
  by (auto simp: cache_ok_def pending_bytes_def)

lemma pending_alt:
  "0 \<le> c_read_position c \<Longrightarrow> c_read_position c \<le> c_write_position c \<Longrightarrow>
   pending_bytes c = drop (nat (c_read_position c)) (take (nat (c_write_position c)) (c_file c))"
  by (simp add: pending_bytes_def drop_take nat_diff_distrib)

lemma put_at_in:
  "off \<le> length f \<Longrightarrow> put_at f off bs = take off f @ bs @ drop (off + length bs) f"
  by (simp add: put_at_def)

text \<open>A write appends what the system took of the buffer.\<close>

lemma write_appends:
  assumes "cache_ok c" "int (length (take (nat n) bs)) \<le> cache_room c"
  shows "cache_ok (cache_write_buffer True n bs c)
    \<and> pending_bytes (cache_write_buffer True n bs c) = pending_bytes c @ take (nat n) bs
    \<and> c_write_position (cache_write_buffer True n bs c) = c_write_position c + int (length (take (nat n) bs))
    \<and> c_read_position (cache_write_buffer True n bs c) = c_read_position c"
proof (cases "n < 0 \<or> take (nat n) bs = []")
  case True
  then show ?thesis
    using assms(1) by (auto simp: cache_write_buffer_def os_write_def Let_def)
next
  case False
  define b where "b = take (nat n) bs"
  let ?w = "nat (c_write_position c)" and ?r = "nat (c_read_position c)"
  have ok: "c_write_off c = c_write_position c" "c_read_off c = c_read_position c" "0 \<le> c_read_position c"
    "c_read_position c \<le> c_write_position c" "c_write_position c \<le> int (length (c_file c))"
    using assms(1) by (auto simp: cache_ok_def)
  have w: "?w \<le> length (c_file c)" "?r \<le> ?w" using ok by auto
  have i: "i64 (c_write_position c + int (length b)) = c_write_position c + int (length b)"
    using ok assms(2) by (intro i64_small) (auto simp: cache_room_def b_def)
  let ?c = "c\<lparr>c_file := take ?w (c_file c) @ b @ drop (?w + length b) (c_file c),
      c_write_off := c_write_position c + int (length b), c_write_position := c_write_position c + int (length b)\<rparr>"
  have eq: "cache_write_buffer True n bs c = ?c"
    using False i w(1) by (simp add: cache_write_buffer_def os_write_def Let_def put_at_in ok flip: b_def)
  have "cache_ok ?c" using ok assms(2) w by (simp add: cache_ok_def cache_room_def flip: b_def)
  moreover have "pending_bytes ?c = pending_bytes c @ b"
  proof -
    have n: "nat (c_write_position c + int (length b)) = ?w + length b" using ok by linarith
    have "pending_bytes ?c = drop ?r (take (?w + length b) (take ?w (c_file c) @ b @ drop (?w + length b) (c_file c)))"
      using ok by (subst pending_alt) (simp_all add: n)
    also have "\<dots> = drop ?r (take ?w (c_file c)) @ b" using w by simp
    finally show ?thesis using pending_alt [of c] ok by simp
  qed
  ultimately show ?thesis unfolding eq b_def [symmetric] by simp
qed

text \<open>A read takes bytes from the front of what is pending, and never more than a buffer of them.\<close>

lemma read_takes:
  assumes "cache_ok c" "cache_has_enough_data c" "0 < n" "cache_read_buffer True n True c = (pos, b, c')"
  shows "\<exists>bs. b = Some \<lparr>b_data = bs, b_offset = c_read_position c\<rparr> \<and> bs \<noteq> [] \<and> length bs \<le> 4096
    \<and> pending_bytes c = bs @ pending_bytes c' \<and> cache_ok c' \<and> pos = c_read_position c'
    \<and> c_read_position c' = c_read_position c + int (length bs) \<and> c_write_position c' = c_write_position c
    \<and> c_file c' = c_file c"
proof -
  let ?w = "c_write_position c" and ?r = "c_read_position c"
  have ok: "c_write_off c = ?w" "c_read_off c = ?r" "0 \<le> ?r" "?r < ?w" "?w \<le> int (length (c_file c))" "?w \<le> 2 ^ 62"
    using assms(1,2) by (auto simp: cache_ok_def cache_has_enough_data_def)
  have a: "i64 (?w - ?r) = ?w - ?r" using ok by (intro i64_small) auto
  define sz where "sz = (if 0 < ?w - ?r \<and> ?w - ?r < 4096 then ?w - ?r else 4096)"
  define bs where "bs = take (nat (min n sz)) (drop (nat ?r) (c_file c))"
  have sz: "0 < sz" "sz \<le> 4096" "sz \<le> ?w - ?r" using ok by (auto simp: sz_def)
  then have m: "0 < nat (min n sz)" "nat (min n sz) \<le> nat (?w - ?r)" using assms(3) by auto
  have len: "length bs = nat (min n sz)" using m ok unfolding bs_def by auto
  have i: "i64 (?r + int (length bs)) = ?r + int (length bs)" using ok sz len by (intro i64_small) auto
  let ?c = "c\<lparr>c_read_off := ?r + int (length bs), c_read_position := ?r + int (length bs)\<rparr>"
  have rd: "os_read n sz c = (int (length bs), bs, c\<lparr>c_read_off := ?r + int (length bs)\<rparr>)"
    using assms(3) by (simp add: os_read_def Let_def ok(2) flip: bs_def)
  have "cache_read_buffer True n True c = (?r + int (length bs), Some \<lparr>b_data = bs, b_offset = ?r\<rparr>, ?c)"
    unfolding cache_read_buffer_def Let_def a DEFAULT_BUFFER_SIZE_def sz_def [symmetric] rd
    using m(1) len i by simp
  then have eq: "pos = ?r + int (length bs)" "b = Some \<lparr>b_data = bs, b_offset = ?r\<rparr>" "c' = ?c"
    using assms(4) by simp_all
  have "pending_bytes c = take (length bs) (pending_bytes c) @ drop (length bs) (pending_bytes c)" by simp
  also have "take (length bs) (pending_bytes c) = bs"
    unfolding len by (simp add: pending_bytes_def bs_def min_absorb1 m(2))
  also have "drop (length bs) (pending_bytes c) = pending_bytes ?c"
    using ok len m by (simp add: pending_bytes_def drop_take nat_add_distrib nat_diff_distrib add.commute)
  finally have p: "pending_bytes c = bs @ pending_bytes ?c" .
  have "int (length bs) \<le> ?w - ?r" using len m(2) ok by linarith
  then have "cache_ok ?c" using ok by (simp add: cache_ok_def)
  then show ?thesis using p len sz m eq by auto
qed

lemma cache_rewind_eq:
  "cache_ok c \<Longrightarrow> cache_rewind c = c\<lparr>c_write_off := 0, c_read_off := 0, c_read_position := 0, c_write_position := 0\<rparr>"
  by (auto simp: cache_rewind_def cache_set_read_position_def cache_set_write_position_def
      cache_set_handler_position_def cache_ok_def)

interpretation fc: byte_queue cache_ok pending_bytes cache_put cache_get cache_has_enough_data cache_rewind cache_room
proof (unfold_locales, goal_cases)
  case (1 c bs)
  with write_appends [of c "int (length bs)" bs] show ?case by (simp add: cache_put_def cache_room_def)
next
  case (2 c n bs c')
  obtain pos b c1 where r: "cache_read_buffer True n True c = (pos, b, c1)" by (metis prod_cases3)
  with 2 read_takes [OF 2(1-3) r] show ?case by (auto simp: cache_get_def cache_room_def)
next
  case (3 c)
  have "pending_bytes c \<noteq> [] \<longleftrightarrow> 0 < int (length (pending_bytes c))" by simp
  with 3 show ?case unfolding pending_length [OF 3] cache_has_enough_data_def by simp
next
  case (4 c)
  then show ?case by (simp add: cache_rewind_eq) (simp add: cache_ok_def pending_bytes_def)
qed


lemma cache_ok_new: "cache_ok new_cache" "pending_bytes new_cache = []" "cache_room new_cache = 2 ^ 62"
  by (simp_all add: cache_ok_def new_cache_def pending_bytes_def cache_room_def)

text \<open>
  C24: the cache is a queue. From a new cache, whatever sequence of writes and reads follows, and
  however few bytes the system gives each read, the bytes read so far followed by the bytes still
  pending are exactly the bytes written, in order; and reading on while there is data ends and
  delivers all of it.
\<close>

theorem cache_is_fifo:
  assumes "int (length (fc.inputs ops)) \<le> 2 ^ 62" "0 < n"
  shows "case fc.run ops new_cache [] of (out, c) \<Rightarrow>
    cache_ok c \<and> out @ pending_bytes c = fc.inputs ops \<and> out @ fst (fc.drain n c) = fc.inputs ops"
proof -
  obtain out c where r: "fc.run ops new_cache [] = (out, c)" by (cases "fc.run ops new_cache []")
  with fc.run_fifo [of new_cache ops "[]"] assms(1) cache_ok_new
  have "cache_ok c" "out @ pending_bytes c = fc.inputs ops" by auto
  with r fc.drain_all [of c n] assms(2) show ?thesis by simp
qed

theorem cache_is_fifo_witness:
  "case fc.run [Inl [1, 2, 3], Inr 2, Inl [4]] new_cache [] of (out, c) \<Rightarrow> out @ pending_bytes c = [1, 2, 3, 4]"
  using cache_is_fifo [of "[Inl [1, 2, 3], Inr 2, Inl [4]]" 1] by (auto split: prod.splits)

text \<open>
  A buffer from \<open>cache_read_buffer\<close> never holds stale bytes. When \<open>cache_has_enough_data\<close>
  said so, the buffer holds at least one and at most 4096 bytes, all of them written since the last
  rewind and not read yet, its offset is the read position, and the function returns the new one;
  bytes of an earlier segment that are still in the file are never returned.
\<close>

theorem cache_read_buffer_fresh:
  assumes "cache_ok c" "cache_has_enough_data c" "0 < n" "cache_read_buffer True n True c = (pos, b, c')"
  shows "\<exists>bs. b = Some \<lparr>b_data = bs, b_offset = c_read_position c\<rparr> \<and> bs \<noteq> [] \<and> length bs \<le> 4096
    \<and> pending_bytes c = bs @ pending_bytes c' \<and> cache_ok c' \<and> pos = c_read_position c + int (length bs)"
  using read_takes [OF assms] by auto

definition sample_cache :: cache where
  "sample_cache = \<lparr>c_file = [1, 2, 3, 9, 9], c_write_off = 3, c_read_off = 1, c_read_position = 1, c_write_position = 3\<rparr>"

theorem cache_read_buffer_fresh_witness:
  "\<exists>bs c'. cache_read_buffer True 100 True sample_cache = (3, Some \<lparr>b_data = bs, b_offset = 1\<rparr>, c') \<and> bs = [2, 3]"
proof -
  have ok: "cache_ok sample_cache" "cache_has_enough_data sample_cache"
    by (simp_all add: cache_ok_def cache_has_enough_data_def sample_cache_def)
  obtain pos b c' where r: "cache_read_buffer True 100 True sample_cache = (pos, b, c')" by (metis prod_cases3)
  moreover from r have "pos = 3" "map_option b_data b = Some [2, 3]"
    by (auto simp: cache_read_buffer_def sample_cache_def i64_small DEFAULT_BUFFER_SIZE_def os_read_def Let_def split: if_splits)
  ultimately show ?thesis
    using cache_read_buffer_fresh [OF ok _ r] by (auto simp: sample_cache_def)
qed

text \<open>
  a pull at a position reads exactly the bytes asked for or fails: for a range that was written,
  if the system transfers the whole range the buffer holds those bytes and the result is
  \<open>GST_FLOW_OK\<close>; with fewer bytes the result is \<open>GST_FLOW_ERROR\<close> and there is no buffer. The file
  is never changed, and the copy of the read offset stays right.
\<close>

theorem cache_read_from_position:
  assumes "cache_ok c" "0 \<le> p" "0 \<le> sz" "p + sz \<le> int (length (c_file c))" "0 \<le> n" "int (length (c_file c)) \<le> 2 ^ 62"
  shows "case cache_read_buffer_from_position True n True p sz c of (r, b, c') \<Rightarrow>
    c_file c' = c_file c \<and> c_read_off c' = c_read_position c'
    \<and> (if sz \<le> n then r = FLOW_OK \<and> b = Some \<lparr>b_data = take (nat sz) (drop (nat p) (c_file c)), b_offset = p\<rparr>
       else r = FLOW_ERROR \<and> b = None)"
proof -
  have ro: "c_read_off c = c_read_position c" using assms(1) by (simp add: cache_ok_def)
  have s: "cache_set_read_position p c = (True, c\<lparr>c_read_off := p, c_read_position := p\<rparr>)"
    using assms(2) ro by (auto simp: cache_set_read_position_def cache_set_handler_position_def)
  define bs where "bs = take (nat (min n sz)) (drop (nat p) (c_file c))"
  have l: "int (length bs) = min n sz" using assms by (auto simp: bs_def)
  have rd: "os_read n sz (c\<lparr>c_read_off := p, c_read_position := p\<rparr>)
      = (min n sz, bs, c\<lparr>c_read_off := p + min n sz, c_read_position := p\<rparr>)"
    using assms(5) l by (simp add: os_read_def Let_def flip: bs_def)
  have i: "i64 (p + min n sz) = p + min n sz" using assms by (intro i64_small) auto
  have "sz \<le> n \<Longrightarrow> bs = take (nat sz) (drop (nat p) (c_file c))" by (simp add: bs_def)
  then show ?thesis
    using i by (auto simp: cache_read_buffer_from_position_def s rd Let_def min_def)
qed

theorem cache_read_from_position_witness:
  "case cache_read_buffer_from_position True 2 True 1 2 sample_cache of (r, b, c') \<Rightarrow> r = FLOW_OK"
  using cache_read_from_position [of sample_cache 1 2 2]
  by (auto simp: cache_ok_def sample_cache_def split: prod.splits)

text \<open>
  a failed read breaks later pulls. \<open>cache_read_buffer_from_position\<close> adds the result of
  \<open>read\<close> to its copy of the offset even when it is -1; the copy is then one below the kernel's
  offset, the next pull at that position skips the seek, and succeeds with the byte after the one
  asked for.
\<close>

theorem failed_read_shifts_next_pull:
  "let (r1, b1, c1) = cache_read_buffer_from_position True (-1) True 1 1 (sample_cache\<lparr>c_read_off := 0, c_read_position := 0\<rparr>);
       (r2, b2, c2) = cache_read_buffer_from_position True 1 True 0 1 c1
   in r1 = FLOW_ERROR \<and> c_read_position c1 = 0 \<and> c_read_off c1 = 1
    \<and> r2 = FLOW_OK \<and> b2 = Some \<lparr>b_data = [2], b_offset = 0\<rparr> \<and> c_file c1 ! 0 = 1"
  by (simp add: cache_read_buffer_from_position_def cache_set_read_position_def cache_set_handler_position_def
      os_read_def sample_cache_def Let_def i64_small)

text \<open>
  a short write loses data. \<open>cache_write_buffer\<close> appends exactly the bytes that the system
  took; the rest of the buffer is dropped, and nothing is appended when the write or the map fails.
\<close>

theorem cache_write_takes_prefix:
  assumes "cache_ok c" "int (length bs) \<le> cache_room c"
  shows "pending_bytes (cache_write_buffer mapped n bs c) = pending_bytes c @ (if mapped then take (nat n) bs else [])
    \<and> cache_ok (cache_write_buffer mapped n bs c)"
proof (cases mapped)
  case True
  then show ?thesis using write_appends [OF assms(1), of n bs] assms(2) by simp
qed (simp add: cache_write_buffer_def assms(1))

theorem cache_write_takes_prefix_witness:
  "pending_bytes (cache_write_buffer True 1 [7, 8] sample_cache) = [2, 3, 7]"
  using cache_write_takes_prefix [of sample_cache "[7, 8]" True 1]
  by (simp add: cache_ok_def cache_room_def sample_cache_def pending_bytes_def)

end
