(* ===== verification/HlsProgressBuffer.thy ===== *)
theory HlsProgressBuffer
  imports FileCache
begin

text \<open>
  The HLS progress buffer, \<open>progressbuffer/hlsprogressbuffer.c\<close>: a ring of three file caches between
  the thread that delivers the segments of an HTTP live stream (sink pad: \<open>chain\<close> and the events) and
  the task of the source pad that pushes them on (\<open>loop\<close>).

  Each critical section of the code is one function on the element's state; the threads are program
  counters beside it, and \<open>sys_step\<close> runs one section of one thread. A wait on a condition variable
  ends only when the variable is signalled while the thread waits. What the element sends downstream
  or to the bus is appended to \<open>h_out\<close>; whether the source task runs is \<open>h_task\<close>. GStreamer's answers
  (does a pad have a peer, what does a push return, what does the system transfer) are arguments of the
  actions. Of the state changes only the (de)activation of the pad is an action; and a flush may end between any two sections of
  the task, where \<open>gst_pad_pause_task\<close> waits for the task, so the relation allows more interleavings than the element has there.
\<close>

section \<open>The element\<close>

definition NUM_OF_CACHED_SEGMENTS :: int where
  "NUM_OF_CACHED_SEGMENTS = 3"

definition GST_CLOCK_TIME_NONE :: int where
  "GST_CLOCK_TIME_NONE = 2 ^ 64 - 1"

datatype hls_out =
    Out_Data "int list" int
  | Out_Segment int
  | Out_EOS
  | Out_FlushStart
  | Out_FlushStop
  | Msg_Resume
  | Msg_Eos
  | Msg_Full
  | Msg_NotFull
  | Msg_Error

record hls =
  h_cache :: "cache option list"
  h_cache_size :: "int list"
  h_cache_write_ready :: "bool list"
  h_cache_write_index :: int
  h_cache_read_index :: int
  h_send_new_segment :: bool
  h_is_flushing :: bool
  h_is_eos :: bool
  h_srcresult :: flow
  h_buffer_pts :: int
  h_task :: bool
  h_out :: "hls_out list"

record segment =
  seg_start :: int
  seg_stop :: int
  seg_position :: int

definition emit :: "hls_out \<Rightarrow> hls \<Rightarrow> hls" where
  "emit out e = e\<lparr>h_out := h_out e @ [out]\<rparr>"

definition hls_progress_buffer_init :: "cache option list \<Rightarrow> hls" where
  "hls_progress_buffer_init caches =
     \<lparr>h_cache = caches, h_cache_size = [0, 0, 0], h_cache_write_ready = [True, True, True],
      h_cache_write_index = -1, h_cache_read_index = 0, h_send_new_segment = True,
      h_is_flushing = False, h_is_eos = False, h_srcresult = FLOW_OK, h_buffer_pts = GST_CLOCK_TIME_NONE,
      h_task = False, h_out = []\<rparr>"

definition the_cache :: "hls \<Rightarrow> int \<Rightarrow> cache option" where
  "the_cache e i = do { c \<leftarrow> aget (h_cache e) i; c }"

definition set_cache :: "int \<Rightarrow> cache \<Rightarrow> hls \<Rightarrow> hls" where
  "set_cache i c e = e\<lparr>h_cache := (h_cache e)[nat i := Some c]\<rparr>"

definition hls_progress_buffer_activatepush_src :: "bool \<Rightarrow> bool \<Rightarrow> hls \<Rightarrow> hls" where
  "hls_progress_buffer_activatepush_src active linked e =
     (if active then e\<lparr>h_srcresult := FLOW_OK, h_task := linked \<or> h_task e\<rparr>
      else e\<lparr>h_srcresult := FLOW_FLUSHING, h_task := False\<rparr>)"

definition hls_progress_buffer_flush_data :: "hls \<Rightarrow> hls" where
  "hls_progress_buffer_flush_data e =
     (let ok = map (\<lambda>c. c \<noteq> None) (h_cache e)
      in e\<lparr>h_srcresult := FLOW_FLUSHING, h_cache_write_index := -1, h_cache_read_index := 0,
           h_cache := map (map_option cache_rewind) (h_cache e),
           h_cache_size := map2 (\<lambda>b s. if b then 0 else s) ok (h_cache_size e),
           h_cache_write_ready := map2 (\<lambda>b r. b \<or> r) ok (h_cache_write_ready e)\<rparr>)"

text \<open>The critical section of \<open>hls_progress_buffer_chain\<close>.\<close>

definition chain_locked :: "bool \<Rightarrow> int \<Rightarrow> int list \<Rightarrow> hls \<Rightarrow> hls option" where
  "chain_locked mapped n data e =
     (if h_srcresult e \<noteq> FLOW_FLUSHING then
        do { c \<leftarrow> the_cache e (h_cache_write_index e);
             Some (set_cache (h_cache_write_index e) (cache_write_buffer mapped n data c) e) }
      else Some e)"

definition hls_progress_buffer_chain :: "bool \<Rightarrow> int \<Rightarrow> int list \<Rightarrow> hls \<Rightarrow> (flow \<times> hls) option" where
  "hls_progress_buffer_chain mapped n data e =
     (if h_is_flushing e \<or> h_is_eos e then Some (FLOW_FLUSHING, e)
      else do { e \<leftarrow> chain_locked mapped n data e; Some (FLOW_OK, e) })"

text \<open>
  The first critical section of \<open>hls_progress_buffer_loop\<close>: wait, stop, or read a buffer (with its
  time stamp) that is to be pushed. The flag says whether a segment was finished and \<open>del_cond\<close> signalled.
\<close>

datatype loop_res = LR_Wait | LR_Stop hls | LR_Push "int list option" int bool hls

definition loop_locked :: "bool \<Rightarrow> int \<Rightarrow> bool \<Rightarrow> hls \<Rightarrow> loop_res option" where
  "loop_locked alloc n wrapped e =
     (if h_srcresult e \<noteq> FLOW_OK then Some (LR_Stop e)
      else
        do { let ri = h_cache_read_index e;
             c \<leftarrow> the_cache e ri;
             if \<not> cache_has_enough_data c then
               if h_is_eos e then Some (LR_Stop ((emit Out_EOS e)\<lparr>h_srcresult := FLOW_FLUSHING\<rparr>))
               else Some LR_Wait
             else
               do { let (read_position, buffer, c) = cache_read_buffer alloc n wrapped c;
                    let e = set_cache ri c e;
                    sz \<leftarrow> aget (h_cache_size e) ri;
                    let finished = (read_position = sz);
                    ready \<leftarrow> (if finished then aset (h_cache_write_ready e) ri True else Some (h_cache_write_ready e));
                    let e = (if finished
                             then emit Msg_NotFull (e\<lparr>h_cache_write_ready := ready,
                                    h_cache_read_index := (ri + 1) mod NUM_OF_CACHED_SEGMENTS\<rparr>)
                             else e);
                    if h_buffer_pts e \<noteq> GST_CLOCK_TIME_NONE \<and> buffer = None then None
                    else Some (LR_Push (map_option b_data buffer) (h_buffer_pts e) finished
                                 (e\<lparr>h_buffer_pts := GST_CLOCK_TIME_NONE\<rparr>)) } })"

text \<open>The push (of a buffer or of the null pointer) and the second critical section, with what the push returns.\<close>

definition loop_pushed :: "int list option \<Rightarrow> int \<Rightarrow> flow \<Rightarrow> hls \<Rightarrow> hls" where
  "loop_pushed bs pts result e =
     (let e = (case bs of None \<Rightarrow> e | Some bs \<Rightarrow> emit (Out_Data bs pts) e);
          result' = (if h_srcresult e = FLOW_OK \<or> result \<noteq> FLOW_OK then result else h_srcresult e);
          e = (if h_srcresult e = FLOW_OK \<or> result \<noteq> FLOW_OK then e\<lparr>h_srcresult := result\<rparr> else e)
      in if result' \<noteq> FLOW_OK \<and> \<not> h_is_flushing e then e\<lparr>h_task := False\<rparr> else e)"

definition loop_stopped :: "hls \<Rightarrow> hls" where
  "loop_stopped e = (if \<not> h_is_flushing e then e\<lparr>h_task := False\<rparr> else e)"

text \<open>The parts of the handler of \<open>GST_EVENT_SEGMENT\<close>.\<close>

definition seg_check :: "hls \<Rightarrow> bool" where
  "seg_check e \<longleftrightarrow> h_srcresult e = FLOW_OK"

definition seg_prepare :: "bool \<Rightarrow> segment \<Rightarrow> hls \<Rightarrow> bool \<times> hls" where
  "seg_prepare linked seg e =
     (let e = (if h_is_eos e then e\<lparr>h_is_eos := False, h_srcresult := FLOW_OK, h_task := linked \<or> h_task e\<rparr> else e)
      in if (seg_stop seg - seg_start seg) mod 2 ^ 64 \<le> 0 then (False, emit Msg_Error e)
         else if h_send_new_segment e then
           (True, emit (Out_Segment (seg_position seg))
                    (e\<lparr>h_buffer_pts := seg_position seg, h_send_new_segment := False\<rparr>))
         else (True, e))"

definition seg_advance :: "hls \<Rightarrow> hls" where
  "seg_advance e = e\<lparr>h_cache_write_index := (h_cache_write_index e + 1) mod NUM_OF_CACHED_SEGMENTS\<rparr>"

definition seg_must_wait :: "hls \<Rightarrow> bool option" where
  "seg_must_wait e =
     (if h_srcresult e = FLOW_OK
      then do { r \<leftarrow> aget (h_cache_write_ready e) (h_cache_write_index e); Some (\<not> r) } else Some False)"

definition seg_commit :: "segment \<Rightarrow> hls \<Rightarrow> hls option" where
  "seg_commit seg e =
     do { let wi = h_cache_write_index e;
          sizes \<leftarrow> aset (h_cache_size e) wi (seg_stop seg mod 2 ^ 32);
          ready \<leftarrow> aset (h_cache_write_ready e) wi False;
          c \<leftarrow> the_cache e wi;
          Some (emit Msg_Resume (set_cache wi (cache_rewind c)
                  (e\<lparr>h_cache_size := sizes, h_cache_write_ready := ready\<rparr>))) }"

text \<open>The other events.\<close>

definition flush_stop :: "bool \<Rightarrow> hls \<Rightarrow> hls" where
  "flush_stop linked e =
     (let e = (emit Out_FlushStop e)\<lparr>h_send_new_segment := True, h_is_flushing := False, h_srcresult := FLOW_OK\<rparr>
      in if \<not> h_is_eos e \<and> linked then e\<lparr>h_task := True\<rparr> else e)"

definition eos_event :: "hls \<Rightarrow> hls" where
  "eos_event e = (emit Msg_Eos e)\<lparr>h_is_eos := True\<rparr>"

section \<open>The threads\<close>

datatype sink_pc =
    S_Idle
  | S_Chain "int list"
  | S_Checked segment
  | S_Prepared segment
  | S_Full segment
  | S_Wait segment
  | S_Woken segment

datatype loop_pc = L_Top | L_Wait | L_Woken | L_Push "int list option" int

record sys =
  s_hls :: hls
  s_sink :: sink_pc
  s_loop :: loop_pc
  s_flush :: bool

definition signal_add :: "sys \<Rightarrow> sys" where
  "signal_add s = (case s_loop s of L_Wait \<Rightarrow> s\<lparr>s_loop := L_Woken\<rparr> | _ \<Rightarrow> s)"

definition signal_del :: "sys \<Rightarrow> sys" where
  "signal_del s = (case s_sink s of S_Wait seg \<Rightarrow> s\<lparr>s_sink := S_Woken seg\<rparr> | _ \<Rightarrow> s)"

datatype act =
    A_Chain "int list"
  | A_Write bool int
  | A_Segment segment
  | A_Prepare bool
  | A_Acquire
  | A_Message
  | A_Recheck
  | A_Eos
  | A_FlushStart
  | A_FlushData bool
  | A_FlushStop bool
  | A_Read bool int bool
  | A_Push flow
  | A_Activate bool bool

datatype outcome = Disabled | Crash | Next sys

definition next_of :: "sys option \<Rightarrow> outcome" where
  "next_of r = (case r of None \<Rightarrow> Crash | Some s \<Rightarrow> Next s)"

text \<open>The test of the waiting loop: go on and prepare the cache, or post the message and wait.\<close>

definition seg_test :: "segment \<Rightarrow> sys \<Rightarrow> outcome" where
  "seg_test seg s = next_of (do {
     w \<leftarrow> seg_must_wait (s_hls s);
     if w then Some (s\<lparr>s_sink := S_Full seg\<rparr>)
     else do { e \<leftarrow> seg_commit seg (s_hls s); Some (s\<lparr>s_hls := e, s_sink := S_Idle\<rparr>) } })"

fun sys_step :: "act \<Rightarrow> sys \<Rightarrow> outcome" where
  "sys_step (A_Chain data) s =
     (if s_sink s = S_Idle then
        if h_is_flushing (s_hls s) \<or> h_is_eos (s_hls s) then Next s else Next (s\<lparr>s_sink := S_Chain data\<rparr>)
      else Disabled)"
| "sys_step (A_Write mapped n) s =
     (case s_sink s of S_Chain data \<Rightarrow>
        next_of (do { e \<leftarrow> chain_locked mapped n data (s_hls s);
                      let s' = s\<lparr>s_hls := e, s_sink := S_Idle\<rparr>;
                      Some (if h_srcresult (s_hls s) \<noteq> FLOW_FLUSHING then signal_add s' else s') })
      | _ \<Rightarrow> Disabled)"
| "sys_step (A_Segment seg) s =
     (if s_sink s = S_Idle then if seg_check (s_hls s) then Next (s\<lparr>s_sink := S_Checked seg\<rparr>) else Next s
      else Disabled)"
| "sys_step (A_Prepare linked) s =
     (case s_sink s of S_Checked seg \<Rightarrow>
        (case seg_prepare linked seg (s_hls s) of (go, e) \<Rightarrow>
          Next (s\<lparr>s_hls := e, s_sink := if go then S_Prepared seg else S_Idle\<rparr>))
      | _ \<Rightarrow> Disabled)"
| "sys_step A_Acquire s =
     (case s_sink s of S_Prepared seg \<Rightarrow> seg_test seg (s\<lparr>s_hls := seg_advance (s_hls s)\<rparr>) | _ \<Rightarrow> Disabled)"
| "sys_step A_Message s =
     (case s_sink s of S_Full seg \<Rightarrow> Next (s\<lparr>s_hls := emit Msg_Full (s_hls s), s_sink := S_Wait seg\<rparr>) | _ \<Rightarrow> Disabled)"
| "sys_step A_Recheck s =
     (case s_sink s of S_Woken seg \<Rightarrow>
        if h_srcresult (s_hls s) \<noteq> FLOW_OK then Next (s\<lparr>s_sink := S_Idle\<rparr>) else seg_test seg s
      | _ \<Rightarrow> Disabled)"
| "sys_step A_Eos s =
     (if s_sink s = S_Idle then Next (signal_add (s\<lparr>s_hls := eos_event (s_hls s)\<rparr>)) else Disabled)"
| "sys_step A_FlushStart s =
     (if \<not> s_flush s then Next (s\<lparr>s_hls := (s_hls s)\<lparr>h_is_flushing := True\<rparr>, s_flush := True\<rparr>) else Disabled)"
| "sys_step (A_FlushData linked) s =
     (if s_flush s then
        let e = hls_progress_buffer_flush_data (emit Out_FlushStart (s_hls s));
            e = (if linked then e\<lparr>h_task := False\<rparr> else e)
        in Next (signal_del (signal_add (s\<lparr>s_hls := e, s_flush := False\<rparr>)))
      else Disabled)"
| "sys_step (A_FlushStop linked) s =
     (if s_sink s = S_Idle then Next (s\<lparr>s_hls := flush_stop linked (s_hls s)\<rparr>) else Disabled)"
| "sys_step (A_Read alloc n wrapped) s =
     (if s_loop s = L_Top \<and> h_task (s_hls s) \<or> s_loop s = L_Woken then
        (case loop_locked alloc n wrapped (s_hls s) of
           None \<Rightarrow> Crash
         | Some LR_Wait \<Rightarrow> Next (s\<lparr>s_loop := L_Wait\<rparr>)
         | Some (LR_Stop e) \<Rightarrow> Next (s\<lparr>s_hls := loop_stopped e, s_loop := L_Top\<rparr>)
         | Some (LR_Push bs pts finished e) \<Rightarrow>
             let s' = s\<lparr>s_hls := e, s_loop := L_Push bs pts\<rparr> in Next (if finished then signal_del s' else s'))
      else Disabled)"
| "sys_step (A_Push result) s =
     (case s_loop s of L_Push bs pts \<Rightarrow> Next (s\<lparr>s_hls := loop_pushed bs pts result (s_hls s), s_loop := L_Top\<rparr>)
      | _ \<Rightarrow> Disabled)"
| "sys_step (A_Activate active linked) s =
     (let s' = s\<lparr>s_hls := hls_progress_buffer_activatepush_src active linked (s_hls s)\<rparr>
      in Next (if active then s' else signal_del (signal_add s')))"

definition hls_start :: sys where
  "hls_start = \<lparr>s_hls = hls_progress_buffer_init [Some new_cache, Some new_cache, Some new_cache],
                s_sink = S_Idle, s_loop = L_Top, s_flush = False\<rparr>"

text \<open>All interleavings of all events.\<close>

inductive hls_reachable :: "sys \<Rightarrow> bool" where
  start: "hls_reachable hls_start"
| step: "hls_reachable s \<Longrightarrow> sys_step a s = Next s' \<Longrightarrow> hls_reachable s'"

fun sys_run :: "act list \<Rightarrow> sys \<Rightarrow> sys option" where
  "sys_run [] s = Some s"
| "sys_run (a # as) s = (case sys_step a s of Next s' \<Rightarrow> sys_run as s' | _ \<Rightarrow> None)"

lemma sys_run_reachable: "sys_run as s = Some s' \<Longrightarrow> hls_reachable s \<Longrightarrow> hls_reachable s'"
  by (induction as arbitrary: s) (auto split: outcome.splits intro: hls_reachable.step)


section \<open>Concurrency defects\<close>

definition seg1 :: segment where
  "seg1 = \<lparr>seg_start = 0, seg_stop = 1, seg_position = 0\<rparr>"

text \<open>One segment of one byte, start to end.\<close>

definition put_seg :: "int \<Rightarrow> act list" where
  "put_seg b = [A_Segment seg1, A_Prepare True, A_Acquire, A_Chain [b], A_Write True 1]"

definition take_seg :: "act list" where
  "take_seg = [A_Read True 1 True, A_Push FLOW_OK]"

definition full_ring :: "act list" where
  "full_ring = A_Activate True True # put_seg 1 @ put_seg 2 @ put_seg 3 @ [A_Segment seg1, A_Prepare True, A_Acquire]"

text \<open>
  C36: the wait for a free segment can miss its wake-up. The thread that waits for a free cache gives
  up the lock to post its message and then waits without looking again; when the source task drains
  all three segments in between, every signal comes before the wait. The state that is reached has
  all three caches free, the writer waiting for a free cache and the reader for data, and nothing but
  a flush or a deactivation is possible any more.
\<close>

theorem hls_lost_wakeup:
  "\<exists>s. hls_reachable s \<and> s_sink s = S_Wait seg1 \<and> s_loop s = L_Wait
     \<and> h_cache_write_ready (s_hls s) = [True, True, True] \<and> h_srcresult (s_hls s) = FLOW_OK
     \<and> (\<forall>a. sys_step a s = Disabled \<or> a = A_FlushStart \<or> (\<exists>x y. a = A_Activate x y))"
proof -
  let ?p = "\<lambda>s. s_sink s = S_Wait seg1 \<and> s_loop s = L_Wait \<and> h_cache_write_ready (s_hls s) = [True, True, True]
      \<and> h_srcresult (s_hls s) = FLOW_OK \<and> \<not> s_flush s"
  have "case sys_run (full_ring @ take_seg @ take_seg @ take_seg @ [A_Message, A_Read True 1 True]) hls_start of
      None \<Rightarrow> False | Some s \<Rightarrow> ?p s" by code_simp
  then obtain s where "sys_run (full_ring @ take_seg @ take_seg @ take_seg @ [A_Message, A_Read True 1 True]) hls_start = Some s"
    and p: "?p s" by (auto split: option.splits)
  then have "hls_reachable s" using sys_run_reachable hls_reachable.start by blast
  moreover have "sys_step a s = Disabled \<or> a = A_FlushStart \<or> (\<exists>x y. a = A_Activate x y)" for a
    using p by (cases a) auto
  ultimately show ?thesis using p by blast
qed


text \<open>
  the same gap swallows a flush. When \<open>FLUSH_START\<close> is handled while the message is being
  posted, its signal is lost and the writer waits although the element is flushing; the source task
  is paused, and \<open>FLUSH_STOP\<close>, which is handled on the thread that waits, cannot come any more.
\<close>

theorem hls_flush_lost_wakeup:
  "\<exists>s. hls_reachable s \<and> s_sink s = S_Wait seg1 \<and> h_is_flushing (s_hls s)
     \<and> h_srcresult (s_hls s) = FLOW_FLUSHING \<and> h_task (s_hls s) = False
     \<and> (\<forall>a. sys_step a s = Disabled \<or> a = A_FlushStart \<or> (\<exists>x y. a = A_Activate x y))"
proof -
  let ?as = "full_ring @ [A_FlushStart, A_FlushData True, A_Message]"
  let ?p = "\<lambda>s. s_sink s = S_Wait seg1 \<and> h_is_flushing (s_hls s) \<and> h_srcresult (s_hls s) = FLOW_FLUSHING
     \<and> h_task (s_hls s) = False \<and> s_loop s = L_Top \<and> \<not> s_flush s"
  have "case sys_run ?as hls_start of None \<Rightarrow> False | Some s \<Rightarrow> ?p s" by code_simp
  then obtain s where "sys_run ?as hls_start = Some s" and p: "?p s" by (auto split: option.splits)
  then have "hls_reachable s" using sys_run_reachable hls_reachable.start by blast
  moreover have "sys_step a s = Disabled \<or> a = A_FlushStart \<or> (\<exists>x y. a = A_Activate x y)" for a
    using p by (cases a) auto
  ultimately show ?thesis using p by blast
qed

text \<open>
  A flush in the middle of a segment event puts writer and reader out of step. The event checks
  the state, a flush resets both indices, and the event goes on to reserve cache 0 for a segment of
  which no data will come. After the flush the next segment goes to cache 1; it is complete there
  while the reader waits for data in cache 0.
\<close>

theorem hls_flush_desync:
  "\<exists>s. hls_reachable s \<and> s_loop s = L_Wait \<and> s_sink s = S_Idle \<and> h_srcresult (s_hls s) = FLOW_OK
     \<and> h_cache_read_index (s_hls s) = 0 \<and> map_option pending_bytes (the_cache (s_hls s) 0) = Some []
     \<and> map_option pending_bytes (the_cache (s_hls s) 1) = Some [7] \<and> h_cache_size (s_hls s) ! 1 = 1"
proof -
  let ?as = "A_Activate True True # [A_Segment seg1, A_Prepare True, A_FlushStart, A_FlushData True, A_Acquire, A_FlushStop True]
      @ put_seg 7 @ [A_Read True 1 True]"
  let ?p = "\<lambda>s. s_loop s = L_Wait \<and> s_sink s = S_Idle \<and> h_srcresult (s_hls s) = FLOW_OK
     \<and> h_cache_read_index (s_hls s) = 0 \<and> map_option pending_bytes (the_cache (s_hls s) 0) = Some []
     \<and> map_option pending_bytes (the_cache (s_hls s) 1) = Some [7] \<and> h_cache_size (s_hls s) ! 1 = 1"
  have "case sys_run ?as hls_start of None \<Rightarrow> False | Some s \<Rightarrow> ?p s" by code_simp
  then obtain s where "sys_run ?as hls_start = Some s" and p: "?p s" by (auto split: option.splits)
  then show ?thesis using sys_run_reachable hls_reachable.start by blast
qed

section \<open>Safety of every interleaving\<close>

definition shape :: "hls \<Rightarrow> bool" where
  "shape e \<longleftrightarrow> length (h_cache e) = 3 \<and> length (h_cache_size e) = 3 \<and> length (h_cache_write_ready e) = 3
     \<and> (\<forall>c \<in> set (h_cache e). c \<noteq> None) \<and> -1 \<le> h_cache_write_index e \<and> h_cache_write_index e < 3
     \<and> 0 \<le> h_cache_read_index e \<and> h_cache_read_index e < 3"

lemma shape_emit [simp]: "shape (emit x e) = shape e"
  by (simp add: shape_def emit_def)

lemma shape_task [simp]: "shape (e\<lparr>h_task := b\<rparr>) = shape e"
  by (simp add: shape_def)

lemma shape_set_cache [simp]: "shape e \<Longrightarrow> shape (set_cache i c e)"
  by (auto simp: shape_def set_cache_def dest: set_update_subset_insert [THEN subsetD])

lemma shape_the_cache: "shape e \<Longrightarrow> 0 \<le> i \<Longrightarrow> i < 3 \<Longrightarrow> \<exists>c. the_cache e i = Some c"
proof -
  assume e: "shape e" and i: "0 \<le> i" "i < 3"
  then have "h_cache e ! nat i \<in> set (h_cache e)" by (intro nth_mem) (simp add: shape_def)
  with e i show ?thesis by (auto simp: the_cache_def aget_def shape_def)
qed

lemma shape_flush_data [simp]: "shape e \<Longrightarrow> shape (hls_progress_buffer_flush_data e)"
  by (auto simp: shape_def hls_progress_buffer_flush_data_def Let_def)

lemma shape_loop_locked:
  assumes "shape e"
  shows "case loop_locked alloc n wrapped e of
      None \<Rightarrow> h_buffer_pts e \<noteq> GST_CLOCK_TIME_NONE \<and>
        (\<exists>c p c'. the_cache e (h_cache_read_index e) = Some c \<and> cache_read_buffer alloc n wrapped c = (p, None, c'))
    | Some LR_Wait \<Rightarrow> True | Some (LR_Stop e') \<Rightarrow> shape e' | Some (LR_Push _ _ _ e') \<Rightarrow> shape e'"
proof (cases "h_srcresult e = FLOW_OK")
  case True
  let ?r = "h_cache_read_index e"
  from shape_the_cache [OF assms, of ?r] assms obtain c where c: "the_cache e ?r = Some c" by (auto simp: shape_def)
  have idx: "0 \<le> ?r" "?r < int (length (h_cache_size e))" "?r < int (length (h_cache_write_ready e))"
    using assms by (auto simp: shape_def)
  obtain p b c' where r: "cache_read_buffer alloc n wrapped c = (p, b, c')" by (metis prod_cases3)
  show ?thesis
    using assms True idx c r shape_set_cache [OF assms, of ?r c']
    by (auto simp: loop_locked_def Let_def set_cache_def aget_in aset_in shape_def emit_def NUM_OF_CACHED_SEGMENTS_def
        dest: set_update_subset_insert [THEN subsetD] split: option.splits if_splits)
qed (use assms in \<open>simp add: loop_locked_def\<close>)

lemma shape_seg_test:
  assumes "shape (s_hls s)"
  shows "case seg_test seg s of Disabled \<Rightarrow> False | Crash \<Rightarrow> h_cache_write_index (s_hls s) = -1 | Next s' \<Rightarrow> shape (s_hls s')"
proof (cases "h_cache_write_index (s_hls s) = -1")
  case False
  let ?e = "s_hls s" and ?w = "h_cache_write_index (s_hls s)"
  have w: "0 \<le> ?w" "?w < int (length (h_cache_size ?e))" "?w < int (length (h_cache_write_ready ?e))"
    using assms False by (auto simp: shape_def)
  from shape_the_cache [OF assms, of ?w] w assms obtain c where c: "the_cache ?e ?w = Some c" by (auto simp: shape_def)
  have m: "\<exists>b. seg_must_wait ?e = Some b" using w by (auto simp: seg_must_wait_def aget_in)
  have "\<exists>e'. seg_commit seg ?e = Some e' \<and> shape e'"
    using assms w c by (auto simp: seg_commit_def Let_def aset_in emit_def set_cache_def shape_def
        dest: set_update_subset_insert [THEN subsetD])
  with m assms show ?thesis by (auto simp: seg_test_def next_of_def split: option.splits if_splits)
next
  case True
  then have "aset xs (h_cache_write_index (s_hls s)) v = None" for xs :: "int list" and v by (simp add: aset_def)
  with True assms show ?thesis
    by (auto simp: seg_test_def next_of_def seg_must_wait_def seg_commit_def aget_def split: option.splits)
qed

lemma shape_seg_testD:
  "shape (s_hls s) \<Longrightarrow> seg_test seg s = Next s' \<Longrightarrow> shape (s_hls s')"
  "shape (s_hls s) \<Longrightarrow> seg_test seg s = Crash \<Longrightarrow> h_cache_write_index (s_hls s) = -1"
  using shape_seg_test [of s seg] by auto

lemma s_hls_signal [simp]: "s_hls (signal_add s) = s_hls s" "s_hls (signal_del s) = s_hls s"
  by (auto simp: signal_add_def signal_del_def split: loop_pc.splits sink_pc.splits)

lemma shape_step:
  assumes "shape (s_hls s)"
  shows "case sys_step a s of Disabled \<Rightarrow> True | Next s' \<Rightarrow> shape (s_hls s')
    | Crash \<Rightarrow> h_cache_write_index (s_hls s) = -1 \<and> (a = A_Recheck \<or> (\<exists>m n. a = A_Write m n)) \<or>
        (\<exists>al n w c p c'. a = A_Read al n w \<and> h_buffer_pts (s_hls s) \<noteq> GST_CLOCK_TIME_NONE
          \<and> the_cache (s_hls s) (h_cache_read_index (s_hls s)) = Some c \<and> cache_read_buffer al n w c = (p, None, c'))"
proof (cases a)
  case (A_Write m n)
  have "h_cache_write_index (s_hls s) = -1 \<or> (\<exists>c. the_cache (s_hls s) (h_cache_write_index (s_hls s)) = Some c)"
    using shape_the_cache [OF assms, of "h_cache_write_index (s_hls s)"] assms by (force simp: shape_def)
  with A_Write assms show ?thesis
    by (auto simp: chain_locked_def next_of_def split: sink_pc.splits option.splits bind_splits)
next
  case (A_Prepare linked)
  have "shape (snd (seg_prepare linked seg (s_hls s)))" for seg
    using assms by (auto simp: seg_prepare_def Let_def shape_def emit_def)
  then have "seg_prepare linked seg (s_hls s) = (go, e) \<Longrightarrow> shape e" for seg go e by (metis snd_conv)
  with A_Prepare show ?thesis by (auto split: sink_pc.splits prod.splits)
next
  case A_Acquire
  have sh: "shape (seg_advance (s_hls s))"
    using assms by (auto simp: shape_def seg_advance_def NUM_OF_CACHED_SEGMENTS_def)
  have "h_cache_write_index (seg_advance (s_hls s)) \<noteq> -1"
    by (auto simp: seg_advance_def NUM_OF_CACHED_SEGMENTS_def)
  with A_Acquire shape_seg_testD [of "s\<lparr>s_hls := seg_advance (s_hls s)\<rparr>"] sh show ?thesis
    by (auto split: sink_pc.splits outcome.splits)
next
  case A_Recheck
  with shape_seg_testD [OF assms] assms show ?thesis by (auto split: sink_pc.splits outcome.splits)
next
  case (A_Read al n w)
  show ?thesis
  proof (cases "loop_locked al n w (s_hls s)")
    case None
    with shape_loop_locked [OF assms, of al n w] A_Read show ?thesis by auto
  next
    case (Some r)
    with shape_loop_locked [OF assms, of al n w] A_Read assms show ?thesis
      by (cases r) (auto simp: loop_stopped_def Let_def shape_def split: if_splits)
  qed
next
  case (A_Push r)
  have "shape (loop_pushed bs pts r (s_hls s))" for bs pts
    using assms by (auto simp: loop_pushed_def Let_def shape_def emit_def split: option.splits)
  with A_Push show ?thesis by (auto split: loop_pc.splits)
next
  case (A_FlushData linked)
  moreover have "shape (hls_progress_buffer_flush_data (emit Out_FlushStart (s_hls s)))" using assms by simp
  ultimately show ?thesis by (auto simp: Let_def)
next
  case A_Message
  with assms show ?thesis by (auto split: sink_pc.splits)
next
  case (A_FlushStop linked)
  with assms show ?thesis by (auto simp: flush_stop_def Let_def shape_def emit_def)
qed (use assms in \<open>auto simp: shape_def eos_event_def emit_def hls_progress_buffer_activatepush_src_def Let_def\<close>)

lemma reachable_shape: "hls_reachable s \<Longrightarrow> shape (s_hls s)"
proof (induction rule: hls_reachable.induct)
  case start
  then show ?case by (simp add: hls_start_def hls_progress_buffer_init_def shape_def)
next
  case (step s a s')
  with shape_step [of s a] show ?case by simp
qed

text \<open>
  C31: in every interleaving of the two threads with flushes, end of stream and (de)activation, the
  two ring indices stay in range and the caches exist, and an access outside the ring or through a null
  buffer has one of three sources: data that arrives while the write index is -1, so with no segment since the start or the
  last flush; a segment event that was waiting for a free cache and goes on while the write index is -1, so after a flush
  in between; or a read that gives no buffer while a time stamp is due.
\<close>

theorem hls_ring_safe:
  assumes "hls_reachable s"
  shows "-1 \<le> h_cache_write_index (s_hls s) \<and> h_cache_write_index (s_hls s) < 3
    \<and> 0 \<le> h_cache_read_index (s_hls s) \<and> h_cache_read_index (s_hls s) < 3
    \<and> (sys_step a s = Crash \<longrightarrow>
        h_cache_write_index (s_hls s) = -1 \<and> (a = A_Recheck \<or> (\<exists>m n. a = A_Write m n)) \<or>
        (\<exists>al n w c p c'. a = A_Read al n w \<and> h_buffer_pts (s_hls s) \<noteq> GST_CLOCK_TIME_NONE
          \<and> the_cache (s_hls s) (h_cache_read_index (s_hls s)) = Some c \<and> cache_read_buffer al n w c = (p, None, c')))"
  using reachable_shape [OF assms] shape_step [of s a] by (auto simp: shape_def)

theorem hls_ring_safe_witness:
  "0 \<le> h_cache_read_index (s_hls hls_start) \<and> sys_step (A_Read True 1 True) hls_start \<noteq> Crash"
  using hls_ring_safe [OF hls_reachable.start, of "A_Read True 1 True"]
  by (auto simp: hls_start_def hls_progress_buffer_init_def)


section \<open>The stream is delivered in order\<close>

text \<open>
  The ring seen from the reader: the slots in read order, each a cache, the size of its segment and
  whether it may be written.
\<close>

definition slots :: "hls \<Rightarrow> (cache option \<times> int \<times> bool) list" where
  "slots e = zip (h_cache e) (zip (h_cache_size e) (h_cache_write_ready e))"

definition view :: "hls \<Rightarrow> (cache option \<times> int \<times> bool) list" where
  "view e = rotate (nat (h_cache_read_index e)) (slots e)"

lemma rotate3_update:
  assumes "length xs = 3" "i < 3"
  shows "rotate r (xs[(r + i) mod 3 := v]) = (rotate r xs)[i := v]"
proof (rule nth_equalityI)
  fix j assume "j < length (rotate r (xs[(r + i) mod 3 := v]))"
  then have j: "j < 3" using assms by simp
  have "(r mod 3 + i) mod 3 = (r mod 3 + j) mod 3 \<longleftrightarrow> i = j"
  proof -
    have "r mod 3 < 3" by simp
    then have "r mod 3 = 0 \<or> r mod 3 = 1 \<or> r mod 3 = 2" by linarith
    moreover have "i = 0 \<or> i = 1 \<or> i = 2" using assms(2) by linarith
    moreover have "j = 0 \<or> j = 1 \<or> j = 2" using j by linarith
    ultimately show ?thesis by (elim disjE; simp)
  qed
  then have "(r + i) mod 3 = (r + j) mod 3 \<longleftrightarrow> i = j" by (simp add: mod_add_left_eq)
  with assms j show "rotate r (xs[(r + i) mod 3 := v]) ! j = (rotate r xs)[i := v] ! j"
    by (simp add: nth_rotate nth_list_update)
qed (use assms in simp)

lemma slots_update:
  "slots (e\<lparr>h_cache := (h_cache e)[i := c], h_cache_size := (h_cache_size e)[i := n], h_cache_write_ready := (h_cache_write_ready e)[i := b]\<rparr>)
    = (slots e)[i := (c, n, b)]"
  by (simp add: slots_def update_zip)

text \<open>
  Segments in the ring: every one but the last is complete, and \<open>m\<close> bytes are missing from the last.
\<close>

fun segs :: "(cache \<times> int) list \<Rightarrow> int \<Rightarrow> bool" where
  "segs [] m = (m = 0)"
| "segs [x] m = (c_write_position (fst x) + m = snd x)"
| "segs (x # y # xs) m = (c_write_position (fst x) = snd x \<and> segs (y # xs) m)"

lemma segs_Cons: "xs \<noteq> [] \<Longrightarrow> segs (x # xs) m \<longleftrightarrow> c_write_position (fst x) = snd x \<and> segs xs m"
  by (cases xs) auto

lemma segs_commit: "segs xs 0 \<Longrightarrow> c_write_position c = 0 \<Longrightarrow> segs (xs @ [(c, n)]) n"
  by (induction xs "0::int" rule: segs.induct) auto

lemma segs_write:
  "segs (xs @ [(c, n)]) m \<Longrightarrow> c_write_position c' = c_write_position c + l \<Longrightarrow> segs (xs @ [(c', n)]) (m - l)"
proof (induction xs)
  case (Cons x xs)
  then show ?case using segs_Cons [of "xs @ [(c, n)]" x m] segs_Cons [of "xs @ [(c', n)]" x "m - l"] by simp
qed auto

lemma segs_read: "segs ((c, n) # xs) m \<Longrightarrow> c_write_position c' = c_write_position c \<Longrightarrow> segs ((c', n) # xs) m"
  by (cases xs) auto

lemma segs_finish: "segs ((c, n) # xs) m \<Longrightarrow> n \<le> c_write_position c \<Longrightarrow> 0 \<le> m \<Longrightarrow> segs xs m"
  by (cases xs) auto

lemma segs_nonempty: "segs xs m \<Longrightarrow> m \<noteq> 0 \<Longrightarrow> xs \<noteq> []"
  by auto

definition busy_slot :: "cache \<times> int \<Rightarrow> cache option \<times> int \<times> bool" where
  "busy_slot = (\<lambda>(c, n). (Some c, n, False))"

definition free_slot :: "cache \<times> int \<Rightarrow> cache option \<times> int \<times> bool" where
  "free_slot = (\<lambda>(c, n). (Some c, n, True))"

definition ring :: "hls \<Rightarrow> (cache \<times> int) list \<Rightarrow> (cache \<times> int) list \<Rightarrow> bool" where
  "ring e busy free \<longleftrightarrow> shape e \<and> view e = map busy_slot busy @ map free_slot free
     \<and> (\<forall>(c, n) \<in> set busy. cache_ok c \<and> c_read_position c < n \<and> n < 2 ^ 32)
     \<and> (\<forall>(c, n) \<in> set free. cache_ok c \<and> pending_bytes c = [])"

lemma ring_length: "ring e busy free \<Longrightarrow> length busy + length free = 3"
proof -
  assume r: "ring e busy free"
  then have "shape e" by (simp add: ring_def)
  then have "length (slots e) = 3" by (simp add: shape_def slots_def)
  then have "length (view e) = 3" by (simp add: view_def)
  moreover have "view e = map busy_slot busy @ map free_slot free" using r by (simp add: ring_def)
  ultimately show ?thesis by simp
qed

lemma ring_cong:
  "ring e busy free \<Longrightarrow> h_cache e' = h_cache e \<Longrightarrow> h_cache_size e' = h_cache_size e \<Longrightarrow>
   h_cache_write_ready e' = h_cache_write_ready e \<Longrightarrow> h_cache_read_index e' = h_cache_read_index e \<Longrightarrow>
   -1 \<le> h_cache_write_index e' \<Longrightarrow> h_cache_write_index e' < 3 \<Longrightarrow> ring e' busy free"
  by (simp add: ring_def shape_def view_def slots_def)

text \<open>What slot \<open>i\<close> of the view is in the arrays of the element.\<close>

lemma view_slot:
  assumes "shape e" "i < 3" "view e ! i = (c, n, b)" "w = (h_cache_read_index e + int i) mod 3"
  shows "aget (h_cache e) w = Some c" "aget (h_cache_size e) w = Some n" "aget (h_cache_write_ready e) w = Some b"
proof -
  let ?r = "nat (h_cache_read_index e)"
  have l: "length (h_cache e) = 3" "length (h_cache_size e) = 3" "length (h_cache_write_ready e) = 3"
    and r: "0 \<le> h_cache_read_index e" using assms(1) by (auto simp: shape_def)
  have w: "nat w = (?r + i) mod 3" "0 \<le> w" "w < 3"
    using r assms(4) by (simp_all add: nat_mod_distrib nat_add_distrib)
  have "view e ! i = slots e ! ((?r + i) mod 3)"
    using l assms(2) by (simp add: view_def nth_rotate slots_def)
  also have "\<dots> = (h_cache e ! nat w, h_cache_size e ! nat w, h_cache_write_ready e ! nat w)"
    using l w by (simp add: slots_def)
  finally show "aget (h_cache e) w = Some c" "aget (h_cache_size e) w = Some n" "aget (h_cache_write_ready e) w = Some b"
    using assms(3) l w by (auto simp: aget_def)
qed

lemma view_update:
  assumes "shape e" "i < 3" "w = (h_cache_read_index e + int i) mod 3"
  shows "view (e\<lparr>h_cache := (h_cache e)[nat w := c], h_cache_size := (h_cache_size e)[nat w := n],
      h_cache_write_ready := (h_cache_write_ready e)[nat w := b]\<rparr>) = (view e)[i := (c, n, b)]"
proof -
  have r: "0 \<le> h_cache_read_index e" "length (slots e) = 3" using assms(1) by (auto simp: shape_def slots_def)
  have "nat w = (nat (h_cache_read_index e) + i) mod 3"
    using r assms(3) by (simp add: nat_mod_distrib nat_add_distrib)
  with rotate3_update [OF r(2) assms(2)] show ?thesis by (simp add: view_def slots_update)
qed


text \<open>The four operations on the ring: append to the last segment, read from the first, release it, reserve a new one.\<close>

lemma ring_write:
  assumes r: "ring e (busy @ [(c, n)]) free" and w: "w = (h_cache_read_index e + int (length busy)) mod 3"
    and c': "cache_ok c'" "c_read_position c' = c_read_position c"
  shows "the_cache e w = Some c" "ring (set_cache w c' e) (busy @ [(c', n)]) free"
proof -
  have sh: "shape e" and k: "length busy < 3" using r ring_length [OF r] by (auto simp: ring_def)
  have v: "view e = map busy_slot busy @ (Some c, n, False) # map free_slot free"
    using r by (simp add: ring_def busy_slot_def)
  then have "view e ! length busy = (Some c, n, False)" by (simp add: nth_append)
  note slot = view_slot [OF sh k this w]
  show "the_cache e w = Some c" using slot(1) by (simp add: the_cache_def)
  have same: "(h_cache_size e)[nat w := n] = h_cache_size e" "(h_cache_write_ready e)[nat w := False] = h_cache_write_ready e"
    using slot(2,3) by (auto simp: aget_def list_update_same_conv split: if_splits)
  have "view (set_cache w c' e) = (view e)[length busy := (Some c', n, False)]"
    using view_update [OF sh k w, where c = "Some c'" and n = n and b = False] by (simp add: same set_cache_def)
  also have "\<dots> = map busy_slot (busy @ [(c', n)]) @ map free_slot free"
    by (simp add: v list_update_append busy_slot_def)
  finally show "ring (set_cache w c' e) (busy @ [(c', n)]) free"
    using r c' sh by (auto simp: ring_def)
qed

lemma ring_read:
  assumes r: "ring e ((c, n) # busy) free" and ri: "ri = h_cache_read_index e"
    and c': "cache_ok c'" "c_read_position c' < n"
  shows "the_cache e ri = Some c" "aget (h_cache_size (set_cache ri c' e)) ri = Some n" "ring (set_cache ri c' e) ((c', n) # busy) free"
proof -
  have sh: "shape e" using r by (simp add: ring_def)
  have w: "ri = (h_cache_read_index e + int 0) mod 3" using sh ri by (simp add: shape_def)
  have v: "view e = (Some c, n, False) # map busy_slot busy @ map free_slot free"
    using r by (simp add: ring_def busy_slot_def)
  then have "view e ! 0 = (Some c, n, False)" by simp
  note slot = view_slot [OF sh _ this w, simplified]
  show "the_cache e ri = Some c" "aget (h_cache_size (set_cache ri c' e)) ri = Some n"
    using slot by (simp_all add: the_cache_def set_cache_def)
  have same: "(h_cache_size e)[nat ri := n] = h_cache_size e" "(h_cache_write_ready e)[nat ri := False] = h_cache_write_ready e"
    using slot(2,3) by (auto simp: aget_def list_update_same_conv split: if_splits)
  have "view (set_cache ri c' e) = (view e)[0 := (Some c', n, False)]"
    using view_update [OF sh _ w, where c = "Some c'" and n = n and b = False] by (simp add: same set_cache_def)
  also have "\<dots> = map busy_slot ((c', n) # busy) @ map free_slot free" by (simp add: v busy_slot_def)
  finally show "ring (set_cache ri c' e) ((c', n) # busy) free" using r c' sh by (auto simp: ring_def)
qed

lemma ring_release:
  assumes r: "ring e ((c, n) # busy) free" and ri: "ri = h_cache_read_index e"
    and c': "cache_ok c'" "pending_bytes c' = []"
  shows "\<exists>ready. aset (h_cache_write_ready (set_cache ri c' e)) ri True = Some ready
    \<and> ring ((set_cache ri c' e)\<lparr>h_cache_write_ready := ready, h_cache_read_index := (ri + 1) mod 3\<rparr>) busy (free @ [(c', n)])"
proof -
  have sh: "shape e" using r by (simp add: ring_def)
  have w: "ri = (h_cache_read_index e + int 0) mod 3" and idx: "0 \<le> ri" "ri < 3" using sh ri by (auto simp: shape_def)
  have v: "view e = (Some c, n, False) # map busy_slot busy @ map free_slot free"
    using r by (simp add: ring_def busy_slot_def)
  then have "view e ! 0 = (Some c, n, False)" by simp
  note slot = view_slot [OF sh _ this w, simplified]
  have same: "(h_cache_size e)[nat ri := n] = h_cache_size e"
    using slot(2) by (auto simp: aget_def list_update_same_conv split: if_splits)
  let ?ready = "(h_cache_write_ready e)[nat ri := True]"
  let ?e = "(set_cache ri c' e)\<lparr>h_cache_write_ready := ?ready, h_cache_read_index := (ri + 1) mod 3\<rparr>"
  have set: "aset (h_cache_write_ready (set_cache ri c' e)) ri True = Some ?ready"
    using idx sh by (simp add: aset_def set_cache_def shape_def)
  have sl: "slots ?e = (slots e)[nat ri := (Some c', n, True)]"
    using slots_update [where e = e and i = "nat ri" and c = "Some c'" and n = n and b = True] by (simp add: slots_def set_cache_def same)
  have len: "length (slots e) = 3" using sh by (simp add: shape_def slots_def)
  have "rotate (nat ri) (slots ?e) = (view e)[0 := (Some c', n, True)]"
    using rotate3_update [OF len, of 0 "nat ri" "(Some c', n, True)"] idx unfolding sl by (simp add: view_def ri)
  then have rot: "rotate (nat ri) (slots ?e) = (Some c', n, True) # map busy_slot busy @ map free_slot free" by (simp add: v)
  have "view ?e = rotate (Suc (nat ri)) (slots ?e)"
  proof -
    have "nat ((ri + 1) mod 3) = Suc (nat ri) mod 3" using idx by (simp add: nat_mod_distrib nat_add_distrib)
    moreover have "length (slots ?e) = 3" using len by (simp add: sl)
    ultimately show ?thesis using rotate_conv_mod [of "Suc (nat ri)" "slots ?e"] by (simp add: view_def)
  qed
  also have "\<dots> = map busy_slot busy @ map free_slot (free @ [(c', n)])"
    by (simp only: rotate_Suc rot) (simp add: free_slot_def)
  finally have "view ?e = map busy_slot busy @ map free_slot (free @ [(c', n)])" .
  moreover have "shape ?e" using shape_set_cache [OF sh, of ri c'] sh by (simp add: shape_def)
  ultimately have "ring ?e busy (free @ [(c', n)])" using r c' by (auto simp: ring_def)
  with set show ?thesis by blast
qed

lemma ring_reserve:
  assumes r: "ring e busy ((c, n) # free)" and w: "h_cache_write_index e = (h_cache_read_index e + int (length busy)) mod 3"
    and stop: "0 < seg_stop seg" "seg_stop seg < 2 ^ 32"
  shows "\<exists>e'. seg_commit seg e = Some e' \<and> ring e' (busy @ [(cache_rewind c, seg_stop seg)]) free
    \<and> h_out e' = h_out e @ [Msg_Resume] \<and> h_cache_read_index e' = h_cache_read_index e
    \<and> h_cache_write_index e' = h_cache_write_index e \<and> h_srcresult e' = h_srcresult e"
proof -
  let ?w = "h_cache_write_index e"
  have sh: "shape e" and k: "length busy < 3" using r ring_length [OF r] by (auto simp: ring_def)
  have v: "view e = map busy_slot busy @ (Some c, n, True) # map free_slot free"
    using r by (simp add: ring_def free_slot_def)
  then have "view e ! length busy = (Some c, n, True)" by (simp add: nth_append)
  note slot = view_slot [OF sh k this w]
  have idx: "0 \<le> ?w" "?w < 3" using w by simp_all
  let ?e = "e\<lparr>h_cache := (h_cache e)[nat ?w := Some (cache_rewind c)], h_cache_size := (h_cache_size e)[nat ?w := seg_stop seg],
      h_cache_write_ready := (h_cache_write_ready e)[nat ?w := False]\<rparr>"
  have eq: "seg_commit seg e = Some (emit Msg_Resume ?e)"
    using idx sh slot(1) stop
    by (cases e) (simp add: seg_commit_def Let_def aset_def shape_def the_cache_def set_cache_def)
  have "view ?e = (view e)[length busy := (Some (cache_rewind c), seg_stop seg, False)]" by (rule view_update [OF sh k w])
  also have "\<dots> = map busy_slot (busy @ [(cache_rewind c, seg_stop seg)]) @ map free_slot free"
    by (simp add: v list_update_append busy_slot_def)
  finally have "view (emit Msg_Resume ?e) = map busy_slot (busy @ [(cache_rewind c, seg_stop seg)]) @ map free_slot free"
    by (simp add: view_def slots_def emit_def)
  moreover have "shape ?e" using shape_set_cache [OF sh, of ?w "cache_rewind c"] by (simp add: shape_def set_cache_def)
  moreover have "cache_ok (cache_rewind c)" "c_read_position (cache_rewind c) = 0"
    using r fc.reset [of c] by (auto simp: ring_def cache_rewind_eq)
  ultimately have "ring (emit Msg_Resume ?e) (busy @ [(cache_rewind c, seg_stop seg)]) free"
    using r stop by (auto simp: ring_def)
  with eq show ?thesis by (auto simp: emit_def)
qed


text \<open>
  The protocol of a stream without seeks: a segment event comes when the segment before is complete
  and announces its size, data comes in pieces that the segment has room for, the system writes whole
  pieces, reads give at least one byte, pushes succeed.
\<close>

definition seg_ok :: "segment \<Rightarrow> bool" where
  "seg_ok seg \<longleftrightarrow> seg_start seg = 0 \<and> 0 < seg_stop seg \<and> seg_stop seg < 2 ^ 32"

fun allowed :: "act \<Rightarrow> sys \<Rightarrow> int \<Rightarrow> bool" where
  "allowed (A_Chain data) s m \<longleftrightarrow> data \<noteq> [] \<and> int (length data) \<le> m"
| "allowed (A_Write mapped n) s m \<longleftrightarrow> mapped \<and> (case s_sink s of S_Chain data \<Rightarrow> n = int (length data) | _ \<Rightarrow> True)"
| "allowed (A_Segment seg) s m \<longleftrightarrow> m = 0 \<and> seg_ok seg"
| "allowed (A_Read alloc n wrapped) s m \<longleftrightarrow> alloc \<and> 0 < n \<and> wrapped"
| "allowed (A_Push r) s m \<longleftrightarrow> r = FLOW_OK"
| "allowed A_FlushStart s m \<longleftrightarrow> False"
| "allowed (A_FlushData linked) s m \<longleftrightarrow> False"
| "allowed (A_FlushStop linked) s m \<longleftrightarrow> False"
| "allowed (A_Activate active linked) s m \<longleftrightarrow> active"
| "allowed _ s m \<longleftrightarrow> True"

text \<open>The bytes the element took so far, and how many the current segment still lacks.\<close>

fun ghost :: "act \<Rightarrow> sys \<Rightarrow> sys \<Rightarrow> int list \<times> int \<Rightarrow> int list \<times> int" where
  "ghost (A_Write mapped n) s s' (acc, m) =
     (case s_sink s of S_Chain data \<Rightarrow> (acc @ data, m - int (length data)) | _ \<Rightarrow> (acc, m))"
| "ghost A_Acquire s s' (acc, m) =
     (case s_sink s of S_Prepared seg \<Rightarrow> (acc, if s_sink s' = S_Idle then seg_stop seg else m) | _ \<Rightarrow> (acc, m))"
| "ghost A_Recheck s s' (acc, m) =
     (case s_sink s of S_Woken seg \<Rightarrow> (acc, if s_sink s' = S_Idle then seg_stop seg else m) | _ \<Rightarrow> (acc, m))"
| "ghost _ s s' (acc, m) = (acc, m)"

inductive streaming :: "sys \<Rightarrow> int list \<Rightarrow> int \<Rightarrow> bool" where
  start: "streaming hls_start [] 0"
| step: "streaming s acc m \<Longrightarrow> allowed a s m \<Longrightarrow> sys_step a s = Next s' \<Longrightarrow> ghost a s s' (acc, m) = (acc', m') \<Longrightarrow>
    streaming s' acc' m'"

fun out_bytes :: "hls_out list \<Rightarrow> int list" where
  "out_bytes [] = []"
| "out_bytes (Out_Data bs pts # xs) = bs @ out_bytes xs"
| "out_bytes (_ # xs) = out_bytes xs"

lemma out_bytes_append [simp]: "out_bytes (xs @ ys) = out_bytes xs @ out_bytes ys"
  by (induction xs rule: out_bytes.induct) auto

fun held :: "loop_pc \<Rightarrow> int list" where
  "held (L_Push (Some bs) pts) = bs"
| "held _ = []"

fun sink_inv :: "sink_pc \<Rightarrow> bool \<Rightarrow> int \<Rightarrow> bool" where
  "sink_inv S_Idle eos m \<longleftrightarrow> True"
| "sink_inv (S_Chain data) eos m \<longleftrightarrow> \<not> eos \<and> data \<noteq> [] \<and> int (length data) \<le> m"
| "sink_inv (S_Checked seg) eos m \<longleftrightarrow> m = 0 \<and> seg_ok seg"
| "sink_inv (S_Prepared seg) eos m \<longleftrightarrow> \<not> eos \<and> m = 0 \<and> seg_ok seg"
| "sink_inv (S_Full seg) eos m \<longleftrightarrow> \<not> eos \<and> m = 0 \<and> seg_ok seg"
| "sink_inv (S_Wait seg) eos m \<longleftrightarrow> \<not> eos \<and> m = 0 \<and> seg_ok seg"
| "sink_inv (S_Woken seg) eos m \<longleftrightarrow> \<not> eos \<and> m = 0 \<and> seg_ok seg"

fun index_inv :: "sink_pc \<Rightarrow> int \<Rightarrow> int \<Rightarrow> nat \<Rightarrow> bool" where
  "index_inv (S_Full seg) w r k \<longleftrightarrow> w = (r + int k) mod 3"
| "index_inv (S_Wait seg) w r k \<longleftrightarrow> w = (r + int k) mod 3"
| "index_inv (S_Woken seg) w r k \<longleftrightarrow> w = (r + int k) mod 3"
| "index_inv _ w r k \<longleftrightarrow> w = (r + int k + 2) mod 3 \<or> w = -1 \<and> r = 0 \<and> k = 0"

definition queued :: "(cache \<times> int) list \<Rightarrow> int list" where
  "queued busy = concat (map (\<lambda>(c, n). pending_bytes c) busy)"

lemma queued_simps [simp]:
  "queued [] = []" "queued ((c, n) # xs) = pending_bytes c @ queued xs" "queued (xs @ ys) = queued xs @ queued ys"
  by (simp_all add: queued_def)

definition sinv :: "hls \<Rightarrow> sink_pc \<Rightarrow> loop_pc \<Rightarrow> int list \<Rightarrow> int \<Rightarrow> bool" where
  "sinv e sink loop acc m \<longleftrightarrow> 0 \<le> m \<and> (h_srcresult e = FLOW_OK \<or> h_is_eos e) \<and> sink_inv sink (h_is_eos e) m
     \<and> (\<exists>busy free. ring e busy free \<and> segs busy m \<and> index_inv sink (h_cache_write_index e) (h_cache_read_index e) (length busy)
          \<and> acc = out_bytes (h_out e) @ held loop @ queued busy)"

lemma sinvI:
  "ring e busy free \<Longrightarrow> segs busy m \<Longrightarrow> index_inv sink (h_cache_write_index e) (h_cache_read_index e) (length busy) \<Longrightarrow>
   acc = out_bytes (h_out e) @ held loop @ queued busy \<Longrightarrow> 0 \<le> m \<Longrightarrow> h_srcresult e = FLOW_OK \<or> h_is_eos e \<Longrightarrow>
   sink_inv sink (h_is_eos e) m \<Longrightarrow> sinv e sink loop acc m"
  unfolding sinv_def by blast

lemma sinvE:
  assumes "sinv e sink loop acc m"
  obtains busy free where "ring e busy free" "segs busy m"
    "index_inv sink (h_cache_write_index e) (h_cache_read_index e) (length busy)"
    "acc = out_bytes (h_out e) @ held loop @ queued busy" "0 \<le> m" "h_srcresult e = FLOW_OK \<or> h_is_eos e"
    "sink_inv sink (h_is_eos e) m"
  using assms unfolding sinv_def by blast

text \<open>An action that changes only flags, messages and program counters keeps the invariant.\<close>

lemma sinv_frame:
  assumes "sinv e sink loop acc m"
    and "h_cache e' = h_cache e" "h_cache_size e' = h_cache_size e" "h_cache_write_ready e' = h_cache_write_ready e"
    "h_cache_read_index e' = h_cache_read_index e" "h_cache_write_index e' = h_cache_write_index e"
    and "out_bytes (h_out e') @ held loop' = out_bytes (h_out e) @ held loop"
    and "\<And>k. index_inv sink (h_cache_write_index e) (h_cache_read_index e) k \<Longrightarrow>
           index_inv sink' (h_cache_write_index e) (h_cache_read_index e) k"
    and "h_srcresult e' = FLOW_OK \<or> h_is_eos e'" "sink_inv sink' (h_is_eos e') m"
  shows "sinv e' sink' loop' acc m"
proof -
  from assms(1) obtain busy free where b: "ring e busy free" "segs busy m"
    "index_inv sink (h_cache_write_index e) (h_cache_read_index e) (length busy)"
    "acc = out_bytes (h_out e) @ held loop @ queued busy" "0 \<le> m" by (rule sinvE)
  have "ring e' busy free" using b(1) assms(2-6) by (intro ring_cong [OF b(1)]) (auto simp: ring_def shape_def)
  moreover have "acc = out_bytes (h_out e') @ held loop' @ queued busy"
    using b(4) assms(7) by (metis append.assoc)
  ultimately show ?thesis using b assms(5,6,8-10) by (intro sinvI [of e' busy free]) auto
qed

lemma sinv_write:
  assumes "sinv e (S_Chain data) loop acc m"
  shows "\<exists>e'. chain_locked True (int (length data)) data e = Some e'
    \<and> sinv e' S_Idle loop (acc @ data) (m - int (length data)) \<and> h_srcresult e' = h_srcresult e"
proof -
  from assms obtain busy free where b: "ring e busy free" "segs busy m"
    "index_inv (S_Chain data) (h_cache_write_index e) (h_cache_read_index e) (length busy)"
    "acc = out_bytes (h_out e) @ held loop @ queued busy" "0 \<le> m" "h_srcresult e = FLOW_OK \<or> h_is_eos e"
    "sink_inv (S_Chain data) (h_is_eos e) m" by (rule sinvE)
  have d: "data \<noteq> []" "int (length data) \<le> m" "h_srcresult e = FLOW_OK" using b(6,7) by auto
  have "m \<noteq> 0" using d(1,2) by (cases data) auto
  then have ne: "busy \<noteq> []" using segs_nonempty [OF b(2)] by blast
  then obtain bs c n where bs: "busy = bs @ [(c, n)]" by (metis prod.exhaust rev_exhaust)
  have wi: "h_cache_write_index e = (h_cache_read_index e + int (length bs)) mod 3"
    using b(3) unfolding bs by (auto simp: mod_add_eq)
  have c: "cache_ok c" "n < 2 ^ 32" using b(1) bs by (auto simp: ring_def)
  have wp: "c_write_position c + m = n" using b(2) unfolding bs
    by (induction bs) (auto simp: segs_Cons)
  then have "int (length data) \<le> cache_room c" using c(2) d(2) by (simp add: cache_room_def)
  then have p: "cache_ok (cache_write_buffer True (int (length data)) data c)"
    "pending_bytes (cache_write_buffer True (int (length data)) data c) = pending_bytes c @ data"
    "c_write_position (cache_write_buffer True (int (length data)) data c) = c_write_position c + int (length data)"
    "c_read_position (cache_write_buffer True (int (length data)) data c) = c_read_position c"
    using write_appends [OF c(1), of "int (length data)" data] by auto
  note rw = ring_write [OF b(1) [unfolded bs] wi p(1,4)]
  let ?e = "set_cache (h_cache_write_index e) (cache_write_buffer True (int (length data)) data c) e"
  have "sinv ?e S_Idle loop (acc @ data) (m - int (length data))"
  proof (rule sinvI [OF rw(2) segs_write [OF b(2) [unfolded bs] p(3)]])
    show "index_inv S_Idle (h_cache_write_index ?e) (h_cache_read_index ?e)
        (length (bs @ [(cache_write_buffer True (int (length data)) data c, n)]))"
      using b(3) by (simp add: bs set_cache_def)
    show "acc @ data = out_bytes (h_out ?e) @ held loop @ queued (bs @ [(cache_write_buffer True (int (length data)) data c, n)])"
      using b(4) by (simp add: bs set_cache_def p(2))
  qed (use d b(6) in \<open>auto simp: set_cache_def\<close>)
  moreover have "chain_locked True (int (length data)) data e = Some ?e"
    using rw(1) d(3) by (simp add: chain_locked_def)
  ultimately show ?thesis by (auto simp: set_cache_def)
qed


lemma ring_head:
  assumes "ring e busy free"
  shows "\<exists>c. the_cache e (h_cache_read_index e) = Some c \<and> cache_ok c
    \<and> (if busy = [] then pending_bytes c = [] else fst (hd busy) = c)"
proof -
  have sh: "shape e" using assms by (simp add: ring_def)
  have w: "h_cache_read_index e = (h_cache_read_index e + int 0) mod 3" using sh by (simp add: shape_def)
  obtain c n b where v: "view e ! 0 = (c, n, b)" by (metis prod_cases3)
  note slot = view_slot [OF sh _ v w]
  show ?thesis
  proof (cases busy)
    case Nil
    with ring_length [OF assms] obtain x free' where "free = x # free'" by (cases free) auto
    with assms Nil v slot(1) show ?thesis by (auto simp: ring_def free_slot_def the_cache_def split: prod.splits)
  next
    case (Cons x xs)
    with assms v slot(1) show ?thesis by (auto simp: ring_def busy_slot_def the_cache_def split: prod.splits)
  qed
qed

fun woken :: "sink_pc \<Rightarrow> sink_pc" where
  "woken (S_Wait seg) = S_Woken seg"
| "woken pc = pc"

lemma woken_inv [simp]: "index_inv (woken pc) w r k = index_inv pc w r k" "sink_inv (woken pc) eos m = sink_inv pc eos m"
  by (cases pc; simp)+

lemma index_inv_release:
  assumes "index_inv pc w r (Suc k)"
  shows "index_inv pc w ((r + 1) mod 3) k"
proof -
  have a: "((r + 1) mod 3 + int k) mod 3 = (r + int (Suc k)) mod 3" by (simp add: mod_add_left_eq add.assoc)
  have b: "((r + 1) mod 3 + int k + 2) mod 3 = (r + int (Suc k) + 2) mod 3"
    using mod_add_left_eq [of "r + 1" 3 "int k + 2"] by (simp add: add.assoc add.left_commute add.commute)
  show ?thesis using assms a b by (cases pc) (auto simp: add.commute)
qed

lemma sinv_read:
  assumes "sinv e sink loop acc m" "held loop = []" "0 < n" "loop_locked True n True e = r"
  shows "case r of None \<Rightarrow> False
    | Some LR_Wait \<Rightarrow> sinv e sink L_Wait acc m
    | Some (LR_Stop e') \<Rightarrow> sinv (loop_stopped e') sink L_Top acc m
    | Some (LR_Push bs pts fin e') \<Rightarrow> (\<exists>b. bs = Some b) \<and> sinv e' (if fin then woken sink else sink) (L_Push bs pts) acc m"
proof -
  from assms(1) obtain busy free where b: "ring e busy free" "segs busy m"
    "index_inv sink (h_cache_write_index e) (h_cache_read_index e) (length busy)"
    "acc = out_bytes (h_out e) @ held loop @ queued busy" "0 \<le> m" "h_srcresult e = FLOW_OK \<or> h_is_eos e"
    "sink_inv sink (h_is_eos e) m" by (rule sinvE)
  let ?ri = "h_cache_read_index e"
  from ring_head [OF b(1)] obtain c where c: "the_cache e ?ri = Some c" "cache_ok c"
    "if busy = [] then pending_bytes c = [] else fst (hd busy) = c" by blast
  show ?thesis
  proof (cases "h_srcresult e = FLOW_OK \<and> cache_has_enough_data c")
    case False
    have wait: "sinv e sink L_Wait acc m" using b(6,7) assms(2) by (intro sinv_frame [OF assms(1)]) auto
    have stop: "sinv (loop_stopped e) sink L_Top acc m"
      using b(6,7) assms(2) by (intro sinv_frame [OF assms(1)]) (auto simp: loop_stopped_def)
    have eos: "sinv (loop_stopped ((emit Out_EOS e)\<lparr>h_srcresult := FLOW_FLUSHING\<rparr>)) sink L_Top acc m" if "h_is_eos e"
      using that b(7) assms(2) by (intro sinv_frame [OF assms(1)]) (auto simp: loop_stopped_def emit_def)
    from False wait stop eos assms(4) c(1) show ?thesis by (auto simp: loop_locked_def)
  next
    case True
    have "pending_bytes c \<noteq> []" using fc.ready [OF c(2)] True by simp
    with c(3) obtain sz bs where busy: "busy = (c, sz) # bs" by (cases busy) auto
    obtain pos buf c' where rd: "cache_read_buffer True n True c = (pos, buf, c')" by (metis prod_cases3)
    from read_takes [OF c(2) _ assms(3) rd] True obtain d where
      d: "buf = Some \<lparr>b_data = d, b_offset = c_read_position c\<rparr>" "pending_bytes c = d @ pending_bytes c'"
        "cache_ok c'" "pos = c_read_position c'" "c_write_position c' = c_write_position c" by auto
    have sz: "c_read_position c < sz" using b(1) busy by (auto simp: ring_def)
    have wp: "c_write_position c \<le> sz" using b(2,5) busy by (cases bs) auto
    have rp: "c_read_position c' \<le> c_write_position c'" using d(3) by (simp add: cache_ok_def)
    have acc: "acc = out_bytes (h_out e) @ d @ pending_bytes c' @ queued bs" using b(4) assms(2) busy d(2) by simp
    show ?thesis
    proof (cases "pos = sz")
      case False
      then have lt: "c_read_position c' < sz" using d(4,5) rp wp by simp
      note rr = ring_read [OF b(1) [unfolded busy] refl d(3) lt]
      let ?e = "(set_cache ?ri c' e)\<lparr>h_buffer_pts := GST_CLOCK_TIME_NONE\<rparr>"
      have r: "r = Some (LR_Push (Some d) (h_buffer_pts e) False ?e)"
        using assms(4) True c(1) rd rr(2) False d(1)
        by (simp add: loop_locked_def Let_def) (simp add: set_cache_def)
      have "sinv ?e sink (L_Push (Some d) (h_buffer_pts e)) acc m"
      proof (rule sinvI)
        show "ring ?e ((c', sz) # bs) free" using rr(3) by (rule ring_cong) (use b(1) in \<open>auto simp: ring_def shape_def set_cache_def\<close>)
        show "segs ((c', sz) # bs) m" using b(2) d(5) unfolding busy by (rule segs_read)
      qed (use b(3,5,6,7) acc in \<open>auto simp: set_cache_def busy\<close>)
      with r show ?thesis by simp
    next
      case fin: True
      then have full: "c_write_position c = sz" "c_read_position c' = c_write_position c'" using d(4,5) rp wp by simp_all
      then have p0: "pending_bytes c' = []" by (simp add: pending_bytes_def)
      from ring_release [OF b(1) [unfolded busy] refl d(3) p0] obtain ready where
        rel: "aset (h_cache_write_ready (set_cache ?ri c' e)) ?ri True = Some ready"
        "ring ((set_cache ?ri c' e)\<lparr>h_cache_write_ready := ready, h_cache_read_index := (?ri + 1) mod 3\<rparr>) bs (free @ [(c', sz)])"
        by blast
      have szg: "aget (h_cache_size (set_cache ?ri c' e)) ?ri = Some sz"
        using ring_read(2) [OF b(1) [unfolded busy] refl c(2) sz] by (simp add: set_cache_def)
      let ?e = "(emit Msg_NotFull ((set_cache ?ri c' e)\<lparr>h_cache_write_ready := ready,
          h_cache_read_index := (?ri + 1) mod 3\<rparr>))\<lparr>h_buffer_pts := GST_CLOCK_TIME_NONE\<rparr>"
      have r: "r = Some (LR_Push (Some d) (h_buffer_pts e) True ?e)"
        using assms(4) True c(1) rd szg rel(1) fin d(1)
        by (simp add: loop_locked_def Let_def NUM_OF_CACHED_SEGMENTS_def) (simp add: set_cache_def emit_def)
      have "sinv ?e (woken sink) (L_Push (Some d) (h_buffer_pts e)) acc m"
      proof (rule sinvI)
        show "ring ?e bs (free @ [(c', sz)])"
          using rel(2) by (rule ring_cong) (use b(1) in \<open>auto simp: ring_def shape_def set_cache_def emit_def\<close>)
        show "segs bs m" using b(2) full(1) b(5) unfolding busy by (auto intro: segs_finish)
        show "index_inv (woken sink) (h_cache_write_index ?e) (h_cache_read_index ?e) (length bs)"
          using index_inv_release [of sink _ ?ri "length bs"] b(3) by (simp add: busy set_cache_def emit_def)
      qed (use b(5,6,7) acc p0 in \<open>auto simp: set_cache_def emit_def\<close>)
      with r show ?thesis by simp
    qed
  qed
qed


lemma sinv_advance:
  assumes "sinv e (S_Prepared seg) loop acc m"
  shows "sinv (seg_advance e) (S_Woken seg) loop acc m"
proof -
  from assms obtain busy free where b: "ring e busy free" "segs busy m"
    "index_inv (S_Prepared seg) (h_cache_write_index e) (h_cache_read_index e) (length busy)"
    "acc = out_bytes (h_out e) @ held loop @ queued busy" "0 \<le> m" "h_srcresult e = FLOW_OK \<or> h_is_eos e"
    "sink_inv (S_Prepared seg) (h_is_eos e) m" by (rule sinvE)
  have "((x + 2) mod 3 + 1) mod 3 = x mod 3" for x :: int by presburger
  then have "((h_cache_read_index e + int (length busy) + 2) mod 3 + 1) mod 3 = (h_cache_read_index e + int (length busy)) mod 3" .
  then have w: "(h_cache_write_index e + 1) mod 3 = (h_cache_read_index e + int (length busy)) mod 3"
    using b(3) by auto
  show ?thesis
  proof (rule sinvI)
    show "ring (seg_advance e) busy free"
      using b(1) by (rule ring_cong) (auto simp: seg_advance_def NUM_OF_CACHED_SEGMENTS_def)
  qed (use b w in \<open>auto simp: seg_advance_def NUM_OF_CACHED_SEGMENTS_def\<close>)
qed

lemma sinv_test:
  assumes "sinv (s_hls s) (S_Woken seg) (s_loop s) acc m"
  shows "\<exists>s'. seg_test seg s = Next s' \<and> s_loop s' = s_loop s
    \<and> (s_sink s' = S_Full seg \<and> sinv (s_hls s') (S_Full seg) (s_loop s) acc m
      \<or> s_sink s' = S_Idle \<and> sinv (s_hls s') S_Idle (s_loop s) acc (seg_stop seg))"
proof -
  let ?e = "s_hls s" and ?w = "h_cache_write_index (s_hls s)"
  from assms obtain busy free where b: "ring ?e busy free" "segs busy m"
    "index_inv (S_Woken seg) ?w (h_cache_read_index ?e) (length busy)"
    "acc = out_bytes (h_out ?e) @ held (s_loop s) @ queued busy" "0 \<le> m" "h_srcresult ?e = FLOW_OK \<or> h_is_eos ?e"
    "sink_inv (S_Woken seg) (h_is_eos ?e) m" by (rule sinvE)
  have sh: "shape ?e" using b(1) by (simp add: ring_def)
  have w: "?w = (h_cache_read_index ?e + int (length busy)) mod 3" and ok: "h_srcresult ?e = FLOW_OK" "m = 0" "seg_ok seg"
    using b(3,6,7) by auto
  show ?thesis
  proof (cases free)
    case Nil
    then have k: "length busy = 3" using ring_length [OF b(1)] by simp
    then obtain c n bs where busy: "busy = (c, n) # bs" by (cases busy) auto
    have v0: "view ?e ! 0 = (Some c, n, False)" using b(1) busy by (simp add: ring_def busy_slot_def)
    have w0: "?w = (h_cache_read_index ?e + int 0) mod 3" using w k by simp
    have "aget (h_cache_write_ready ?e) ?w = Some False" using view_slot(3) [OF sh _ v0 w0] by simp
    then have "seg_test seg s = Next (s\<lparr>s_sink := S_Full seg\<rparr>)"
      using ok(1) by (simp add: seg_test_def next_of_def seg_must_wait_def)
    moreover have "sinv ?e (S_Full seg) (s_loop s) acc m" by (rule sinvI) (use b in auto)
    ultimately show ?thesis by simp
  next
    case (Cons x free')
    obtain c n where x: "x = (c, n)" by (cases x)
    have k: "length busy < 3" using ring_length [OF b(1)] Cons by simp
    have "view ?e ! length busy = (Some c, n, True)" using b(1) Cons x by (simp add: ring_def free_slot_def nth_append)
    then have "aget (h_cache_write_ready ?e) ?w = Some True" using view_slot(3) [OF sh k _ w] by simp
    then have nw: "seg_must_wait ?e = Some False" using ok(1) by (simp add: seg_must_wait_def)
    have stop: "0 < seg_stop seg" "seg_stop seg < 2 ^ 32" using ok(3) by (auto simp: seg_ok_def)
    from ring_reserve [OF b(1) [unfolded Cons x] w stop] obtain e' where
      e': "seg_commit seg ?e = Some e'" "ring e' (busy @ [(cache_rewind c, seg_stop seg)]) free'"
        "h_out e' = h_out ?e @ [Msg_Resume]" "h_cache_read_index e' = h_cache_read_index ?e"
        "h_cache_write_index e' = ?w" "h_srcresult e' = h_srcresult ?e" by blast
    have c: "cache_ok c" using b(1) Cons x by (auto simp: ring_def)
    then have rw: "c_write_position (cache_rewind c) = 0" "pending_bytes (cache_rewind c) = []"
      using fc.reset [of c] by (simp_all add: cache_rewind_eq)
    have "sinv e' S_Idle (s_loop s) acc (seg_stop seg)"
    proof (rule sinvI [OF e'(2)])
      show "segs (busy @ [(cache_rewind c, seg_stop seg)]) (seg_stop seg)"
        using b(2) ok(2) rw(1) by (intro segs_commit) auto
      show "index_inv S_Idle (h_cache_write_index e') (h_cache_read_index e') (length (busy @ [(cache_rewind c, seg_stop seg)]))"
      proof -
        have "(x + int (length busy + 1) + 2) mod 3 = (x + int (length busy)) mod 3" for x :: int by presburger
        then show ?thesis using w e'(4,5) by simp
      qed
    qed (use b e' rw stop ok(1) in auto)
    moreover have "seg_test seg s = Next (s\<lparr>s_hls := e', s_sink := S_Idle\<rparr>)"
      using nw e'(1) by (simp add: seg_test_def next_of_def)
    ultimately show ?thesis by simp
  qed
qed

abbreviation sys_inv :: "sys \<Rightarrow> int list \<Rightarrow> int \<Rightarrow> bool" where
  "sys_inv s \<equiv> sinv (s_hls s) (s_sink s) (s_loop s)"

lemma sinv_signal_add: "sinv e sink loop acc m \<Longrightarrow> s_hls s = e \<Longrightarrow> s_sink s = sink \<Longrightarrow> s_loop s = loop \<Longrightarrow> sys_inv (signal_add s) acc m"
  by (cases loop) (auto simp: signal_add_def sinv_def)

lemma signal_del_eq: "signal_del s = s\<lparr>s_sink := woken (s_sink s)\<rparr>"
  by (cases "s_sink s") (auto simp: signal_del_def)


lemma sys_inv_step:
  assumes "sys_inv s acc m" "allowed a s m" "sys_step a s = Next s'" "ghost a s s' (acc, m) = (acc', m')"
  shows "sys_inv s' acc' m'"
proof -
  from assms(1) have f: "0 \<le> m" "h_srcresult (s_hls s) = FLOW_OK \<or> h_is_eos (s_hls s)" "sink_inv (s_sink s) (h_is_eos (s_hls s)) m"
    by (auto simp: sinv_def)
  note frame = sinv_frame [OF assms(1)]
  show ?thesis
  proof (cases a)
    case (A_Chain data)
    have "sys_inv (s\<lparr>s_sink := S_Chain data\<rparr>) acc m" if "s_sink s = S_Idle" "\<not> h_is_eos (s_hls s)"
      using that f assms(2) A_Chain by (auto intro!: frame)
    with assms A_Chain show ?thesis by (auto split: if_splits)
  next
    case (A_Write mapped n)
    then obtain data where d: "s_sink s = S_Chain data" using assms(3) by (cases "s_sink s") auto
    from sinv_write [of "s_hls s" data "s_loop s" acc m] assms(1) d obtain e' where
      e': "chain_locked True (int (length data)) data (s_hls s) = Some e'"
        "sinv e' S_Idle (s_loop s) (acc @ data) (m - int (length data))" by auto
    have "h_srcresult (s_hls s) = FLOW_OK" using f d by auto
    then have "s' = signal_add (s\<lparr>s_hls := e', s_sink := S_Idle\<rparr>)" "acc' = acc @ data" "m' = m - int (length data)"
      using assms(2-4) A_Write d e'(1) by (auto simp: next_of_def)
    with sinv_signal_add [OF e'(2), of "s\<lparr>s_hls := e', s_sink := S_Idle\<rparr>"] show ?thesis by simp
  next
    case (A_Segment seg)
    have "sinv (s_hls s) (S_Checked seg) (s_loop s) acc m" if "s_sink s = S_Idle"
      by (intro frame) (use that f assms(2) A_Segment in auto)
    with assms A_Segment show ?thesis by (auto split: if_splits)
  next
    case (A_Prepare linked)
    then obtain seg where sg: "s_sink s = S_Checked seg" using assms(3) by (cases "s_sink s") auto
    obtain go e' where pr: "seg_prepare linked seg (s_hls s) = (go, e')" by fastforce
    have seg: "m = 0" "seg_ok seg" using f(3) sg by auto
    then have "(seg_stop seg - seg_start seg) mod 2 ^ 64 = seg_stop seg" by (auto simp: seg_ok_def)
    then have go: "go" "h_is_eos e' = False" "h_srcresult e' = FLOW_OK"
      using pr seg f(2) by (auto simp: seg_prepare_def Let_def seg_ok_def emit_def split: if_splits)
    have "sinv e' (S_Prepared seg) (s_loop s) acc m"
      using pr seg go sg
      by (intro frame) (auto simp: seg_prepare_def Let_def emit_def split: if_splits)
    then show ?thesis using assms(3,4) A_Prepare sg pr go by auto
  next
    case A_Acquire
    then obtain seg where sg: "s_sink s = S_Prepared seg" using assms(3) by (cases "s_sink s") auto
    with sinv_advance [of "s_hls s" seg "s_loop s" acc m] assms(1)
    have "sinv (s_hls (s\<lparr>s_hls := seg_advance (s_hls s)\<rparr>)) (S_Woken seg) (s_loop (s\<lparr>s_hls := seg_advance (s_hls s)\<rparr>)) acc m" by simp
    from sinv_test [OF this] show ?thesis using assms(3,4) A_Acquire sg by auto
  next
    case A_Message
    then obtain seg where sg: "s_sink s = S_Full seg" using assms(3) by (cases "s_sink s") auto
    have "sinv (emit Msg_Full (s_hls s)) (S_Wait seg) (s_loop s) acc m"
      using f sg by (intro frame) (auto simp: emit_def)
    then show ?thesis using assms(3,4) A_Message sg by auto
  next
    case A_Recheck
    then obtain seg where sg: "s_sink s = S_Woken seg" using assms(3) by (cases "s_sink s") auto
    have "h_srcresult (s_hls s) = FLOW_OK" using f sg by auto
    with sinv_test [of s seg acc m] assms(1,3,4) A_Recheck sg show ?thesis by auto
  next
    case A_Eos
    have "sinv (eos_event (s_hls s)) (s_sink s) (s_loop s) acc m" if "s_sink s = S_Idle"
      using that by (intro frame) (auto simp: eos_event_def emit_def)
    with assms(3,4) A_Eos sinv_signal_add show ?thesis by (auto split: if_splits)
  next
    case (A_Read al n w)
    then have al: "al" "w" "0 < n" using assms(2) by auto
    have h: "held (s_loop s) = []" using assms(3) A_Read by (auto split: if_splits)
    from sinv_read [OF assms(1) h al(3) refl] assms(3,4) A_Read al show ?thesis
      by (auto simp: Let_def signal_del_eq split: option.splits loop_res.splits if_splits)
  next
    case (A_Push r)
    then obtain bs pts where lp: "s_loop s = L_Push bs pts" using assms(3) by (cases "s_loop s") auto
    have "r = FLOW_OK" using assms(2) A_Push by simp
    then have "sinv (loop_pushed bs pts r (s_hls s)) (s_sink s) L_Top acc m"
      using f lp by (intro frame) (auto simp: loop_pushed_def Let_def emit_def split: option.splits)
    then show ?thesis using assms(3,4) A_Push lp by auto
  next
    case (A_Activate active linked)
    have "sinv (hls_progress_buffer_activatepush_src True linked (s_hls s)) (s_sink s) (s_loop s) acc m"
      using f by (intro frame) (auto simp: hls_progress_buffer_activatepush_src_def)
    then show ?thesis using assms(2-4) A_Activate by (auto simp: Let_def)
  qed (use assms in auto)
qed

lemma streaming_inv: "streaming s acc m \<Longrightarrow> sys_inv s acc m"
proof (induction rule: streaming.induct)
  case start
  have "ring (s_hls hls_start) [] [(new_cache, 0), (new_cache, 0), (new_cache, 0)]"
    using cache_ok_new by (simp add: ring_def shape_def view_def slots_def hls_start_def hls_progress_buffer_init_def free_slot_def)
  then show ?case
    by (rule sinvI) (auto simp: hls_start_def hls_progress_buffer_init_def)
qed (rule sys_inv_step)


lemma streaming_no_crash:
  assumes "sys_inv s acc m" "allowed a s m"
  shows "sys_step a s \<noteq> Crash"
proof (cases a)
  case (A_Write mapped n)
  show ?thesis
  proof (cases "s_sink s")
    case (S_Chain data)
    with sinv_write [of "s_hls s" data "s_loop s" acc m] assms A_Write show ?thesis by (auto simp: next_of_def Let_def)
  qed (use A_Write in auto)
next
  case A_Acquire
  show ?thesis
  proof (cases "s_sink s")
    case (S_Prepared seg)
    with sinv_advance [of "s_hls s" seg "s_loop s" acc m] assms(1)
    have "sinv (s_hls (s\<lparr>s_hls := seg_advance (s_hls s)\<rparr>)) (S_Woken seg) (s_loop (s\<lparr>s_hls := seg_advance (s_hls s)\<rparr>)) acc m" by simp
    from sinv_test [OF this] show ?thesis using A_Acquire S_Prepared by auto
  qed (use A_Acquire in auto)
next
  case A_Recheck
  show ?thesis
  proof (cases "s_sink s")
    case (S_Woken seg)
    with sinv_test [of s seg acc m] assms(1) A_Recheck show ?thesis by auto
  qed (use A_Recheck in auto)
next
  case (A_Read al n w)
  show ?thesis
  proof (cases "held (s_loop s) = []")
    case True
    with sinv_read [OF assms(1) True _ refl, of n] assms(2) A_Read show ?thesis
      by (auto simp: Let_def split: option.splits loop_res.splits)
  next
    case False
    then show ?thesis using A_Read by (cases "s_loop s") auto
  qed
qed (auto split: sink_pc.splits loop_pc.splits prod.splits simp: Let_def)

text \<open>
  C6: the HLS buffer is a lossless channel. In every interleaving of the writing and the reading
  thread, for a stream that follows the segment protocol, what has been pushed downstream is a prefix
  of what was received: nothing is lost, repeated, reordered or taken from an older segment, and what
  is missing is exactly what the reader holds and what is still pending in the caches; no access is
  out of bounds.
\<close>

theorem hls_stream_in_order:
  assumes "streaming s acc m"
  shows "\<exists>busy free. acc = out_bytes (h_out (s_hls s)) @ held (s_loop s) @ queued busy \<and> ring (s_hls s) busy free
    \<and> (\<forall>a. allowed a s m \<longrightarrow> sys_step a s \<noteq> Crash)"
  using streaming_inv [OF assms] streaming_no_crash [OF streaming_inv [OF assms]] unfolding sinv_def by blast

text \<open>A step by step construction of streams, for the concrete instances.\<close>

fun stream_run :: "act list \<Rightarrow> sys \<Rightarrow> int list \<times> int \<Rightarrow> (sys \<times> int list \<times> int) option" where
  "stream_run [] s g = Some (s, g)"
| "stream_run (a # as) s g =
     (if allowed a s (snd g) then (case sys_step a s of Next s' \<Rightarrow> stream_run as s' (ghost a s s' g) | _ \<Rightarrow> None) else None)"

lemma stream_run_streaming:
  "stream_run as s (acc, m) = Some (s', acc', m') \<Longrightarrow> streaming s acc m \<Longrightarrow> streaming s' acc' m'"
proof (induction as arbitrary: s acc m)
  case (Cons a as)
  then obtain s1 where s1: "allowed a s m" "sys_step a s = Next s1" "stream_run as s1 (ghost a s s1 (acc, m)) = Some (s', acc', m')"
    by (auto split: if_splits outcome.splits)
  obtain acc1 m1 where g: "ghost a s s1 (acc, m) = (acc1, m1)" by fastforce
  with Cons.IH [of s1 acc1 m1] s1 streaming.step [OF Cons.prems(2) s1(1,2) g] show ?case by simp
qed simp

definition sample_stream :: "act list" where
  "sample_stream = A_Activate True True # put_seg 1 @ put_seg 2 @ take_seg"

lemma sample_streaming:
  "\<exists>s. streaming s [1, 2] 0 \<and> out_bytes (h_out (s_hls s)) = [1] \<and> s_loop s = L_Top"
proof -
  have "case stream_run sample_stream hls_start ([], 0) of None \<Rightarrow> False
      | Some (s, g) \<Rightarrow> g = ([1, 2], 0) \<and> out_bytes (h_out (s_hls s)) = [1] \<and> s_loop s = L_Top" by code_simp
  then obtain s where "stream_run sample_stream hls_start ([], 0) = Some (s, [1, 2], 0)"
    "out_bytes (h_out (s_hls s)) = [1]" "s_loop s = L_Top" by (auto split: option.splits)
  with stream_run_streaming [OF _ streaming.start] show ?thesis by blast
qed

theorem hls_stream_in_order_witness:
  "\<exists>(s :: sys) busy free. [1, 2] = out_bytes (h_out (s_hls s)) @ held (s_loop s) @ queued busy \<and> ring (s_hls s) busy free
     \<and> out_bytes (h_out (s_hls s)) = [1]"
proof -
  obtain s where s: "streaming s [1, 2] 0" "out_bytes (h_out (s_hls s)) = [1]" using sample_streaming by blast
  from hls_stream_in_order [OF s(1)] obtain busy free where
    "[1, 2] = out_bytes (h_out (s_hls s)) @ held (s_loop s) @ queued busy" "ring (s_hls s) busy free" by blast
  with s(2) show ?thesis by blast
qed

text \<open>
  the end of the stream is announced last. When the source task sends EOS, every byte that was
  received has been pushed downstream.
\<close>

theorem hls_eos_after_data:
  assumes "streaming s acc m" "allowed (A_Read al n w) s m" "sys_step (A_Read al n w) s = Next s'"
    and "h_out (s_hls s') = h_out (s_hls s) @ [Out_EOS]"
  shows "out_bytes (h_out (s_hls s')) = acc"
proof -
  let ?e = "s_hls s"
  from streaming_inv [OF assms(1)] obtain busy free where b: "ring ?e busy free" "segs busy m"
    "acc = out_bytes (h_out ?e) @ held (s_loop s) @ queued busy" "0 \<le> m" by (rule sinvE)
  have h: "held (s_loop s) = []" using assms(3) by (auto split: if_splits)
  from ring_head [OF b(1)] obtain c where c: "the_cache ?e (h_cache_read_index ?e) = Some c" "cache_ok c"
    "if busy = [] then pending_bytes c = [] else fst (hd busy) = c" by blast
  have "\<not> cache_has_enough_data c"
  proof
    assume "cache_has_enough_data c"
    with assms(2-4) c(1) show False
      by (auto simp: loop_locked_def Let_def emit_def set_cache_def loop_stopped_def
          split: if_splits option.splits prod.splits bind_splits)
  qed
  then have p: "pending_bytes c = []" using fc.ready [OF c(2)] by blast
  have "queued busy = []"
  proof (cases busy)
    case (Cons x bs)
    obtain n where x: "x = (c, n)" using c(3) Cons by (cases x) auto
    have "c_read_position c < n" using b(1) Cons x by (auto simp: ring_def)
    moreover have "c_write_position c \<le> c_read_position c" using \<open>\<not> cache_has_enough_data c\<close> by (simp add: cache_has_enough_data_def)
    ultimately have "bs = []" using b(2) Cons x by (cases bs) auto
    with Cons x p show ?thesis by simp
  qed simp
  with b(3) h assms(4) show ?thesis by simp
qed


theorem hls_eos_after_data_witness:
  "\<exists>(s :: sys) s'. sys_step (A_Read True 1 True) s = Next s' \<and> out_bytes (h_out (s_hls s')) = [1]
     \<and> last (h_out (s_hls s')) = Out_EOS"
proof -
  have "case stream_run (A_Activate True True # put_seg 1 @ take_seg @ [A_Eos]) hls_start ([], 0) of None \<Rightarrow> False
      | Some (s, g) \<Rightarrow> g = ([1], 0) \<and> (case sys_step (A_Read True 1 True) s of Next s' \<Rightarrow>
            h_out (s_hls s') = h_out (s_hls s) @ [Out_EOS] | _ \<Rightarrow> False)" by code_simp
  then obtain s s' where "stream_run (A_Activate True True # put_seg 1 @ take_seg @ [A_Eos]) hls_start ([], 0) = Some (s, [1], 0)"
    and st: "sys_step (A_Read True 1 True) s = Next s'" "h_out (s_hls s') = h_out (s_hls s) @ [Out_EOS]"
    by (auto split: option.splits outcome.splits simp del: sys_step.simps stream_run.simps)
  then have "streaming s [1] 0" using stream_run_streaming [OF _ streaming.start] by blast
  from hls_eos_after_data [OF this _ st] have "out_bytes (h_out (s_hls s')) = [1]" by simp
  moreover have "last (h_out (s_hls s')) = Out_EOS" using st(2) by simp
  ultimately show ?thesis using st(1) by blast
qed

text \<open>
  A full ring is not a deadlock. While the writer waits and its next cache is still in use, so not marked as ready for writing,
  the cache under the reader holds data and the reader can go on. (A writer that waits although its next cache is free is not covered.)
\<close>

theorem hls_full_has_data:
  assumes "streaming s acc m" "s_sink s = S_Wait seg \<or> s_sink s = S_Full seg \<or> s_sink s = S_Woken seg"
    and "aget (h_cache_write_ready (s_hls s)) (h_cache_write_index (s_hls s)) = Some False"
  shows "\<exists>c. the_cache (s_hls s) (h_cache_read_index (s_hls s)) = Some c \<and> cache_has_enough_data c"
proof -
  let ?e = "s_hls s" and ?w = "h_cache_write_index (s_hls s)"
  from streaming_inv [OF assms(1)] obtain busy free where b: "ring ?e busy free" "segs busy m"
    "index_inv (s_sink s) ?w (h_cache_read_index ?e) (length busy)" "sink_inv (s_sink s) (h_is_eos ?e) m" by (rule sinvE)
  have w: "?w = (h_cache_read_index ?e + int (length busy)) mod 3" and m: "m = 0" using b(3,4) assms(2) by auto
  have sh: "shape ?e" using b(1) by (simp add: ring_def)
  have "free = []"
  proof (rule ccontr)
    assume "free \<noteq> []"
    then obtain c n fr where fr: "free = (c, n) # fr" by (cases free) auto
    have k: "length busy < 3" using ring_length [OF b(1)] fr by simp
    have "view ?e ! length busy = (Some c, n, True)" using b(1) fr by (simp add: ring_def free_slot_def nth_append)
    from view_slot(3) [OF sh k this w] assms(3) show False by simp
  qed
  then obtain c n bs where busy: "busy = (c, n) # bs" using ring_length [OF b(1)] by (cases busy) auto
  from ring_head [OF b(1)] busy have "the_cache ?e (h_cache_read_index ?e) = Some c" by auto
  moreover have "c_read_position c < n" using b(1) busy by (auto simp: ring_def)
  moreover have "c_write_position c = n" using b(2) m busy by (cases bs) auto
  ultimately show ?thesis by (simp add: cache_has_enough_data_def)
qed

theorem hls_full_has_data_witness:
  "\<exists>(s :: sys) c. s_sink s = S_Full seg1 \<and> the_cache (s_hls s) (h_cache_read_index (s_hls s)) = Some c \<and> cache_has_enough_data c"
proof -
  have "case stream_run full_ring hls_start ([], 0) of None \<Rightarrow> False
      | Some (s, g) \<Rightarrow> g = ([1, 2, 3], 0) \<and> s_sink s = S_Full seg1 \<and>
          aget (h_cache_write_ready (s_hls s)) (h_cache_write_index (s_hls s)) = Some False" by code_simp
  then obtain s where r: "stream_run full_ring hls_start ([], 0) = Some (s, [1, 2, 3], 0)" and s: "s_sink s = S_Full seg1"
    "aget (h_cache_write_ready (s_hls s)) (h_cache_write_index (s_hls s)) = Some False" by (auto split: option.splits)
  have "streaming s [1, 2, 3] 0" using stream_run_streaming [OF r streaming.start] .
  from hls_full_has_data [OF this _ s(2), of seg1] s(1) show ?thesis by blast
qed

end
