(* ===== verification/ProgressBuffer.thy ===== *)
theory ProgressBuffer
  imports FileCache
begin

text \<open>
  The progressive-download buffer of the media pipeline, \<open>progressbuffer/progressbuffer.c\<close>, built with
  \<open>ENABLE_PULL_MODE\<close> and \<open>ENABLE_SOURCE_SEEKING\<close> as all the project makefiles do. The upstream thread
  writes buffers and events into the element, the source task reads the cache and pushes downstream
  (push mode), or downstream pulls ranges (pull mode); a seek comes from an application thread.

  The record \<open>pb\<close> is \<open>struct _ProgressBuffer\<close> together with what GStreamer keeps for it: whether
  the source pad exists, whether its task runs, and the log \<open>p_out\<close> of everything pushed or posted.
  The fields of type \<open>double\<close> (\<open>threshold\<close>, \<open>last_update\<close>, \<open>bandwidth\<close>, \<open>prebuffer_time\<close>,
  \<open>wait_tolerance\<close>) only feed comparisons and one conversion to an integer; the results of these are
  arguments of the operations, so that every statement holds for all of them. A playback rate is
  only copied, as its bit pattern. Unsigned 64-bit values are \<open>int\<close> under \<open>u64\<close>. Answers of the
  operating system are arguments as in \<open>FileCache\<close>.
\<close>

section \<open>Data\<close>

definition u64 :: "int \<Rightarrow> int" where
  "u64 x = x mod 2 ^ 64"

definition NO_RANGE_REQUEST :: int where
  "NO_RANGE_REQUEST = -1"

definition EOS_SIGNAL_LIMIT :: int where
  "EOS_SIGNAL_LIMIT = 1"

text \<open>The fields of \<open>GstSegment\<close> the element uses; \<open>ps_bytes\<close> and \<open>ps_update\<close> are the tests of format and flag.\<close>

record pseg =
  ps_start :: int
  ps_stop :: int
  ps_position :: int
  ps_rate :: int
  ps_bytes :: bool
  ps_update :: bool

datatype pev = Ev_Eos | Ev_Segment pseg

datatype sink_ev = SE_Eos | SE_Segment pseg | SE_Serialized | SE_FlushStart | SE_FlushStop | SE_OutOfBand

datatype pb_out =
    PO_Buffer "int list" int
  | PO_Event pev
  | PO_Forward sink_ev
  | PO_FlushStart
  | PO_FlushStop
  | PO_SeekUpstream int int
  | PO_RangeReady
  | PM_Buffering int int int bool
  | PM_Underrun
  | PM_Error
  | PM_Warning

record pb =
  p_cache :: "cache option"
  p_pending :: "pev option"
  p_cache_read_offset :: int
  p_sink_segment :: pseg
  p_subtotal :: int
  p_unexpected :: bool
  p_srcresult :: flow
  p_eos :: bool
  p_signal_limit :: int
  p_instant_seek :: bool
  p_is_source_seeking :: bool
  p_range_start :: int
  p_range_stop :: int
  p_srcpad :: bool
  p_task :: bool
  p_monitor :: bool
  p_out :: "pb_out list"

definition post :: "pb_out \<Rightarrow> pb \<Rightarrow> pb" where
  "post x e = e\<lparr>p_out := p_out e @ [x]\<rparr>"

definition gst_segment_init :: pseg where
  "gst_segment_init = \<lparr>ps_start = 0, ps_stop = 2 ^ 64 - 1, ps_position = 0, ps_rate = 1, ps_bytes = True, ps_update = False\<rparr>"

section \<open>Operations\<close>

definition progress_buffer_flush_data :: "pb \<Rightarrow> pb" where
  "progress_buffer_flush_data e =
     e\<lparr>p_subtotal := 0, p_pending := None, p_sink_segment := gst_segment_init,
       p_range_start := NO_RANGE_REQUEST, p_range_stop := NO_RANGE_REQUEST\<rparr>"

text \<open>The fields that \<open>progress_buffer_init\<close> does not set are zero, as in every new object.\<close>

definition progress_buffer_init :: pb where
  "progress_buffer_init = progress_buffer_flush_data
     \<lparr>p_cache = None, p_pending = None, p_cache_read_offset = 0, p_sink_segment = gst_segment_init, p_subtotal = 0,
      p_unexpected = False, p_srcresult = FLOW_OK, p_eos = False, p_signal_limit = 0, p_instant_seek = False,
      p_is_source_seeking = False, p_range_start = 0, p_range_stop = 0, p_srcpad = False, p_task = False,
      p_monitor = False, p_out = []\<rparr>"

definition progress_buffer_set_pending_event :: "pev option \<Rightarrow> pb \<Rightarrow> pb" where
  "progress_buffer_set_pending_event new_event e = e\<lparr>p_pending := new_event\<rparr>"

definition reset_eos :: "bool \<Rightarrow> pb \<Rightarrow> pb" where
  "reset_eos clear_pending_event e =
     (let e = e\<lparr>p_eos := False, p_signal_limit := EOS_SIGNAL_LIMIT\<rparr>
      in if clear_pending_event then progress_buffer_set_pending_event None e else e)"

definition pending_eos :: "pb \<Rightarrow> bool \<times> pb" where
  "pending_eos e =
     (let result = p_eos e \<and> p_signal_limit e > 0
      in (result, if result then e\<lparr>p_signal_limit := p_signal_limit e - 1\<rparr> else e))"

text \<open>The activation functions: the result, whether \<open>add_cond\<close> is signalled, and the element.\<close>

definition progress_buffer_activatepull_src :: "bool \<Rightarrow> bool \<Rightarrow> pb \<Rightarrow> bool \<times> bool \<times> pb" where
  "progress_buffer_activatepull_src created active e =
     (if active then
        let e = (reset_eos False (e\<lparr>p_srcresult := FLOW_OK\<rparr>))\<lparr>p_unexpected := False\<rparr>;
            e = (if \<not> p_monitor e then e\<lparr>p_monitor := created\<rparr> else e)
        in (p_monitor e, False, e)
      else if p_monitor e then (True, True, e\<lparr>p_srcresult := FLOW_FLUSHING, p_monitor := False\<rparr>)
      else (True, False, e))"

definition progress_buffer_activatepush_src :: "bool \<Rightarrow> bool \<Rightarrow> pb \<Rightarrow> bool \<times> bool \<times> pb" where
  "progress_buffer_activatepush_src linked active e =
     (if active then
        let e = (reset_eos False (e\<lparr>p_srcresult := FLOW_OK\<rparr>))\<lparr>p_unexpected := False\<rparr>
        in if linked then (True, False, e\<lparr>p_task := True\<rparr>) else (False, False, e)
      else (True, True, e\<lparr>p_srcresult := FLOW_FLUSHING, p_task := False\<rparr>))"

datatype pad_mode = MODE_NONE | MODE_PUSH | MODE_PULL

definition progress_buffer_activatemode :: "bool \<Rightarrow> bool \<Rightarrow> pad_mode \<Rightarrow> bool \<Rightarrow> pb \<Rightarrow> bool \<times> bool \<times> pb" where
  "progress_buffer_activatemode linked created mode active e =
     (case mode of
        MODE_PUSH \<Rightarrow> progress_buffer_activatepush_src linked active e
      | MODE_PULL \<Rightarrow> progress_buffer_activatepull_src created active e
      | MODE_NONE \<Rightarrow> (False, False, e))"

text \<open>Adding the source pad activates it, in the mode downstream has asked for.\<close>

definition progress_buffer_create_sourcepad :: "bool \<Rightarrow> bool \<Rightarrow> pad_mode \<Rightarrow> pb \<Rightarrow> pb" where
  "progress_buffer_create_sourcepad linked created mode e =
     snd (snd (progress_buffer_activatemode linked created mode True (e\<lparr>p_srcpad := True\<rparr>)))"

definition send_position_message :: "bool \<Rightarrow> bool \<Rightarrow> pb \<Rightarrow> bool \<times> pb" where
  "send_position_message over mandatory e =
     (let mandatory = (mandatory \<or> over);
          seg = p_sink_segment e
      in (mandatory, if mandatory then post (PM_Buffering (ps_start seg) (ps_position seg) (ps_stop seg) (p_eos e)) e else e))"

definition send_underrun_message :: "pb \<Rightarrow> pb" where
  "send_underrun_message e = post PM_Underrun e"

text \<open>
  \<open>progress_buffer_enqueue_item\<close> on a buffer and on an event: the result, whether the condition is
  signalled, and the element. \<open>over\<close> is the test of the message threshold, \<open>second\<close> the test that
  more than a second has passed, \<open>fresh\<close> what \<open>create_cache\<close> answers.
\<close>

definition enqueue_buffer ::
    "bool \<Rightarrow> bool \<Rightarrow> bool \<Rightarrow> int \<Rightarrow> int \<Rightarrow> int list \<Rightarrow> pb \<Rightarrow> (flow \<times> bool \<times> pb) option" where
  "enqueue_buffer over second mapped n offset data e =
     (let sz = int (length data);
          seg = (p_sink_segment e)\<lparr>ps_position := u64 (offset + sz)\<rparr>;
          e = e\<lparr>p_sink_segment := seg\<rparr>
      in if ps_stop seg < ps_position seg then Some (FLOW_ERROR, False, e)
         else
           do { c \<leftarrow> p_cache e;
                let e = e\<lparr>p_cache := Some (cache_write_buffer mapped n data c),
                          p_subtotal := if second then 0 else u64 (p_subtotal e + sz)\<rparr>;
                let (signal, e) = send_position_message over False e;
                Some (FLOW_OK, signal, e) })"

definition enqueue_event :: "bool \<Rightarrow> cache option \<Rightarrow> sink_ev \<Rightarrow> pb \<Rightarrow> (flow \<times> bool \<times> pb) option" where
  "enqueue_event over fresh ev e =
     (case ev of
        SE_Eos \<Rightarrow>
          let e = e\<lparr>p_eos := True\<rparr>;
              seg = p_sink_segment e;
              e = (if ps_position seg < ps_stop seg then e\<lparr>p_sink_segment := seg\<lparr>ps_stop := ps_position seg\<rparr>\<rparr> else e);
              e = progress_buffer_set_pending_event None e;
              (signal, e) = send_position_message over True e
          in Some (FLOW_OK, signal, e)
      | SE_Segment seg \<Rightarrow>
          let e = e\<lparr>p_unexpected := False\<rparr>
          in if \<not> ps_bytes seg then Some (FLOW_ERROR, False, post PM_Error e)
             else if u64 (ps_stop seg - ps_start seg) \<le> 0 then Some (FLOW_ERROR, False, post PM_Error e)
             else if ps_update seg \<and> fresh = None then Some (FLOW_ERROR, False, post PM_Error (e\<lparr>p_cache := None\<rparr>))
             else
               do { e \<leftarrow> (if ps_update seg then Some (e\<lparr>p_cache := fresh\<rparr>)
                          else do { c \<leftarrow> p_cache e;
                                    let c = snd (cache_set_write_position 0 c);
                                    let c = snd (cache_set_read_position 0 c);
                                    Some (e\<lparr>p_cache := Some c, p_cache_read_offset := i64 (ps_start seg)\<rparr>) });
                    let e = e\<lparr>p_sink_segment := seg\<rparr>;
                    let e = progress_buffer_set_pending_event (Some (Ev_Segment seg)) e;
                    let (signal, e) = send_position_message over True (e\<lparr>p_instant_seek := True\<rparr>);
                    Some (FLOW_OK, signal, e) }
      | _ \<Rightarrow> Some (FLOW_OK, False, e))"

definition progress_buffer_chain ::
    "bool \<Rightarrow> bool \<Rightarrow> bool \<Rightarrow> int \<Rightarrow> int \<Rightarrow> int list \<Rightarrow> pb \<Rightarrow> (flow \<times> bool \<times> pb) option" where
  "progress_buffer_chain over second mapped n offset data e =
     (if p_eos e \<or> p_unexpected e then Some (FLOW_EOS, False, e)
      else enqueue_buffer over second mapped n offset data e)"

text \<open>\<open>GST_EVENT_IS_SERIALIZED\<close>.\<close>

fun serialized :: "sink_ev \<Rightarrow> bool" where
  "serialized SE_FlushStart = False"
| "serialized SE_OutOfBand = False"
| "serialized _ = True"

definition progress_buffer_sink_event :: "bool \<Rightarrow> cache option \<Rightarrow> sink_ev \<Rightarrow> pb \<Rightarrow> (bool \<times> bool \<times> pb) option" where
  "progress_buffer_sink_event over fresh ev e =
     (if p_is_source_seeking e \<and> (ev = SE_FlushStart \<or> ev = SE_FlushStop) then Some (True, False, e)
      else if serialized ev \<and> ev \<noteq> SE_FlushStop then
        if p_eos e then Some (False, False, e)
        else do { (_, signal, e) \<leftarrow> enqueue_event over fresh ev e; Some (True, signal, e) }
      else Some (p_srcpad e, False, if p_srcpad e then post (PO_Forward ev) e else e))"

text \<open>
  The critical section of \<open>progress_buffer_loop\<close> from the label \<open>next_item\<close> on: wait, go back to the
  label (in skip mode, with the lock held), push an event with a result, push a buffer, or return.
\<close>

datatype ploop =
    PL_Wait pb
  | PL_Again bool pb
  | PL_Event pev flow pb
  | PL_Buffer "int list" int pb
  | PL_Return flow pb

definition loop_section :: "bool \<Rightarrow> int \<Rightarrow> bool \<Rightarrow> bool \<Rightarrow> pb \<Rightarrow> ploop option" where
  "loop_section alloc n wrapped skip e =
     (if p_srcresult e \<noteq> FLOW_OK then
        Some (if skip then PL_Return FLOW_OK (e\<lparr>p_unexpected := True\<rparr>) else PL_Return (p_srcresult e) e)
      else case p_pending e of
        Some ev \<Rightarrow>
          let e = progress_buffer_set_pending_event None e;
              result = (case ev of Ev_Eos \<Rightarrow> FLOW_EOS | Ev_Segment _ \<Rightarrow> FLOW_OK)
          in Some (PL_Event ev result (e\<lparr>p_srcresult := result\<rparr>))
      | None \<Rightarrow>
          do { c \<leftarrow> p_cache e;
               if \<not> cache_has_enough_data c \<or> \<not> p_instant_seek e
               then Some (PL_Wait (if p_instant_seek e then send_underrun_message e else e))
               else
                 do { let (read_position, buffer, c) = cache_read_buffer alloc n wrapped c;
                      let e = e\<lparr>p_cache := Some c\<rparr>;
                      let read_position = u64 (read_position + p_cache_read_offset e);
                      buffer \<leftarrow> buffer;
                      let offset = u64 (read_position - int (length (b_data buffer)));
                      let e = (if read_position = ps_stop (p_sink_segment e)
                               then progress_buffer_set_pending_event (Some Ev_Eos) e else e);
                      Some (if skip then PL_Again True e else PL_Buffer (b_data buffer) offset e) } })"

text \<open>After the push of a buffer that did not end in skip mode, and the end of the function.\<close>

definition loop_end :: "flow \<Rightarrow> pb \<Rightarrow> pb" where
  "loop_end result e = (if result \<noteq> FLOW_OK then e\<lparr>p_task := False\<rparr> else e)"

definition loop_pushed_buffer :: "flow \<Rightarrow> pb \<Rightarrow> pb" where
  "loop_pushed_buffer result e = loop_end result (e\<lparr>p_srcresult := result\<rparr>)"

text \<open>
  \<open>progress_buffer_perform_push_seek\<close> in its parts: the checks, the signal that stops the task, the
  section under the stream lock, the seek sent upstream and the end. \<open>near\<close> is the comparison with
  \<open>bandwidth * wait_tolerance\<close>.
\<close>

record seek =
  k_bytes :: bool
  k_set :: bool
  k_stop_none :: bool
  k_flush :: bool
  k_position :: int
  k_rate :: int

definition seek_check :: "seek \<Rightarrow> pb \<Rightarrow> bool \<times> pb" where
  "seek_check k e =
     (if \<not> k_bytes k \<or> \<not> k_set k then (False, e)
      else if \<not> k_stop_none k then (False, post PM_Warning e)
      else (True, if k_flush k then post PO_FlushStart e else e))"

definition seek_stop_task :: "pb \<Rightarrow> pb" where
  "seek_stop_task e = e\<lparr>p_srcresult := FLOW_FLUSHING\<rparr>"

text \<open>Moves the read position and leaves the new segment to be pushed.\<close>

definition seek_in_cache :: "seek \<Rightarrow> pb \<Rightarrow> pb option" where
  "seek_in_cache k e =
     do { c \<leftarrow> p_cache e;
          let c = snd (cache_set_read_position (i64 (k_position k - p_cache_read_offset e)) c);
          let segment = gst_segment_init\<lparr>ps_rate := k_rate k, ps_start := u64 (k_position k),
                          ps_stop := ps_stop (p_sink_segment e), ps_position := u64 (k_position k)\<rparr>;
          Some (progress_buffer_set_pending_event (Some (Ev_Segment segment)) (e\<lparr>p_cache := Some c\<rparr>)) }"

definition seek_locked :: "bool \<Rightarrow> seek \<Rightarrow> pb \<Rightarrow> pb option" where
  "seek_locked near k e =
     (let e = e\<lparr>p_srcresult := FLOW_OK,
                p_instant_seek := u64 (k_position k) \<ge> ps_start (p_sink_segment e) \<and> near\<rparr>
      in if p_instant_seek e then seek_in_cache k e else Some (reset_eos True e))"

definition seek_source_begin :: "seek \<Rightarrow> pb \<Rightarrow> pb" where
  "seek_source_begin k e = post (PO_SeekUpstream (k_rate k) (k_position k)) (e\<lparr>p_is_source_seeking := True\<rparr>)"

definition seek_source_end :: "bool \<Rightarrow> seek \<Rightarrow> pb \<Rightarrow> pb option" where
  "seek_source_end handled k e =
     do { e \<leftarrow> (if handled then Some e else seek_in_cache k (e\<lparr>p_instant_seek := True\<rparr>));
          Some (e\<lparr>p_is_source_seeking := False\<rparr>) }"

definition seek_finish :: "seek \<Rightarrow> pb \<Rightarrow> pb" where
  "seek_finish k e = (if k_flush k then post PO_FlushStop e else e)\<lparr>p_task := True\<rparr>"

text \<open>Pull mode.\<close>

definition VALID_RANGE :: "int \<Rightarrow> bool" where
  "VALID_RANGE value \<longleftrightarrow> value \<noteq> NO_RANGE_REQUEST"

definition pending_range_start :: "pb \<Rightarrow> bool" where
  "pending_range_start e \<longleftrightarrow> VALID_RANGE (p_range_start e) \<and> ps_start (p_sink_segment e) > u64 (p_range_start e)"

definition pending_range_stop :: "pb \<Rightarrow> bool" where
  "pending_range_stop e \<longleftrightarrow> VALID_RANGE (p_range_stop e) \<and> ps_position (p_sink_segment e) < u64 (p_range_stop e)"

text \<open>
  One turn of \<open>progress_buffer_range_monitor\<close> from the label \<open>check_loop\<close>: wait, announce the range
  and come back, or end the thread.
\<close>

datatype monitor_res = MR_Wait pb | MR_Ready pb | MR_Exit pb

definition progress_buffer_range_monitor :: "pb \<Rightarrow> monitor_res" where
  "progress_buffer_range_monitor e =
     (let (pe, e) = (if p_srcresult e = FLOW_OK then pending_eos e else (False, e))
      in if p_srcresult e = FLOW_OK \<and> \<not> pe \<and>
            (pending_range_start e \<or> pending_range_stop e \<or>
             \<not> VALID_RANGE (p_range_start e) \<and> \<not> VALID_RANGE (p_range_stop e))
         then MR_Wait e
         else if p_srcresult e = FLOW_OK \<and> (VALID_RANGE (p_range_start e) \<or> VALID_RANGE (p_range_stop e))
         then MR_Ready (post PO_RangeReady (e\<lparr>p_range_stop := NO_RANGE_REQUEST, p_range_start := NO_RANGE_REQUEST\<rparr>))
         else MR_Exit e)"

text \<open>
  \<open>progress_buffer_getrange\<close>; \<open>prebuffer\<close> is \<open>bandwidth * prebuffer_time\<close> as an integer, \<open>far\<close> the
  comparison that asks for a seek of the source.
\<close>

definition progress_buffer_getrange ::
    "bool \<Rightarrow> int \<Rightarrow> bool \<Rightarrow> int \<Rightarrow> bool \<Rightarrow> int \<Rightarrow> int \<Rightarrow> pb \<Rightarrow> (flow \<times> gbuf option \<times> pb) option" where
  "progress_buffer_getrange alloc n wrapped prebuffer far start_position sz e =
     (let end_position = u64 (start_position + sz);
          seg = p_sink_segment e
      in if ps_stop seg < end_position then Some (FLOW_EOS, None, e)
         else if ps_start seg \<le> start_position \<and> ps_position seg \<ge> end_position then
           do { c \<leftarrow> p_cache e;
                let (result, buffer, c) = cache_read_buffer_from_position alloc n wrapped (i64 start_position) sz c;
                Some (result, buffer, e\<lparr>p_cache := Some c\<rparr>) }
         else
           let needs_seeking = ps_start seg > start_position;
               e = (if needs_seeking then reset_eos True (e\<lparr>p_range_start := i64 start_position\<rparr>) else e);
               (needs_seeking, e) =
                 (if ps_position seg < end_position then
                    let stop = i64 (end_position + prebuffer)
                    in (far, e\<lparr>p_range_stop := if ps_stop seg < u64 stop then i64 (ps_stop seg) else stop\<rparr>)
                  else (needs_seeking, e));
               e = send_underrun_message e
           in Some (FLOW_FLUSHING, None,
                    if needs_seeking then post (PO_SeekUpstream (ps_rate seg) (i64 start_position)) e else e))"

text \<open>The transition \<open>PAUSED_TO_READY\<close>, after the parent class has accepted it; it signals the condition.\<close>

definition progress_buffer_change_state :: "pb \<Rightarrow> pb" where
  "progress_buffer_change_state e = progress_buffer_flush_data (e\<lparr>p_srcresult := FLOW_FLUSHING\<rparr>)"

section \<open>The threads of push mode\<close>

text \<open>
  Upstream's thread delivers buffers and events, the source task runs \<open>progress_buffer_loop\<close>, and an
  application thread seeks. Each step is one critical section, or one call into GStreamer between two
  of them. A running task holds the stream lock of the pad also between two iterations, as \<open>GstTask\<close>
  does, so that a seek gets it only when the task is paused. \<open>T_Next\<close> is the task at the label
  \<open>next_item\<close> with the element's lock held.
\<close>

datatype up_pc = U_Idle | U_Create

datatype task_pc =
    T_Top
  | T_Wait bool
  | T_Woken bool
  | T_Next bool
  | T_Event pev flow
  | T_Buffer "int list" int

datatype seek_pc =
    K_Idle
  | K_Stop seek
  | K_Join seek
  | K_Locked seek
  | K_Upstream seek
  | K_Finish seek

record psys =
  x_pb :: pb
  x_up :: up_pc
  x_task :: task_pc
  x_seek :: seek_pc

datatype pact =
    B_Chain bool bool bool int int "int list"
  | B_Create bool
  | B_Event bool "cache option" sink_ev
  | B_Seek seek
  | B_SeekStop
  | B_SeekJoin bool
  | B_SeekTest
  | B_SeekReply bool
  | B_SeekFinish
  | B_Task bool int bool
  | B_TaskEvent
  | B_TaskBuffer flow
  | B_Activate bool bool
  | B_ChangeState

datatype poutcome = P_Disabled | P_Crash | P_Next psys

definition pnext :: "psys option \<Rightarrow> poutcome" where
  "pnext r = (case r of None \<Rightarrow> P_Crash | Some s \<Rightarrow> P_Next s)"

definition signal_task :: "bool \<Rightarrow> psys \<Rightarrow> psys" where
  "signal_task signal s =
     (case x_task s of T_Wait skip \<Rightarrow> if signal then s\<lparr>x_task := T_Woken skip\<rparr> else s | _ \<Rightarrow> s)"

definition lock_free :: "psys \<Rightarrow> bool" where
  "lock_free s \<longleftrightarrow> x_task s \<noteq> T_Next True \<and> x_task s \<noteq> T_Next False"

definition stream_lock_of_seek :: "seek_pc \<Rightarrow> bool" where
  "stream_lock_of_seek k = (case k of K_Locked _ \<Rightarrow> True | K_Upstream _ \<Rightarrow> True | K_Finish _ \<Rightarrow> True | _ \<Rightarrow> False)"

text \<open>The task entering its critical section: from the top, woken, or back at the label.\<close>

definition task_entry :: "psys \<Rightarrow> bool option" where
  "task_entry s =
     (case x_task s of
        T_Top \<Rightarrow> if p_task (x_pb s) \<and> \<not> stream_lock_of_seek (x_seek s) then Some False else None
      | T_Woken skip \<Rightarrow> Some skip
      | T_Next skip \<Rightarrow> Some skip
      | _ \<Rightarrow> None)"

fun task_after :: "bool \<Rightarrow> ploop \<Rightarrow> psys \<Rightarrow> psys" where
  "task_after skip (PL_Wait e) s = s\<lparr>x_pb := e, x_task := T_Wait skip\<rparr>"
| "task_after _ (PL_Again skip e) s = s\<lparr>x_pb := e, x_task := T_Next skip\<rparr>"
| "task_after _ (PL_Event ev result e) s = s\<lparr>x_pb := e, x_task := T_Event ev result\<rparr>"
| "task_after _ (PL_Buffer bs offset e) s = s\<lparr>x_pb := e, x_task := T_Buffer bs offset\<rparr>"
| "task_after _ (PL_Return result e) s = s\<lparr>x_pb := loop_end result e, x_task := T_Top\<rparr>"

definition task_step :: "bool \<Rightarrow> int \<Rightarrow> bool \<Rightarrow> bool \<Rightarrow> psys \<Rightarrow> psys option" where
  "task_step alloc n wrapped skip s =
     do { r \<leftarrow> loop_section alloc n wrapped skip (x_pb s); Some (task_after skip r s) }"

fun pb_step :: "pact \<Rightarrow> psys \<Rightarrow> poutcome" where
  "pb_step (B_Chain over second mapped n offset data) s =
     (if x_up s = U_Idle \<and> lock_free s then
        pnext (do { (result, signal, e) \<leftarrow> progress_buffer_chain over second mapped n offset data (x_pb s);
                    let s = signal_task signal (s\<lparr>x_pb := e\<rparr>);
                    Some (if result \<noteq> FLOW_ERROR \<and> \<not> p_srcpad e then s\<lparr>x_up := U_Create\<rparr> else s) })
      else P_Disabled)"
| "pb_step (B_Create linked) s =
     (if x_up s = U_Create \<and> lock_free s
      then P_Next (s\<lparr>x_pb := progress_buffer_create_sourcepad linked False MODE_PUSH (x_pb s), x_up := U_Idle\<rparr>)
      else P_Disabled)"
| "pb_step (B_Event over fresh ev) s =
     (if x_up s = U_Idle \<and> lock_free s then
        pnext (do { (_, signal, e) \<leftarrow> progress_buffer_sink_event over fresh ev (x_pb s);
                    Some (signal_task signal (s\<lparr>x_pb := e\<rparr>)) })
      else P_Disabled)"
| "pb_step (B_Seek k) s =
     (if x_seek s = K_Idle \<and> p_srcpad (x_pb s) then
        (case seek_check k (x_pb s) of (go, e) \<Rightarrow> P_Next (s\<lparr>x_pb := e, x_seek := if go then K_Stop k else K_Idle\<rparr>))
      else P_Disabled)"
| "pb_step B_SeekStop s =
     (case x_seek s of K_Stop k \<Rightarrow>
        if lock_free s then P_Next (signal_task True (s\<lparr>x_pb := seek_stop_task (x_pb s), x_seek := K_Join k\<rparr>)) else P_Disabled
      | _ \<Rightarrow> P_Disabled)"
| "pb_step (B_SeekJoin near) s =
     (case x_seek s of K_Join k \<Rightarrow>
        if x_task s = T_Top \<and> \<not> p_task (x_pb s)
        then pnext (do { e \<leftarrow> seek_locked near k (x_pb s); Some (s\<lparr>x_pb := e, x_seek := K_Locked k\<rparr>) })
        else P_Disabled
      | _ \<Rightarrow> P_Disabled)"
| "pb_step B_SeekTest s =
     (case x_seek s of K_Locked k \<Rightarrow>
        P_Next (if p_instant_seek (x_pb s) then s\<lparr>x_seek := K_Finish k\<rparr>
                else s\<lparr>x_pb := seek_source_begin k (x_pb s), x_seek := K_Upstream k\<rparr>)
      | _ \<Rightarrow> P_Disabled)"
| "pb_step (B_SeekReply handled) s =
     (case x_seek s of K_Upstream k \<Rightarrow>
        pnext (do { e \<leftarrow> seek_source_end handled k (x_pb s); Some (s\<lparr>x_pb := e, x_seek := K_Finish k\<rparr>) })
      | _ \<Rightarrow> P_Disabled)"
| "pb_step B_SeekFinish s =
     (case x_seek s of K_Finish k \<Rightarrow> P_Next (s\<lparr>x_pb := seek_finish k (x_pb s), x_seek := K_Idle\<rparr>) | _ \<Rightarrow> P_Disabled)"
| "pb_step (B_Task alloc n wrapped) s =
     (case task_entry s of None \<Rightarrow> P_Disabled | Some skip \<Rightarrow> pnext (task_step alloc n wrapped skip s))"
| "pb_step B_TaskEvent s =
     (case x_task s of T_Event ev result \<Rightarrow>
        P_Next (s\<lparr>x_pb := loop_end result (post (PO_Event ev) (x_pb s)), x_task := T_Top\<rparr>)
      | _ \<Rightarrow> P_Disabled)"
| "pb_step (B_TaskBuffer result) s =
     (case x_task s of T_Buffer bs offset \<Rightarrow>
        let e = post (PO_Buffer bs offset) (x_pb s)
        in P_Next (if result = FLOW_EOS then s\<lparr>x_pb := e, x_task := T_Next True\<rparr>
                   else s\<lparr>x_pb := loop_pushed_buffer result e, x_task := T_Top\<rparr>)
      | _ \<Rightarrow> P_Disabled)"
| "pb_step (B_Activate linked active) s =
     (if p_srcpad (x_pb s) \<and> lock_free s then
        (case progress_buffer_activatemode linked False MODE_PUSH active (x_pb s) of
           (_, signal, e) \<Rightarrow> P_Next (signal_task signal (s\<lparr>x_pb := e\<rparr>)))
      else P_Disabled)"
| "pb_step B_ChangeState s =
     (if lock_free s then P_Next (signal_task True (s\<lparr>x_pb := progress_buffer_change_state (x_pb s)\<rparr>)) else P_Disabled)"

definition pb_start :: psys where
  "pb_start = \<lparr>x_pb = progress_buffer_init, x_up = U_Idle, x_task = T_Top, x_seek = K_Idle\<rparr>"

inductive pb_reachable :: "psys \<Rightarrow> bool" where
  start: "pb_reachable pb_start"
| step: "pb_reachable s \<Longrightarrow> pb_step a s = P_Next s' \<Longrightarrow> pb_reachable s'"

fun pb_run :: "pact list \<Rightarrow> psys \<Rightarrow> psys option" where
  "pb_run [] s = Some s"
| "pb_run (a # as) s = (case pb_step a s of P_Next s' \<Rightarrow> pb_run as s' | _ \<Rightarrow> None)"

lemma pb_run_reachable: "pb_run as s = Some s' \<Longrightarrow> pb_reachable s \<Longrightarrow> pb_reachable s'"
  by (induction as arbitrary: s) (auto split: poutcome.splits intro: pb_reachable.step)

lemma reachable_by_run:
  assumes "case pb_run as pb_start of None \<Rightarrow> False | Some s \<Rightarrow> Q s"
  shows "\<exists>s. pb_reachable s \<and> Q s"
proof (cases "pb_run as pb_start")
  case (Some s)
  then show ?thesis using assms pb_run_reachable [OF Some pb_reachable.start] by auto
qed (use assms in simp)

section \<open>Defects\<close>

definition pseg_of :: "bool \<Rightarrow> int \<Rightarrow> int \<Rightarrow> pseg" where
  "pseg_of update start stop =
     \<lparr>ps_start = start, ps_stop = stop, ps_position = start, ps_rate = 1, ps_bytes = True, ps_update = update\<rparr>"

text \<open>Upstream sends a segment of two bytes and its data; the pad is created and the task pushes the segment.\<close>

definition two_bytes :: "pact list" where
  "two_bytes = [B_Event False (Some new_cache) (SE_Segment (pseg_of True 0 2)), B_Chain True False True 2 0 [1, 2]]"

text \<open>
  A silent state: the end of the stream has been received, no event is pending, and the task waits.
  Upstream's thread and the task are the ordinary actions, without seeks, activation and state changes.
\<close>

definition silent :: "psys \<Rightarrow> bool" where
  "silent s \<longleftrightarrow> x_up s = U_Idle \<and> p_srcpad (x_pb s) \<and> p_eos (x_pb s) \<and> x_task s = T_Wait False
     \<and> PO_Event Ev_Eos \<notin> set (p_out (x_pb s))"

fun ordinary :: "pact \<Rightarrow> bool" where
  "ordinary (B_Chain _ _ _ _ _ _) = True"
| "ordinary (B_Event _ _ _) = True"
| "ordinary (B_Create _) = True"
| "ordinary (B_Task _ _ _) = True"
| "ordinary B_TaskEvent = True"
| "ordinary (B_TaskBuffer _) = True"
| "ordinary _ = False"

lemma silent_step: "silent s \<Longrightarrow> ordinary a \<Longrightarrow> pb_step a s = P_Next s' \<Longrightarrow> silent s'"
  by (cases a) (auto simp: silent_def progress_buffer_chain_def progress_buffer_sink_event_def pnext_def signal_task_def
      task_entry_def post_def lock_free_def split: if_splits)

lemma silent_run: "pb_run as s = Some s' \<Longrightarrow> silent s \<Longrightarrow> list_all ordinary as \<Longrightarrow> silent s'"
  by (induction as arbitrary: s) (auto split: poutcome.splits dest: silent_step)

definition eos_lost :: "psys \<Rightarrow> bool" where
  "eos_lost s \<longleftrightarrow> pb_reachable s \<and> silent s \<and> p_srcresult (x_pb s) = FLOW_OK \<and>
     \<not> (\<exists>as s'. list_all ordinary as \<and> pb_run as s = Some s' \<and> PO_Event Ev_Eos \<in> set (p_out (x_pb s')))"

lemma eos_lostI: "pb_reachable s \<Longrightarrow> silent s \<Longrightarrow> p_srcresult (x_pb s) = FLOW_OK \<Longrightarrow> eos_lost s"
  by (auto simp: eos_lost_def dest: silent_run simp: silent_def)

lemma eos_lost_by_run:
  assumes "case pb_run as pb_start of None \<Rightarrow> False | Some s \<Rightarrow> silent s \<and> p_srcresult (x_pb s) = FLOW_OK \<and> Q s"
  shows "\<exists>s. eos_lost s \<and> Q s"
  using reachable_by_run [OF assms] eos_lostI by blast

text \<open>
  C39: the end of the stream can be lost. While the task pushes the last buffer, with the end of the
  stream already pending, upstream's end-of-stream event clears the pending event; the task then waits
  for data although every byte was delivered, and whatever upstream and the task do, downstream is
  never told. The same happens when a stream ends before its announced size and the reader had
  already delivered everything: nothing makes the end pending any more.
\<close>

theorem pb_eos_lost:
  "(\<exists>s. eos_lost s \<and> PO_Buffer [1, 2] 0 \<in> set (p_out (x_pb s)) \<and> ps_stop (p_sink_segment (x_pb s)) = 2) \<and>
   (\<exists>s. eos_lost s \<and> PO_Buffer [1] 0 \<in> set (p_out (x_pb s)) \<and> ps_stop (p_sink_segment (x_pb s)) = 1)"
proof
  let ?as = "two_bytes @ [B_Create True, B_Task True 2 True, B_TaskEvent, B_Task True 2 True,
      B_Event False None SE_Eos, B_TaskBuffer FLOW_OK, B_Task True 2 True]"
  show "\<exists>s. eos_lost s \<and> PO_Buffer [1, 2] 0 \<in> set (p_out (x_pb s)) \<and> ps_stop (p_sink_segment (x_pb s)) = 2"
    by (rule eos_lost_by_run [where as = ?as]) code_simp
next
  let ?as = "[B_Event False (Some new_cache) (SE_Segment (pseg_of True 0 2)), B_Chain True False True 1 0 [1], B_Create True,
      B_Task True 2 True, B_TaskEvent, B_Task True 2 True, B_TaskBuffer FLOW_OK, B_Task True 2 True,
      B_Event False None SE_Eos, B_Task True 2 True]"
  show "\<exists>s. eos_lost s \<and> PO_Buffer [1] 0 \<in> set (p_out (x_pb s)) \<and> ps_stop (p_sink_segment (x_pb s)) = 1"
    by (rule eos_lost_by_run [where as = ?as]) code_simp
qed

text \<open>
  the end-of-stream event also throws away a segment that the task has not pushed yet, and the
  data goes downstream with no segment before it.
\<close>

theorem pb_eos_drops_segment:
  "\<exists>s. pb_reachable s \<and> PO_Buffer [1, 2] 0 \<in> set (p_out (x_pb s)) \<and> \<not> (\<exists>seg. PO_Event (Ev_Segment seg) \<in> set (p_out (x_pb s)))"
proof -
  let ?as = "two_bytes @ [B_Create True, B_Event False None SE_Eos, B_Task True 2 True, B_TaskBuffer FLOW_OK]"
  have "\<exists>s. pb_reachable s \<and> PO_Buffer [1, 2] 0 \<in> set (p_out (x_pb s)) \<and>
      list_all (\<lambda>x. case x of PO_Event (Ev_Segment _) \<Rightarrow> False | _ \<Rightarrow> True) (p_out (x_pb s))"
    by (rule reachable_by_run [where as = ?as]) code_simp
  then show ?thesis by (force simp: list_all_iff)
qed

section \<open>What is pushed is what the source holds\<close>

text \<open>
  \<open>src\<close> is the content of the medium, byte by byte. The cache holds a window of it that starts at
  \<open>off\<close>; its read position may lie anywhere, also behind what has been written.
\<close>

definition content :: "(int \<Rightarrow> int) \<Rightarrow> int \<Rightarrow> nat \<Rightarrow> int list" where
  "content src off n = map (\<lambda>i. src (off + int i)) [0..<n]"

definition holds :: "(int \<Rightarrow> int) \<Rightarrow> int \<Rightarrow> cache \<Rightarrow> bool" where
  "holds src off c \<longleftrightarrow> c_write_off c = c_write_position c \<and> c_read_off c = c_read_position c
     \<and> 0 \<le> c_read_position c \<and> 0 \<le> c_write_position c \<and> c_write_position c \<le> int (length (c_file c))
     \<and> 0 \<le> off \<and> off + c_write_position c \<le> 2 ^ 62
     \<and> take (nat (c_write_position c)) (c_file c) = content src off (nat (c_write_position c))"

lemma length_content [simp]: "length (content src off n) = n"
  by (simp add: content_def)

lemma content_append: "content src off (m + n) = content src off m @ content src (off + int m) n"
  by (rule nth_equalityI) (auto simp: content_def nth_append algebra_simps)

lemma content_drop: "drop m (content src off n) = content src (off + int m) (n - m)"
  by (rule nth_equalityI) (auto simp: content_def algebra_simps)

lemma content_prefix: "content src off n = bs @ rest \<Longrightarrow> bs = content src off (length bs)"
proof -
  assume a: "content src off n = bs @ rest"
  then have "n = length bs + length rest" by (metis length_append length_content)
  with a show ?thesis by (simp add: content_append)
qed

lemma holds_new: "0 \<le> off \<Longrightarrow> off \<le> 2 ^ 62 \<Longrightarrow> holds src off new_cache"
  by (simp add: holds_def new_cache_def content_def)

lemma holds_write:
  assumes "holds src off c" "int (length bs) \<le> n" "bs = content src (off + c_write_position c) (length bs)"
    and "off + c_write_position c + int (length bs) \<le> 2 ^ 62"
  shows "holds src off (cache_write_buffer True n bs c)"
proof (cases "bs = []")
  case True
  with assms(1) show ?thesis by (simp add: cache_write_buffer_def os_write_def Let_def)
next
  case False
  let ?w = "nat (c_write_position c)"
  have h: "c_write_off c = c_write_position c" "0 \<le> c_write_position c" "?w \<le> length (c_file c)" "0 \<le> off"
    "take ?w (c_file c) = content src off ?w"
    using assms(1) by (auto simp: holds_def)
  have i: "i64 (c_write_position c + int (length bs)) = c_write_position c + int (length bs)"
    using h assms(4) by (intro i64_small) auto
  have n: "nat (c_write_position c + int (length bs)) = ?w + length bs" using h by linarith
  have "cache_write_buffer True n bs c = c\<lparr>c_file := take ?w (c_file c) @ bs @ drop (?w + length bs) (c_file c),
      c_write_off := c_write_position c + int (length bs), c_write_position := c_write_position c + int (length bs)\<rparr>"
    using False assms(2) h i by (simp add: cache_write_buffer_def os_write_def Let_def put_at_in)
  moreover have "content src off (?w + length bs) = content src off ?w @ bs"
    using assms(3) h by (simp add: content_append)
  ultimately show ?thesis using assms(1,4) h by (auto simp: holds_def n)
qed

lemma holds_read:
  assumes "holds src off c" "cache_has_enough_data c" "cache_read_buffer alloc n wrapped c = (pos, Some b, c')"
  shows "holds src off c' \<and> b_data b = content src (off + c_read_position c) (length (b_data b)) \<and> b_data b \<noteq> []
    \<and> pos = c_read_position c + int (length (b_data b)) \<and> pos \<le> c_write_position c
    \<and> c_read_position c' = pos \<and> c_write_position c' = c_write_position c"
proof -
  have aw: "alloc" "wrapped" using assms(3) by (auto simp: cache_read_buffer_def Let_def split: if_splits prod.splits)
  have n: "0 < n"
  proof (rule ccontr)
    assume "\<not> 0 < n"
    then have "nat (min n sz) = 0" for sz by simp
    with \<open>\<not> 0 < n\<close> assms(3) show False
      by (auto simp: cache_read_buffer_def os_read_def Let_def split: if_splits)
  qed
  have ok: "cache_ok c" using assms(1,2) by (auto simp: holds_def cache_ok_def cache_has_enough_data_def)
  let ?r = "nat (c_read_position c)" and ?w = "nat (c_write_position c)"
  from read_takes [OF ok assms(2) n, of pos "Some b" c'] assms(3) aw obtain bs where
    b: "b = \<lparr>b_data = bs, b_offset = c_read_position c\<rparr>" "bs \<noteq> []" "pending_bytes c = bs @ pending_bytes c'" "cache_ok c'"
      "pos = c_read_position c'" "c_read_position c' = c_read_position c + int (length bs)"
      "c_write_position c' = c_write_position c" "c_file c' = c_file c" by auto
  have "pending_bytes c = content src (off + c_read_position c) (?w - ?r)"
    using assms(1,2) by (subst pending_alt) (auto simp: holds_def cache_has_enough_data_def content_drop)
  then have "bs = content src (off + c_read_position c) (length bs)" using b(3) content_prefix by metis
  moreover have "holds src off c'" using assms(1) b by (auto simp: holds_def cache_ok_def)
  moreover have "pos \<le> c_write_position c" using b by (auto simp: cache_ok_def)
  ultimately show ?thesis using b by simp
qed

lemma holds_seek: "holds src off c \<Longrightarrow> holds src off (snd (cache_set_read_position p c))"
  by (auto simp: holds_def cache_set_read_position_def cache_set_handler_position_def)

lemma holds_rewind: "holds src off c \<Longrightarrow> 0 \<le> off' \<Longrightarrow> off' \<le> 2 ^ 62 \<Longrightarrow>
    holds src off' (snd (cache_set_read_position 0 (snd (cache_set_write_position 0 c))))"
  by (auto simp: holds_def content_def cache_set_read_position_def cache_set_write_position_def cache_set_handler_position_def)

text \<open>
  What upstream and the system are trusted with: writes are complete, buffers carry the bytes of the
  medium and continue the window, a new cache is empty, and a segment that asks for a new cache
  starts where the current window starts (the element keeps the old offset then).
\<close>

fun well_sent :: "(int \<Rightarrow> int) \<Rightarrow> pact \<Rightarrow> psys \<Rightarrow> bool" where
  "well_sent src (B_Chain over second mapped n offset data) s =
     (mapped \<and> int (length data) \<le> n \<and> 0 \<le> offset \<and> data = content src offset (length data) \<and> offset + int (length data) \<le> 2 ^ 62
      \<and> (case p_cache (x_pb s) of None \<Rightarrow> True | Some c \<Rightarrow> offset = p_cache_read_offset (x_pb s) + c_write_position c))"
| "well_sent src (B_Event over fresh (SE_Segment seg)) s =
     (0 \<le> ps_start seg \<and> ps_start seg \<le> 2 ^ 62 \<and> (fresh = None \<or> fresh = Some new_cache)
      \<and> (ps_update seg \<longrightarrow> ps_start seg = p_cache_read_offset (x_pb s)))"
| "well_sent src _ s = True"

inductive pb_streaming :: "(int \<Rightarrow> int) \<Rightarrow> psys \<Rightarrow> bool" for src where
  start: "pb_streaming src pb_start"
| step: "pb_streaming src s \<Longrightarrow> well_sent src a s \<Longrightarrow> pb_step a s = P_Next s' \<Longrightarrow> pb_streaming src s'"

definition good_out :: "(int \<Rightarrow> int) \<Rightarrow> pb_out \<Rightarrow> bool" where
  "good_out src x = (case x of PO_Buffer bs off \<Rightarrow> bs = content src off (length bs) | _ \<Rightarrow> True)"

definition pb_inv :: "(int \<Rightarrow> int) \<Rightarrow> pb \<Rightarrow> bool" where
  "pb_inv src e \<longleftrightarrow> (\<forall>c. p_cache e = Some c \<longrightarrow> holds src (p_cache_read_offset e) c)
     \<and> 0 \<le> p_cache_read_offset e \<and> p_cache_read_offset e \<le> 2 ^ 62 \<and> list_all (good_out src) (p_out e)"

definition psys_inv :: "(int \<Rightarrow> int) \<Rightarrow> psys \<Rightarrow> bool" where
  "psys_inv src s \<longleftrightarrow> pb_inv src (x_pb s) \<and> (case x_task s of T_Buffer bs off \<Rightarrow> bs = content src off (length bs) | _ \<Rightarrow> True)"

lemma pb_inv_frame [simp]:
  "pb_inv src (e\<lparr>p_srcresult := r\<rparr>) = pb_inv src e" "pb_inv src (e\<lparr>p_task := b\<rparr>) = pb_inv src e"
  "pb_inv src (e\<lparr>p_pending := ev\<rparr>) = pb_inv src e" "pb_inv src (e\<lparr>p_sink_segment := seg\<rparr>) = pb_inv src e"
  "pb_inv src (e\<lparr>p_instant_seek := b\<rparr>) = pb_inv src e" "pb_inv src (e\<lparr>p_is_source_seeking := b\<rparr>) = pb_inv src e"
  "pb_inv src (e\<lparr>p_eos := b\<rparr>) = pb_inv src e" "pb_inv src (e\<lparr>p_signal_limit := z\<rparr>) = pb_inv src e"
  "pb_inv src (e\<lparr>p_unexpected := b\<rparr>) = pb_inv src e" "pb_inv src (e\<lparr>p_srcpad := b\<rparr>) = pb_inv src e"
  "pb_inv src (e\<lparr>p_subtotal := z\<rparr>) = pb_inv src e" "pb_inv src (e\<lparr>p_monitor := b\<rparr>) = pb_inv src e"
  "pb_inv src (e\<lparr>p_range_start := z\<rparr>) = pb_inv src e" "pb_inv src (e\<lparr>p_range_stop := z\<rparr>) = pb_inv src e"
  by (simp_all add: pb_inv_def)

lemma pb_inv_post: "pb_inv src (post x e) \<longleftrightarrow> pb_inv src e \<and> good_out src x"
  by (auto simp: pb_inv_def post_def)

lemma pb_inv_cache:
  "pb_inv src e \<Longrightarrow> p_cache e = Some c \<Longrightarrow> holds src (p_cache_read_offset e) c"
  "pb_inv src e \<Longrightarrow> holds src (p_cache_read_offset e) c' \<Longrightarrow> pb_inv src (e\<lparr>p_cache := Some c'\<rparr>)"
  by (auto simp: pb_inv_def)

lemma pb_inv_set_pending [simp]: "pb_inv src (progress_buffer_set_pending_event ev e) = pb_inv src e"
  by (simp add: progress_buffer_set_pending_event_def)

lemma pb_inv_reset_eos [simp]: "pb_inv src (reset_eos b e) = pb_inv src e"
  by (simp add: reset_eos_def Let_def)

lemma pb_inv_position_message: "send_position_message ov m e = (sg, e') \<Longrightarrow> pb_inv src e \<Longrightarrow> pb_inv src e'"
  by (auto simp: send_position_message_def Let_def pb_inv_post good_out_def split: if_splits)

lemma pb_inv_chain:
  assumes "pb_inv src e" "progress_buffer_chain ov se True n off d e = Some (r, sg, e')" "int (length d) \<le> n"
    and "d = content src off (length d)" "off + int (length d) \<le> 2 ^ 62"
    and "\<And>c. p_cache e = Some c \<Longrightarrow> off = p_cache_read_offset e + c_write_position c"
  shows "pb_inv src e'"
proof (cases "p_cache e")
  case (Some c)
  have "holds src (p_cache_read_offset e) (cache_write_buffer True n d c)"
    using pb_inv_cache(1) [OF assms(1) Some] assms(3-5) assms(6) [OF Some] by (intro holds_write) simp_all
  then have "pb_inv src (e\<lparr>p_sink_segment := sg', p_cache := Some (cache_write_buffer True n d c), p_subtotal := z\<rparr>)" for sg' z
    using assms(1) by (simp add: pb_inv_def)
  with assms(1,2) Some show ?thesis
    by (auto simp: progress_buffer_chain_def enqueue_buffer_def Let_def elim: pb_inv_position_message split: if_splits prod.splits)
qed (use assms(1,2) in \<open>auto simp: progress_buffer_chain_def enqueue_buffer_def Let_def split: if_splits\<close>)

lemma pb_inv_event:
  assumes "pb_inv src e" "enqueue_event ov fr ev e = Some (r, sg, e')"
    and "\<And>seg. ev = SE_Segment seg \<Longrightarrow> 0 \<le> ps_start seg \<and> ps_start seg \<le> 2 ^ 62 \<and> (fr = None \<or> fr = Some new_cache)
      \<and> (ps_update seg \<longrightarrow> ps_start seg = p_cache_read_offset e)"
  shows "pb_inv src e'"
proof (cases ev)
  case SE_Eos
  with assms(1,2) show ?thesis
    by (auto simp: enqueue_event_def Let_def elim!: pb_inv_position_message split: if_splits prod.splits)
next
  case (SE_Segment seg)
  note p = assms(3) [OF SE_Segment]
  have i: "i64 (ps_start seg) = ps_start seg" using p by (intro i64_small) auto
  have fresh: "pb_inv src (e\<lparr>p_unexpected := b, p_cache := Some new_cache\<rparr>)" for b
    using assms(1) holds_new [of "p_cache_read_offset e" src] by (simp add: pb_inv_def)
  have rewound: "pb_inv src (e\<lparr>p_unexpected := b, p_cache := Some (snd (cache_set_read_position 0 (snd (cache_set_write_position 0 c)))),
      p_cache_read_offset := ps_start seg\<rparr>)" if "p_cache e = Some c" for b c
    using assms(1) p holds_rewind [OF pb_inv_cache(1) [OF assms(1) that], of "ps_start seg"] by (simp add: pb_inv_def)
  have none: "pb_inv src (e\<lparr>p_unexpected := b, p_cache := None\<rparr>)" for b using assms(1) by (simp add: pb_inv_def)
  show ?thesis
    using assms(1,2) SE_Segment p fresh rewound none
    by (auto simp: enqueue_event_def Let_def i pb_inv_post good_out_def elim!: pb_inv_position_message
        split: if_splits prod.splits bind_splits)
qed (use assms(1,2) in \<open>auto simp: enqueue_event_def\<close>)

lemma pb_inv_section:
  assumes "pb_inv src e" "loop_section al n w skip e = Some r"
  shows "(\<exists>e'. (r = PL_Wait e' \<or> (\<exists>b. r = PL_Again b e') \<or> (\<exists>ev res. r = PL_Event ev res e') \<or> (\<exists>res. r = PL_Return res e')) \<and> pb_inv src e')
    \<or> (\<exists>e' bs off. r = PL_Buffer bs off e' \<and> pb_inv src e' \<and> bs = content src off (length bs))"
proof (cases "p_srcresult e = FLOW_OK \<and> p_pending e = None")
  case True
  with assms(2) obtain c where c: "p_cache e = Some c" by (auto simp: loop_section_def split: bind_splits)
  note h = pb_inv_cache(1) [OF assms(1) c]
  show ?thesis
  proof (cases "cache_has_enough_data c \<and> p_instant_seek e")
    case False
    with True c assms show ?thesis
      by (auto simp: loop_section_def send_underrun_message_def pb_inv_post good_out_def split: if_splits)
  next
    case en: True
    obtain pos b c' where rd: "cache_read_buffer al n w c = (pos, b, c')" by (metis prod_cases3)
    from en True c rd assms(2) obtain bu where b: "b = Some bu"
      by (cases b) (auto simp: loop_section_def Let_def)
    from holds_read [OF h _ rd [unfolded b]] en have
      hr: "holds src (p_cache_read_offset e) c'" "b_data bu = content src (p_cache_read_offset e + c_read_position c) (length (b_data bu))"
        "pos = c_read_position c + int (length (b_data bu))" "pos \<le> c_write_position c" by blast+
    have off: "u64 (u64 (pos + p_cache_read_offset e) - int (length (b_data bu))) = p_cache_read_offset e + c_read_position c"
    proof -
      have "0 \<le> p_cache_read_offset e + c_read_position c" "p_cache_read_offset e + pos \<le> 2 ^ 62"
        using h hr(4) by (auto simp: holds_def)
      then show ?thesis using hr(3) by (simp add: u64_def algebra_simps)
    qed
    have "pb_inv src (e\<lparr>p_cache := Some c'\<rparr>)" using assms(1) hr(1) by (rule pb_inv_cache(2))
    with en True c rd b hr(2) off assms(2) show ?thesis
      by (auto simp: loop_section_def Let_def split: if_splits)
  qed
next
  case False
  with assms show ?thesis by (auto simp: loop_section_def Let_def split: option.splits if_splits)
qed

lemma pb_inv_seek_in_cache: "pb_inv src e \<Longrightarrow> seek_in_cache k e = Some e' \<Longrightarrow> pb_inv src e'"
  by (auto simp: seek_in_cache_def Let_def pb_inv_cache holds_seek split: bind_splits)

lemma pb_inv_activatemode:
  "pb_inv src e \<Longrightarrow> progress_buffer_activatemode l cr m a e = (r, sg, e') \<Longrightarrow> pb_inv src e'"
  by (auto simp: progress_buffer_activatemode_def progress_buffer_activatepush_src_def progress_buffer_activatepull_src_def Let_def
      split: pad_mode.splits if_splits)

lemma psys_inv_signal [simp]: "psys_inv src (signal_task b s) = psys_inv src s"
  by (auto simp: psys_inv_def signal_task_def split: task_pc.splits)

lemma pb_inv_loop_end [simp]: "pb_inv src (loop_end r e) = pb_inv src e"
  by (simp add: loop_end_def)

lemma psys_inv_task:
  assumes "psys_inv src s" "task_step al n w skip s = Some s'"
  shows "psys_inv src s'"
proof -
  from assms(2) obtain r where r: "loop_section al n w skip (x_pb s) = Some r" "s' = task_after skip r s"
    by (auto simp: task_step_def split: bind_splits)
  from assms(1) have "pb_inv src (x_pb s)" by (simp add: psys_inv_def)
  from pb_inv_section [OF this r(1)] show ?thesis by (auto simp: r(2) psys_inv_def)
qed

lemma psys_inv_upd: "psys_inv src s \<Longrightarrow> pb_inv src e \<Longrightarrow> psys_inv src (s\<lparr>x_pb := e\<rparr>)"
  by (simp add: psys_inv_def)

lemma psys_inv_frame:
  "psys_inv src (t\<lparr>x_up := u\<rparr>) = psys_inv src t" "psys_inv src (t\<lparr>x_seek := k\<rparr>) = psys_inv src t"
  by (simp_all add: psys_inv_def)

lemma psys_inv_pb: "psys_inv src s \<Longrightarrow> pb_inv src (x_pb s)"
  by (simp add: psys_inv_def)

text \<open>The actions of the source task and of the seeking thread; what is left comes from upstream and the pipeline.\<close>

fun by_task :: "pact \<Rightarrow> bool" where
  "by_task (B_Task _ _ _) = True"
| "by_task B_TaskEvent = True"
| "by_task (B_TaskBuffer _) = True"
| "by_task _ = False"

fun by_seek :: "pact \<Rightarrow> bool" where
  "by_seek (B_Seek _) = True"
| "by_seek B_SeekStop = True"
| "by_seek (B_SeekJoin _) = True"
| "by_seek B_SeekTest = True"
| "by_seek (B_SeekReply _) = True"
| "by_seek B_SeekFinish = True"
| "by_seek _ = False"

lemma psys_inv_by_task:
  assumes "psys_inv src s" "well_sent src a s" "pb_step a s = P_Next s'"
    and "by_task a"
  shows "psys_inv src s'"
proof -
  note e = psys_inv_pb [OF assms(1)] and upd = psys_inv_upd [OF assms(1)] and frame = psys_inv_frame
  show ?thesis
  proof (cases a)
    case (B_Task al n w)
    with assms(1,3) psys_inv_task [of src s al n w] show ?thesis
      by (auto simp: pnext_def split: option.splits)
  next
    case B_TaskEvent
    with assms(3) e show ?thesis by (auto simp: psys_inv_def pb_inv_post good_out_def split: task_pc.splits)
  next
    case (B_TaskBuffer r)
    with assms(1,3) e show ?thesis
      by (auto simp: psys_inv_def pb_inv_post good_out_def loop_pushed_buffer_def Let_def split: task_pc.splits if_splits)
  qed (use assms(4) in auto)
qed

lemma psys_inv_by_seek:
  assumes "psys_inv src s" "well_sent src a s" "pb_step a s = P_Next s'"
    and "by_seek a"
  shows "psys_inv src s'"
proof -
  note e = psys_inv_pb [OF assms(1)] and upd = psys_inv_upd [OF assms(1)] and frame = psys_inv_frame
  show ?thesis
  proof (cases a)
    case (B_Seek k)
    have "pb_inv src (snd (seek_check k (x_pb s)))" using e by (auto simp: seek_check_def pb_inv_post good_out_def)
    with B_Seek assms(3) upd frame show ?thesis by (auto split: if_splits prod.splits)
  next
    case B_SeekStop
    with assms(3) upd frame e show ?thesis by (auto simp: seek_stop_task_def split: if_splits seek_pc.splits)
  next
    case (B_SeekJoin near)
    have "pb_inv src e'" if "seek_locked near k (x_pb s) = Some e'" for k e'
      using that e by (auto simp: seek_locked_def Let_def elim!: pb_inv_seek_in_cache [rotated] split: if_splits)
    with B_SeekJoin assms(3) upd frame show ?thesis
      by (auto simp: pnext_def split: if_splits bind_splits option.splits seek_pc.splits)
  next
    case B_SeekTest
    have "pb_inv src (seek_source_begin k (x_pb s))" for k using e by (simp add: seek_source_begin_def pb_inv_post good_out_def)
    with B_SeekTest assms(1,3) upd frame show ?thesis by (auto split: if_splits seek_pc.splits)
  next
    case (B_SeekReply h)
    have "pb_inv src e'" if "seek_source_end h k (x_pb s) = Some e'" for k e'
      using that e by (auto simp: seek_source_end_def elim!: pb_inv_seek_in_cache [rotated] split: if_splits bind_splits)
    with B_SeekReply assms(3) upd frame show ?thesis
      by (auto simp: pnext_def split: if_splits bind_splits option.splits seek_pc.splits)
  next
    case B_SeekFinish
    have "pb_inv src (seek_finish k (x_pb s))" for k using e by (simp add: seek_finish_def pb_inv_post good_out_def)
    with B_SeekFinish assms(3) upd frame show ?thesis by (auto split: seek_pc.splits)
  qed (use assms(4) in auto)
qed

lemma psys_inv_by_pipeline:
  assumes "psys_inv src s" "well_sent src a s" "pb_step a s = P_Next s'"
    and "\<not> by_task a" "\<not> by_seek a"
  shows "psys_inv src s'"
proof -
  note e = psys_inv_pb [OF assms(1)] and upd = psys_inv_upd [OF assms(1)] and frame = psys_inv_frame
  show ?thesis
  proof (cases a)
    case (B_Chain ov se ma n off d)
    with assms(2) have ma: "ma" by simp
    have "pb_inv src e'" if "progress_buffer_chain ov se True n off d (x_pb s) = Some (r, sg, e')" for r sg e'
      by (rule pb_inv_chain [OF e that]) (use assms(2) B_Chain in auto)
    with B_Chain ma assms(3) upd frame show ?thesis
      by (auto simp: pnext_def Let_def split: if_splits bind_splits option.splits)
  next
    case (B_Create l)
    then show ?thesis using assms(3) upd frame pb_inv_activatemode [of src "(x_pb s)\<lparr>p_srcpad := True\<rparr>" l False MODE_PUSH True] e
      by (cases "progress_buffer_activatemode l False MODE_PUSH True ((x_pb s)\<lparr>p_srcpad := True\<rparr>)")
        (auto simp: progress_buffer_create_sourcepad_def split: if_splits)
  next
    case (B_Event ov fr ev)
    have "pb_inv src e'" if "progress_buffer_sink_event ov fr ev (x_pb s) = Some (r, sg, e')" for r sg e'
    proof -
      have "pb_inv src e1" if "enqueue_event ov fr ev (x_pb s) = Some (q, b, e1)" for q b e1
        by (rule pb_inv_event [OF e that]) (use assms(2) B_Event in auto)
      with that e show ?thesis
        by (auto simp: progress_buffer_sink_event_def pb_inv_post good_out_def split: if_splits bind_splits)
    qed
    with B_Event assms(3) upd frame show ?thesis
      by (auto simp: pnext_def split: if_splits bind_splits option.splits)
  next
    case (B_Activate l ac)
    with assms(3) e upd frame pb_inv_activatemode [of src "x_pb s" l False MODE_PUSH ac] show ?thesis
      by (auto split: if_splits prod.splits)
  next
    case B_ChangeState
    have "pb_inv src (progress_buffer_change_state (x_pb s))"
      using e by (simp add: progress_buffer_change_state_def progress_buffer_flush_data_def)
    with B_ChangeState assms(3) upd show ?thesis by (auto split: if_splits)
  qed (use assms(4,5) in auto)
qed

lemmas psys_inv_step = psys_inv_by_task psys_inv_by_seek psys_inv_by_pipeline

lemma pb_streaming_inv: "pb_streaming src s \<Longrightarrow> psys_inv src s"
proof (induction rule: pb_streaming.induct)
  case start
  then show ?case
    by (simp add: psys_inv_def pb_inv_def pb_start_def progress_buffer_init_def progress_buffer_flush_data_def)
next
  case (step s a s')
  then show ?case using psys_inv_step [of src s a s'] by blast
qed

text \<open>
  C7: in every interleaving of upstream, source task and seeks, every buffer pushed downstream
  carries exactly the bytes of the medium at the offset it is stamped with, whatever the seeks and
  the sizes of the reads were.
\<close>

theorem pb_bytes_match_source:
  assumes "pb_streaming src s" "PO_Buffer bs off \<in> set (p_out (x_pb s))"
  shows "bs = content src off (length bs)"
  using pb_streaming_inv [OF assms(1)] assms(2)
  by (auto simp: psys_inv_def pb_inv_def list_all_iff good_out_def)

text \<open>Runs whose every step is well sent.\<close>

fun pb_send_run :: "(int \<Rightarrow> int) \<Rightarrow> pact list \<Rightarrow> psys \<Rightarrow> psys option" where
  "pb_send_run src [] s = Some s"
| "pb_send_run src (a # as) s =
     (if well_sent src a s then case pb_step a s of P_Next s' \<Rightarrow> pb_send_run src as s' | _ \<Rightarrow> None else None)"

lemma pb_send_run_streaming: "pb_send_run src as s = Some s' \<Longrightarrow> pb_streaming src s \<Longrightarrow> pb_streaming src s'"
  by (induction as arbitrary: s) (auto split: poutcome.splits if_splits intro: pb_streaming.step)

text \<open>The byte at offset \<open>i\<close> is \<open>i + 1\<close>: two bytes are sent, a seek goes to the second one.\<close>

definition sample_run :: "pact list" where
  "sample_run = two_bytes @ [B_Create True, B_Task True 2 True, B_TaskEvent,
     B_Seek \<lparr>k_bytes = True, k_set = True, k_stop_none = True, k_flush = True, k_position = 1, k_rate = 0\<rparr>, B_SeekStop,
     B_Task True 2 True, B_SeekJoin True, B_SeekTest, B_SeekFinish, B_Task True 2 True, B_TaskEvent,
     B_Task True 2 True, B_TaskBuffer FLOW_OK]"

theorem pb_bytes_match_source_witness:
  "\<exists>s. pb_streaming (\<lambda>i. i + 1) s \<and> PO_Buffer [2] 1 \<in> set (p_out (x_pb s)) \<and> [2] = content (\<lambda>i. i + 1) 1 1"
proof -
  have "case pb_send_run (\<lambda>i. i + 1) sample_run pb_start of None \<Rightarrow> False | Some s \<Rightarrow> PO_Buffer [2] 1 \<in> set (p_out (x_pb s))"
    by code_simp
  then obtain s where s: "pb_send_run (\<lambda>i. i + 1) sample_run pb_start = Some s" "PO_Buffer [2] 1 \<in> set (p_out (x_pb s))"
    by (auto split: option.splits)
  with pb_send_run_streaming pb_streaming.start have "pb_streaming (\<lambda>i. i + 1) s" by blast
  with pb_bytes_match_source [OF this s(2)] s(2) show ?thesis by auto
qed

section \<open>Draining the cache\<close>

lemma holds_read_some:
  assumes "holds src off c" "cache_has_enough_data c" "0 < n"
  shows "\<exists>b c'. cache_read_buffer True n True c = (c_read_position c', Some b, c') \<and> holds src off c'
    \<and> b_data b = content src (off + c_read_position c) (length (b_data b)) \<and> b_data b \<noteq> []
    \<and> c_read_position c' = c_read_position c + int (length (b_data b)) \<and> c_read_position c' \<le> c_write_position c
    \<and> c_write_position c' = c_write_position c"
proof -
  have ok: "cache_ok c" using assms(1,2) by (auto simp: holds_def cache_ok_def cache_has_enough_data_def)
  obtain pos b c' where r: "cache_read_buffer True n True c = (pos, b, c')" by (metis prod_cases3)
  from read_takes [OF ok assms(2,3) r] obtain b0 where b: "b = Some b0" by blast
  from holds_read [OF assms(1,2) r [unfolded b]] r b show ?thesis by auto
qed

text \<open>
  A state in which the task runs, upstream has delivered the whole segment, and the read position is
  inside it.
\<close>

definition drainable :: "(int \<Rightarrow> int) \<Rightarrow> psys \<Rightarrow> bool" where
  "drainable src s \<longleftrightarrow> x_task s = T_Top \<and> p_task (x_pb s) \<and> \<not> stream_lock_of_seek (x_seek s)
     \<and> p_srcresult (x_pb s) = FLOW_OK \<and> p_pending (x_pb s) = None \<and> p_instant_seek (x_pb s)
     \<and> (case p_cache (x_pb s) of None \<Rightarrow> False
        | Some c \<Rightarrow> holds src (p_cache_read_offset (x_pb s)) c \<and> cache_has_enough_data c
            \<and> p_cache_read_offset (x_pb s) + c_write_position c = ps_stop (p_sink_segment (x_pb s)))"

definition read_offset :: "pb \<Rightarrow> int" where
  "read_offset e = p_cache_read_offset e + (case p_cache e of None \<Rightarrow> 0 | Some c \<Rightarrow> c_read_position c)"

fun buffer_bytes :: "pb_out list \<Rightarrow> int list" where
  "buffer_bytes [] = []"
| "buffer_bytes (PO_Buffer bs off # xs) = bs @ buffer_bytes xs"
| "buffer_bytes (_ # xs) = buffer_bytes xs"

text \<open>One read and its push: either more is left, or the end of the stream is pending.\<close>

lemma drain_cycle:
  assumes "drainable src s" "0 < n"
  shows "\<exists>s' bs. pb_run [B_Task True n True, B_TaskBuffer FLOW_OK] s = Some s' \<and> bs \<noteq> []
    \<and> bs = content src (read_offset (x_pb s)) (length bs)
    \<and> p_out (x_pb s') = p_out (x_pb s) @ [PO_Buffer bs (read_offset (x_pb s))]
    \<and> read_offset (x_pb s') = read_offset (x_pb s) + int (length bs)
    \<and> ps_stop (p_sink_segment (x_pb s')) = ps_stop (p_sink_segment (x_pb s)) \<and> read_offset (x_pb s') \<le> ps_stop (p_sink_segment (x_pb s))
    \<and> (if read_offset (x_pb s') < ps_stop (p_sink_segment (x_pb s)) then drainable src s'
       else x_task s' = T_Top \<and> p_task (x_pb s') \<and> \<not> stream_lock_of_seek (x_seek s') \<and> p_srcresult (x_pb s') = FLOW_OK
         \<and> p_pending (x_pb s') = Some Ev_Eos)"
proof -
  let ?e = "x_pb s" and ?off = "p_cache_read_offset (x_pb s)"
  from assms(1) obtain c where c: "p_cache ?e = Some c" and h: "holds src ?off c" "cache_has_enough_data c"
    and stop: "?off + c_write_position c = ps_stop (p_sink_segment ?e)"
    by (auto simp: drainable_def split: option.splits)
  from holds_read_some [OF h assms(2)] obtain b c' where
    r: "cache_read_buffer True n True c = (c_read_position c', Some b, c')" and h': "holds src ?off c'"
    and b: "b_data b = content src (?off + c_read_position c) (length (b_data b))" "b_data b \<noteq> []"
    and p: "c_read_position c' = c_read_position c + int (length (b_data b))" "c_read_position c' \<le> c_write_position c"
      "c_write_position c' = c_write_position c" by blast
  have range: "0 \<le> ?off" "0 \<le> c_read_position c" "?off + c_read_position c' \<le> 2 ^ 62" using h p by (auto simp: holds_def)
  then have u: "u64 (c_read_position c' + ?off) = ?off + c_read_position c'"
    "u64 (?off + c_read_position c' - int (length (b_data b))) = ?off + c_read_position c"
    using p by (simp_all add: u64_def algebra_simps)
  have base: "x_task s = T_Top" "p_task ?e" "\<not> stream_lock_of_seek (x_seek s)" "p_srcresult ?e = FLOW_OK"
    "p_pending ?e = None" "p_instant_seek ?e" using assms(1) by (auto simp: drainable_def)
  let ?e1 = "if ?off + c_read_position c' = ps_stop (p_sink_segment ?e)
    then progress_buffer_set_pending_event (Some Ev_Eos) (?e\<lparr>p_cache := Some c'\<rparr>) else ?e\<lparr>p_cache := Some c'\<rparr>"
  have "loop_section True n True False ?e = Some (PL_Buffer (b_data b) (?off + c_read_position c) ?e1)"
    using base c h r u by (simp add: loop_section_def Let_def)
  then have run: "pb_run [B_Task True n True, B_TaskBuffer FLOW_OK] s =
      Some (s\<lparr>x_pb := loop_pushed_buffer FLOW_OK (post (PO_Buffer (b_data b) (?off + c_read_position c)) ?e1), x_task := T_Top\<rparr>)"
    using base by (simp add: task_entry_def task_step_def pnext_def)
  show ?thesis
    using base b p h' stop c
    by (intro exI [of _ "s\<lparr>x_pb := loop_pushed_buffer FLOW_OK (post (PO_Buffer (b_data b) (?off + c_read_position c)) ?e1), x_task := T_Top\<rparr>"]
          exI [of _ "b_data b"] conjI [OF run])
      (auto simp: loop_pushed_buffer_def loop_end_def post_def progress_buffer_set_pending_event_def drainable_def cache_has_enough_data_def
          read_offset_def)
qed

lemma pb_run_append: "pb_run (as @ bs) s = (case pb_run as s of None \<Rightarrow> None | Some s' \<Rightarrow> pb_run bs s')"
  by (induction as arbitrary: s) (auto split: poutcome.split)

lemma buffer_bytes_append [simp]: "buffer_bytes (xs @ ys) = buffer_bytes xs @ buffer_bytes ys"
  by (induction xs rule: buffer_bytes.induct) auto

lemma drain_end:
  assumes "x_task s = T_Top" "p_task (x_pb s)" "\<not> stream_lock_of_seek (x_seek s)" "p_srcresult (x_pb s) = FLOW_OK"
    and "p_pending (x_pb s) = Some Ev_Eos"
  shows "\<exists>s'. pb_run [B_Task True n True, B_TaskEvent] s = Some s' \<and> p_out (x_pb s') = p_out (x_pb s) @ [PO_Event Ev_Eos]
    \<and> \<not> p_task (x_pb s') \<and> p_srcresult (x_pb s') = FLOW_EOS"
  using assms by (simp add: task_entry_def task_step_def pnext_def loop_section_def Let_def progress_buffer_set_pending_event_def
      loop_end_def post_def)

text \<open>
  C25: a cache that holds the whole rest of the segment is drained. However few bytes the system
  gives per read, the task ends; it has pushed exactly the bytes from the read position to the end
  of the segment, in order, then the end of the stream, and it is paused.
\<close>

theorem pb_drains_to_eos:
  assumes "drainable src s" "0 < n"
  shows "\<exists>as s' bufs. set as \<subseteq> {B_Task True n True, B_TaskBuffer FLOW_OK, B_TaskEvent} \<and> pb_run as s = Some s'
    \<and> p_out (x_pb s') = p_out (x_pb s) @ bufs @ [PO_Event Ev_Eos]
    \<and> buffer_bytes bufs = content src (read_offset (x_pb s)) (nat (ps_stop (p_sink_segment (x_pb s)) - read_offset (x_pb s)))
    \<and> \<not> p_task (x_pb s') \<and> p_srcresult (x_pb s') = FLOW_EOS"
  using assms(1)
proof (induction "nat (ps_stop (p_sink_segment (x_pb s)) - read_offset (x_pb s))" arbitrary: s rule: less_induct)
  case less
  let ?stop = "ps_stop (p_sink_segment (x_pb s))" and ?r = "read_offset (x_pb s)"
  from drain_cycle [OF less.prems assms(2)] obtain s1 bs where
    s1: "pb_run [B_Task True n True, B_TaskBuffer FLOW_OK] s = Some s1" "bs \<noteq> []" "bs = content src ?r (length bs)"
      "p_out (x_pb s1) = p_out (x_pb s) @ [PO_Buffer bs ?r]" "read_offset (x_pb s1) = ?r + int (length bs)"
      "ps_stop (p_sink_segment (x_pb s1)) = ?stop" "read_offset (x_pb s1) \<le> ?stop"
    and after: "if read_offset (x_pb s1) < ?stop then drainable src s1
       else x_task s1 = T_Top \<and> p_task (x_pb s1) \<and> \<not> stream_lock_of_seek (x_seek s1) \<and> p_srcresult (x_pb s1) = FLOW_OK
         \<and> p_pending (x_pb s1) = Some Ev_Eos" by blast
  show ?case
  proof (cases "read_offset (x_pb s1) < ?stop")
    case True
    have len: "nat (?stop - ?r) = length bs + nat (?stop - (?r + int (length bs)))" using True s1 by linarith
    have "nat (ps_stop (p_sink_segment (x_pb s1)) - read_offset (x_pb s1)) < nat (?stop - ?r)"
      using s1 True by auto
    from less.hyps [OF this] after True obtain as s' bufs where
      r: "set as \<subseteq> {B_Task True n True, B_TaskBuffer FLOW_OK, B_TaskEvent}" "pb_run as s1 = Some s'"
        "p_out (x_pb s') = p_out (x_pb s1) @ bufs @ [PO_Event Ev_Eos]"
        "buffer_bytes bufs = content src (?r + int (length bs)) (nat (?stop - (?r + int (length bs))))"
        "\<not> p_task (x_pb s')" "p_srcresult (x_pb s') = FLOW_EOS"
      using s1(5,6) by auto
    have "buffer_bytes (PO_Buffer bs ?r # bufs) = content src ?r (nat (?stop - ?r))"
      using s1(3) r(4) by (simp add: len content_append)
    moreover have "pb_run ([B_Task True n True, B_TaskBuffer FLOW_OK] @ as) s = Some s'"
      using s1(1) r(2) by (simp only: pb_run_append option.case)
    ultimately show ?thesis using r s1(4)
      by (intro exI [of _ "[B_Task True n True, B_TaskBuffer FLOW_OK] @ as"] exI [of _ s'] exI [of _ "PO_Buffer bs ?r # bufs"])
        (simp del: pb_run.simps)
  next
    case False
    with after drain_end [of s1 n] obtain s' where
      r: "pb_run [B_Task True n True, B_TaskEvent] s1 = Some s'" "p_out (x_pb s') = p_out (x_pb s1) @ [PO_Event Ev_Eos]"
        "\<not> p_task (x_pb s')" "p_srcresult (x_pb s') = FLOW_EOS" by auto
    have "nat (?stop - ?r) = length bs" using False s1 by linarith
    then have "buffer_bytes [PO_Buffer bs ?r] = content src ?r (nat (?stop - ?r))" using s1(3) by simp
    moreover have "pb_run ([B_Task True n True, B_TaskBuffer FLOW_OK] @ [B_Task True n True, B_TaskEvent]) s = Some s'"
      using s1(1) r(1) by (simp only: pb_run_append option.case)
    ultimately show ?thesis using r s1(4)
      by (intro exI [of _ "[B_Task True n True, B_TaskBuffer FLOW_OK] @ [B_Task True n True, B_TaskEvent]"] exI [of _ s']
          exI [of _ "[PO_Buffer bs ?r]"]) (simp del: pb_run.simps)
  qed
qed

text \<open>Two bytes are in the cache and the task has pushed the segment.\<close>

definition sample_sys :: psys where
  "sample_sys =
     \<lparr>x_pb = progress_buffer_init\<lparr>p_cache := Some (cache_write_buffer True 2 [1, 2] new_cache), p_sink_segment := pseg_of True 0 2,
               p_instant_seek := True, p_srcpad := True, p_task := True\<rparr>,
      x_up = U_Idle, x_task = T_Top, x_seek = K_Idle\<rparr>"

theorem pb_drains_to_eos_witness:
  "\<exists>as s' bufs. pb_run as sample_sys = Some s' \<and> p_out (x_pb s') = bufs @ [PO_Event Ev_Eos] \<and> buffer_bytes bufs = [1, 2]"
proof -
  have "drainable (\<lambda>i. i + 1) sample_sys" by code_simp
  moreover have "(0 :: int) < 1" by simp
  moreover have "content (\<lambda>i. i + 1) (read_offset (x_pb sample_sys))
      (nat (ps_stop (p_sink_segment (x_pb sample_sys)) - read_offset (x_pb sample_sys))) = [1, 2]" by code_simp
  moreover have "p_out (x_pb sample_sys) = []" by code_simp
  ultimately show ?thesis using pb_drains_to_eos [of "\<lambda>i. i + 1" sample_sys 1] by auto
qed

section \<open>Crashes\<close>

text \<open>
  C34: the element is brought down only through a missing cache (data, a segment that keeps the cache,
  the task or a seek while there is none), or by a read that gives the task no buffer.
\<close>

theorem pb_crash_only:
  assumes "pb_step a s = P_Crash"
  shows "p_cache (x_pb s) = None \<or>
    (\<exists>al n w c pos c'. a = B_Task al n w \<and> p_cache (x_pb s) = Some c \<and> cache_has_enough_data c
       \<and> cache_read_buffer al n w c = (pos, None, c'))"
proof (cases "p_cache (x_pb s)")
  case (Some c)
  have nc: "pnext r = P_Crash \<longleftrightarrow> r = None" for r by (simp add: pnext_def split: option.split)
  note d = Some enqueue_buffer_def enqueue_event_def seek_in_cache_def Let_def
  show ?thesis
  proof (cases a)
    case (B_Chain ov se ma n off data)
    have "\<exists>r. progress_buffer_chain ov se ma n off data (x_pb s) = Some r"
      by (auto simp: progress_buffer_chain_def d split: prod.split)
    with B_Chain assms show ?thesis by (auto simp: nc Let_def split: if_splits)
  next
    case (B_Event ov fr ev)
    have "\<exists>r. enqueue_event ov fr ev (x_pb s) = Some r"
      by (cases ev) (auto simp: d split: prod.split)
    then have "\<exists>r. progress_buffer_sink_event ov fr ev (x_pb s) = Some r"
      by (auto simp: progress_buffer_sink_event_def)
    with B_Event assms show ?thesis by (auto simp: nc split: if_splits)
  next
    case (B_SeekJoin near)
    have nn: "(seek_locked near k (x_pb s) = None) = False" for k by (auto simp: seek_locked_def d)
    with B_SeekJoin assms show ?thesis by (auto simp: nc nn split: if_splits seek_pc.splits bind_splits)
  next
    case (B_SeekReply h)
    have nn: "(seek_source_end h k (x_pb s) = None) = False" for k by (auto simp: seek_source_end_def d)
    with B_SeekReply assms show ?thesis by (auto simp: nc nn split: seek_pc.splits bind_splits)
  next
    case (B_Task al n w)
    with assms obtain skip where "loop_section al n w skip (x_pb s) = None"
      by (auto simp: nc task_step_def split: option.splits bind_splits)
    with Some B_Task show ?thesis
      by (cases "cache_read_buffer al n w c")
        (auto simp: loop_section_def Let_def split: if_splits option.splits bind_splits)
  qed (use assms in \<open>auto simp: Let_def split: if_splits seek_pc.splits task_pc.splits prod.splits\<close>)
qed simp

theorem pb_crash_only_witness:
  "pb_step (B_Task True 1 False) sample_sys = P_Crash \<and>
   (\<exists>c pos c'. p_cache (x_pb sample_sys) = Some c \<and> cache_read_buffer True 1 False c = (pos, None, c'))"
proof -
  have "pb_step (B_Task True 1 False) sample_sys = P_Crash" by code_simp
  with pb_crash_only [OF this] show ?thesis by (auto simp: sample_sys_def)
qed

text \<open>
  when the cache cannot be created the element posts an error but goes on without one: the answer
  of the event handler does not tell upstream, and the next buffer is written through a null pointer.
\<close>

theorem pb_cache_failure_crash:
  "\<exists>s. pb_reachable s \<and> PM_Error \<in> set (p_out (x_pb s)) \<and> pb_step (B_Chain False False True 2 0 [1, 2]) s = P_Crash"
  by (rule reachable_by_run [where as = "[B_Event False None (SE_Segment (pseg_of True 0 2))]"]) code_simp

section \<open>Pull mode\<close>

text \<open>
  A range of a download that started at the beginning of the medium is served: when the window of the cache starts at
  offset 0 and holds the range, the pull returns the bytes of the medium at the position asked for. (For a window that
  starts elsewhere it does not: \<open>pb_getrange_ignores_offset\<close>.)
\<close>

theorem pb_getrange_serves:
  assumes "p_cache e = Some c" "holds src 0 c" "ps_position (p_sink_segment e) = c_write_position c"
    and "ps_start (p_sink_segment e) \<le> start" "0 \<le> start" "0 \<le> sz" "start + sz \<le> ps_position (p_sink_segment e)"
    and "ps_position (p_sink_segment e) \<le> ps_stop (p_sink_segment e)" "sz \<le> n"
  shows "\<exists>e' c'. progress_buffer_getrange True n True prebuffer far start sz e
      = Some (FLOW_OK, Some \<lparr>b_data = content src start (nat sz), b_offset = start\<rparr>, e')
    \<and> p_cache e' = Some c' \<and> holds src 0 c'"
proof -
  let ?w = "nat (c_write_position c)"
  have h: "c_write_position c \<le> 2 ^ 62" "c_read_off c = c_read_position c" "?w \<le> length (c_file c)"
    "take ?w (c_file c) = content src 0 ?w" "0 \<le> c_write_position c" using assms(2) by (auto simp: holds_def)
  have w: "u64 (start + sz) = start + sz" "i64 start = start" "i64 (start + sz) = start + sz"
    using assms(3,5-7) h(1) by (auto simp: u64_def intro!: i64_small)
  have fits: "nat start + nat sz \<le> ?w" using assms(3,5-7) by linarith
  have "take (nat sz) (drop (nat start) (c_file c)) = take (nat sz) (drop (nat start) (take ?w (c_file c)))"
    using fits by (simp add: drop_take min_def)
  also have "\<dots> = content src start (nat sz)"
    using fits assms(5) by (simp add: h(4) content_drop) (simp add: content_def take_map)
  finally have bytes: "take (nat sz) (drop (nat start) (c_file c)) = content src start (nat sz)" .
  let ?d = "c\<lparr>c_read_off := start, c_read_position := start\<rparr>"
  let ?c = "c\<lparr>c_read_off := start + sz, c_read_position := start + sz\<rparr>"
  have "cache_set_read_position start c = (True, ?d)"
    using assms(5) h(2) by (cases c) (auto simp: cache_set_read_position_def cache_set_handler_position_def)
  moreover have "os_read n sz ?d = (sz, content src start (nat sz), ?d\<lparr>c_read_off := start + sz\<rparr>)"
    using assms(6,9) bytes by (simp add: os_read_def Let_def)
  ultimately have "cache_read_buffer_from_position True n True start sz c
      = (FLOW_OK, Some \<lparr>b_data = content src start (nat sz), b_offset = start\<rparr>, ?c)"
    using w(3) by (simp add: cache_read_buffer_from_position_def Let_def)
  then have "progress_buffer_getrange True n True prebuffer far start sz e
      = Some (FLOW_OK, Some \<lparr>b_data = content src start (nat sz), b_offset = start\<rparr>, e\<lparr>p_cache := Some ?c\<rparr>)"
    using assms(1,4,7,8) w(1,2) by (simp add: progress_buffer_getrange_def Let_def)
  moreover have "holds src 0 ?c" using assms(2,5,6) by (simp add: holds_def)
  ultimately show ?thesis by simp
qed

definition sample_pull :: pb where
  "sample_pull = (x_pb sample_sys)\<lparr>p_sink_segment := (pseg_of True 0 2)\<lparr>ps_position := 2\<rparr>\<rparr>"

theorem pb_getrange_serves_witness:
  "\<exists>e'. progress_buffer_getrange True 1 True 0 False 1 1 sample_pull = Some (FLOW_OK, Some \<lparr>b_data = [2], b_offset = 1\<rparr>, e')"
proof -
  let ?c = "cache_write_buffer True 2 [1, 2] new_cache" and ?src = "\<lambda>i :: int. i + 1"
  have "p_cache sample_pull = Some ?c" "ps_position (p_sink_segment sample_pull) = 2" "ps_start (p_sink_segment sample_pull) = 0"
    "ps_stop (p_sink_segment sample_pull) = 2"
    by (simp_all add: sample_pull_def sample_sys_def pseg_of_def)
  moreover have "holds ?src 0 ?c" "c_write_position ?c = 2" "content ?src 1 1 = [2]" by code_simp+
  ultimately show ?thesis using pb_getrange_serves [of sample_pull ?c ?src 1 1 1 0 False] by auto
qed

text \<open>
  a range that is not there yet is asked for and announced. The pull answers \<open>FLUSHING\<close> and
  records where the range ends (with the prebuffer, but not behind the end of the stream); the
  monitor thread then waits exactly until that much has arrived, and announces the range once.
\<close>

theorem pb_range_announced:
  assumes "ps_start (p_sink_segment e) \<le> start" "0 \<le> start" "0 \<le> sz" "ps_position (p_sink_segment e) < start + sz"
    and "0 \<le> ps_position (p_sink_segment e)" "start + sz \<le> ps_stop (p_sink_segment e)" "ps_stop (p_sink_segment e) \<le> 2 ^ 62"
    and "0 \<le> prebuffer" "prebuffer < 2 ^ 62"
    and "p_srcresult e = FLOW_OK" "\<not> p_eos e" "p_range_start e = NO_RANGE_REQUEST"
  shows "\<exists>e'. progress_buffer_getrange al n w prebuffer far start sz e = Some (FLOW_FLUSHING, None, e')
    \<and> p_range_stop e' = min (start + sz + prebuffer) (ps_stop (p_sink_segment e))
    \<and> progress_buffer_range_monitor (e'\<lparr>p_sink_segment := (p_sink_segment e)\<lparr>ps_position := q\<rparr>\<rparr>) =
        (let e'' = e'\<lparr>p_sink_segment := (p_sink_segment e)\<lparr>ps_position := q\<rparr>\<rparr>
         in if q < p_range_stop e' then MR_Wait e''
            else MR_Ready (post PO_RangeReady (e''\<lparr>p_range_stop := NO_RANGE_REQUEST, p_range_start := NO_RANGE_REQUEST\<rparr>)))"
proof -
  let ?seg = "p_sink_segment e"
  have w: "u64 (start + sz) = start + sz" "i64 (start + sz + prebuffer) = start + sz + prebuffer"
    "u64 (start + sz + prebuffer) = start + sz + prebuffer" "i64 (ps_stop ?seg) = ps_stop ?seg"
    using assms by (auto simp: u64_def intro!: i64_small)
  define stop where "stop = min (start + sz + prebuffer) (ps_stop ?seg)"
  have stop: "ps_stop ?seg < start + sz + prebuffer \<Longrightarrow> ps_stop ?seg = stop"
    "\<not> ps_stop ?seg < start + sz + prebuffer \<Longrightarrow> start + sz + prebuffer = stop" "0 \<le> stop" "stop < 2 ^ 64" "stop \<noteq> NO_RANGE_REQUEST" "u64 stop = stop" "i64 stop = stop"
    using assms by (auto simp: stop_def u64_def NO_RANGE_REQUEST_def intro!: i64_small)
  let ?e1 = "send_underrun_message (e\<lparr>p_range_stop := stop\<rparr>)"
  let ?e' = "if far then post (PO_SeekUpstream (ps_rate ?seg) (i64 start)) ?e1 else ?e1"
  have get: "progress_buffer_getrange al n w prebuffer far start sz e = Some (FLOW_FLUSHING, None, ?e')"
    using assms(1,4,6) stop(1,2)
    by (cases "ps_stop ?seg < start + sz + prebuffer") (simp_all add: progress_buffer_getrange_def Let_def w stop(6,7))
  have f: "p_range_stop ?e' = stop" "p_range_start ?e' = NO_RANGE_REQUEST" "p_srcresult ?e' = FLOW_OK" "\<not> p_eos ?e'"
    using assms(10-12) by (simp_all add: send_underrun_message_def post_def)
  show ?thesis
    using f stop(5,6) get
    by (intro exI [of _ ?e']) (auto simp: stop_def [symmetric] progress_buffer_range_monitor_def pending_eos_def pending_range_start_def
        pending_range_stop_def VALID_RANGE_def Let_def simp del: if_split)
qed

theorem pb_range_announced_witness:
  "\<exists>e'. progress_buffer_getrange True 1 True 5 False 1 2 (sample_pull\<lparr>p_sink_segment := pseg_of True 0 9\<rparr>) = Some (FLOW_FLUSHING, None, e')
    \<and> p_range_stop e' = 8"
  using pb_range_announced [of "sample_pull\<lparr>p_sink_segment := pseg_of True 0 9\<rparr>" 1 2 5 True 1 True False]
  by (auto simp: sample_pull_def sample_sys_def pseg_of_def progress_buffer_init_def progress_buffer_flush_data_def)

text \<open>
  pull mode forgets where the window starts. After a segment that starts at offset 2 the cache
  holds the medium from there on, but the pull uses the stream position as the position in the file:
  asked for the bytes at offset 2 it answers successfully with those at offset 4.
\<close>

theorem pb_getrange_ignores_offset:
  "\<exists>s e' b. pb_streaming (\<lambda>i. i) s
     \<and> progress_buffer_getrange True 2 True 0 False 2 2 (x_pb s) = Some (FLOW_OK, Some b, e')
     \<and> b_offset b = 2 \<and> b_data b = content (\<lambda>i. i) 4 2"
proof -
  let ?as = "[B_Event False (Some new_cache) (SE_Segment (pseg_of True 0 8)), B_Event False None (SE_Segment (pseg_of False 2 8)),
      B_Chain False False True 4 2 [2, 3, 4, 5]]"
  let ?get = "\<lambda>s. progress_buffer_getrange True 2 True 0 False 2 2 (x_pb s)"
  let ?good = "\<lambda>r. case r of None \<Rightarrow> False | Some (f, b, _) \<Rightarrow> f = FLOW_OK \<and>
      (case b of None \<Rightarrow> False | Some b \<Rightarrow> b_offset b = 2 \<and> b_data b = content (\<lambda>i. i) 4 2)"
  have "case pb_send_run (\<lambda>i. i) ?as pb_start of None \<Rightarrow> False | Some s \<Rightarrow> ?good (?get s)" by code_simp
  then obtain s where s: "pb_send_run (\<lambda>i. i) ?as pb_start = Some s" "?good (?get s)"
    by (cases "pb_send_run (\<lambda>i. i) ?as pb_start") simp_all
  from s(2) obtain e' b where "?get s = Some (FLOW_OK, Some b, e')" "b_offset b = 2" "b_data b = content (\<lambda>i. i) 4 2"
    by (auto split: option.splits)
  with pb_send_run_streaming [OF s(1) pb_streaming.start] show ?thesis by blast
qed

end
