(* ===== verification/JavaSource.thy ===== *)
theory JavaSource
  imports ProgressBuffer
begin

unbundle bit_operations_syntax

text \<open>
  The source element of the media pipeline, \<open>gstreamer/plugins/javasource/javasource.c\<close>, and the Java connections it reads
  from (\<open>jfxmedia/locator/ConnectionHolder.java\<close> through \<open>jni/JavaInputStreamCallbacks.cpp\<close>).

  The record \<open>jsrc\<close> is \<open>struct _JavaSource\<close> with the state of the task that GStreamer runs on the source pad and
  the items that were pushed. The signals of the element are the record \<open>callbacks\<close> over a connection of any type.
  The stream lock of the pad is recursive: the task holds it while it runs the loop, a seek takes it, and an
  element downstream may seek from inside a push.
\<close>

section \<open>Signals and connections\<close>

record 'j callbacks =
  cb_read_next_block :: "'j \<Rightarrow> int \<times> 'j"
  cb_read_block :: "int \<Rightarrow> int \<Rightarrow> 'j \<Rightarrow> int \<times> 'j"
  cb_copy_block :: "int \<Rightarrow> 'j \<Rightarrow> int list"
  cb_seek_data :: "int \<Rightarrow> 'j \<Rightarrow> int \<times> 'j"
  cb_property :: "int \<Rightarrow> int \<Rightarrow> 'j \<Rightarrow> int \<times> 'j"
  cb_get_stream_size :: "'j \<Rightarrow> int \<times> 'j"
  cb_close_connection :: "'j \<Rightarrow> 'j"

definition EOS_CODE :: int where "EOS_CODE = - 1"
definition OTHER_ERROR_CODE :: int where "OTHER_ERROR_CODE = - 2"
definition MAX_READ_SIZE :: int where "MAX_READ_SIZE = 65536"
definition HLS_PROP_GET_DURATION :: int where "HLS_PROP_GET_DURATION = 1"
definition HLS_VALUE_FLOAT_MULTIPLIER :: int where "HLS_VALUE_FLOAT_MULTIPLIER = 1000"
definition GST_SECOND :: int where "GST_SECOND = 1000000000"

text \<open>
  The native side of a connection, \<open>jfxmedia/jni/JavaInputStreamCallbacks.cpp\<close>. It calls the Java object while it holds it; \<open>CloseConnection\<close> lets it go, and from
  then on the methods answer -1 without a call. (\<open>CopyBlock\<close> then copies nothing, but no block has been announced either.)
\<close>

definition CJavaInputStreamCallbacks :: "('j \<Rightarrow> bool) \<Rightarrow> 'j callbacks \<Rightarrow> 'j callbacks" where
  "CJavaInputStreamCallbacks held cb =
     cb\<lparr>cb_read_next_block := (\<lambda>j. if held j then cb_read_next_block cb j else (- 1, j)),
        cb_read_block := (\<lambda>p n j. if held j then cb_read_block cb p n j else (- 1, j)),
        cb_seek_data := (\<lambda>p j. if held j then cb_seek_data cb p j else (- 1, j))\<rparr>"

subsection \<open>The connection to a file\<close>

text \<open>
  \<open>FileConnectionHolder\<close>: the file, the position of its channel, the direct buffer, and whether the channel is open.
  A Java exception becomes \<open>OTHER_ERROR_CODE\<close> in \<open>ReadNextBlock\<close> and \<open>ReadBlock\<close>; \<open>fc_jni\<close> is what a
  JNI call that threw yields in \<open>Seek\<close>.
\<close>

record file_conn =
  fc_data :: "int list"
  fc_pos :: int
  fc_buffer :: "int list"
  fc_open :: bool
  fc_jni :: int

definition FILE_BUFFER_SIZE :: int where "FILE_BUFFER_SIZE = 4096"

definition fill_buffer :: "int list \<Rightarrow> int list \<Rightarrow> int list" where
  "fill_buffer bs buf = bs @ drop (length bs) buf"

definition channel_bytes :: "int \<Rightarrow> int \<Rightarrow> int list \<Rightarrow> int list" where
  "channel_bytes p n data = take (nat n) (drop (nat p) data)"

definition file_readNextBlock :: "file_conn \<Rightarrow> int \<times> file_conn" where
  "file_readNextBlock j =
     (if \<not> fc_open j then (OTHER_ERROR_CODE, j)
      else if int (length (fc_data j)) \<le> fc_pos j then (EOS_CODE, j)
      else let bs = channel_bytes (fc_pos j) (int (length (fc_buffer j))) (fc_data j)
           in (int (length bs), j\<lparr>fc_pos := fc_pos j + int (length bs), fc_buffer := fill_buffer bs (fc_buffer j)\<rparr>))"

definition file_readBlock :: "int \<Rightarrow> int \<Rightarrow> file_conn \<Rightarrow> int \<times> file_conn" where
  "file_readBlock p n j =
     (if \<not> fc_open j then (OTHER_ERROR_CODE, j)
      else
        let j = (if int (length (fc_buffer j)) < n then j\<lparr>fc_buffer := replicate (nat n) 0\<rparr> else j)
        in if i64 p < 0 \<or> n < 0 then (OTHER_ERROR_CODE, j)
           else if int (length (fc_data j)) \<le> i64 p then (EOS_CODE, j)
           else let bs = channel_bytes (i64 p) n (fc_data j)
                in (int (length bs), j\<lparr>fc_buffer := fill_buffer bs (fc_buffer j)\<rparr>))"

definition file_copyBlock :: "int \<Rightarrow> file_conn \<Rightarrow> int list" where
  "file_copyBlock n j = take (nat n) (fc_buffer j)"

definition file_seek :: "int \<Rightarrow> file_conn \<Rightarrow> int \<times> file_conn" where
  "file_seek p j = (if fc_open j \<and> 0 \<le> p then (p, j\<lparr>fc_pos := p\<rparr>) else (fc_jni j, j))"

definition file_callbacks :: "file_conn callbacks" where
  "file_callbacks = CJavaInputStreamCallbacks fc_open \<lparr>cb_read_next_block = file_readNextBlock, cb_read_block = file_readBlock, cb_copy_block = file_copyBlock,
     cb_seek_data = file_seek, cb_property = (\<lambda>_ _ j. (0, j)), cb_get_stream_size = (\<lambda>j. (- 1, j)),
     cb_close_connection = (\<lambda>j. j\<lparr>fc_open := False\<rparr>)\<rparr>"

subsection \<open>The connection to a buffer in memory\<close>

text \<open>
  \<open>MemoryConnectionHolder\<close>: the backing buffer with its position, and \<open>buffer\<close>, a slice of it. Reading the next block
  takes the slice and leaves the position where it is.
\<close>

record mem_conn =
  mc_data :: "int list"
  mc_pos :: int
  mc_buffer :: "int list"
  mc_open :: bool
  mc_jni :: int

definition mem_readNextBlock :: "mem_conn \<Rightarrow> int \<times> mem_conn" where
  "mem_readNextBlock j =
     (if \<not> mc_open j then (OTHER_ERROR_CODE, j)
      else if int (length (mc_data j)) - mc_pos j \<le> 0 then (EOS_CODE, j)
      else let actual = min FILE_BUFFER_SIZE (int (length (mc_data j)) - mc_pos j)
           in (actual, j\<lparr>mc_buffer := drop (nat (mc_pos j)) (mc_data j)\<rparr>))"

definition mem_readBlock :: "int \<Rightarrow> int \<Rightarrow> mem_conn \<Rightarrow> int \<times> mem_conn" where
  "mem_readBlock p n j =
     (if \<not> mc_open j then (OTHER_ERROR_CODE, j)
      else if i32 p > int (length (mc_data j)) then (EOS_CODE, j)
      else if i32 p < 0 then (OTHER_ERROR_CODE, j)
      else let actual = min (int (length (mc_data j)) - i32 p) n
           in if actual < 0 then (OTHER_ERROR_CODE, j\<lparr>mc_pos := i32 p, mc_buffer := drop (nat (i32 p)) (mc_data j)\<rparr>)
              else (actual, j\<lparr>mc_pos := i32 p + actual, mc_buffer := drop (nat (i32 p)) (mc_data j)\<rparr>))"

definition mem_copyBlock :: "int \<Rightarrow> mem_conn \<Rightarrow> int list" where
  "mem_copyBlock n j = take (nat n) (mc_buffer j)"

definition mem_seek :: "int \<Rightarrow> mem_conn \<Rightarrow> int \<times> mem_conn" where
  "mem_seek p j =
     (if i32 p < int (length (mc_data j)) then if 0 \<le> i32 p then (p, j\<lparr>mc_pos := i32 p\<rparr>) else (mc_jni j, j) else (- 1, j))"

definition mem_callbacks :: "mem_conn callbacks" where
  "mem_callbacks = CJavaInputStreamCallbacks mc_open \<lparr>cb_read_next_block = mem_readNextBlock, cb_read_block = mem_readBlock, cb_copy_block = mem_copyBlock,
     cb_seek_data = mem_seek, cb_property = (\<lambda>_ _ j. (0, j)), cb_get_stream_size = (\<lambda>j. (- 1, j)),
     cb_close_connection = (\<lambda>j. j\<lparr>mc_open := False\<rparr>)\<rparr>"

section \<open>The element\<close>

definition MODE_DEFAULT :: int where "MODE_DEFAULT = 0x01"
definition MODE_HLS :: int where "MODE_HLS = 0x02"
definition MODE_HLS_LIVE :: int where "MODE_HLS_LIVE = 0x04"

datatype jevent = EV_STREAM_START | EV_SEGMENT | EV_EOS | EV_UNKNOWN

datatype task_state = TASK_STOPPED | TASK_STARTED | TASK_PAUSED

record jseg = pseg +
  js_time :: int

datatype jout =
    JO_StreamStart
  | JO_Segment jseg
  | JO_Caps string
  | JO_Buffer "int list" int bool
  | JO_Eos
  | JO_FlushStart
  | JO_FlushStop

record jsrc =
  s_srcresult :: flow
  s_pending_event :: jevent
  s_position :: int
  s_position_time :: int
  s_size :: int
  s_is_seekable :: bool
  s_is_random_access :: bool
  s_update :: bool
  s_discont :: bool
  s_mode :: int
  s_stop_on_pause :: bool
  s_location :: "string option"
  s_mimetype :: "string option"
  s_rate :: int
  s_task :: task_state
  s_out :: "jout list"

definition in_mode :: "int \<Rightarrow> jsrc \<Rightarrow> bool" where
  "in_mode m e \<longleftrightarrow> s_mode e AND m = m"

definition send_out :: "jout \<Rightarrow> jsrc \<Rightarrow> jsrc" where
  "send_out x e = e\<lparr>s_out := s_out e @ [x]\<rparr>"

text \<open>A new element: the fields GObject clears, \<open>java_source_init\<close>, and the defaults of the construct properties.\<close>

definition java_source_init :: jsrc where
  "java_source_init =
     \<lparr>s_srcresult = FLOW_OK, s_pending_event = EV_UNKNOWN, s_position = 0, s_position_time = 0, s_size = - 1,
      s_is_seekable = False, s_is_random_access = False, s_update = False, s_discont = False, s_mode = MODE_DEFAULT,
      s_stop_on_pause = True, s_location = None, s_mimetype = None, s_rate = 1, s_task = TASK_STOPPED, s_out = []\<rparr>"

datatype jprop = PROP_SIZE int | PROP_IS_SEEKABLE bool | PROP_IS_RANDOM_ACCESS bool | PROP_STOP_ON_PAUSE bool
  | PROP_LOCATION "string option" | PROP_HLS_MODE bool | PROP_MIMETYPE "string option" | PROP_0

fun java_source_set_property :: "jprop \<Rightarrow> jsrc \<Rightarrow> jsrc" where
  "java_source_set_property (PROP_SIZE n) e = e\<lparr>s_size := n\<rparr>"
| "java_source_set_property (PROP_IS_SEEKABLE b) e = e\<lparr>s_is_seekable := b\<rparr>"
| "java_source_set_property (PROP_IS_RANDOM_ACCESS b) e = e\<lparr>s_is_random_access := b\<rparr>"
| "java_source_set_property (PROP_STOP_ON_PAUSE b) e = e\<lparr>s_stop_on_pause := b\<rparr>"
| "java_source_set_property (PROP_LOCATION l) e = e\<lparr>s_location := l\<rparr>"
| "java_source_set_property (PROP_HLS_MODE b) e = e\<lparr>s_mode := if b then MODE_HLS else MODE_DEFAULT\<rparr>"
| "java_source_set_property (PROP_MIMETYPE m) e = e\<lparr>s_mimetype := m\<rparr>"
| "java_source_set_property PROP_0 e = e"

definition java_source_get_property :: "bool \<Rightarrow> jsrc \<Rightarrow> string option option" where
  "java_source_get_property is_location e = (if is_location then Some (s_location e) else None)"

text \<open>Activation of the source pad; \<open>linked\<close> and \<open>started\<close> are what the pad answers.\<close>

definition java_source_activatemode :: "bool \<Rightarrow> bool \<Rightarrow> pad_mode \<Rightarrow> bool \<Rightarrow> jsrc \<Rightarrow> bool \<times> jsrc" where
  "java_source_activatemode linked started mode active e =
     (case mode of
        MODE_PUSH \<Rightarrow>
          if active then
            let e = e\<lparr>s_srcresult := FLOW_OK\<rparr>
            in if linked then (started, if started then e\<lparr>s_task := TASK_STARTED\<rparr> else e) else (True, e)
          else (started, e\<lparr>s_srcresult := FLOW_FLUSHING, s_task := if started then TASK_STOPPED else s_task e\<rparr>)
      | MODE_PULL \<Rightarrow> (True, e)
      | MODE_NONE \<Rightarrow> (False, e))"

subsection \<open>Seeking\<close>

datatype jformat = FMT_BYTES | FMT_TIME | FMT_OTHER

record jseek =
  q_format :: jformat
  q_flush :: bool
  q_start :: int
  q_rate :: int

text \<open>
  \<open>java_source_perform_seek\<close> up to the stream lock, and from there on. The seek is refused in the wrong format.
  In live mode the signal is emitted before the stream lock is taken; \<open>seek_signal\<close> is that emission.
\<close>

definition seek_begin :: "jseek \<Rightarrow> jsrc \<Rightarrow> bool \<times> jsrc" where
  "seek_begin k e =
     (if q_format k \<noteq> FMT_BYTES \<and> in_mode MODE_DEFAULT e then (False, e)
      else if q_format k \<noteq> FMT_TIME \<and> in_mode MODE_HLS e then (False, e)
      else (True, (if q_flush k then send_out JO_FlushStart e else e)\<lparr>s_srcresult := FLOW_FLUSHING\<rparr>))"

definition seek_target :: "jseek \<Rightarrow> jsrc \<Rightarrow> int" where
  "seek_target k e = (if in_mode MODE_HLS e then cdiv (q_start k) GST_SECOND else q_start k)"

definition seek_signal :: "'j callbacks \<Rightarrow> jseek \<Rightarrow> jsrc \<Rightarrow> 'j \<Rightarrow> int \<times> 'j" where
  "seek_signal cb k e j = cb_seek_data cb (seek_target k e) j"

definition seek_end :: "jseek \<Rightarrow> int \<Rightarrow> jsrc \<Rightarrow> bool \<times> jsrc" where
  "seek_end k new_position e =
     (let ok = new_position \<ge> 0;
          e = (if ok then
                 let e = e\<lparr>s_rate := q_rate k, s_pending_event := EV_SEGMENT\<rparr>;
                     e = (if in_mode MODE_HLS e
                          then e\<lparr>s_position := 0, s_position_time := cdiv (i64 (new_position * GST_SECOND)) HLS_VALUE_FLOAT_MULTIPLIER\<rparr>
                          else e\<lparr>s_position := seek_target k e, s_position_time := 0\<rparr>)
                 in e\<lparr>s_discont := True, s_update := False\<rparr>
               else e);
          e = e\<lparr>s_srcresult := FLOW_OK\<rparr>;
          e = (if q_flush k then send_out JO_FlushStop e else e)
      in (ok, e\<lparr>s_task := TASK_STARTED\<rparr>))"

definition java_source_perform_seek :: "'j callbacks \<Rightarrow> jseek \<Rightarrow> jsrc \<Rightarrow> 'j \<Rightarrow> bool \<times> jsrc \<times> 'j" where
  "java_source_perform_seek cb k e j =
     (case seek_begin k e of (go, e) \<Rightarrow>
        if go then case seek_signal cb k e j of (p, j) \<Rightarrow> case seek_end k p e of (ok, e) \<Rightarrow> (ok, e, j)
        else (False, e, j))"

text \<open>\<open>java_source_event\<close>; \<open>deflt\<close> is the answer of \<open>gst_pad_event_default\<close>, \<open>None\<close> an event that is no seek.\<close>

definition java_source_event :: "bool \<Rightarrow> 'j callbacks \<Rightarrow> jseek option \<Rightarrow> jsrc \<Rightarrow> 'j \<Rightarrow> bool \<times> jsrc \<times> 'j" where
  "java_source_event deflt cb ev e j =
     (case ev of
        Some k \<Rightarrow> if s_is_seekable e then java_source_perform_seek cb k e j else (deflt, e, j)
      | None \<Rightarrow> (deflt, e, j))"

subsection \<open>The loop of the source pad\<close>

text \<open>
  What the pipeline answers in one turn of the loop: whether an event is taken, the result of a push, a seek that an element
  downstream makes from inside the push, and whether a buffer could be allocated and mapped.
\<close>

record replies =
  rp_event :: bool
  rp_push :: flow
  rp_seek :: "jseek option"
  rp_alloc :: bool
  rp_map :: bool

definition event_result :: "bool \<Rightarrow> flow" where
  "event_result ok = (if ok then FLOW_OK else FLOW_FLUSHING)"

definition default_segment :: "jsrc \<Rightarrow> jseg" where
  "default_segment e = \<lparr>ps_start = u64 (s_position e), ps_stop = u64 (s_size e), ps_position = u64 (s_position e), ps_rate = s_rate e,
     ps_bytes = True, ps_update = s_update e, js_time = 0\<rparr>"

definition hls_segment :: "int \<Rightarrow> jsrc \<Rightarrow> jseg" where
  "hls_segment n e = \<lparr>ps_start = 0, ps_stop = u64 n, ps_position = u64 (s_position_time e), ps_rate = s_rate e,
     ps_bytes = True, ps_update = s_update e, js_time = u64 (s_position_time e)\<rparr>"

text \<open>The cases of the switch. \<open>goto next_event\<close> after setting the pending event is a call of that event's case.\<close>

definition do_stream_start :: "replies \<Rightarrow> jsrc \<Rightarrow> flow \<times> jsrc" where
  "do_stream_start r e = (event_result (rp_event r), (send_out JO_StreamStart e)\<lparr>s_pending_event := EV_SEGMENT\<rparr>)"

definition do_eos :: "jsrc \<Rightarrow> flow \<times> jsrc" where
  "do_eos e = (FLOW_EOS, send_out JO_Eos e)"

definition do_segment :: "replies \<Rightarrow> 'j callbacks \<Rightarrow> jsrc \<Rightarrow> 'j \<Rightarrow> flow \<times> jsrc \<times> 'j" where
  "do_segment r cb e j =
     (let push = (\<lambda>seg e. (event_result (rp_event r), (send_out (JO_Segment seg) e)\<lparr>s_pending_event := EV_UNKNOWN\<rparr>))
      in if in_mode MODE_HLS e then
           case cb_get_stream_size cb j of (n, j) \<Rightarrow>
             if s_srcresult e = FLOW_FLUSHING then (FLOW_OK, e, j)
             else if n = - 1 then case do_eos (e\<lparr>s_pending_event := EV_EOS\<rparr>) of (res, e) \<Rightarrow> (res, e, j)
             else
               let e' = (if n < 0 then e\<lparr>s_discont := True\<rparr> else e); n = (if n < 0 then i32 (- n) else n)
               in case push (hls_segment n e') e' of (res, e) \<Rightarrow> (res, e, j)
         else case push (default_segment e) e of (res, e) \<Rightarrow> (res, e, j))"

definition push_caps :: "jsrc \<Rightarrow> jsrc" where
  "push_caps e = (case s_mimetype e of None \<Rightarrow> e | Some m \<Rightarrow> (send_out (JO_Caps m) e)\<lparr>s_mimetype := None\<rparr>)"

definition push_block :: "replies \<Rightarrow> 'j callbacks \<Rightarrow> int \<Rightarrow> jsrc \<Rightarrow> 'j \<Rightarrow> flow \<times> jsrc \<times> 'j" where
  "push_block r cb n e j =
     (let buf = JO_Buffer (cb_copy_block cb n j) (u64 (s_position e)) (s_discont e);
          e = send_out buf (push_caps (e\<lparr>s_discont := False\<rparr>));
          (e, j) = (case rp_seek r of None \<Rightarrow> (e, j) | Some k \<Rightarrow> snd (java_source_event False cb (Some k) e j));
          e = (if s_pending_event e \<noteq> EV_SEGMENT then e\<lparr>s_position := i64 (s_position e + n)\<rparr> else e)
      in if rp_push r = FLOW_EOS then case do_eos (e\<lparr>s_pending_event := EV_EOS\<rparr>) of (res, e) \<Rightarrow> (res, e, j)
         else (rp_push r, e, j))"

definition do_buffer :: "replies \<Rightarrow> 'j callbacks \<Rightarrow> jsrc \<Rightarrow> 'j \<Rightarrow> flow \<times> jsrc \<times> 'j" where
  "do_buffer r cb e j =
     (case cb_read_next_block cb j of (n, j) \<Rightarrow>
        if n > 0 then
          if \<not> rp_alloc r then (FLOW_OK, e, j)
          else if \<not> rp_map r then (FLOW_ERROR, e, j)
          else push_block r cb n e j
        else if in_mode MODE_DEFAULT e \<and> n = EOS_CODE then
          case do_eos (e\<lparr>s_pending_event := EV_EOS\<rparr>) of (res, e) \<Rightarrow> (res, e, j)
        else if in_mode MODE_HLS e \<and> n = EOS_CODE then do_segment r cb (e\<lparr>s_pending_event := EV_SEGMENT\<rparr>) j
        else if n = OTHER_ERROR_CODE then (FLOW_FLUSHING, e, j)
        else (FLOW_OK, e, j))"

definition loop_body :: "replies \<Rightarrow> 'j callbacks \<Rightarrow> jsrc \<Rightarrow> 'j \<Rightarrow> flow \<times> jsrc \<times> 'j" where
  "loop_body r cb e j =
     (case s_pending_event e of
        EV_STREAM_START \<Rightarrow> (case do_stream_start r e of (res, e) \<Rightarrow> (res, e, j))
      | EV_SEGMENT \<Rightarrow> do_segment r cb e j
      | EV_EOS \<Rightarrow> (case do_eos e of (res, e) \<Rightarrow> (res, e, j))
      | EV_UNKNOWN \<Rightarrow> do_buffer r cb e j)"

definition loop_finish :: "flow \<Rightarrow> jsrc \<Rightarrow> jsrc" where
  "loop_finish result e =
     (let (result, e) = (if s_srcresult e = FLOW_OK \<or> result \<noteq> FLOW_OK then (result, e\<lparr>s_srcresult := result\<rparr>) else (s_srcresult e, e))
      in if result \<noteq> FLOW_OK then e\<lparr>s_task := TASK_PAUSED\<rparr> else e)"

definition java_source_loop :: "replies \<Rightarrow> 'j callbacks \<Rightarrow> jsrc \<Rightarrow> 'j \<Rightarrow> jsrc \<times> 'j" where
  "java_source_loop r cb e j =
     (if s_srcresult e = FLOW_OK then case loop_body r cb e j of (result, e, j) \<Rightarrow> (loop_finish result e, j)
      else (loop_finish (s_srcresult e) e, j))"

subsection \<open>Queries, pulling, and changes of state\<close>

datatype jquery = Q_DURATION jformat | Q_SCHEDULING | Q_SEEKING jformat | Q_OTHER

datatype janswer = A_DURATION jformat int | A_SCHEDULING pad_mode | A_SEEKING int | A_DEFAULT bool | A_REFUSED

definition java_source_query :: "bool \<Rightarrow> 'j callbacks \<Rightarrow> jquery \<Rightarrow> jsrc \<Rightarrow> 'j \<Rightarrow> janswer \<times> jsrc \<times> 'j" where
  "java_source_query deflt cb q e j =
     (case q of
        Q_DURATION f \<Rightarrow>
          if in_mode MODE_HLS e then
            if f \<noteq> FMT_TIME then (A_REFUSED, e, j)
            else case cb_property cb HLS_PROP_GET_DURATION 0 j of (d, j) \<Rightarrow>
              (A_DURATION FMT_TIME (cdiv (i64 (d * GST_SECOND)) HLS_VALUE_FLOAT_MULTIPLIER),
               if d < 0 then e\<lparr>s_mode := s_mode e OR MODE_HLS_LIVE\<rparr> else e, j)
          else if f \<noteq> FMT_BYTES then (A_REFUSED, e, j) else (A_DURATION FMT_BYTES (s_size e), e, j)
      | Q_SCHEDULING \<Rightarrow> (A_SCHEDULING (if s_is_random_access e then MODE_PULL else MODE_PUSH), e, j)
      | Q_SEEKING f \<Rightarrow> (if f \<noteq> FMT_BYTES \<or> \<not> s_is_seekable e then A_REFUSED else A_SEEKING (s_size e), e, j)
      | Q_OTHER \<Rightarrow> (A_DEFAULT deflt, e, j))"

text \<open>
  \<open>java_source_getrange\<close>. The loop may not end: for a negative size other than \<open>EOS_CODE\<close>, and for a size that is too large, it
  asks again. \<open>None\<close> is a call that does not return.
\<close>

partial_function (option) getrange_loop :: "'j callbacks \<Rightarrow> int \<Rightarrow> int \<Rightarrow> int list \<Rightarrow> 'j \<Rightarrow> ((flow \<times> int list) \<times> 'j) option" where
  "getrange_loop cb offset len got j =
     (let n = int (length got) in
      if n < len then
        let toRead = (if len - n \<ge> MAX_READ_SIZE then MAX_READ_SIZE else len - n)
        in case cb_read_block cb (u64 (offset + n)) toRead j of (sz, j) \<Rightarrow>
             if 0 < sz \<and> sz \<le> toRead then
               let got = got @ cb_copy_block cb sz j
               in if sz < toRead then Some ((FLOW_OK, got), j) else getrange_loop cb offset len got j
             else if sz = EOS_CODE \<or> sz = 0 then Some ((FLOW_EOS, []), j)
             else getrange_loop cb offset len got j
      else Some ((FLOW_OK, got), j))"

definition java_source_getrange :: "bool \<Rightarrow> bool \<Rightarrow> 'j callbacks \<Rightarrow> int \<Rightarrow> int \<Rightarrow> 'j \<Rightarrow> ((flow \<times> int list) \<times> 'j) option" where
  "java_source_getrange alloc mapped cb offset len j =
     (if \<not> alloc \<or> \<not> mapped then Some ((FLOW_ERROR, []), j) else getrange_loop cb offset len [] j)"

datatype transition = READY_TO_PAUSED | PAUSED_TO_PLAYING | PLAYING_TO_PAUSED | PAUSED_TO_READY | READY_TO_NULL

text \<open>\<open>java_source_change_state\<close>, before and after the call of the parent class, which succeeds.\<close>

definition change_state_before :: "transition \<Rightarrow> jsrc \<Rightarrow> jsrc" where
  "change_state_before t e =
     (case t of
        READY_TO_PAUSED \<Rightarrow>
          e\<lparr>s_pending_event := EV_STREAM_START, s_position := 0, s_position_time := 0, s_discont := False,
             s_update := \<not> in_mode MODE_HLS e, s_srcresult := FLOW_OK\<rparr>
      | PAUSED_TO_PLAYING \<Rightarrow> if s_stop_on_pause e then e\<lparr>s_srcresult := FLOW_OK\<rparr> else e
      | _ \<Rightarrow> e)"

definition change_state_after :: "'j callbacks \<Rightarrow> transition \<Rightarrow> jsrc \<Rightarrow> 'j \<Rightarrow> jsrc \<times> 'j" where
  "change_state_after cb t e j =
     (case t of
        PLAYING_TO_PAUSED \<Rightarrow> (if s_stop_on_pause e then e\<lparr>s_srcresult := FLOW_FLUSHING\<rparr> else e, j)
      | READY_TO_NULL \<Rightarrow>
          ((if \<not> s_stop_on_pause e then e\<lparr>s_srcresult := FLOW_FLUSHING\<rparr> else e)\<lparr>s_size := - 1\<rparr>, cb_close_connection cb j)
      | _ \<Rightarrow> (e, j))"

definition java_source_change_state ::
    "'j callbacks \<Rightarrow> (jsrc \<Rightarrow> bool \<times> jsrc) \<Rightarrow> transition \<Rightarrow> jsrc \<Rightarrow> 'j \<Rightarrow> bool \<times> jsrc \<times> 'j" where
  "java_source_change_state cb parent t e j =
     (case parent (change_state_before t e) of (ok, e) \<Rightarrow>
        if ok then case change_state_after cb t e j of (e, j) \<Rightarrow> (True, e, j) else (False, e, j))"

section \<open>Pulling\<close>

text \<open>
  A connection that can be read anywhere: up to \<open>lim\<close>, a block before the end of the data is served with as many bytes as there
  are, and a block behind the end is answered with 0 or \<open>EOS_CODE\<close>.
\<close>

locale block_reader =
  fixes cb :: "'j callbacks" and ok :: "int list \<Rightarrow> 'j \<Rightarrow> bool" and lim :: int
  assumes served: "ok data j \<Longrightarrow> 0 \<le> p \<Longrightarrow> p < int (length data) \<Longrightarrow> p \<le> lim \<Longrightarrow> 0 < n \<Longrightarrow>
      \<exists>j'. cb_read_block cb p n j = (min n (int (length data) - p), j') \<and> ok data j'
        \<and> cb_copy_block cb (min n (int (length data) - p)) j' = channel_bytes p (min n (int (length data) - p)) data"
    and ended: "ok data j \<Longrightarrow> int (length data) \<le> p \<Longrightarrow> p \<le> lim \<Longrightarrow> 0 < n \<Longrightarrow>
      \<exists>sz j'. cb_read_block cb p n j = (sz, j') \<and> (sz = 0 \<or> sz = EOS_CODE) \<and> ok data j'"
    and lim: "lim < 2 ^ 64"

text \<open>
  What a pull returns: all the bytes asked for, or the rest of the data; but when the rest is shorter and a multiple
  of \<open>MAX_READ_SIZE\<close>, also when it is not empty, the end of the stream.
\<close>

definition getrange_spec :: "int list \<Rightarrow> int \<Rightarrow> int \<Rightarrow> flow \<times> int list" where
  "getrange_spec data offset len =
     (let rest = max 0 (int (length data) - offset)
      in if len \<le> rest then (FLOW_OK, channel_bytes offset len data)
         else if rest mod MAX_READ_SIZE \<noteq> 0 then (FLOW_OK, channel_bytes offset rest data)
         else (FLOW_EOS, []))"

lemma channel_bytes_append:
  "0 \<le> p \<Longrightarrow> 0 \<le> m \<Longrightarrow> 0 \<le> n \<Longrightarrow> channel_bytes p m data @ channel_bytes (p + m) n data = channel_bytes p (m + n) data"
  by (simp add: channel_bytes_def nat_add_distrib take_add add.commute)

lemma length_channel_bytes: "0 \<le> p \<Longrightarrow> 0 \<le> n \<Longrightarrow> p + n \<le> int (length data) \<Longrightarrow> int (length (channel_bytes p n data)) = n"
  by (simp add: channel_bytes_def)

context block_reader
begin

lemma getrange_loop_spec:
  assumes "ok data j" "0 \<le> offset" "offset + len \<le> lim" "rest = max 0 (int (length data) - offset)"
    and "0 \<le> n" "n \<le> len" "n \<le> rest"
  shows "\<exists>j'. getrange_loop cb offset len (channel_bytes offset n data) j =
      Some ((if len \<le> rest then (FLOW_OK, channel_bytes offset len data)
             else if (rest - n) mod MAX_READ_SIZE \<noteq> 0 then (FLOW_OK, channel_bytes offset rest data)
             else (FLOW_EOS, [])), j') \<and> ok data j'"
  using assms
proof (induction "nat (len - n)" arbitrary: n j rule: less_induct)
  case less
  have n: "int (length (channel_bytes offset n data)) = n"
    using less.prems by (cases "n = 0") (auto simp: channel_bytes_def)
  show ?case
  proof (cases "n < len")
    case False
    then have "getrange_loop cb offset len (channel_bytes offset n data) j = Some ((FLOW_OK, channel_bytes offset len data), j)"
      using less.prems n by (subst getrange_loop.simps) (simp add: Let_def)
    then show ?thesis using less.prems False by auto
  next
    case True
    define t where "t = (if len - n \<ge> MAX_READ_SIZE then MAX_READ_SIZE else len - n)"
    have t: "0 < t" "t \<le> MAX_READ_SIZE" "t \<le> len - n" "t = MAX_READ_SIZE \<or> t = len - n" using True by (auto simp: t_def MAX_READ_SIZE_def)
    have u: "u64 (offset + n) = offset + n" using less.prems lim by (simp add: u64_def)
    have step: "getrange_loop cb offset len (channel_bytes offset n data) j =
        (case cb_read_block cb (offset + n) t j of (sz, j) \<Rightarrow>
             if 0 < sz \<and> sz \<le> t then
               let got = channel_bytes offset n data @ cb_copy_block cb sz j
               in if sz < t then Some ((FLOW_OK, got), j) else getrange_loop cb offset len got j
             else if sz = EOS_CODE \<or> sz = 0 then Some ((FLOW_EOS, []), j)
             else getrange_loop cb offset len (channel_bytes offset n data) j)"
      using True by (subst getrange_loop.simps) (simp add: n u Let_def flip: t_def)
    show ?thesis
    proof (cases "n < rest")
      case False
      then have "n = rest" "int (length data) \<le> offset + n" using less.prems by auto
      moreover obtain sz j' where "cb_read_block cb (offset + n) t j = (sz, j')" "sz = 0 \<or> sz = EOS_CODE" "ok data j'"
        using ended [OF less.prems(1) \<open>int (length data) \<le> offset + n\<close> _ t(1)] less.prems True by auto
      moreover from this(1,2) have "getrange_loop cb offset len (channel_bytes offset n data) j = Some ((FLOW_EOS, []), j')"
        by (auto simp: step EOS_CODE_def)
      ultimately show ?thesis using True by auto
    next
      case inside: True
      define sz where "sz = min t (rest - n)"
      have rest: "rest = int (length data) - offset" using less.prems inside by auto
      have sz: "0 < sz" "sz \<le> t" "n + sz \<le> rest" "sz < t \<Longrightarrow> n + sz = rest" using t(1) inside by (auto simp: sz_def)
      have "min t (int (length data) - (offset + n)) = sz" by (simp add: sz_def rest algebra_simps)
      with served [OF less.prems(1) _ _ _ t(1), of "offset + n"] less.prems inside True rest obtain j' where
        j': "cb_read_block cb (offset + n) t j = (sz, j')" "ok data j'" "cb_copy_block cb sz j' = channel_bytes (offset + n) sz data" by auto
      have got: "channel_bytes offset n data @ cb_copy_block cb sz j' = channel_bytes offset (n + sz) data"
        using less.prems sz(1) by (simp add: j' channel_bytes_append)
      show ?thesis
      proof (cases "sz < t")
        case True
        then have "0 < rest - n" "rest - n < MAX_READ_SIZE" "\<not> len \<le> rest" using sz t inside by auto
        then have "(rest - n) mod MAX_READ_SIZE \<noteq> 0" by simp
        with True sz got j' \<open>\<not> len \<le> rest\<close> show ?thesis by (simp add: step Let_def)
      next
        case False
        then have "sz = t" using sz by simp
        have "(rest - (n + sz)) mod MAX_READ_SIZE = (rest - n) mod MAX_READ_SIZE" if "\<not> len \<le> rest"
        proof -
          have "t = MAX_READ_SIZE" using t(4) that sz(3) \<open>sz = t\<close> by auto
          then have "rest - (n + sz) = rest - n - MAX_READ_SIZE" using \<open>sz = t\<close> by simp
          then show ?thesis by (simp only: minus_mod_self2)
        qed
        moreover have "\<exists>j''. getrange_loop cb offset len (channel_bytes offset (n + sz) data) j' =
          Some ((if len \<le> rest then (FLOW_OK, channel_bytes offset len data)
             else if (rest - (n + sz)) mod MAX_READ_SIZE \<noteq> 0 then (FLOW_OK, channel_bytes offset rest data)
             else (FLOW_EOS, [])), j'') \<and> ok data j''"
          using less.prems sz t \<open>sz = t\<close> True by (intro less.hyps) (auto simp: j'(2))
        ultimately show ?thesis using sz \<open>sz = t\<close> got j' by (auto simp: step Let_def)
      qed
    qed
  qed
qed

lemma getrange_serves:
  assumes "ok data j" "0 \<le> offset" "0 \<le> len" "offset + len \<le> lim"
  shows "\<exists>j'. java_source_getrange True True cb offset len j = Some (getrange_spec data offset len, j') \<and> ok data j'"
proof -
  have "channel_bytes offset 0 data = []" by (simp add: channel_bytes_def)
  with getrange_loop_spec [OF assms(1,2,4) refl, of 0] assms(3) show ?thesis
    unfolding java_source_getrange_def getrange_spec_def Let_def diff_0_right by simp
qed

end

text \<open>The connections of Java: an open file, and a buffer in memory.\<close>

definition file_ok :: "int list \<Rightarrow> file_conn \<Rightarrow> bool" where
  "file_ok data j \<longleftrightarrow> fc_open j \<and> fc_data j = data \<and> 0 \<le> fc_pos j \<and> 0 < length (fc_buffer j)"

definition mem_ok :: "int list \<Rightarrow> mem_conn \<Rightarrow> bool" where
  "mem_ok data j \<longleftrightarrow> mc_open j \<and> mc_data j = data \<and> int (length data) < 2 ^ 31"

lemma file_calls:
  "fc_open j \<Longrightarrow> cb_read_next_block file_callbacks j = file_readNextBlock j" "fc_open j \<Longrightarrow> cb_read_block file_callbacks p n j = file_readBlock p n j"
  "fc_open j \<Longrightarrow> cb_seek_data file_callbacks p j = file_seek p j" "cb_copy_block file_callbacks = file_copyBlock"
  by (simp_all add: file_callbacks_def CJavaInputStreamCallbacks_def)

lemma mem_calls:
  "mc_open j \<Longrightarrow> cb_read_block mem_callbacks p n j = mem_readBlock p n j" "cb_copy_block mem_callbacks = mem_copyBlock"
  by (simp_all add: mem_callbacks_def CJavaInputStreamCallbacks_def)

lemma conn_open: "file_ok data f \<Longrightarrow> fc_open f" "mem_ok data m \<Longrightarrow> mc_open m"
  by (simp_all add: file_ok_def mem_ok_def)

lemma take_fill_buffer: "take (length bs) (fill_buffer bs buf) = bs"
  by (simp add: fill_buffer_def)

lemma min_channel_bytes:
  assumes "0 \<le> p" "p < int (length data)" "0 < n"
  shows "int (length (channel_bytes p n data)) = min n (int (length data) - p)"
    "channel_bytes p (min n (int (length data) - p)) data = channel_bytes p n data"
  using assms by (auto simp: channel_bytes_def min_def)

interpretation fr: block_reader file_callbacks file_ok "2 ^ 62"
proof (unfold_locales, goal_cases)
  case (1 data j p n)
  then have p: "i64 p = p" by (intro i64_small) simp_all
  have cells: "0 < length (fill_buffer bs buf)" if "0 < length buf \<or> 0 < length bs" for bs buf :: "int list" using that by (auto simp: fill_buffer_def)
  note mc = min_channel_bytes [OF 1(2,3,5)]
  let ?buf = "if int (length (fc_buffer j)) < n then replicate (nat n) 0 else fc_buffer j"
  let ?j = "j\<lparr>fc_buffer := fill_buffer (channel_bytes p n data) ?buf\<rparr>"
  have "file_readBlock p n j = (min n (int (length data) - p), ?j)"
    using 1 p mc(1) by (auto simp: file_readBlock_def file_ok_def Let_def)
  moreover have "file_ok data ?j" using 1(1,5) by (auto simp: file_ok_def fill_buffer_def)
  moreover have "file_copyBlock (min n (int (length data) - p)) ?j = channel_bytes p n data"
    unfolding mc(1) [symmetric] by (simp add: file_copyBlock_def take_fill_buffer)
  ultimately show ?case using conn_open(1) [OF 1(1)] by (auto simp: file_calls mc(2))
next
  case (2 data j p n)
  then have p: "i64 p = p" by (intro i64_small) simp_all
  let ?j = "if int (length (fc_buffer j)) < n then j\<lparr>fc_buffer := replicate (nat n) 0\<rparr> else j"
  have "file_readBlock p n j = (EOS_CODE, ?j)" "file_ok data ?j" using 2 p by (auto simp: file_readBlock_def file_ok_def Let_def)
  then show ?case using conn_open(1) [OF 2(1)] by (auto simp: file_calls)
qed simp

interpretation mr: block_reader mem_callbacks mem_ok "2 ^ 31 - 1"
proof (unfold_locales, goal_cases)
  case (1 data j p n)
  then have p: "i32 p = p" by (intro i32_small) simp_all
  note mc = min_channel_bytes [OF 1(2,3,5)]
  let ?m = "min n (int (length data) - p)"
  let ?j = "j\<lparr>mc_pos := p + ?m, mc_buffer := drop (nat p) data\<rparr>"
  have "mem_readBlock p n j = (?m, ?j)" using 1 p by (auto simp: mem_readBlock_def mem_ok_def Let_def min.commute)
  moreover have "mem_ok data ?j" using 1(1) by (simp add: mem_ok_def)
  moreover have "mem_copyBlock ?m ?j = channel_bytes p ?m data" by (simp add: mem_copyBlock_def channel_bytes_def)
  ultimately show ?case using conn_open(2) [OF 1(1)] by (auto simp: mem_calls)
next
  case (2 data j p n)
  then have p: "i32 p = p" by (intro i32_small) simp_all
  show ?case
  proof (cases "p = int (length data)")
    case True
    let ?j = "j\<lparr>mc_pos := p, mc_buffer := drop (nat p) data\<rparr>"
    have "mem_readBlock p n j = (0, ?j)" "mem_ok data ?j" using 2 p True by (auto simp: mem_readBlock_def mem_ok_def Let_def)
    then show ?thesis using conn_open(2) [OF 2(1)] by (auto simp: mem_calls)
  next
    case False
    then have "mem_readBlock p n j = (EOS_CODE, j)" using 2 p by (simp add: mem_readBlock_def mem_ok_def)
    then show ?thesis using 2(1) conn_open(2) [OF 2(1)] by (auto simp: mem_calls)
  qed
qed simp

text \<open>
  C29: what a pull from a file or from memory returns. For every range that ends at 2^62 at most for a file, and at 2^31 - 1 at most for a buffer in memory, whose
  positions Java converts to \<open>int\<close>, \<open>java_source_getrange\<close> returns, and it returns the bytes of the medium at the offset: all that were asked for, or
  those that are left. But when fewer bytes are left than asked for and their number is a multiple of 65536, the answer is the end of the stream and the bytes
  are lost.
\<close>

theorem pull_serves_medium:
  assumes "0 \<le> offset" "0 \<le> len" "file_ok data f" "mem_ok data' m"
  shows "(offset + len \<le> 2 ^ 62 \<longrightarrow> (\<exists>f'. java_source_getrange True True file_callbacks offset len f = Some (getrange_spec data offset len, f')))
    \<and> (offset + len \<le> 2 ^ 31 - 1 \<longrightarrow> (\<exists>m'. java_source_getrange True True mem_callbacks offset len m = Some (getrange_spec data' offset len, m')))"
  using fr.getrange_serves [OF assms(3,1,2)] mr.getrange_serves [OF assms(4,1,2)] by blast

text \<open>
  C37: a pull never returns while the connection fails. When reading throws, \<open>ReadBlock\<close> answers \<open>OTHER_ERROR_CODE\<close>; the loop of
  \<open>java_source_getrange\<close> tests for \<open>EOS_CODE\<close> and 0 only and asks again, for ever, with the stream lock of the pad held.
\<close>

theorem pull_hangs_on_error:
  assumes "\<And>p n. cb_read_block cb p n j = (OTHER_ERROR_CODE, j)" "0 < len"
  shows "java_source_getrange True True cb offset len j = None"
proof -
  have "\<not> (cb' = cb \<and> j' = j \<and> len' = len \<and> got = [])" if r: "getrange_loop cb' offset' len' got j' = Some res" for cb' offset' len' got j' res
  proof (rule getrange_loop.raw_induct [where P = "\<lambda>cb' offset' len' got j' res. \<not> (cb' = cb \<and> j' = j \<and> len' = len \<and> got = [])", OF _ r], goal_cases)
    case (1 f cb' offset' len' got j' res)
    show ?case
    proof
      assume e: "cb' = cb \<and> j' = j \<and> len' = len \<and> got = []"
      then have "f cb offset' len [] j = Some res" using 1(2) assms by (simp add: Let_def OTHER_ERROR_CODE_def EOS_CODE_def)
      then show False using 1(1) by blast
    qed
  qed
  then have "getrange_loop cb offset len [] j = None" by (metis not_Some_eq)
  then show ?thesis by (simp add: java_source_getrange_def)
qed

theorem pull_hangs_on_error_witness:
  "java_source_getrange True True (file_callbacks\<lparr>cb_read_block := (\<lambda>_ _ j. (OTHER_ERROR_CODE, j))\<rparr>) 0 10
     \<lparr>fc_data = [1, 2], fc_pos = 0, fc_buffer = [0], fc_open = True, fc_jni = 0\<rparr> = None"
  by (rule pull_hangs_on_error) simp_all

section \<open>Pushing\<close>

text \<open>
  A connection that is read block by block: \<open>pos\<close> is where the next block starts. A block is not empty, it carries the bytes
  of the medium, and a seek moves the position.
\<close>

locale block_stream =
  fixes cb :: "'j callbacks" and ok :: "int list \<Rightarrow> 'j \<Rightarrow> bool" and pos :: "'j \<Rightarrow> int"
  assumes next_block: "ok data j \<Longrightarrow> pos j < int (length data) \<Longrightarrow>
      \<exists>n j'. cb_read_next_block cb j = (n, j') \<and> 0 < n \<and> n \<le> int (length data) - pos j \<and> ok data j' \<and> pos j' = pos j + n
        \<and> cb_copy_block cb n j' = channel_bytes (pos j) n data"
    and finished: "ok data j \<Longrightarrow> int (length data) \<le> pos j \<Longrightarrow> cb_read_next_block cb j = (EOS_CODE, j)"
    and moved: "ok data j \<Longrightarrow> 0 \<le> p \<Longrightarrow> \<exists>j'. cb_seek_data cb p j = (p, j') \<and> ok data j' \<and> pos j' = p"
    and pos_nonneg: "ok data j \<Longrightarrow> 0 \<le> pos j"

interpretation fs: block_stream file_callbacks file_ok fc_pos
proof (unfold_locales, goal_cases)
  case (1 data j)
  let ?n = "int (length (fc_buffer j))"
  have p: "0 \<le> fc_pos j" "0 < ?n" using 1(1) by (simp_all add: file_ok_def)
  note mc = min_channel_bytes [OF p(1) 1(2) p(2)]
  let ?bs = "channel_bytes (fc_pos j) ?n data"
  let ?j = "j\<lparr>fc_pos := fc_pos j + int (length ?bs), fc_buffer := fill_buffer ?bs (fc_buffer j)\<rparr>"
  have n: "0 < int (length ?bs)" "int (length ?bs) \<le> int (length data) - fc_pos j" unfolding mc(1) using p 1(2) by auto
  have "file_readNextBlock j = (int (length ?bs), ?j)" using 1 by (simp add: file_readNextBlock_def file_ok_def Let_def)
  moreover have "file_ok data ?j" using 1(1) by (auto simp: file_ok_def fill_buffer_def)
  moreover have "file_copyBlock (int (length ?bs)) ?j = channel_bytes (fc_pos j) (int (length ?bs)) data"
    unfolding mc by (simp add: file_copyBlock_def take_fill_buffer flip: mc(1))
  ultimately show ?case using n conn_open(1) [OF 1(1)] by (auto simp: file_calls)
qed (auto simp: file_calls file_readNextBlock_def file_seek_def file_ok_def)

text \<open>The task of the source pad: turns of the loop while it is started.\<close>

primrec task_run :: "'j callbacks \<Rightarrow> replies list \<Rightarrow> jsrc \<Rightarrow> 'j \<Rightarrow> jsrc \<times> 'j" where
  "task_run cb [] e j = (e, j)"
| "task_run cb (r # rs) e j =
     (if s_task e = TASK_STARTED then case java_source_loop r cb e j of (e, j) \<Rightarrow> task_run cb rs e j else (e, j))"

definition willing :: "replies \<Rightarrow> bool" where
  "willing r \<longleftrightarrow> rp_event r \<and> rp_push r = FLOW_OK \<and> rp_seek r = None \<and> rp_alloc r \<and> rp_map r"

text \<open>
  \<open>blocks data p d m os\<close>: the items \<open>os\<close> carry the medium from \<open>p\<close> to its end, in buffers that are not empty and that are stamped with
  their offset; the first one is preceded by the caps \<open>m\<close>, if there are any, and has the flag \<open>d\<close>.
\<close>

fun blocks :: "int list \<Rightarrow> int \<Rightarrow> bool \<Rightarrow> string option \<Rightarrow> jout list \<Rightarrow> bool" where
  "blocks data p d m [] \<longleftrightarrow> int (length data) \<le> p"
| "blocks data p d (Some c) (JO_Caps c' # os) \<longleftrightarrow> c' = c \<and> p < int (length data) \<and> blocks data p d None os"
| "blocks data p d None (JO_Buffer bs offset b # os) \<longleftrightarrow>
     bs \<noteq> [] \<and> offset = p \<and> b = d \<and> bs = channel_bytes p (int (length bs)) data \<and> blocks data (p + int (length bs)) False None os"
| "blocks data p d m (_ # os) \<longleftrightarrow> False"

fun bytes_of :: "jout \<Rightarrow> int list" where
  "bytes_of (JO_Buffer bs _ _) = bs"
| "bytes_of _ = []"

lemma blocks_bytes: "blocks data p d m os \<Longrightarrow> 0 \<le> p \<Longrightarrow> concat (map bytes_of os) = drop (nat p) data"
proof (induction data p d m os rule: blocks.induct)
  case (3 data p d bs offset b os)
  then have "bs = take (length bs) (drop (nat p) data)" by (simp add: channel_bytes_def)
  moreover have "concat (map bytes_of os) = drop (length bs) (drop (nat p) data)"
    using 3 by (simp add: nat_add_distrib add.commute)
  ultimately show ?case by (metis append_take_drop_id concat.simps(2) list.simps(9) bytes_of.simps(1))
qed auto

lemmas turn_defs = java_source_loop_def loop_body_def loop_finish_def send_out_def event_result_def in_mode_def MODE_DEFAULT_def MODE_HLS_def

context block_stream
begin

lemma eos_turn:
  assumes "ok data j" "int (length data) \<le> pos j" "s_mode e = MODE_DEFAULT" "s_pending_event e = EV_UNKNOWN" "s_srcresult e = FLOW_OK"
  shows "java_source_loop r cb e j = (e\<lparr>s_pending_event := EV_EOS, s_out := s_out e @ [JO_Eos], s_srcresult := FLOW_EOS, s_task := TASK_PAUSED\<rparr>, j)"
  using assms finished [OF assms(1,2)] by (simp add: turn_defs do_buffer_def do_eos_def EOS_CODE_def)

lemma block_turn:
  assumes "ok data j" "pos j < int (length data)" "int (length data) < 2 ^ 63" "s_mode e = MODE_DEFAULT" "s_pending_event e = EV_UNKNOWN"
    and "s_srcresult e = FLOW_OK" "s_position e = pos j" "willing r"
  shows "\<exists>n j'. 0 < n \<and> n \<le> int (length data) - pos j \<and> ok data j' \<and> pos j' = pos j + n
    \<and> java_source_loop r cb e j = (e\<lparr>s_discont := False, s_mimetype := None, s_position := pos j + n,
        s_out := s_out e @ (case s_mimetype e of None \<Rightarrow> [] | Some m \<Rightarrow> [JO_Caps m]) @ [JO_Buffer (channel_bytes (pos j) n data) (pos j) (s_discont e)]\<rparr>, j')"
proof -
  from next_block [OF assms(1,2)] obtain n j' where n: "cb_read_next_block cb j = (n, j')" "0 < n" "n \<le> int (length data) - pos j" "ok data j'"
    "pos j' = pos j + n" "cb_copy_block cb n j' = channel_bytes (pos j) n data" by blast
  have "u64 (pos j) = pos j" using pos_nonneg [OF assms(1)] assms(2,3) by (simp add: u64_def)
  moreover have "i64 (pos j + n) = pos j + n" using pos_nonneg [OF assms(1)] assms(3) n(2,3) by (intro i64_small) auto
  ultimately have "java_source_loop r cb e j = (e\<lparr>s_discont := False, s_mimetype := None, s_position := pos j + n,
        s_out := s_out e @ (case s_mimetype e of None \<Rightarrow> [] | Some m \<Rightarrow> [JO_Caps m]) @ [JO_Buffer (channel_bytes (pos j) n data) (pos j) (s_discont e)]\<rparr>, j')"
    using assms(4-8) n by (cases e) (auto simp: turn_defs do_buffer_def push_block_def push_caps_def willing_def Let_def split: option.splits)
  with n show ?thesis by blast
qed

lemma buffers_run:
  assumes "ok data j" "int (length data) < 2 ^ 63" "s_mode e = MODE_DEFAULT" "s_pending_event e = EV_UNKNOWN" "s_srcresult e = FLOW_OK"
    and "s_task e = TASK_STARTED" "s_position e = pos j" "\<forall>r \<in> set rs. willing r" "int (length data) - pos j < int (length rs)" "rs \<noteq> []"
  shows "\<exists>os e' j'. task_run cb rs e j = (e', j') \<and> s_out e' = s_out e @ os @ [JO_Eos] \<and> blocks data (pos j) (s_discont e) (s_mimetype e) os
    \<and> s_task e' = TASK_PAUSED \<and> s_srcresult e' = FLOW_EOS \<and> ok data j'"
  using assms
proof (induction rs arbitrary: e j)
  case (Cons r rs)
  show ?case
  proof (cases "pos j < int (length data)")
    case False
    then have le: "int (length data) \<le> pos j" by simp
    let ?e = "e\<lparr>s_pending_event := EV_EOS, s_out := s_out e @ [JO_Eos], s_srcresult := FLOW_EOS, s_task := TASK_PAUSED\<rparr>"
    have "task_run cb (r # rs) e j = task_run cb rs ?e j" using Cons.prems eos_turn [OF Cons.prems(1) le] by simp
    also have "\<dots> = (?e, j)" by (cases rs) simp_all
    finally show ?thesis using le Cons.prems(1) by (intro exI [of _ "[]"] exI [of _ ?e] exI [of _ j]) simp
  next
    case True
    from block_turn [OF Cons.prems(1) True Cons.prems(2-5,7), of r] Cons.prems(8) obtain n j1 where
      n: "0 < n" "n \<le> int (length data) - pos j" "ok data j1" "pos j1 = pos j + n"
      and t: "java_source_loop r cb e j = (e\<lparr>s_discont := False, s_mimetype := None, s_position := pos j + n,
        s_out := s_out e @ (case s_mimetype e of None \<Rightarrow> [] | Some m \<Rightarrow> [JO_Caps m]) @ [JO_Buffer (channel_bytes (pos j) n data) (pos j) (s_discont e)]\<rparr>, j1)"
      (is "_ = (?e1, _)") by auto
    have "rs \<noteq> []" using Cons.prems(9) True n by (cases rs) auto
    with Cons.IH [of j1 ?e1] Cons.prems n obtain os e' j' where
      r: "task_run cb rs ?e1 j1 = (e', j')" "s_out e' = s_out ?e1 @ os @ [JO_Eos]" "blocks data (pos j + n) False None os"
        "s_task e' = TASK_PAUSED" "s_srcresult e' = FLOW_EOS" "ok data j'" by auto
    let ?b = "JO_Buffer (channel_bytes (pos j) n data) (pos j) (s_discont e)"
    have len: "int (length (channel_bytes (pos j) n data)) = n" using n pos_nonneg [OF Cons.prems(1)] by (intro length_channel_bytes) auto
    then have "channel_bytes (pos j) n data \<noteq> []" using n(1) by auto
    then have "blocks data (pos j) (s_discont e) (s_mimetype e) ((case s_mimetype e of None \<Rightarrow> [] | Some m \<Rightarrow> [JO_Caps m]) @ ?b # os)"
      using r(3) len True by (simp split: option.split)
    moreover have "task_run cb (r # rs) e j = (e', j')" using Cons.prems(6) t r(1) by simp
    ultimately show ?thesis using r by (intro exI conjI) (assumption | simp)+
  qed
qed simp

lemma segment_turn:
  assumes "s_mode e = MODE_DEFAULT" "s_pending_event e = EV_SEGMENT" "s_srcresult e = FLOW_OK" "willing r"
  shows "java_source_loop r cb e j = (e\<lparr>s_pending_event := EV_UNKNOWN, s_out := s_out e @ [JO_Segment (default_segment e)]\<rparr>, j)"
  using assms by (cases e) (simp add: turn_defs do_segment_def willing_def Let_def)

lemma start_turn:
  assumes "s_pending_event e = EV_STREAM_START" "s_srcresult e = FLOW_OK" "willing r"
  shows "java_source_loop r cb e j = (e\<lparr>s_pending_event := EV_SEGMENT, s_out := s_out e @ [JO_StreamStart]\<rparr>, j)"
  using assms by (cases e) (simp add: turn_defs do_stream_start_def willing_def Let_def)

lemma segment_run:
  assumes "ok data j" "int (length data) < 2 ^ 63" "s_mode e = MODE_DEFAULT" "s_pending_event e = EV_SEGMENT" "s_srcresult e = FLOW_OK"
    and "s_task e = TASK_STARTED" "s_position e = pos j" "\<forall>r \<in> set rs. willing r" "int (length data) + 2 \<le> int (length rs)"
  shows "\<exists>os e' j'. task_run cb rs e j = (e', j') \<and> s_out e' = s_out e @ [JO_Segment (default_segment e)] @ os @ [JO_Eos]
    \<and> blocks data (pos j) (s_discont e) (s_mimetype e) os \<and> s_task e' = TASK_PAUSED \<and> s_srcresult e' = FLOW_EOS \<and> ok data j'"
proof -
  obtain r rs' where rs: "rs = r # rs'" "rs' \<noteq> []" using assms(9) by (cases rs; cases "tl rs") auto
  let ?e = "e\<lparr>s_pending_event := EV_UNKNOWN, s_out := s_out e @ [JO_Segment (default_segment e)]\<rparr>"
  have "task_run cb rs e j = task_run cb rs' ?e j" using assms(6,8) segment_turn [OF assms(3-5), of r] by (simp add: rs)
  moreover have "\<exists>os e' j'. task_run cb rs' ?e j = (e', j') \<and> s_out e' = s_out ?e @ os @ [JO_Eos] \<and> blocks data (pos j) (s_discont ?e) (s_mimetype ?e) os
    \<and> s_task e' = TASK_PAUSED \<and> s_srcresult e' = FLOW_EOS \<and> ok data j'"
    using assms pos_nonneg [OF assms(1)] rs by (intro buffers_run) auto
  ultimately show ?thesis by auto
qed

lemma stream_run:
  assumes "ok data j" "int (length data) < 2 ^ 63" "s_mode e = MODE_DEFAULT" "s_pending_event e = EV_STREAM_START" "s_srcresult e = FLOW_OK"
    and "s_task e = TASK_STARTED" "s_position e = pos j" "\<forall>r \<in> set rs. willing r" "int (length data) + 3 \<le> int (length rs)"
  shows "\<exists>os e' j'. task_run cb rs e j = (e', j') \<and> s_out e' = s_out e @ [JO_StreamStart, JO_Segment (default_segment e)] @ os @ [JO_Eos]
    \<and> blocks data (pos j) (s_discont e) (s_mimetype e) os \<and> s_task e' = TASK_PAUSED \<and> s_srcresult e' = FLOW_EOS \<and> ok data j'"
proof -
  obtain r rs' where rs: "rs = r # rs'" using assms(9) by (cases rs) auto
  let ?e = "e\<lparr>s_pending_event := EV_SEGMENT, s_out := s_out e @ [JO_StreamStart]\<rparr>"
  have "task_run cb rs e j = task_run cb rs' ?e j" using assms(6,8) start_turn [OF assms(4,5), of r] by (simp add: rs)
  moreover have "\<exists>os e' j'. task_run cb rs' ?e j = (e', j') \<and> s_out e' = s_out ?e @ [JO_Segment (default_segment ?e)] @ os @ [JO_Eos]
    \<and> blocks data (pos j) (s_discont ?e) (s_mimetype ?e) os \<and> s_task e' = TASK_PAUSED \<and> s_srcresult e' = FLOW_EOS \<and> ok data j'"
    using assms rs by (intro segment_run) auto
  moreover have "default_segment ?e = default_segment e" by (simp add: default_segment_def)
  ultimately show ?thesis by auto
qed

lemma seek_done:
  assumes "ok data j" "s_mode e = MODE_DEFAULT" "s_is_seekable e" "q_format k = FMT_BYTES" "0 \<le> q_start k"
  shows "\<exists>j'. java_source_event d cb (Some k) e j = (True, e\<lparr>s_rate := q_rate k, s_pending_event := EV_SEGMENT, s_position := q_start k,
      s_position_time := 0, s_discont := True, s_update := False, s_srcresult := FLOW_OK, s_task := TASK_STARTED,
      s_out := s_out e @ (if q_flush k then [JO_FlushStart, JO_FlushStop] else [])\<rparr>, j') \<and> ok data j' \<and> pos j' = q_start k"
proof -
  from moved [OF assms(1,5)] obtain j' where j': "cb_seek_data cb (q_start k) j = (q_start k, j')" "ok data j'" "pos j' = q_start k" by blast
  then show ?thesis using assms(2-5)
    by (cases e) (auto simp: java_source_event_def java_source_perform_seek_def seek_begin_def seek_signal_def seek_end_def seek_target_def
        in_mode_def MODE_DEFAULT_def MODE_HLS_def send_out_def Let_def)
qed

end

text \<open>
  C8: the source delivers the whole medium and ends. When the element goes to PAUSED and its pad is activated, and the
  pipeline takes what it pushes, the task pushes the start of the stream, the segment from 0 to the size of the medium, the
  caps before the first buffer, buffers that carry every byte once and in order and are stamped with their
  offsets, and the end of the stream; then it pauses. It needs at most one turn per byte and three more.
\<close>

theorem source_streams_file:
  assumes "file_ok data j" "fc_pos j = 0" "int (length data) < 2 ^ 63" "s_mode e = MODE_DEFAULT"
    and "\<forall>r \<in> set rs. willing r" "int (length data) + 3 \<le> int (length rs)"
  shows "\<exists>seg os e' j'. task_run file_callbacks rs (snd (java_source_activatemode True True MODE_PUSH True (change_state_before READY_TO_PAUSED e))) j = (e', j')
    \<and> s_out e' = s_out e @ [JO_StreamStart, JO_Segment seg] @ os @ [JO_Eos]
    \<and> ps_start seg = 0 \<and> ps_stop seg = u64 (s_size e) \<and> ps_bytes seg \<and> ps_update seg
    \<and> blocks data 0 False (s_mimetype e) os \<and> concat (map bytes_of os) = data
    \<and> s_task e' = TASK_PAUSED \<and> s_srcresult e' = FLOW_EOS"
proof -
  let ?e = "snd (java_source_activatemode True True MODE_PUSH True (change_state_before READY_TO_PAUSED e))"
  have f: "s_mode ?e = MODE_DEFAULT" "s_pending_event ?e = EV_STREAM_START" "s_srcresult ?e = FLOW_OK" "s_task ?e = TASK_STARTED"
    "s_position ?e = 0" "s_discont ?e = False" "s_mimetype ?e = s_mimetype e" "s_out ?e = s_out e" "s_size ?e = s_size e" "s_update ?e"
    using assms(4) by (simp_all add: java_source_activatemode_def change_state_before_def in_mode_def MODE_DEFAULT_def MODE_HLS_def)
  from fs.stream_run [OF assms(1,3) f(1-4) _ assms(5,6)] f assms(2) obtain os e' j' where
    r: "task_run file_callbacks rs ?e j = (e', j')" "s_out e' = s_out e @ [JO_StreamStart, JO_Segment (default_segment ?e)] @ os @ [JO_Eos]"
      "blocks data 0 False (s_mimetype e) os" "s_task e' = TASK_PAUSED" "s_srcresult e' = FLOW_EOS" by auto
  moreover have "ps_start (default_segment ?e) = 0" "ps_stop (default_segment ?e) = u64 (s_size e)" "ps_bytes (default_segment ?e)" "ps_update (default_segment ?e)"
    using f by (simp_all add: default_segment_def u64_def)
  moreover have "concat (map bytes_of os) = data" using blocks_bytes [OF r(3)] by simp
  ultimately show ?thesis by blast
qed

text \<open>
  C28: a seek is exact. A seek in bytes on a source of a file is granted from every state of the element, also at the end of the stream;
  it restarts the task, and what is pushed then is the segment that starts at the position, the buffers with every byte
  from there on, the first of them marked as a discontinuity, and the end of the stream.
\<close>

theorem source_seek_exact:
  assumes "file_ok data j" "int (length data) < 2 ^ 63" "s_mode e = MODE_DEFAULT" "s_is_seekable e"
    and "q_format k = FMT_BYTES" "0 \<le> q_start k" "q_start k < 2 ^ 63"
    and "\<forall>r \<in> set rs. willing r" "int (length data) + 2 \<le> int (length rs)"
  shows "\<exists>e1 j1 seg os e' j'. java_source_event d file_callbacks (Some k) e j = (True, e1, j1) \<and> task_run file_callbacks rs e1 j1 = (e', j')
    \<and> s_out e' = s_out e @ (if q_flush k then [JO_FlushStart, JO_FlushStop] else []) @ [JO_Segment seg] @ os @ [JO_Eos]
    \<and> ps_start seg = q_start k \<and> ps_position seg = q_start k \<and> ps_rate seg = q_rate k \<and> \<not> ps_update seg
    \<and> blocks data (q_start k) True (s_mimetype e) os \<and> concat (map bytes_of os) = drop (nat (q_start k)) data"
proof -
  from fs.seek_done [OF assms(1,3-6)] obtain e1 j1 where
    s: "java_source_event d file_callbacks (Some k) e j = (True, e1, j1)" "file_ok data j1" "fc_pos j1 = q_start k"
    and e1: "e1 = e\<lparr>s_rate := q_rate k, s_pending_event := EV_SEGMENT, s_position := q_start k,
      s_position_time := 0, s_discont := True, s_update := False, s_srcresult := FLOW_OK, s_task := TASK_STARTED,
      s_out := s_out e @ (if q_flush k then [JO_FlushStart, JO_FlushStop] else [])\<rparr>" by blast
  from fs.segment_run [OF s(2) assms(2), of e1 rs] assms(3,8,9) s(3) obtain os e' j' where
    r: "task_run file_callbacks rs e1 j1 = (e', j')" "s_out e' = s_out e1 @ [JO_Segment (default_segment e1)] @ os @ [JO_Eos]"
      "blocks data (q_start k) True (s_mimetype e) os" by (auto simp: e1)
  moreover have "ps_start (default_segment e1) = q_start k" "ps_position (default_segment e1) = q_start k"
    "ps_rate (default_segment e1) = q_rate k" "\<not> ps_update (default_segment e1)"
    using assms(6,7) by (simp_all add: e1 default_segment_def u64_def)
  moreover have "s_out e1 = s_out e @ (if q_flush k then [JO_FlushStart, JO_FlushStop] else [])" by (simp add: e1)
  ultimately show ?thesis using s(1) blocks_bytes [OF r(3) assms(6)] by (metis append.assoc)
qed

text \<open>
  A source that stops on pause does not come back. Going from PLAYING to PAUSED stops the loop, and the next turn pauses the task; going back to
  PLAYING resets the result to OK, but nothing starts the task again: no turn is run any more, so nothing is pushed until
  somebody seeks.
\<close>

theorem source_stalls_after_pause:
  assumes "s_stop_on_pause e" "s_task e = TASK_STARTED"
  shows "\<exists>e1 e2 e3. java_source_change_state cb (\<lambda>e. (True, e)) PLAYING_TO_PAUSED e j = (True, e1, j) \<and> java_source_loop r cb e1 j = (e2, j)
    \<and> java_source_change_state cb (\<lambda>e. (True, e)) PAUSED_TO_PLAYING e2 j = (True, e3, j)
    \<and> s_srcresult e3 = FLOW_OK \<and> s_out e3 = s_out e \<and> (\<forall>rs. task_run cb rs e3 j = (e3, j))"
proof -
  have stuck: "task_run cb rs e' j = (e', j)" if "s_task e' = TASK_PAUSED" for rs e' using that by (cases rs) simp_all
  show ?thesis using assms
    by (intro exI [of _ "e\<lparr>s_srcresult := FLOW_FLUSHING\<rparr>"] exI [of _ "e\<lparr>s_srcresult := FLOW_FLUSHING, s_task := TASK_PAUSED\<rparr>"]
        exI [of _ "e\<lparr>s_srcresult := FLOW_OK, s_task := TASK_PAUSED\<rparr>"])
      (simp add: java_source_change_state_def change_state_before_def change_state_after_def java_source_loop_def loop_finish_def Let_def stuck)
qed

text \<open>
  The stream of a buffer in memory never ends: its channel takes a slice of the backing buffer and does not move the
  position, so every call of \<open>readNextBlock\<close> answers with the first block again.
\<close>

lemma mem_next_block_repeats:
  assumes "mem_ok data j" "mem_readNextBlock j = (n, j')" "0 < n"
  shows "mem_readNextBlock j' = (n, j')" "mem_copyBlock n j' = channel_bytes (mc_pos j) n data"
  using assms by (auto simp: mem_readNextBlock_def mem_ok_def Let_def mem_copyBlock_def channel_bytes_def EOS_CODE_def split: if_splits)

section \<open>Instances\<close>

definition sample_file :: file_conn where
  "sample_file = \<lparr>fc_data = [7, 8, 9], fc_pos = 0, fc_buffer = [0, 0], fc_open = True, fc_jni = 0\<rparr>"

definition all_willing :: replies where
  "all_willing = \<lparr>rp_event = True, rp_push = FLOW_OK, rp_seek = None, rp_alloc = True, rp_map = True\<rparr>"

lemma sample_file_ok: "file_ok [7, 8, 9] sample_file" "fc_pos sample_file = 0"
  by (simp_all add: sample_file_def file_ok_def)

lemma willing_replicate: "\<forall>r \<in> set (replicate n all_willing). willing r"
  by (simp add: all_willing_def willing_def)

theorem source_streams_file_witness:
  "\<exists>seg os e' j'. task_run file_callbacks (replicate 6 all_willing)
      (snd (java_source_activatemode True True MODE_PUSH True (change_state_before READY_TO_PAUSED java_source_init))) sample_file = (e', j')
    \<and> s_out e' = [JO_StreamStart, JO_Segment seg] @ os @ [JO_Eos] \<and> concat (map bytes_of os) = [7, 8, 9]"
  using source_streams_file [OF sample_file_ok _ _ willing_replicate, of java_source_init 6]
  by (auto simp: java_source_init_def)

theorem source_seek_exact_witness:
  "\<exists>e1 j1 os e' j'. java_source_event False file_callbacks (Some \<lparr>q_format = FMT_BYTES, q_flush = True, q_start = 1, q_rate = 1\<rparr>)
      (java_source_init\<lparr>s_is_seekable := True\<rparr>) sample_file = (True, e1, j1) \<and> task_run file_callbacks (replicate 5 all_willing) e1 j1 = (e', j')
    \<and> blocks [7, 8, 9] 1 True None os \<and> concat (map bytes_of os) = [8, 9]"
proof -
  let ?k = "\<lparr>q_format = FMT_BYTES, q_flush = True, q_start = 1, q_rate = 1\<rparr>" and ?e = "java_source_init\<lparr>s_is_seekable := True\<rparr>"
  have h: "int (length [7, 8, 9 :: int]) < 2 ^ 63" "s_mode ?e = MODE_DEFAULT" "s_is_seekable ?e" "s_mimetype ?e = None"
    "q_format ?k = FMT_BYTES" "0 \<le> q_start ?k" "q_start ?k < 2 ^ 63" "int (length [7, 8, 9 :: int]) + 2 \<le> int (length (replicate 5 all_willing))"
    by (simp_all add: java_source_init_def)
  from source_seek_exact [OF sample_file_ok(1) h(1-3,5-7) willing_replicate h(8), of False] h(4) show ?thesis
    by (simp add: numeral_2_eq_2) blast
qed

theorem source_stalls_after_pause_witness:
  "\<exists>e1 e2 e3. java_source_change_state file_callbacks (\<lambda>e. (True, e)) PLAYING_TO_PAUSED (java_source_init\<lparr>s_task := TASK_STARTED\<rparr>) sample_file = (True, e1, sample_file)
    \<and> java_source_loop all_willing file_callbacks e1 sample_file = (e2, sample_file)
    \<and> java_source_change_state file_callbacks (\<lambda>e. (True, e)) PAUSED_TO_PLAYING e2 sample_file = (True, e3, sample_file)
    \<and> s_srcresult e3 = FLOW_OK \<and> task_run file_callbacks [all_willing] e3 sample_file = (e3, sample_file)"
proof -
  have "s_stop_on_pause (java_source_init\<lparr>s_task := TASK_STARTED\<rparr>)" "s_task (java_source_init\<lparr>s_task := TASK_STARTED\<rparr>) = TASK_STARTED"
    by (simp_all add: java_source_init_def)
  from source_stalls_after_pause [OF this, of file_callbacks sample_file all_willing] show ?thesis by blast
qed

theorem pull_serves_medium_witness:
  "(\<exists>f'. java_source_getrange True True file_callbacks 1 5 sample_file = Some ((FLOW_OK, [8, 9]), f'))
    \<and> (\<exists>m'. java_source_getrange True True mem_callbacks 1 5 \<lparr>mc_data = replicate 65537 4, mc_pos = 0, mc_buffer = [], mc_open = True, mc_jni = 0\<rparr>
        = Some (getrange_spec (replicate 65537 4) 1 5, m'))"
proof -
  have "mem_ok (replicate 65537 4) \<lparr>mc_data = replicate 65537 4, mc_pos = 0, mc_buffer = [], mc_open = True, mc_jni = 0\<rparr>" by (simp add: mem_ok_def)
  from pull_serves_medium [OF _ _ sample_file_ok(1) this, of 1 5] show ?thesis
    by (simp add: getrange_spec_def [of "[7, 8, 9]"] channel_bytes_def MAX_READ_SIZE_def)
qed

end
