(* ===== verification/JavaPipeline.thy ===== *)
theory JavaPipeline
  imports JavaSource
begin

text \<open>
  The source element and the progress buffer behind it, as \<open>jfxmedia/platform/gstreamer/GstPipelineFactory.cpp\<close> links them when the connection needs a buffer,
  which http connections do. The connection is an argument of the linked elements; the theorems take the one to a file for it, which serves a medium in
  blocks and seeks in it like an http connection without failures of the network. The items
  that the source pushes are the calls of the buffer's chain and event functions, in the order of the pushes; what these answer are the
  replies of the turn. The buffer seeks through the source when it cannot serve a seek itself.
\<close>

section \<open>The linked elements\<close>

datatype jpc = JP_Top | JP_Body | JP_Finish flow

record 'j csys =
  y_src :: jsrc
  y_conn :: 'j
  y_pc :: jpc
  y_queue :: "(jout \<times> replies) list"
  y_seeking :: bool
  y_pb :: psys

text \<open>What the system answers in a call of the buffer; it is trusted with complete writes and with new caches that are empty.\<close>

record system =
  v_over :: bool
  v_second :: bool
  v_mapped :: bool
  v_written :: int
  v_fresh :: "cache option"

definition trusted :: "system \<Rightarrow> jout \<Rightarrow> bool" where
  "trusted v x \<longleftrightarrow> (v_fresh v = None \<or> v_fresh v = Some new_cache) \<and> v_mapped v \<and> int (length (bytes_of x)) \<le> v_written v"

fun sent :: "system \<Rightarrow> jout \<Rightarrow> pact" where
  "sent v (JO_Buffer bs offset _) = B_Chain (v_over v) (v_second v) (v_mapped v) (v_written v) offset bs"
| "sent v (JO_Segment seg) = B_Event (v_over v) (v_fresh v) (SE_Segment (pseg.truncate seg))"
| "sent v JO_Eos = B_Event (v_over v) (v_fresh v) SE_Eos"
| "sent v JO_FlushStart = B_Event (v_over v) (v_fresh v) SE_FlushStart"
| "sent v JO_FlushStop = B_Event (v_over v) (v_fresh v) SE_FlushStop"
| "sent v JO_StreamStart = B_Event (v_over v) (v_fresh v) SE_Serialized"
| "sent v (JO_Caps _) = B_Event (v_over v) (v_fresh v) SE_Serialized"

text \<open>The replies of a turn are what the buffer answers.\<close>

fun agrees :: "system \<Rightarrow> replies \<Rightarrow> jout \<Rightarrow> pb \<Rightarrow> bool" where
  "agrees v r (JO_Buffer bs offset _) p =
     (case progress_buffer_chain (v_over v) (v_second v) (v_mapped v) (v_written v) offset bs p of
        None \<Rightarrow> True | Some (result, _) \<Rightarrow> rp_push r = result)"
| "agrees v r (JO_Segment seg) p =
     (case progress_buffer_sink_event (v_over v) (v_fresh v) (SE_Segment (pseg.truncate seg)) p of
        None \<Rightarrow> True | Some (ok, _) \<Rightarrow> rp_event r = ok)"
| "agrees v r _ p = True"

definition new_outs :: "jsrc \<Rightarrow> jsrc \<Rightarrow> jout list" where
  "new_outs e e' = drop (length (s_out e)) (s_out e')"

fun deliver_all :: "system \<Rightarrow> jout list \<Rightarrow> psys \<Rightarrow> psys option" where
  "deliver_all v [] p = Some p"
| "deliver_all v (x # xs) p = (case pb_step (sent v x) p of P_Next p' \<Rightarrow> deliver_all v xs p' | _ \<Rightarrow> None)"

text \<open>The steps of the buffer that are not calls of the source.\<close>

fun own_step :: "pact \<Rightarrow> bool" where
  "own_step (B_Chain _ _ _ _ _ _) = False"
| "own_step (B_Event _ _ _) = False"
| "own_step (B_SeekReply _) = False"
| "own_step B_ChangeState = False"
| "own_step _ = True"

definition asked :: "seek \<Rightarrow> jseek" where
  "asked k = \<lparr>q_format = FMT_BYTES, q_flush = k_flush k, q_start = k_position k, q_rate = k_rate k\<rparr>"

definition seek_range :: "seek \<Rightarrow> bool" where
  "seek_range k \<longleftrightarrow> 0 \<le> k_position k \<and> k_position k \<le> 2 ^ 62"

text \<open>
  The steps: a turn of the source in its parts, the deliveries in between, the steps of the buffer, and a seek that the buffer sends
  upstream. The running task of the source holds its stream lock, so the seek goes on when the task has paused.
\<close>

inductive pipe_step :: "'j callbacks \<Rightarrow> 'j csys \<Rightarrow> 'j csys \<Rightarrow> bool" for cb where
  turn: "y_pc s = JP_Top \<Longrightarrow> s_task (y_src s) = TASK_STARTED \<Longrightarrow> s_srcresult (y_src s) = FLOW_OK \<Longrightarrow> pipe_step cb s (s\<lparr>y_pc := JP_Body\<rparr>)"
| no_turn: "y_pc s = JP_Top \<Longrightarrow> s_task (y_src s) = TASK_STARTED \<Longrightarrow> s_srcresult (y_src s) \<noteq> FLOW_OK \<Longrightarrow>
    pipe_step cb s (s\<lparr>y_src := loop_finish (s_srcresult (y_src s)) (y_src s)\<rparr>)"
| body: "y_pc s = JP_Body \<Longrightarrow> rp_alloc r \<Longrightarrow> rp_seek r = None \<Longrightarrow> loop_body r cb (y_src s) (y_conn s) = (res, e, j) \<Longrightarrow>
    pipe_step cb s (s\<lparr>y_src := e, y_conn := j, y_pc := JP_Finish res, y_queue := map (\<lambda>x. (x, r)) (new_outs (y_src s) e)\<rparr>)"
| deliver: "y_queue s = (x, r) # q \<Longrightarrow> trusted v x \<Longrightarrow> agrees v r x (x_pb (y_pb s)) \<Longrightarrow> pb_step (sent v x) (y_pb s) = P_Next p \<Longrightarrow>
    pipe_step cb s (s\<lparr>y_queue := q, y_pb := p\<rparr>)"
| finish: "y_pc s = JP_Finish res \<Longrightarrow> y_queue s = [] \<Longrightarrow> x_up (y_pb s) = U_Idle \<Longrightarrow>
    pipe_step cb s (s\<lparr>y_src := loop_finish res (y_src s), y_pc := JP_Top\<rparr>)"
| buffer: "own_step a \<Longrightarrow> pb_step a (y_pb s) = P_Next p \<Longrightarrow> pipe_step cb s (s\<lparr>y_pb := p\<rparr>)"
| seek_begin: "x_seek (y_pb s) = K_Upstream k \<Longrightarrow> \<not> y_seeking s \<Longrightarrow> s_is_seekable (y_src s) \<Longrightarrow> seek_begin (asked k) (y_src s) = (True, e) \<Longrightarrow>
    deliver_all v (new_outs (y_src s) e) (y_pb s) = Some p \<Longrightarrow> pipe_step cb s (s\<lparr>y_src := e, y_pb := p, y_seeking := True\<rparr>)"
| seek_end: "x_seek (y_pb s) = K_Upstream k \<Longrightarrow> seek_range k \<Longrightarrow> y_seeking s \<Longrightarrow> y_pc s = JP_Top \<Longrightarrow> s_task (y_src s) \<noteq> TASK_STARTED \<Longrightarrow>
    seek_signal cb (asked k) (y_src s) (y_conn s) = (np, j) \<Longrightarrow> seek_end (asked k) np (y_src s) = (ok, e) \<Longrightarrow>
    deliver_all v (new_outs (y_src s) e) (y_pb s) = Some p1 \<Longrightarrow> pb_step (B_SeekReply ok) p1 = P_Next p \<Longrightarrow>
    pipe_step cb s (s\<lparr>y_src := e, y_conn := j, y_pb := p, y_seeking := False\<rparr>)"
| seek_refused: "x_seek (y_pb s) = K_Upstream k \<Longrightarrow> \<not> y_seeking s \<Longrightarrow> \<not> s_is_seekable (y_src s) \<Longrightarrow> pb_step (B_SeekReply False) (y_pb s) = P_Next p \<Longrightarrow>
    pipe_step cb s (s\<lparr>y_pb := p\<rparr>)"

definition pipe_start :: "jsrc \<Rightarrow> 'j \<Rightarrow> 'j csys" where
  "pipe_start e j = \<lparr>y_src = snd (java_source_activatemode True True MODE_PUSH True (change_state_before READY_TO_PAUSED e)), y_conn = j,
     y_pc = JP_Top, y_queue = [], y_seeking = False, y_pb = pb_start\<rparr>"

inductive pipe_reach :: "'j callbacks \<Rightarrow> jsrc \<Rightarrow> 'j \<Rightarrow> 'j csys \<Rightarrow> bool" for cb e j where
  start: "pipe_reach cb e j (pipe_start e j)"
| step: "pipe_reach cb e j s \<Longrightarrow> pipe_step cb s s' \<Longrightarrow> pipe_reach cb e j s'"

section \<open>The window of the buffer\<close>

text \<open>Where the cache of the buffer starts and how much it has.\<close>

definition reach_of :: "pb \<Rightarrow> int \<times> int option" where
  "reach_of p = (p_cache_read_offset p, map_option c_write_position (p_cache p))"

definition window_at :: "int \<times> int option \<Rightarrow> int \<Rightarrow> bool" where
  "window_at w x \<longleftrightarrow> (case snd w of None \<Rightarrow> True | Some n \<Rightarrow> fst w + n = x)"

lemma cache_read_keeps [simp]: "c_write_position (snd (snd (cache_read_buffer al n w c))) = c_write_position c"
  by (simp add: cache_read_buffer_def os_read_def Let_def)

lemma cache_read_keeps': "cache_read_buffer al n w c = (x, b, c') \<Longrightarrow> c_write_position c' = c_write_position c"
  using cache_read_keeps [of al n w c] by simp

lemma set_read_keeps [simp]: "c_write_position (snd (cache_set_read_position x c)) = c_write_position c"
  by (simp add: cache_set_read_position_def)

lemma reach_frames [simp]:
  "reach_of (post x e) = reach_of e" "reach_of (progress_buffer_set_pending_event ev e) = reach_of e" "reach_of (reset_eos b e) = reach_of e"
  "reach_of (ProgressBuffer.loop_end r e) = reach_of e" "reach_of (loop_pushed_buffer r e) = reach_of e" "reach_of (seek_stop_task e) = reach_of e"
  "reach_of (seek_source_begin k e) = reach_of e" "reach_of (seek_finish k e) = reach_of e" "reach_of (snd (seek_check k e)) = reach_of e"
  "reach_of (send_underrun_message e) = reach_of e" "reach_of (snd (send_position_message ov m e)) = reach_of e"
  by (auto simp: reach_of_def post_def progress_buffer_set_pending_event_def reset_eos_def ProgressBuffer.loop_end_def loop_pushed_buffer_def seek_stop_task_def
      seek_source_begin_def seek_finish_def seek_check_def send_underrun_message_def send_position_message_def Let_def)

lemma reach_activate [simp]: "reach_of (snd (snd (progress_buffer_activatemode l c m a e))) = reach_of e"
  by (cases m) (auto simp: progress_buffer_activatemode_def progress_buffer_activatepush_src_def progress_buffer_activatepull_src_def reset_eos_def
      reach_of_def progress_buffer_set_pending_event_def Let_def)

lemma reach_create [simp]: "reach_of (progress_buffer_create_sourcepad l c m e) = reach_of e"
  using reach_activate [of l c m True "e\<lparr>p_srcpad := True\<rparr>"] by (simp add: progress_buffer_create_sourcepad_def reach_of_def)

lemma reach_seek_in_cache: "seek_in_cache k e = Some e' \<Longrightarrow> reach_of e' = reach_of e"
  by (auto simp: seek_in_cache_def reach_of_def progress_buffer_set_pending_event_def Let_def split: bind_splits)

lemma reach_section:
  assumes "loop_section al n w skip e = Some r"
  shows "case r of PL_Wait e' \<Rightarrow> reach_of e' = reach_of e | PL_Again _ e' \<Rightarrow> reach_of e' = reach_of e | PL_Event _ _ e' \<Rightarrow> reach_of e' = reach_of e
    | PL_Buffer _ _ e' \<Rightarrow> reach_of e' = reach_of e | PL_Return _ e' \<Rightarrow> reach_of e' = reach_of e"
  using assms
  by (auto simp: loop_section_def Let_def reach_of_def progress_buffer_set_pending_event_def send_underrun_message_def post_def
      split: if_splits option.splits pev.splits prod.splits bind_splits dest: cache_read_keeps')

lemma reach_signal [simp]: "x_pb (signal_task b s) = x_pb s"
  by (simp add: signal_task_def split: task_pc.split)

lemma reach_task_after:
  assumes "loop_section al n w sk (x_pb s) = Some r"
  shows "reach_of (x_pb (task_after skip r s)) = reach_of (x_pb s)"
  using reach_section [OF assms] by (cases r) simp_all

lemma reach_own_step:
  assumes "own_step a \<or> (\<exists>b. a = B_SeekReply b)" "pb_step a s = P_Next s'"
  shows "reach_of (x_pb s') = reach_of (x_pb s)"
proof (cases a)
  case (B_Task al n w)
  then show ?thesis using assms(2) reach_task_after
    by (auto simp: pnext_def task_step_def split: option.splits bind_splits)
next
  case (B_SeekJoin near)
  have "reach_of e' = reach_of (x_pb s)" if "seek_locked near k (x_pb s) = Some e'" for k e'
    using that by (auto simp: seek_locked_def Let_def reach_of_def reset_eos_def progress_buffer_set_pending_event_def dest!: reach_seek_in_cache split: if_splits bind_splits)
  then show ?thesis using B_SeekJoin assms(2) by (auto simp: pnext_def split: seek_pc.splits if_splits option.splits bind_splits)
next
  case (B_SeekReply h)
  have "reach_of e' = reach_of (x_pb s)" if "seek_source_end h k (x_pb s) = Some e'" for k e'
    using that by (auto simp: seek_source_end_def reach_of_def dest!: reach_seek_in_cache split: if_splits bind_splits)
  then show ?thesis using B_SeekReply assms(2) by (auto simp: pnext_def split: seek_pc.splits if_splits option.splits bind_splits)
next
  case (B_Seek k)
  have "reach_of e' = reach_of (x_pb s)" if "seek_check k (x_pb s) = (go, e')" for go e' using that reach_frames(9) by (metis snd_conv)
  then show ?thesis using assms(2) B_Seek by (auto split: if_splits prod.splits)
next
  case (B_Activate l ac)
  have "reach_of e' = reach_of (x_pb s)" if "progress_buffer_activatemode l False MODE_PUSH ac (x_pb s) = (go, sg, e')" for go sg e'
    using that reach_activate by (metis snd_conv)
  then show ?thesis using assms(2) B_Activate by (auto split: if_splits prod.splits)
qed (use assms in \<open>auto simp: Let_def split: seek_pc.splits task_pc.splits if_splits\<close>)

lemma event_step:
  assumes "pb_step (B_Event ov fr ev) s = P_Next s'"
  shows "\<exists>b sg. progress_buffer_sink_event ov fr ev (x_pb s) = Some (b, sg, x_pb s')"
  using assms by (auto simp: pnext_def split: if_splits option.splits bind_splits)

lemma chain_step:
  assumes "pb_step (B_Chain ov se ma n off bs) s = P_Next s'"
  shows "\<exists>f sg. progress_buffer_chain ov se ma n off bs (x_pb s) = Some (f, sg, x_pb s')"
  using assms by (auto simp: pnext_def Let_def split: if_splits option.splits bind_splits)

lemma event_reach:
  assumes "progress_buffer_sink_event ov fr ev e = Some (b, sg, e')" "\<And>seg. ev \<noteq> SE_Segment seg"
  shows "reach_of e' = reach_of e"
  using assms
  by (cases ev) (auto simp: progress_buffer_sink_event_def enqueue_event_def send_position_message_def reach_of_def post_def
      progress_buffer_set_pending_event_def Let_def split: if_splits bind_splits)

lemma segment_reach:
  assumes "progress_buffer_sink_event ov fr (SE_Segment seg) e = Some (b, sg, e')" "fr = None \<or> fr = Some new_cache"
    and "ps_bytes seg" "0 \<le> ps_start seg" "ps_start seg \<le> 2 ^ 62" "ps_stop seg = sz" "0 \<le> sz" "sz \<le> 2 ^ 62"
    and "ps_update seg \<Longrightarrow> ps_start seg = p_cache_read_offset e"
  shows "ps_update seg \<Longrightarrow> fst (reach_of e') = fst (reach_of e)" "b \<Longrightarrow> window_at (reach_of e') (ps_start seg) \<or> ps_start seg = sz"
proof -
  have i: "i64 (ps_start seg) = ps_start seg" using assms(4,5) by (intro i64_small) auto
  have u: "u64 (sz - ps_start seg) \<le> 0 \<longleftrightarrow> ps_start seg = sz"
  proof (cases "ps_start seg \<le> sz")
    case True
    then have "u64 (sz - ps_start seg) = sz - ps_start seg" using assms(4,8) unfolding u64_def by (intro mod_pos_pos_trivial) auto
    then show ?thesis using True by auto
  next
    case False
    then have "u64 (sz - ps_start seg) = sz - ps_start seg + 2 ^ 64"
      using assms(4,5,7) unfolding u64_def by (subst mod_add_self2 [symmetric], intro mod_pos_pos_trivial) auto
    then show ?thesis using False assms(5,7) by auto
  qed
  have w: "c_write_position (snd (cache_set_write_position 0 c)) = 0" for c
    by (simp add: cache_set_write_position_def cache_set_handler_position_def)
  note d = progress_buffer_sink_event_def enqueue_event_def send_position_message_def reach_of_def post_def window_at_def
    progress_buffer_set_pending_event_def Let_def assms(3,6) u i w new_cache_def
  show "fst (reach_of e') = fst (reach_of e)" if "ps_update seg"
    using assms(1) that by (auto simp: d split: if_splits bind_splits)
  show "window_at (reach_of e') (ps_start seg) \<or> ps_start seg = sz" if b
    using assms(1,2) that assms(9) by (auto simp: d split: if_splits bind_splits)
qed

lemma chain_reach:
  assumes "progress_buffer_chain ov se True n off bs e = Some (f, sg, e')" "pb_inv src e" "int (length bs) \<le> n"
    and "off + int (length bs) \<le> 2 ^ 62" "window_at (reach_of e) off"
  shows "fst (reach_of e') = fst (reach_of e)" "f = FLOW_OK \<Longrightarrow> window_at (reach_of e') (off + int (length bs))"
proof -
  note d = progress_buffer_chain_def enqueue_buffer_def send_position_message_def reach_of_def post_def window_at_def Let_def
  show "fst (reach_of e') = fst (reach_of e)"
    using assms(1) by (auto simp: d split: if_splits bind_splits)
  have "c_write_position (cache_write_buffer True n bs c) = c_write_position c + int (length bs)" if "p_cache e = Some c" for c
  proof -
    have h: "holds src (p_cache_read_offset e) c" "off = p_cache_read_offset e + c_write_position c"
      using assms(2,5) that by (auto simp: pb_inv_def window_at_def reach_of_def)
    then have "i64 (c_write_position c + int (length bs)) = c_write_position c + int (length bs)"
      using assms(4) by (intro i64_small) (auto simp: holds_def)
    then show ?thesis using assms(3) by (simp add: cache_write_buffer_def os_write_def Let_def)
  qed
  then show "f = FLOW_OK \<Longrightarrow> window_at (reach_of e') (off + int (length bs))"
    using assms(1,5) by (auto simp: d split: if_splits bind_splits)
qed

section \<open>The source is what the buffer trusts upstream with\<close>

text \<open>The bytes of the medium; \<open>d\<close> stands for what is outside.\<close>

definition medium :: "int \<Rightarrow> int list \<Rightarrow> int \<Rightarrow> int" where
  "medium d data i = (if 0 \<le> i \<and> i < int (length data) then data ! nat i else d)"

lemma content_medium: "0 \<le> p \<Longrightarrow> p + int n \<le> int (length data) \<Longrightarrow> content (medium d data) p n = channel_bytes p (int n) data"
  by (rule nth_equalityI) (auto simp: content_def channel_bytes_def medium_def nat_add_distrib)

text \<open>
  What holds of the items on their way, when the turn will end with \<open>res\<close>; \<open>e\<close> is the element, \<open>x\<close> the position of the connection and \<open>w\<close> the window of
  the buffer. With nothing on its way, a turn that ends well leaves the window where the element goes on.
\<close>

definition ready :: "int list \<Rightarrow> jsrc \<Rightarrow> int \<Rightarrow> int \<times> int option \<Rightarrow> bool" where
  "ready data e x w \<longleftrightarrow> (s_pending_event e \<noteq> EV_EOS \<longrightarrow> s_position e = x)
     \<and> (s_pending_event e = EV_UNKNOWN \<longrightarrow> window_at w (s_position e) \<or> int (length data) \<le> s_position e)"

fun on_way :: "int list \<Rightarrow> jsrc \<Rightarrow> int \<Rightarrow> int \<times> int option \<Rightarrow> flow \<Rightarrow> (jout \<times> replies) list \<Rightarrow> bool" where
  "on_way data e x w res [] \<longleftrightarrow> (res = FLOW_OK \<longrightarrow> ready data e x w)"
| "on_way data e x w res ((JO_StreamStart, r) # q) \<longleftrightarrow> q = [] \<and> s_pending_event e = EV_SEGMENT \<and> s_position e = x"
| "on_way data e x w res ((JO_Segment seg, r) # q) \<longleftrightarrow> q = [] \<and> s_pending_event e = EV_UNKNOWN \<and> s_position e = x \<and> (res = FLOW_OK \<longrightarrow> rp_event r)
     \<and> ps_start seg = s_position e \<and> ps_stop seg = int (length data) \<and> ps_bytes seg \<and> ps_update seg = s_update e \<and> (s_update e \<longrightarrow> s_position e = 0)"
| "on_way data e x w res ((JO_Caps m, r) # q) \<longleftrightarrow> q \<noteq> [] \<and> on_way data e x w res q"
| "on_way data e x w res ((JO_Buffer bs offset b, r) # q) \<longleftrightarrow> 0 \<le> offset \<and> bs = channel_bytes offset (int (length bs)) data
     \<and> offset + int (length bs) \<le> int (length data) \<and> window_at w offset \<and> (q = [] \<or> (\<exists>r'. q = [(JO_Eos, r')] \<and> res \<noteq> FLOW_OK))
     \<and> (res = FLOW_OK \<longrightarrow> rp_push r = FLOW_OK \<and> s_position e = x \<and> s_position e = offset + int (length bs))"
| "on_way data e x w res ((JO_Eos, r) # q) \<longleftrightarrow> q = [] \<and> res \<noteq> FLOW_OK"
| "on_way data e x w res ((_, r) # q) \<longleftrightarrow> False"

definition turn_inv :: "int list \<Rightarrow> int \<Rightarrow> 'j csys \<Rightarrow> bool" where
  "turn_inv data x s \<longleftrightarrow>
     (let e = y_src s; w = reach_of (x_pb (y_pb s))
      in case y_pc s of
           JP_Top \<Rightarrow> y_queue s = [] \<and> (s_task e = TASK_STARTED \<longrightarrow> ready data e x w)
         | JP_Body \<Rightarrow> y_queue s = [] \<and> ready data e x w
         | JP_Finish res \<Rightarrow> on_way data e x w res (y_queue s))"

definition pipe_inv :: "int \<Rightarrow> (int list \<Rightarrow> 'j \<Rightarrow> bool) \<Rightarrow> ('j \<Rightarrow> int) \<Rightarrow> int list \<Rightarrow> 'j csys \<Rightarrow> bool" where
  "pipe_inv d ok pos data s \<longleftrightarrow> pb_streaming (medium d data) (y_pb s) \<and> ok data (y_conn s) \<and> turn_inv data (pos (y_conn s)) s
     \<and> s_mode (y_src s) = MODE_DEFAULT \<and> s_size (y_src s) = int (length data) \<and> 0 \<le> s_position (y_src s) \<and> s_position (y_src s) \<le> 2 ^ 62
     \<and> (s_update (y_src s) \<longrightarrow> fst (reach_of (x_pb (y_pb s))) = 0
         \<and> (s_pending_event (y_src s) = EV_STREAM_START \<or> s_pending_event (y_src s) = EV_SEGMENT \<longrightarrow> s_position (y_src s) = 0))"

lemma loop_finish_frame [simp]:
  "s_pending_event (loop_finish res e) = s_pending_event e" "s_position (loop_finish res e) = s_position e" "s_update (loop_finish res e) = s_update e"
  "s_mode (loop_finish res e) = s_mode e" "s_size (loop_finish res e) = s_size e"
  "res \<noteq> FLOW_OK \<Longrightarrow> s_task (loop_finish res e) = TASK_PAUSED"
  by (auto simp: loop_finish_def Let_def)

lemma on_way_cong:
  assumes "s_pending_event e' = s_pending_event e" "s_position e' = s_position e" "s_update e' = s_update e"
  shows "on_way data e' x w res q = on_way data e x w res q"
  using assms by (induction data e x w res q rule: on_way.induct) (simp_all add: ready_def)

text \<open>The element by itself: what every state of it keeps.\<close>

definition element_ok :: "int list \<Rightarrow> jsrc \<Rightarrow> bool" where
  "element_ok data e \<longleftrightarrow> s_mode e = MODE_DEFAULT \<and> s_size e = int (length data) \<and> 0 \<le> s_position e \<and> s_position e \<le> 2 ^ 62
     \<and> (s_update e \<longrightarrow> s_pending_event e = EV_STREAM_START \<or> s_pending_event e = EV_SEGMENT \<longrightarrow> s_position e = 0)"

lemma pipe_inv_alt:
  "pipe_inv d ok pos data s \<longleftrightarrow> pb_streaming (medium d data) (y_pb s) \<and> ok data (y_conn s) \<and> turn_inv data (pos (y_conn s)) s \<and> element_ok data (y_src s)
     \<and> (s_update (y_src s) \<longrightarrow> fst (reach_of (x_pb (y_pb s))) = 0)"
  by (auto simp: pipe_inv_def element_ok_def)

text \<open>A delivery is well sent and moves the window with what is left on its way.\<close>

lemma plain_event_delivered:
  assumes "pb_streaming src p" "pb_step (B_Event ov fr ev) p = P_Next p'" "\<And>seg. ev \<noteq> SE_Segment seg"
  shows "pb_streaming src p' \<and> reach_of (x_pb p') = reach_of (x_pb p)"
proof -
  have "well_sent src (B_Event ov fr ev) p" using assms(3) by (cases ev) auto
  moreover from event_step [OF assms(2)] event_reach assms(3) have "reach_of (x_pb p') = reach_of (x_pb p)" by blast
  ultimately show ?thesis using assms(1,2) pb_streaming.step by blast
qed

lemma plain_delivered:
  assumes "pb_streaming src p" "pb_step (sent v o') p = P_Next p'" "\<And>seg. o' \<noteq> JO_Segment seg" "\<And>bs offset b. o' \<noteq> JO_Buffer bs offset b"
  shows "pb_streaming src p' \<and> reach_of (x_pb p') = reach_of (x_pb p)"
proof -
  obtain ev where "sent v o' = B_Event (v_over v) (v_fresh v) ev" "\<And>seg. ev \<noteq> SE_Segment seg" using assms(3,4) by (cases o') auto
  then show ?thesis using plain_event_delivered [OF assms(1)] assms(2) by metis
qed

lemma buffer_delivered:
  assumes "pb_streaming (medium d data) p" "on_way data e x (reach_of (x_pb p)) res ((JO_Buffer bs offset b, r) # q)" "int (length data) \<le> 2 ^ 62"
    and "trusted v (JO_Buffer bs offset b)" "agrees v r (JO_Buffer bs offset b) (x_pb p)" "pb_step (sent v (JO_Buffer bs offset b)) p = P_Next p'"
  shows "pb_streaming (medium d data) p' \<and> on_way data e x (reach_of (x_pb p')) res q \<and> fst (reach_of (x_pb p')) = fst (reach_of (x_pb p))"
proof -
  have w: "window_at (reach_of (x_pb p)) offset" "0 \<le> offset" "bs = channel_bytes offset (int (length bs)) data" "offset + int (length bs) \<le> int (length data)"
    using assms(2) by auto
  then have le: "offset + int (length bs) \<le> 2 ^ 62" using assms(3) by linarith
  have "well_sent (medium d data) (sent v (JO_Buffer bs offset b)) p"
    using assms(4) w le by (auto simp: trusted_def content_medium window_at_def reach_of_def split: option.split)
  then have st: "pb_streaming (medium d data) p'" using assms(1,6) pb_streaming.step by blast
  have "v_mapped v" "int (length bs) \<le> v_written v" using assms(4) by (auto simp: trusted_def)
  with chain_step assms(6) obtain f sg where
    f: "progress_buffer_chain (v_over v) (v_second v) True (v_written v) offset bs (x_pb p) = Some (f, sg, x_pb p')" by fastforce
  have "pb_inv (medium d data) (x_pb p)" using pb_streaming_inv [OF assms(1)] by (simp add: psys_inv_def)
  note cr = chain_reach [OF f this \<open>int (length bs) \<le> v_written v\<close> le w(1)]
  have "rp_push r = f" using assms(5) f \<open>v_mapped v\<close> by simp
  then have "on_way data e x (reach_of (x_pb p')) res q" using assms(2) cr(2) by (auto simp: ready_def)
  then show ?thesis using st cr(1) by blast
qed

lemma segment_delivered:
  assumes "pb_streaming (medium d data) p" "on_way data e x (reach_of (x_pb p)) res ((JO_Segment seg, r) # q)" "int (length data) \<le> 2 ^ 62"
    and "element_ok data e" "s_update e \<longrightarrow> fst (reach_of (x_pb p)) = 0"
    and "trusted v (JO_Segment seg)" "agrees v r (JO_Segment seg) (x_pb p)" "pb_step (sent v (JO_Segment seg)) p = P_Next p'"
  shows "pb_streaming (medium d data) p' \<and> on_way data e x (reach_of (x_pb p')) res q \<and> (s_update e \<longrightarrow> fst (reach_of (x_pb p')) = 0)"
proof -
  let ?seg = "pseg.truncate seg"
  have f: "ps_bytes ?seg" "0 \<le> ps_start ?seg" "ps_start ?seg \<le> 2 ^ 62" "ps_stop ?seg = int (length data)" "ps_update ?seg = s_update e" "ps_start ?seg = s_position e"
    using assms(2,4) by (auto simp: pseg.truncate_def element_ok_def)
  have u: "ps_start ?seg = p_cache_read_offset (x_pb p)" if "ps_update ?seg" using assms(2,5) that f by (simp add: reach_of_def)
  have fr: "v_fresh v = None \<or> v_fresh v = Some new_cache" using assms(6) by (simp add: trusted_def)
  have "well_sent (medium d data) (sent v (JO_Segment seg)) p" using f(2,3) u fr by simp
  then have st: "pb_streaming (medium d data) p'" using assms(1,8) pb_streaming.step by blast
  from event_step assms(8) obtain b sg where b: "progress_buffer_sink_event (v_over v) (v_fresh v) (SE_Segment ?seg) (x_pb p) = Some (b, sg, x_pb p')" by fastforce
  note sr = segment_reach [OF b fr f(1-4) _ assms(3) u]
  have "rp_event r = b" using assms(7) b by simp
  then show ?thesis using st assms(2,5) sr f by (auto simp: ready_def)
qed

lemma delivered:
  assumes "pb_streaming (medium d data) p" "on_way data e x (reach_of (x_pb p)) res ((o', r) # q)" "int (length data) \<le> 2 ^ 62"
    and "element_ok data e" "s_update e \<longrightarrow> fst (reach_of (x_pb p)) = 0"
    and "trusted v o'" "agrees v r o' (x_pb p)" "pb_step (sent v o') p = P_Next p'"
  shows "pb_streaming (medium d data) p' \<and> on_way data e x (reach_of (x_pb p')) res q \<and> (s_update e \<longrightarrow> fst (reach_of (x_pb p')) = 0)"
proof (cases o')
  case (JO_Segment seg)
  then show ?thesis using segment_delivered [OF assms(1) _ assms(3-5)] assms by blast
next
  case (JO_Buffer bs offset b)
  then show ?thesis using buffer_delivered [OF assms(1) _ assms(3)] assms by metis
next
  case JO_StreamStart
  then show ?thesis using plain_delivered [OF assms(1,8)] assms(2,5) by (auto simp: ready_def)
next
  case JO_Eos
  then show ?thesis using plain_delivered [OF assms(1,8)] assms(2,5) by auto
next
  case (JO_Caps m)
  then show ?thesis using plain_delivered [OF assms(1,8)] assms(2,5) by auto
qed (use assms(2) in simp_all)

lemma flushes_delivered:
  assumes "pb_streaming src p" "deliver_all v os p = Some p'" "set os \<subseteq> {JO_FlushStart, JO_FlushStop}"
  shows "pb_streaming src p' \<and> reach_of (x_pb p') = reach_of (x_pb p)"
  using assms
proof (induction os arbitrary: p)
  case (Cons x os)
  from Cons.prems(2) obtain p1 where p1: "pb_step (sent v x) p = P_Next p1" "deliver_all v os p1 = Some p'" by (auto split: poutcome.splits)
  have "pb_streaming src p1 \<and> reach_of (x_pb p1) = reach_of (x_pb p)"
    using Cons.prems(3) by (intro plain_delivered [OF Cons.prems(1) p1(1)]) auto
  then show ?case using Cons.IH [OF _ p1(2)] Cons.prems(3) by auto
qed simp

context block_stream
begin

lemma buffer_on_way:
  assumes "ok data j" "element_ok data e" "ready data e (pos j) w" "int (length data) \<le> 2 ^ 62" "s_pending_event e = EV_UNKNOWN"
    and "rp_alloc r" "rp_seek r = None" "do_buffer r cb e j = (res, e', j')"
  shows "ok data j' \<and> element_ok data e' \<and> on_way data e' (pos j') w res (map (\<lambda>x. (x, r)) (new_outs e e')) \<and> s_update e' = s_update e"
proof (cases "pos j < int (length data)")
  case False
  then have "cb_read_next_block cb j = (EOS_CODE, j)" using finished [OF assms(1)] by simp
  then have "res = FLOW_EOS" "e' = e\<lparr>s_pending_event := EV_EOS, s_out := s_out e @ [JO_Eos]\<rparr>" "j' = j"
    using assms(2,8) by (auto simp: do_buffer_def EOS_CODE_def in_mode_def element_ok_def do_eos_def send_out_def)
  then show ?thesis using assms(1,2) by (simp add: new_outs_def element_ok_def)
next
  case True
  from next_block [OF assms(1) True] obtain n j1 where n: "cb_read_next_block cb j = (n, j1)" "0 < n" "n \<le> int (length data) - pos j" "ok data j1"
    "pos j1 = pos j + n" "cb_copy_block cb n j1 = channel_bytes (pos j) n data" by blast
  have p: "s_position e = pos j" "window_at w (pos j)" using assms(3,5) True by (auto simp: ready_def)
  have len: "int (length (channel_bytes (pos j) n data)) = n" using n pos_nonneg [OF assms(1)] by (intro length_channel_bytes) auto
  have u: "u64 (pos j) = pos j" using pos_nonneg [OF assms(1)] assms(4) True by (simp add: u64_def)
  have i: "i64 (pos j + n) = pos j + n" using pos_nonneg [OF assms(1)] assms(4) n(2,3) by (intro i64_small) auto
  show ?thesis
  proof (cases "rp_map r")
    case False
    then have "res = FLOW_ERROR" "e' = e" "j' = j1" using assms(6,8) n(1,2) by (auto simp: do_buffer_def)
    then show ?thesis using n(4) assms(2) by (simp add: new_outs_def)
  next
    case map: True
    let ?o = "(case s_mimetype e of None \<Rightarrow> [] | Some m \<Rightarrow> [JO_Caps m]) @ [JO_Buffer (channel_bytes (pos j) n data) (pos j) (s_discont e)]"
    let ?e = "e\<lparr>s_discont := False, s_mimetype := None, s_position := pos j + n, s_out := s_out e @ ?o\<rparr>"
    have "push_block r cb n e j1 = (if rp_push r = FLOW_EOS then (FLOW_EOS, ?e\<lparr>s_pending_event := EV_EOS, s_out := s_out ?e @ [JO_Eos]\<rparr>, j1)
        else (rp_push r, ?e, j1))"
      using assms(5,7) n(6) u i p(1) by (cases e) (auto simp: push_block_def push_caps_def send_out_def do_eos_def Let_def split: option.splits)
    moreover have "(res, e', j') = push_block r cb n e j1" using assms(6,8) map n(1,2) by (auto simp: do_buffer_def)
    ultimately have e': "(res, e', j') = (if rp_push r = FLOW_EOS then (FLOW_EOS, ?e\<lparr>s_pending_event := EV_EOS, s_out := s_out ?e @ [JO_Eos]\<rparr>, j1)
        else (rp_push r, ?e, j1))" by simp
    have el: "element_ok data ?e" "element_ok data (?e\<lparr>s_pending_event := EV_EOS, s_out := out\<rparr>)" for out
      using assms(2,4,5) n(2,3) pos_nonneg [OF assms(1)] by (auto simp: element_ok_def)
    show ?thesis
    proof (cases "rp_push r = FLOW_EOS")
      case True
      then show ?thesis using e' el n(2-5) p len pos_nonneg [OF assms(1)] by (auto simp: new_outs_def split: option.split)
    next
      case False
      then show ?thesis using e' el n(2-5) p len pos_nonneg [OF assms(1)] by (auto simp: new_outs_def split: option.split)
    qed
  qed
qed

lemma body_on_way:
  assumes "ok data j" "element_ok data e" "ready data e (pos j) w" "int (length data) \<le> 2 ^ 62"
    and "rp_alloc r" "rp_seek r = None" "loop_body r cb e j = (res, e', j')"
  shows "ok data j' \<and> element_ok data e' \<and> on_way data e' (pos j') w res (map (\<lambda>x. (x, r)) (new_outs e e')) \<and> s_update e' = s_update e"
proof (cases "s_pending_event e")
  case EV_STREAM_START
  then show ?thesis using assms by (auto simp: loop_body_def do_stream_start_def send_out_def new_outs_def element_ok_def ready_def)
next
  case EV_SEGMENT
  have "u64 (s_position e) = s_position e" "u64 (s_size e) = s_size e" using assms(2,4) by (simp_all add: element_ok_def u64_def)
  with EV_SEGMENT show ?thesis using assms
    by (auto simp: loop_body_def do_segment_def send_out_def new_outs_def element_ok_def ready_def default_segment_def event_result_def
        in_mode_def MODE_DEFAULT_def MODE_HLS_def Let_def)
next
  case EV_EOS
  then show ?thesis using assms by (auto simp: loop_body_def do_eos_def send_out_def new_outs_def element_ok_def)
next
  case EV_UNKNOWN
  then show ?thesis using buffer_on_way [OF assms(1-4) EV_UNKNOWN assms(5,6)] assms(7) by (simp add: loop_body_def)
qed

lemma pipe_inv_step:
  assumes "pipe_inv d ok pos data s" "pipe_step cb s s'" "int (length data) \<le> 2 ^ 62"
  shows "pipe_inv d ok pos data s'"
  using assms(2)
proof cases
  case turn
  then show ?thesis using assms(1) by (auto simp: pipe_inv_alt turn_inv_def Let_def)
next
  case no_turn
  then show ?thesis using assms(1) by (auto simp: pipe_inv_alt turn_inv_def element_ok_def Let_def)
next
  case (body r res e j)
  have i: "ok data (y_conn s)" "element_ok data (y_src s)" "ready data (y_src s) (pos (y_conn s)) (reach_of (x_pb (y_pb s)))"
    using assms(1) body(2) by (simp_all add: pipe_inv_alt turn_inv_def Let_def)
  from body_on_way [OF i assms(3) body(3-5)] show ?thesis
    using assms(1) body(1) by (auto simp: pipe_inv_alt turn_inv_def Let_def)
next
  case (deliver o' r q v p)
  obtain res where pc: "y_pc s = JP_Finish res" using assms(1) deliver(2) by (cases "y_pc s") (auto simp: pipe_inv_alt turn_inv_def Let_def)
  have "on_way data (y_src s) (pos (y_conn s)) (reach_of (x_pb (y_pb s))) res ((o', r) # q)"
    using assms(1) deliver(2) pc by (simp add: pipe_inv_alt turn_inv_def Let_def)
  from delivered [OF _ this assms(3) _ _ deliver(3-5)] assms(1) show ?thesis
    by (auto simp: pipe_inv_alt turn_inv_def Let_def deliver(1) pc)
next
  case (finish res)
  then show ?thesis using assms(1) by (cases "res = FLOW_OK") (auto simp: pipe_inv_alt turn_inv_def element_ok_def ready_def Let_def)
next
  case (buffer a p)
  then have "well_sent (medium d data) a (y_pb s)" by (cases a) auto
  then have "pb_streaming (medium d data) p" using assms(1) buffer(3) pb_streaming.step by (auto simp: pipe_inv_alt)
  moreover have "reach_of (x_pb p) = reach_of (x_pb (y_pb s))" using buffer reach_own_step by blast
  ultimately show ?thesis using assms(1) buffer(1) by (cases "y_pc s") (simp_all add: pipe_inv_alt turn_inv_def Let_def)
next
  case (seek_begin k e v p)
  have e: "e = y_src s\<lparr>s_srcresult := FLOW_FLUSHING, s_out := s_out (y_src s) @ (if k_flush k then [JO_FlushStart] else [])\<rparr>"
    using seek_begin(5) by (auto simp: seek_begin_def send_out_def asked_def split: if_splits)
  have "set (new_outs (y_src s) e) \<subseteq> {JO_FlushStart, JO_FlushStop}" by (auto simp: e new_outs_def)
  from flushes_delivered [OF _ seek_begin(6) this] assms(1) have p: "pb_streaming (medium d data) p" "reach_of (x_pb p) = reach_of (x_pb (y_pb s))"
    by (auto simp: pipe_inv_alt)
  have "on_way data e x w res q = on_way data (y_src s) x w res q" for x w res q by (rule on_way_cong) (simp_all add: e)
  then show ?thesis using assms(1) p by (cases "y_pc s") (auto simp: pipe_inv_alt turn_inv_def seek_begin(1) e element_ok_def ready_def Let_def)
next
  case (seek_end k np j good e v p1 p)
  have el: "element_ok data (y_src s)" "ok data (y_conn s)" "y_queue s = []" "pb_streaming (medium d data) (y_pb s)"
    using assms(1) seek_end(5) by (simp_all add: pipe_inv_alt turn_inv_def Let_def)
  have k: "0 \<le> k_position k" "k_position k \<le> 2 ^ 62" using seek_end(3) by (simp_all add: seek_range_def)
  have t: "seek_target (asked k) (y_src s) = k_position k" using el(1)
    by (simp add: seek_target_def asked_def in_mode_def element_ok_def MODE_DEFAULT_def MODE_HLS_def)
  from moved [OF el(2) k(1)] seek_end(7) have j: "np = k_position k" "ok data j" "pos j = k_position k" by (auto simp: seek_signal_def t)
  have e: "e = y_src s\<lparr>s_rate := k_rate k, s_pending_event := EV_SEGMENT, s_position := k_position k, s_position_time := 0, s_discont := True, s_update := False,
      s_srcresult := FLOW_OK, s_task := TASK_STARTED, s_out := s_out (y_src s) @ (if k_flush k then [JO_FlushStop] else [])\<rparr>"
    using seek_end(8) el(1) k(1) by (cases "y_src s")
      (auto simp: seek_end_def j(1) seek_target_def asked_def in_mode_def element_ok_def MODE_DEFAULT_def MODE_HLS_def send_out_def Let_def)
  have "set (new_outs (y_src s) e) \<subseteq> {JO_FlushStart, JO_FlushStop}" by (auto simp: e new_outs_def)
  from flushes_delivered [OF el(4) seek_end(9) this] have p1: "pb_streaming (medium d data) p1" by blast
  have "pb_streaming (medium d data) p" using p1 seek_end(10) pb_streaming.step [of "medium d data" p1 "B_SeekReply good"] by auto
  then show ?thesis using el j k seek_end(5) by (auto simp: pipe_inv_alt turn_inv_def seek_end(1) e element_ok_def ready_def Let_def)
next
  case (seek_refused k p)
  have "pb_streaming (medium d data) p" using assms(1) seek_refused(5) pb_streaming.step [of "medium d data" "y_pb s" "B_SeekReply False"] by (auto simp: pipe_inv_alt)
  moreover have "reach_of (x_pb p) = reach_of (x_pb (y_pb s))" using seek_refused(5) reach_own_step by blast
  ultimately show ?thesis using assms(1) seek_refused(1) by (cases "y_pc s") (simp_all add: pipe_inv_alt turn_inv_def Let_def)
qed

lemma pipe_reach_inv:
  assumes "pipe_reach cb e j s" "ok data j" "pos j = 0" "int (length data) \<le> 2 ^ 62" "s_mode e = MODE_DEFAULT" "s_size e = int (length data)"
  shows "pipe_inv d ok pos data s"
  using assms(1)
proof (induction rule: pipe_reach.induct)
  case start
  let ?e = "snd (java_source_activatemode True True MODE_PUSH True (change_state_before READY_TO_PAUSED e))"
  have f: "element_ok data ?e" "s_pending_event ?e = EV_STREAM_START" "s_position ?e = 0" using assms(5,6)
    by (simp_all add: element_ok_def java_source_activatemode_def change_state_before_def)
  have "fst (reach_of (x_pb pb_start)) = 0" by (simp add: reach_of_def pb_start_def progress_buffer_init_def progress_buffer_flush_data_def)
  then show ?case using assms(2,3) f pb_streaming.start by (simp add: pipe_inv_alt pipe_start_def turn_inv_def ready_def)
next
  case (step s s')
  then show ?case using pipe_inv_step assms(4) by blast
qed

end

text \<open>
  C3: from the file to the decoder no byte is lost, doubled or misplaced. In every interleaving of the source task, the deliveries to the
  progress buffer, the buffer's own task and seeks, also seeks that the buffer passes on to the source, every buffer that
  the progress buffer pushes downstream carries the bytes of the file at the offset it is stamped with. The
  source meets what the progress buffer requires of the element before it. (The factory builds this chain for http connections; the medium is read here
  through the connection to a file.)
\<close>

theorem file_reaches_decoder:
  assumes "pipe_reach file_callbacks e j s" "file_ok data j" "fc_pos j = 0" "int (length data) \<le> 2 ^ 62"
    and "s_mode e = MODE_DEFAULT" "s_size e = int (length data)" "PO_Buffer bs offset \<in> set (p_out (x_pb (y_pb s)))"
  shows "bs = channel_bytes offset (int (length bs)) data \<and> (bs = [] \<or> 0 \<le> offset \<and> offset + int (length bs) \<le> int (length data))"
proof -
  have c: "bs = content (medium d data) offset (length bs)" for d
  proof -
    have "pb_streaming (medium d data) (y_pb s)" using fs.pipe_reach_inv [OF assms(1-6)] by (simp add: pipe_inv_alt)
    from pb_streaming_inv [OF this] assms(7) show ?thesis by (auto simp: psys_inv_def pb_inv_def list_all_iff good_out_def)
  qed
  have "0 \<le> offset + int i \<and> offset + int i < int (length data)" if "i < length bs" for i
  proof (rule ccontr)
    assume "\<not> ?thesis"
    then have "medium 0 data (offset + int i) = 0" "medium 1 data (offset + int i) = 1" by (auto simp: medium_def)
    moreover have "bs ! i = medium 0 data (offset + int i)" "bs ! i = medium 1 data (offset + int i)"
      using arg_cong [OF c [of 0], of "\<lambda>x. x ! i"] arg_cong [OF c [of 1], of "\<lambda>x. x ! i"] that by (simp_all add: content_def)
    ultimately show False by simp
  qed
  from this [of 0] this [of "length bs - 1"] have r: "bs = [] \<or> 0 \<le> offset \<and> offset + int (length bs) \<le> int (length data)"
    by (cases bs) auto
  moreover have "bs = channel_bytes offset (int (length bs)) data" if "bs \<noteq> []"
    using c [of 0] r that content_medium [of offset "length bs" data 0] by simp
  ultimately show ?thesis by (cases "bs = []") (simp_all add: channel_bytes_def)
qed

text \<open>A run of the linked elements on the file of three bytes, step by step.\<close>

datatype cact = C_Turn | C_Body replies | C_Deliver system | C_Finish | C_Own pact

fun pipe_do :: "'j callbacks \<Rightarrow> cact \<Rightarrow> 'j csys \<Rightarrow> 'j csys option" where
  "pipe_do cb C_Turn s = (if y_pc s = JP_Top \<and> s_task (y_src s) = TASK_STARTED \<and> s_srcresult (y_src s) = FLOW_OK then Some (s\<lparr>y_pc := JP_Body\<rparr>) else None)"
| "pipe_do cb (C_Body r) s =
     (if y_pc s = JP_Body \<and> rp_alloc r \<and> rp_seek r = None then
        case loop_body r cb (y_src s) (y_conn s) of (res, e, j) \<Rightarrow>
          Some (s\<lparr>y_src := e, y_conn := j, y_pc := JP_Finish res, y_queue := map (\<lambda>x. (x, r)) (new_outs (y_src s) e)\<rparr>)
      else None)"
| "pipe_do cb (C_Deliver v) s =
     (case y_queue s of (x, r) # q \<Rightarrow>
        if trusted v x \<and> agrees v r x (x_pb (y_pb s)) then
          case pb_step (sent v x) (y_pb s) of P_Next p \<Rightarrow> Some (s\<lparr>y_queue := q, y_pb := p\<rparr>) | _ \<Rightarrow> None
        else None
      | [] \<Rightarrow> None)"
| "pipe_do cb C_Finish s =
     (case y_pc s of JP_Finish res \<Rightarrow>
        if y_queue s = [] \<and> x_up (y_pb s) = U_Idle then Some (s\<lparr>y_src := loop_finish res (y_src s), y_pc := JP_Top\<rparr>) else None
      | _ \<Rightarrow> None)"
| "pipe_do cb (C_Own a) s = (if own_step a then case pb_step a (y_pb s) of P_Next p \<Rightarrow> Some (s\<lparr>y_pb := p\<rparr>) | _ \<Rightarrow> None else None)"

lemma pipe_do_step: "pipe_do cb a s = Some s' \<Longrightarrow> pipe_step cb s s'"
  by (cases a) (auto split: if_splits list.splits prod.splits poutcome.splits jpc.splits intro: pipe_step.intros)

fun pipe_run :: "'j callbacks \<Rightarrow> cact list \<Rightarrow> 'j csys \<Rightarrow> 'j csys option" where
  "pipe_run cb [] s = Some s"
| "pipe_run cb (a # as) s = (case pipe_do cb a s of None \<Rightarrow> None | Some s' \<Rightarrow> pipe_run cb as s')"

lemma pipe_run_reach: "pipe_run cb as s = Some s' \<Longrightarrow> pipe_reach cb e j s \<Longrightarrow> pipe_reach cb e j s'"
proof (induction as arbitrary: s)
  case (Cons a as)
  then obtain s1 where "pipe_do cb a s = Some s1" "pipe_run cb as s1 = Some s'" by (auto split: option.splits)
  with Cons.IH Cons.prems(2) show ?case using pipe_do_step pipe_reach.step by metis
qed simp

definition sample_turns :: "cact list" where
  "sample_turns =
     (let v = \<lparr>v_over = True, v_second = False, v_mapped = True, v_written = 10, v_fresh = Some new_cache\<rparr>;
          t = [C_Turn, C_Body all_willing, C_Deliver v]
      in t @ [C_Finish] @ t @ [C_Finish] @ t @ [C_Own (B_Create True), C_Finish]
         @ [C_Own (B_Task True 2 True), C_Own B_TaskEvent, C_Own (B_Task True 2 True), C_Own (B_TaskBuffer FLOW_OK)])"

theorem file_reaches_decoder_witness:
  "\<exists>s. pipe_reach file_callbacks (java_source_init\<lparr>s_size := 3\<rparr>) sample_file s \<and> PO_Buffer [7, 8] 0 \<in> set (p_out (x_pb (y_pb s)))
    \<and> [7, 8] = channel_bytes 0 2 [7, 8, 9]"
proof -
  let ?e = "java_source_init\<lparr>s_size := 3\<rparr>"
  have "case pipe_run file_callbacks sample_turns (pipe_start ?e sample_file) of None \<Rightarrow> False | Some s \<Rightarrow> PO_Buffer [7, 8] 0 \<in> set (p_out (x_pb (y_pb s)))"
    by code_simp
  then obtain s where s: "pipe_run file_callbacks sample_turns (pipe_start ?e sample_file) = Some s" "PO_Buffer [7, 8] 0 \<in> set (p_out (x_pb (y_pb s)))"
    by (auto split: option.splits)
  have r: "pipe_reach file_callbacks ?e sample_file s" by (rule pipe_run_reach [OF s(1) pipe_reach.start])
  have "s_mode ?e = MODE_DEFAULT" "s_size ?e = int (length [7, 8, 9 :: int])" "int (length [7, 8, 9 :: int]) \<le> 2 ^ 62" by (simp_all add: java_source_init_def)
  from file_reaches_decoder [OF r sample_file_ok this(3,1,2) s(2)] have "[7, 8] = channel_bytes 0 2 [7, 8, 9]" by (elim conjE) simp
  then show ?thesis using r s(2) by blast
qed

end
