(* ===== verification/DecoraBox.thy ===== *)
theory DecoraBox
  imports PiscesPixel
begin

unbundle bit_operations_syntax

text \<open>
  The box filters of the effects library Decora, \<open>native-decora/SSEBoxBlurPeer.cc\<close> and \<open>SSEBoxShadowPeer.cc\<close>. A filter makes an image
  that is wider (or higher) than its source by the size of the box less one; a pixel of the result is the mean of the source pixels under
  the box, found by adding the pixel that enters the box and subtracting the one that leaves it. A blur filters the four channels; a
  shadow filters alpha, with a threshold and a gain, and gives it a colour.

  The images of source and destination are different arrays, as the callers in \<open>com.sun.scenario.effect.impl.sw.sse\<close> have them;
  \<open>pinned\<close> is whether the Java virtual machine hands out the two arrays.
\<close>

section \<open>Model\<close>

record chan_sums =
  sum_a :: jint
  sum_r :: jint
  sum_g :: jint
  sum_b :: jint

definition no_sums :: chan_sums where
  "no_sums = \<lparr>sum_a = 0, sum_r = 0, sum_g = 0, sum_b = 0\<rparr>"

definition unaccumulate :: "jint \<Rightarrow> chan_sums \<Rightarrow> chan_sums" where
  "unaccumulate rgb s =
     \<lparr>sum_a = i32 (sum_a s - px_A rgb), sum_r = i32 (sum_r s - px_R rgb), sum_g = i32 (sum_g s - px_G rgb), sum_b = i32 (sum_b s - px_B rgb)\<rparr>"

definition accumulate :: "jint \<Rightarrow> chan_sums \<Rightarrow> chan_sums" where
  "accumulate rgb s =
     \<lparr>sum_a = i32 (sum_a s + px_A rgb), sum_r = i32 (sum_r s + px_R rgb), sum_g = i32 (sum_g s + px_G rgb), sum_b = i32 (sum_b s + px_B rgb)\<rparr>"

definition box_color :: "jint \<Rightarrow> chan_sums \<Rightarrow> jint" where
  "box_color kscale s =
     i32 (push_bit 24 (drop_bit 23 (i32 (sum_a s * kscale))) + push_bit 16 (drop_bit 23 (i32 (sum_r s * kscale)))
       + push_bit 8 (drop_bit 23 (i32 (sum_g s * kscale))) + drop_bit 23 (i32 (sum_b s * kscale)))"

definition unaccumulate_a :: "jint \<Rightarrow> jint \<Rightarrow> jint" where
  "unaccumulate_a rgb suma = i32 (suma - px_A rgb)"

definition accumulate_a :: "jint \<Rightarrow> jint \<Rightarrow> jint" where
  "accumulate_a rgb suma = i32 (suma + px_A rgb)"

text \<open>The division that gives a scale faults when the divisor is 0.\<close>

definition kscale_of :: "jint \<Rightarrow> jint option" where
  "kscale_of amax = (if amax = 0 then None else Some (cdiv 0x7fffffff amax))"

subsection \<open>Loops\<close>

text \<open>
  The loops of the filters, for the two kinds of sums: \<open>un\<close> and \<open>acc\<close> take a pixel out of the sums and put one in, \<open>emit\<close> is the
  colour of a sum. A row is filtered from the left to the right, a column from the top to the bottom.
\<close>

definition box_row_step ::
    "(jint \<Rightarrow> 's \<Rightarrow> 's) \<Rightarrow> (jint \<Rightarrow> 's \<Rightarrow> 's) \<Rightarrow> ('s \<Rightarrow> jint) \<Rightarrow> jint \<Rightarrow> jint list \<Rightarrow> jint \<Rightarrow> jint \<Rightarrow> jint
      \<Rightarrow> jint \<times> 's \<times> jint list \<Rightarrow> (jint \<times> 's \<times> jint list) option" where
  "box_row_step un acc emit hsize srcPixels srcw srcoff dstoff = (\<lambda>(x, s, dstPixels).
     do { rgb \<leftarrow> (if hsize \<le> x then aget srcPixels (i32 (srcoff + x - hsize)) else Some 0);
          let s = un rgb s;
          rgb \<leftarrow> (if x < srcw then aget srcPixels (i32 (srcoff + x)) else Some 0);
          let s = acc rgb s;
          dstPixels \<leftarrow> aset dstPixels (i32 (dstoff + x)) (emit s);
          Some (x + 1, s, dstPixels) })"

definition box_rows ::
    "'s \<Rightarrow> (jint \<Rightarrow> 's \<Rightarrow> 's) \<Rightarrow> (jint \<Rightarrow> 's \<Rightarrow> 's) \<Rightarrow> ('s \<Rightarrow> jint) \<Rightarrow> jint \<Rightarrow> jint list \<Rightarrow> jint \<Rightarrow> jint \<Rightarrow> jint
      \<Rightarrow> jint list \<Rightarrow> jint \<Rightarrow> jint \<Rightarrow> jint list option" where
  "box_rows zero un acc emit hsize dstPixels dstw dsth dstscan srcPixels srcw srcscan =
     do { (_, _, dstPixels) \<leftarrow> iter_opt (nat dsth) (\<lambda>(srcoff, dstoff, dstPixels).
            do { (_, _, dstPixels) \<leftarrow> iter_opt (nat dstw) (box_row_step un acc emit hsize srcPixels srcw srcoff dstoff) (0, zero, dstPixels);
                 Some (i32 (srcoff + srcscan), i32 (dstoff + dstscan), dstPixels) }) (0, 0, dstPixels);
          Some dstPixels }"

definition box_col_step ::
    "(jint \<Rightarrow> 's \<Rightarrow> 's) \<Rightarrow> (jint \<Rightarrow> 's \<Rightarrow> 's) \<Rightarrow> ('s \<Rightarrow> jint) \<Rightarrow> jint \<Rightarrow> jint \<Rightarrow> jint list \<Rightarrow> jint \<Rightarrow> jint
      \<Rightarrow> jint \<times> jint \<times> jint \<times> 's \<times> jint list \<Rightarrow> (jint \<times> jint \<times> jint \<times> 's \<times> jint list) option" where
  "box_col_step un acc emit voff dstscan srcPixels srch srcscan = (\<lambda>(y, srcoff, dstoff, s, dstPixels).
     do { rgb \<leftarrow> (if voff \<le> srcoff then aget srcPixels (i32 (srcoff - voff)) else Some 0);
          let s = un rgb s;
          rgb \<leftarrow> (if y < srch then aget srcPixels srcoff else Some 0);
          let s = acc rgb s;
          dstPixels \<leftarrow> aset dstPixels dstoff (emit s);
          Some (y + 1, i32 (srcoff + srcscan), i32 (dstoff + dstscan), s, dstPixels) })"

definition box_cols ::
    "'s \<Rightarrow> (jint \<Rightarrow> 's \<Rightarrow> 's) \<Rightarrow> (jint \<Rightarrow> 's \<Rightarrow> 's) \<Rightarrow> ('s \<Rightarrow> jint) \<Rightarrow> jint \<Rightarrow> jint list \<Rightarrow> jint \<Rightarrow> jint \<Rightarrow> jint
      \<Rightarrow> jint list \<Rightarrow> jint \<Rightarrow> jint \<Rightarrow> jint list option" where
  "box_cols zero un acc emit vsize dstPixels dstw dsth dstscan srcPixels srch srcscan =
     (let voff = i32 (vsize * srcscan)
      in do { (_, dstPixels) \<leftarrow> iter_opt (nat dstw) (\<lambda>(x, dstPixels).
                do { (_, _, _, _, dstPixels) \<leftarrow> iter_opt (nat dsth) (box_col_step un acc emit voff dstscan srcPixels srch srcscan) (0, x, x, zero, dstPixels);
                     Some (x + 1, dstPixels) }) (0, dstPixels);
              Some dstPixels })"

subsection \<open>Blur\<close>

definition blur_filterHorizontal ::
    "bool \<Rightarrow> jint list \<Rightarrow> jint \<Rightarrow> jint \<Rightarrow> jint \<Rightarrow> jint list \<Rightarrow> jint \<Rightarrow> jint \<Rightarrow> jint \<Rightarrow> jint list option" where
  "blur_filterHorizontal pinned dstPixels dstw dsth dstscan srcPixels srcw srch srcscan =
     (if \<not> pinned then Some dstPixels
      else let hsize = i32 (dstw - srcw + 1)
           in do { kscale \<leftarrow> kscale_of (i32 (hsize * 255));
                   box_rows no_sums unaccumulate accumulate (box_color kscale) hsize dstPixels dstw dsth dstscan srcPixels srcw srcscan })"

definition blur_filterVertical ::
    "bool \<Rightarrow> jint list \<Rightarrow> jint \<Rightarrow> jint \<Rightarrow> jint \<Rightarrow> jint list \<Rightarrow> jint \<Rightarrow> jint \<Rightarrow> jint \<Rightarrow> jint list option" where
  "blur_filterVertical pinned dstPixels dstw dsth dstscan srcPixels srcw srch srcscan =
     (if \<not> pinned then Some dstPixels
      else let vsize = i32 (dsth - srch + 1)
           in do { kscale \<leftarrow> kscale_of (i32 (vsize * 255));
                   box_cols no_sums unaccumulate accumulate (box_color kscale) vsize dstPixels dstw dsth dstscan srcPixels srch srcscan })"

subsection \<open>Shadow\<close>

text \<open>
  The two products with a \<open>float\<close>, \<open>(jint) (i * spread)\<close> and \<open>(jint) (i * shadowColor[k])\<close>, are arguments: \<open>spread\<close> and \<open>tone k\<close>.
\<close>

definition amax_of :: "(jint \<Rightarrow> jint) \<Rightarrow> jint \<Rightarrow> jint" where
  "amax_of spread len = (let amax = i32 (len * 255) in i32 (amax + spread (i32 (255 - amax))))"

definition black_color :: "jint \<Rightarrow> jint \<Rightarrow> jint \<Rightarrow> jint \<Rightarrow> jint" where
  "black_color amin amax kscale suma =
     (if suma < amin then 0 else if amax \<le> suma then i32 0xff000000 else i32 (push_bit 24 (drop_bit 23 (i32 (suma * kscale)))))"

definition filterHorizontalBlack ::
    "bool \<Rightarrow> (jint \<Rightarrow> jint) \<Rightarrow> jint list \<Rightarrow> jint \<Rightarrow> jint \<Rightarrow> jint \<Rightarrow> jint list \<Rightarrow> jint \<Rightarrow> jint \<Rightarrow> jint \<Rightarrow> jint list option" where
  "filterHorizontalBlack pinned spread dstPixels dstw dsth dstscan srcPixels srcw srch srcscan =
     (if \<not> pinned then Some dstPixels
      else let hsize = i32 (dstw - srcw + 1); amax = amax_of spread hsize
           in do { kscale \<leftarrow> kscale_of amax;
                   let amin = cdiv amax 255;
                   box_rows 0 unaccumulate_a accumulate_a (black_color amin amax kscale) hsize dstPixels dstw dsth dstscan srcPixels srcw srcscan })"

definition filterVerticalBlack ::
    "bool \<Rightarrow> (jint \<Rightarrow> jint) \<Rightarrow> jint list \<Rightarrow> jint \<Rightarrow> jint \<Rightarrow> jint \<Rightarrow> jint list \<Rightarrow> jint \<Rightarrow> jint \<Rightarrow> jint \<Rightarrow> jint list option" where
  "filterVerticalBlack pinned spread dstPixels dstw dsth dstscan srcPixels srcw srch srcscan =
     (if \<not> pinned then Some dstPixels
      else let vsize = i32 (dsth - srch + 1); amax = amax_of spread vsize
           in do { kscale \<leftarrow> kscale_of amax;
                   let amin = cdiv amax 255;
                   box_cols 0 unaccumulate_a accumulate_a (black_color amin amax kscale) vsize dstPixels dstw dsth dstscan srcPixels srch srcscan })"

text \<open>\<open>shadowColor\<close> is red, green, blue, alpha.\<close>

definition shadow_color :: "(nat \<Rightarrow> jint \<Rightarrow> jint) \<Rightarrow> jint \<Rightarrow> jint \<Rightarrow> jint \<Rightarrow> jint \<Rightarrow> jint" where
  "shadow_color tone amin amax kscale suma =
     (let kscaler = tone 0 kscale; kscaleg = tone 1 kscale; kscaleb = tone 2 kscale; kscalea = tone 3 kscale;
          shadowRGB = i32 (push_bit 16 (tone 0 255) OR push_bit 8 (tone 1 255) OR tone 2 255 OR push_bit 24 (tone 3 255))
      in if suma < amin then 0 else if amax \<le> suma then shadowRGB
         else i32 (push_bit 24 (drop_bit 23 (i32 (suma * kscalea))) OR push_bit 16 (drop_bit 23 (i32 (suma * kscaler)))
                OR push_bit 8 (drop_bit 23 (i32 (suma * kscaleg))) OR drop_bit 23 (i32 (suma * kscaleb))))"

definition shadow_filterVertical ::
    "bool \<Rightarrow> (jint \<Rightarrow> jint) \<Rightarrow> (nat \<Rightarrow> jint \<Rightarrow> jint) \<Rightarrow> jint list \<Rightarrow> jint \<Rightarrow> jint \<Rightarrow> jint \<Rightarrow> jint list \<Rightarrow> jint \<Rightarrow> jint \<Rightarrow> jint
      \<Rightarrow> jint list option" where
  "shadow_filterVertical pinned spread tone dstPixels dstw dsth dstscan srcPixels srcw srch srcscan =
     (if \<not> pinned then Some dstPixels
      else let vsize = i32 (dsth - srch + 1); amax = amax_of spread vsize
           in do { kscale \<leftarrow> kscale_of amax;
                   let amin = cdiv amax 255;
                   box_cols 0 unaccumulate_a accumulate_a (shadow_color tone amin amax kscale) vsize dstPixels dstw dsth dstscan srcPixels srch srcscan })"

section \<open>Windows\<close>

text \<open>
  \<open>under_box c f h n k\<close>: the sum of the channel \<open>c\<close> over the pixels of the line \<open>f\<close> of length \<open>n\<close> under a box of \<open>h\<close> pixels that ends before
  position \<open>k\<close>.
\<close>

definition under_box :: "(jint \<Rightarrow> jint) \<Rightarrow> (nat \<Rightarrow> jint) \<Rightarrow> nat \<Rightarrow> nat \<Rightarrow> nat \<Rightarrow> jint" where
  "under_box c f h n k = (\<Sum>i \<in> {i. k \<le> i + h \<and> i < k \<and> i < n}. c (f i))"

lemma under_box_0 [simp]: "under_box c f h n 0 = 0"
  by (simp add: under_box_def)

lemma finite_box [simp]: "finite {i. k \<le> i + h \<and> i < k \<and> i < (n::nat)}"
  by (rule finite_subset [of _ "{..<k}"]) auto

lemma under_box_Suc:
  assumes "0 < h" "h \<le> k \<Longrightarrow> k - h < n"
  shows "under_box c f h n (Suc k) = under_box c f h n k - (if h \<le> k then c (f (k - h)) else 0) + (if k < n then c (f k) else 0)"
proof -
  let ?m = "{i. Suc k \<le> i + h \<and> i < k \<and> i < n}"
  have fin: "finite ?m" by (rule finite_subset [of _ "{..<k}"]) auto
  have "under_box c f h n (Suc k) = sum (\<lambda>i. c (f i)) ?m + (if k < n then c (f k) else 0)"
  proof -
    have "{i. Suc k \<le> i + h \<and> i < Suc k \<and> i < n} = (if k < n then insert k ?m else ?m)" using assms(1) by (auto simp: less_Suc_eq)
    then show ?thesis using fin by (simp add: under_box_def)
  qed
  moreover have "under_box c f h n k = sum (\<lambda>i. c (f i)) ?m + (if h \<le> k then c (f (k - h)) else 0)"
  proof (cases "h \<le> k")
    case True
    then have "{i. k \<le> i + h \<and> i < k \<and> i < n} = insert (k - h) ?m" using assms by auto
    moreover have "k - h \<notin> ?m" using True by auto
    ultimately show ?thesis using fin True by (simp add: under_box_def)
  next
    case False
    then have "{i. k \<le> i + h \<and> i < k \<and> i < n} = ?m" by auto
    with False show ?thesis by (simp add: under_box_def)
  qed
  ultimately show ?thesis by simp
qed

lemma under_box_bounds:
  assumes "\<And>p. is_chan (c p)"
  shows "0 \<le> under_box c f h n k" "under_box c f h n k \<le> 255 * int h"
proof -
  show "0 \<le> under_box c f h n k" unfolding under_box_def using assms by (intro sum_nonneg) (simp add: is_chan_def)
  have "card {i. k \<le> i + h \<and> i < k \<and> i < n} \<le> card {k - h..<k}" by (rule card_mono) auto
  then have h: "card {i. k \<le> i + h \<and> i < k \<and> i < n} \<le> h" by simp
  have "under_box c f h n k \<le> of_nat (card {i. k \<le> i + h \<and> i < k \<and> i < n}) * 255"
    unfolding under_box_def using assms by (intro sum_bounded_above) (simp add: is_chan_def)
  with h show "under_box c f h n k \<le> 255 * int h" by linarith
qed

text \<open>A colour channel that stays below alpha in the pixels stays below alpha in the sums.\<close>

lemma under_box_mono: "(\<And>i. i < n \<Longrightarrow> c (f i) \<le> e (f i)) \<Longrightarrow> under_box c f h n k \<le> under_box e f h n k"
  unfolding under_box_def by (rule sum_mono) simp

lemma under_box_const:
  assumes "h \<le> k" "k \<le> n" "\<And>i. k \<le> i + h \<Longrightarrow> i < k \<Longrightarrow> c (f i) = v"
  shows "under_box c f h n k = v * int h"
proof -
  have "{i. k \<le> i + h \<and> i < k \<and> i < n} = {k - h..<k}" using assms by auto
  moreover have "(\<Sum>i \<in> {k - h..<k}. c (f i)) = (\<Sum>i \<in> {k - h..<k}. v)" using assms by (intro sum.cong) auto
  ultimately show ?thesis using assms(1) by (simp add: under_box_def mult.commute)
qed

section \<open>Sliding sums\<close>

text \<open>
  What the loops rely on of the sums: \<open>sums f h n k\<close> is what has been accumulated of the line \<open>f\<close> of \<open>n\<close> pixels when the box of \<open>h\<close>
  pixels ends before position \<open>k\<close>, and one step of un-accumulation and accumulation moves the box.
\<close>

definition image_ok :: "jint list \<Rightarrow> nat \<Rightarrow> nat \<Rightarrow> nat \<Rightarrow> bool" where
  "image_ok p scan w h \<longleftrightarrow> w \<le> scan \<and> length p < 2147483648 \<and> (\<forall>y < h. \<forall>x < w. y * scan + x < length p)"

definition image_of :: "jint list \<Rightarrow> nat \<Rightarrow> nat \<Rightarrow> nat \<Rightarrow> (nat \<Rightarrow> nat \<Rightarrow> jint) \<Rightarrow> jint list \<Rightarrow> bool" where
  "image_of d scan w h px d' \<longleftrightarrow> length d' = length d \<and> (\<forall>y < h. \<forall>x < w. d' ! (y * scan + x) = px y x)
     \<and> (\<forall>p < length d. (\<forall>y < h. \<forall>x < w. p \<noteq> y * scan + x) \<longrightarrow> d' ! p = d ! p)"

definition cells :: "nat \<Rightarrow> nat \<Rightarrow> nat \<Rightarrow> nat set" where
  "cells scan w h = {p. \<exists>y < h. \<exists>x < w. p = y * scan + x}"

definition cell_of :: "nat \<Rightarrow> (nat \<Rightarrow> nat \<Rightarrow> jint) \<Rightarrow> nat \<Rightarrow> jint" where
  "cell_of scan px p = px (p div scan) (p mod scan)"

lemma cell_of_at: "x < scan \<Longrightarrow> cell_of scan px (y * scan + x) = px y x"
  by (simp add: cell_of_def)

lemma filled_image:
  assumes "image_ok d scan w h"
  shows "image_of d scan w h px (filled d (cells scan w h) (cell_of scan px))"
proof -
  have "filled d (cells scan w h) (cell_of scan px) ! (y * scan + x) = px y x" if "y < h" "x < w" for y x
  proof -
    have "y * scan + x < length d" "x < scan" using assms that by (auto simp: image_ok_def)
    moreover have "y * scan + x \<in> cells scan w h" using that by (auto simp: cells_def)
    ultimately show ?thesis by (simp add: filled_nth cell_of_at)
  qed
  then show ?thesis by (auto simp: image_of_def filled_nth cells_def)
qed

lemma i32_int: "n < 2147483648 \<Longrightarrow> i32 (int n) = int n"
  by (simp add: i32_small)

lemma i32_next: "i32 (i32 (int (y * s)) + int s) = i32 (int (Suc y * s))" "i32 (i32 (int (y * s + x)) + int s) = i32 (int (Suc y * s + x))"
  unfolding i32_add_wrap by (simp_all add: algebra_simps)

lemma cells_Suc: "cells s w (Suc y) = (\<lambda>x. y * s + x) ` {..<w} \<union> cells s w y"
  by (auto simp: cells_def less_Suc_eq)

locale sliding_sum =
  fixes zero :: 's and un acc :: "jint \<Rightarrow> 's \<Rightarrow> 's" and sums :: "(nat \<Rightarrow> jint) \<Rightarrow> nat \<Rightarrow> nat \<Rightarrow> nat \<Rightarrow> 's"
  assumes sums_0: "sums f h n 0 = zero"
    and sums_Suc: "0 < h \<Longrightarrow> 255 * h < 2147483648 \<Longrightarrow> (h \<le> k \<Longrightarrow> k - h < n) \<Longrightarrow>
      acc (if k < n then f k else 0) (un (if h \<le> k then f (k - h) else 0) (sums f h n k)) = sums f h n (Suc k)"
begin

lemma row_step:
  assumes src: "image_ok src ss sw H" and dst: "image_ok d ds (sw + h - 1) H" and h: "0 < h" "255 * h < 2147483648" and k: "k < sw + h - 1" "y < H"
    and f: "f = (\<lambda>i. src ! (y * ss + i))" and g: "\<And>x. g y x = emit (sums f h sw (Suc x))"
  shows "box_row_step un acc emit (int h) src (int sw) (i32 (int (y * ss))) (i32 (int (y * ds))) (int k, sums f h sw k, filled d W (cell_of ds g))
    = Some (int (Suc k), sums f h sw (Suc k), filled d (insert (y * ds + k) W) (cell_of ds g))"
proof -
  have rd: "aget src (i32 (i32 (int (y * ss)) + int i)) = Some (f i)" if "i < sw" for i
  proof -
    have "y * ss + i < length src" "length src < 2147483648" using src k(2) that by (auto simp: image_ok_def)
    then show ?thesis unfolding i32_add_wrap f by (simp add: aget_def i32_small flip: of_nat_add of_nat_mult)
  qed
  have "aget src (i32 (i32 (int (y * ss)) + int k - int h)) = Some (f (k - h))" if "h \<le> k"
    using rd [of "k - h"] that k(1) by (simp add: of_nat_diff algebra_simps)
  moreover have "y * ds + k < length d" "k < ds" "length d < 2147483648" using dst k by (auto simp: image_ok_def)
  then have "aset (filled d W (cell_of ds g)) (i32 (i32 (int (y * ds)) + int k)) (emit (sums f h sw (Suc k))) = Some (filled d (insert (y * ds + k) W) (cell_of ds g))"
    unfolding i32_add_wrap by (intro aset_filled) (simp_all add: i32_small cell_of_at g flip: of_nat_add of_nat_mult)
  ultimately show ?thesis
    using sums_Suc [OF h, of k sw f] rd [of k] k(1) unfolding box_row_step_def by (simp add: if_distrib [of "\<lambda>x. Some x"] cong: if_cong) auto
qed

lemma rows_image:
  assumes src: "image_ok src ss sw H" and dst: "image_ok d ds (sw + h - 1) H" and h: "0 < h" "255 * h < 2147483648"
  shows "\<exists>d'. box_rows zero un acc emit (int h) d (int (sw + h - 1)) (int H) (int ds) src (int sw) (int ss) = Some d'
    \<and> image_of d ds (sw + h - 1) H (\<lambda>y x. emit (sums (\<lambda>i. src ! (y * ss + i)) h sw (Suc x))) d'"
proof -
  let ?w = "sw + h - 1" and ?g = "\<lambda>y x. emit (sums (\<lambda>i. src ! (y * ss + i)) h sw (Suc x))"
  let ?c = "cell_of ds ?g"
  have row: "\<exists>st. iter_opt ?w (box_row_step un acc emit (int h) src (int sw) (i32 (int (y * ss))) (i32 (int (y * ds)))) (0, zero, filled d W ?c) = Some st
      \<and> st = (int ?w, sums (\<lambda>i. src ! (y * ss + i)) h sw ?w, filled d ((\<lambda>x. y * ds + x) ` {..<?w} \<union> W) ?c)" if y: "y < H" for y W
    by (rule iter_opt_counter_inv [where I = "\<lambda>k st. st = (int k, sums (\<lambda>i. src ! (y * ss + i)) h sw k, filled d ((\<lambda>x. y * ds + x) ` {..<k} \<union> W) ?c)"])
      (use row_step [OF src dst h _ y refl, where g = ?g] in \<open>auto simp: sums_0 lessThan_Suc\<close>)
  let ?body = "\<lambda>(srcoff, dstoff, dstPixels). do { (_, _, dstPixels) \<leftarrow> iter_opt ?w (box_row_step un acc emit (int h) src (int sw) srcoff dstoff) (0, zero, dstPixels);
    Some (i32 (srcoff + int ss), i32 (dstoff + int ds), dstPixels) }"
  have "\<exists>st. iter_opt H ?body (0, 0, d) = Some st \<and> st = (i32 (int (H * ss)), i32 (int (H * ds)), filled d (cells ds ?w H) ?c)"
  proof (rule iter_opt_counter_inv [where I = "\<lambda>y st. st = (i32 (int (y * ss)), i32 (int (y * ds)), filled d (cells ds ?w y) ?c)"])
    fix y st assume y: "y < H" and st: "st = (i32 (int (y * ss)), i32 (int (y * ds)), filled d (cells ds ?w y) ?c)"
    show "\<exists>st'. ?body st = Some st' \<and> st' = (i32 (int (Suc y * ss)), i32 (int (Suc y * ds)), filled d (cells ds ?w (Suc y)) ?c)"
      using row [OF y, of "cells ds ?w y"] unfolding st cells_Suc prod.case by (elim exE conjE) (simp only: Option.bind.bind_lunit prod.case i32_next, simp)
  qed (auto simp: cells_def i32_small)
  then show ?thesis using filled_image [OF dst, of ?g] unfolding box_rows_def nat_int by auto
qed

lemma col_step:
  assumes src: "image_ok src ss W sh" and dst: "image_ok d ds W (sh + h - 1)" and h: "0 < h" "255 * h < 2147483648" "(sh + h) * ss < 2147483648"
    and k: "k < sh + h - 1" "x < W" and f: "f = (\<lambda>i. src ! (i * ss + x))" and g: "\<And>y. g y x = emit (sums f h sh (Suc y))"
  shows "box_col_step un acc emit (int (h * ss)) (int ds) src (int sh) (int ss)
      (int k, int (k * ss + x), i32 (int (k * ds + x)), sums f h sh k, filled d V (cell_of ds g))
    = Some (int (Suc k), int (Suc k * ss + x), i32 (int (Suc k * ds + x)), sums f h sh (Suc k), filled d (insert (k * ds + x) V) (cell_of ds g))"
proof -
  have xs: "x < ss" "x < ds" using src dst k(2) by (auto simp: image_ok_def)
  have rd: "aget src (int (i * ss + x)) = Some (f i)" if "i < sh" for i
    using src that k(2) by (simp add: aget_def f image_ok_def flip: of_nat_add of_nat_mult)
  have gone: "h * ss \<le> k * ss + x \<longleftrightarrow> h \<le> k"
  proof
    assume "h * ss \<le> k * ss + x"
    with xs(1) have "h * ss < Suc k * ss" by simp
    then show "h \<le> k" by (simp only: mult_less_cancel2 less_Suc_eq_le)
  next
    assume "h \<le> k"
    then have "h * ss \<le> k * ss" by (rule mult_le_mono1)
    then show "h * ss \<le> k * ss + x" by linarith
  qed
  have b: "Suc k * ss + x < 2147483648"
  proof -
    have "Suc (Suc k) * ss \<le> (sh + h) * ss" using k(1) by (intro mult_le_mono1) simp
    with xs(1) h(3) show ?thesis by simp
  qed
  have "int (k * ss + x) + int ss = int (Suc k * ss + x)" by simp
  then have i1: "i32 (int (k * ss + x) + int ss) = int (Suc k * ss + x)" using i32_int [OF b] by (simp only:)
  have i2: "i32 (int (k * ss + x) - int (h * ss)) = int ((k - h) * ss + x)" if "h \<le> k"
  proof -
    have "(k - h) * ss + h * ss = k * ss" using that by (simp flip: distrib_right)
    then have "int ((k - h) * ss + x) + int (h * ss) = int (k * ss + x)" by (simp only: flip: of_nat_add)
    then have "int (k * ss + x) - int (h * ss) = int ((k - h) * ss + x)" by linarith
    moreover have "(k - h) * ss + x \<le> Suc k * ss + x" by (intro add_mono mult_le_mono1) simp_all
    ultimately show ?thesis using i32_int [of "(k - h) * ss + x"] b by (simp only:)
  qed
  have "k * ds + x < length d" "length d < 2147483648" using dst k by (auto simp: image_ok_def)
  then have w: "aset (filled d V (cell_of ds g)) (i32 (int (k * ds + x))) (emit (sums f h sh (Suc k))) = Some (filled d (insert (k * ds + x) V) (cell_of ds g))"
    using xs(2) by (intro aset_filled) (simp_all add: i32_small cell_of_at g flip: of_nat_add of_nat_mult)
  have r1: "(if int (h * ss) \<le> int (k * ss + x) then aget src (i32 (int (k * ss + x) - int (h * ss))) else Some 0) = Some (if h \<le> k then f (k - h) else 0)"
  proof (cases "h \<le> k")
    case True
    then have "int (h * ss) \<le> int (k * ss + x)" "k - h < sh" using gone k(1) by (simp_all only: of_nat_le_iff)
    with True show ?thesis using rd [of "k - h"] i2 by (simp only: if_True)
  qed (use gone in \<open>simp only: of_nat_le_iff if_False\<close>)
  have r2: "(if int k < int sh then aget src (int (k * ss + x)) else Some 0) = Some (if k < sh then f k else 0)"
    using rd [of k] by (cases "k < sh") (simp_all only: of_nat_less_iff if_True if_False)
  have "h \<le> k \<Longrightarrow> k - h < sh" using k(1) by linarith
  from sums_Suc [OF h(1,2) this] show ?thesis
    by (simp only: box_col_step_def prod.case r1 r2 Option.bind.bind_lunit Let_def w i1 i32_next) simp
qed

lemma cols_image:
  assumes src: "image_ok src ss W sh" and dst: "image_ok d ds W (sh + h - 1)" and h: "0 < h" "255 * h < 2147483648" "(sh + h) * ss < 2147483648"
  shows "\<exists>d'. box_cols zero un acc emit (int h) d (int W) (int (sh + h - 1)) (int ds) src (int sh) (int ss) = Some d'
    \<and> image_of d ds W (sh + h - 1) (\<lambda>y x. emit (sums (\<lambda>i. src ! (i * ss + x)) h sh (Suc y))) d'"
proof -
  let ?n = "sh + h - 1" and ?g = "\<lambda>y x. emit (sums (\<lambda>i. src ! (i * ss + x)) h sh (Suc y))"
  let ?c = "cell_of ds ?g"
  have "h * ss \<le> (sh + h) * ss" by (rule mult_le_mono1) simp
  with h(3) have "h * ss < 2147483648" by (rule order.strict_trans1 [rotated])
  then have voff: "i32 (int h * int ss) = int (h * ss)" using i32_int [of "h * ss"] by simp
  have col: "\<exists>st. iter_opt ?n (box_col_step un acc emit (int (h * ss)) (int ds) src (int sh) (int ss)) (0, int x, int x, zero, filled d V ?c) = Some st
      \<and> st = (int ?n, int (?n * ss + x), i32 (int (?n * ds + x)), sums (\<lambda>i. src ! (i * ss + x)) h sh ?n, filled d ((\<lambda>y. y * ds + x) ` {..<?n} \<union> V) ?c)"
    if x: "x < W" "x < 2147483648" for x V
    by (rule iter_opt_counter_inv [where I = "\<lambda>k st. st = (int k, int (k * ss + x), i32 (int (k * ds + x)), sums (\<lambda>i. src ! (i * ss + x)) h sh k,
          filled d ((\<lambda>y. y * ds + x) ` {..<k} \<union> V) ?c)"])
      (use col_step [OF src dst h _ x(1) refl, where g = ?g] x(2) in \<open>auto simp: sums_0 lessThan_Suc i32_int\<close>)
  let ?body = "\<lambda>(x, dstPixels). do { (_, _, _, _, dstPixels) \<leftarrow> iter_opt ?n (box_col_step un acc emit (int (h * ss)) (int ds) src (int sh) (int ss)) (0, x, x, zero, dstPixels);
    Some (x + 1, dstPixels) }"
  let ?V = "\<lambda>x. {p. \<exists>y < ?n. \<exists>z < x. p = y * ds + z}"
  have V: "?V (Suc x) = (\<lambda>y. y * ds + x) ` {..<?n} \<union> ?V x" for x by (auto simp: less_Suc_eq)
  have "\<exists>st. iter_opt W ?body (0, d) = Some st \<and> st = (int W, filled d (?V W) ?c)"
  proof (rule iter_opt_counter_inv [where I = "\<lambda>x st. st = (int x, filled d (?V x) ?c)"])
    fix x st assume x: "x < W" and st: "st = (int x, filled d (?V x) ?c)"
    have "x < ss" using x src by (auto simp: image_ok_def)
    moreover have "1 * ss \<le> (sh + h) * ss" using h(1) by (intro mult_le_mono1) simp
    ultimately have "x < 2147483648" using h(3) by linarith
    from col [OF x this, of "?V x"] show "\<exists>st'. ?body st = Some st' \<and> st' = (int (Suc x), filled d (?V (Suc x)) ?c)"
      unfolding st V prod.case by (elim exE conjE) (simp only: Option.bind.bind_lunit prod.case, simp)
  qed auto
  moreover have "?V W = cells ds W ?n" by (simp add: cells_def)
  ultimately show ?thesis using filled_image [OF dst, of ?g] unfolding box_cols_def nat_int Let_def voff by auto
qed

end

text \<open>The two kinds of sums of the filters.\<close>

definition box_sums :: "(nat \<Rightarrow> jint) \<Rightarrow> nat \<Rightarrow> nat \<Rightarrow> nat \<Rightarrow> chan_sums" where
  "box_sums f h n k = \<lparr>sum_a = under_box px_A f h n k, sum_r = under_box px_R f h n k, sum_g = under_box px_G f h n k, sum_b = under_box px_B f h n k\<rparr>"

lemma px_0 [simp]: "px_A 0 = 0" "px_R 0 = 0" "px_G 0 = 0" "px_B 0 = 0"
  by (simp_all add: px_A_def px_R_def px_G_def px_B_def)

lemma slide:
  assumes "0 < h" "255 * h < 2147483648" "h \<le> k \<Longrightarrow> k - h < n" "\<And>p. is_chan (c p)" "c 0 = 0"
  shows "i32 (i32 (under_box c f h n k - c (if h \<le> k then f (k - h) else 0)) + c (if k < n then f k else 0)) = under_box c f h n (Suc k)"
proof -
  have "under_box c f h n (Suc k) = under_box c f h n k - c (if h \<le> k then f (k - h) else 0) + c (if k < n then f k else 0)"
    using under_box_Suc [OF assms(1,3), where c = c and f = f] assms(5) by simp
  moreover have "i32 (under_box c f h n (Suc k)) = under_box c f h n (Suc k)"
    using under_box_bounds [of c f h n "Suc k"] assms(2,4) by (intro i32_small) auto
  ultimately show ?thesis by (simp only: i32_add_wrap)
qed

interpretation blur: sliding_sum no_sums unaccumulate accumulate box_sums
proof unfold_locales
  fix f :: "nat \<Rightarrow> jint" and h n k :: nat
  assume h: "0 < h" "255 * h < 2147483648" "h \<le> k \<Longrightarrow> k - h < n"
  show "accumulate (if k < n then f k else 0) (unaccumulate (if h \<le> k then f (k - h) else 0) (box_sums f h n k)) = box_sums f h n (Suc k)"
    using slide [OF h, of px_A f] slide [OF h, of px_R f] slide [OF h, of px_G f] slide [OF h, of px_B f]
    by (simp only: accumulate_def unaccumulate_def box_sums_def chan_sums.simps is_chan_px px_0 simp_thms)
qed (simp add: no_sums_def box_sums_def)

interpretation alpha: sliding_sum 0 unaccumulate_a accumulate_a "under_box px_A"
  by unfold_locales (simp, simp only: accumulate_a_def unaccumulate_a_def slide [of _ _ _ px_A] is_chan_px px_0)

section \<open>Blur\<close>

text \<open>The mean of a channel: the sum times a rounded \<open>2^31 / (255 * h)\<close>, less 23 bits.\<close>

definition mean :: "nat \<Rightarrow> int \<Rightarrow> int" where
  "mean h s = s * (2147483647 div (255 * int h)) div 8388608"

definition box_mean :: "nat \<Rightarrow> (nat \<Rightarrow> jint) \<Rightarrow> nat \<Rightarrow> nat \<Rightarrow> jint" where
  "box_mean h f n k = pack (mean h (under_box px_A f h n k)) (mean h (under_box px_R f h n k)) (mean h (under_box px_G f h n k)) (mean h (under_box px_B f h n k))"

text \<open>A sum of at most \<open>m\<close> times the scale of \<open>m\<close> is a positive \<open>jint\<close>, and a channel in its upper bits.\<close>

lemma scaled_sum:
  assumes "0 \<le> s" "s \<le> m" "0 < m"
  shows "0 \<le> s * (2147483647 div m)" "s * (2147483647 div m) \<le> 2147483647" "is_chan (s * (2147483647 div m) div 8388608)"
    "drop_bit 23 (i32 (s * (2147483647 div m))) = s * (2147483647 div m) div 8388608"
proof -
  have k: "0 \<le> 2147483647 div m" using assms(3) by (simp add: pos_imp_zdiv_nonneg_iff)
  show 0: "0 \<le> s * (2147483647 div m)" using assms(1) k by simp
  have "s * (2147483647 div m) \<le> m * (2147483647 div m)" using assms(2) k by (rule mult_right_mono)
  also have "\<dots> \<le> 2147483647" using div_between [OF assms(3)] by blast
  finally show 1: "s * (2147483647 div m) \<le> 2147483647" .
  show "is_chan (s * (2147483647 div m) div 8388608)" using 0 1 by (auto simp: is_chan_def pos_imp_zdiv_nonneg_iff)
  show "drop_bit 23 (i32 (s * (2147483647 div m))) = s * (2147483647 div m) div 8388608"
    using i32_small [OF 0] 1 by (simp add: drop_bit_eq_div)
qed

lemma pack_sum:
  assumes "is_chan r" "is_chan g" "is_chan b"
  shows "i32 (push_bit 24 a + push_bit 16 r + push_bit 8 g + b) = pack a r g b"
proof -
  note bits = assms [THEN is_chan_bit]
  have "push_bit 24 a + push_bit 16 r = push_bit 24 a OR push_bit 16 r"
    by (rule disjunctive_add_eq_or) (rule bit_eqI, auto simp: bit_simps dest: bits)
  moreover have "(push_bit 24 a OR push_bit 16 r) + push_bit 8 g = push_bit 24 a OR push_bit 16 r OR push_bit 8 g"
    by (subst disjunctive_add_eq_or) (rule bit_eqI, auto simp: bit_simps or.assoc dest: bits)
  moreover have "(push_bit 24 a OR push_bit 16 r OR push_bit 8 g) + b = push_bit 24 a OR push_bit 16 r OR push_bit 8 g OR b"
    by (subst disjunctive_add_eq_or) (rule bit_eqI, auto simp: bit_simps or.assoc dest: bits)
  ultimately show ?thesis by (simp only: pack_def)
qed

lemma mean_chan: "0 < h \<Longrightarrow> is_chan (mean h (under_box px_A f h n k))" "0 < h \<Longrightarrow> is_chan (mean h (under_box px_R f h n k))"
  "0 < h \<Longrightarrow> is_chan (mean h (under_box px_G f h n k))" "0 < h \<Longrightarrow> is_chan (mean h (under_box px_B f h n k))"
  unfolding mean_def by (intro scaled_sum(3) under_box_bounds is_chan_px; simp)+

lemma box_color_mean:
  assumes "0 < h"
  shows "box_color (2147483647 div (255 * int h)) (box_sums f h n k) = box_mean h f n k"
proof -
  have b: "0 \<le> under_box c f h n k" "under_box c f h n k \<le> 255 * int h" if "\<And>p. is_chan (c p)" for c using under_box_bounds [OF that] .
  have d: "drop_bit 23 (i32 (under_box c f h n k * (2147483647 div (255 * int h)))) = mean h (under_box c f h n k)" if "\<And>p. is_chan (c p)" for c
    unfolding mean_def using scaled_sum(4) [OF b [OF that]] assms by simp
  show ?thesis
    unfolding box_color_def box_sums_def chan_sums.simps d [of px_A, OF is_chan_px(1)] d [of px_R, OF is_chan_px(2)] d [of px_G, OF is_chan_px(3)] d [of px_B, OF is_chan_px(4)]
      box_mean_def by (rule pack_sum) (simp_all add: mean_chan assms)
qed

lemma box_size:
  assumes "0 < h" "255 * h < 2147483648"
  shows "i32 (int (n + h - 1) - int n + 1) = int h" "i32 (int h * 255) = 255 * int h" "kscale_of (255 * int h) = Some (2147483647 div (255 * int h))"
proof -
  have "int (n + h - 1) - int n + 1 = int h" using assms(1) by simp
  then show "i32 (int (n + h - 1) - int n + 1) = int h" using i32_int [of h] assms(2) by simp
  show "i32 (int h * 255) = 255 * int h" using assms(2) by (simp add: i32_small mult.commute)
  show "kscale_of (255 * int h) = Some (2147483647 div (255 * int h))" using assms(1) by (simp add: kscale_of_def)
qed

lemma blur_loops:
  assumes "0 < h" "255 * h < 2147483648"
  shows "blur_filterHorizontal True d (int (n + h - 1)) b ds src (int n) e ss =
      box_rows no_sums unaccumulate accumulate (box_color (2147483647 div (255 * int h))) (int h) d (int (n + h - 1)) b ds src (int n) ss"
    "blur_filterVertical True d b (int (n + h - 1)) ds src e (int n) ss =
      box_cols no_sums unaccumulate accumulate (box_color (2147483647 div (255 * int h))) (int h) d b (int (n + h - 1)) ds src (int n) ss"
  by (simp_all only: blur_filterHorizontal_def blur_filterVertical_def Let_def box_size [OF assms] Option.bind.bind_lunit simp_thms if_False)

text \<open>
  C12: a box blur filters the whole image. For a source image and a destination that is larger by the size of the box less one, both
  filters return without an access outside the arrays and without overflow, as long as the sums and the offsets fit into 32 bits; every pixel
  of the destination is the packed fixed-point mean (the sum times a scale, shifted) of the pixels under the box that ends at it, with transparent pixels outside the source, and no other cell of the destination changes, whatever
  it held before.
\<close>

theorem box_blur_image:
  assumes "0 < h" "255 * h < 2147483648"
  shows "(image_ok src ss sw H \<and> image_ok d ds (sw + h - 1) H \<longrightarrow>
      (\<exists>d'. blur_filterHorizontal True d (int (sw + h - 1)) (int H) (int ds) src (int sw) (int H) (int ss) = Some d'
        \<and> image_of d ds (sw + h - 1) H (\<lambda>y x. box_mean h (\<lambda>i. src ! (y * ss + i)) sw (Suc x)) d'))
    \<and> (image_ok src ss W sh \<and> image_ok d ds W (sh + h - 1) \<and> (sh + h) * ss < 2147483648 \<longrightarrow>
      (\<exists>d'. blur_filterVertical True d (int W) (int (sh + h - 1)) (int ds) src (int W) (int sh) (int ss) = Some d'
        \<and> image_of d ds W (sh + h - 1) (\<lambda>y x. box_mean h (\<lambda>i. src ! (i * ss + x)) sh (Suc y)) d'))"
  unfolding blur_loops [OF assms] box_color_mean [OF assms(1), symmetric]
  using blur.rows_image [OF _ _ assms] blur.cols_image [OF _ _ assms] by blast

theorem box_blur_image_witness:
  "\<exists>d'. blur_filterHorizontal True [9, 9, 9, 9] 3 1 4 [-1, 0] 2 1 2 = Some d' \<and> d' ! 1 = 2139062143 \<and> d' ! 2 = 0 \<and> d' ! 3 = 9"
proof -
  have ok: "image_ok [-1, 0] 2 2 1" "image_ok [9, 9, 9, 9] 4 (2 + 2 - 1) 1" by (simp_all add: image_ok_def)
  obtain d' where d': "blur_filterHorizontal True [9, 9, 9, 9] 3 1 4 [-1, 0] 2 1 2 = Some d'"
    "image_of [9, 9, 9, 9] 4 3 1 (\<lambda>y x. box_mean 2 (\<lambda>i. [-1, 0] ! (y * 2 + i)) 2 (Suc x)) d'"
    using box_blur_image [of 2 "[-1, 0]" 2 2 1 "[9, 9, 9, 9]" 4] ok by auto
  have boxes: "{i. Suc (Suc 0) \<le> i + 2 \<and> i < Suc (Suc 0) \<and> i < (2::nat)} = {0, 1}" "{i. Suc (Suc (Suc 0)) \<le> i + 2 \<and> i < Suc (Suc (Suc 0)) \<and> i < (2::nat)} = {1}" by auto
  have "d' ! (0 * 4 + 1) = 2139062143" "d' ! (0 * 4 + 2) = 0"
    using d'(2) boxes unfolding image_of_def
    by (simp_all add: box_mean_def mean_def under_box_def pack_def i32_def px_A_def px_R_def px_G_def px_B_def)
  moreover have "d' ! 3 = 9" using d'(2) by (auto simp: image_of_def)
  ultimately show ?thesis using d'(1) by (simp add: numeral_2_eq_2)
qed

text \<open>The mean is the exact mean or one more.\<close>

lemma mean_near:
  assumes "0 < h" "h \<le> 32896" "0 \<le> s" "s \<le> 255 * int h"
  shows "s div int h \<le> mean h s" "mean h s \<le> s div int h + 1"
proof -
  define m k where "m = 255 * int h" and "k = 2147483647 div m"
  have m: "0 < m" "m \<le> 8388480" using assms(1,2) by (simp_all add: m_def)
  have mk: "2147483647 - m < m * k" "m * k \<le> 2147483647" using div_between [OF m(1), of 2147483647] by (simp_all add: k_def)
  have e: "m * (s * k) = s * (m * k)" by (simp add: mult.left_commute)
  have "int h * (s div int h) \<le> s" using div_between [of "int h" s] assms(1) by simp
  then have q: "m * (s div int h) \<le> 255 * s" by (simp add: m_def)
  have "s * (2147483648 - m) \<le> s * (m * k)" using mk(1) assms(3) by (intro mult_left_mono) simp_all
  moreover have "s * 2139095168 \<le> s * (2147483648 - m)" using m(2) assms(3) by (intro mult_left_mono) simp_all
  ultimately have "8388608 * (m * (s div int h)) \<le> m * (s * k)" using q assms(3) e by linarith
  then have "m * (8388608 * (s div int h)) \<le> m * (s * k)" by (simp add: mult.left_commute)
  then have "8388608 * (s div int h) \<le> s * k" using m(1) by (simp only: mult_le_cancel_left_pos)
  then show "s div int h \<le> mean h s" unfolding mean_def m_def [symmetric] k_def [symmetric] by linarith
  have "s * (m * k) \<le> s * 2147483648" using mk(2) assms(3) by (intro mult_left_mono) simp_all
  moreover have "s < int h * (s div int h + 1)" using div_between [of "int h" s] assms(1) by (simp add: distrib_left)
  then have "255 * s < m * (s div int h + 1)" by (simp add: m_def)
  ultimately have "m * (s * k) < 8388608 * (m * (s div int h + 1)) + 8388608 * m" using e assms(4) [folded m_def] by linarith
  then have "m * (s * k) < m * (8388608 * (s div int h + 2))" by (simp add: algebra_simps)
  then have "s * k < 8388608 * (s div int h + 2)" using m(1) by (simp only: mult_less_cancel_left_pos)
  then have "s * k div 8388608 < s div int h + 2" using zdiv_less_iff [of 8388608 "s * k" "s div int h + 2"] by simp
  then show "mean h s \<le> s div int h + 1" unfolding mean_def m_def [symmetric] k_def [symmetric] by simp
qed

lemma mean_mono: "s \<le> t \<Longrightarrow> mean h s \<le> mean h t"
  unfolding mean_def by (intro zdiv_mono1 mult_right_mono) (simp_all add: pos_imp_zdiv_nonneg_iff div_int_pos_iff)

lemma mean_full: "0 < h \<Longrightarrow> h \<le> 32896 \<Longrightarrow> mean h (255 * int h) = 255"
  using mean_near(1) [of h "255 * int h"] scaled_sum(3) [of "255 * int h" "255 * int h"] by (simp add: mean_def is_chan_def)

lemma box_mean_premult:
  assumes "0 < h" "\<And>i. i < n \<Longrightarrow> premult (f i)"
  shows "premult (box_mean h f n k)"
  unfolding box_mean_def using assms
  by (intro premult_packI mean_chan mean_mono under_box_mono) (auto simp: premult_def)

text \<open>
  A blurred pixel is the mean. In the image that the horizontal filter makes from a premultiplied image, every pixel is
  premultiplied; each channel is the exact mean under the box, rounded down, or one more, for boxes of up to 32896 pixels; and where
  the whole box lies on opaque white pixels the result is opaque white: the two roundings lose nothing at full coverage.
\<close>

theorem box_blur_mean:
  assumes "0 < h" "h \<le> 32896" "image_ok src ss sw H" "image_ok d ds (sw + h - 1) H" "\<forall>p \<in> set src. premult p"
  shows "\<exists>d'. blur_filterHorizontal True d (int (sw + h - 1)) (int H) (int ds) src (int sw) (int H) (int ss) = Some d'
    \<and> (\<forall>y < H. \<forall>x < sw + h - 1. premult (d' ! (y * ds + x))
        \<and> (\<forall>c \<in> {px_A, px_R, px_G, px_B}. under_box c (\<lambda>i. src ! (y * ss + i)) h sw (Suc x) div int h \<le> c (d' ! (y * ds + x))
             \<and> c (d' ! (y * ds + x)) \<le> under_box c (\<lambda>i. src ! (y * ss + i)) h sw (Suc x) div int h + 1)
        \<and> (h \<le> Suc x \<and> x < sw \<and> (\<forall>i \<le> x. x < i + h \<longrightarrow> src ! (y * ss + i) = -1) \<longrightarrow> d' ! (y * ds + x) = -1))"
proof -
  have h: "255 * h < 2147483648" using assms(2) by simp
  from blur.rows_image [OF assms(3,4,1) h] obtain d' where
    d': "blur_filterHorizontal True d (int (sw + h - 1)) (int H) (int ds) src (int sw) (int H) (int ss) = Some d'"
    and im: "image_of d ds (sw + h - 1) H (\<lambda>y x. box_mean h (\<lambda>i. src ! (y * ss + i)) sw (Suc x)) d'"
    unfolding blur_loops [OF assms(1) h] box_color_mean [OF assms(1), symmetric] by blast
  have px: "premult p \<and> (\<forall>c \<in> {px_A, px_R, px_G, px_B}. under_box c f h sw (Suc x) div int h \<le> c p \<and> c p \<le> under_box c f h sw (Suc x) div int h + 1)
      \<and> (h \<le> Suc x \<and> x < sw \<and> (\<forall>i \<le> x. x < i + h \<longrightarrow> f i = -1) \<longrightarrow> p = -1)"
    if p: "p = box_mean h f sw (Suc x)" and f: "\<And>i. i < sw \<Longrightarrow> premult (f i)" for p f x
  proof (intro conjI impI)
    show "premult p" unfolding p using assms(1) f by (rule box_mean_premult)
    have "c p = mean h (under_box c f h sw (Suc x)) \<and> (\<forall>q. is_chan (c q))" if "c \<in> {px_A, px_R, px_G, px_B}" for c
      using that mean_chan [OF assms(1), of f sw "Suc x"] by (auto simp: p box_mean_def)
    then show "\<forall>c \<in> {px_A, px_R, px_G, px_B}. under_box c f h sw (Suc x) div int h \<le> c p \<and> c p \<le> under_box c f h sw (Suc x) div int h + 1"
      using mean_near [OF assms(1,2)] under_box_bounds by metis
    assume "h \<le> Suc x \<and> x < sw \<and> (\<forall>i \<le> x. x < i + h \<longrightarrow> f i = -1)"
    then have "under_box c f h sw (Suc x) = 255 * int h" if "c (-1) = 255" for c using that by (intro under_box_const) auto
    then show "p = -1"
      by (simp add: p box_mean_def mean_full [OF assms(1,2)] px_A_def px_R_def px_G_def px_B_def pack_def i32_def)
  qed
  have "premult (src ! (y * ss + i))" if "y < H" "i < sw" for y i using assms(3,5) that by (auto simp: image_ok_def)
  with d' im px show ?thesis unfolding image_of_def by (intro exI [of _ d'] conjI allI impI) blast+
qed

theorem box_blur_mean_witness:
  "\<exists>d'. blur_filterHorizontal True [9, 9, 9, 9] 4 1 4 [-1, -1, 0] 3 1 3 = Some d' \<and> d' ! 1 = -1 \<and> premult (d' ! 2)"
proof -
  have ok: "image_ok [-1, -1, 0] 3 3 1" "image_ok [9, 9, 9, 9] 4 (3 + 2 - 1) 1" by (simp_all add: image_ok_def)
  have pre: "\<forall>p \<in> set [-1, -1, 0]. premult p" by (simp add: premult_def px_A_def px_R_def px_G_def px_B_def)
  obtain d' where d': "blur_filterHorizontal True [9, 9, 9, 9] 4 1 4 [-1, -1, 0] 3 1 3 = Some d'"
    and px: "\<And>x. x < 4 \<Longrightarrow> premult (d' ! x)"
    and white: "\<And>x. x < 4 \<Longrightarrow> 2 \<le> Suc x \<and> x < 3 \<and> (\<forall>i \<le> x. x < i + 2 \<longrightarrow> [-1, -1, 0] ! i = (-1 :: int)) \<Longrightarrow> d' ! x = -1"
    using box_blur_mean [OF _ _ ok pre] by auto
  have "d' ! 1 = -1" by (rule white) (auto simp: le_Suc_eq)
  with d' px [of 2] show ?thesis by auto
qed

section \<open>Shadow\<close>

text \<open>
  The alpha of a shadow: nothing below a threshold, opaque from \<open>amax\<close> on, and in between the sum scaled so that \<open>amax\<close> would be 255.
  \<open>amax\<close> is \<open>255 * h\<close> without spread and 255 with full spread.
\<close>

definition shadow_alpha :: "int \<Rightarrow> int \<Rightarrow> int" where
  "shadow_alpha amax s = (if s < amax div 255 then 0 else if amax \<le> s then 255 else s * (2147483647 div amax) div 8388608)"

definition amax_at :: "(jint \<Rightarrow> jint) \<Rightarrow> nat \<Rightarrow> int" where
  "amax_at spread h = 255 * int h + spread (255 - 255 * int h)"

text \<open>
  What the filters rely on of the product with \<open>spread\<close>, a \<open>float\<close> from 0 to 1: the product with \<open>255 - amax\<close> is between that number and 0. (So it is whenever
  a \<open>float\<close> holds the number exactly, for boxes of up to 65793 pixels.)
\<close>

definition spread_ok :: "(jint \<Rightarrow> jint) \<Rightarrow> nat \<Rightarrow> bool" where
  "spread_ok spread h \<longleftrightarrow> 255 - 255 * int h \<le> spread (255 - 255 * int h) \<and> spread (255 - 255 * int h) \<le> 0"

lemma amax_bounds:
  assumes "spread_ok spread h"
  shows "255 \<le> amax_at spread h" "amax_at spread h \<le> 255 * int h"
  using assms by (simp_all add: amax_at_def spread_ok_def)

lemma shadow_size:
  assumes "spread_ok spread h" "0 < h" "255 * h < 2147483648"
  shows "amax_of spread (int h) = amax_at spread h" "kscale_of (amax_at spread h) = Some (2147483647 div amax_at spread h)"
    "cdiv (amax_at spread h) 255 = amax_at spread h div 255"
proof -
  note b = amax_bounds [OF assms(1)]
  have "i32 (255 - 255 * int h) = 255 - 255 * int h" using assms(3) by (intro i32_id) (simp add: is_i32_def)
  moreover have "i32 (amax_at spread h) = amax_at spread h" using b assms(3) by (intro i32_small) simp_all
  ultimately show "amax_of spread (int h) = amax_at spread h" by (simp add: amax_of_def Let_def box_size(2) [OF assms(2,3)] amax_at_def)
  show "kscale_of (amax_at spread h) = Some (2147483647 div amax_at spread h)" "cdiv (amax_at spread h) 255 = amax_at spread h div 255"
    using b by (simp_all add: kscale_of_def)
qed

lemma shadow_alpha_chan: "0 < amax \<Longrightarrow> 0 \<le> s \<Longrightarrow> is_chan (shadow_alpha amax s)"
  using scaled_sum(3) [of s amax] by (auto simp: shadow_alpha_def is_chan_def)

lemma shadow_alpha_mono:
  assumes "0 < amax" "0 \<le> s" "s \<le> t"
  shows "shadow_alpha amax s \<le> shadow_alpha amax t"
proof -
  have "s * (2147483647 div amax) div 8388608 \<le> t * (2147483647 div amax) div 8388608"
    using assms by (intro zdiv_mono1 mult_right_mono) (simp_all add: pos_imp_zdiv_nonneg_iff)
  then show ?thesis
    using assms shadow_alpha_chan [OF assms(1), of t] shadow_alpha_chan [OF assms(1), of s] by (auto simp: shadow_alpha_def is_chan_def split: if_splits)
qed

lemma black_color_alpha:
  assumes "0 < amax" "0 \<le> s"
  shows "black_color (amax div 255) amax (2147483647 div amax) s = pack (shadow_alpha amax s) 0 0 0"
  using assms scaled_sum(4) [of s amax] by (simp add: black_color_def shadow_alpha_def pack_def) (simp add: i32_def)

text \<open>
  The same for the products with the colour, four \<open>float\<close>s from 0 to 1 of which the colours do not exceed alpha: for the numbers up to \<open>2 ^ 24\<close>, which a \<open>float\<close>
  holds exactly, they are between 0 and the number, and those with a colour do not exceed that with alpha.
\<close>

definition tone_ok :: "(nat \<Rightarrow> jint \<Rightarrow> jint) \<Rightarrow> bool" where
  "tone_ok tone \<longleftrightarrow> (\<forall>k < 4. \<forall>i. 0 \<le> i \<and> i \<le> 2 ^ 24 \<longrightarrow> 0 \<le> tone k i \<and> tone k i \<le> i \<and> tone k i \<le> tone 3 i)"

definition shadow_tone :: "int \<Rightarrow> int \<Rightarrow> (jint \<Rightarrow> jint) \<Rightarrow> int" where
  "shadow_tone amax s t = (if s < amax div 255 then 0 else if amax \<le> s then t 255 else s * t (2147483647 div amax) div 8388608)"

lemma shadow_tone_chan:
  assumes "tone_ok tone" "k < 4" "255 \<le> amax" "0 \<le> s"
  shows "is_chan (shadow_tone amax s (tone k))" "shadow_tone amax s (tone k) \<le> shadow_tone amax s (tone 3)"
    "shadow_tone amax s (tone k) \<le> shadow_alpha amax s"
    "s < amax \<Longrightarrow> drop_bit 23 (i32 (s * tone k (2147483647 div amax))) = s * tone k (2147483647 div amax) div 8388608"
proof -
  define K where "K = 2147483647 div amax"
  have "K \<le> 2147483647 div 255" unfolding K_def using assms(3) by (intro zdiv_mono2) simp_all
  then have K: "0 \<le> K" "K \<le> 2 ^ 24" using assms(3) by (simp_all add: K_def pos_imp_zdiv_nonneg_iff)
  have t: "0 \<le> tone k K" "tone k K \<le> K" "tone k K \<le> tone 3 K" "0 \<le> tone k 255" "tone k 255 \<le> 255" "tone k 255 \<le> tone 3 255"
    using assms(1,2) K by (simp_all add: tone_ok_def)
  have b: "0 \<le> s * tone k K" "s * tone k K \<le> s * K" "s * tone k K \<le> s * tone 3 K" using t assms(4) by (simp_all add: mult_left_mono)
  have d: "0 \<le> s * tone k K div 8388608" "s * tone k K div 8388608 \<le> s * K div 8388608" "s * tone k K div 8388608 \<le> s * tone 3 K div 8388608"
    using b by (simp_all add: pos_imp_zdiv_nonneg_iff zdiv_mono1)
  have a: "0 < amax" using assms(3) by simp
  note sc = scaled_sum [OF assms(4) _ a, folded K_def]
  show "is_chan (shadow_tone amax s (tone k))" "shadow_tone amax s (tone k) \<le> shadow_tone amax s (tone 3)"
    "shadow_tone amax s (tone k) \<le> shadow_alpha amax s"
    using d t sc(3) by (auto simp: shadow_tone_def shadow_alpha_def is_chan_def simp flip: K_def)
  show "drop_bit 23 (i32 (s * tone k (2147483647 div amax))) = s * tone k (2147483647 div amax) div 8388608" if "s < amax"
    using b sc(2) that i32_small [OF b(1)] by (simp add: drop_bit_eq_div flip: K_def)
qed

definition shadow_pixel :: "(nat \<Rightarrow> jint \<Rightarrow> jint) \<Rightarrow> int \<Rightarrow> int \<Rightarrow> jint" where
  "shadow_pixel tone amax s = pack (shadow_tone amax s (tone 3)) (shadow_tone amax s (tone 0)) (shadow_tone amax s (tone 1)) (shadow_tone amax s (tone 2))"

lemma shadow_color_pixel:
  assumes "tone_ok tone" "255 \<le> amax" "0 \<le> s"
  shows "shadow_color tone (amax div 255) amax (2147483647 div amax) s = shadow_pixel tone amax s"
proof -
  have or: "a OR b OR c OR d = d OR a OR b OR c" for a b c d :: int by (simp add: or.left_commute or.commute)
  show ?thesis
    using shadow_tone_chan(4) [OF assms(1) _ assms(2,3), of 0] shadow_tone_chan(4) [OF assms(1) _ assms(2,3), of 1]
      shadow_tone_chan(4) [OF assms(1) _ assms(2,3), of 2] shadow_tone_chan(4) [OF assms(1) _ assms(2,3), of 3]
    by (simp add: shadow_color_def shadow_pixel_def shadow_tone_def Let_def pack_def or [of "push_bit 16 _"]) (simp add: i32_def)
qed

lemma shadow_pixel_premult: "tone_ok tone \<Longrightarrow> 255 \<le> amax \<Longrightarrow> 0 \<le> s \<Longrightarrow> premult (shadow_pixel tone amax s) \<and> px_A (shadow_pixel tone amax s) \<le> shadow_alpha amax s"
  using shadow_tone_chan(1-3) [of tone _ amax s] by (simp add: shadow_pixel_def premult_def)

lemma shadow_loops:
  assumes "spread_ok spread h" "0 < h" "255 * h < 2147483648"
  shows "filterHorizontalBlack True spread d (int (n + h - 1)) b ds src (int n) e ss =
      box_rows 0 unaccumulate_a accumulate_a (black_color (amax_at spread h div 255) (amax_at spread h) (2147483647 div amax_at spread h))
        (int h) d (int (n + h - 1)) b ds src (int n) ss"
    "filterVerticalBlack True spread d b (int (n + h - 1)) ds src e (int n) ss =
      box_cols 0 unaccumulate_a accumulate_a (black_color (amax_at spread h div 255) (amax_at spread h) (2147483647 div amax_at spread h))
        (int h) d b (int (n + h - 1)) ds src (int n) ss"
    "shadow_filterVertical True spread tone d b (int (n + h - 1)) ds src e (int n) ss =
      box_cols 0 unaccumulate_a accumulate_a (shadow_color tone (amax_at spread h div 255) (amax_at spread h) (2147483647 div amax_at spread h))
        (int h) d b (int (n + h - 1)) ds src (int n) ss"
  by (simp_all only: filterHorizontalBlack_def filterVerticalBlack_def shadow_filterVertical_def Let_def box_size(1) [OF assms(2,3)] shadow_size [OF assms]
      Option.bind.bind_lunit simp_thms if_False)

lemma shadow_emit:
  assumes "spread_ok spread h" "0 < h"
  shows "black_color (amax_at spread h div 255) (amax_at spread h) (2147483647 div amax_at spread h) (under_box px_A f h n k)
      = pack (shadow_alpha (amax_at spread h) (under_box px_A f h n k)) 0 0 0"
    "tone_ok tone \<Longrightarrow> shadow_color tone (amax_at spread h div 255) (amax_at spread h) (2147483647 div amax_at spread h) (under_box px_A f h n k)
      = shadow_pixel tone (amax_at spread h) (under_box px_A f h n k)"
proof -
  have a: "255 \<le> amax_at spread h" "0 < amax_at spread h" using amax_bounds(1) [OF assms(1)] by simp_all
  have s: "0 \<le> under_box px_A f h n k" by (rule under_box_bounds) simp
  show "black_color (amax_at spread h div 255) (amax_at spread h) (2147483647 div amax_at spread h) (under_box px_A f h n k)
      = pack (shadow_alpha (amax_at spread h) (under_box px_A f h n k)) 0 0 0" using a(2) s by (rule black_color_alpha)
  show "shadow_color tone (amax_at spread h div 255) (amax_at spread h) (2147483647 div amax_at spread h) (under_box px_A f h n k)
      = shadow_pixel tone (amax_at spread h) (under_box px_A f h n k)" if "tone_ok tone" using that a(1) s by (rule shadow_color_pixel)
qed

text \<open>
  C19: a box shadow filters the whole image. For any spread and premultiplied colour from 0 to 1 (\<open>spread_ok\<close>, \<open>tone_ok\<close>), and a destination that is larger than
  the source by the size of the box less one, the three filters return without an access outside the
  arrays and without overflow, as long as the sums and the offsets fit into 32 bits; the pixels of the destination are black with the shadow's alpha of the sum under the box, or the shadow
  colour scaled by it, which is premultiplied and nowhere more opaque than the black shadow; and no other cell of the destination changes.
\<close>

theorem box_shadow_image:
  assumes "spread_ok spread h" "tone_ok tone" "0 < h" "255 * h < 2147483648"
  shows "(image_ok src ss sw H \<and> image_ok d ds (sw + h - 1) H \<longrightarrow>
      (\<exists>d'. filterHorizontalBlack True spread d (int (sw + h - 1)) (int H) (int ds) src (int sw) (int H) (int ss) = Some d'
        \<and> image_of d ds (sw + h - 1) H (\<lambda>y x. pack (shadow_alpha (amax_at spread h) (under_box px_A (\<lambda>i. src ! (y * ss + i)) h sw (Suc x))) 0 0 0) d'))
    \<and> (image_ok src ss W sh \<and> image_ok d ds W (sh + h - 1) \<and> (sh + h) * ss < 2147483648 \<longrightarrow>
      (\<exists>d'. filterVerticalBlack True spread d (int W) (int (sh + h - 1)) (int ds) src (int W) (int sh) (int ss) = Some d'
        \<and> image_of d ds W (sh + h - 1) (\<lambda>y x. pack (shadow_alpha (amax_at spread h) (under_box px_A (\<lambda>i. src ! (i * ss + x)) h sh (Suc y))) 0 0 0) d')
      \<and> (\<exists>d'. shadow_filterVertical True spread tone d (int W) (int (sh + h - 1)) (int ds) src (int W) (int sh) (int ss) = Some d'
        \<and> image_of d ds W (sh + h - 1) (\<lambda>y x. shadow_pixel tone (amax_at spread h) (under_box px_A (\<lambda>i. src ! (i * ss + x)) h sh (Suc y))) d'))
    \<and> (\<forall>s \<ge> 0. premult (shadow_pixel tone (amax_at spread h) s) \<and> px_A (shadow_pixel tone (amax_at spread h) s) \<le> shadow_alpha (amax_at spread h) s)"
proof -
  have "255 \<le> amax_at spread h" by (rule amax_bounds(1) [OF assms(1)])
  then show ?thesis
    unfolding shadow_loops [OF assms(1,3,4)] shadow_emit(1) [OF assms(1,3), symmetric] shadow_emit(2) [OF assms(1,3,2), symmetric]
    using alpha.rows_image [OF _ _ assms(3,4)] alpha.cols_image [OF _ _ assms(3,4)] shadow_pixel_premult [OF assms(2)] by blast
qed

theorem box_shadow_image_witness:
  "\<exists>d'. shadow_filterVertical True (\<lambda>i. 0) (\<lambda>k i. if k = 3 then i else i div 2) [9, 9, 9] 1 2 1 [-1] 1 1 1 = Some d' \<and> premult (d' ! 1) \<and> d' ! 2 = 9"
proof -
  have ok: "spread_ok (\<lambda>i. 0) 2" "tone_ok (\<lambda>k i. if k = 3 then i else i div 2)" by (auto simp: spread_ok_def tone_ok_def)
  have im: "image_ok [-1] 1 1 1" "image_ok [9, 9, 9] 1 1 (1 + 2 - 1)" by (simp_all add: image_ok_def)
  let ?px = "shadow_pixel (\<lambda>k i. if k = 3 then i else i div 2) (amax_at (\<lambda>i. 0) 2)"
  have "(\<exists>d'. shadow_filterVertical True (\<lambda>i. 0) (\<lambda>k i. if k = 3 then i else i div 2) [9, 9, 9] 1 2 1 [-1] 1 1 1 = Some d'
        \<and> image_of [9, 9, 9] 1 1 2 (\<lambda>y x. ?px (under_box px_A (\<lambda>i. [-1] ! (i * 1 + x)) 2 1 (Suc y))) d') \<and> (\<forall>s \<ge> 0. premult (?px s))"
    using box_shadow_image [OF ok, of "[-1]" 1 1 1 "[9, 9, 9]" 1 1 1] im by (simp add: numeral_2_eq_2)
  then obtain d' where "shadow_filterVertical True (\<lambda>i. 0) (\<lambda>k i. if k = 3 then i else i div 2) [9, 9, 9] 1 2 1 [-1] 1 1 1 = Some d'"
    and im': "image_of [9, 9, 9] 1 1 2 (\<lambda>y x. ?px (under_box px_A (\<lambda>i. [-1] ! (i * 1 + x)) 2 1 (Suc y))) d'" and pre: "\<forall>s \<ge> 0. premult (?px s)" by blast
  moreover have "premult (d' ! (1 * 1 + 0))" using im' pre under_box_bounds(1) [of px_A] unfolding image_of_def by fastforce
  moreover have "d' ! 2 = 9" using im' by (auto simp: image_of_def)
  ultimately show ?thesis by auto
qed

text \<open>
  The two ends of the spread. With full spread every pixel of the black shadow whose box reaches an opaque pixel of the source is opaque, and
  one whose box reaches only transparent pixels stays transparent: the shape grows solidly by the size of the box. Without spread the
  shadow is the blurred alpha, except that sums that are less than one full step of alpha are dropped.
\<close>

theorem box_shadow_spread:
  assumes "image_ok src ss sw H" "image_ok d ds (sw + h - 1) H" "0 < h" "h \<le> 32896"
  shows "\<exists>e b. filterHorizontalBlack True (\<lambda>i. i) d (int (sw + h - 1)) (int H) (int ds) src (int sw) (int H) (int ss) = Some e
    \<and> filterHorizontalBlack True (\<lambda>i. 0) d (int (sw + h - 1)) (int H) (int ds) src (int sw) (int H) (int ss) = Some b
    \<and> (\<forall>y < H. \<forall>x < sw + h - 1.
        ((\<exists>i < sw. i \<le> x \<and> x < i + h \<and> px_A (src ! (y * ss + i)) = 255) \<longrightarrow> e ! (y * ds + x) = pack 255 0 0 0)
        \<and> ((\<forall>i < sw. i \<le> x \<and> x < i + h \<longrightarrow> px_A (src ! (y * ss + i)) = 0) \<longrightarrow> e ! (y * ds + x) = 0)
        \<and> b ! (y * ds + x) = pack (let s = under_box px_A (\<lambda>i. src ! (y * ss + i)) h sw (Suc x) in if s < int h then 0 else mean h s) 0 0 0)"
proof -
  have h: "255 * h < 2147483648" using assms(4) by simp
  have full: "spread_ok (\<lambda>i. i) h" "amax_at (\<lambda>i. i) h = 255" and none: "spread_ok (\<lambda>i. 0) h" "amax_at (\<lambda>i. 0) h = 255 * int h"
    using assms(3) by (simp_all add: spread_ok_def amax_at_def)
  obtain e where e: "filterHorizontalBlack True (\<lambda>i. i) d (int (sw + h - 1)) (int H) (int ds) src (int sw) (int H) (int ss) = Some e"
    "image_of d ds (sw + h - 1) H (\<lambda>y x. pack (shadow_alpha 255 (under_box px_A (\<lambda>i. src ! (y * ss + i)) h sw (Suc x))) 0 0 0) e"
    using alpha.rows_image [OF assms(1,2,3) h] unfolding shadow_loops [OF full(1) assms(3) h] shadow_emit(1) [OF full(1) assms(3), symmetric] full(2) [symmetric] by blast
  obtain b where b: "filterHorizontalBlack True (\<lambda>i. 0) d (int (sw + h - 1)) (int H) (int ds) src (int sw) (int H) (int ss) = Some b"
    "image_of d ds (sw + h - 1) H (\<lambda>y x. pack (shadow_alpha (255 * int h) (under_box px_A (\<lambda>i. src ! (y * ss + i)) h sw (Suc x))) 0 0 0) b"
    using alpha.rows_image [OF assms(1,2,3) h] unfolding shadow_loops [OF none(1) assms(3) h] shadow_emit(1) [OF none(1) assms(3), symmetric] none(2) [symmetric] by blast
  have dark: "shadow_alpha 255 (under_box px_A f h sw (Suc x)) = 255" if "i < sw" "i \<le> x" "x < i + h" "px_A (f i) = 255" for f i x
  proof -
    have "sum (\<lambda>i. px_A (f i)) {i} \<le> under_box px_A f h sw (Suc x)"
      unfolding under_box_def using that(1-3) is_chan_px(1) by (intro sum_mono2) (auto simp: is_chan_def)
    then show ?thesis using that(4) by (simp add: shadow_alpha_def)
  qed
  have light: "under_box px_A f h sw (Suc x) = 0" if "\<forall>i < sw. i \<le> x \<and> x < i + h \<longrightarrow> px_A (f i) = 0" for f x
    unfolding under_box_def using that by (intro sum.neutral) auto
  have blur: "shadow_alpha (255 * int h) s = (let s = s in if s < int h then 0 else mean h s)" if "s \<le> 255 * int h" for s
    using that mean_full [OF assms(3,4)] by (auto simp: shadow_alpha_def mean_def Let_def)
  have le: "under_box px_A f h sw k \<le> 255 * int h" for f k by (rule under_box_bounds) simp
  show ?thesis
    using e b unfolding image_of_def
    by (intro exI [of _ e] exI [of _ b]) (auto simp: dark light blur [OF le] shadow_alpha_def [of 255 0] pack_def i32_def)
qed

theorem box_shadow_spread_witness:
  "\<exists>e. filterHorizontalBlack True (\<lambda>i. i) [9, 9, 9, 9] 3 1 4 [-1, 0] 2 1 2 = Some e \<and> e ! 1 = pack 255 0 0 0 \<and> e ! 2 = 0"
proof -
  have im: "image_ok [-1, 0] 2 2 1" "image_ok [9, 9, 9, 9] 4 (2 + 2 - 1) 1" by (simp_all add: image_ok_def)
  obtain e where e: "filterHorizontalBlack True (\<lambda>i. i) [9, 9, 9, 9] 3 1 4 [-1, 0] 2 1 2 = Some e"
    and dark: "\<And>x. x < 3 \<Longrightarrow> \<exists>i < 2. i \<le> x \<and> x < i + 2 \<and> px_A ([-1, 0] ! i) = 255 \<Longrightarrow> e ! x = pack 255 0 0 0"
    and light: "\<And>x. x < 3 \<Longrightarrow> \<forall>i < 2. i \<le> x \<and> x < i + 2 \<longrightarrow> px_A ([-1, 0] ! i) = 0 \<Longrightarrow> e ! x = 0"
    using box_shadow_spread [OF im] by auto
  have "e ! 1 = pack 255 0 0 0" by (rule dark) (auto simp: px_A_def intro!: exI [of _ 0])
  moreover have "e ! 2 = 0" by (rule light) (auto simp: less_2_cases_iff)
  ultimately show ?thesis using e by blast
qed

end
