(* ===== verification/DecoraSample.thy ===== *)
theory DecoraSample
  imports PiscesGradient DecoraBox
begin

text \<open>
  Bilinear sampling for the effects, \<open>native-decora/SSEUtils.cc\<close>. The arithmetic of \<open>jfloat\<close> is an argument, the record \<open>arith\<close> with the comparison
  \<open>f_le\<close> added; where a value matters it is instantiated with exact reals. The conversion \<open>(int) x\<close> is \<open>f_to_jint\<close>, whose result for a number that
  no \<open>int\<close> holds is a matter of the machine.
\<close>

section \<open>Model\<close>

record ('f, 'd) float_arith = "('f, 'd) arith" +
  f_le :: "'f \<Rightarrow> 'f \<Rightarrow> bool"

text \<open>The array \<open>fvals\<close> by the names of its indices.\<close>

record 'f fvals =
  FVAL_R :: 'f
  FVAL_G :: 'f
  FVAL_B :: 'f
  FVAL_A :: 'f

definition f_half :: "('f, 'd, 'z) arith_scheme \<Rightarrow> 'f" where
  "f_half fl = f_lit fl 5 10"

definition no_fvals :: "('f, 'd, 'z) arith_scheme \<Rightarrow> 'f fvals" where
  "no_fvals fl = \<lparr>FVAL_R = f_of_jint fl 0, FVAL_G = f_of_jint fl 0, FVAL_B = f_of_jint fl 0, FVAL_A = f_of_jint fl 0\<rparr>"

definition laccum :: "('f, 'd, 'z) arith_scheme \<Rightarrow> jint \<Rightarrow> 'f \<Rightarrow> 'f fvals \<Rightarrow> 'f fvals" where
  "laccum fl pixel mul fvals =
     (let mul = f_div fl mul (f_of_jint fl 255)
      in \<lparr>FVAL_R = f_add fl (FVAL_R fvals) (f_mul fl (f_of_jint fl (px_R pixel)) mul),
          FVAL_G = f_add fl (FVAL_G fvals) (f_mul fl (f_of_jint fl (px_G pixel)) mul),
          FVAL_B = f_add fl (FVAL_B fvals) (f_mul fl (f_of_jint fl (px_B pixel)) mul),
          FVAL_A = f_add fl (FVAL_A fvals) (f_mul fl (f_of_jint fl (px_A pixel)) mul)\<rparr>)"

text \<open>
  The box of four pixels around a position, which the three samplers visit in the same order. \<open>acc\<close> adds the pixel at an offset with a weight; \<open>step\<close> is the
  distance of two pixels of a row, \<open>scan\<close> that of two rows.
\<close>

definition sample_box ::
    "('f, 'd, 'z) arith_scheme \<Rightarrow> (jint \<Rightarrow> 'f \<Rightarrow> 's \<Rightarrow> 's option) \<Rightarrow> jint \<Rightarrow> jint \<Rightarrow> jint \<Rightarrow> jint \<Rightarrow> jint \<Rightarrow> jint \<Rightarrow> 'f \<Rightarrow> 'f \<Rightarrow> jint \<Rightarrow> 's \<Rightarrow> 's option" where
  "sample_box fl acc w h scan step iloc_x iloc_y fract_x fract_y offset s =
     (let fract = f_mul fl fract_x fract_y
      in do { s \<leftarrow> (if iloc_y < h then
                    do { s \<leftarrow> (if iloc_x < w then acc offset fract s else Some s);
                         if 0 < iloc_x then acc (i32 (offset - step)) (f_sub fl fract_y fract) s else Some s }
                  else Some s);
              if 0 < iloc_y then
                do { s \<leftarrow> (if iloc_x < w then acc (i32 (offset - scan)) (f_sub fl fract_x fract) s else Some s);
                     if 0 < iloc_x then acc (i32 (offset - scan - step)) (f_add fl (f_sub fl (f_sub fl (f_of_jint fl 1) fract_x) fract_y) fract) s
                     else Some s }
              else Some s })"

text \<open>The position is already multiplied by the size and shifted by a half.\<close>

definition sample_at ::
    "('f, 'd, 'z) arith_scheme \<Rightarrow> (jint \<Rightarrow> 'f \<Rightarrow> 's \<Rightarrow> 's option) \<Rightarrow> jint \<Rightarrow> jint \<Rightarrow> jint \<Rightarrow> jint \<Rightarrow> 'f \<Rightarrow> 'f \<Rightarrow> 's \<Rightarrow> 's option" where
  "sample_at fl acc w h scan step floc_x floc_y s =
     (let iloc_x = f_to_jint fl floc_x; iloc_y = f_to_jint fl floc_y
      in if f_less fl (f_of_jint fl 0) floc_x \<and> f_less fl (f_of_jint fl 0) floc_y \<and> iloc_x \<le> w \<and> iloc_y \<le> h
         then sample_box fl acc w h (i32 (scan * step)) step iloc_x iloc_y (f_sub fl floc_x (f_of_jint fl iloc_x)) (f_sub fl floc_y (f_of_jint fl iloc_y))
                (i32 (step * (iloc_y * scan + iloc_x))) s
         else Some s)"

definition laccum_at :: "('f, 'd, 'z) arith_scheme \<Rightarrow> jint list \<Rightarrow> jint \<Rightarrow> 'f \<Rightarrow> 'f fvals \<Rightarrow> 'f fvals option" where
  "laccum_at fl img offset mul fvals = do { pixel \<leftarrow> aget img offset; Some (laccum fl pixel mul fvals) }"

definition lsample :: "('f, 'd, 'z) arith_scheme \<Rightarrow> jint list \<Rightarrow> 'f \<Rightarrow> 'f \<Rightarrow> jint \<Rightarrow> jint \<Rightarrow> jint \<Rightarrow> 'f fvals option" where
  "lsample fl img floc_x floc_y w h scan =
     sample_at fl (laccum_at fl img) w h scan 1 (f_add fl (f_mul fl floc_x (f_of_jint fl w)) (f_half fl)) (f_add fl (f_mul fl floc_y (f_of_jint fl h)) (f_half fl))
       (no_fvals fl)"

definition laccumsample :: "('f, 'd, 'z) arith_scheme \<Rightarrow> jint list \<Rightarrow> 'f \<Rightarrow> 'f \<Rightarrow> jint \<Rightarrow> jint \<Rightarrow> jint \<Rightarrow> 'f \<Rightarrow> 'f fvals \<Rightarrow> 'f fvals option" where
  "laccumsample fl img fpix_x fpix_y w h scan factor fvals =
     (let factor = f_mul fl factor (f_of_jint fl 255)
      in sample_at fl (\<lambda>offset weight. laccum_at fl img offset (f_mul fl weight factor)) w h scan 1 (f_add fl fpix_x (f_half fl)) (f_add fl fpix_y (f_half fl)) fvals)"

text \<open>A map of floats has four of them per cell.\<close>

definition faccum :: "('f, 'd, 'z) arith_scheme \<Rightarrow> 'f list \<Rightarrow> jint \<Rightarrow> 'f \<Rightarrow> 'f fvals \<Rightarrow> 'f fvals option" where
  "faccum fl fmap offset fract fvals =
     do { m0 \<leftarrow> aget fmap offset; m1 \<leftarrow> aget fmap (i32 (offset + 1)); m2 \<leftarrow> aget fmap (i32 (offset + 2)); m3 \<leftarrow> aget fmap (i32 (offset + 3));
          Some \<lparr>FVAL_R = f_add fl (FVAL_R fvals) (f_mul fl m0 fract), FVAL_G = f_add fl (FVAL_G fvals) (f_mul fl m1 fract),
                FVAL_B = f_add fl (FVAL_B fvals) (f_mul fl m2 fract), FVAL_A = f_add fl (FVAL_A fvals) (f_mul fl m3 fract)\<rparr> }"

definition fsample :: "('f, 'd, 'z) arith_scheme \<Rightarrow> 'f list \<Rightarrow> 'f \<Rightarrow> 'f \<Rightarrow> jint \<Rightarrow> jint \<Rightarrow> jint \<Rightarrow> 'f fvals option" where
  "fsample fl fmap floc_x floc_y w h scan =
     sample_at fl (faccum fl fmap) w h scan 4 (f_add fl (f_mul fl floc_x (f_of_jint fl w)) (f_half fl)) (f_add fl (f_mul fl floc_y (f_of_jint fl h)) (f_half fl))
       (no_fvals fl)"

section \<open>Memory\<close>

text \<open>What the samplers rely on of the conversion: a positive number does not become a negative one.\<close>

definition cast_ok :: "('f, 'd, 'z) arith_scheme \<Rightarrow> bool" where
  "cast_ok fl \<longleftrightarrow> (\<forall>x. f_less fl (f_of_jint fl 0) x \<longrightarrow> 0 \<le> f_to_jint fl x)"

lemma i32_diff_wrap: "i32 (i32 x - y) = i32 (x - y)" "i32 (x - i32 y) = i32 (x - y)"
proof -
  show "i32 (i32 x - y) = i32 (x - y)" using i32_add_wrap [of x "- y"] by simp
  have "i32 (x - i32 y) = i32 (x + - 1 * i32 y)" by simp
  also have "\<dots> = i32 (i32 (i32 y * - 1) + x)" by (simp only: i32_add_wrap) (simp add: algebra_simps)
  also have "\<dots> = i32 (x - y)" by (simp only: i32_mult_wrap i32_add_wrap) (simp add: algebra_simps)
  finally show "i32 (x - i32 y) = i32 (x - y)" .
qed

text \<open>Where the four pixels of the box are.\<close>

lemma box_offsets:
  fixes step scan iy ix :: int
  shows "i32 (i32 (step * (iy * scan + ix)) - step) = i32 (step * (iy * scan + (ix - 1)))"
    "i32 (i32 (step * (iy * scan + ix)) - i32 (scan * step)) = i32 (step * ((iy - 1) * scan + ix))"
    "i32 (i32 (step * (iy * scan + ix)) - i32 (scan * step) - step) = i32 (step * ((iy - 1) * scan + (ix - 1)))"
proof -
  show "i32 (i32 (step * (iy * scan + ix)) - step) = i32 (step * (iy * scan + (ix - 1)))"
    "i32 (i32 (step * (iy * scan + ix)) - i32 (scan * step)) = i32 (step * ((iy - 1) * scan + ix))"
    unfolding i32_diff_wrap by (simp_all add: algebra_simps)
  have "i32 (i32 (step * (iy * scan + ix)) - i32 (scan * step) - step) = i32 (step * (iy * scan + ix) - (i32 (scan * step) + step))"
    using i32_diff_wrap(1) [of "step * (iy * scan + ix)" "i32 (scan * step) + step"] by (simp only: diff_diff_eq)
  also have "step * (iy * scan + ix) - (i32 (scan * step) + step) = step * (iy * scan + ix) - step - i32 (scan * step)" by simp
  also have "i32 \<dots> = i32 (step * ((iy - 1) * scan + (ix - 1)))" unfolding i32_diff_wrap by (simp add: algebra_simps)
  finally show "i32 (i32 (step * (iy * scan + ix)) - i32 (scan * step) - step) = i32 (step * ((iy - 1) * scan + (ix - 1)))" .
qed

text \<open>
  The contract between the samplers and what adds a pixel of an image to the sums: it returns for every pixel of an image that is as large as it is said to
  be. Then a sampler returns for every position, wherever it lies.
\<close>

locale pixel_reader =
  fixes acc :: "'a list \<Rightarrow> jint \<Rightarrow> 'f \<Rightarrow> 's \<Rightarrow> 's option" and holds :: "'a list \<Rightarrow> nat \<Rightarrow> nat \<Rightarrow> nat \<Rightarrow> bool" and step :: nat
  assumes acc_in: "holds img scan w h \<Longrightarrow> x < w \<Longrightarrow> y < h \<Longrightarrow> \<exists>s'. acc img (i32 (int (step * (y * scan + x)))) weight s = Some s'"
begin

lemma acc_at:
  "holds img scan w h \<Longrightarrow> 0 \<le> x \<Longrightarrow> x < int w \<Longrightarrow> 0 \<le> y \<Longrightarrow> y < int h \<Longrightarrow> \<exists>s'. acc img (i32 (int step * (y * int scan + x))) weight s = Some s'"
  using acc_in [of img scan w h "nat x" "nat y" weight s] by simp

lemma box_safe:
  assumes "holds img scan w h" "0 \<le> ix" "ix \<le> int w" "0 \<le> iy" "iy \<le> int h"
  shows "\<exists>s'. sample_box fl (acc img) (int w) (int h) (i32 (int scan * int step)) (int step) ix iy fx fy (i32 (int step * (iy * int scan + ix))) s = Some s'"
proof -
  have cond: "\<exists>s'. (if b then m else Some s) = Some s'" if "b \<Longrightarrow> \<exists>s'. m = Some s'" for b m and s :: 's using that by simp
  have bnd: "\<exists>s'. (m \<bind> f) = Some s'" if "\<exists>t. m = Some t" "\<And>t. \<exists>s'. f t = Some s'" for m and f :: "'s \<Rightarrow> 's option" using that by auto
  show ?thesis
    unfolding sample_box_def Let_def box_offsets using assms by (intro bnd cond acc_at [of img scan w h]) auto
qed

lemma sample_safe:
  assumes "holds img scan w h" "cast_ok fl"
  shows "\<exists>s'. sample_at fl (acc img) (int w) (int h) (int scan) (int step) x y s = Some s'"
  using assms(2) box_safe [OF assms(1), of _ _ fl] unfolding sample_at_def Let_def cast_ok_def by auto

end

text \<open>A map of floats that holds \<open>w\<close> by \<open>h\<close> cells.\<close>

definition fmap_ok :: "'f list \<Rightarrow> nat \<Rightarrow> nat \<Rightarrow> nat \<Rightarrow> bool" where
  "fmap_ok m scan w h \<longleftrightarrow> length m < 2147483648 \<and> (\<forall>y < h. \<forall>x < w. 4 * (y * scan + x) + 3 < length m)"

interpretation pixels: pixel_reader "\<lambda>img offset weight. laccum_at af img offset (g weight)" image_ok 1 for af g
proof
  fix img scan w h x y weight s assume "image_ok img scan w h" "x < w" "y < h"
  then have "y * scan + x < length img" "length img < 2147483648" by (auto simp: image_ok_def)
  then show "\<exists>s'. laccum_at af img (i32 (int (1 * (y * scan + x)))) (g weight) s = Some s'"
    using i32_int [of "y * scan + x"] by (simp add: laccum_at_def aget_def flip: of_nat_add of_nat_mult)
qed

interpretation floats: pixel_reader "faccum af" fmap_ok 4 for af :: "('f, 'd, 'z) arith_scheme"
proof
  fix img :: "'f list" and scan w h x y weight s
  assume "fmap_ok img scan w h" "x < w" "y < h"
  then have l: "4 * (y * scan + x) + 3 < length img" "length img < 2147483648" by (auto simp: fmap_ok_def)
  have "\<exists>m. aget img (i32 (i32 (int (4 * (y * scan + x))) + int k)) = Some m" if "k \<le> 3" for k
    using i32_int [of "4 * (y * scan + x) + k"] l that unfolding i32_add_wrap by (simp add: aget_def flip: of_nat_add of_nat_mult)
  from this [of 0] this [of 1] this [of 2] this [of 3]
  show "\<exists>s'. faccum af img (i32 (int (4 * (y * scan + x)))) weight s = Some s'" by (auto simp: faccum_def)
qed

section \<open>Values\<close>

text \<open>
  Bilinear interpolation of an image that is transparent outside: the pixels weighted with a tent of width two around the position, in
  coordinates in which pixel \<open>(i, j)\<close> has its centre at \<open>(i, j)\<close>.
\<close>

definition tent :: "real \<Rightarrow> real" where
  "tent t = max 0 (1 - \<bar>t\<bar>)"

definition tent_sum :: "nat \<Rightarrow> (nat \<Rightarrow> real) \<Rightarrow> real \<Rightarrow> real" where
  "tent_sum n g u = (\<Sum>i < n. tent (u - real i) * g i)"

definition bilinear :: "(jint \<Rightarrow> jint) \<Rightarrow> jint list \<Rightarrow> nat \<Rightarrow> nat \<Rightarrow> nat \<Rightarrow> real \<Rightarrow> real \<Rightarrow> real" where
  "bilinear c img scan w h u v = tent_sum h (\<lambda>j. tent_sum w (\<lambda>i. of_int (c (img ! (j * scan + i)))) u) v"

lemma tent_outside: "1 \<le> \<bar>t\<bar> \<Longrightarrow> tent t = 0"
  by (simp add: tent_def)

text \<open>At most two pixels of a line have a weight.\<close>

lemma tent_sum_eq:
  fixes X :: real and n :: nat
  defines "m \<equiv> nat \<lfloor>X\<rfloor>" and "f \<equiv> X - of_int \<lfloor>X\<rfloor>"
  shows "tent_sum n g (X - 1) = (if 0 < X \<and> \<lfloor>X\<rfloor> \<le> int n then (if m < n then f * g m else 0) + (if 0 < m then (1 - f) * g (m - 1) else 0) else 0)"
proof (cases "0 < X \<and> \<lfloor>X\<rfloor> \<le> int n")
  case True
  then have m: "of_int \<lfloor>X\<rfloor> = real m" "m \<le> n" and f: "0 \<le> f" "f < 1" "X = real m + f"
    unfolding m_def f_def by (simp_all, linarith+)
  define t where "t = (\<lambda>i. tent (X - 1 - real i) * g i)"
  have far: "t i = 0" if "i \<noteq> m" "i + 1 \<noteq> m" for i
  proof -
    have "i + 1 < m \<or> m < i" using that by linarith
    then have "1 \<le> \<bar>X - 1 - real i\<bar>" using f by auto
    then show ?thesis by (simp add: t_def tent_outside)
  qed
  have near: "t m = f * g m" "0 < m \<Longrightarrow> t (m - 1) = (1 - f) * g (m - 1)" using f by (simp_all add: t_def tent_def of_nat_diff)
  have "tent_sum n g (X - 1) = sum t {..<n}" by (simp add: tent_sum_def t_def)
  also have "\<dots> = sum t ({i. i = m \<and> m < n} \<union> {i. i + 1 = m})"
  proof (rule sum.mono_neutral_right)
    show "\<forall>i \<in> {..<n} - ({i. i = m \<and> m < n} \<union> {i. i + 1 = m}). t i = 0"
    proof
      fix i assume "i \<in> {..<n} - ({i. i = m \<and> m < n} \<union> {i. i + 1 = m})"
      then have "i \<noteq> m" "i + 1 \<noteq> m" by auto
      then show "t i = 0" by (rule far)
    qed
  qed (use m(2) in auto)
  also have "\<dots> = sum t {i. i = m \<and> m < n} + sum t {i. i + 1 = m}"
    by (rule sum.union_disjoint) (auto intro: finite_subset [of _ "{..m}"])
  also have "sum t {i. i = m \<and> m < n} = (if m < n then f * g m else 0)" using near(1) by (auto simp: Collect_conv_if)
  also have "sum t {i. i + 1 = m} = (if 0 < m then (1 - f) * g (m - 1) else 0)"
  proof (cases "0 < m")
    case True
    then have "{i. i + 1 = m} = {m - 1}" by auto
    with True near(2) show ?thesis by simp
  qed simp
  finally show ?thesis using True by simp
next
  case False
  have "tent (X - 1 - real i) = 0" if "i < n" for i
  proof (rule tent_outside)
    have "X \<le> 0 \<or> real n + 1 \<le> X" using False by linarith
    with that show "1 \<le> \<bar>X - 1 - real i\<bar>" by auto
  qed
  then show ?thesis unfolding if_not_P [OF False] by (simp add: tent_sum_def)
qed

text \<open>A channel of the sums together with the channel of a pixel.\<close>

definition channel_pair :: "(real fvals \<Rightarrow> real) \<Rightarrow> (jint \<Rightarrow> jint) \<Rightarrow> bool" where
  "channel_pair sel c \<longleftrightarrow> (sel, c) \<in> {(FVAL_R, px_R), (FVAL_G, px_G), (FVAL_B, px_B), (FVAL_A, px_A)}"

lemma laccum_exact: "channel_pair sel c \<Longrightarrow> sel (laccum exact_arith p mul fv) = sel fv + of_int (c p) * (mul / 255)"
  by (auto simp: channel_pair_def laccum_def exact_arith_simps Let_def)

lemma exact_ops:
  "f_mul exact_arith = (*)" "f_add exact_arith = (+)" "f_sub exact_arith = (-)" "f_of_jint exact_arith = of_int" "(of_int 1 :: real) = 1" "(of_int 0 :: real) = 0"
  "f_less exact_arith = (<)"
  by (simp_all add: exact_arith_simps)

lemma sample_box_exact:
  fixes M N :: nat
  assumes ok: "image_ok img scan w h" and c: "channel_pair sel c" and le: "M \<le> w" "N \<le> h"
    and run: "sample_box exact_arith (\<lambda>offset weight. laccum_at exact_arith img offset (weight * F)) (int w) (int h) (i32 (int scan * 1)) 1 (int M) (int N) fx fy
      (i32 (1 * (int N * int scan + int M))) fv = Some fv'"
  defines "p \<equiv> \<lambda>i j. real_of_int (c (img ! (j * scan + i)))"
  defines "G \<equiv> \<lambda>j. (if M < w then fx * p M j else 0) + (if 0 < M then (1 - fx) * p (M - 1) j else 0)"
  shows "sel fv' = sel fv + F / 255 * ((if N < h then fy * G N else 0) + (if 0 < N then (1 - fy) * G (N - 1) else 0))"
proof -
  have rd: "laccum_at exact_arith img (i32 (1 * (y * int scan + x))) mul s = Some (laccum exact_arith (img ! (nat y * scan + nat x)) mul s)"
    if xy: "0 \<le> x" "x < int w" "0 \<le> y" "y < int h" for x y mul s
  proof -
    define q where "q = nat y * scan + nat x"
    have q: "q < length img" "length img < 2147483648" using ok xy by (auto simp: image_ok_def q_def)
    have "1 * (y * int scan + x) = int q" using xy by (simp add: q_def)
    then show ?thesis unfolding q_def [symmetric] laccum_at_def using q i32_int [of q] by (simp add: aget_def)
  qed
  have n: "nat (int M - 1) = M - 1" "nat (int N - 1) = N - 1" by simp_all
  have rd1: "laccum_at exact_arith img (i32 (1 * (int N * int scan + int M))) mul s = Some (laccum exact_arith (img ! (N * scan + M)) mul s)" if "M < w" "N < h" for mul s
    by (rule rd [of "int M" "int N", unfolded nat_int]) (use that in linarith)+
  have rd2: "laccum_at exact_arith img (i32 (1 * (int N * int scan + (int M - 1)))) mul s = Some (laccum exact_arith (img ! (N * scan + (M - 1))) mul s)"
    if "0 < M" "N < h" for mul s by (rule rd [of "int M - 1" "int N", unfolded nat_int n]) (use that le in linarith)+
  have rd3: "laccum_at exact_arith img (i32 (1 * ((int N - 1) * int scan + int M))) mul s = Some (laccum exact_arith (img ! ((N - 1) * scan + M)) mul s)"
    if "M < w" "0 < N" for mul s by (rule rd [of "int M" "int N - 1", unfolded nat_int n]) (use that le in linarith)+
  have rd4: "laccum_at exact_arith img (i32 (1 * ((int N - 1) * int scan + (int M - 1)))) mul s = Some (laccum exact_arith (img ! ((N - 1) * scan + (M - 1))) mul s)"
    if "0 < M" "0 < N" for mul s by (rule rd [of "int M - 1" "int N - 1", unfolded nat_int n]) (use that le in linarith)+
  define ac where "ac = (\<lambda>b q mul s. if b then laccum exact_arith (img ! q) (mul * F) s else s)"
  have run': "fv' = ac (0 < M \<and> 0 < N) ((N - 1) * scan + (M - 1)) (1 - fx - fy + fx * fy) (ac (M < w \<and> 0 < N) ((N - 1) * scan + M) (fx - fx * fy)
      (ac (0 < M \<and> N < h) (N * scan + (M - 1)) (fy - fx * fy) (ac (M < w \<and> N < h) (N * scan + M) (fx * fy) fv)))"
    using run unfolding sample_box_def Let_def box_offsets of_nat_less_iff of_nat_0_less_iff
    by (cases "M < w"; cases "0 < M"; cases "N < h"; cases "0 < N")
      (simp_all only: ac_def rd1 rd2 rd3 rd4 if_True if_False simp_thms Option.bind.bind_lunit option.inject exact_ops)
  have sel: "sel (ac b q mul s) = sel s + F / 255 * (if b then mul * of_int (c (img ! q)) else 0)" for b q mul s
    by (simp add: ac_def laccum_exact [OF c])
  show ?thesis
    unfolding run' sel G_def p_def
    by (cases "M < w"; cases "0 < M"; cases "N < h"; cases "0 < N") (simp_all add: algebra_simps)
qed

lemma exact_cast: "0 < x \<Longrightarrow> f_to_jint exact_arith x = \<lfloor>x\<rfloor>"
  by (simp add: exact_arith_simps)

lemma cast_ok_exact: "cast_ok exact_arith"
  by (simp add: cast_ok_def exact_arith_simps)

lemma sample_at_exact:
  assumes ok: "image_ok img scan w h"
  shows "\<exists>fv'. sample_at exact_arith (\<lambda>offset weight. laccum_at exact_arith img offset (weight * F)) (int w) (int h) (int scan) 1 X Y fv = Some fv'
    \<and> (\<forall>sel c. channel_pair sel c \<longrightarrow> sel fv' = sel fv + F / 255 * bilinear c img scan w h (X - 1) (Y - 1))"
proof -
  let ?acc = "\<lambda>offset weight. laccum_at exact_arith img offset (weight * F)"
  obtain fv' where fv': "sample_at exact_arith ?acc (int w) (int h) (int scan) 1 X Y fv = Some fv'"
    using pixels.sample_safe [OF ok cast_ok_exact, where g = "\<lambda>weight. weight * F" and af = exact_arith and x = X and y = Y and s = fv] by auto
  have "sel fv' = sel fv + F / 255 * bilinear c img scan w h (X - 1) (Y - 1)" if c: "channel_pair sel c" for sel c
  proof (cases "0 < X \<and> 0 < Y \<and> \<lfloor>X\<rfloor> \<le> int w \<and> \<lfloor>Y\<rfloor> \<le> int h")
    case True
    define M N where "M = nat \<lfloor>X\<rfloor>" and "N = nat \<lfloor>Y\<rfloor>"
    have XY: "0 < X" "0 < Y" "\<lfloor>X\<rfloor> = int M" "\<lfloor>Y\<rfloor> = int N" "M \<le> w" "N \<le> h" using True by (auto simp: M_def N_def)
    have "sample_box exact_arith ?acc (int w) (int h) (i32 (int scan * 1)) 1 (int M) (int N) (X - of_int (int M)) (Y - of_int (int N)) (i32 (1 * (int N * int scan + int M))) fv = Some fv'"
      using fv' XY(1,2,5,6) unfolding sample_at_def Let_def exact_ops exact_cast [OF XY(1)] exact_cast [OF XY(2)] XY(3,4) by simp
    note run = sample_box_exact [OF ok c XY(5,6) this]
    show ?thesis
      unfolding run bilinear_def tent_sum_eq [of h _ Y] tent_sum_eq [of w _ X] XY(3,4) nat_int using XY(1,2,5,6) by simp
  next
    case False
    then have "\<not> (0 < X \<and> \<lfloor>X\<rfloor> \<le> int w) \<or> \<not> (0 < Y \<and> \<lfloor>Y\<rfloor> \<le> int h)" by blast
    then have "bilinear c img scan w h (X - 1) (Y - 1) = 0"
      unfolding bilinear_def tent_sum_eq [of w _ X] tent_sum_eq [of h _ Y] by (elim disjE) (simp_all only: if_False mult_zero_right if_cancel add_0_left)
    moreover have "fv' = fv" using fv' False exact_cast unfolding sample_at_def Let_def exact_ops by (auto split: if_splits)
    ultimately show ?thesis by simp
  qed
  with fv' show ?thesis by blast
qed

text \<open>
  The samplers read only the image. Whatever the arithmetic rounds to, as long as the conversion of a positive number to \<open>int\<close> is not negative,
  the three samplers return for every position, far outside the image or not, without an access outside the pixels that the image holds.
\<close>

theorem sampling_safe:
  assumes "cast_ok fl"
  shows "(image_ok img scan w h \<longrightarrow> (\<exists>fv. lsample fl img x y (int w) (int h) (int scan) = Some fv)
      \<and> (\<exists>fv. laccumsample fl img x y (int w) (int h) (int scan) factor fv0 = Some fv))
    \<and> (fmap_ok fmap scan w h \<longrightarrow> (\<exists>fv. fsample fl fmap x y (int w) (int h) (int scan) = Some fv))"
  using pixels.sample_safe [OF _ assms, where g = "\<lambda>weight. weight" and af = fl, of img scan w h]
    pixels.sample_safe [OF _ assms, where g = "\<lambda>weight. f_mul fl weight (f_mul fl factor (f_of_jint fl 255))" and af = fl, of img scan w h]
    floats.sample_safe [OF _ assms, where af = fl, of fmap scan w h]
  unfolding lsample_def laccumsample_def fsample_def Let_def by simp

theorem sampling_safe_witness:
  "\<exists>fv. lsample exact_arith [7, 8, 9] (-5) 1000 1 3 1 = Some fv"
proof -
  have "image_ok [7, 8, 9] 1 1 3" by (simp add: image_ok_def)
  then show ?thesis using sampling_safe [OF cast_ok_exact, of "[7, 8, 9]" 1 1 3 "-5" 1000] by simp
qed



text \<open>The conversion of the x86 processors, which gives the least \<open>int\<close> for a number that no \<open>int\<close> holds.\<close>

definition x86_arith :: "(real, real) arith" where
  "x86_arith = exact_arith\<lparr>f_to_jint := (\<lambda>x. let n = f_to_jint exact_arith x in if is_i32 n then n else - (2 ^ 31))\<rparr>"

text \<open>
  The condition on the conversion is needed, and the processors that the code is built for do not meet it. With the conversion of x86 a position that is
  2147483648 or more pixels to the right of a row of the image passes the test against the width, because the converted number is negative, and \<open>lsample\<close>
  reads in front of the image.
\<close>

theorem sampling_far_right_crashes:
  assumes "image_ok img scan w h" "0 < w" "2147483648 \<le> x * real w + 1 / 2" "0 < y * real h + 1 / 2" "y * real h + 1 / 2 < real h"
  shows "lsample x86_arith img x y (int w) (int h) (int scan) = None"
proof -
  define X Y where "X = x * real w + 1 / 2" and "Y = y * real h + 1 / 2"
  define N where "N = nat \<lfloor>Y\<rfloor>"
  have N: "\<lfloor>Y\<rfloor> = int N" "N < h" using assms(4,5) by (auto simp: N_def Y_def floor_less_iff nat_less_iff)
  have "N * scan + 0 < length img" "length img < 2147483648" using assms(1,2) N(2) unfolding image_ok_def by blast+
  then have off: "N * scan < 2147483648" by simp
  have "2147483648 \<le> \<lfloor>X\<rfloor>" "0 < X" using assms(3) by (simp_all add: X_def le_floor_iff)
  then have cx: "f_to_jint x86_arith X = - 2147483648" by (simp add: x86_arith_def exact_cast is_i32_def Let_def)
  have "int N < 2147483648"
  proof (cases "scan = 0")
    case True
    with assms(1,2) show ?thesis by (simp add: image_ok_def)
  next
    case False
    then have "N \<le> N * scan" by simp
    with off show ?thesis by linarith
  qed
  then have cy: "f_to_jint x86_arith Y = int N" using N assms(4) by (simp add: x86_arith_def exact_cast is_i32_def Let_def Y_def)
  have "i32 (1 * (int N * int scan + - 2147483648)) = int (N * scan) - 2147483648" using off by (subst i32_id) (auto simp: is_i32_def simp flip: of_nat_mult)
  then have "aget img (i32 (1 * (int N * int scan + - 2147483648))) = None" using off by (simp add: aget_def flip: of_nat_mult)
  moreover have "f_add x86_arith (f_mul x86_arith x (f_of_jint x86_arith (int w))) (f_half x86_arith) = X" "f_add x86_arith (f_mul x86_arith y (f_of_jint x86_arith (int h))) (f_half x86_arith) = Y"
    "f_less x86_arith (f_of_jint x86_arith 0) X" "f_less x86_arith (f_of_jint x86_arith 0) Y"
    using \<open>0 < X\<close> assms(4) by (simp_all add: X_def Y_def x86_arith_def exact_arith_simps f_half_def)
  ultimately show ?thesis
    using N(2) by (simp add: lsample_def sample_at_def sample_box_def laccum_at_def cx cy Let_def)
qed

theorem sampling_far_right_crashes_witness: "lsample x86_arith [7, 7] 2147483648 (1 / 4) 1 2 1 = None"
  using sampling_far_right_crashes [of "[7, 7]" 1 1 2 2147483648 "1 / 4"] by (simp add: image_ok_def)

end
