(* ===== verification/DecoraConvolve.thy ===== *)
theory DecoraConvolve
  imports DecoraSample
begin

unbundle bit_operations_syntax

text \<open>
  The linear convolutions of the effects, \<open>native-decora/SSELinearConvolvePeer.cc\<close> and \<open>SSELinearConvolveShadowPeer.cc\<close>: a Gaussian blur and its shadow are two passes of
  \<open>filterHV\<close>, one along the rows and one along the columns; \<open>filterVector\<close> convolves along any line. \<open>filterHV\<close> keeps the last pixels in a ring and reads the
  weights from a doubled array, so that one offset aligns them with the ring.
\<close>

section \<open>Model\<close>

subsection \<open>Bytes\<close>

definition cmin :: "('f, 'd, 'z) arith_scheme \<Rightarrow> 'f" where
  "cmin fl = f_of_jint fl 1"

definition cmax :: "('f, 'd, 'z) arith_scheme \<Rightarrow> 'f" where
  "cmax fl = f_sub fl (f_of_jint fl 255) (f_div fl (f_of_jint fl 1) (f_of_jint fl 32))"

definition fvaltobyte :: "('f, 'd, 'z) arith_scheme \<Rightarrow> 'f \<Rightarrow> jint" where
  "fvaltobyte fl f = (if f_less fl f (cmin fl) then 0 else if f_less fl (cmax fl) f then 255 else f_to_jint fl f)"

definition fvals_pixel :: "('f, 'd, 'z) arith_scheme \<Rightarrow> 'f fvals \<Rightarrow> jint" where
  "fvals_pixel fl fvals =
     i32 (push_bit 24 (fvaltobyte fl (FVAL_A fvals)) + push_bit 16 (fvaltobyte fl (FVAL_R fvals)) + push_bit 8 (fvaltobyte fl (FVAL_G fvals))
       + fvaltobyte fl (FVAL_B fvals))"

subsection \<open>Any line\<close>

text \<open>The loops over the rows and the columns of \<open>filterVector\<close>; \<open>pixel srcx srcy\<close> is the colour of a pixel.\<close>

definition vector_loop ::
    "('f, 'd, 'z) arith_scheme \<Rightarrow> ('f \<Rightarrow> 'f \<Rightarrow> jint option) \<Rightarrow> jint list \<Rightarrow> jint \<Rightarrow> jint \<Rightarrow> jint \<Rightarrow> 'f \<Rightarrow> 'f \<Rightarrow> 'f \<Rightarrow> 'f \<Rightarrow> 'f \<Rightarrow> 'f \<Rightarrow> jint list option" where
  "vector_loop fl pixel dstPixels dstw dsth dstscan srcx0 srcy0 dxcol dycol dxrow dyrow =
     (let srcx0 = f_add fl srcx0 (f_mul fl (f_add fl dxrow dxcol) (f_half fl));
          srcy0 = f_add fl srcy0 (f_mul fl (f_add fl dyrow dycol) (f_half fl))
      in do { (_, _, _, dstPixels) \<leftarrow> iter_opt (nat dsth) (\<lambda>(dstrow, srcx0, srcy0, dstPixels).
                do { (_, _, _, dstPixels) \<leftarrow> iter_opt (nat dstw) (\<lambda>(dx, srcx, srcy, dstPixels).
                       do { p \<leftarrow> pixel srcx srcy;
                            dstPixels \<leftarrow> aset dstPixels (i32 (dstrow + dx)) p;
                            Some (dx + 1, f_add fl srcx dxcol, f_add fl srcy dycol, dstPixels) }) (0, srcx0, srcy0, dstPixels);
                     Some (i32 (dstrow + dstscan), f_add fl srcx0 dxrow, f_add fl srcy0 dyrow, dstPixels) }) (0, srcx0, srcy0, dstPixels);
              Some dstPixels })"

definition vector_pixel ::
    "('f, 'd, 'z) arith_scheme \<Rightarrow> jint list \<Rightarrow> jint \<Rightarrow> jint \<Rightarrow> jint \<Rightarrow> 'f list \<Rightarrow> jint \<Rightarrow> 'f \<Rightarrow> 'f \<Rightarrow> 'f \<Rightarrow> 'f \<Rightarrow> 'f \<Rightarrow> 'f \<Rightarrow> jint option" where
  "vector_pixel fl srcPixels srcw srch srcscan weights count offsetx offsety deltax deltay srcx srcy =
     do { (_, _, _, fvals) \<leftarrow> iter_opt (nat count) (\<lambda>(i, sampx, sampy, fvals).
            do { weight \<leftarrow> aget weights i;
                 fvals \<leftarrow> laccumsample fl srcPixels sampx sampy srcw srch srcscan weight fvals;
                 Some (i + 1, f_add fl sampx deltax, f_add fl sampy deltay, fvals) }) (0, f_add fl srcx offsetx, f_add fl srcy offsety, no_fvals fl);
          Some (fvals_pixel fl fvals) }"

text \<open>\<open>weights_arr\<close> is copied to an array of 128 floats; the first \<open>count\<close> of them are read.\<close>

definition filterVector ::
    "('f, 'd, 'z) arith_scheme \<Rightarrow> bool \<Rightarrow> jint list \<Rightarrow> jint \<Rightarrow> jint \<Rightarrow> jint \<Rightarrow> jint list \<Rightarrow> jint \<Rightarrow> jint \<Rightarrow> jint \<Rightarrow> 'f list \<Rightarrow> jint
      \<Rightarrow> 'f \<Rightarrow> 'f \<Rightarrow> 'f \<Rightarrow> 'f \<Rightarrow> 'f \<Rightarrow> 'f \<Rightarrow> 'f \<Rightarrow> 'f \<Rightarrow> 'f \<Rightarrow> 'f \<Rightarrow> jint list option" where
  "filterVector fl pinned dstPixels dstw dsth dstscan srcPixels srcw srch srcscan weights_arr count srcx0 srcy0 offsetx offsety deltax deltay dxcol dycol dxrow dyrow =
     (if 128 < count then Some dstPixels
      else if \<not> pinned then Some dstPixels
      else vector_loop fl (vector_pixel fl srcPixels srcw srch srcscan weights_arr count offsetx offsety deltax deltay)
             dstPixels dstw dsth dstscan srcx0 srcy0 dxcol dycol dxrow dyrow)"

text \<open>The shadow takes the alpha of the nearest pixel; \<open>shadowColor\<close> is red, green, blue, alpha.\<close>

definition shadow_rgb :: "('f, 'd, 'z) arith_scheme \<Rightarrow> 'f list \<Rightarrow> 'f \<Rightarrow> jint option" where
  "shadow_rgb fl shadowColor v =
     do { c0 \<leftarrow> aget shadowColor 0; c1 \<leftarrow> aget shadowColor 1; c2 \<leftarrow> aget shadowColor 2; c3 \<leftarrow> aget shadowColor 3;
          Some (i32 (push_bit 16 (f_to_jint fl (f_mul fl c0 v)) OR push_bit 8 (f_to_jint fl (f_mul fl c1 v)) OR f_to_jint fl (f_mul fl c2 v)
                  OR push_bit 24 (f_to_jint fl (f_mul fl c3 v)))) }"

definition shadow_sample :: "('f, 'd) float_arith \<Rightarrow> jint list \<Rightarrow> jint \<Rightarrow> jint \<Rightarrow> jint \<Rightarrow> 'f \<Rightarrow> 'f \<Rightarrow> 'f \<Rightarrow> 'f \<Rightarrow> 'f option" where
  "shadow_sample fl srcPixels srcw srch srcscan sampx sampy weight tot =
     (if f_le fl (f_of_jint fl 0) sampx \<and> f_le fl (f_of_jint fl 0) sampy then
        let ix = f_to_jint fl sampx; iy = f_to_jint fl sampy
        in if ix < srcw \<and> iy < srch then
             do { argb \<leftarrow> aget srcPixels (i32 (iy * srcscan + ix));
                  Some (f_add fl tot (f_mul fl (f_of_jint fl (px_A argb)) weight)) }
           else Some tot
      else Some tot)"

definition shadow_vector_pixel ::
    "('f, 'd) float_arith \<Rightarrow> jint list \<Rightarrow> jint \<Rightarrow> jint \<Rightarrow> jint \<Rightarrow> 'f list \<Rightarrow> jint \<Rightarrow> 'f list \<Rightarrow> 'f \<Rightarrow> 'f \<Rightarrow> 'f \<Rightarrow> 'f \<Rightarrow> 'f \<Rightarrow> 'f \<Rightarrow> jint option" where
  "shadow_vector_pixel fl srcPixels srcw srch srcscan weights count shadowColor offsetx offsety deltax deltay srcx srcy =
     do { (_, _, _, tot) \<leftarrow> iter_opt (nat count) (\<lambda>(i, sampx, sampy, tot).
            do { weight \<leftarrow> aget weights i;
                 tot \<leftarrow> shadow_sample fl srcPixels srcw srch srcscan sampx sampy weight tot;
                 Some (i + 1, f_add fl sampx deltax, f_add fl sampy deltay, tot) }) (0, f_add fl srcx offsetx, f_add fl srcy offsety, f_of_jint fl 0);
          let tot = (if f_less fl tot (f_of_jint fl 0) then f_of_jint fl 0 else if f_less fl (f_of_jint fl 255) tot then f_of_jint fl 255 else tot);
          shadow_rgb fl shadowColor tot }"

definition shadow_filterVector ::
    "('f, 'd) float_arith \<Rightarrow> bool \<Rightarrow> jint list \<Rightarrow> jint \<Rightarrow> jint \<Rightarrow> jint \<Rightarrow> jint list \<Rightarrow> jint \<Rightarrow> jint \<Rightarrow> jint \<Rightarrow> 'f list \<Rightarrow> jint
      \<Rightarrow> 'f \<Rightarrow> 'f \<Rightarrow> 'f \<Rightarrow> 'f \<Rightarrow> 'f \<Rightarrow> 'f \<Rightarrow> 'f list \<Rightarrow> 'f \<Rightarrow> 'f \<Rightarrow> 'f \<Rightarrow> 'f \<Rightarrow> jint list option" where
  "shadow_filterVector fl pinned dstPixels dstw dsth dstscan srcPixels srcw srch srcscan weights_arr count srcx0 srcy0 offsetx offsety deltax deltay shadowColor
       dxcol dycol dxrow dyrow =
     (if 128 < count then Some dstPixels
      else if \<not> pinned then Some dstPixels
      else vector_loop fl (shadow_vector_pixel fl srcPixels srcw srch srcscan weights_arr count shadowColor offsetx offsety deltax deltay)
             dstPixels dstw dsth dstscan srcx0 srcy0 dxcol dycol dxrow dyrow)"

subsection \<open>Rows or columns\<close>

text \<open>
  A pixel of the source goes into the ring at the position that \<open>koff\<close> leaves free, four cells per pixel; then \<open>koff\<close> moves so that weight
  \<open>kvals[koff + j]\<close> belongs to cell \<open>j\<close> of the ring. \<open>stack\<close> is what the local array \<open>cvals\<close> holds at the start of the call.
\<close>

definition load_cvals :: "('f, 'd, 'z) arith_scheme \<Rightarrow> jint \<Rightarrow> jint \<Rightarrow> 'f list \<Rightarrow> 'f list option" where
  "load_cvals fl i rgb cvals =
     do { cvals \<leftarrow> aset cvals i (f_of_jint fl (px_A rgb)); cvals \<leftarrow> aset cvals (i + 1) (f_of_jint fl (px_R rgb));
          cvals \<leftarrow> aset cvals (i + 2) (f_of_jint fl (px_G rgb)); aset cvals (i + 3) (f_of_jint fl (px_B rgb)) }"

definition bump_koff :: "jint \<Rightarrow> jint \<Rightarrow> jint" where
  "bump_koff kernelSize koff = (if koff - 1 \<le> 0 then koff - 1 + kernelSize else koff - 1)"

definition ring_sums :: "('f, 'd, 'z) arith_scheme \<Rightarrow> jint \<Rightarrow> 'f list \<Rightarrow> jint \<Rightarrow> 'f list \<Rightarrow> 'f fvals option" where
  "ring_sums fl kernelSize kvals koff cvals =
     do { (_, fvs) \<leftarrow> span (\<lambda>i fvs.
            do { factor \<leftarrow> aget kvals (koff + drop_bit 2 i);
                 a \<leftarrow> aget cvals i; r \<leftarrow> aget cvals (i + 1); g \<leftarrow> aget cvals (i + 2); b \<leftarrow> aget cvals (i + 3);
                 Some \<lparr>FVAL_R = f_add fl (FVAL_R fvs) (f_mul fl r factor), FVAL_G = f_add fl (FVAL_G fvs) (f_mul fl g factor),
                       FVAL_B = f_add fl (FVAL_B fvs) (f_mul fl b factor), FVAL_A = f_add fl (FVAL_A fvs) (f_mul fl a factor)\<rparr> })
            4 0 (kernelSize * 4) (no_fvals fl);
          Some fvs }"

text \<open>
  The loops over the columns and the rows, which the filter and its shadow share: \<open>load i rgb\<close> puts a pixel into place \<open>i\<close> of the ring, \<open>emit koff\<close> is the colour
  of a ring.
\<close>

definition ring_column ::
    "(jint \<Rightarrow> jint \<Rightarrow> 'r \<Rightarrow> 'r option) \<Rightarrow> (jint \<Rightarrow> 'r \<Rightarrow> jint option) \<Rightarrow> jint \<Rightarrow> jint \<Rightarrow> jint list \<Rightarrow> jint \<Rightarrow> jint
      \<Rightarrow> jint \<times> jint \<times> jint \<times> jint \<times> 'r \<times> jint list \<Rightarrow> (jint \<times> jint \<times> jint \<times> jint \<times> 'r \<times> jint list) option" where
  "ring_column load emit kernelSize dcolinc srcPixels srccols scolinc = (\<lambda>(c, srcoff, dstoff, koff, ring, dstPixels).
     do { rgb \<leftarrow> (if c < srccols then aget srcPixels srcoff else Some 0);
          ring \<leftarrow> load (kernelSize - koff) rgb ring;
          let koff = bump_koff kernelSize koff;
          p \<leftarrow> emit koff ring;
          dstPixels \<leftarrow> aset dstPixels dstoff p;
          Some (c + 1, i32 (srcoff + scolinc), i32 (dstoff + dcolinc), koff, ring, dstPixels) })"

definition ring_rows ::
    "('r \<Rightarrow> 'r option) \<Rightarrow> (jint \<Rightarrow> jint \<Rightarrow> 'r \<Rightarrow> 'r option) \<Rightarrow> (jint \<Rightarrow> 'r \<Rightarrow> jint option) \<Rightarrow> jint \<Rightarrow> 'r \<Rightarrow> jint list \<Rightarrow> jint \<Rightarrow> jint \<Rightarrow> jint \<Rightarrow> jint
      \<Rightarrow> jint list \<Rightarrow> jint \<Rightarrow> jint \<Rightarrow> jint \<Rightarrow> jint list option" where
  "ring_rows clear load emit kernelSize stack dstPixels dstcols dstrows dcolinc drowinc srcPixels srccols scolinc srowinc =
     do { (_, _, _, dstPixels) \<leftarrow> iter_opt (nat dstrows) (\<lambda>(dstrow, srcrow, ring, dstPixels).
            do { ring \<leftarrow> clear ring;
                 (_, _, _, _, ring, dstPixels) \<leftarrow> iter_opt (nat dstcols) (ring_column load emit kernelSize dcolinc srcPixels srccols scolinc)
                   (0, srcrow, dstrow, kernelSize, ring, dstPixels);
                 Some (i32 (dstrow + drowinc), i32 (srcrow + srowinc), ring, dstPixels) }) (0, 0, stack, dstPixels);
          Some dstPixels }"

definition hv_emit :: "('f, 'd, 'z) arith_scheme \<Rightarrow> jint \<Rightarrow> 'f list \<Rightarrow> jint \<Rightarrow> 'f list \<Rightarrow> jint option" where
  "hv_emit fl kernelSize kvals koff cvals = do { fvs \<leftarrow> ring_sums fl kernelSize kvals koff cvals; Some (fvals_pixel fl fvs) }"

definition hv_clear :: "('f, 'd, 'z) arith_scheme \<Rightarrow> jint \<Rightarrow> 'f list \<Rightarrow> 'f list option" where
  "hv_clear fl n cvals = do { (_, cvals) \<leftarrow> span (\<lambda>i cvals. aset cvals i (f_of_jint fl 0)) 1 0 n cvals; Some cvals }"

definition filterHV ::
    "('f, 'd, 'z) arith_scheme \<Rightarrow> bool \<Rightarrow> 'f list \<Rightarrow> jint list \<Rightarrow> jint \<Rightarrow> jint \<Rightarrow> jint \<Rightarrow> jint \<Rightarrow> jint list \<Rightarrow> jint \<Rightarrow> jint \<Rightarrow> jint \<Rightarrow> jint \<Rightarrow> 'f list
      \<Rightarrow> jint list option" where
  "filterHV fl pinned stack dstPixels dstcols dstrows dcolinc drowinc srcPixels srccols srcrows scolinc srowinc kvals_arr =
     (let kernelSize = int (length kvals_arr) div 2
      in if 128 < kernelSize then Some dstPixels
         else if \<not> pinned then Some dstPixels
         else let kvals = take (nat (kernelSize * 2)) kvals_arr
              in ring_rows (hv_clear fl (kernelSize * 4)) (\<lambda>i. load_cvals fl (i * 4)) (hv_emit fl kernelSize kvals) kernelSize stack
                   dstPixels dstcols dstrows dcolinc drowinc srcPixels srccols scolinc srowinc)"

text \<open>The shadow has a ring of alphas, and a table of the 256 colours of the shadow.\<close>

definition shadow_table :: "('f, 'd, 'z) arith_scheme \<Rightarrow> 'f list \<Rightarrow> jint list option" where
  "shadow_table fl shadowColor =
     do { (_, t) \<leftarrow> iter_opt 256 (\<lambda>(i, t). do { p \<leftarrow> shadow_rgb fl shadowColor (f_of_jint fl i); Some (i + 1, t @ [p]) }) (0, []);
          Some t }"

definition alpha_sum :: "('f, 'd, 'z) arith_scheme \<Rightarrow> jint \<Rightarrow> 'f list \<Rightarrow> jint \<Rightarrow> 'f list \<Rightarrow> 'f option" where
  "alpha_sum fl kernelSize kvals koff avals =
     do { (_, tot) \<leftarrow> span (\<lambda>i tot.
            do { a \<leftarrow> aget avals i; k \<leftarrow> aget kvals (koff + i); Some (f_add fl tot (f_mul fl a k)) }) 1 0 kernelSize (f_neg fl (f_half fl));
          Some tot }"

definition shadow_lookup :: "('f, 'd) float_arith \<Rightarrow> jint list \<Rightarrow> 'f \<Rightarrow> jint option" where
  "shadow_lookup fl shadowRGBs tot =
     (if f_less fl tot (f_of_jint fl 0) then Some 0
      else if f_le fl (f_of_jint fl 254) tot then aget shadowRGBs 255
      else aget shadowRGBs (i32 (f_to_jint fl tot + 1)))"

definition load_avals :: "('f, 'd, 'z) arith_scheme \<Rightarrow> jint \<Rightarrow> jint \<Rightarrow> 'f list \<Rightarrow> 'f list option" where
  "load_avals fl i rgb avals = aset avals i (f_of_jint fl (px_A rgb))"

definition shadow_emit_at :: "('f, 'd) float_arith \<Rightarrow> jint list \<Rightarrow> jint \<Rightarrow> 'f list \<Rightarrow> jint \<Rightarrow> 'f list \<Rightarrow> jint option" where
  "shadow_emit_at fl shadowRGBs kernelSize kvals koff avals =
     do { tot \<leftarrow> alpha_sum fl kernelSize kvals koff avals; shadow_lookup fl shadowRGBs tot }"

definition shadow_filterHV ::
    "('f, 'd) float_arith \<Rightarrow> bool \<Rightarrow> 'f list \<Rightarrow> jint list \<Rightarrow> jint \<Rightarrow> jint \<Rightarrow> jint \<Rightarrow> jint \<Rightarrow> jint list \<Rightarrow> jint \<Rightarrow> jint \<Rightarrow> jint \<Rightarrow> jint \<Rightarrow> 'f list \<Rightarrow> 'f list
      \<Rightarrow> jint list option" where
  "shadow_filterHV fl pinned stack dstPixels dstcols dstrows dcolinc drowinc srcPixels srccols srcrows scolinc srowinc kvals_arr shadowColor =
     (let kernelSize = int (length kvals_arr) div 2
      in if 128 < kernelSize then Some dstPixels
         else do { shadowRGBs \<leftarrow> shadow_table fl shadowColor;
                   if \<not> pinned then Some dstPixels
                   else let kvals = take (nat (kernelSize * 2)) kvals_arr
                        in ring_rows (hv_clear fl kernelSize) (load_avals fl) (shadow_emit_at fl shadowRGBs kernelSize kvals) kernelSize stack
                             dstPixels dstcols dstrows dcolinc drowinc srcPixels srccols scolinc srowinc })"

section \<open>The ring\<close>

text \<open>The pixels in the ring after \<open>c\<close> columns of the line \<open>f\<close>.\<close>

primrec ring_of :: "(nat \<Rightarrow> jint) \<Rightarrow> nat \<Rightarrow> nat \<Rightarrow> jint list" where
  "ring_of f k 0 = replicate k 0"
| "ring_of f k (Suc c) = (ring_of f k c)[c mod k := f c]"

lemma ring_of_length [simp]: "length (ring_of f k c) = k"
  by (induction c) simp_all

text \<open>The pixel of \<open>t\<close> columns ago, and the place it has.\<close>

definition ago :: "(nat \<Rightarrow> jint) \<Rightarrow> nat \<Rightarrow> nat \<Rightarrow> jint" where
  "ago f c t = (if t \<le> c then f (c - t) else 0)"

definition place :: "nat \<Rightarrow> nat \<Rightarrow> nat \<Rightarrow> nat" where
  "place k c t = (c + k - t) mod k"

lemma place_cong:
  assumes "t < k"
  shows "int (place k c t) = (int c - int t) mod int k"
proof -
  have "int (c + k - t) = int c - int t + int k" using assms by simp
  then show ?thesis by (simp add: place_def zmod_int)
qed

lemma place_0: "place k c 0 = c mod k"
  by (simp add: place_def)

lemma place_inj: "inj_on (place k c) {..<k}"
proof (rule inj_onI)
  fix s t assume st: "s \<in> {..<k}" "t \<in> {..<k}" "place k c s = place k c t"
  then have "(int c - int s) mod int k = (int c - int t) mod int k" by (metis lessThan_iff place_cong)
  then have "int k dvd (int t - int s)" by (simp add: mod_eq_dvd_iff)
  moreover have "\<bar>int t - int s\<bar> < int k" using st by auto
  ultimately show "s = t" using dvd_imp_le_int [of "int t - int s" "int k"] by fastforce
qed

lemma place_lt: "0 < k \<Longrightarrow> place k c t < k"
  by (simp add: place_def)

lemma place_image:
  assumes "0 < k"
  shows "place k c ` {..<k} = {..<k}"
proof (rule card_subset_eq)
  show "card (place k c ` {..<k}) = card {..<k}" by (rule card_image [OF place_inj])
qed (use assms in \<open>auto simp: place_lt\<close>)

lemma ring_ago: "t < k \<Longrightarrow> ring_of f k (Suc c) ! place k c t = ago f c t"
proof (induction c arbitrary: t)
  case 0
  show ?case
  proof (cases "t = 0")
    case False
    then have "place k 0 t = k - t" using 0 by (simp add: place_def)
    then show ?thesis using 0 False by (simp add: ago_def nth_list_update)
  qed (use 0 in \<open>simp add: place_def ago_def\<close>)
next
  case (Suc c)
  show ?case
  proof (cases t)
    case 0
    then have "place k (Suc c) t = Suc c mod k" by (simp only: place_0)
    with Suc.prems 0 show ?thesis by (simp add: ago_def)
  next
    case (Suc u)
    have "place k (Suc c) t = place k c u" using Suc by (simp add: place_def)
    moreover have "place k (Suc c) t \<noteq> place k (Suc c) 0" using inj_onD [OF place_inj, of k "Suc c" t 0] Suc.prems Suc by auto
    then have "place k (Suc c) t \<noteq> Suc c mod k" unfolding place_0 .
    ultimately show ?thesis using Suc.IH [of u] Suc.prems Suc by (simp add: ago_def)
  qed
qed

lemma koff_step:
  assumes "0 < k"
  shows "bump_koff (int k) (int (k - c mod k)) = int (k - Suc c mod k)" "int k - int (k - c mod k) = int (c mod k)" "k - c mod k \<le> k" "0 < k - c mod k"
proof -
  have m: "c mod k < k" using assms by simp
  show "bump_koff (int k) (int (k - c mod k)) = int (k - Suc c mod k)"
    using m by (cases "Suc (c mod k) = k") (auto simp: bump_koff_def mod_Suc of_nat_diff)
qed (use assms in \<open>auto simp: of_nat_diff\<close>)

text \<open>The weight that meets the pixel of \<open>t\<close> columns ago.\<close>

lemma weight_at:
  assumes "t < k" "length ks = k"
  shows "(ks @ ks) ! (k - Suc c mod k + place k c t) = ks ! (k - 1 - t)"
proof -
  define q where "q = k - Suc c mod k + place k c t"
  have k: "0 < k" using assms(1) by simp
  have q: "q < 2 * k" using k place_lt [OF k, of c t] koff_step(3) [OF k, of "Suc c"] by (simp add: q_def)
  have "Suc c mod k \<le> k" using k by (simp add: less_imp_le)
  then have "int q = int k - int (Suc c mod k) + int (place k c t)" by (simp only: q_def of_nat_add of_nat_diff)
  then have "int q mod int k = (int k - int (Suc c mod k) + (int c - int t) mod int k) mod int k" by (simp only: place_cong [OF assms(1)])
  also have "\<dots> = (int k - int (Suc c) + (int c - int t)) mod int k" unfolding zmod_int by (rule mod_add_cong) (simp_all only: mod_diff_right_eq mod_mod_trivial)
  also have "\<dots> = (int k - 1 - int t) mod int k" by (simp add: algebra_simps)
  also have "\<dots> = int (k - 1 - t)" using assms(1) by (simp add: of_nat_diff)
  finally have "q mod k = k - 1 - t" by (simp flip: zmod_int)
  moreover have "(ks @ ks) ! q = ks ! (q mod k)"
  proof (cases "q < k")
    case False
    then have "q mod k = q - k" using q k by (simp add: le_mod_geq)
    with False show ?thesis by (simp add: nth_append assms(2))
  qed (simp add: nth_append assms(2))
  ultimately show ?thesis by (simp add: q_def)
qed

section \<open>Lines of an image\<close>

text \<open>\<open>rows\<close> lines of \<open>cols\<close> pixels, the pixels \<open>ci\<close> and the lines \<open>ri\<close> cells apart: the rows of an image, or its columns.\<close>

definition grid_ok :: "jint list \<Rightarrow> nat \<Rightarrow> nat \<Rightarrow> nat \<Rightarrow> nat \<Rightarrow> bool" where
  "grid_ok p ri ci rows cols \<longleftrightarrow> length p < 2147483648 \<and> inj_on (\<lambda>(r, c). r * ri + c * ci) ({..<rows} \<times> {..<cols})
     \<and> (\<forall>r < rows. \<forall>c < cols. r * ri + c * ci < length p)"

definition grid_of :: "jint list \<Rightarrow> nat \<Rightarrow> nat \<Rightarrow> nat \<Rightarrow> nat \<Rightarrow> (nat \<Rightarrow> nat \<Rightarrow> jint) \<Rightarrow> jint list \<Rightarrow> bool" where
  "grid_of d ri ci rows cols px d' \<longleftrightarrow> length d' = length d \<and> (\<forall>r < rows. \<forall>c < cols. d' ! (r * ri + c * ci) = px r c)
     \<and> (\<forall>p < length d. (\<forall>r < rows. \<forall>c < cols. p \<noteq> r * ri + c * ci) \<longrightarrow> d' ! p = d ! p)"

lemma image_rows: "image_ok p scan w h \<Longrightarrow> grid_ok p scan 1 h w"
proof -
  assume ok: "image_ok p scan w h"
  have "inj_on (\<lambda>(r, c). r * scan + c * 1) ({..<h} \<times> {..<w})"
  proof (rule inj_onI, clarify)
    fix r c r' c' assume "c < w" "c' < w" and e: "r * scan + c * 1 = r' * scan + c' * 1"
    then have "c < scan" "c' < scan" using ok by (auto simp: image_ok_def)
    then have "(r * scan + c) div scan = r" "(r' * scan + c') div scan = r'" by simp_all
    with e show "r = r' \<and> c = c'" by simp
  qed
  with ok show ?thesis by (simp add: grid_ok_def image_ok_def)
qed

lemma image_cols: "image_ok p scan w h \<Longrightarrow> grid_ok p 1 scan w h"
proof -
  assume ok: "image_ok p scan w h"
  have "inj_on (\<lambda>(r, c). r * 1 + c * scan) ({..<w} \<times> {..<h})"
  proof (rule inj_onI, clarify)
    fix r c r' c' assume "r < w" "r' < w" and e: "r * 1 + c * scan = r' * 1 + c' * scan"
    then have "r < scan" "r' < scan" using ok by (auto simp: image_ok_def)
    then have "(r + c * scan) div scan = c" "(r' + c' * scan) div scan = c'" by simp_all
    with e show "r = r' \<and> c = c'" by simp
  qed
  moreover have "r + c * scan < length p" if "r < w" "c < h" for r c using ok that by (simp add: image_ok_def add.commute)
  ultimately show ?thesis using ok by (simp add: grid_ok_def image_ok_def)
qed

definition grid_cells :: "nat \<Rightarrow> nat \<Rightarrow> nat \<Rightarrow> nat \<Rightarrow> nat set" where
  "grid_cells ri ci rows cols = {p. \<exists>r < rows. \<exists>c < cols. p = r * ri + c * ci}"

lemma grid_cells_Suc: "grid_cells ri ci (Suc r) cols = (\<lambda>c. r * ri + c * ci) ` {..<cols} \<union> grid_cells ri ci r cols"
  by (auto simp: grid_cells_def less_Suc_eq)

lemma filled_grid:
  assumes "grid_ok d ri ci rows cols" "\<And>r c. r < rows \<Longrightarrow> c < cols \<Longrightarrow> g (r * ri + c * ci) = px r c"
  shows "grid_of d ri ci rows cols px (filled d (grid_cells ri ci rows cols) g)"
proof -
  have "filled d (grid_cells ri ci rows cols) g ! (r * ri + c * ci) = px r c" if "r < rows" "c < cols" for r c
    using assms that by (auto simp: filled_nth grid_ok_def grid_cells_def)
  then show ?thesis by (auto simp: grid_of_def filled_nth grid_cells_def)
qed

text \<open>A function on the cells for one on the lines and pixels.\<close>

lemma grid_function:
  assumes "grid_ok d ri ci rows cols"
  obtains g where "\<And>r c. r < rows \<Longrightarrow> c < cols \<Longrightarrow> g (r * ri + c * ci) = px r c"
proof
  let ?pos = "\<lambda>(r, c). r * ri + c * ci"
  fix r c assume rc: "r < rows" "c < cols"
  have "the_inv_into ({..<rows} \<times> {..<cols}) ?pos (?pos (r, c)) = (r, c)"
    using assms rc by (intro the_inv_into_f_f) (auto simp: grid_ok_def)
  then show "(case the_inv_into ({..<rows} \<times> {..<cols}) ?pos (r * ri + c * ci) of (r, c) \<Rightarrow> px r c) = px r c" by simp
qed

section \<open>Filters with a ring\<close>

text \<open>
  What the loops rely on of a ring of \<open>k\<close> places: \<open>rep L s\<close> says that the store \<open>s\<close> holds the pixels \<open>L\<close>. A ring can be cleared, loaded at a place, and read with
  an offset for the weights, which gives the colour \<open>out\<close>.
\<close>

locale pixel_ring =
  fixes clear :: "'r \<Rightarrow> 'r option" and load :: "jint \<Rightarrow> jint \<Rightarrow> 'r \<Rightarrow> 'r option" and emit :: "jint \<Rightarrow> 'r \<Rightarrow> jint option"
    and usable :: "'r \<Rightarrow> bool" and rep :: "jint list \<Rightarrow> 'r \<Rightarrow> bool" and out :: "nat \<Rightarrow> jint list \<Rightarrow> jint" and k :: nat
  assumes clear_ring: "usable s \<Longrightarrow> \<exists>s'. clear s = Some s' \<and> rep (replicate k 0) s'"
    and load_ring: "rep L s \<Longrightarrow> length L = k \<Longrightarrow> i < k \<Longrightarrow> \<exists>s'. load (int i) p s = Some s' \<and> rep (L[i := p]) s'"
    and emit_ring: "rep L s \<Longrightarrow> length L = k \<Longrightarrow> 0 < koff \<Longrightarrow> koff \<le> k \<Longrightarrow> emit (int koff) s = Some (out koff L)"
    and rep_usable: "rep L s \<Longrightarrow> usable s"
    and places: "usable s \<Longrightarrow> 0 < k"
begin

lemma column_step:
  assumes src: "\<And>c. c < sc \<Longrightarrow> r * sri + c * sci < length src" "length src < 2147483648" and dst: "r * ri + c * ci < length d" "length d < 2147483648"
    and f: "f = (\<lambda>i. if i < sc then src ! (r * sri + i * sci) else 0)"
    and rep: "rep (ring_of f k c) s" and g: "g (r * ri + c * ci) = out (k - Suc c mod k) (ring_of f k (Suc c))"
  shows "\<exists>s'. ring_column load emit (int k) (int ci) src (int sc) (int sci)
      (int c, i32 (int (r * sri + c * sci)), i32 (int (r * ri + c * ci)), int (k - c mod k), s, filled d V g)
    = Some (int (Suc c), i32 (int (r * sri + Suc c * sci)), i32 (int (r * ri + Suc c * ci)), int (k - Suc c mod k), s', filled d (insert (r * ri + c * ci) V) g)
    \<and> rep (ring_of f k (Suc c)) s'"
proof -
  have k: "0 < k" using places [OF rep_usable [OF rep]] .
  note ko = koff_step [OF k]
  have rd: "(if int c < int sc then aget src (i32 (int (r * sri + c * sci))) else Some 0) = Some (f c)"
  proof (cases "c < sc")
    case True
    then show ?thesis using src(1) [OF True] src(2) i32_int [of "r * sri + c * sci"] by (simp add: f aget_def flip: of_nat_add of_nat_mult)
  qed (simp add: f)
  from load_ring [OF rep ring_of_length mod_less_divisor [OF k], of c "f c"]
  obtain s' where s': "load (int (c mod k)) (f c) s = Some s'" "rep (ring_of f k (Suc c)) s'" by auto
  have em: "emit (int (k - Suc c mod k)) s' = Some (out (k - Suc c mod k) (ring_of f k (Suc c)))"
    by (rule emit_ring [OF s'(2) ring_of_length]) (use ko(3,4) in auto)
  have w: "aset (filled d V g) (i32 (int (r * ri + c * ci))) (out (k - Suc c mod k) (ring_of f k (Suc c))) = Some (filled d (insert (r * ri + c * ci) V) g)"
    using dst i32_int [of "r * ri + c * ci"] by (intro aset_filled) (auto simp: g)
  have n: "i32 (i32 (int (a + c * b)) + int b) = i32 (int (a + Suc c * b))" for a b unfolding i32_add_wrap by (simp add: algebra_simps)
  show ?thesis
    using s'(2) by (intro exI [of _ s']) (simp only: ring_column_def prod.case rd ko(1,2) s'(1) em w n Option.bind.bind_lunit Let_def, simp)
qed

lemma columns_run:
  assumes src: "\<And>c. c < sc \<Longrightarrow> r * sri + c * sci < length src" "length src < 2147483648" and dst: "\<And>c. c < cols \<Longrightarrow> r * ri + c * ci < length d" "length d < 2147483648"
    and f: "f = (\<lambda>i. if i < sc then src ! (r * sri + i * sci) else 0)"
    and g: "\<And>c. c < cols \<Longrightarrow> g (r * ri + c * ci) = out (k - Suc c mod k) (ring_of f k (Suc c))" and rep: "rep (replicate k 0) s"
  shows "\<exists>x s'. iter_opt cols (ring_column load emit (int k) (int ci) src (int sc) (int sci))
      (0, i32 (int (r * sri)), i32 (int (r * ri)), int k, s, filled d V g) = Some x
    \<and> (\<exists>a b c e. x = (a, b, c, e, s', filled d ((\<lambda>c. r * ri + c * ci) ` {..<cols} \<union> V) g)) \<and> usable s'"
proof -
  let ?I = "\<lambda>c st. \<exists>s'. st = (int c, i32 (int (r * sri + c * sci)), i32 (int (r * ri + c * ci)), int (k - c mod k), s', filled d ((\<lambda>c. r * ri + c * ci) ` {..<c} \<union> V) g)
    \<and> rep (ring_of f k c) s'"
  have "\<exists>x. iter_opt cols (ring_column load emit (int k) (int ci) src (int sc) (int sci))
      (0, i32 (int (r * sri)), i32 (int (r * ri)), int k, s, filled d V g) = Some x \<and> ?I cols x"
  proof (rule iter_opt_counter_inv [where I = ?I])
    fix c st assume c: "c < cols" and "?I c st"
    then obtain s1 where st: "st = (int c, i32 (int (r * sri + c * sci)), i32 (int (r * ri + c * ci)), int (k - c mod k), s1, filled d ((\<lambda>c. r * ri + c * ci) ` {..<c} \<union> V) g)"
      and s1: "rep (ring_of f k c) s1" by blast
    have V: "insert (r * ri + c * ci) ((\<lambda>c. r * ri + c * ci) ` {..<c} \<union> V) = (\<lambda>c. r * ri + c * ci) ` {..<Suc c} \<union> V" by (auto simp: lessThan_Suc)
    show "\<exists>st'. ring_column load emit (int k) (int ci) src (int sc) (int sci) st = Some st' \<and> ?I (Suc c) st'"
      using column_step [where r = r and c = c and sc = sc and sri = sri and sci = sci and ri = ri and ci = ci and g = g and V = "(\<lambda>c. r * ri + c * ci) ` {..<c} \<union> V",
          OF src dst(1) [OF c] dst(2) f s1 g [OF c]] unfolding st V by blast
  qed (use rep in auto)
  then show ?thesis using rep_usable by blast
qed

lemma rows_grid:
  assumes src: "\<And>r c. r < rows \<Longrightarrow> c < sc \<Longrightarrow> r * sri + c * sci < length src" "length src < 2147483648" and dst: "grid_ok d ri ci rows cols" and s: "usable stack"
  shows "\<exists>d'. ring_rows clear load emit (int k) stack d (int cols) (int rows) (int ci) (int ri) src (int sc) (int sci) (int sri) = Some d'
    \<and> grid_of d ri ci rows cols (\<lambda>r c. out (k - Suc c mod k) (ring_of (\<lambda>i. if i < sc then src ! (r * sri + i * sci) else 0) k (Suc c))) d'"
proof -
  let ?px = "\<lambda>r c. out (k - Suc c mod k) (ring_of (\<lambda>i. if i < sc then src ! (r * sri + i * sci) else 0) k (Suc c))"
  obtain g where g: "\<And>r c. r < rows \<Longrightarrow> c < cols \<Longrightarrow> g (r * ri + c * ci) = ?px r c" using grid_function [OF dst, of ?px] by blast
  let ?body = "\<lambda>(dstrow, srcrow, ring, dstPixels). do { ring \<leftarrow> clear ring;
      (_, _, _, _, ring, dstPixels) \<leftarrow> iter_opt cols (ring_column load emit (int k) (int ci) src (int sc) (int sci)) (0, srcrow, dstrow, int k, ring, dstPixels);
      Some (i32 (dstrow + int ri), i32 (srcrow + int sri), ring, dstPixels) }"
  let ?I = "\<lambda>r st. \<exists>s. st = (i32 (int (r * ri)), i32 (int (r * sri)), s, filled d (grid_cells ri ci r cols) g) \<and> usable s"
  have "\<exists>x. iter_opt rows ?body (0, 0, stack, d) = Some x \<and> ?I rows x"
  proof (rule iter_opt_counter_inv [where I = ?I])
    fix r st assume r: "r < rows" and "?I r st"
    then obtain s where st: "st = (i32 (int (r * ri)), i32 (int (r * sri)), s, filled d (grid_cells ri ci r cols) g)" and "usable s" by blast
    from clear_ring [OF \<open>usable s\<close>] obtain s1 where s1: "clear s = Some s1" "rep (replicate k 0) s1" by blast
    have "\<And>c. c < cols \<Longrightarrow> r * ri + c * ci < length d" "length d < 2147483648" using dst r by (auto simp: grid_ok_def)
    then have "\<exists>x s'. iter_opt cols (ring_column load emit (int k) (int ci) src (int sc) (int sci))
        (0, i32 (int (r * sri)), i32 (int (r * ri)), int k, s1, filled d (grid_cells ri ci r cols) g) = Some x
      \<and> (\<exists>a b c e. x = (a, b, c, e, s', filled d ((\<lambda>c. r * ri + c * ci) ` {..<cols} \<union> grid_cells ri ci r cols) g)) \<and> usable s'"
      by (intro columns_run [where sri = sri]) (use src(1) [OF r] src(2) g [OF r] s1(2) in auto)
    then
    show "\<exists>st'. ?body st = Some st' \<and> ?I (Suc r) st'"
      unfolding st prod.case s1(1) Option.bind.bind_lunit grid_cells_Suc by (elim exE conjE) (simp only: Option.bind.bind_lunit prod.case i32_next, blast)
  qed (use s in \<open>auto simp: grid_cells_def i32_small\<close>)
  then obtain a b c where "iter_opt rows ?body (0, 0, stack, d) = Some (a, b, c, filled d (grid_cells ri ci rows cols) g)" by blast
  moreover have "grid_of d ri ci rows cols ?px (filled d (grid_cells ri ci rows cols) g)" using dst g by (rule filled_grid)
  ultimately show ?thesis unfolding ring_rows_def nat_int by auto
qed

end

subsection \<open>The two rings\<close>

lemma span_steps:
  assumes "0 < st" "\<And>j s. j < n \<Longrightarrow> body (int (st * j)) s = Some (F j s)" "m \<le> n"
  shows "span body (int st) (int (st * m)) (int (st * n)) s = Some (int (st * n), foldl (\<lambda>s j. F j s) s [m..<n])"
  using assms(3)
proof (induction "n - m" arbitrary: m s)
  case (Suc d)
  then have m: "m < n" by simp
  have "int (st * m) + int st = int (st * Suc m)" by simp
  moreover have "int (st * m) < int (st * n)" using m assms(1) by (simp only: of_nat_less_iff mult_less_cancel1)
  ultimately have "span body (int st) (int (st * m)) (int (st * n)) s = span body (int st) (int (st * Suc m)) (int (st * n)) (F m s)"
    using span_step [of "int (st * m)" "int (st * n)" "int st" body s] assms(1) assms(2) [OF m] by (simp only:) simp
  then show ?case using Suc.hyps(1) [of "Suc m" "F m s"] Suc.hyps(2) m by (simp add: upt_conv_Cons)
qed simp

definition add_weighted :: "('f, 'd, 'z) arith_scheme \<Rightarrow> jint \<Rightarrow> 'f \<Rightarrow> 'f fvals \<Rightarrow> 'f fvals" where
  "add_weighted fl p factor fvs =
     \<lparr>FVAL_R = f_add fl (FVAL_R fvs) (f_mul fl (f_of_jint fl (px_R p)) factor), FVAL_G = f_add fl (FVAL_G fvs) (f_mul fl (f_of_jint fl (px_G p)) factor),
      FVAL_B = f_add fl (FVAL_B fvs) (f_mul fl (f_of_jint fl (px_B p)) factor), FVAL_A = f_add fl (FVAL_A fvs) (f_mul fl (f_of_jint fl (px_A p)) factor)\<rparr>"

definition ring_fold :: "('f, 'd, 'z) arith_scheme \<Rightarrow> 'f list \<Rightarrow> nat \<Rightarrow> jint list \<Rightarrow> 'f fvals" where
  "ring_fold fl kvals koff L = foldl (\<lambda>fvs j. add_weighted fl (L ! j) (kvals ! (koff + j)) fvs) (no_fvals fl) [0..<length L]"

definition hv_usable :: "'f list \<Rightarrow> nat \<Rightarrow> 'f list \<Rightarrow> bool" where
  "hv_usable kvals k s \<longleftrightarrow> 0 < k \<and> k \<le> 128 \<and> length kvals = 2 * k \<and> length s = 512"

definition hv_rep :: "('f, 'd, 'z) arith_scheme \<Rightarrow> 'f list \<Rightarrow> nat \<Rightarrow> jint list \<Rightarrow> 'f list \<Rightarrow> bool" where
  "hv_rep fl kvals k L s \<longleftrightarrow> hv_usable kvals k s \<and> (\<forall>j < k. s ! (4 * j) = f_of_jint fl (px_A (L ! j)) \<and> s ! (4 * j + 1) = f_of_jint fl (px_R (L ! j))
     \<and> s ! (4 * j + 2) = f_of_jint fl (px_G (L ! j)) \<and> s ! (4 * j + 3) = f_of_jint fl (px_B (L ! j)))"

lemma hv_clear_run:
  assumes "n \<le> length s"
  shows "hv_clear fl (int n) s = Some (replicate n (f_of_jint fl 0) @ drop n s)"
proof -
  have "\<exists>s'. span (\<lambda>i cvals. aset cvals i (f_of_jint fl 0)) 1 (int m) (int n) (replicate m (f_of_jint fl 0) @ drop m s) = Some (int n, s')
      \<and> s' = replicate n (f_of_jint fl 0) @ drop n s" if "m \<le> n" for m
    using that
  proof (induction "n - m" arbitrary: m)
    case (Suc d)
    have "drop m s = s ! m # drop (Suc m) s" using Suc assms by (simp add: Cons_nth_drop_Suc)
    then have "(replicate m (f_of_jint fl 0) @ drop m s)[m := f_of_jint fl 0] = replicate (Suc m) (f_of_jint fl 0) @ drop (Suc m) s"
      by (simp add: list_update_append replicate_app_Cons_same)
    then have "aset (replicate m (f_of_jint fl 0) @ drop m s) (int m) (f_of_jint fl 0) = Some (replicate (Suc m) (f_of_jint fl 0) @ drop (Suc m) s)"
      using Suc assms by (simp add: aset_def)
    then show ?case using Suc.hyps(1) [of "Suc m"] Suc.hyps(2) span_step [of "int m" "int n" 1 "\<lambda>i cvals. aset cvals i (f_of_jint fl 0)"] by (simp add: add.commute)
  qed auto
  from this [of 0] show ?thesis by (auto simp: hv_clear_def)
qed

lemma load_cvals_run:
  assumes "4 * i + 3 < length s"
  shows "load_cvals fl (int i * 4) p s = Some (s[4 * i := f_of_jint fl (px_A p), 4 * i + 1 := f_of_jint fl (px_R p), 4 * i + 2 := f_of_jint fl (px_G p), 4 * i + 3 := f_of_jint fl (px_B p)])"
proof -
  have n: "nat (int i * 4) = 4 * i" "nat (int i * 4 + 1) = 4 * i + 1" "nat (int i * 4 + 2) = 4 * i + 2" "nat (int i * 4 + 3) = 4 * i + 3" by (simp_all add: nat_add_distrib nat_mult_distrib)
  show ?thesis using assms by (simp add: load_cvals_def aset_def n)
qed

lemma ring_sums_run:
  assumes rep: "hv_rep fl kvals k L s" and L: "length L = k" and koff: "koff \<le> k"
  shows "ring_sums fl (int k) kvals (int koff) s = Some (ring_fold fl kvals koff L)"
proof -
  have u: "length kvals = 2 * k" "length s = 512" "k \<le> 128" using rep by (auto simp: hv_rep_def hv_usable_def)
  let ?body = "\<lambda>i fvs. do { factor \<leftarrow> aget kvals (int koff + drop_bit 2 i); a \<leftarrow> aget s i; r \<leftarrow> aget s (i + 1); g \<leftarrow> aget s (i + 2); b \<leftarrow> aget s (i + 3);
    Some \<lparr>FVAL_R = f_add fl (FVAL_R fvs) (f_mul fl r factor), FVAL_G = f_add fl (FVAL_G fvs) (f_mul fl g factor),
          FVAL_B = f_add fl (FVAL_B fvs) (f_mul fl b factor), FVAL_A = f_add fl (FVAL_A fvs) (f_mul fl a factor)\<rparr> }"
  have step: "?body (int (4 * j)) fvs = Some (add_weighted fl (L ! j) (kvals ! (koff + j)) fvs)" if j: "j < k" for j fvs
  proof -
    have ag: "aget s (int q) = Some (s ! q)" if "q < 512" for q using that u(2) by (simp add: aget_def)
    have "drop_bit 2 (int (4 * j)) = int j" by (simp add: drop_bit_eq_div)
    then have "aget kvals (int koff + drop_bit 2 (int (4 * j))) = Some (kvals ! (koff + j))" using j koff u(1) by (simp add: aget_def nat_add_distrib)
    moreover have "aget s (int (4 * j)) = Some (s ! (4 * j))" "aget s (int (4 * j) + 1) = Some (s ! (4 * j + 1))" "aget s (int (4 * j) + 2) = Some (s ! (4 * j + 2))"
      "aget s (int (4 * j) + 3) = Some (s ! (4 * j + 3))"
      using ag [of "4 * j"] ag [of "4 * j + 1"] ag [of "4 * j + 2"] ag [of "4 * j + 3"] j u(3) by (simp_all add: add.commute)
    ultimately show ?thesis using rep j unfolding hv_rep_def add_weighted_def by simp
  qed
  have "span ?body (int 4) (int (4 * 0)) (int (4 * k)) (no_fvals fl) = Some (int (4 * k), foldl (\<lambda>fvs j. add_weighted fl (L ! j) (kvals ! (koff + j)) fvs) (no_fvals fl) [0..<k])"
    by (rule span_steps [where F = "\<lambda>j. add_weighted fl (L ! j) (kvals ! (koff + j))"]) (use step in auto)
  then show ?thesis by (simp add: ring_sums_def ring_fold_def L mult.commute)
qed

interpretation colour_ring: pixel_ring "hv_clear fl (int k * 4)" "\<lambda>i. load_cvals fl (i * 4)" "hv_emit fl (int k) kvals" "hv_usable kvals k" "hv_rep fl kvals k"
  "\<lambda>koff L. fvals_pixel fl (ring_fold fl kvals koff L)" k for fl kvals k
proof
  fix s :: "'a list" assume u: "hv_usable kvals k s"
  then have "hv_clear fl (int (4 * k)) s = Some (replicate (4 * k) (f_of_jint fl 0) @ drop (4 * k) s)" by (intro hv_clear_run) (simp add: hv_usable_def)
  moreover have "hv_rep fl kvals k (replicate k 0) (replicate (4 * k) (f_of_jint fl 0) @ drop (4 * k) s)"
    using u by (simp add: hv_rep_def hv_usable_def nth_append)
  ultimately show "\<exists>s'. hv_clear fl (int k * 4) s = Some s' \<and> hv_rep fl kvals k (replicate k 0) s'" by (simp add: mult.commute)
next
  fix L s i p assume a: "hv_rep fl kvals k L s" "length L = k" "i < k"
  then have "load_cvals fl (int i * 4) p s = Some (s[4 * i := f_of_jint fl (px_A p), 4 * i + 1 := f_of_jint fl (px_R p), 4 * i + 2 := f_of_jint fl (px_G p), 4 * i + 3 := f_of_jint fl (px_B p)])"
    by (intro load_cvals_run) (simp add: hv_rep_def hv_usable_def)
  moreover have "hv_rep fl kvals k (L[i := p]) (s[4 * i := f_of_jint fl (px_A p), 4 * i + 1 := f_of_jint fl (px_R p), 4 * i + 2 := f_of_jint fl (px_G p), 4 * i + 3 := f_of_jint fl (px_B p)])"
    using a unfolding hv_rep_def hv_usable_def by (auto simp: nth_list_update)
  ultimately show "\<exists>s'. load_cvals fl (int i * 4) p s = Some s' \<and> hv_rep fl kvals k (L[i := p]) s'" by blast
qed (auto simp: hv_emit_def ring_sums_run, auto simp: hv_rep_def hv_usable_def)

text \<open>
  What the shadow relies on of the arithmetic and its weights to stay in its table: the sums stay among numbers of which those that are neither below 0 nor at least
  254 convert to one from 0 to 254. (With IEEE arithmetic these are all numbers but NaN, which the sums cannot reach from weights of moderate size.)
\<close>

definition lookup_ok :: "('f, 'd) float_arith \<Rightarrow> 'f list \<Rightarrow> bool" where
  "lookup_ok fl kvals \<longleftrightarrow> (\<exists>N. f_neg fl (f_half fl) \<in> N
     \<and> (\<forall>s \<in> N. \<forall>w \<in> set kvals. \<forall>a. is_chan a \<longrightarrow> f_add fl s (f_mul fl (f_of_jint fl a) w) \<in> N)
     \<and> (\<forall>x \<in> N. \<not> f_less fl x (f_of_jint fl 0) \<and> \<not> f_le fl (f_of_jint fl 254) x \<longrightarrow> 0 \<le> f_to_jint fl x \<and> f_to_jint fl x \<le> 254))"

definition alpha_fold :: "('f, 'd, 'z) arith_scheme \<Rightarrow> 'f list \<Rightarrow> nat \<Rightarrow> jint list \<Rightarrow> 'f" where
  "alpha_fold fl kvals koff L = foldl (\<lambda>s j. f_add fl s (f_mul fl (f_of_jint fl (px_A (L ! j))) (kvals ! (koff + j)))) (f_neg fl (f_half fl)) [0..<length L]"

definition table_entry :: "('f, 'd) float_arith \<Rightarrow> jint list \<Rightarrow> 'f \<Rightarrow> jint" where
  "table_entry fl T x =
     (if f_less fl x (f_of_jint fl 0) then 0 else if f_le fl (f_of_jint fl 254) x then T ! 255 else T ! nat (f_to_jint fl x + 1))"

definition shadow_usable :: "('f, 'd) float_arith \<Rightarrow> jint list \<Rightarrow> 'f list \<Rightarrow> nat \<Rightarrow> 'f list \<Rightarrow> bool" where
  "shadow_usable fl T kvals k s \<longleftrightarrow> 0 < k \<and> k \<le> 128 \<and> length kvals = 2 * k \<and> length s = 128 \<and> length T = 256 \<and> lookup_ok fl kvals"

definition shadow_rep :: "('f, 'd) float_arith \<Rightarrow> jint list \<Rightarrow> 'f list \<Rightarrow> nat \<Rightarrow> jint list \<Rightarrow> 'f list \<Rightarrow> bool" where
  "shadow_rep fl T kvals k L s \<longleftrightarrow> shadow_usable fl T kvals k s \<and> (\<forall>j < k. s ! j = f_of_jint fl (px_A (L ! j)))"

lemma alpha_fold_range:
  assumes "lookup_ok fl kvals" "koff + length L \<le> length kvals"
  shows "\<not> f_less fl (alpha_fold fl kvals koff L) (f_of_jint fl 0) \<and> \<not> f_le fl (f_of_jint fl 254) (alpha_fold fl kvals koff L) \<longrightarrow>
    0 \<le> f_to_jint fl (alpha_fold fl kvals koff L) \<and> f_to_jint fl (alpha_fold fl kvals koff L) \<le> 254"
proof -
  from assms(1) obtain N where N: "f_neg fl (f_half fl) \<in> N" "\<And>s w a. s \<in> N \<Longrightarrow> w \<in> set kvals \<Longrightarrow> is_chan a \<Longrightarrow> f_add fl s (f_mul fl (f_of_jint fl a) w) \<in> N"
    "\<And>x. x \<in> N \<Longrightarrow> \<not> f_less fl x (f_of_jint fl 0) \<and> \<not> f_le fl (f_of_jint fl 254) x \<longrightarrow> 0 \<le> f_to_jint fl x \<and> f_to_jint fl x \<le> 254"
    unfolding lookup_ok_def by blast
  have "foldl (\<lambda>s j. f_add fl s (f_mul fl (f_of_jint fl (px_A (L ! j))) (kvals ! (koff + j)))) (f_neg fl (f_half fl)) [0..<n] \<in> N" if "n \<le> length L" for n
    using that by (induction n) (use N(1,2) assms(2) in auto)
  then show ?thesis using N(3) unfolding alpha_fold_def by blast
qed

lemma shadow_emit_run:
  assumes rep: "shadow_rep fl T kvals k L s" and L: "length L = k" and koff: "koff \<le> k"
  shows "shadow_emit_at fl T (int k) kvals (int koff) s = Some (table_entry fl T (alpha_fold fl kvals koff L))"
proof -
  have u: "length kvals = 2 * k" "length s = 128" "k \<le> 128" "length T = 256" "lookup_ok fl kvals" using rep by (auto simp: shadow_rep_def shadow_usable_def)
  let ?x = "alpha_fold fl kvals koff L"
  let ?F = "\<lambda>j x. f_add fl x (f_mul fl (f_of_jint fl (px_A (L ! j))) (kvals ! (koff + j)))"
  let ?body = "\<lambda>i x. do { a \<leftarrow> aget s i; k \<leftarrow> aget kvals (int koff + i); Some (f_add fl x (f_mul fl a k)) }"
  have step: "?body (int (1 * j)) x = Some (?F j x)" if j: "j < k" for j x
  proof -
    have "aget kvals (int (koff + j)) = Some (kvals ! (koff + j))" using j koff u(1) by (simp only: aget_def nat_int of_nat_less_iff of_nat_0_le_iff) simp
    moreover have "aget s (int j) = Some (s ! j)" using j u(2,3) by (simp add: aget_def)
    ultimately show ?thesis using rep j by (simp add: shadow_rep_def)
  qed
  have "span ?body (int 1) (int (1 * 0)) (int (1 * k)) (f_neg fl (f_half fl)) = Some (int (1 * k), foldl (\<lambda>x j. ?F j x) (f_neg fl (f_half fl)) [0..<k])"
    by (rule span_steps [where F = ?F]) (use step in auto)
  then have sum: "alpha_sum fl (int k) kvals (int koff) s = Some (alpha_fold fl kvals koff L)" by (simp add: alpha_sum_def alpha_fold_def L)
  from alpha_fold_range [OF u(5), of koff L] u(1) L koff have x: "\<not> f_less fl ?x (f_of_jint fl 0) \<and> \<not> f_le fl (f_of_jint fl 254) ?x \<Longrightarrow> 0 \<le> f_to_jint fl ?x \<and> f_to_jint fl ?x \<le> 254" by simp
  have "shadow_lookup fl T ?x = Some (table_entry fl T ?x)"
  proof (cases "f_less fl ?x (f_of_jint fl 0) \<or> f_le fl (f_of_jint fl 254) ?x")
    case False
    then have "0 \<le> f_to_jint fl ?x" "f_to_jint fl ?x \<le> 254" using x by simp_all
    then show ?thesis using False u(4) by (simp add: shadow_lookup_def table_entry_def aget_def i32_small)
  qed (use u(4) in \<open>auto simp: shadow_lookup_def table_entry_def aget_def\<close>)
  with sum show ?thesis by (simp add: shadow_emit_at_def)
qed

interpretation alpha_ring: pixel_ring "hv_clear fl (int k)" "load_avals fl" "shadow_emit_at fl T (int k) kvals" "shadow_usable fl T kvals k" "shadow_rep fl T kvals k"
  "\<lambda>koff L. table_entry fl T (alpha_fold fl kvals koff L)" k for fl T kvals k
proof
  fix s :: "'a list" assume u: "shadow_usable fl T kvals k s"
  then have "hv_clear fl (int k) s = Some (replicate k (f_of_jint fl 0) @ drop k s)" by (intro hv_clear_run) (simp add: shadow_usable_def)
  moreover have "shadow_rep fl T kvals k (replicate k 0) (replicate k (f_of_jint fl 0) @ drop k s)"
    using u by (simp add: shadow_rep_def shadow_usable_def nth_append)
  ultimately show "\<exists>s'. hv_clear fl (int k) s = Some s' \<and> shadow_rep fl T kvals k (replicate k 0) s'" by blast
next
  fix L s i p assume a: "shadow_rep fl T kvals k L s" "length L = k" "i < k"
  then have "load_avals fl (int i) p s = Some (s[i := f_of_jint fl (px_A p)])" by (simp add: load_avals_def aset_def shadow_rep_def shadow_usable_def)
  moreover have "shadow_rep fl T kvals k (L[i := p]) (s[i := f_of_jint fl (px_A p)])"
    using a by (auto simp: shadow_rep_def shadow_usable_def nth_list_update)
  ultimately show "\<exists>s'. load_avals fl (int i) p s = Some s' \<and> shadow_rep fl T kvals k (L[i := p]) s'" by blast
qed (auto simp: shadow_emit_run, auto simp: shadow_rep_def shadow_usable_def)

section \<open>Rows and columns\<close>

lemma grid_of_unique: "grid_of d ri ci rows cols px a \<Longrightarrow> grid_of d ri ci rows cols px b \<Longrightarrow> a = b"
  unfolding grid_of_def by (intro nth_equalityI) (simp, metis)

lemma same_for_all:
  assumes "\<And>x. P x \<Longrightarrow> \<exists>y. f x = Some y \<and> Q y" "\<And>y z. Q y \<Longrightarrow> Q z \<Longrightarrow> y = z" "P x"
  shows "\<exists>y. (\<forall>x. P x \<longrightarrow> f x = Some y) \<and> Q y"
proof -
  obtain y where y: "Q y" using assms(1) [OF assms(3)] by blast
  moreover have "f z = Some y" if "P z" for z using assms(1) [OF that] assms(2) [OF y] by blast
  ultimately show ?thesis by blast
qed

lemma grid_frame:
  assumes "grid_of d ri ci rows cols px a"
  shows "length a = length d" "\<forall>p < length d. (\<forall>r < rows. \<forall>c < cols. p \<noteq> r * ri + c * ci) \<longrightarrow> a ! p = d ! p"
  using assms by (simp_all add: grid_of_def)

text \<open>The lines that a filter reads lie in the source.\<close>

definition lines_in :: "jint list \<Rightarrow> nat \<Rightarrow> nat \<Rightarrow> nat \<Rightarrow> nat \<Rightarrow> bool" where
  "lines_in src ri ci rows cols \<longleftrightarrow> length src < 2147483648 \<and> (\<forall>r < rows. \<forall>c < cols. r * ri + c * ci < length src)"

text \<open>A line of the source, transparent beyond its end.\<close>

definition line_of :: "jint list \<Rightarrow> nat \<Rightarrow> nat \<Rightarrow> nat \<Rightarrow> nat \<Rightarrow> nat \<Rightarrow> jint" where
  "line_of src ri ci cols r i = (if i < cols then src ! (r * ri + i * ci) else 0)"

lemma filterHV_run:
  assumes "0 < k" "k \<le> 128" "length kvals = 2 * k" "lines_in src sri sci rows sc" "grid_ok d ri ci rows cols"
  shows "\<exists>d'. (\<forall>stack. length stack = 512 \<longrightarrow>
      filterHV fl True stack d (int cols) (int rows) (int ci) (int ri) src (int sc) srcrows (int sci) (int sri) kvals = Some d')
    \<and> grid_of d ri ci rows cols (\<lambda>r c. fvals_pixel fl (ring_fold fl kvals (k - Suc c mod k) (ring_of (line_of src sri sci sc r) k (Suc c)))) d'"
proof -
  let ?px = "\<lambda>r c. fvals_pixel fl (ring_fold fl kvals (k - Suc c mod k) (ring_of (line_of src sri sci sc r) k (Suc c)))"
  let ?run = "\<lambda>stack. filterHV fl True stack d (int cols) (int rows) (int ci) (int ri) src (int sc) srcrows (int sci) (int sri) kvals"
  have line: "line_of src sri sci sc r = (\<lambda>i. if i < sc then src ! (r * sri + i * sci) else 0)" for r by (simp add: line_of_def fun_eq_iff)
  have run: "?run stack = ring_rows (hv_clear fl (int k * 4)) (\<lambda>i. load_cvals fl (i * 4)) (hv_emit fl (int k) kvals) (int k) stack
      d (int cols) (int rows) (int ci) (int ri) src (int sc) (int sci) (int sri)" for stack
    using assms(2) by (simp add: filterHV_def assms(3) nat_mult_distrib Let_def)
  have "\<exists>d'. ?run stack = Some d' \<and> grid_of d ri ci rows cols ?px d'" if "length stack = 512" for stack
    unfolding run line by (rule colour_ring.rows_grid) (use assms that in \<open>auto simp: lines_in_def hv_usable_def\<close>)
  then show ?thesis by (rule same_for_all) (assumption, erule (1) grid_of_unique, rule length_replicate)
qed

lemma shadow_rgb_total:
  assumes "4 \<le> length tone"
  shows "\<exists>p. shadow_rgb fl tone v = Some p"
proof -
  have "aget tone (int j) = Some (tone ! j)" if "j < 4" for j using that assms by (simp add: aget_def)
  from this [of 0] this [of 1] this [of 2] this [of 3] show ?thesis by (simp add: shadow_rgb_def)
qed

lemma shadow_table_run:
  assumes "4 \<le> length tone"
  shows "\<exists>t. shadow_table fl tone = Some t \<and> length t = 256 \<and> (\<forall>i < 256. shadow_rgb fl tone (f_of_jint fl (int i)) = Some (t ! i))"
proof -
  obtain rgb where rgb: "\<And>v. shadow_rgb fl tone v = Some (rgb v)" using shadow_rgb_total [OF assms, of fl] by metis
  let ?I = "\<lambda>n (st :: jint \<times> jint list). st = (int n, map (\<lambda>i. rgb (f_of_jint fl (int i))) [0..<n])"
  have "\<exists>st. iter_opt 256 (\<lambda>(i, t). do { p \<leftarrow> shadow_rgb fl tone (f_of_jint fl i); Some (i + 1, t @ [p]) }) (0, []) = Some st \<and> ?I 256 st"
    by (rule iter_opt_counter_inv [where I = ?I]) (auto simp: rgb)
  then have "shadow_table fl tone = Some (map (\<lambda>i. rgb (f_of_jint fl (int i))) [0..<256])" by (auto simp: shadow_table_def)
  then show ?thesis by (auto simp: rgb)
qed

lemma shadow_filterHV_run:
  assumes "0 < k" "k \<le> 128" "length kvals = 2 * k" "lines_in src sri sci rows sc" "grid_ok d ri ci rows cols" "lookup_ok fl kvals"
    and T: "shadow_table fl tone = Some T" "length T = 256"
  shows "\<exists>d'. (\<forall>stack. length stack = 128 \<longrightarrow>
      shadow_filterHV fl True stack d (int cols) (int rows) (int ci) (int ri) src (int sc) srcrows (int sci) (int sri) kvals tone = Some d')
    \<and> grid_of d ri ci rows cols (\<lambda>r c. table_entry fl T (alpha_fold fl kvals (k - Suc c mod k) (ring_of (line_of src sri sci sc r) k (Suc c)))) d'"
proof -
  let ?px = "\<lambda>r c. table_entry fl T (alpha_fold fl kvals (k - Suc c mod k) (ring_of (line_of src sri sci sc r) k (Suc c)))"
  let ?run = "\<lambda>stack. shadow_filterHV fl True stack d (int cols) (int rows) (int ci) (int ri) src (int sc) srcrows (int sci) (int sri) kvals tone"
  have line: "line_of src sri sci sc r = (\<lambda>i. if i < sc then src ! (r * sri + i * sci) else 0)" for r by (simp add: line_of_def fun_eq_iff)
  have run: "?run stack = ring_rows (hv_clear fl (int k)) (load_avals fl) (shadow_emit_at fl T (int k) kvals) (int k) stack
      d (int cols) (int rows) (int ci) (int ri) src (int sc) (int sci) (int sri)" for stack
    using assms(2) by (simp add: shadow_filterHV_def assms(3) T(1) nat_mult_distrib Let_def)
  have "\<exists>d'. ?run stack = Some d' \<and> grid_of d ri ci rows cols ?px d'" if "length stack = 128" for stack
    unfolding run line by (rule alpha_ring.rows_grid) (use assms that in \<open>auto simp: lines_in_def shadow_usable_def\<close>)
  then show ?thesis by (rule same_for_all) (assumption, erule (1) grid_of_unique, rule length_replicate)
qed

text \<open>
  C20: the convolutions along rows or columns stay in their arrays. For every kernel of 1 to 128 weights, whatever the arithmetic rounds to, both filters return,
  change only the pixels of the destination, and do not depend on what the local array held at the start: each line starts from a cleared ring. The shadow's index
  is in its table of 256 colours as long as the sums are numbers (\<open>lookup_ok\<close>).
\<close>

theorem convolve_safe:
  assumes "0 < k" "k \<le> 128" "length kvals = 2 * k" "lines_in src sri sci rows sc" "grid_ok d ri ci rows cols" "lookup_ok fl kvals" "4 \<le> length tone"
  shows "\<exists>a b. (\<forall>stack. length stack = 512 \<longrightarrow>
        filterHV fl True stack d (int cols) (int rows) (int ci) (int ri) src (int sc) srcrows (int sci) (int sri) kvals = Some a)
    \<and> (\<forall>stack. length stack = 128 \<longrightarrow>
        shadow_filterHV fl True stack d (int cols) (int rows) (int ci) (int ri) src (int sc) srcrows (int sci) (int sri) kvals tone = Some b)
    \<and> length a = length d \<and> length b = length d
    \<and> (\<forall>p < length d. (\<forall>r < rows. \<forall>c < cols. p \<noteq> r * ri + c * ci) \<longrightarrow> a ! p = d ! p \<and> b ! p = d ! p)"
proof -
  obtain T where T: "shadow_table fl tone = Some T" "length T = 256" using shadow_table_run [OF assms(7)] by blast
  obtain a where "\<forall>stack. length stack = 512 \<longrightarrow>
        filterHV fl True stack d (int cols) (int rows) (int ci) (int ri) src (int sc) srcrows (int sci) (int sri) kvals = Some a"
    and a: "grid_of d ri ci rows cols (\<lambda>r c. fvals_pixel fl (ring_fold fl kvals (k - Suc c mod k) (ring_of (line_of src sri sci sc r) k (Suc c)))) a"
    using filterHV_run [OF assms(1-5)] by blast
  moreover obtain b where "\<forall>stack. length stack = 128 \<longrightarrow>
        shadow_filterHV fl True stack d (int cols) (int rows) (int ci) (int ri) src (int sc) srcrows (int sci) (int sri) kvals tone = Some b"
    and b: "grid_of d ri ci rows cols (\<lambda>r c. table_entry fl T (alpha_fold fl kvals (k - Suc c mod k) (ring_of (line_of src sri sci sc r) k (Suc c)))) b"
    using shadow_filterHV_run [OF assms(1-6) T] by blast
  moreover note grid_frame [OF a] grid_frame [OF b]
  ultimately show ?thesis by (intro exI [of _ a] exI [of _ b] conjI) simp_all
qed

text \<open>A convolution of a line that starts with as many transparent pixels as the kernel reaches back.\<close>

definition convolved :: "(jint \<Rightarrow> jint) \<Rightarrow> real list \<Rightarrow> (nat \<Rightarrow> jint) \<Rightarrow> nat \<Rightarrow> real" where
  "convolved chan ks f c = (\<Sum>i < length ks. ks ! i * of_int (chan (if length ks \<le> c + 1 + i then f (c + 1 + i - length ks) else 0)))"

text \<open>A number as a byte: rounded down, with all above 255 - 1/32 as 255.\<close>

definition to_byte :: "real \<Rightarrow> jint" where
  "to_byte x = (if x < 1 then 0 else if 255 - 1 / 32 < x then 255 else \<lfloor>x\<rfloor>)"

lemma to_byte_chan: "is_chan (to_byte x)"
  by (auto simp: to_byte_def is_chan_def le_floor_iff floor_le_iff)

lemma to_byte_mono: "x \<le> y \<Longrightarrow> to_byte x \<le> to_byte y"
  using floor_mono [of x y] by (auto simp: to_byte_def le_floor_iff floor_le_iff)

lemma to_byte_int: "0 \<le> n \<Longrightarrow> n \<le> 255 \<Longrightarrow> to_byte (of_int n) = n"
  by (auto simp: to_byte_def)

lemma fvals_pixel_exact: "fvals_pixel exact_arith fv = pack (to_byte (FVAL_A fv)) (to_byte (FVAL_R fv)) (to_byte (FVAL_G fv)) (to_byte (FVAL_B fv))"
proof -
  have "fvaltobyte exact_arith x = to_byte x" for x by (auto simp: fvaltobyte_def cmin_def cmax_def to_byte_def exact_arith_simps)
  then show ?thesis by (simp only: fvals_pixel_def pack_sum to_byte_chan)
qed

text \<open>The sum over the ring is the sum over the line.\<close>

lemma ring_convolved:
  assumes "length ks = k" "0 < k" "chan 0 = 0"
  shows "(\<Sum>j < k. of_int (chan (ring_of f k (Suc c) ! j)) * (ks @ ks) ! (k - Suc c mod k + j)) = convolved chan ks f c"
proof -
  let ?g = "\<lambda>j. of_int (chan (ring_of f k (Suc c) ! j)) * (ks @ ks) ! (k - Suc c mod k + j)"
  have "(\<Sum>j < k. ?g j) = (\<Sum>t < k. ?g (place k c t))"
    using sum.reindex [OF place_inj, of ?g k c] place_image [OF assms(2), of c] by simp
  also have "\<dots> = (\<Sum>t < k. of_int (chan (ago f c t)) * ks ! (k - 1 - t))"
  proof (rule sum.cong [OF refl])
    fix t assume "t \<in> {..<k}"
    then have "t < k" by simp
    then show "?g (place k c t) = of_int (chan (ago f c t)) * ks ! (k - 1 - t)" by (simp only: ring_ago weight_at [OF _ assms(1)])
  qed
  also have "\<dots> = (\<Sum>t < k. of_int (chan (ago f c (k - Suc t))) * ks ! t)"
    by (subst sum.nat_diff_reindex [symmetric]) (auto intro!: sum.cong)
  also have "\<dots> = convolved chan ks f c"
    unfolding convolved_def assms(1) by (rule sum.cong) (auto simp: ago_def assms(3) mult.commute intro!: arg_cong [of _ _ chan] arg_cong [of _ _ f])
  finally show ?thesis .
qed

lemma ring_fold_exact:
  assumes "channel_pair sel chan"
  shows "sel (ring_fold exact_arith kvals koff L) = (\<Sum>j < length L. of_int (chan (L ! j)) * kvals ! (koff + j))"
proof -
  have "sel (foldl (\<lambda>fvs j. add_weighted exact_arith (L ! j) (kvals ! (koff + j)) fvs) (no_fvals exact_arith) [0..<n])
      = (\<Sum>j < n. of_int (chan (L ! j)) * kvals ! (koff + j))" for n
    by (induction n) (use assms in \<open>auto simp: channel_pair_def add_weighted_def no_fvals_def exact_arith_simps\<close>)
  then show ?thesis by (simp add: ring_fold_def)
qed

definition convolved_pixel :: "real list \<Rightarrow> (nat \<Rightarrow> jint) \<Rightarrow> nat \<Rightarrow> jint" where
  "convolved_pixel ks f c = pack (to_byte (convolved px_A ks f c)) (to_byte (convolved px_R ks f c)) (to_byte (convolved px_G ks f c)) (to_byte (convolved px_B ks f c))"

lemma ring_pixel_exact:
  assumes "length ks = k" "0 < k"
  shows "fvals_pixel exact_arith (ring_fold exact_arith (ks @ ks) (k - Suc c mod k) (ring_of f k (Suc c))) = convolved_pixel ks f c"
proof -
  have "sel (ring_fold exact_arith (ks @ ks) (k - Suc c mod k) (ring_of f k (Suc c))) = convolved chan ks f c" if "channel_pair sel chan" "chan 0 = 0" for sel chan
    unfolding ring_fold_exact [OF that(1)] ring_of_length by (rule ring_convolved [where chan = chan, OF assms that(2)])
  from this [of FVAL_A px_A] this [of FVAL_R px_R] this [of FVAL_G px_G] this [of FVAL_B px_B]
  show ?thesis by (simp add: fvals_pixel_exact convolved_pixel_def channel_pair_def)
qed

lemma convolved_premult:
  assumes "\<forall>w \<in> set ks. 0 \<le> w" "\<And>i. premult (f i)"
  shows "premult (convolved_pixel ks f c)"
proof -
  have "convolved chan ks f c \<le> convolved px_A ks f c" if "chan \<in> {px_R, px_G, px_B}" for chan
    unfolding convolved_def using assms that by (intro sum_mono mult_left_mono) (auto simp: premult_def)
  then show ?thesis unfolding convolved_pixel_def by (intro premult_packI to_byte_chan to_byte_mono) auto
qed

lemma convolved_const:
  assumes "sum_list ks = 1" "length ks \<le> Suc c" "\<And>i. i \<le> c \<Longrightarrow> c < i + length ks \<Longrightarrow> f i = p" "is_i32 p"
  shows "convolved_pixel ks f c = p"
proof -
  have "convolved chan ks f c = of_int (chan p)" for chan
  proof -
    have "convolved chan ks f c = (\<Sum>i < length ks. ks ! i * of_int (chan p))"
      unfolding convolved_def using assms(2) by (intro sum.cong) (auto simp: assms(3))
    also have "\<dots> = sum_list ks * of_int (chan p)" by (simp add: sum_list_sum_nth atLeast0LessThan sum_distrib_right)
    finally show ?thesis using assms(1) by simp
  qed
  then show ?thesis
    using is_chan_px [of p] assms(4) by (simp add: convolved_pixel_def to_byte_int is_chan_def pack_px)
qed

lemma line_of_premult: "lines_in src ri ci rows cols \<Longrightarrow> r < rows \<Longrightarrow> \<forall>p \<in> set src. premult p \<Longrightarrow> premult (line_of src ri ci cols r i)"
  by (auto simp: line_of_def lines_in_def premult_def)

text \<open>
  C11: a pass of the convolution convolves. In exact arithmetic every pixel of the destination is the packed convolution of its line of the source, along rows or
  along columns, with the kernel, transparent pixels around the line; the ring and the doubled kernel compute it for every column, also after the offset has
  wrapped. With weights that are not negative the image stays premultiplied, and with weights that sum to 1 an area of one colour as wide as the kernel keeps it.
\<close>

theorem convolve_exact:
  assumes "0 < length ks" "length ks \<le> 128" "lines_in src sri sci rows sc" "grid_ok d ri ci rows cols"
  shows "\<exists>d'. (\<forall>stack. length stack = 512 \<longrightarrow>
        filterHV exact_arith True stack d (int cols) (int rows) (int ci) (int ri) src (int sc) srcrows (int sci) (int sri) (ks @ ks) = Some d')
    \<and> (\<forall>r < rows. \<forall>c < cols.
        d' ! (r * ri + c * ci) = convolved_pixel ks (line_of src sri sci sc r) c
        \<and> ((\<forall>w \<in> set ks. 0 \<le> w) \<and> (\<forall>p \<in> set src. premult p) \<longrightarrow> premult (d' ! (r * ri + c * ci)))
        \<and> (\<forall>p. sum_list ks = 1 \<and> length ks \<le> Suc c \<and> is_i32 p \<and> (\<forall>i \<le> c. c < i + length ks \<longrightarrow> line_of src sri sci sc r i = p)
             \<longrightarrow> d' ! (r * ri + c * ci) = p))"
proof -
  have "length (ks @ ks) = 2 * length ks" by simp
  from filterHV_run [OF assms(1,2) this assms(3,4), where fl = exact_arith, unfolded ring_pixel_exact [OF refl assms(1)]]
  obtain d' where run: "\<forall>stack. length stack = 512 \<longrightarrow>
        filterHV exact_arith True stack d (int cols) (int rows) (int ci) (int ri) src (int sc) srcrows (int sci) (int sri) (ks @ ks) = Some d'"
    and "grid_of d ri ci rows cols (\<lambda>r c. convolved_pixel ks (line_of src sri sci sc r) c) d'" by blast
  then have px: "d' ! (r * ri + c * ci) = convolved_pixel ks (line_of src sri sci sc r) c" if "r < rows" "c < cols" for r c
    using that by (simp add: grid_of_def)
  show ?thesis
    by (rule exI [of _ d'], intro conjI run, clarsimp simp: px) (auto intro: convolved_premult convolved_const line_of_premult [OF assms(3)])
qed

lemma sample_lines: "lines_in [-1, 0] 2 1 1 2" "grid_ok [9, 9, 9, 9] 4 1 1 3"
  by (auto simp: lines_in_def grid_ok_def inj_on_def)

lemma sample_convolved: "convolved chan [1 / 2, 1 / 2] (line_of [-1, 0] 2 1 2 0) 1 = (of_int (chan (- 1)) + of_int (chan 0)) / 2"
  by (simp add: convolved_def line_of_def numeral_2_eq_2 add_divide_distrib)

theorem convolve_exact_witness:
  "\<exists>d'. filterHV exact_arith True (replicate 512 7) [9, 9, 9, 9] 3 1 1 4 [-1, 0] 2 1 1 2 [1 / 2, 1 / 2, 1 / 2, 1 / 2] = Some d' \<and> d' ! 1 = pack 127 127 127 127"
proof -
  have "convolved_pixel [1 / 2, 1 / 2] (line_of [-1, 0] 2 1 2 0) 1 = pack 127 127 127 127"
    unfolding convolved_pixel_def sample_convolved by (simp add: to_byte_def px_A_def px_R_def px_G_def px_B_def)
  with convolve_exact [of "[1 / 2, 1 / 2]", OF _ _ sample_lines, of 1] show ?thesis by fastforce
qed

section \<open>The shadow\<close>

definition float_exact :: "(real, real) float_arith" where
  "float_exact = arith.extend exact_arith (float_arith.fields (\<le>))"

lemma float_exact_ops:
  "f_mul float_exact = (*)" "f_add float_exact = (+)" "f_of_jint float_exact = of_int" "f_less float_exact = (<)" "f_le float_exact = (\<le>)" "f_neg float_exact = uminus"
  "f_half float_exact = 1 / 2" "f_to_jint float_exact = (\<lambda>x. if x < 0 then \<lceil>x\<rceil> else \<lfloor>x\<rfloor>)"
  by (simp_all add: float_exact_def arith.defs float_arith.defs f_half_def exact_arith_def)

lemma lookup_ok_exact: "lookup_ok float_exact kvals"
  unfolding lookup_ok_def by (rule exI [of _ UNIV]) (auto simp: float_exact_ops floor_le_iff)

theorem convolve_safe_witness:
  "\<exists>a. filterHV float_exact True (replicate 512 7) [9, 9, 9, 9] 3 1 1 4 [-1, 0] 2 1 1 2 [1 / 2, 1 / 2, 1 / 2, 1 / 2] = Some a \<and> a ! 3 = 9"
proof -
  from convolve_safe [where k = 2 and kvals = "[1 / 2, 1 / 2, 1 / 2, 1 / 2]", OF _ _ _ sample_lines lookup_ok_exact, of "[0, 0, 0, 1]" 1] show ?thesis by force
qed

lemma alpha_fold_exact: "alpha_fold float_exact kvals koff L = (\<Sum>j < length L. of_int (px_A (L ! j)) * kvals ! (koff + j)) - 1 / 2"
proof -
  have "foldl (\<lambda>s j. s + of_int (px_A (L ! j)) * kvals ! (koff + j)) (- (1 / 2)) [0..<n] = (\<Sum>j < n. of_int (px_A (L ! j)) * kvals ! (koff + j)) - 1 / 2" for n
    by (induction n) auto
  then show ?thesis by (simp add: alpha_fold_def float_exact_ops)
qed

text \<open>The level of a shadow is the nearest integer from 0 to 255.\<close>

definition nearest_level :: "real \<Rightarrow> int" where
  "nearest_level x = max 0 (min 255 \<lfloor>x + 1 / 2\<rfloor>)"

text \<open>A shadow colour whose red, green and blue are premultiplied by its alpha.\<close>

definition shade_ok :: "real list \<Rightarrow> bool" where
  "shade_ok tone \<longleftrightarrow> length tone = 4 \<and> (\<forall>i < 3. 0 \<le> tone ! i \<and> tone ! i \<le> tone ! 3) \<and> tone ! 3 \<le> 1"

definition shade_pixel :: "real list \<Rightarrow> int \<Rightarrow> jint" where
  "shade_pixel tone n = pack \<lfloor>tone ! 3 * of_int n\<rfloor> \<lfloor>tone ! 0 * of_int n\<rfloor> \<lfloor>tone ! 1 * of_int n\<rfloor> \<lfloor>tone ! 2 * of_int n\<rfloor>"

lemma shade_chan:
  assumes "shade_ok tone" "i < 4" "0 \<le> n" "n \<le> 255"
  shows "0 \<le> tone ! i * of_int n" "is_chan \<lfloor>tone ! i * of_int n\<rfloor>" "\<lfloor>tone ! i * of_int n\<rfloor> \<le> \<lfloor>tone ! 3 * of_int n\<rfloor>"
proof -
  have t: "0 \<le> tone ! i \<and> tone ! i \<le> tone ! 3 \<and> tone ! 3 \<le> 1"
    using assms(1,2) unfolding shade_ok_def by (cases "i < 3") (auto simp: less_Suc_eq numeral_eq_Suc)
  then show p: "0 \<le> tone ! i * of_int n" using assms(3) by simp
  show "\<lfloor>tone ! i * of_int n\<rfloor> \<le> \<lfloor>tone ! 3 * of_int n\<rfloor>" using t assms(3) by (intro floor_mono mult_right_mono) auto
  have "tone ! i * of_int n \<le> 1 * of_int n" using t assms(3) by (intro mult_right_mono) auto
  with p assms(4) show "is_chan \<lfloor>tone ! i * of_int n\<rfloor>" by (simp add: is_chan_def le_floor_iff floor_le_iff)
qed

lemma shade_pixel_premult: "shade_ok tone \<Longrightarrow> 0 \<le> n \<Longrightarrow> n \<le> 255 \<Longrightarrow> premult (shade_pixel tone n)"
  unfolding shade_pixel_def by (intro premult_packI shade_chan) auto

lemma shadow_rgb_exact:
  assumes "shade_ok tone" "0 \<le> n" "n \<le> 255"
  shows "shadow_rgb float_exact tone (of_int n) = Some (shade_pixel tone n)"
proof -
  have "length tone = 4" using assms(1) by (simp add: shade_ok_def)
  then have ag: "aget tone 0 = Some (tone ! 0)" "aget tone 1 = Some (tone ! 1)" "aget tone 2 = Some (tone ! 2)" "aget tone 3 = Some (tone ! 3)" by (simp_all add: aget_def)
  have cast: "f_to_jint float_exact (tone ! i * of_int n) = \<lfloor>tone ! i * of_int n\<rfloor>" if "i < 4" for i
    using shade_chan(1) [OF assms(1) that assms(2,3)] by (simp add: float_exact_ops)
  show ?thesis
    unfolding shadow_rgb_def ag Option.bind.bind_lunit shade_pixel_def pack_def float_exact_ops(1) using cast [of 0] cast [of 1] cast [of 2] cast [of 3]
    by (simp add: ac_simps)
qed

lemma table_entry_exact:
  assumes "shade_ok tone" "\<And>i. i < 256 \<Longrightarrow> T ! i = shade_pixel tone (int i)"
  shows "table_entry float_exact T (x - 1 / 2) = shade_pixel tone (nearest_level x)"
proof -
  have zero: "shade_pixel tone 0 = 0" by (simp add: shade_pixel_def pack_def i32_small)
  consider "x < 1 / 2" | "254 + 1 / 2 \<le> x" | "1 / 2 \<le> x" "x < 254 + 1 / 2" by linarith
  then show ?thesis
  proof cases
    case 1
    then have "\<lfloor>x + 1 / 2\<rfloor> \<le> 0" by (simp add: floor_le_iff)
    then have "nearest_level x = 0" by (simp add: nearest_level_def)
    with 1 zero show ?thesis by (simp add: table_entry_def float_exact_ops)
  next
    case 2
    then have "255 \<le> \<lfloor>x + 1 / 2\<rfloor>" by (simp add: le_floor_iff)
    with 2 show ?thesis using assms(2) [of 255] by (simp add: table_entry_def float_exact_ops nearest_level_def)
  next
    case 3
    have n: "\<lfloor>x - 1 / 2\<rfloor> + 1 = \<lfloor>x + 1 / 2\<rfloor>" using floor_add_int [of "x - 1 / 2" 1] by (simp add: algebra_simps)
    have l: "1 \<le> \<lfloor>x + 1 / 2\<rfloor>" "\<lfloor>x + 1 / 2\<rfloor> \<le> 254" using 3 by (simp_all add: le_floor_iff floor_le_iff)
    have "T ! nat z = shade_pixel tone z" if "1 \<le> z" "z \<le> 254" for z using assms(2) [of "nat z"] that by simp
    from this [OF l] have "T ! nat \<lfloor>x + 1 / 2\<rfloor> = shade_pixel tone \<lfloor>x + 1 / 2\<rfloor>" .
    with 3 n l show ?thesis by (simp add: table_entry_def float_exact_ops nearest_level_def)
  qed
qed

text \<open>
  C22: a shadow is the convolved alpha in the colour of the shadow. In exact arithmetic every pixel that the shadow's filter writes is the shadow colour at the level
  nearest to the convolution of the alpha channel, from 0 to 255: starting the sum at -0.5 and adding 1 to the index rounds to the nearest level. The pixel is
  premultiplied if the shadow colour is.
\<close>

theorem shadow_convolve_exact:
  assumes "0 < length ks" "length ks \<le> 128" "lines_in src sri sci rows sc" "grid_ok d ri ci rows cols" "shade_ok tone"
  shows "\<exists>d'. (\<forall>stack. length stack = 128 \<longrightarrow>
        shadow_filterHV float_exact True stack d (int cols) (int rows) (int ci) (int ri) src (int sc) srcrows (int sci) (int sri) (ks @ ks) tone = Some d')
    \<and> (\<forall>r < rows. \<forall>c < cols. d' ! (r * ri + c * ci) = shade_pixel tone (nearest_level (convolved px_A ks (line_of src sri sci sc r) c))
        \<and> premult (d' ! (r * ri + c * ci)))"
proof -
  have k: "length (ks @ ks) = 2 * length ks" "4 \<le> length tone" using assms(5) by (simp_all add: shade_ok_def)
  obtain T where T: "shadow_table float_exact tone = Some T" "length T = 256" "\<And>i. i < 256 \<Longrightarrow> shadow_rgb float_exact tone (of_int (int i)) = Some (T ! i)"
    using shadow_table_run [OF k(2), of float_exact] unfolding float_exact_ops by blast
  have T': "T ! i = shade_pixel tone (int i)" if "i < 256" for i using T(3) [OF that] shadow_rgb_exact [OF assms(5), of "int i"] that by simp
  have px: "table_entry float_exact T (alpha_fold float_exact (ks @ ks) (length ks - Suc c mod length ks) (ring_of f (length ks) (Suc c)))
      = shade_pixel tone (nearest_level (convolved px_A ks f c))" for f c
    unfolding alpha_fold_exact ring_of_length ring_convolved [where chan = px_A, OF refl assms(1) px_0(1)] by (rule table_entry_exact [OF assms(5) T'])
  have pre: "premult (shade_pixel tone (nearest_level x))" for x by (rule shade_pixel_premult [OF assms(5)]) (auto simp: nearest_level_def)
  from shadow_filterHV_run [OF assms(1,2) k(1) assms(3,4) lookup_ok_exact T(1,2), unfolded px]
  obtain d' where run: "\<forall>stack. length stack = 128 \<longrightarrow>
        shadow_filterHV float_exact True stack d (int cols) (int rows) (int ci) (int ri) src (int sc) srcrows (int sci) (int sri) (ks @ ks) tone = Some d'"
    and "grid_of d ri ci rows cols (\<lambda>r c. shade_pixel tone (nearest_level (convolved px_A ks (line_of src sri sci sc r) c))) d'" by blast
  then have "d' ! (r * ri + c * ci) = shade_pixel tone (nearest_level (convolved px_A ks (line_of src sri sci sc r) c))" if "r < rows" "c < cols" for r c
    using that by (simp add: grid_of_def)
  with run pre show ?thesis by (intro exI [of _ d']) simp
qed

theorem shadow_convolve_exact_witness:
  "\<exists>d'. shadow_filterHV float_exact True (replicate 128 7) [9, 9, 9, 9] 3 1 1 4 [-1, 0] 2 1 1 2 [1 / 2, 1 / 2, 1 / 2, 1 / 2] [0, 0, 0, 1] = Some d' \<and> d' ! 1 = pack 128 0 0 0"
proof -
  have "shade_ok [0, 0, 0, 1]" by (auto simp: shade_ok_def less_Suc_eq numeral_eq_Suc)
  moreover have "shade_pixel [0, 0, 0, 1] (nearest_level (convolved px_A [1 / 2, 1 / 2] (line_of [-1, 0] 2 1 2 0) 1)) = pack 128 0 0 0"
    unfolding nearest_level_def sample_convolved by (simp add: shade_pixel_def px_A_def)
  ultimately show ?thesis using shadow_convolve_exact [of "[1 / 2, 1 / 2]", OF _ _ sample_lines, of "[0, 0, 0, 1]" 1] by fastforce
qed

section \<open>Any line\<close>

text \<open>The value of a coordinate after \<open>n\<close> additions of a step.\<close>

definition steps :: "('f, 'd, 'z) arith_scheme \<Rightarrow> nat \<Rightarrow> 'f \<Rightarrow> 'f \<Rightarrow> 'f" where
  "steps fl n d x = ((\<lambda>v. f_add fl v d) ^^ n) x"

lemma steps_rec [simp]: "steps fl 0 d x = x" "f_add fl (steps fl n d x) d = steps fl (Suc n) d x"
  by (simp_all add: steps_def)

lemma steps_exact: "steps exact_arith n d x = x + real n * d"
  by (induction n) (simp_all add: steps_def exact_arith_simps algebra_simps)

definition first_pixel :: "('f, 'd, 'z) arith_scheme \<Rightarrow> 'f \<Rightarrow> 'f \<Rightarrow> 'f \<Rightarrow> 'f" where
  "first_pixel fl x dcol drow = f_add fl x (f_mul fl (f_add fl drow dcol) (f_half fl))"

lemma vector_loop_run:
  assumes im: "image_ok d ds w h" and px: "\<And>sx sy. pixel sx sy = Some (px sx sy)"
  shows "\<exists>d'. vector_loop fl pixel d (int w) (int h) (int ds) srcx0 srcy0 dxcol dycol dxrow dyrow = Some d'
    \<and> image_of d ds w h (\<lambda>y x. px (steps fl x dxcol (steps fl y dxrow (first_pixel fl srcx0 dxcol dxrow)))
        (steps fl x dycol (steps fl y dyrow (first_pixel fl srcy0 dycol dyrow)))) d'"
proof -
  let ?X = "\<lambda>y. steps fl y dxrow (first_pixel fl srcx0 dxcol dxrow)" and ?Y = "\<lambda>y. steps fl y dyrow (first_pixel fl srcy0 dycol dyrow)"
  let ?px = "\<lambda>y x. px (steps fl x dxcol (?X y)) (steps fl x dycol (?Y y))"
  note dst = image_rows [OF im]
  obtain g where g: "\<And>y x. y < h \<Longrightarrow> x < w \<Longrightarrow> g (y * ds + x * 1) = ?px y x" using grid_function [OF dst, of ?px] by blast
  let ?col = "\<lambda>dstrow (dx, srcx, srcy, p). do { v \<leftarrow> pixel srcx srcy; p \<leftarrow> aset p (i32 (dstrow + dx)) v; Some (dx + 1, f_add fl srcx dxcol, f_add fl srcy dycol, p) }"
  have cols: "iter_opt w (?col (i32 (int (y * ds)))) (0, ?X y, ?Y y, filled d V g)
      = Some (int w, steps fl w dxcol (?X y), steps fl w dycol (?Y y), filled d ((\<lambda>x. y * ds + x * 1) ` {..<w} \<union> V) g)" if y: "y < h" for y V
  proof -
    let ?I = "\<lambda>x st. st = (int x, steps fl x dxcol (?X y), steps fl x dycol (?Y y), filled d ((\<lambda>x. y * ds + x * 1) ` {..<x} \<union> V) g)"
    have "\<exists>st. iter_opt w (?col (i32 (int (y * ds)))) (0, ?X y, ?Y y, filled d V g) = Some st \<and> ?I w st"
    proof (rule iter_opt_counter_inv [where I = ?I])
      fix x st assume x: "x < w" and st: "?I x st"
      have lt: "y * ds + x * 1 < length d" "length d < 2147483648" using dst x y by (auto simp: grid_ok_def)
      then have "i32 (i32 (int (y * ds)) + int x) = int (y * ds + x * 1)" using i32_int [of "y * ds + x * 1"] by (simp add: i32_add_wrap)
      then have "aset (filled d V' g) (i32 (i32 (int (y * ds)) + int x)) (?px y x) = Some (filled d (insert (y * ds + x * 1) V') g)" for V'
        using lt g [OF y x] by (intro aset_filled) auto
      moreover have "insert (y * ds + x * 1) ((\<lambda>x. y * ds + x * 1) ` {..<x} \<union> V) = (\<lambda>x. y * ds + x * 1) ` {..<Suc x} \<union> V" by (auto simp: lessThan_Suc)
      ultimately show "\<exists>st'. ?col (i32 (int (y * ds))) st = Some st' \<and> ?I (Suc x) st'" unfolding st prod.case px Option.bind.bind_lunit steps_rec by simp
    qed simp
    then show ?thesis by simp
  qed
  let ?row = "\<lambda>(dstrow, sx, sy, p). do { (_, _, _, p) \<leftarrow> iter_opt w (?col dstrow) (0, sx, sy, p); Some (i32 (dstrow + int ds), f_add fl sx dxrow, f_add fl sy dyrow, p) }"
  let ?J = "\<lambda>y st. st = (i32 (int (y * ds)), ?X y, ?Y y, filled d (grid_cells ds 1 y w) g)"
  have "\<exists>st. iter_opt h ?row (0, ?X 0, ?Y 0, d) = Some st \<and> ?J h st"
    by (rule iter_opt_counter_inv [where I = ?J])
      (simp_all only: prod.case cols Option.bind.bind_lunit steps_rec i32_next grid_cells_Suc option.inject ex_simps simp_thms, auto simp: grid_cells_def i32_small)
  then have "vector_loop fl pixel d (int w) (int h) (int ds) srcx0 srcy0 dxcol dycol dxrow dyrow = Some (filled d (grid_cells ds 1 h w) g)"
    by (simp add: vector_loop_def first_pixel_def Let_def)
  moreover have "grid_of d ds 1 h w ?px (filled d (grid_cells ds 1 h w) g)" by (rule filled_grid [OF dst]) (rule g)
  ultimately show ?thesis by (auto simp: grid_of_def image_of_def)
qed

text \<open>Whatever the arithmetic, a pixel is computed without an access outside the image and the weights.\<close>

lemma vector_pixel_safe:
  assumes "cast_ok fl" "image_ok img scan w h" "n \<le> length weights"
  shows "\<exists>p. vector_pixel fl img (int w) (int h) (int scan) weights (int n) ox oy dx dy sx sy = Some p"
proof -
  let ?body = "\<lambda>(i, x, y, fvals). do { weight \<leftarrow> aget weights i; fvals \<leftarrow> laccumsample fl img x y (int w) (int h) (int scan) weight fvals;
    Some (i + 1, f_add fl x dx, f_add fl y dy, fvals) }"
  have "\<exists>st. iter_opt n ?body (0, f_add fl sx ox, f_add fl sy oy, no_fvals fl) = Some st \<and> fst st = int n"
  proof (rule iter_opt_counter_inv [where I = "\<lambda>k st. fst st = int k"], goal_cases)
    case (1 k st)
    obtain x y fv where st: "st = (int k, x, y, fv)" using 1(2) by (cases st) auto
    have "aget weights (int k) = Some (weights ! k)" using 1(1) assms(3) by (simp add: aget_def)
    moreover have "\<exists>fv'. laccumsample fl img x y (int w) (int h) (int scan) (weights ! k) fv = Some fv'"
      using pixels.sample_safe [OF assms(2,1), where g = "\<lambda>weight. f_mul fl weight (f_mul fl (weights ! k) (f_of_jint fl 255))" and af = fl]
      by (simp add: laccumsample_def Let_def)
    ultimately show ?case by (auto simp: st)
  qed simp
  then show ?thesis by (auto simp: vector_pixel_def)
qed

text \<open>What the shadow relies on: a number that is not below 0 does not convert to a negative one.\<close>

definition cast_from_0 :: "('f, 'd) float_arith \<Rightarrow> bool" where
  "cast_from_0 fl \<longleftrightarrow> (\<forall>x. f_le fl (f_of_jint fl 0) x \<longrightarrow> 0 \<le> f_to_jint fl x)"

lemma shadow_sample_safe:
  assumes "cast_from_0 fl" "image_ok img scan w h"
  shows "\<exists>v. shadow_sample fl img (int w) (int h) (int scan) x y weight tot = Some v"
proof (cases "f_le fl (f_of_jint fl 0) x \<and> f_le fl (f_of_jint fl 0) y \<and> f_to_jint fl x < int w \<and> f_to_jint fl y < int h")
  case True
  then obtain c r where cr: "f_to_jint fl x = int c" "f_to_jint fl y = int r" "c < w" "r < h"
    using assms(1) by (metis cast_from_0_def nonneg_int_cases of_nat_less_iff)
  define q where "q = r * scan + c"
  have q: "q < length img" "length img < 2147483648" using assms(2) cr(3,4) by (simp_all add: image_ok_def q_def)
  have "int r * int scan + int c = int q" by (simp add: q_def)
  then have "aget img (i32 (int r * int scan + int c)) = Some (img ! q)" using q i32_int [of q] by (simp add: aget_def)
  then show ?thesis using True cr by (simp add: shadow_sample_def)
qed (auto simp: shadow_sample_def Let_def)

lemma shadow_vector_pixel_safe:
  assumes "cast_from_0 fl" "image_ok img scan w h" "n \<le> length weights" "4 \<le> length tone"
  shows "\<exists>p. shadow_vector_pixel fl img (int w) (int h) (int scan) weights (int n) tone ox oy dx dy sx sy = Some p"
proof -
  let ?body = "\<lambda>(i, x, y, tot). do { weight \<leftarrow> aget weights i; tot \<leftarrow> shadow_sample fl img (int w) (int h) (int scan) x y weight tot;
    Some (i + 1, f_add fl x dx, f_add fl y dy, tot) }"
  have "\<exists>st. iter_opt n ?body (0, f_add fl sx ox, f_add fl sy oy, f_of_jint fl 0) = Some st \<and> fst st = int n"
  proof (rule iter_opt_counter_inv [where I = "\<lambda>k st. fst st = int k"], goal_cases)
    case (1 k st)
    obtain x y s where st: "st = (int k, x, y, s)" using 1(2) by (cases st) auto
    have "aget weights (int k) = Some (weights ! k)" using 1(1) assms(3) by (simp add: aget_def)
    then show ?case using shadow_sample_safe [OF assms(1,2), of x y "weights ! k" s] by (auto simp: st)
  qed simp
  with shadow_rgb_total [OF assms(4), of fl] show ?thesis by (auto simp: shadow_vector_pixel_def Let_def)
qed

text \<open>
  The convolutions along any line stay in their arrays. For every kernel of up to 128 weights, every position, direction and step, whatever the arithmetic rounds
  to, both filters return and change only the pixels of the destination, as long as the conversion to \<open>int\<close> of a number that is not negative is not negative.
\<close>

theorem convolve_line_safe:
  assumes "cast_ok fl" "cast_from_0 fl" "image_ok img scan w h" "image_ok d ds dw dh" "n \<le> length weights" "n \<le> 128" "4 \<le> length tone"
  shows "\<exists>a b px py.
      filterVector fl True d (int dw) (int dh) (int ds) img (int w) (int h) (int scan) weights (int n) x0 y0 ox oy dx dy xc yc xr yr = Some a
    \<and> shadow_filterVector fl True d (int dw) (int dh) (int ds) img (int w) (int h) (int scan) weights (int n) x0 y0 ox oy dx dy tone xc yc xr yr = Some b
    \<and> image_of d ds dw dh px a \<and> image_of d ds dw dh py b"
proof -
  from vector_pixel_safe [OF assms(1,3,5)] obtain p where
    p: "\<And>sx sy. vector_pixel fl img (int w) (int h) (int scan) weights (int n) ox oy dx dy sx sy = Some (p sx sy)" by metis
  from shadow_vector_pixel_safe [OF assms(2,3,5,7)] obtain q where
    q: "\<And>sx sy. shadow_vector_pixel fl img (int w) (int h) (int scan) weights (int n) tone ox oy dx dy sx sy = Some (q sx sy)" by metis
  have "\<not> 128 < int n" using assms(6) by simp
  then show ?thesis
    using vector_loop_run [OF assms(4), where fl = fl and px = p, OF p] vector_loop_run [OF assms(4), where fl = fl and px = q, OF q]
    unfolding filterVector_def shadow_filterVector_def by (simp only: if_False if_True simp_thms) blast
qed

text \<open>The weighted sum of the samples along a line, each interpolated between the pixels of the image.\<close>

definition line_sum :: "(jint \<Rightarrow> jint) \<Rightarrow> jint list \<Rightarrow> nat \<Rightarrow> nat \<Rightarrow> nat \<Rightarrow> real list \<Rightarrow> nat \<Rightarrow> real \<Rightarrow> real \<Rightarrow> real \<Rightarrow> real \<Rightarrow> real" where
  "line_sum chan img scan w h weights n dx dy x y =
     (\<Sum>i < n. weights ! i * bilinear chan img scan w h (x + real i * dx - 1 / 2) (y + real i * dy - 1 / 2))"

definition line_pixel :: "jint list \<Rightarrow> nat \<Rightarrow> nat \<Rightarrow> nat \<Rightarrow> real list \<Rightarrow> nat \<Rightarrow> real \<Rightarrow> real \<Rightarrow> real \<Rightarrow> real \<Rightarrow> jint" where
  "line_pixel img scan w h weights n dx dy x y =
     (let s = (\<lambda>chan. to_byte (line_sum chan img scan w h weights n dx dy x y)) in pack (s px_A) (s px_R) (s px_G) (s px_B))"

lemma exact_half: "f_half exact_arith = 1 / 2"
  by (simp add: f_half_def exact_arith_simps)

lemma laccumsample_exact:
  assumes "image_ok img scan w h"
  shows "\<exists>fa. laccumsample exact_arith img x y (int w) (int h) (int scan) factor fv = Some fa
    \<and> (\<forall>sel c. channel_pair sel c \<longrightarrow> sel fa = sel fv + factor * bilinear c img scan w h (x - 1 / 2) (y - 1 / 2))"
proof -
  have pos: "z + 1 / 2 - 1 = z - 1 / 2" for z :: real by simp
  show ?thesis
    using sample_at_exact [OF assms, where F = "factor * 255" and X = "x + 1 / 2" and Y = "y + 1 / 2" and fv = fv]
    unfolding laccumsample_def exact_ops exact_half pos Let_def by simp
qed

lemma vector_pixel_exact:
  assumes "image_ok img scan w h" "n \<le> length weights"
  shows "vector_pixel exact_arith img (int w) (int h) (int scan) weights (int n) ox oy dx dy sx sy = Some (line_pixel img scan w h weights n dx dy (sx + ox) (sy + oy))"
proof -
  let ?body = "\<lambda>(i, x, y, fvals). do { weight \<leftarrow> aget weights i; fvals \<leftarrow> laccumsample exact_arith img x y (int w) (int h) (int scan) weight fvals;
    Some (i + 1, f_add exact_arith x dx, f_add exact_arith y dy, fvals) }"
  let ?I = "\<lambda>k st. \<exists>fv. st = (int k, sx + ox + real k * dx, sy + oy + real k * dy, fv)
    \<and> (\<forall>sel c. channel_pair sel c \<longrightarrow> sel fv = line_sum c img scan w h weights k dx dy (sx + ox) (sy + oy))"
  have "\<exists>st. iter_opt n ?body (0, sx + ox, sy + oy, no_fvals exact_arith) = Some st \<and> ?I n st"
  proof (rule iter_opt_counter_inv [where I = ?I], goal_cases)
    case (1 k st)
    then obtain fv where st: "st = (int k, sx + ox + real k * dx, sy + oy + real k * dy, fv)"
      and fv: "\<And>sel c. channel_pair sel c \<Longrightarrow> sel fv = line_sum c img scan w h weights k dx dy (sx + ox) (sy + oy)" by blast
    have "aget weights (int k) = Some (weights ! k)" using 1(1) assms(2) by (simp add: aget_def)
    moreover obtain fa where fa: "laccumsample exact_arith img (sx + ox + real k * dx) (sy + oy + real k * dy) (int w) (int h) (int scan) (weights ! k) fv = Some fa"
      "\<And>sel c. channel_pair sel c \<Longrightarrow> sel fa = line_sum c img scan w h weights (Suc k) dx dy (sx + ox) (sy + oy)"
      using laccumsample_exact [OF assms(1), of "sx + ox + real k * dx" "sy + oy + real k * dy" "weights ! k" fv] by (auto simp: fv line_sum_def)
    ultimately show ?case by (simp add: st exact_ops algebra_simps)
  qed (auto simp: channel_pair_def no_fvals_def line_sum_def exact_arith_simps)
  then obtain fv where "iter_opt n ?body (0, sx + ox, sy + oy, no_fvals exact_arith) = Some (int n, sx + ox + real n * dx, sy + oy + real n * dy, fv)"
    and fv: "\<And>sel c. channel_pair sel c \<Longrightarrow> sel fv = line_sum c img scan w h weights n dx dy (sx + ox) (sy + oy)" by blast
  moreover have "fvals_pixel exact_arith fv = line_pixel img scan w h weights n dx dy (sx + ox) (sy + oy)"
    using fv [of FVAL_A px_A] fv [of FVAL_R px_R] fv [of FVAL_G px_G] fv [of FVAL_B px_B]
    by (simp add: fvals_pixel_exact channel_pair_def line_pixel_def)
  ultimately show ?thesis by (simp add: vector_pixel_def exact_ops)
qed



end
