(* ===== verification/Spec2Isabelle.thy ===== *)
theory Spec2Isabelle
  imports PiscesMask PiscesSurface PiscesTexture SimdFrame HlsProgressBuffer JavaPipeline DecoraConvolve
begin

text \<open>
  Verification of native C and C++ code of OpenJFX: the software renderer Pisces (\<open>native-prism-sw\<close>), the blurs and shadows of the effects library Decora
  (\<open>native-decora\<close>), the colour converter of the media stack (\<open>jfxmedia/Utils\<close>), and the source element and the progress buffers of its GStreamer plugins
  (\<open>gstreamer/plugins/javasource\<close>, \<open>gstreamer/plugins/progressbuffer\<close>). Each theory opens with the correspondence between its definitions
  and the functions of the source.

  \<^bold>\<open>The program.\<close> Java draws through \<open>com.sun.pisces.PiscesRenderer\<close>. A native method pins the \<open>int[]\<close> of the
  surface, brings the renderer's tables of routines up to date, works out the pixels of the primitive and
  calls a paint generator and a blit through the tables. The effects of a scene work on \<open>int[]\<close> images too: a native method pins the source and the
  destination and filters one into the other. Media data are read by a source element through Java
  connections and pushed into a progress buffer, which stores them in a cache file and hands them on to the decoders; decoded
  frames are converted to packed RGB.

  \<^bold>\<open>Conventions\<close> (\<open>Prelude\<close>). A \<open>jint\<close> is an \<^typ>\<open>int\<close>, and every expression that can leave 32 bits is written
  under \<open>i32\<close> (64 bits: \<open>i64\<close>). Arrays are lists with checked access, the null pointer is the empty list. A
  function answers \<open>None\<close> where the C function has undefined behaviour (out of bounds, null pointer, division by
  zero, invalid free) or does not end, so that a theorem with \<open>= Some \<dots>\<close> says that the call returns and is
  safe. All loops are bounded: by a counter (\<open>iter_opt\<close>), by a pointer range (\<open>span\<close>) or by a measure; no fuel is used. The one loop that may run for ever,
  in \<open>java_source_getrange\<close>, is a partial function, and \<open>None\<close> is that it does not return.
  What the code gets from elsewhere is an argument: the success of \<open>malloc\<close> and of pinning, the gamma tables
  (filled with \<open>pow\<close>), \<open>float\<close> and \<open>double\<close> arithmetic (the records \<open>arith\<close> and \<open>float_arith\<close>; the theorems on gradients, samples and convolutions
  that need the values instantiate them with exact reals, the theorems on memory hold for any arithmetic), the calls of GStreamer and of the file system.

  \<^bold>\<open>Pisces.\<close>
  \<^item> \<open>PiscesPixel\<close> (\<open>PiscesBlit.c\<close>, pixel arithmetic): the blend rules; channels are exact, carries do not cross,
    premultiplied pixels stay premultiplied.
  \<^item> \<open>PiscesBlit\<close> (\<open>PiscesBlit.c\<close>, rows): the record \<open>raster\<close> is the part of \<open>struct _Renderer\<close> that the blits use;
    every blit, the \<open>emitLine\<close> routines and \<open>clearRect\<close>. The locales \<open>coverage_rule\<close> and its instances carry the row
    theorems over the composition rules.
  \<^item> \<open>PiscesLine\<close>: what \<open>emitLine\<close> and \<open>clearRect\<close> do to the rows of a rectangle.
  \<^item> \<open>PiscesPaint\<close>, \<open>PiscesGradient\<close>, \<open>PiscesTexture\<close> (\<open>PiscesPaint.c\<close>): gradients and textures; the index into the colour
    map and the texture stays in range for every matrix, the loops fill exactly the rows asked for, and in
    exact arithmetic the forward differences give the gradient function.
  \<^item> \<open>PiscesRenderer\<close> (\<open>PiscesRenderer.inl\<close>, \<open>PiscesTransform.c\<close>): the setters, the four levels of tables with their
    invalidation flags, \<open>VALIDATE_BLITTING\<close>, the texture the renderer owns. The invariant \<open>rn_inv\<close> says which table may
    be stale under which flag; every operation keeps it.
  \<^item> \<open>PiscesDraw\<close> (\<open>JPiscesRenderer.c\<close>, \<open>JJavaSurface.c\<close>): the native methods. \<open>PiscesFill\<close> and \<open>PiscesRect\<close>: a rectangle in
    16.16 coordinates is covered exactly. The locale \<open>band_law\<close> is the contract between the loop over bands of
    rows and the routine that draws a band.
  \<^item> \<open>PiscesCalls\<close>: the native methods in any order, as the reachable states of a machine that refines the
    caller's settings; ownership of textures.
  \<^item> \<open>PiscesMask\<close>: what \<open>fillAlphaMaskImpl\<close>, the call behind text, does to the pixels of the Java array.
  \<^item> \<open>PiscesSurface\<close> (\<open>JAbstractSurface.c\<close>, \<open>JJavaSurface.c\<close>, \<open>PiscesSurface.inl\<close>, with \<open>AbstractSurface.java\<close> and \<open>JavaSurface.java\<close>): life and
    death of surfaces and the copies from and to arrays of the caller, over a store of arrays, in any order; no copy leaves its arrays,
    structures are freed once, and what is written is read back.

  \<^bold>\<open>Effects.\<close>
  \<^item> \<open>DecoraBox\<close> (\<open>SSEBoxBlurPeer.cc\<close>, \<open>SSEBoxShadowPeer.cc\<close>): the box filters, rows or columns, with sums that slide along a line. The locale
    \<open>sliding_sum\<close> is what the loops rely on of the sums, interpreted on the four channels and on alpha alone; every pixel is the mean under its box.
  \<^item> \<open>DecoraSample\<close> (\<open>SSEUtils.cc\<close>): the samplers. The locale \<open>pixel_reader\<close> is what they rely on of the image; four reads are bilinear interpolation.
  \<^item> \<open>DecoraConvolve\<close> (\<open>SSELinearConvolvePeer.cc\<close>, \<open>SSELinearConvolveShadowPeer.cc\<close>): convolutions along rows, columns or any line. The locale \<open>pixel_ring\<close> is what
    the loops rely on of the ring of the last pixels, interpreted on the ring of colours and on that of alphas; the ring with the doubled kernel computes the convolution.

  \<^bold>\<open>Media.\<close>
  \<^item> \<open>ColorTables\<close>, \<open>ColorConverter\<close> (\<open>ColorConverter.c\<close>): the conversions of planar 4:2:0 and packed 4:2:2 frames to BGRA
    through the tables of the source, with the error of the tables against BT.601.
  \<^item> \<open>Simd\<close>, \<open>SimdConverter\<close>, \<open>SimdFrame\<close> (\<open>ColorConverter.c\<close>, \<open>ENABLE_SIMD_SSE2\<close>): the SSE2 instructions on registers of 16 bytes, the four vector
    converters, one text with three parameters (\<open>variant\<close>), and what they do to a frame: every pixel is a formula over the integers, all
    accesses are in bounds and aligned, and the two builds agree to within one step except for the multiplication by alpha.
  \<^item> \<open>FileCache\<close> (\<open>filecache.c\<close>): the cache file with its two positions, a queue of bytes.
  \<^item> \<open>HlsProgressBuffer\<close> (\<open>hlsprogressbuffer.c\<close>), \<open>ProgressBuffer\<close> (\<open>progressbuffer.c\<close>): the elements as step relations of
    the upstream thread, the streaming task and the application, at the granularity of the mutex; bytes
    come out in order and match the source, ring buffer and cache are used in bounds, end of stream follows
    the data. Both theories also prove the executions in which the elements fail.
  \<^item> \<open>JavaSource\<close> (\<open>javasource.c\<close>, with the file and memory connections of \<open>ConnectionHolder.java\<close> and
    their native side \<open>JavaInputStreamCallbacks.cpp\<close>): the source element. The locales
    \<open>block_reader\<close> and \<open>block_stream\<close> are what it relies on of a connection, interpreted on the connections of Java; it delivers the medium
    completely and in order, seeks and pulls are exact, and the places where it hangs or stalls are proved too.
  \<^item> \<open>JavaPipeline\<close>: the source linked to the progress buffer, with the buffer's seeks going upstream. The source meets what
    \<open>ProgressBuffer\<close> assumes of the element before it, so the bytes that reach the decoders are those of the file.

  \<^bold>\<open>Not modelled.\<close> Connections over URLs and the HLS playlist code of Java (network), \<open>initGammaArrays\<close> (\<open>pow\<close>), JNI field lookup,
  the alpha maps of \<open>struct _Renderer\<close> that no routine reads, state changes of the HLS progress buffer other than (de)activation, and the rest of the repository: windowing, OpenGL and
  Direct3D pipelines, fonts, WebKit, GStreamer and GLib, which are glue to, or copies of, other software.
\<close>

end
